(* ===== verification/Prelude.thy ===== *)
theory Prelude
  imports Main "HOL-Library.Word"
begin

text \<open>
  What the component theories share: time as the code measures it, the fixed-width
  integer operations of Rust written out on naturals and integers, list lemmas about
  stable sorting, capping and first matches, and the two lemma collections the component
  proofs pass to the simplifier.
\<close>

section \<open>Lemma collections\<close>

text \<open>
  \<open>step_defs\<close> collects the defining equations of the operations, so a preservation proof can
  unfold them by one name; \<open>frame_simps\<close> collects the equations that say which fields an
  operation leaves alone.
\<close>

named_theorems step_defs "defining equations of the operations of a component"
named_theorems frame_simps "fields an operation leaves unchanged"

section \<open>Time\<close>

text \<open>
  \<open>std::time::Instant\<close> and \<open>Duration\<close> are nanosecond counts. An instant counts from an
  arbitrary origin (the earliest instant the platform represents). \<open>duration_since\<close> and
  \<open>saturating_duration_since\<close> give zero when the other instant is later, which is the
  subtraction of naturals; \<open>checked_sub\<close> gives \<open>None\<close> there.
\<close>

type_synonym instant = nat
type_synonym duration = nat

definition millis :: "nat \<Rightarrow> duration" where
  "millis n = n * 1000000"

definition secs :: "nat \<Rightarrow> duration" where
  "secs n = n * 1000000000"

abbreviation (input) duration_since :: "instant \<Rightarrow> instant \<Rightarrow> duration" where
  "duration_since later earlier \<equiv> later - earlier"

definition checked_sub :: "instant \<Rightarrow> duration \<Rightarrow> instant option" where
  "checked_sub t d = (if d \<le> t then Some (t - d) else None)"

lemma millis_mono [simp]: "millis a \<le> millis b \<longleftrightarrow> a \<le> b"
  by (simp add: millis_def)

lemma secs_mono [simp]: "secs a \<le> secs b \<longleftrightarrow> a \<le> b"
  by (simp add: secs_def)

lemma millis_pos [simp]: "0 < millis a \<longleftrightarrow> 0 < a"
  by (simp add: millis_def)

lemma secs_pos [simp]: "0 < secs a \<longleftrightarrow> 0 < a"
  by (simp add: secs_def)

section \<open>Fixed-width integers\<close>

text \<open>
  Unsigned values are naturals below the width's bound, signed ones integers in the width's
  range. The release profile of the workspace does not turn overflow checks on, so a plain
  \<open>+\<close> wraps (\<open>wrap_u\<close>, \<open>wrap_i64\<close>); \<open>saturating_add\<close> clips at the largest value;
  \<open>saturating_sub\<close> on unsigned values is the subtraction of naturals.
\<close>

definition u8_max :: nat where "u8_max = 255"
definition u16_max :: nat where "u16_max = 65535"
definition u32_max :: nat where "u32_max = 4294967295"
definition u64_max :: nat where "u64_max = 18446744073709551615"

definition sat_add :: "nat \<Rightarrow> nat \<Rightarrow> nat \<Rightarrow> nat" where
  "sat_add hi a b = min (a + b) hi"

definition sat_mul :: "nat \<Rightarrow> nat \<Rightarrow> nat \<Rightarrow> nat" where
  "sat_mul hi a b = min (a * b) hi"

definition wrap_u :: "nat \<Rightarrow> nat \<Rightarrow> nat" where
  "wrap_u hi n = n mod (hi + 1)"

definition wrap_i64 :: "int \<Rightarrow> int" where
  "wrap_i64 n = (n + 2 ^ 63) mod 2 ^ 64 - 2 ^ 63"

definition abs_diff :: "nat \<Rightarrow> nat \<Rightarrow> nat" where
  "abs_diff a b = (if a < b then b - a else a - b)"

definition div_ceil :: "nat \<Rightarrow> nat \<Rightarrow> nat" where
  "div_ceil n d = (if n mod d = 0 then n div d else n div d + 1)"

lemma sat_add_le [simp]: "sat_add hi a b \<le> hi"
  by (simp add: sat_add_def)

lemma sat_add_ge: "a \<le> hi \<Longrightarrow> a \<le> sat_add hi a b"
  by (simp add: sat_add_def)

lemma sat_mul_le [simp]: "sat_mul hi a b \<le> hi"
  by (simp add: sat_mul_def)

lemma wrap_u_id [simp]: "n \<le> hi \<Longrightarrow> wrap_u hi n = n"
  by (simp add: wrap_u_def)

lemma wrap_u_le [simp]: "wrap_u hi n \<le> hi"
  using mod_less_divisor [of "hi + 1" n] by (simp add: wrap_u_def)

lemma wrap_i64_id [simp]: "- (2 ^ 63) \<le> n \<Longrightarrow> n < 2 ^ 63 \<Longrightarrow> wrap_i64 n = n"
  by (simp add: wrap_i64_def)

lemma wrap_i64_range: "- (2 ^ 63) \<le> wrap_i64 n \<and> wrap_i64 n < 2 ^ 63"
  by (simp add: wrap_i64_def)

lemma abs_diff_self [simp]: "abs_diff a a = 0"
  by (simp add: abs_diff_def)

lemma abs_diff_commute: "abs_diff a b = abs_diff b a"
  by (simp add: abs_diff_def)

lemma div_ceil_gt: "0 < d \<Longrightarrow> i < n \<Longrightarrow> i div d < div_ceil n d"
proof -
  assume "0 < d" "i < n"
  have "i div d \<le> n div d" using \<open>i < n\<close> by (simp add: div_le_mono)
  moreover have "i div d \<noteq> n div d" if "n mod d = 0"
  proof
    assume "i div d = n div d"
    then have "i div d * d = n" using that by (metis div_mult_mod_eq add_0_right)
    then show False using \<open>i < n\<close> div_times_less_eq_dividend [of i d] by simp
  qed
  ultimately show ?thesis by (auto simp: div_ceil_def)
qed

section \<open>Lists\<close>

text \<open>
  \<open>Vec::sort_by_key\<close> is stable, as \<open>sort_key\<close> is. \<open>cap_oldest n xs\<close> is what a queue keeps
  when it drains the excess from its front.
\<close>

definition cap_oldest :: "nat \<Rightarrow> 'a list \<Rightarrow> 'a list" where
  "cap_oldest n xs = drop (length xs - n) xs"

lemma length_cap_oldest [simp]: "length (cap_oldest n xs) = min n (length xs)"
  by (simp add: cap_oldest_def)

lemma cap_oldest_id [simp]: "length xs \<le> n \<Longrightarrow> cap_oldest n xs = xs"
  by (simp add: cap_oldest_def)

lemma set_cap_oldest: "set (cap_oldest n xs) \<subseteq> set xs"
  by (simp add: cap_oldest_def set_drop_subset)

lemma distinct_cap_oldest: "distinct (map f xs) \<Longrightarrow> distinct (map f (cap_oldest n xs))"
  by (simp add: cap_oldest_def drop_map [symmetric] distinct_drop)

lemma sorted_cap_oldest: "sorted (map f xs) \<Longrightarrow> sorted (map f (cap_oldest n xs))"
  by (simp add: cap_oldest_def drop_map [symmetric] sorted_wrt_drop)

lemma sorted_filter_key: "sorted (map f xs) \<Longrightarrow> sorted (map f (filter P xs))"
  by (induction xs) auto

lemma cap_oldest_drops_front:
  "cap_oldest n xs = ys \<Longrightarrow> \<exists>zs. xs = zs @ ys"
  unfolding cap_oldest_def by (metis append_take_drop_id)

lemma sorted_key_cap_oldest_newest:
  assumes "sorted (map f xs)" and "x \<in> set xs" and "x \<notin> set (cap_oldest n xs)"
    and "y \<in> set (cap_oldest n xs)"
  shows "f x \<le> f y"
proof -
  define k where "k = length xs - n"
  have split: "xs = take k xs @ drop k xs" by simp
  then have "set xs = set (take k xs) \<union> set (drop k xs)" by (metis set_append)
  with assms(2,3) have x: "x \<in> set (take k xs)" by (auto simp: cap_oldest_def k_def)
  have "sorted (map f (take k xs) @ map f (drop k xs))"
    using assms(1) split by (metis map_append)
  then have "\<forall>u \<in> set (take k xs). \<forall>v \<in> set (drop k xs). f u \<le> f v"
    by (auto simp: sorted_append)
  with x assms(4) show ?thesis by (auto simp: cap_oldest_def k_def)
qed

lemma find_Some_split:
  "List.find P xs = Some x \<Longrightarrow> \<exists>ys zs. xs = ys @ x # zs \<and> P x \<and> (\<forall>y \<in> set ys. \<not> P y)"
proof (induction xs)
  case Nil
  then show ?case by simp
next
  case (Cons a xs)
  show ?case
  proof (cases "P a")
    case True
    with Cons.prems show ?thesis by fastforce
  next
    case False
    with Cons obtain ys zs where "xs = ys @ x # zs" "P x" "\<forall>y \<in> set ys. \<not> P y" by auto
    with False have "a # xs = (a # ys) @ x # zs" "P x" "\<forall>y \<in> set (a # ys). \<not> P y" by auto
    then show ?thesis by blast
  qed
qed

lemma find_Some_mem: "List.find P xs = Some x \<Longrightarrow> x \<in> set xs \<and> P x"
  by (auto dest!: find_Some_split)

lemma find_None_all: "List.find P xs = None \<longleftrightarrow> (\<forall>x \<in> set xs. \<not> P x)"
  by (auto simp: find_None_iff)

text \<open>\<open>iter().position(p)\<close>: the index of the first match.\<close>

fun position :: "('a \<Rightarrow> bool) \<Rightarrow> 'a list \<Rightarrow> nat option" where
  "position P [] = None"
| "position P (x # xs) = (if P x then Some 0 else map_option Suc (position P xs))"

lemma position_Some:
  "position P xs = Some i \<Longrightarrow> i < length xs \<and> P (xs ! i) \<and> (\<forall>j < i. \<not> P (xs ! j))"
proof (induction xs arbitrary: i)
  case Nil
  then show ?case by simp
next
  case (Cons x xs)
  show ?case
  proof (cases "P x")
    case True
    with Cons.prems show ?thesis by simp
  next
    case False
    with Cons.prems obtain k where "position P xs = Some k" and "i = Suc k" by auto
    with Cons.IH [of k] False show ?thesis
      by (auto simp: nth_Cons split: nat.splits)
  qed
qed

lemma position_None: "position P xs = None \<longleftrightarrow> (\<forall>x \<in> set xs. \<not> P x)"
  by (induction xs) auto

text \<open>\<open>iter_mut().find(p)\<close> followed by an assignment: the first match is replaced.\<close>

fun update_first :: "('a \<Rightarrow> bool) \<Rightarrow> ('a \<Rightarrow> 'a) \<Rightarrow> 'a list \<Rightarrow> 'a list" where
  "update_first P f [] = []"
| "update_first P f (x # xs) = (if P x then f x # xs else x # update_first P f xs)"

lemma length_update_first [simp]: "length (update_first P f xs) = length xs"
  by (induction xs) auto

lemma map_update_first:
  "(\<And>x. P x \<Longrightarrow> g (f x) = g x) \<Longrightarrow> map g (update_first P f xs) = map g xs"
  by (induction xs) auto

lemma update_first_id: "\<forall>x \<in> set xs. \<not> P x \<Longrightarrow> update_first P f xs = xs"
  by (induction xs) auto

lemma set_update_first:
  "y \<in> set (update_first P f xs) \<Longrightarrow> y \<in> set xs \<or> (\<exists>x \<in> set xs. P x \<and> y = f x)"
  by (induction xs) (auto split: if_splits)

section \<open>Numbers as text\<close>

text \<open>\<open>format!("{n}")\<close> of an unsigned integer.\<close>

fun show_nat :: "nat \<Rightarrow> string" where
  "show_nat n = (if n < 10 then [char_of (48 + n)] else show_nat (n div 10) @ [char_of (48 + n mod 10)])"

declare show_nat.simps [simp del]

lemma show_nat_nonempty [simp]: "show_nat n \<noteq> []"
  by (subst show_nat.simps) simp


text \<open>
  \<open>str::parse\<close> to an unsigned type: one optional plus sign, then at least one decimal digit and
  nothing else; a value above \<open>hi\<close> is an error.
\<close>

definition digit_value :: "char \<Rightarrow> nat option" where
  "digit_value c = (if 48 \<le> (of_char c :: nat) \<and> (of_char c :: nat) \<le> 57 then Some (of_char c - 48) else None)"

fun digits_value :: "nat \<Rightarrow> string \<Rightarrow> nat option" where
  "digits_value acc [] = Some acc"
| "digits_value acc (c # cs) =
     (case digit_value c of None \<Rightarrow> None | Some d \<Rightarrow> digits_value (acc * 10 + d) cs)"

definition parse_u :: "nat \<Rightarrow> string \<Rightarrow> nat option" where
  "parse_u hi s =
     (let ds = (case s of [] \<Rightarrow> [] | c # r \<Rightarrow> if c = CHR ''+'' then r else s)
      in if ds = [] then None
         else (case digits_value 0 ds of Some n \<Rightarrow> if n \<le> hi then Some n else None | None \<Rightarrow> None))"

lemma digit_value_char [simp]: "d < 10 \<Longrightarrow> digit_value (char_of (48 + d)) = Some d"
  by (simp add: digit_value_def)

lemma digits_value_append:
  "digits_value acc (xs @ ys) = (case digits_value acc xs of None \<Rightarrow> None | Some n \<Rightarrow> digits_value n ys)"
  by (induction xs arbitrary: acc) (auto split: option.splits)

lemma digits_value_show: "digits_value 0 (show_nat n) = Some n"
proof (induction n rule: show_nat.induct)
  case (1 n)
  show ?case
  proof (cases "n < 10")
    case True
    then show ?thesis by (subst show_nat.simps) (simp add: digit_value_def)
  next
    case False
    with 1 show ?thesis
      by (subst show_nat.simps) (simp add: digits_value_append digit_value_def)
  qed
qed

lemma show_nat_no_plus: "\<exists>c r. show_nat n = c # r \<and> c \<noteq> CHR ''+'' \<and> digit_value c \<noteq> None"
proof (induction n rule: show_nat.induct)
  case (1 n)
  show ?case
  proof (cases "n < 10")
    case True
    then have "digit_value (char_of (48 + n)) \<noteq> None" by (simp add: digit_value_def)
    moreover have "digit_value CHR ''+'' = None" by (simp add: digit_value_def)
    ultimately show ?thesis using True by (subst show_nat.simps) (metis (full_types))
  next
    case False
    with 1 obtain c r where "show_nat (n div 10) = c # r" "c \<noteq> CHR ''+''" "digit_value c \<noteq> None" by blast
    with False show ?thesis by (subst show_nat.simps) simp
  qed
qed

lemma parse_show [simp]: "parse_u hi (show_nat n) = (if n \<le> hi then Some n else None)"
proof -
  obtain c r where "show_nat n = c # r" "c \<noteq> CHR ''+''" using show_nat_no_plus by blast
  with digits_value_show [of n] show ?thesis by (simp add: parse_u_def del: digits_value.simps)
qed

lemma parse_u_le: "parse_u hi s = Some n \<Longrightarrow> n \<le> hi"
  by (auto simp: parse_u_def Let_def split: option.splits if_splits list.splits)

text \<open>\<open>str::trim\<close> on ASCII text.\<close>

definition ascii_space :: "char \<Rightarrow> bool" where
  "ascii_space c \<longleftrightarrow> c = CHR '' '' \<or> (9 \<le> (of_char c :: nat) \<and> (of_char c :: nat) \<le> 13)"

definition trim :: "string \<Rightarrow> string" where
  "trim s = rev (dropWhile ascii_space (rev (dropWhile ascii_space s)))"

lemma trim_id: "s = [] \<or> \<not> ascii_space (hd s) \<and> \<not> ascii_space (last s) \<Longrightarrow> trim s = s"
proof -
  assume s: "s = [] \<or> \<not> ascii_space (hd s) \<and> \<not> ascii_space (last s)"
  then have "dropWhile ascii_space s = s" "dropWhile ascii_space (rev s) = rev s"
    by (auto simp: dropWhile_eq_self_iff hd_rev)
  then show ?thesis by (simp add: trim_def)
qed

section \<open>Bytes at an offset\<close>

text \<open>
  A file as its bytes. \<open>slice xs a n\<close> are the \<open>n\<close> bytes from \<open>a\<close>; \<open>put_at a bs xs\<close> writes \<open>bs\<close>
  from \<open>a\<close>, and a write past the end fills the gap with zeros, as a seek and a write do.
\<close>

definition slice :: "'a list \<Rightarrow> nat \<Rightarrow> nat \<Rightarrow> 'a list" where
  "slice xs a n = take n (drop a xs)"

definition put_at :: "nat \<Rightarrow> 'a::zero list \<Rightarrow> 'a list \<Rightarrow> 'a list" where
  "put_at a bs xs =
     (if bs = [] then xs
      else take a xs @ replicate (a - length xs) 0 @ bs @ drop (a + length bs) xs)"

lemma length_slice [simp]: "length (slice xs a n) = min n (length xs - a)"
  by (simp add: slice_def min.commute)

lemma slice_nth: "i < n \<Longrightarrow> a + i < length xs \<Longrightarrow> slice xs a n ! i = xs ! (a + i)"
  by (simp add: slice_def add.commute)

lemma slice_eqI:
  assumes "length xs = length ys" "\<And>i. a \<le> i \<Longrightarrow> i < a + n \<Longrightarrow> i < length xs \<Longrightarrow> xs ! i = ys ! i"
  shows "slice xs a n = slice ys a n"
  by (rule nth_equalityI) (use assms in \<open>auto simp: slice_nth\<close>)

lemma length_put_at: "a + length bs \<le> length xs \<Longrightarrow> length (put_at a bs xs) = length xs"
  by (auto simp: put_at_def)

lemma put_at_nth:
  assumes "a + length bs \<le> length xs" "i < length xs"
  shows "put_at a bs xs ! i = (if a \<le> i \<and> i < a + length bs then bs ! (i - a) else xs ! i)"
proof (cases "bs = []")
  case True
  then show ?thesis by (auto simp: put_at_def)
next
  case False
  with assms show ?thesis by (auto simp: put_at_def nth_append min_def)
qed

end
