(* ===== verification/Machine.thy ===== *)
theory Machine
  imports Prelude
begin

text \<open>
  The contracts several components share. \<open>machine\<close>: an operation of a component keeps the
  component's invariant, so every run does. \<open>bounded_queue\<close>: the contract of a persisted queue
  with a size cap whose entries stay in the order of a key. \<open>file store\<close>: the best-effort file
  writes both queues use.
\<close>

section \<open>Operations that keep an invariant\<close>

locale machine =
  fixes step :: "'s \<Rightarrow> 'e \<Rightarrow> 's" and inv :: "'s \<Rightarrow> bool"
  assumes step_inv: "inv s \<Longrightarrow> inv (step s e)"
begin

lemma run_inv: "inv s \<Longrightarrow> inv (foldl step s es)"
  by (induction es arbitrary: s) (simp_all add: step_inv)

lemma run_inv_prefix: "inv s \<Longrightarrow> inv (foldl step s (take n es))"
  by (rule run_inv)

end

section \<open>Queues with a cap and an order\<close>

locale bounded_queue =
  fixes step :: "'s \<Rightarrow> 'e \<Rightarrow> 's"
    and ents :: "'s \<Rightarrow> 'a list"
    and key :: "'a \<Rightarrow> int"
    and cap :: nat
  assumes step_length: "length (ents s) \<le> cap \<Longrightarrow> length (ents (step s e)) \<le> cap"
    and step_sorted: "sorted (map key (ents s)) \<Longrightarrow> sorted (map key (ents (step s e)))"
begin

definition well_kept :: "'s \<Rightarrow> bool" where
  "well_kept s \<longleftrightarrow> length (ents s) \<le> cap \<and> sorted (map key (ents s))"

lemma well_kept_step: "well_kept s \<Longrightarrow> well_kept (step s e)"
  by (simp add: well_kept_def step_length step_sorted)

lemma head_oldest: "well_kept s \<Longrightarrow> ents s = x # xs \<Longrightarrow> y \<in> set xs \<Longrightarrow> key x \<le> key y"
  by (simp add: well_kept_def)

end

sublocale bounded_queue \<subseteq> queue: machine step well_kept
  by unfold_locales (rule well_kept_step)

context bounded_queue
begin

lemma run_well_kept:
  assumes "ents s = []"
  shows "length (ents (foldl step s es)) \<le> cap \<and> sorted (map key (ents (foldl step s es)))"
proof -
  have "well_kept s" by (simp add: well_kept_def assms)
  then have "well_kept (foldl step s es)" by (rule queue.run_inv)
  then show ?thesis by (simp add: well_kept_def)
qed

end

section \<open>Best-effort files\<close>

text \<open>
  A queue file is a JSON text at a path. A write either works or leaves some other content
  (\<open>std::fs::write\<close> truncates first); the code ignores the error. The JSON coding
  (\<open>serde_json\<close>) is not part of the repository: \<open>enc\<close> and \<open>dec\<close> are arguments of the
  operations that use it.
\<close>

datatype 'j write_outcome = Written | Write_failed "'j option"

definition write_file :: "'j write_outcome \<Rightarrow> 'p \<Rightarrow> 'j \<Rightarrow> ('p \<rightharpoonup> 'j) \<Rightarrow> ('p \<rightharpoonup> 'j)" where
  "write_file w p j d = (case w of Written \<Rightarrow> d(p \<mapsto> j) | Write_failed left \<Rightarrow> d(p := left))"

definition remove_file :: "'j write_outcome \<Rightarrow> 'p \<Rightarrow> ('p \<rightharpoonup> 'j) \<Rightarrow> ('p \<rightharpoonup> 'j)" where
  "remove_file w p d = (case w of Written \<Rightarrow> d(p := None) | Write_failed left \<Rightarrow> d(p := left))"

lemma write_file_Written [simp]: "write_file Written p j d = d(p \<mapsto> j)"
  by (simp add: write_file_def)

lemma remove_file_Written [simp]: "remove_file Written p d = d(p := None)"
  by (simp add: remove_file_def)

text \<open>Both queue files hold a list of entries and an empty list has no file.\<close>

definition save_entries ::
  "('e list \<Rightarrow> 'j option) \<Rightarrow> 'j write_outcome \<Rightarrow> 'p option \<Rightarrow> 'e list \<Rightarrow> ('p \<rightharpoonup> 'j) \<Rightarrow> ('p \<rightharpoonup> 'j)" where
  "save_entries enc w path es d =
     (case path of
        None \<Rightarrow> d
      | Some p \<Rightarrow>
          if es = [] then remove_file w p d
          else (case enc es of None \<Rightarrow> d | Some j \<Rightarrow> write_file w p j d))"

definition read_entries :: "('j \<Rightarrow> 'e list option) \<Rightarrow> 'p \<Rightarrow> ('p \<rightharpoonup> 'j) \<Rightarrow> 'e list" where
  "read_entries dec p d =
     (case d p of None \<Rightarrow> [] | Some j \<Rightarrow> (case dec j of None \<Rightarrow> [] | Some es \<Rightarrow> es))"

lemma read_save_entries:
  assumes "\<And>xs. \<exists>j. enc xs = Some j \<and> dec j = Some xs"
  shows "read_entries dec p (save_entries enc Written (Some p) es d) = es"
proof -
  obtain j where "enc es = Some j" "dec j = Some es" using assms by blast
  then show ?thesis by (simp add: save_entries_def read_entries_def)
qed

end
