(* ===== verification/Session_Ends.thy ===== *)
theory Session_Ends
  imports Machine
begin

text \<open>
  \<open>mello-core/src/pending_session_ends.rs\<close>: the persisted queue of game session reports that
  could not be sent. The queue is a record of its path and its entries; every operation that
  saves also returns the disk. The server is a function of its own state, the \<open>send\<close>
  closure of \<open>flush\<close>.
\<close>

section \<open>Data\<close>

definition se_max_entries :: nat where "se_max_entries = 200"
definition se_max_age_ms :: int where "se_max_age_ms = 30 * 24 * 60 * 60 * 1000"
definition se_max_attempts :: nat where "se_max_attempts = 5"

record session_end_request =
  ser_crew_id :: string
  ser_game_name :: string
  ser_game_id :: string
  ser_duration_min :: nat
  ser_active_min :: nat
  ser_igdb_id :: nat
  ser_wins :: nat
  ser_losses :: nat
  ser_draws :: nat
  ser_session_id :: string
  ser_activity :: string
  ser_start_ms :: int
  ser_end_ms :: int
  ser_tz_offset_min :: int

record pending_session_end =
  pse_request :: session_end_request
  pse_attempts :: nat

record 'p pending_queue =
  pq_path :: "'p option"
  pq_entries :: "pending_session_end list"

abbreviation pse_end_ms :: "pending_session_end \<Rightarrow> int" where
  "pse_end_ms e \<equiv> ser_end_ms (pse_request e)"

section \<open>Operations\<close>

text \<open>\<open>prune\<close>: an end of 0 is unknown and never ages out here.\<close>

definition se_fresh :: "int \<Rightarrow> pending_session_end \<Rightarrow> bool" where
  "se_fresh now e \<longleftrightarrow> pse_end_ms e = 0 \<or> wrap_i64 (now - pse_end_ms e) \<le> se_max_age_ms"

definition se_prune :: "int \<Rightarrow> 'p pending_queue \<Rightarrow> 'p pending_queue \<times> bool" where
  "se_prune now q =
     (let kept = filter (se_fresh now) (pq_entries q);
          dropped = length (pq_entries q) - length kept
      in (q\<lparr>pq_entries := kept\<rparr>, dropped > 0))"

definition se_save ::
  "(pending_session_end list \<Rightarrow> 'j option) \<Rightarrow> 'j write_outcome \<Rightarrow> 'p pending_queue \<Rightarrow> ('p \<rightharpoonup> 'j) \<Rightarrow> ('p \<rightharpoonup> 'j)" where
  "se_save enc w q d = save_entries enc w (pq_path q) (pq_entries q) d"

definition se_open ::
  "(pending_session_end list \<Rightarrow> 'j option) \<Rightarrow> ('j \<Rightarrow> pending_session_end list option) \<Rightarrow> 'j write_outcome \<Rightarrow>
   'p option \<Rightarrow> int \<Rightarrow> ('p \<rightharpoonup> 'j) \<Rightarrow> 'p pending_queue \<times> ('p \<rightharpoonup> 'j)" where
  "se_open enc dec w path now d =
     (let es = (case path of None \<Rightarrow> [] | Some p \<Rightarrow> read_entries dec p d);
          (q, dropped) = se_prune now \<lparr>pq_path = path, pq_entries = es\<rparr>
      in (q, if dropped then se_save enc w q d else d))"

definition se_push_unsent ::
  "(pending_session_end list \<Rightarrow> 'j option) \<Rightarrow> 'j write_outcome \<Rightarrow> bool \<Rightarrow> session_end_request \<Rightarrow> int \<Rightarrow>
   'p pending_queue \<Rightarrow> ('p \<rightharpoonup> 'j) \<Rightarrow> bool \<times> 'p pending_queue \<times> ('p \<rightharpoonup> 'j)" where
  "se_push_unsent enc w share req now q d =
     (if \<not> share then (False, q, d)
      else
        let es = pq_entries q @ [\<lparr>pse_request = req, pse_attempts = 0\<rparr>];
            q1 = fst (se_prune now (q\<lparr>pq_entries := sort_key pse_end_ms es\<rparr>));
            q2 = q1\<lparr>pq_entries := cap_oldest se_max_entries (pq_entries q1)\<rparr>
        in (True, q2, se_save enc w q2 d))"

definition se_clear ::
  "(pending_session_end list \<Rightarrow> 'j option) \<Rightarrow> 'j write_outcome \<Rightarrow> 'p pending_queue \<Rightarrow> ('p \<rightharpoonup> 'j) \<Rightarrow>
   'p pending_queue \<times> ('p \<rightharpoonup> 'j)" where
  "se_clear enc w q d =
     (if pq_entries q = [] then (q, d)
      else let q' = q\<lparr>pq_entries := []\<rparr> in (q', se_save enc w q' d))"

definition se_fill_crew :: "string \<Rightarrow> session_end_request \<Rightarrow> session_end_request" where
  "se_fill_crew active req = (if ser_crew_id req = [] then req\<lparr>ser_crew_id := active\<rparr> else req)"

text \<open>A failed send counts on the entry (\<open>attempts\<close> is a \<open>u32\<close>).\<close>

definition se_bump :: "pending_session_end \<Rightarrow> pending_session_end" where
  "se_bump e = e\<lparr>pse_attempts := wrap_u u32_max (pse_attempts e + 1)\<rparr>"

text \<open>
  The loop of \<open>flush\<close>. \<open>send\<close> is the RPC: it answers whether the server accepted the request
  and its new state. \<open>save\<close> stands for the save of the remaining entries after each answer.
\<close>

fun se_flush_loop ::
  "(session_end_request \<Rightarrow> 's \<Rightarrow> bool \<times> 's) \<Rightarrow> (pending_session_end list \<Rightarrow> 'd \<Rightarrow> 'd) \<Rightarrow> string \<Rightarrow>
   pending_session_end list \<Rightarrow> 's \<Rightarrow> 'd \<Rightarrow> nat \<times> pending_session_end list \<times> 's \<times> 'd" where
  "se_flush_loop send save active [] srv d = (0, [], srv, d)"
| "se_flush_loop send save active (e # es) srv d =
     (case send (se_fill_crew active (pse_request e)) srv of
        (True, srv') \<Rightarrow>
          (case se_flush_loop send save active es srv' (save es d) of
             (n, rest) \<Rightarrow> (Suc n, rest))
      | (False, srv') \<Rightarrow>
          (let e' = se_bump e;
               es' = (if pse_attempts e' \<ge> se_max_attempts then es else e' # es)
           in (0, es', srv', save es' d)))"

text \<open>The saves of one flush are numbered: save number \<open>k\<close> ends as \<open>w k\<close> says.\<close>

definition se_flush ::
  "(pending_session_end list \<Rightarrow> 'j option) \<Rightarrow> (nat \<Rightarrow> 'j write_outcome) \<Rightarrow>
   (session_end_request \<Rightarrow> 's \<Rightarrow> bool \<times> 's) \<Rightarrow> string \<Rightarrow> 'p pending_queue \<Rightarrow> 's \<Rightarrow> ('p \<rightharpoonup> 'j) \<Rightarrow>
   nat \<times> 'p pending_queue \<times> 's \<times> ('p \<rightharpoonup> 'j)" where
  "se_flush enc w send active q srv d =
     (case se_flush_loop send
             (\<lambda>es (k, d). (Suc k, save_entries enc (w k) (pq_path q) es d))
             active (pq_entries q) srv (0, d) of
        (n, es, srv', k, d') \<Rightarrow> (n, q\<lparr>pq_entries := es\<rparr>, srv', d'))"

section \<open>The order and the cap hold in every run\<close>

datatype 's se_op =
    Se_push bool session_end_request int
  | Se_clear
  | Se_flush string "session_end_request \<Rightarrow> 's \<Rightarrow> bool \<times> 's" 's

text \<open>The entries after one call, whatever the codec and the disk do.\<close>

fun se_entries_step :: "pending_session_end list \<Rightarrow> 's se_op \<Rightarrow> pending_session_end list" where
  "se_entries_step es (Se_push share req now) =
     pq_entries (fst (snd (se_push_unsent (\<lambda>_. None :: unit option) Written share req now
       \<lparr>pq_path = None :: unit option, pq_entries = es\<rparr> Map.empty)))"
| "se_entries_step es Se_clear =
     pq_entries (fst (se_clear (\<lambda>_. None :: unit option) Written
       \<lparr>pq_path = None :: unit option, pq_entries = es\<rparr> Map.empty))"
| "se_entries_step es (Se_flush active send srv) =
     pq_entries (fst (snd (se_flush (\<lambda>_. None :: unit option) (\<lambda>_. Written) send active
       \<lparr>pq_path = None :: unit option, pq_entries = es\<rparr> srv Map.empty)))"

lemma se_push_entries:
  "pq_entries (fst (snd (se_push_unsent enc w share req now q d))) =
     (if \<not> share then pq_entries q
      else cap_oldest se_max_entries (filter (se_fresh now)
        (sort_key pse_end_ms (pq_entries q @ [\<lparr>pse_request = req, pse_attempts = 0\<rparr>]))))"
  by (simp add: se_push_unsent_def se_prune_def Let_def)

lemma se_clear_entries: "pq_entries (fst (se_clear enc w q d)) = []"
  by (simp add: se_clear_def Let_def)

lemma se_flush_loop_save_irrelevant:
  "fst (se_flush_loop send save active es srv d) = fst (se_flush_loop send save' active es srv d')
   \<and> fst (snd (se_flush_loop send save active es srv d)) =
       fst (snd (se_flush_loop send save' active es srv d'))
   \<and> fst (snd (snd (se_flush_loop send save active es srv d))) =
       fst (snd (snd (se_flush_loop send save' active es srv d')))"
proof (induction es arbitrary: srv d d')
  case Nil
  then show ?case by simp
next
  case (Cons e es)
  show ?case
    using Cons.IH [of _ "save es d" "save' es d'"]
    by (auto simp: Let_def split: prod.splits bool.splits; metis fst_conv snd_conv)
qed

text \<open>The loop removes a prefix; what is left is a suffix whose first entry may count one more failure.\<close>

lemma se_bump_end_ms [simp]: "pse_end_ms (se_bump e) = pse_end_ms e"
  by (simp add: se_bump_def)

lemma se_bump_request [simp]: "pse_request (se_bump e) = pse_request e"
  by (simp add: se_bump_def)

lemma se_flush_loop_shape:
  assumes "se_flush_loop send save active es srv d = (n, es', srv', d')"
  shows "n \<le> length es \<and>
    (n = length es \<and> es' = [] \<or>
     n < length es \<and>
       es' = (if pse_attempts (se_bump (es ! n)) \<ge> se_max_attempts then drop (Suc n) es
              else se_bump (es ! n) # drop (Suc n) es))"
  using assms
proof (induction es arbitrary: srv d n)
  case Nil
  then show ?case by simp
next
  case (Cons e es)
  obtain ok srv1 where s: "send (se_fill_crew active (pse_request e)) srv = (ok, srv1)"
    by fastforce
  show ?case
  proof (cases ok)
    case True
    obtain m rest where r: "se_flush_loop send save active es srv1 (save es d) = (m, rest)"
      by (metis surj_pair)
    with Cons.prems s True have "n = Suc m" and "rest = (es', srv', d')" by auto
    with Cons.IH [of srv1 "save es d" m] r show ?thesis by auto
  next
    case False
    with Cons.prems s show ?thesis by (auto simp: Let_def)
  qed
qed

lemma se_flush_loop_sublist:
  assumes "se_flush_loop send save active es srv d = (n, es', srv', d')"
  shows "length es' \<le> length es" and "sorted (map pse_end_ms es) \<Longrightarrow> sorted (map pse_end_ms es')"
proof -
  note shape = se_flush_loop_shape [OF assms]
  then show "length es' \<le> length es" by (auto split: if_splits)
  assume s: "sorted (map pse_end_ms es)"
  show "sorted (map pse_end_ms es')"
  proof (cases "n < length es")
    case True
    have "sorted (map pse_end_ms (drop n es))" using s by (simp add: drop_map [symmetric] sorted_wrt_drop)
    moreover have "drop n es = es ! n # drop (Suc n) es" using True by (simp add: Cons_nth_drop_Suc)
    ultimately show ?thesis using shape True by auto
  next
    case False
    with shape show ?thesis by auto
  qed
qed

lemma se_flush_entries:
  "pq_entries (fst (snd (se_flush enc w send active q srv d))) =
     fst (snd (se_flush_loop send (\<lambda>_ d. d) active (pq_entries q) srv ()))"
proof -
  let ?save = "\<lambda>es (k, d). (Suc k, save_entries enc (w k) (pq_path q) es d)"
  have "pq_entries (fst (snd (se_flush enc w send active q srv d))) =
      fst (snd (se_flush_loop send ?save active (pq_entries q) srv (0, d)))"
    by (simp add: se_flush_def split: prod.splits)
  also have "\<dots> = fst (snd (se_flush_loop send (\<lambda>_ d. d) active (pq_entries q) srv ()))"
    by (rule se_flush_loop_save_irrelevant [THEN conjunct2, THEN conjunct1])
  finally show ?thesis .
qed

interpretation se_queue: bounded_queue se_entries_step "\<lambda>es. es" pse_end_ms se_max_entries
proof unfold_locales
  fix es :: "pending_session_end list" and e :: "'s se_op"
  show "length (se_entries_step es e) \<le> se_max_entries" if "length es \<le> se_max_entries"
  proof (cases e)
    case (Se_flush active send srv)
    obtain n es' srv' d' where
      "se_flush_loop send (\<lambda>_ d. d) active es srv () = (n, es', srv', d')"
      by (metis prod_cases4)
    with se_flush_loop_sublist(1) [OF this] that Se_flush show ?thesis
      by (simp add: se_flush_entries)
  qed (use that in \<open>auto simp: se_push_entries se_clear_entries\<close>)
  show "sorted (map pse_end_ms (se_entries_step es e))" if "sorted (map pse_end_ms es)"
  proof (cases e)
    case (Se_flush active send srv)
    obtain n es' srv' d' where
      "se_flush_loop send (\<lambda>_ d. d) active es srv () = (n, es', srv', d')"
      by (metis prod_cases4)
    with se_flush_loop_sublist(2) [OF this] that Se_flush show ?thesis
      by (simp add: se_flush_entries)
  qed (use that in \<open>auto simp: se_push_entries se_clear_entries
         intro!: sorted_cap_oldest sorted_filter_key\<close>)
qed

section \<open>Properties\<close>

text \<open>C29: from an empty queue, whatever calls are made (reports queued with sharing on or off,
  clears, flushes against any server), the queue holds at most 200 reports and they stay in
  the order of their session end.\<close>

theorem session_ends_bounded_ordered:
  "length (foldl se_entries_step [] ops) \<le> se_max_entries \<and>
   sorted (map pse_end_ms (foldl se_entries_step [] ops))"
  by (rule se_queue.run_well_kept) (rule refl)

text \<open>A server that records every request with its answer.\<close>

definition se_logging ::
  "(session_end_request \<Rightarrow> 's \<Rightarrow> bool \<times> 's) \<Rightarrow> session_end_request \<Rightarrow>
   (session_end_request \<times> bool) list \<times> 's \<Rightarrow> bool \<times> (session_end_request \<times> bool) list \<times> 's" where
  "se_logging send req st =
     (case st of (log, srv) \<Rightarrow>
        (case send req srv of (ok, srv') \<Rightarrow> (ok, log @ [(req, ok)], srv')))"

lemma se_flush_loop_log:
  assumes "se_flush_loop (se_logging send) save active es (log, srv) d = (n, es', (log', srv'), d')"
  shows "log' = log @ map (\<lambda>e. (se_fill_crew active (pse_request e), True)) (take n es) @
           (if n < length es then [(se_fill_crew active (pse_request (es ! n)), False)] else [])"
  using assms
proof (induction es arbitrary: log srv d n)
  case Nil
  then show ?case by simp
next
  case (Cons e es)
  obtain ok srv1 where s: "send (se_fill_crew active (pse_request e)) srv = (ok, srv1)"
    by fastforce
  show ?case
  proof (cases ok)
    case True
    let ?log = "log @ [(se_fill_crew active (pse_request e), True)]"
    obtain m rest where r:
      "se_flush_loop (se_logging send) save active es (?log, srv1) (save es d) = (m, rest)"
      by (metis surj_pair)
    moreover have "se_logging send (se_fill_crew active (pse_request e)) (log, srv) = (True, ?log, srv1)"
      using s True by (simp add: se_logging_def)
    ultimately have n: "n = Suc m" and "rest = (es', (log', srv'), d')"
      using Cons.prems by auto
    with Cons.IH [of ?log srv1 "save es d" m] r show ?thesis by auto
  next
    case False
    with Cons.prems s show ?thesis by (auto simp: se_logging_def Let_def)
  qed
qed

text \<open>A flush sends the reports oldest first, each with the active crew filled in where it
  has none. With \<open>n\<close> the returned count, the server saw exactly the first \<open>n\<close> reports, all
  accepted, then at most one more, the refused report number \<open>n\<close>. The queue keeps everything
  after the accepted ones: the refused report stays in front with one more failed attempt,
  unless that was its fifth.\<close>

theorem session_ends_flush_prefix:
  assumes "se_flush enc w (se_logging send) active q ([], srv) d = (n, q', (log', srv'), d')"
  shows "log' = map (\<lambda>e. (se_fill_crew active (pse_request e), True)) (take n (pq_entries q)) @
           (if n < length (pq_entries q)
            then [(se_fill_crew active (pse_request (pq_entries q ! n)), False)] else []) \<and>
         pq_entries q' =
           (if n = length (pq_entries q) then []
            else if pse_attempts (se_bump (pq_entries q ! n)) \<ge> se_max_attempts
            then drop (Suc n) (pq_entries q)
            else se_bump (pq_entries q ! n) # drop (Suc n) (pq_entries q)) \<and>
         pq_path q' = pq_path q"
proof -
  let ?save = "\<lambda>es (k, d). (Suc k, save_entries enc (w k) (pq_path q) es d)"
  obtain k where loop: "se_flush_loop (se_logging send) ?save active (pq_entries q) ([], srv) (0, d)
      = (n, pq_entries q', (log', srv'), k, d')" and q': "pq_path q' = pq_path q"
    using assms by (auto simp: se_flush_def split: prod.splits)
  show ?thesis
    using q' se_flush_loop_log [OF loop] se_flush_loop_shape [OF loop] by auto
qed

definition se_sample_request :: "string \<Rightarrow> int \<Rightarrow> session_end_request" where
  "se_sample_request crew end_ms =
     \<lparr>ser_crew_id = crew, ser_game_name = ''g'', ser_game_id = '''', ser_duration_min = 5,
      ser_active_min = 4, ser_igdb_id = 0, ser_wins = 0, ser_losses = 0, ser_draws = 0,
      ser_session_id = ''s'', ser_activity = '''', ser_start_ms = 0, ser_end_ms = end_ms,
      ser_tz_offset_min = 0\<rparr>"

definition se_sample_queue :: "unit pending_queue" where
  "se_sample_queue =
     \<lparr>pq_path = None,
      pq_entries = [\<lparr>pse_request = se_sample_request '''' 1, pse_attempts = 0\<rparr>,
                    \<lparr>pse_request = se_sample_request ''b'' 2, pse_attempts = 4\<rparr>]\<rparr>"

text \<open>A server that accepts the first report and refuses the second, which drops.\<close>

definition se_accept_one :: "session_end_request \<Rightarrow> nat \<Rightarrow> bool \<times> nat" where
  "se_accept_one req k = (k = 0, Suc k)"

lemma session_ends_flush_prefix_witness:
  "pq_entries (fst (snd (se_flush (\<lambda>_. None :: unit option) (\<lambda>_. Written)
     (se_logging se_accept_one) ''a'' se_sample_queue ([], 0) Map.empty))) = []"
proof -
  have run: "se_flush (\<lambda>_. None :: unit option) (\<lambda>_. Written) (se_logging se_accept_one) ''a''
      se_sample_queue ([], 0) Map.empty =
    (1, \<lparr>pq_path = None, pq_entries = []\<rparr>,
     ([(se_sample_request ''a'' 1, True), (se_sample_request ''b'' 2, False)], 2), Map.empty)"
    by (simp add: se_flush_def se_sample_queue_def se_logging_def se_bump_def se_accept_one_def
        se_fill_crew_def se_sample_request_def save_entries_def se_max_attempts_def
        wrap_u_def u32_max_def)
  show ?thesis
    using session_ends_flush_prefix [OF run] by (simp add: run)
qed

text \<open>One report the server refuses for good cannot block the queue: after as many flushes
  as it has attempts left (five for a new report), each ending at its refusal, it is gone and
  the reports behind it are untouched and in front.\<close>

theorem session_ends_poison_leaves:
  assumes "pse_attempts e < se_max_attempts"
    and "\<And>srv. fst (send (se_fill_crew active (pse_request e)) srv) = False"
  shows "foldl se_entries_step (e # es)
           (replicate (se_max_attempts - pse_attempts e) (Se_flush active send srv)) = es"
  using assms
proof (induction "se_max_attempts - pse_attempts e" arbitrary: e)
  case 0
  then show ?case by simp
next
  case (Suc k)
  have small: "pse_attempts (se_bump e) = Suc (pse_attempts e)"
    using Suc.prems(1) by (simp add: se_bump_def se_max_attempts_def u32_max_def)
  obtain srv1 where "send (se_fill_crew active (pse_request e)) srv = (False, srv1)"
    using Suc.prems(2) [of srv] by (metis prod.collapse)
  then have step: "se_entries_step (e # es) (Se_flush active send srv) =
      (if se_max_attempts \<le> Suc (pse_attempts e) then es else se_bump e # es)"
    using small by (simp add: se_flush_entries Let_def)
  show ?case
  proof (cases k)
    case 0
    with Suc.hyps(2) have "se_max_attempts - pse_attempts e = 1" by simp
    then show ?thesis using step by simp
  next
    case (Suc m)
    with Suc.hyps(2) have more: "Suc (pse_attempts e) < se_max_attempts" by simp
    have "foldl se_entries_step (se_bump e # es)
        (replicate (se_max_attempts - pse_attempts (se_bump e)) (Se_flush active send srv)) = es"
      using Suc.hyps(1) [of "se_bump e"] Suc.hyps(2) Suc.prems(2) more small by simp
    moreover have "se_max_attempts - pse_attempts e =
        Suc (se_max_attempts - pse_attempts (se_bump e))"
      using more small by simp
    ultimately show ?thesis using step more by simp
  qed
qed

lemma session_ends_poison_leaves_witness:
  "foldl se_entries_step [\<lparr>pse_request = se_sample_request ''a'' 1, pse_attempts = 3\<rparr>]
     (replicate 2 (Se_flush ''c'' (\<lambda>_ u. (False, u)) ())) = []"
  using session_ends_poison_leaves
    [of "\<lparr>pse_request = se_sample_request ''a'' 1, pse_attempts = 3\<rparr>" "\<lambda>_ u. (False, u)" "''c''" "[]" "()"]
  by (simp add: se_max_attempts_def)

end
