(* ===== verification/Upload_Queue.thy ===== *)
theory Upload_Queue
  imports Machine
begin

text \<open>
  \<open>mello-core/src/clip_upload/queue.rs\<close>: the persisted queue of game clips that are not up,
  with the entry type the upload worker takes through its steps. The interface the worker
  relies on is the locale \<open>clip_store\<close>, interpreted here on the queue.
\<close>

section \<open>Data\<close>

definition uq_max_entries :: nat where "uq_max_entries = 50"
definition uq_max_age_ms :: int where "uq_max_age_ms = 7 * 24 * 60 * 60 * 1000"

text \<open>\<open>CompletedPart\<close> of \<open>crew_events.rs\<close>. A 64-bit float that is only passed on is its bit pattern.\<close>

record completed_part =
  cp_part_number :: nat
  cp_etag :: string

type_synonym f64_bits = "64 word"

record pending_clip =
  pc_user_id :: string
  pc_crew_id :: string
  pc_clip_id :: string
  pc_game :: string
  pc_mp4_path :: string
  pc_poster_path :: string
  pc_duration_seconds :: f64_bits
  pc_width :: nat
  pc_height :: nat
  pc_has_voice :: bool
  pc_created_ms :: int
  pc_posted :: bool
  pc_poster_done :: bool
  pc_upload_id :: string
  pc_done_parts :: "completed_part list"

definition needs_poster :: "pending_clip \<Rightarrow> bool" where
  "needs_poster c \<longleftrightarrow> \<not> pc_posted c \<or> \<not> pc_poster_done c"

record 'p upload_queue =
  uq_path :: "'p option"
  uq_entries :: "pending_clip list"

section \<open>Operations\<close>

definition uq_prune :: "int \<Rightarrow> 'p upload_queue \<Rightarrow> 'p upload_queue \<times> bool" where
  "uq_prune now q =
     (let kept = filter (\<lambda>c. wrap_i64 (now - pc_created_ms c) \<le> uq_max_age_ms) (uq_entries q);
          dropped = length (uq_entries q) - length kept
      in (q\<lparr>uq_entries := kept\<rparr>, dropped > 0))"

definition uq_save ::
  "(pending_clip list \<Rightarrow> 'j option) \<Rightarrow> 'j write_outcome \<Rightarrow> 'p upload_queue \<Rightarrow> ('p \<rightharpoonup> 'j) \<Rightarrow> ('p \<rightharpoonup> 'j)" where
  "uq_save enc w q d = save_entries enc w (uq_path q) (uq_entries q) d"

definition uq_open ::
  "(pending_clip list \<Rightarrow> 'j option) \<Rightarrow> ('j \<Rightarrow> pending_clip list option) \<Rightarrow> 'j write_outcome \<Rightarrow>
   'p option \<Rightarrow> int \<Rightarrow> ('p \<rightharpoonup> 'j) \<Rightarrow> 'p upload_queue \<times> ('p \<rightharpoonup> 'j)" where
  "uq_open enc dec w path now d =
     (let es = (case path of None \<Rightarrow> [] | Some p \<Rightarrow> read_entries dec p d);
          (q, dropped) = uq_prune now \<lparr>uq_path = path, uq_entries = es\<rparr>
      in (q, if dropped then uq_save enc w q d else d))"

text \<open>The entries after \<open>push\<close>, \<open>update\<close> and \<open>remove\<close>; the operations save them.\<close>

definition uq_push_entries :: "pending_clip \<Rightarrow> pending_clip list \<Rightarrow> pending_clip list" where
  "uq_push_entries c es =
     cap_oldest uq_max_entries
       (sort_key pc_created_ms (filter (\<lambda>e. pc_clip_id e \<noteq> pc_clip_id c) es @ [c]))"

definition uq_push ::
  "(pending_clip list \<Rightarrow> 'j option) \<Rightarrow> 'j write_outcome \<Rightarrow> pending_clip \<Rightarrow> 'p upload_queue \<Rightarrow>
   ('p \<rightharpoonup> 'j) \<Rightarrow> 'p upload_queue \<times> ('p \<rightharpoonup> 'j)" where
  "uq_push enc w c q d =
     (let q' = q\<lparr>uq_entries := uq_push_entries c (uq_entries q)\<rparr> in (q', uq_save enc w q' d))"

definition uq_next_entries :: "string \<Rightarrow> pending_clip list \<Rightarrow> pending_clip option" where
  "uq_next_entries user es =
     (let mine = filter (\<lambda>c. pc_user_id c = user) es
      in case List.find needs_poster mine of
           Some c \<Rightarrow> Some c
         | None \<Rightarrow> (case mine of [] \<Rightarrow> None | c # _ \<Rightarrow> Some c))"

definition uq_next_for :: "string \<Rightarrow> 'p upload_queue \<Rightarrow> pending_clip option" where
  "uq_next_for user q = uq_next_entries user (uq_entries q)"

definition uq_update_entries :: "pending_clip \<Rightarrow> pending_clip list \<Rightarrow> pending_clip list" where
  "uq_update_entries c es = update_first (\<lambda>e. pc_clip_id e = pc_clip_id c) (\<lambda>_. c) es"

definition uq_update ::
  "(pending_clip list \<Rightarrow> 'j option) \<Rightarrow> 'j write_outcome \<Rightarrow> pending_clip \<Rightarrow> 'p upload_queue \<Rightarrow>
   ('p \<rightharpoonup> 'j) \<Rightarrow> 'p upload_queue \<times> ('p \<rightharpoonup> 'j)" where
  "uq_update enc w c q d =
     (if \<exists>e \<in> set (uq_entries q). pc_clip_id e = pc_clip_id c
      then let q' = q\<lparr>uq_entries := uq_update_entries c (uq_entries q)\<rparr> in (q', uq_save enc w q' d)
      else (q, d))"

definition uq_remove_entries :: "string \<Rightarrow> pending_clip list \<Rightarrow> pending_clip list" where
  "uq_remove_entries cid es = filter (\<lambda>e. pc_clip_id e \<noteq> cid) es"

definition uq_remove ::
  "(pending_clip list \<Rightarrow> 'j option) \<Rightarrow> 'j write_outcome \<Rightarrow> string \<Rightarrow> 'p upload_queue \<Rightarrow>
   ('p \<rightharpoonup> 'j) \<Rightarrow> 'p upload_queue \<times> ('p \<rightharpoonup> 'j)" where
  "uq_remove enc w cid q d =
     (let q' = q\<lparr>uq_entries := uq_remove_entries cid (uq_entries q)\<rparr>
      in (q', if length (uq_entries q') \<noteq> length (uq_entries q) then uq_save enc w q' d else d))"

lemma uq_entries_after [simp]:
  "uq_entries (fst (uq_push enc w c q d)) = uq_push_entries c (uq_entries q)"
  "uq_entries (fst (uq_remove enc w cid q d)) = uq_remove_entries cid (uq_entries q)"
  by (simp_all add: uq_push_def uq_remove_def Let_def)

lemma uq_entries_after_update [simp]:
  "uq_entries (fst (uq_update enc w c q d)) = uq_update_entries c (uq_entries q)"
  by (auto simp: uq_update_def uq_update_entries_def Let_def update_first_id)

section \<open>What every operation keeps\<close>

text \<open>\<open>update\<close> is called with a clip that keeps its id and its time (see the worker).\<close>

definition uq_ok :: "pending_clip list \<Rightarrow> bool" where
  "uq_ok es \<longleftrightarrow> length es \<le> uq_max_entries \<and> sorted (map pc_created_ms es) \<and>
     distinct (map pc_clip_id es)"

lemma distinct_map_sort_key: "distinct (map f (sort_key k xs)) \<longleftrightarrow> distinct (map f xs)"
  by (simp add: distinct_map)

lemma distinct_filter_key: "distinct (map f xs) \<Longrightarrow> distinct (map f (filter P xs))"
  by (simp add: distinct_map inj_on_def)

lemma uq_ok_push: "uq_ok es \<Longrightarrow> uq_ok (uq_push_entries c es)"
proof -
  assume "uq_ok es"
  then have "distinct (map pc_clip_id (filter (\<lambda>e. pc_clip_id e \<noteq> pc_clip_id c) es @ [c]))"
    by (auto simp: uq_ok_def distinct_filter_key)
  then have "distinct (map pc_clip_id (sort_key pc_created_ms
      (filter (\<lambda>e. pc_clip_id e \<noteq> pc_clip_id c) es @ [c])))"
    by (simp only: distinct_map_sort_key)
  then show ?thesis
    unfolding uq_ok_def uq_push_entries_def
    by (intro conjI distinct_cap_oldest sorted_cap_oldest) auto
qed

lemma uq_ok_remove: "uq_ok es \<Longrightarrow> uq_ok (uq_remove_entries cid es)"
  using le_trans [OF length_filter_le]
  by (auto simp: uq_ok_def uq_remove_entries_def sorted_filter_key distinct_filter_key)

lemma uq_update_map:
  assumes "\<And>e. e \<in> set es \<Longrightarrow> pc_clip_id e = pc_clip_id c \<Longrightarrow> f e = f c"
  shows "map f (uq_update_entries c es) = map f es"
  using assms unfolding uq_update_entries_def by (induction es) auto

lemma uq_ok_update:
  assumes "uq_ok es" "\<And>e. e \<in> set es \<Longrightarrow> pc_clip_id e = pc_clip_id c \<Longrightarrow> pc_created_ms e = pc_created_ms c"
  shows "uq_ok (uq_update_entries c es)"
  using assms uq_update_map [of es c pc_created_ms] uq_update_map [of es c pc_clip_id]
  by (simp add: uq_ok_def uq_update_entries_def)

text \<open>\<open>next_for\<close>: what it returns is the user's, and the first that needs its poster goes first.\<close>

lemma uq_next_mem:
  assumes "uq_next_entries user es = Some c"
  shows "c \<in> set es \<and> pc_user_id c = user"
proof -
  let ?mine = "filter (\<lambda>c. pc_user_id c = user) es"
  have "c \<in> set ?mine"
    using assms by (auto simp: uq_next_entries_def Let_def simp del: set_filter
        split: option.splits list.splits dest!: find_Some_mem)
  then show ?thesis by simp
qed

lemma uq_next_None: "uq_next_entries user es = None \<longleftrightarrow> (\<forall>c \<in> set es. pc_user_id c \<noteq> user)"
proof -
  let ?mine = "filter (\<lambda>c. pc_user_id c = user) es"
  have "uq_next_entries user es = None \<longleftrightarrow> ?mine = []"
    by (cases ?mine) (auto simp: uq_next_entries_def Let_def split: option.splits)
  then show ?thesis by (simp add: filter_empty_conv)
qed

lemma uq_next_poster_first:
  assumes "uq_next_entries user es = Some c" "\<not> needs_poster c" "e \<in> set es" "pc_user_id e = user"
  shows "\<not> needs_poster e"
proof -
  have "List.find needs_poster (filter (\<lambda>c. pc_user_id c = user) es) = None"
    using assms(1,2) by (auto simp: uq_next_entries_def Let_def split: option.splits
        dest: find_Some_mem)
  with assms(3,4) show ?thesis by (auto simp: find_None_all)
qed

section \<open>The interface of the queue\<close>

locale clip_store =
  fixes push :: "pending_clip \<Rightarrow> 'q \<Rightarrow> 'q"
    and update :: "pending_clip \<Rightarrow> 'q \<Rightarrow> 'q"
    and remove :: "string \<Rightarrow> 'q \<Rightarrow> 'q"
    and next_for :: "string \<Rightarrow> 'q \<Rightarrow> pending_clip option"
    and ids :: "'q \<Rightarrow> string set"
    and has :: "'q \<Rightarrow> pending_clip \<Rightarrow> bool"
    and good :: "'q \<Rightarrow> bool"
  assumes next_has: "next_for u q = Some c \<Longrightarrow> has q c \<and> pc_user_id c = u"
    and has_id: "has q c \<Longrightarrow> pc_clip_id c \<in> ids q"
    and ids_remove: "ids (remove cid q) = ids q - {cid}"
    and ids_update: "ids (update c q) = ids q"
    and update_has: "good q \<Longrightarrow> pc_clip_id c \<in> ids q \<Longrightarrow>
       has (update c q) e \<longleftrightarrow> e = c \<or> (has q e \<and> pc_clip_id e \<noteq> pc_clip_id c)"
    and remove_has: "has (remove cid q) e \<longleftrightarrow> has q e \<and> pc_clip_id e \<noteq> cid"
    and push_has: "has (push c q) e \<Longrightarrow> e = c \<or> (has q e \<and> pc_clip_id e \<noteq> pc_clip_id c)"
    and good_push: "good q \<Longrightarrow> good (push c q)"
    and good_remove: "good q \<Longrightarrow> good (remove cid q)"
    and good_update: "good q \<Longrightarrow> has q e \<Longrightarrow> pc_clip_id e = pc_clip_id c \<Longrightarrow>
       pc_created_ms e = pc_created_ms c \<Longrightarrow> good (update c q)"
begin

lemma next_id: "next_for u q = Some c \<Longrightarrow> pc_clip_id c \<in> ids q"
  using next_has has_id by blast

lemma removed_gone: "next_for u (remove cid q) = Some c \<Longrightarrow> pc_clip_id c \<noteq> cid"
  using next_has remove_has by blast

text \<open>What a client stores for a clip it took is what it takes up again.\<close>

lemma updated_is_current:
  assumes "good q" "next_for u q = Some c" "pc_clip_id c' = pc_clip_id c"
    and "has (update c' q) e" "pc_clip_id e = pc_clip_id c"
  shows "e = c'"
  using assms update_has [of q c' e] next_id [of u q c] by auto

end

lemma uq_ids_update: "pc_clip_id ` set (uq_update_entries c es) = pc_clip_id ` set es"
  using uq_update_map [of es c pc_clip_id] by (metis list.set_map)

lemma uq_update_set:
  "distinct (map pc_clip_id es) \<Longrightarrow> pc_clip_id c \<in> pc_clip_id ` set es \<Longrightarrow>
   e \<in> set (uq_update_entries c es) \<longleftrightarrow> e = c \<or> e \<in> set es \<and> pc_clip_id e \<noteq> pc_clip_id c"
proof (induction es)
  case Nil
  then show ?case by simp
next
  case (Cons a es)
  show ?case
  proof (cases "pc_clip_id a = pc_clip_id c")
    case True
    with Cons.prems(1) have "pc_clip_id c \<notin> pc_clip_id ` set es" by auto
    then have "x \<in> set es \<Longrightarrow> pc_clip_id x \<noteq> pc_clip_id c" for x by (metis imageI)
    with True show ?thesis by (auto simp: uq_update_entries_def)
  next
    case False
    with Cons show ?thesis by (auto simp: uq_update_entries_def)
  qed
qed

lemma uq_push_set:
  "e \<in> set (uq_push_entries c es) \<Longrightarrow> e = c \<or> e \<in> set es \<and> pc_clip_id e \<noteq> pc_clip_id c"
  using set_cap_oldest by (fastforce simp: uq_push_entries_def)

interpretation uq: clip_store uq_push_entries uq_update_entries uq_remove_entries uq_next_entries
    "\<lambda>es. pc_clip_id ` set es" "\<lambda>es c. c \<in> set es" uq_ok
proof unfold_locales
  fix es :: "pending_clip list" and c e :: pending_clip and cid u :: string
  show "uq_next_entries u es = Some c \<Longrightarrow> c \<in> set es \<and> pc_user_id c = u" by (rule uq_next_mem)
  show "c \<in> set es \<Longrightarrow> pc_clip_id c \<in> pc_clip_id ` set es" by simp
  show "pc_clip_id ` set (uq_remove_entries cid es) = pc_clip_id ` set es - {cid}"
    by (auto simp: uq_remove_entries_def)
  show "pc_clip_id ` set (uq_update_entries c es) = pc_clip_id ` set es" by (rule uq_ids_update)
  show "uq_ok es \<Longrightarrow> pc_clip_id c \<in> pc_clip_id ` set es \<Longrightarrow>
      (e \<in> set (uq_update_entries c es)) = (e = c \<or> e \<in> set es \<and> pc_clip_id e \<noteq> pc_clip_id c)"
    by (simp add: uq_ok_def uq_update_set)
  show "(e \<in> set (uq_remove_entries cid es)) = (e \<in> set es \<and> pc_clip_id e \<noteq> cid)"
    by (simp add: uq_remove_entries_def)
  show "e \<in> set (uq_push_entries c es) \<Longrightarrow> e = c \<or> e \<in> set es \<and> pc_clip_id e \<noteq> pc_clip_id c"
    by (rule uq_push_set)
  show "uq_ok es \<Longrightarrow> uq_ok (uq_push_entries c es)" by (rule uq_ok_push)
  show "uq_ok es \<Longrightarrow> uq_ok (uq_remove_entries cid es)" by (rule uq_ok_remove)
  assume ok: "uq_ok es" and mem: "e \<in> set es" and id: "pc_clip_id e = pc_clip_id c"
    and cr: "pc_created_ms e = pc_created_ms c"
  show "uq_ok (uq_update_entries c es)"
  proof (rule uq_ok_update [OF ok])
    fix e'
    assume "e' \<in> set es" "pc_clip_id e' = pc_clip_id c"
    with ok mem id have "e' = e" by (auto simp: uq_ok_def distinct_map inj_on_def)
    with cr show "pc_created_ms e' = pc_created_ms c" by simp
  qed
qed


section \<open>A restart\<close>

text \<open>What a push saved is what the next start reads: with a codec that reads back what it
  wrote and a write that succeeds, opening the file after a push gives the same queue less the
  clips older than seven days, in the same order, and the clip it picks for a user is one that
  still needs its poster whenever the user has such a clip.\<close>

theorem upload_queue_survives_restart:
  assumes "\<And>es. \<exists>j. enc es = Some j \<and> dec j = Some es" and "uq_path q = Some p"
    and "uq_push enc Written c q d = (q1, d1)" and "uq_open enc dec w (Some p) now d1 = (q2, d2)"
  shows "uq_entries q2 = filter (\<lambda>e. wrap_i64 (now - pc_created_ms e) \<le> uq_max_age_ms) (uq_entries q1) \<and>
         (\<forall>user e e'. uq_next_for user q2 = Some e \<longrightarrow> e' \<in> set (uq_entries q2) \<longrightarrow> pc_user_id e' = user \<longrightarrow>
            needs_poster e' \<longrightarrow> needs_poster e)"
proof
  have "read_entries dec p d1 = uq_entries q1"
    using assms(2,3) read_save_entries [of enc dec, OF assms(1)]
    by (auto simp: uq_push_def uq_save_def Let_def)
  with assms(4) show "uq_entries q2 =
      filter (\<lambda>e. wrap_i64 (now - pc_created_ms e) \<le> uq_max_age_ms) (uq_entries q1)"
    by (auto simp: uq_open_def uq_prune_def Let_def)
  show "\<forall>user e e'. uq_next_for user q2 = Some e \<longrightarrow> e' \<in> set (uq_entries q2) \<longrightarrow>
      pc_user_id e' = user \<longrightarrow> needs_poster e' \<longrightarrow> needs_poster e"
    using uq_next_poster_first by (fastforce simp: uq_next_for_def)
qed

definition uq_sample_clip :: pending_clip where
  "uq_sample_clip =
     \<lparr>pc_user_id = ''u'', pc_crew_id = ''c'', pc_clip_id = ''k'', pc_game = ''Portal'',
      pc_mp4_path = ''a.mp4'', pc_poster_path = ''a.jpg'', pc_duration_seconds = 0, pc_width = 1280,
      pc_height = 720, pc_has_voice = False, pc_created_ms = 5, pc_posted = False,
      pc_poster_done = False, pc_upload_id = [], pc_done_parts = []\<rparr>"

lemma upload_queue_survives_restart_witness:
  "uq_entries (fst (uq_open Some Some Written (Some ()) 0
     (snd (uq_push Some Written uq_sample_clip \<lparr>uq_path = Some (), uq_entries = []\<rparr> Map.empty)))) =
   filter (\<lambda>e. wrap_i64 (0 - pc_created_ms e) \<le> uq_max_age_ms)
     (uq_entries (fst (uq_push Some Written uq_sample_clip \<lparr>uq_path = Some (), uq_entries = []\<rparr> Map.empty)))"
  (is "?l = ?r")
proof -
  let ?q = "\<lparr>uq_path = Some (), uq_entries = []\<rparr>"
  obtain q1 d1 where 1: "uq_push Some Written uq_sample_clip ?q Map.empty = (q1, d1)" by fastforce
  obtain q2 d2 where 2: "uq_open Some Some Written (Some ()) 0 d1 = (q2, d2)" by fastforce
  from upload_queue_survives_restart [OF _ _ 1 2] 1 2 show ?thesis by simp
qed

end
