(* ===== verification/Rust_Float.thy ===== *)
theory Rust_Float
  imports Complex_Main Prelude "HOL-Library.Log_Nat"
begin

text \<open>
  The \<open>f32\<close> and \<open>f64\<close> arithmetic of the modelled code. A finite float is the rational it
  stands for; every operation is the exact rational operation followed by rounding to the
  nearest float with \<open>p\<close> significant bits, ties to even (\<open>fl p\<close>, with \<open>p\<close> 24 or 53). The
  code computes with non-negative values between 1e-9 and 1e24 only, so infinities, NaN,
  subnormals and negative zeros do not arise and are not modelled. Casts to integers truncate
  and saturate; \<open>round\<close> is to nearest with halves away from zero.
\<close>

section \<open>Powers of two and binary exponents\<close>

definition pow2 :: "int \<Rightarrow> rat" where
  "pow2 e = (if 0 \<le> e then 2 ^ nat e else 1 / 2 ^ nat (- e))"

lemma pow2_powi: "pow2 e = 2 powi e"
  by (simp add: pow2_def power_int_def inverse_eq_divide power_one_over)

lemma pow2_pos [simp]: "0 < pow2 e"
  by (simp add: pow2_powi)

lemma pow2_add: "pow2 (a + b) = pow2 a * pow2 b"
  by (simp add: pow2_powi power_int_add)

lemma pow2_less [simp]: "pow2 a < pow2 b \<longleftrightarrow> a < b"
proof -
  have "a < b \<Longrightarrow> pow2 a < pow2 b" for a b
    unfolding pow2_powi by (rule power_int_strict_increasing) simp_all
  then show ?thesis by (metis linorder_neqE not_less_iff_gr_or_eq order.asym)
qed

lemma pow2_le [simp]: "pow2 a \<le> pow2 b \<longleftrightarrow> a \<le> b"
  by (simp flip: not_less)

lemma pow2_nat: "pow2 (int n) = 2 ^ n"
  by (simp add: pow2_def)

definition lg2 :: "rat \<Rightarrow> int" where
  "lg2 x = (case quotient_of x of (n, d) \<Rightarrow>
     (let e = bitlen n - bitlen d in if x < pow2 e then e - 1 else e))"

lemma lg2_bounds:
  assumes "0 < x"
  shows "pow2 (lg2 x) \<le> x" and "x < pow2 (lg2 x + 1)"
proof -
  obtain n d where q: "quotient_of x = (n, d)" by fastforce
  have d: "0 < d" using q by (rule quotient_of_denom_pos)
  have x: "x = of_int n / of_int d" using q by (rule quotient_of_div)
  have n: "0 < n" using assms d by (simp add: x zero_less_divide_iff)
  define a b where "a = nat (bitlen n)" and "b = nat (bitlen d)"
  have ab: "bitlen n = int a" "bitlen d = int b" by (simp_all add: a_def b_def bitlen_nonneg)
  have n1: "2 ^ (a - 1) \<le> n" "n < 2 ^ a" and d1: "2 ^ (b - 1) \<le> d" "d < 2 ^ b"
  proof -
    have "nat (bitlen n - 1) = a - 1" "nat (bitlen d - 1) = b - 1"
      by (simp_all add: a_def b_def nat_diff_distrib')
    then show "2 ^ (a - 1) \<le> n" "n < 2 ^ a" "2 ^ (b - 1) \<le> d" "d < 2 ^ b"
      using bitlen_bounds [OF n] bitlen_bounds [OF d] by (simp_all add: a_def b_def)
  qed
  have apos: "0 < a" "0 < b"
    using n1(2) d1(2) n d gr0I by fastforce+
  have N: "(2::rat) ^ (a - 1) \<le> of_int n" "of_int n < (2::rat) ^ a"
    using n1 by (metis of_int_le_iff of_int_less_iff of_int_numeral of_int_power)+
  have D: "(2::rat) ^ (b - 1) \<le> of_int d" "of_int d < (2::rat) ^ b"
    using d1 by (metis of_int_le_iff of_int_less_iff of_int_numeral of_int_power)+
  have dpos: "(0::rat) < of_int d" using d by simp
  let ?e = "int a - int b"
  have e1: "pow2 (?e - 1) * 2 ^ b = 2 ^ (a - 1)"
  proof -
    have "pow2 (?e - 1) * pow2 (int b) = pow2 (int (a - 1))"
      using apos by (simp add: pow2_add [symmetric] of_nat_diff)
    then show ?thesis by (simp only: pow2_nat)
  qed
  have e2: "pow2 (?e + 1) * 2 ^ (b - 1) = 2 ^ a"
  proof -
    have "pow2 (?e + 1) * pow2 (int (b - 1)) = pow2 (int a)"
      using apos by (simp add: pow2_add [symmetric] of_nat_diff)
    then show ?thesis by (simp only: pow2_nat)
  qed
  have lo: "pow2 (?e - 1) \<le> x"
  proof -
    have "pow2 (?e - 1) * of_int d \<le> pow2 (?e - 1) * 2 ^ b"
      using D(2) by (intro mult_left_mono) (auto simp: less_imp_le)
    also have "\<dots> \<le> of_int n" using N(1) e1 by simp
    finally show ?thesis using dpos by (simp add: x pos_le_divide_eq)
  qed
  have hi: "x < pow2 (?e + 1)"
  proof -
    have "of_int n < pow2 (?e + 1) * 2 ^ (b - 1)" using N(2) e2 by simp
    also have "\<dots> \<le> pow2 (?e + 1) * of_int d"
      using D(1) by (intro mult_left_mono) (auto simp: less_imp_le)
    finally show ?thesis using dpos by (simp add: x pos_divide_less_eq)
  qed
  have l: "lg2 x = (if x < pow2 ?e then ?e - 1 else ?e)"
    by (simp add: lg2_def q ab Let_def)
  show "pow2 (lg2 x) \<le> x" using lo by (simp add: l)
  show "x < pow2 (lg2 x + 1)" using hi by (simp add: l)
qed

lemma lg2_mono:
  assumes "0 < x" "x \<le> y"
  shows "lg2 x \<le> lg2 y"
proof -
  have "pow2 (lg2 x) \<le> x" using assms(1) by (rule lg2_bounds)
  also have "\<dots> \<le> y" by (rule assms(2))
  also have "y < pow2 (lg2 y + 1)" using assms by (intro lg2_bounds) simp
  finally have "lg2 x < lg2 y + 1"
    by simp
  then show ?thesis by simp
qed

section \<open>Rounding\<close>

definition round_even :: "rat \<Rightarrow> int" where
  "round_even x =
     (let f = \<lfloor>x\<rfloor>; r = x - of_int f
      in if r < 1 / 2 then f else if 1 / 2 < r then f + 1 else if even f then f else f + 1)"

lemma round_even_int [simp]: "round_even (of_int n) = n"
  by (simp add: round_even_def)

lemma round_even_bounds: "\<bar>of_int (round_even x) - x\<bar> \<le> 1 / 2"
proof -
  define f where "f = \<lfloor>x\<rfloor>"
  have "of_int f \<le> x" "x < of_int f + 1" unfolding f_def by linarith+
  then show ?thesis by (simp add: round_even_def f_def [symmetric] Let_def)
qed

lemma round_even_mono:
  assumes "x \<le> y"
  shows "round_even x \<le> round_even y"
proof (cases "\<lfloor>x\<rfloor> = \<lfloor>y\<rfloor>")
  case True
  with assms show ?thesis by (simp add: round_even_def Let_def)
next
  case False
  with floor_mono [OF assms] have "\<lfloor>x\<rfloor> + 1 \<le> \<lfloor>y\<rfloor>" by linarith
  moreover have "round_even x \<le> \<lfloor>x\<rfloor> + 1" "\<lfloor>y\<rfloor> \<le> round_even y"
    by (simp_all add: round_even_def Let_def)
  ultimately show ?thesis by simp
qed

definition fl :: "nat \<Rightarrow> rat \<Rightarrow> rat" where
  "fl p x = (if x \<le> 0 then 0
     else let u = pow2 (lg2 x - (int p - 1)) in of_int (round_even (x / u)) * u)"

lemma fl_0 [simp]: "fl p 0 = 0"
  by (simp add: fl_def)

lemma fl_error:
  assumes "0 < x"
  shows "\<bar>fl p x - x\<bar> \<le> x / 2 ^ p"
proof -
  define u where "u = pow2 (lg2 x - (int p - 1))"
  have u: "0 < u" by (simp add: u_def)
  have "\<bar>fl p x - x\<bar> = \<bar>of_int (round_even (x / u)) - x / u\<bar> * u"
  proof -
    have "(of_int (round_even (x / u)) - x / u) * u = fl p x - x"
      using assms u by (simp add: fl_def u_def [symmetric] Let_def left_diff_distrib)
    then show ?thesis using u by (metis abs_mult abs_of_pos)
  qed
  also have "\<dots> \<le> 1 / 2 * u"
    using u round_even_bounds by (intro mult_right_mono) auto
  also have "\<dots> = pow2 (lg2 x) / 2 ^ p"
  proof -
    have "pow2 (lg2 x) = pow2 ((lg2 x - (int p - 1)) + (int p - 1))" by simp
    also have "\<dots> = u * pow2 (int p - 1)" by (simp only: pow2_add u_def)
    finally have "pow2 (lg2 x) * 2 = u * (pow2 (int p - 1) * pow2 1)" by (simp add: pow2_def)
    also have "\<dots> = u * 2 ^ p" by (simp only: pow2_add [symmetric] diff_add_cancel pow2_nat)
    finally show ?thesis by (simp add: field_simps)
  qed
  also have "\<dots> \<le> x / 2 ^ p" using lg2_bounds(1) [OF assms] by (simp add: divide_right_mono)
  finally show ?thesis .
qed

lemma fl_nonneg [simp]: "0 \<le> fl p x"
proof (cases "0 < x")
  case True
  have "round_even 0 \<le> round_even (x / pow2 (lg2 x - (int p - 1)))"
    using True by (intro round_even_mono) (simp add: less_imp_le)
  moreover have "round_even 0 = 0" using round_even_int [of 0] by simp
  ultimately show ?thesis using True by (simp add: fl_def Let_def less_imp_le)
qed (simp add: fl_def)

lemma fl_binade:
  assumes "0 < x" "0 < p"
  shows "pow2 (lg2 x) \<le> fl p x" and "fl p x \<le> pow2 (lg2 x + 1)"
proof -
  define u where "u = pow2 (lg2 x - (int p - 1))"
  have u: "0 < u" by (simp add: u_def)
  have lo: "pow2 (lg2 x) = of_int (2 ^ (p - 1)) * u"
  proof -
    have "pow2 (int (p - 1)) * u = pow2 (lg2 x)"
      using assms(2) by (simp add: u_def pow2_add [symmetric] of_nat_diff)
    then show ?thesis by (simp add: pow2_nat)
  qed
  have hi: "pow2 (lg2 x + 1) = of_int (2 ^ p) * u"
  proof -
    have "pow2 (int p) * u = pow2 (lg2 x + 1)" by (simp add: u_def pow2_add [symmetric])
    then show ?thesis by (simp add: pow2_nat)
  qed
  have "of_int (2 ^ (p - 1)) \<le> x / u"
    using lg2_bounds(1) [OF assms(1)] u unfolding lo by (simp add: pos_le_divide_eq)
  then have "round_even (of_int (2 ^ (p - 1))) \<le> round_even (x / u)" by (rule round_even_mono)
  then have "2 ^ (p - 1) \<le> round_even (x / u)" by (simp only: round_even_int)
  then have "(of_int (2 ^ (p - 1)) :: rat) \<le> of_int (round_even (x / u))" by (simp only: of_int_le_iff)
  then show "pow2 (lg2 x) \<le> fl p x"
    using assms(1) u by (simp add: lo fl_def u_def [symmetric] Let_def)
  have "x / u \<le> of_int (2 ^ p)"
    using lg2_bounds(2) [OF assms(1)] u unfolding hi by (simp add: pos_divide_le_eq)
  then have "round_even (x / u) \<le> round_even (of_int (2 ^ p))" by (rule round_even_mono)
  then have "round_even (x / u) \<le> 2 ^ p" by (simp only: round_even_int)
  then have "(of_int (round_even (x / u)) :: rat) \<le> of_int (2 ^ p)" by (simp only: of_int_le_iff)
  then show "fl p x \<le> pow2 (lg2 x + 1)"
    using assms(1) u by (simp add: hi fl_def u_def [symmetric] Let_def)
qed

lemma fl_mono:
  assumes "x \<le> y" "0 < p"
  shows "fl p x \<le> fl p y"
proof (cases "0 < x")
  case True
  with assms have y: "0 < y" by simp
  show ?thesis
  proof (cases "lg2 x = lg2 y")
    case same: True
    have "round_even (x / pow2 (lg2 y - (int p - 1))) \<le> round_even (y / pow2 (lg2 y - (int p - 1)))"
      using assms(1) by (intro round_even_mono divide_right_mono) (simp_all add: less_imp_le)
    then show ?thesis using True y by (simp add: fl_def same Let_def)
  next
    case False
    with lg2_mono [OF True assms(1)] have "lg2 x + 1 \<le> lg2 y" by simp
    then have "pow2 (lg2 x + 1) \<le> pow2 (lg2 y)" by simp
    with fl_binade(2) [OF True assms(2)] fl_binade(1) [OF y assms(2)] show ?thesis by linarith
  qed
next
  case False
  then have "fl p x = 0" by (simp add: fl_def)
  then show ?thesis by simp
qed

text \<open>An integer below \<open>2 ^ p\<close> is a float.\<close>

lemma fl_exact_nat:
  assumes "n < 2 ^ p"
  shows "fl p (of_nat n) = of_nat n"
proof (cases "n = 0")
  case True
  then show ?thesis by simp
next
  case False
  define x where "x = (of_nat n :: rat)"
  have x: "0 < x" using False by (simp add: x_def)
  have "(of_nat n :: rat) < of_nat (2 ^ p)" using assms by (simp only: of_nat_less_iff)
  then have "x < pow2 (int p)" by (simp add: x_def pow2_nat)
  with lg2_bounds(1) [OF x] have "pow2 (lg2 x) < pow2 (int p)" by (rule le_less_trans)
  then have e: "lg2 x - (int p - 1) \<le> 0" by simp
  define k where "k = nat (- (lg2 x - (int p - 1)))"
  have u: "pow2 (lg2 x - (int p - 1)) = 1 / 2 ^ k"
    using e by (auto simp: pow2_def k_def)
  have "x / pow2 (lg2 x - (int p - 1)) = of_int (int n * 2 ^ k)"
    unfolding u by (simp add: x_def)
  then have "round_even (x / pow2 (lg2 x - (int p - 1))) = int n * 2 ^ k"
    by (simp only: round_even_int)
  then show ?thesis using x by (simp add: fl_def x_def [symmetric] Let_def u)
qed

section \<open>The operations the code uses\<close>

abbreviation f64 :: "rat \<Rightarrow> rat" where "f64 x \<equiv> fl 53 x"
abbreviation f32 :: "rat \<Rightarrow> rat" where "f32 x \<equiv> fl 24 x"

definition to_u :: "nat \<Rightarrow> rat \<Rightarrow> nat" where
  "to_u hi x = min hi (nat \<lfloor>x\<rfloor>)"

definition round_away :: "rat \<Rightarrow> rat" where
  "round_away x = of_int \<lfloor>x + 1 / 2\<rfloor>"

lemma to_u_le [simp]: "to_u hi x \<le> hi"
  by (simp add: to_u_def)

lemma to_u_mono: "x \<le> y \<Longrightarrow> to_u hi x \<le> to_u hi y"
  unfolding to_u_def by (intro min.mono nat_mono floor_mono) simp_all

lemma to_u_bound: "0 \<le> x \<Longrightarrow> of_nat (to_u hi x) \<le> x"
proof -
  assume x: "0 \<le> x"
  have "int (to_u hi x) \<le> int (nat \<lfloor>x\<rfloor>)" unfolding to_u_def by (rule zle_int [THEN iffD2]) simp
  also have "\<dots> = \<lfloor>x\<rfloor>" using x by simp
  finally have "of_int (int (to_u hi x)) \<le> x" by (simp only: le_floor_iff)
  then show ?thesis by simp
qed

end
