(* ===== verification/Upload_Pace.thy ===== *)
theory Upload_Pace
  imports Machine Rust_Float
begin

text \<open>
  \<open>mello-core/src/clip_upload/pace.rs\<close> and \<open>mello-core/src/stream/upload_budget.rs\<close>: the rate
  cap of the clip upload, the pacer that spaces its writes, the reader that holds a file to
  the cap, and the governor that gives the upload a budget while the user streams.
\<close>

section \<open>The cap (\<open>UploadPace\<close>)\<close>

definition game_rate_bps :: nat where "game_rate_bps = 3000000"
definition poster_floor_bps :: nat where "poster_floor_bps = 1000000"
definition write_bytes :: nat where "write_bytes = 16 * 1024"
definition pause_abort :: duration where "pause_abort = secs 10"
definition pace_poll :: duration where "pace_poll = millis 100"
definition no_stream :: nat where "no_stream = u64_max"

record upload_pace =
  up_stream_bps :: nat
  up_game_running :: bool

definition pace_new :: upload_pace where
  "pace_new = \<lparr>up_stream_bps = no_stream, up_game_running = False\<rparr>"

definition set_stream_budget :: "nat \<Rightarrow> upload_pace \<Rightarrow> upload_pace" where
  "set_stream_budget bps p = p\<lparr>up_stream_bps := min bps (no_stream - 1)\<rparr>"

definition clear_stream :: "upload_pace \<Rightarrow> upload_pace" where
  "clear_stream p = p\<lparr>up_stream_bps := no_stream\<rparr>"

definition set_game_running :: "bool \<Rightarrow> upload_pace \<Rightarrow> upload_pace" where
  "set_game_running running p = p\<lparr>up_game_running := running\<rparr>"

definition rate_bps :: "upload_pace \<Rightarrow> nat option" where
  "rate_bps p =
     (if up_stream_bps p \<noteq> no_stream then Some (up_stream_bps p)
      else if up_game_running p then Some game_rate_bps else None)"

definition with_floor :: "nat option \<Rightarrow> nat \<Rightarrow> nat option" where
  "with_floor rate floor_bps = map_option (\<lambda>bps. max bps floor_bps) rate"

section \<open>The pacer (\<open>Bucket\<close>)\<close>

text \<open>
  \<open>Duration::from_secs_f64\<close> rounds to the nearest nanosecond, ties to even. The cost of a
  write is its bits over the rate, in \<open>f64\<close>.
\<close>

type_synonym bucket = "instant option"

definition write_cost :: "nat \<Rightarrow> nat \<Rightarrow> duration" where
  "write_cost bytes bps =
     nat (round_even (f64 (f64 (f64 (of_nat bytes) * 8) / f64 (of_nat (max bps 1))) * 1000000000))"

definition bucket_take :: "bucket \<Rightarrow> instant \<Rightarrow> nat \<Rightarrow> nat \<Rightarrow> duration \<times> bucket" where
  "bucket_take next_at now bytes bps =
     (let start = (case next_at of Some next \<Rightarrow> (if now < next then next else now) | None \<Rightarrow> now)
      in (start - now, Some (start + write_cost bytes bps)))"

section \<open>The paced reader\<close>

text \<open>
  The reader's environment answers each look at the world: \<open>rate i\<close> and \<open>stop i\<close> are the cap
  and the stop flag at the \<open>i\<close>-th turn of the wait loop, \<open>elapsed i\<close> how long the pause has
  lasted then (\<open>since.elapsed()\<close>). The loop sleeps \<open>POLL\<close> between turns, so \<open>elapsed\<close> passes
  \<open>PAUSE_ABORT\<close> after finitely many; the fuel bounds the turns.
\<close>

datatype read_error = Upload_stopped | Upload_paused | Inner_error

fun wait_for_rate ::
  "nat \<Rightarrow> (nat \<Rightarrow> nat option) \<Rightarrow> (nat \<Rightarrow> bool) \<Rightarrow> (nat \<Rightarrow> duration) \<Rightarrow> nat \<Rightarrow> nat \<Rightarrow>
   (read_error + nat option) option" where
  "wait_for_rate 0 rate stop elapsed floor_bps i = None"
| "wait_for_rate (Suc fuel) rate stop elapsed floor_bps i =
     (if stop i then Some (Inl Upload_stopped)
      else let r = with_floor (rate i) floor_bps
        in if r \<noteq> Some 0 then Some (Inr r)
           else if elapsed i \<ge> pause_abort then Some (Inl Upload_paused)
           else wait_for_rate fuel rate stop elapsed floor_bps (Suc i))"

text \<open>\<open>sleep\<close> in slices of at most \<open>POLL\<close>, with a look at the stop flag before each.\<close>

function paced_sleep :: "(nat \<Rightarrow> bool) \<Rightarrow> nat \<Rightarrow> duration \<Rightarrow> read_error + nat" where
  "paced_sleep stop i wait =
     (if wait = 0 then Inr i
      else if stop i then Inl Upload_stopped
      else paced_sleep stop (Suc i) (wait - min wait pace_poll))"
  by pat_completeness auto
termination
  by (relation "measure (\<lambda>(stop, i, wait). wait)") (auto simp: pace_poll_def millis_def)

declare paced_sleep.simps [simp del]

text \<open>
  One \<open>read\<close>: \<open>inner n\<close> is the result of reading at most \<open>n\<close> bytes from the file. The result
  is the bytes given, with the new bucket; \<open>None\<close> is fuel too small for the wait.
\<close>

definition paced_read ::
  "nat \<Rightarrow> (nat \<Rightarrow> nat option) \<Rightarrow> (nat \<Rightarrow> bool) \<Rightarrow> (nat \<Rightarrow> duration) \<Rightarrow> nat \<Rightarrow>
   (nat \<Rightarrow> nat option) \<Rightarrow> (nat \<Rightarrow> bool) \<Rightarrow> instant \<Rightarrow> bucket \<Rightarrow> nat \<Rightarrow>
   ((read_error + nat) \<times> bucket) option" where
  "paced_read fuel rate stop elapsed floor_bps inner stop' now b buf_len =
     (case wait_for_rate fuel rate stop elapsed floor_bps 0 of
        None \<Rightarrow> None
      | Some (Inl e) \<Rightarrow> Some (Inl e, b)
      | Some (Inr r) \<Rightarrow>
          (case inner (min buf_len write_bytes) of
             None \<Rightarrow> Some (Inl Inner_error, b)
           | Some n \<Rightarrow>
               if n = 0 then Some (Inr 0, b)
               else (case r of
                   None \<Rightarrow> Some (Inr n, b)
                 | Some bps \<Rightarrow>
                     (case bucket_take b now n bps of (wait, b') \<Rightarrow>
                        (case paced_sleep stop' 0 wait of
                           Inl e \<Rightarrow> Some (Inl e, b')
                         | Inr _ \<Rightarrow> Some (Inr n, b'))))))"

section \<open>The governor (\<open>UploadGovernor\<close>)\<close>

definition max_bps :: nat where "max_bps = 1000000"
definition headroom_percent :: nat where "headroom_percent = 25"
definition fixed_bps :: nat where "fixed_bps = 500000"
definition resume_hold :: duration where "resume_hold = secs 15"
definition pinned_percent :: nat where "pinned_percent = 95"

record stream_load =
  sl_top_rung :: bool
  sl_overloaded :: bool
  sl_gcc_kbps :: "nat option"
  sl_bitrate_kbps :: nat
  sl_preset_kbps :: nat

type_synonym governor = "instant option"

definition under_stream :: "stream_load \<Rightarrow> bool" where
  "under_stream l \<longleftrightarrow> (case sl_gcc_kbps l of None \<Rightarrow> False | Some gcc \<Rightarrow> gcc < sl_bitrate_kbps l)"

definition budget_bps :: "stream_load \<Rightarrow> instant \<Rightarrow> governor \<Rightarrow> nat \<times> governor" where
  "budget_bps l now healthy_since =
     (if \<not> sl_top_rung l \<or> sl_overloaded l \<or> under_stream l then (0, None)
      else
        let since = (case healthy_since of None \<Rightarrow> now | Some t \<Rightarrow> t)
        in (if duration_since now since < resume_hold then 0
            else (case sl_gcc_kbps l of
                None \<Rightarrow> fixed_bps
              | Some gcc \<Rightarrow>
                  if gcc * 100 \<ge> sl_preset_kbps l * pinned_percent then fixed_bps
                  else min ((gcc - sl_bitrate_kbps l) * 1000 * headroom_percent div 100) max_bps),
            Some since))"

text \<open>The hold a stream keeps on the pace: paused from its start, given back when it drops.\<close>

definition pace_hold_new :: "upload_pace \<Rightarrow> upload_pace" where
  "pace_hold_new p = set_stream_budget 0 p"

definition pace_hold_set :: "nat \<Rightarrow> upload_pace \<Rightarrow> upload_pace" where
  "pace_hold_set bps p = set_stream_budget bps p"

definition pace_hold_drop :: "upload_pace \<Rightarrow> upload_pace" where
  "pace_hold_drop p = clear_stream p"

text \<open>A run of the governor over the loads a stream shows, oldest first.\<close>

fun governor_run :: "(stream_load \<times> instant) list \<Rightarrow> governor \<Rightarrow> nat list" where
  "governor_run [] g = []"
| "governor_run ((l, now) # ls) g = (case budget_bps l now g of (b, g') \<Rightarrow> b # governor_run ls g')"

definition sheds :: "stream_load \<Rightarrow> bool" where
  "sheds l \<longleftrightarrow> \<not> sl_top_rung l \<or> sl_overloaded l \<or> under_stream l"

section \<open>Lemmas\<close>

lemma budget_le_max: "fst (budget_bps l now g) \<le> max_bps"
  by (auto simp: budget_bps_def Let_def max_bps_def fixed_bps_def split: option.splits)

lemma budget_shed: "sheds l \<Longrightarrow> budget_bps l now g = (0, None)"
  by (auto simp: sheds_def budget_bps_def)

lemma budget_held: "\<not> sheds l \<Longrightarrow> snd (budget_bps l now g) = Some (case g of None \<Rightarrow> now | Some t \<Rightarrow> t)"
  by (auto simp: sheds_def budget_bps_def Let_def)

lemma budget_positive:
  "0 < fst (budget_bps l now g) \<Longrightarrow> \<not> sheds l \<and> (\<exists>t. g = Some t \<and> resume_hold \<le> now - t)"
  by (auto simp: sheds_def budget_bps_def Let_def resume_hold_def secs_def split: if_splits option.splits)

text \<open>The state of the governor is the time of the first load of the healthy run that reaches now.\<close>

fun governor_state :: "(stream_load \<times> instant) list \<Rightarrow> governor \<Rightarrow> governor" where
  "governor_state [] g = g"
| "governor_state ((l, now) # ls) g = governor_state ls (snd (budget_bps l now g))"

lemma governor_run_append:
  "governor_run (xs @ ys) g = governor_run xs g @ governor_run ys (governor_state xs g)"
  by (induction xs arbitrary: g) (auto split: prod.splits)

lemma governor_state_append: "governor_state (xs @ ys) g = governor_state ys (governor_state xs g)"
  by (induction xs arbitrary: g) auto

lemma governor_state_healthy:
  assumes "governor_state xs None = Some t"
  shows "\<exists>us l vs. xs = us @ (l, t) # vs \<and> (\<forall>(l', _) \<in> set ((l, t) # vs). \<not> sheds l')"
  using assms
proof (induction xs arbitrary: t rule: rev_induct)
  case Nil
  then show ?case by simp
next
  case (snoc x xs)
  obtain l now where x: "x = (l, now)" by fastforce
  have st: "snd (budget_bps l now (governor_state xs None)) = Some t"
    using snoc.prems by (simp add: governor_state_append x)
  then have ok: "\<not> sheds l" using budget_shed by fastforce
  show ?case
  proof (cases "governor_state xs None")
    case None
    with st ok have "t = now" by (simp add: budget_held)
    with ok x show ?thesis by (intro exI [of _ xs] exI [of _ l] exI [of _ "[]"]) simp
  next
    case (Some u)
    with st ok have "u = t" by (simp add: budget_held)
    with snoc.IH Some obtain us l' vs where "xs = us @ (l', t) # vs"
      "\<forall>(l'', _) \<in> set ((l', t) # vs). \<not> sheds l''" by blast
    with ok x show ?thesis by (intro exI [of _ us] exI [of _ l'] exI [of _ "vs @ [x]"]) auto
  qed
qed

lemma wait_for_rate_mono:
  "wait_for_rate fuel rate stop elapsed fb i = Some r \<Longrightarrow>
   wait_for_rate (fuel + k) rate stop elapsed fb i = Some r"
  by (induction fuel arbitrary: i) (auto simp: Let_def split: if_splits)

lemma wait_for_rate_returns:
  assumes "pause_abort \<le> elapsed (i + n)" "n < fuel"
  shows "\<exists>r. wait_for_rate fuel rate stop elapsed fb i = Some r"
  using assms
proof (induction n arbitrary: i fuel)
  case 0
  then obtain f where "fuel = Suc f" by (cases fuel) auto
  with 0 show ?case by (auto simp: Let_def)
next
  case (Suc n)
  then obtain f where f: "fuel = Suc f" by (cases fuel) auto
  have "\<exists>r. wait_for_rate f rate stop elapsed fb (Suc i) = Some r"
    using Suc.IH [of "Suc i" f] Suc.prems f by simp
  with f show ?case by (auto simp: Let_def)
qed

lemma wait_for_rate_floor:
  assumes "0 < fb" "wait_for_rate fuel rate stop elapsed fb i = Some r"
  shows "r = (if stop i then Inl Upload_stopped else Inr (with_floor (rate i) fb))"
proof -
  have "with_floor (rate i) fb \<noteq> Some 0" using assms(1) by (auto simp: with_floor_def)
  with assms(2) show ?thesis by (cases fuel) (auto simp: Let_def)
qed

lemma wait_for_rate_Inr:
  "wait_for_rate fuel rate stop elapsed fb i = Some (Inr r) \<Longrightarrow> r \<noteq> Some 0"
  by (induction fuel arbitrary: i) (auto simp: Let_def split: if_splits)

lemma paced_sleep_stops: "(\<forall>j. \<not> stop j) \<Longrightarrow> \<exists>j. paced_sleep stop i wait = Inr j"
proof (induction stop i wait rule: paced_sleep.induct)
  case (1 stop i wait)
  show ?case
  proof (cases "wait = 0")
    case True
    then show ?thesis by (subst paced_sleep.simps) simp
  next
    case False
    with "1.IH" "1.prems" have "\<exists>j. paced_sleep stop (Suc i) (wait - min wait pace_poll) = Inr j" by blast
    moreover have "paced_sleep stop i wait = paced_sleep stop (Suc i) (wait - min wait pace_poll)"
      using False "1.prems" by (subst paced_sleep.simps) simp
    ultimately show ?thesis by simp
  qed
qed


section \<open>The governor waits out a healthy stream\<close>

text \<open>Over any loads a stream shows, the governor gives the upload at most 1 Mb/s; it gives
  nothing while the stream is below its top rung, overloaded or above its estimate; and a rate
  above zero means that the stream has been healthy without a break for at least 15 seconds.\<close>

theorem governor_waits_for_health:
  assumes "0 < last (governor_run (loads @ [(l, now)]) None)"
  shows "\<not> sheds l \<and> last (governor_run (loads @ [(l, now)]) None) \<le> 1000000 \<and>
    (\<exists>us l0 t vs. loads = us @ (l0, t) # vs \<and> (\<forall>(l', _) \<in> set ((l0, t) # vs). \<not> sheds l') \<and>
       15 * 1000000000 \<le> now - t)"
proof -
  let ?g = "governor_state loads None"
  have last: "last (governor_run (loads @ [(l, now)]) None) = fst (budget_bps l now ?g)"
    by (simp add: governor_run_append split: prod.splits)
  from assms obtain t where "\<not> sheds l" "?g = Some t" "resume_hold \<le> now - t"
    using budget_positive unfolding last by blast
  moreover obtain us l0 vs where "loads = us @ (l0, t) # vs" "\<forall>(l', _) \<in> set ((l0, t) # vs). \<not> sheds l'"
    using governor_state_healthy [of loads t] \<open>?g = Some t\<close> by blast
  moreover have "15 * 1000000000 \<le> now - t"
    using \<open>resume_hold \<le> now - t\<close> by (simp add: resume_hold_def secs_def)
  moreover have "last (governor_run (loads @ [(l, now)]) None) \<le> 1000000"
    using last budget_le_max [of l now ?g] by (simp add: max_bps_def)
  ultimately show ?thesis by blast
qed

definition sample_load :: stream_load where
  "sample_load = \<lparr>sl_top_rung = True, sl_overloaded = False, sl_gcc_kbps = Some 3000,
     sl_bitrate_kbps = 2000, sl_preset_kbps = 4000\<rparr>"

lemma governor_waits_for_health_witness:
  "\<exists>us l0 t vs. [(sample_load, 0)] = us @ (l0, t) # vs \<and>
     (\<forall>(l', _) \<in> set ((l0, t) # vs). \<not> sheds l') \<and> 15 * 1000000000 \<le> secs 15 - t"
  using governor_waits_for_health [of "[(sample_load, 0)]" sample_load "secs 15",
      THEN conjunct2, THEN conjunct2]
  by (simp add: sample_load_def budget_bps_def under_stream_def resume_hold_def secs_def
      pinned_percent_def headroom_percent_def max_bps_def)

section \<open>The bucket spaces the writes\<close>

text \<open>The times at which a run of writes may go on, one after another.\<close>

fun bucket_run :: "(instant \<times> nat \<times> nat) list \<Rightarrow> bucket \<Rightarrow> instant list" where
  "bucket_run [] b = []"
| "bucket_run ((now, bytes, bps) # ws) b =
     (case bucket_take b now bytes bps of (wait, b') \<Rightarrow> (now + wait) # bucket_run ws b')"

definition cost_of :: "instant \<times> nat \<times> nat \<Rightarrow> duration" where
  "cost_of w = (case w of (now, bytes, bps) \<Rightarrow> write_cost bytes bps)"

lemma cost_of_pair [simp]: "cost_of (now, bytes, bps) = write_cost bytes bps"
  by (simp add: cost_of_def)

lemma bucket_take_start:
  "bucket_take b now bytes bps = (wait, b') \<Longrightarrow>
   b' = Some (now + wait + write_cost bytes bps) \<and> (\<forall>n. b = Some n \<longrightarrow> n \<le> now + wait)"
  by (auto simp: bucket_take_def Let_def split: option.splits if_splits)

lemma bucket_run_length [simp]: "length (bucket_run ws b) = length ws"
  by (induction ws b rule: bucket_run.induct) (auto split: prod.splits)

lemma bucket_run_after:
  assumes "j < length ws" "b = Some n"
  shows "n + sum_list (map cost_of (take j ws)) \<le> bucket_run ws b ! j"
  using assms
proof (induction ws b arbitrary: j n rule: bucket_run.induct)
  case (1 b)
  then show ?case by simp
next
  case (2 now bytes bps ws b)
  obtain wait b' where t: "bucket_take b now bytes bps = (wait, b')" by fastforce
  note s = bucket_take_start [OF t]
  show ?case
  proof (cases j)
    case 0
    with t s 2 show ?thesis by simp
  next
    case (Suc k)
    have "now + wait + write_cost bytes bps + sum_list (map cost_of (take k ws)) \<le> bucket_run ws b' ! k"
      using 2 t s Suc by (intro 2(1) [OF t [symmetric]]) simp_all
    with Suc 2(3) t s show ?thesis by auto
  qed
qed

lemma bucket_run_drop:
  "i < length ws \<Longrightarrow> \<exists>b'. drop i (bucket_run ws b) = bucket_run (drop i ws) b'"
proof (induction i arbitrary: ws b)
  case 0
  then show ?case by auto
next
  case (Suc i)
  then obtain now bytes bps ws' where ws: "ws = (now, bytes, bps) # ws'" by (cases ws) auto
  with Suc show ?case by (auto split: prod.splits)
qed

lemma bucket_spacing:
  assumes "i < j" "j < length ws"
  shows "bucket_run ws b ! i + sum_list (map cost_of (take (j - i) (drop i ws))) \<le> bucket_run ws b ! j"
proof -
  obtain b' where d: "drop i (bucket_run ws b) = bucket_run (drop i ws) b'"
    using bucket_run_drop assms by (metis order.strict_trans)
  obtain now bytes bps ws' where ws: "drop i ws = (now, bytes, bps) # ws'"
    using assms by (metis Cons_nth_drop_Suc order.strict_trans prod_cases3)
  obtain wait b2 where t: "bucket_take b' now bytes bps = (wait, b2)" by fastforce
  have n: "bucket_run ws b ! (i + k) = bucket_run (drop i ws) b' ! k" if "i + k < length ws" for k
    using that by (simp flip: d)
  obtain m where m: "j = Suc (i + m)" using assms(1) less_iff_Suc_add by auto
  have "length (drop i ws) = Suc (length ws')" using ws by simp
  then have len: "m < length ws'" using assms m by simp
  have "now + wait + write_cost bytes bps + sum_list (map cost_of (take m ws')) \<le> bucket_run ws' b2 ! m"
    using bucket_run_after [OF len] bucket_take_start [OF t] by simp
  moreover have "bucket_run ws b ! i = now + wait" using n [of 0] assms ws t by simp
  moreover have "bucket_run ws b ! j = bucket_run ws' b2 ! m" using n [of "Suc m"] assms ws t m by simp
  moreover have "take (j - i) (drop i ws) = (now, bytes, bps) # take m ws'" using ws m by simp
  ultimately show ?thesis by simp
qed

text \<open>The nanoseconds of a write are its bits over the rate, up to the rounding of \<open>f64\<close>.\<close>

lemma scale_error:
  fixes a x e :: rat
  assumes "\<bar>a - x\<bar> \<le> x / e"
  shows "\<bar>a * 1000000000 - x * 1000000000\<bar> \<le> x * 1000000000 / e"
proof -
  have "\<bar>a * 1000000000 - x * 1000000000\<bar> = \<bar>a - x\<bar> * 1000000000"
    by (simp only: abs_mult left_diff_distrib [symmetric] abs_numeral)
  also have "\<dots> \<le> x / e * 1000000000" using assms by (intro mult_right_mono) simp_all
  finally show ?thesis by simp
qed

lemma write_cost_bound:
  assumes "0 < bytes" "bytes < 2 ^ 50" "bps < 2 ^ 53"
  shows "\<bar>of_nat (write_cost bytes bps) - of_nat bytes * 8 * 1000000000 / of_nat (max bps 1)\<bar>
    \<le> 1 / 2 + of_nat bytes * 8 * 1000000000 / of_nat (max bps 1) / (2 ^ 53 :: rat)"
proof -
  define x :: rat where "x = of_nat bytes * 8 / of_nat (max bps 1)"
  define y where "y = f64 x * 1000000000"
  have x: "0 < x" using assms(1) by (simp add: x_def)
  have "f64 (of_nat (bytes * 8)) = of_nat (bytes * 8)" using assms(2) by (intro fl_exact_nat) simp
  then have b: "f64 (f64 (of_nat bytes) * 8) = of_nat bytes * 8"
    using fl_exact_nat [of bytes 53] assms(2) by simp
  have "f64 (of_nat (max bps 1)) = of_nat (max bps 1)" using assms(3) by (intro fl_exact_nat) simp
  with b have cost: "write_cost bytes bps = nat (round_even y)"
    by (simp add: write_cost_def x_def y_def)
  have "round_even 0 \<le> round_even y" unfolding y_def by (intro round_even_mono) simp
  then have "0 \<le> round_even y" using round_even_int [of 0] by simp
  then have c: "(of_nat (write_cost bytes bps) :: rat) = of_int (round_even y)"
    by (simp add: cost)
  have "\<bar>f64 x - x\<bar> \<le> x / 2 ^ 53" by (rule fl_error [OF x])
  then have "\<bar>y - x * 1000000000\<bar> \<le> x * 1000000000 / 2 ^ 53"
    unfolding y_def by (rule scale_error)
  with round_even_bounds [of y] have "\<bar>of_int (round_even y) - x * 1000000000\<bar> \<le>
      1 / 2 + x * 1000000000 / 2 ^ 53" by linarith
  moreover have "x * 1000000000 = of_nat bytes * 8 * 1000000000 / of_nat (max bps 1)"
    by (simp add: x_def)
  ultimately show ?thesis by (simp only: c)
qed

text \<open>C40: between two writes of a reader the bucket leaves at least the cost of all writes from
  the first up to the second, whatever the pauses between them were, so an idle time gives no
  burst; and the cost of a write is its bits over the rate, to half a nanosecond and the rounding
  of one \<open>f64\<close> division.\<close>

theorem bucket_keeps_rate:
  assumes "i < j" "j < length ws"
    and "0 < bytes" "bytes < 2 ^ 50" "bps < 2 ^ 53"
  shows "bucket_run ws b ! i + sum_list (map (\<lambda>(_, bytes, bps). write_cost bytes bps) (take (j - i) (drop i ws)))
           \<le> bucket_run ws b ! j \<and>
         \<bar>of_nat (write_cost bytes bps) - of_nat bytes * 8 * 1000000000 / of_nat (max bps 1)\<bar>
           \<le> 1 / 2 + of_nat bytes * 8 * 1000000000 / of_nat (max bps 1) / (2 ^ 53 :: rat)"
proof -
  have "cost_of = (\<lambda>(_, bytes, bps). write_cost bytes bps)" by (simp add: cost_of_def fun_eq_iff)
  with bucket_spacing [OF assms(1,2), of b] write_cost_bound [OF assms(3-5)] show ?thesis by simp
qed

lemma bucket_keeps_rate_witness:
  "bucket_run [(0, 16384, 1000000), (5, 100, 8)] None ! 0 + write_cost 16384 1000000
     \<le> bucket_run [(0, 16384, 1000000), (5, 100, 8)] None ! 1"
  using bucket_keeps_rate [of 0 1 "[(0, 16384, 1000000), (5, 100, 8)]" 1 1 None, THEN conjunct1]
  by simp

text \<open>The poster goes up while a stream pauses the upload: with a floor above zero a read never
  ends as paused, whatever the cap is; and with no floor the wait for a cap ends as soon as the
  pause has lasted ten seconds, so a paused reader cannot hold its thread for ever.\<close>

theorem paced_read_pause:
  assumes "pause_abort \<le> elapsed n" "n < fuel"
  shows "(\<exists>r b'. paced_read fuel rate stop elapsed floor_bps inner stop' now b len = Some (r, b')) \<and>
         (0 < floor_bps \<longrightarrow>
            (\<forall>b'. paced_read fuel rate stop elapsed floor_bps inner stop' now b len \<noteq> Some (Inl Upload_paused, b')))"
proof -
  obtain r where r: "wait_for_rate fuel rate stop elapsed floor_bps 0 = Some r"
    using wait_for_rate_returns [of elapsed 0 n fuel rate stop floor_bps] assms by auto
  have sleep: "paced_sleep stop i w \<noteq> Inl Upload_paused" for stop i w
  proof (induction stop i w rule: paced_sleep.induct)
    case (1 stop i wait)
    then show ?case by (subst paced_sleep.simps) simp
  qed
  have "0 < floor_bps \<Longrightarrow> r \<noteq> Inl Upload_paused" using wait_for_rate_floor [OF _ r] by (simp split: if_splits)
  with r sleep show ?thesis
    by (auto simp: paced_read_def split: sum.splits option.splits prod.splits)
qed

lemma paced_read_pause_witness:
  "\<exists>r b'. paced_read 200 (\<lambda>_. Some 0) (\<lambda>_. False) (\<lambda>i. i * pace_poll) 0 Some (\<lambda>_. False) 0 None 10 = Some (r, b')"
  by (rule paced_read_pause [where n = 100, THEN conjunct1])
     (simp_all add: pause_abort_def pace_poll_def secs_def millis_def)

end
