(* ===== verification/Upload_Worker.thy ===== *)
theory Upload_Worker
  imports Upload_Queue Upload_Pace
begin

text \<open>
  \<open>mello-core/src/clip_upload/worker.rs\<close> and the status mapping of \<open>clip_upload/http.rs\<close>: the
  steps that take one clip through \<open>post_clip\<close>, the poster, the MP4 parts and the complete,
  and the turn of the worker loop over the queue. The backend and the storage (two traits,
  implemented over HTTP) and the file system are functions on a world state, bundled in the
  record \<open>services\<close>; logging is left out.
\<close>

section \<open>Requests, answers, failures\<close>

datatype failure = Retry string | Refused string | Expired | NoSuchUpload | Paused | Stopped

datatype step_result =
    Progress
  | Finished string
  | Dropped string
  | Step_retry string
  | Step_paused
  | Step_stopped

fun step_of_failure :: "failure \<Rightarrow> step_result" where
  "step_of_failure (Retry why) = Step_retry why"
| "step_of_failure (Refused why) = Dropped why"
| "step_of_failure Expired = Dropped ''the upload URL expired''"
| "step_of_failure NoSuchUpload = Dropped ''the upload is gone''"
| "step_of_failure Paused = Step_paused"
| "step_of_failure Stopped = Step_stopped"

record post_clip_request =
  pcr_crew_id :: string
  pcr_clip_id :: string
  pcr_clip_type :: string
  pcr_duration_seconds :: f64_bits
  pcr_participants :: "string list"
  pcr_game :: string
  pcr_local_path :: string
  pcr_waveform :: string
  pcr_width :: nat
  pcr_height :: nat
  pcr_has_voice :: bool

record url_request =
  ur_clip_id :: string
  ur_crew_id :: string
  ur_clip_type :: string
  ur_poster_bytes :: nat
  ur_video_bytes :: nat
  ur_upload_id :: string

record upload_part_url =
  pu_part_number :: nat
  pu_url :: string
  pu_bytes :: nat

record url_response =
  us_poster_upload_url :: string
  us_poster_url :: string
  us_upload_id :: string
  us_part_size :: nat
  us_parts :: "upload_part_url list"
  us_media_url :: string
  us_cache_control :: string

record complete_request =
  cr_clip_id :: string
  cr_crew_id :: string
  cr_clip_type :: string
  cr_part :: string
  cr_upload_id :: string
  cr_parts :: "completed_part list"

record complete_response =
  cs_success :: bool
  cs_media_url :: string
  cs_poster_url :: string

record put_request =
  put_url :: string
  put_path :: string
  put_offset :: nat
  put_len :: nat
  put_content_type :: "string option"
  put_cache_control :: "string option"
  put_floor_bps :: nat

text \<open>\<open>post_clip\<close> answers the event id; its other fields are not read.\<close>

record 's services =
  sv_file_len :: "string \<Rightarrow> 's \<Rightarrow> nat option"
  sv_rate :: "'s \<Rightarrow> nat option"
  sv_post_clip :: "post_clip_request \<Rightarrow> 's \<Rightarrow> (failure + string) \<times> 's"
  sv_upload_urls :: "url_request \<Rightarrow> 's \<Rightarrow> (failure + url_response) \<times> 's"
  sv_complete :: "complete_request \<Rightarrow> 's \<Rightarrow> (failure + complete_response) \<times> 's"
  sv_put :: "put_request \<Rightarrow> 's \<Rightarrow> (failure + string) \<times> 's"

datatype upload_event =
    ClipPosted string string
  | ClipUploaded string string
  | GameClipUploadFailed string string

record uploader =
  ul_urls :: "string \<rightharpoonup> url_response"
  ul_renewed :: "string set"
  ul_events :: "upload_event list"

definition uploader_new :: uploader where
  "uploader_new = \<lparr>ul_urls = Map.empty, ul_renewed = {}, ul_events = []\<rparr>"

definition emit :: "upload_event \<Rightarrow> uploader \<Rightarrow> uploader" where
  "emit ev up = up\<lparr>ul_events := ul_events up @ [ev]\<rparr>"

definition forget :: "string \<Rightarrow> uploader \<Rightarrow> uploader" where
  "forget cid up = up\<lparr>ul_urls := (ul_urls up)(cid := None), ul_renewed := ul_renewed up - {cid}\<rparr>"

section \<open>The steps of one clip\<close>

text \<open>Each returns its result, the clip, the uploader and the world after it.\<close>

type_synonym 's step_out = "step_result \<times> pending_clip \<times> uploader \<times> 's"

definition post_step :: "'s services \<Rightarrow> pending_clip \<Rightarrow> uploader \<Rightarrow> 's \<Rightarrow> 's step_out" where
  "post_step sv c up s =
     (let req = \<lparr>pcr_crew_id = pc_crew_id c, pcr_clip_id = pc_clip_id c, pcr_clip_type = ''game'',
                 pcr_duration_seconds = pc_duration_seconds c, pcr_participants = [],
                 pcr_game = pc_game c, pcr_local_path = pc_mp4_path c, pcr_waveform = '''',
                 pcr_width = pc_width c, pcr_height = pc_height c, pcr_has_voice = pc_has_voice c\<rparr>
      in case sv_post_clip sv req s of
           (Inr event_id, s') \<Rightarrow>
             (Progress, c\<lparr>pc_posted := True\<rparr>, emit (ClipPosted (pc_clip_id c) event_id) up, s')
         | (Inl f, s') \<Rightarrow> (step_of_failure f, c, up, s'))"

definition request_urls_step ::
  "'s services \<Rightarrow> pending_clip \<Rightarrow> nat \<Rightarrow> nat \<Rightarrow> uploader \<Rightarrow> 's \<Rightarrow> 's step_out" where
  "request_urls_step sv c poster_bytes video_bytes up s =
     (let req = \<lparr>ur_clip_id = pc_clip_id c, ur_crew_id = pc_crew_id c, ur_clip_type = ''game'',
                 ur_poster_bytes = poster_bytes, ur_video_bytes = video_bytes,
                 ur_upload_id = pc_upload_id c\<rparr>
      in case sv_upload_urls sv req s of
           (Inr urls, s') \<Rightarrow>
             if us_upload_id urls = [] \<or> us_part_size urls = 0
             then (Dropped ''the server has no clip storage'', c, up, s')
             else
               (let c' = (if us_upload_id urls \<noteq> pc_upload_id c
                          then c\<lparr>pc_upload_id := us_upload_id urls, pc_done_parts := []\<rparr> else c)
                in (Progress, c', up\<lparr>ul_urls := (ul_urls up)(pc_clip_id c \<mapsto> urls)\<rparr>, s'))
         | (Inl f, s') \<Rightarrow> (step_of_failure f, c, up, s'))"

definition renew :: "pending_clip \<Rightarrow> bool \<Rightarrow> uploader \<Rightarrow> 's \<Rightarrow> 's step_out" where
  "renew c restart up s =
     (if pc_clip_id c \<in> ul_renewed up
      then (Dropped ''the bucket refuses the upload'', c, up, s)
      else
        (Progress,
         (if restart then c\<lparr>pc_upload_id := '''', pc_done_parts := []\<rparr> else c),
         up\<lparr>ul_renewed := insert (pc_clip_id c) (ul_renewed up),
            ul_urls := (ul_urls up)(pc_clip_id c := None)\<rparr>,
         s))"

definition complete_request_of :: "pending_clip \<Rightarrow> string \<Rightarrow> completed_part list \<Rightarrow> complete_request" where
  "complete_request_of c part parts =
     \<lparr>cr_clip_id = pc_clip_id c, cr_crew_id = pc_crew_id c, cr_clip_type = ''game'', cr_part = part,
      cr_upload_id = (if part = ''video'' then pc_upload_id c else ''''), cr_parts = parts\<rparr>"

definition poster_put :: "pending_clip \<Rightarrow> url_response \<Rightarrow> nat \<Rightarrow> put_request" where
  "poster_put c urls poster_bytes =
     \<lparr>put_url = us_poster_upload_url urls, put_path = pc_poster_path c, put_offset = 0,
      put_len = poster_bytes, put_content_type = Some ''image/jpeg'',
      put_cache_control = Some (us_cache_control urls), put_floor_bps = poster_floor_bps\<rparr>"

definition send_poster_step ::
  "'s services \<Rightarrow> pending_clip \<Rightarrow> url_response \<Rightarrow> nat \<Rightarrow> uploader \<Rightarrow> 's \<Rightarrow> 's step_out" where
  "send_poster_step sv c urls poster_bytes up s =
     (case sv_put sv (poster_put c urls poster_bytes) s of
        (Inl Expired, s') \<Rightarrow> renew c False up s'
      | (Inl f, s') \<Rightarrow> (step_of_failure f, c, up, s')
      | (Inr _, s') \<Rightarrow>
          (case sv_complete sv (complete_request_of c ''poster'' []) s' of
             (Inr _, s'') \<Rightarrow>
               (Progress, c\<lparr>pc_poster_done := True\<rparr>,
                up\<lparr>ul_renewed := ul_renewed up - {pc_clip_id c}\<rparr>, s'')
           | (Inl f, s'') \<Rightarrow> (step_of_failure f, c, up, s'')))"

text \<open>Offsets are \<open>u64\<close>: the product wraps at its width.\<close>

definition part_put :: "pending_clip \<Rightarrow> url_response \<Rightarrow> upload_part_url \<Rightarrow> put_request" where
  "part_put c urls part =
     \<lparr>put_url = pu_url part, put_path = pc_mp4_path c,
      put_offset = wrap_u u64_max ((pu_part_number part - 1) * us_part_size urls),
      put_len = pu_bytes part, put_content_type = None, put_cache_control = None,
      put_floor_bps = 0\<rparr>"

definition send_part_step ::
  "'s services \<Rightarrow> pending_clip \<Rightarrow> url_response \<Rightarrow> upload_part_url \<Rightarrow> uploader \<Rightarrow> 's \<Rightarrow> 's step_out" where
  "send_part_step sv c urls part up s =
     (if sv_rate sv s = Some 0 then (Step_paused, c, up, s)
      else case sv_put sv (part_put c urls part) s of
        (Inr etag, s') \<Rightarrow>
          (Progress,
           c\<lparr>pc_done_parts := pc_done_parts c @
               [\<lparr>cp_part_number = pu_part_number part, cp_etag = etag\<rparr>]\<rparr>,
           up\<lparr>ul_renewed := ul_renewed up - {pc_clip_id c}\<rparr>, s')
      | (Inl Expired, s') \<Rightarrow> renew c False up s'
      | (Inl NoSuchUpload, s') \<Rightarrow> renew c True up s'
      | (Inl f, s') \<Rightarrow> (step_of_failure f, c, up, s'))"

definition complete_video_step ::
  "'s services \<Rightarrow> pending_clip \<Rightarrow> uploader \<Rightarrow> 's \<Rightarrow> 's step_out" where
  "complete_video_step sv c up s =
     (case sv_complete sv (complete_request_of c ''video'' (sort_key cp_part_number (pc_done_parts c))) s of
        (Inr resp, s') \<Rightarrow> (Finished (cs_media_url resp), c, up, s')
      | (Inl f, s') \<Rightarrow> (step_of_failure f, c, up, s'))"

definition next_part :: "pending_clip \<Rightarrow> url_response \<Rightarrow> upload_part_url option" where
  "next_part c urls =
     List.find (\<lambda>p. \<not> (\<exists>d \<in> set (pc_done_parts c). cp_part_number d = pu_part_number p)) (us_parts urls)"

definition clip_step :: "'s services \<Rightarrow> pending_clip \<Rightarrow> uploader \<Rightarrow> 's \<Rightarrow> 's step_out" where
  "clip_step sv c up s =
     (case (sv_file_len sv (pc_mp4_path c) s, sv_file_len sv (pc_poster_path c) s) of
        (Some mp4, Some poster) \<Rightarrow>
          if \<not> pc_posted c then post_step sv c up s
          else (case ul_urls up (pc_clip_id c) of
              None \<Rightarrow> request_urls_step sv c poster mp4 up s
            | Some urls \<Rightarrow>
                if \<not> pc_poster_done c then send_poster_step sv c urls poster up s
                else (case next_part c urls of
                    Some part \<Rightarrow> send_part_step sv c urls part up s
                  | None \<Rightarrow> complete_video_step sv c up s))
      | _ \<Rightarrow> (Dropped ''the clip files are gone'', c, up, s))"

section \<open>The worker loop\<close>

definition retry_delay :: "nat \<Rightarrow> duration" where
  "retry_delay failures = secs (min (5 * 2 ^ min (failures - 1) 6) 300)"

definition pause_poll :: duration where "pause_poll = secs 1"

datatype msg = Enqueue pending_clip | User "string option"

record ('s, 'p, 'j) worker =
  wk_queue :: "'p upload_queue"
  wk_disk :: "'p \<rightharpoonup> 'j"
  wk_user :: "string option"
  wk_failures :: nat
  wk_paused :: bool
  wk_up :: uploader
  wk_world :: 's

definition apply_msg ::
  "(pending_clip list \<Rightarrow> 'j option) \<Rightarrow> 'j write_outcome \<Rightarrow> ('s, 'p, 'j) worker \<Rightarrow> msg \<Rightarrow> ('s, 'p, 'j) worker" where
  "apply_msg enc w k m =
     (case m of
        Enqueue c \<Rightarrow>
          (case uq_push enc w c (wk_queue k) (wk_disk k) of
             (q, d) \<Rightarrow> k\<lparr>wk_queue := q, wk_disk := d\<rparr>)
      | User u \<Rightarrow> k\<lparr>wk_user := u\<rparr>)"

text \<open>What the loop does after a turn: the next turn at once, a wait (ended early by a
  message), a wait for a message with nothing to do, or its end.\<close>

datatype turn = Again | Wait duration | Block | Quit

text \<open>
  One turn with the messages the channel holds. A message that ends a wait or a block is the
  first of the next turn's messages: the loop applies it and then drains the channel.
\<close>

definition finish_step ::
  "(pending_clip list \<Rightarrow> 'j option) \<Rightarrow> 'j write_outcome \<Rightarrow> step_result \<Rightarrow> pending_clip \<Rightarrow>
   ('s, 'p, 'j) worker \<Rightarrow> ('s, 'p, 'j) worker \<times> turn" where
  "finish_step enc w st c k =
     (case st of
        Progress \<Rightarrow>
          (case uq_update enc w c (wk_queue k) (wk_disk k) of
             (q, d) \<Rightarrow> (k\<lparr>wk_failures := 0, wk_queue := q, wk_disk := d\<rparr>, Again))
      | Finished media_url \<Rightarrow>
          (case uq_remove enc w (pc_clip_id c) (wk_queue k) (wk_disk k) of
             (q, d) \<Rightarrow> (k\<lparr>wk_failures := 0, wk_queue := q, wk_disk := d,
                wk_up := emit (ClipUploaded (pc_clip_id c) media_url) (forget (pc_clip_id c) (wk_up k))\<rparr>, Again))
      | Dropped reason \<Rightarrow>
          (case uq_remove enc w (pc_clip_id c) (wk_queue k) (wk_disk k) of
             (q, d) \<Rightarrow> (k\<lparr>wk_queue := q, wk_disk := d,
                wk_up := emit (GameClipUploadFailed (pc_clip_id c) reason) (forget (pc_clip_id c) (wk_up k))\<rparr>, Again))
      | Step_retry why \<Rightarrow>
          (let f = wrap_u u32_max (wk_failures k + 1)
           in (k\<lparr>wk_failures := f\<rparr>, Wait (retry_delay f)))
      | Step_paused \<Rightarrow> (k, Wait pause_poll)
      | Step_stopped \<Rightarrow> (k, Quit))"

definition worker_turn ::
  "'s services \<Rightarrow> (pending_clip list \<Rightarrow> 'j option) \<Rightarrow> 'j write_outcome \<Rightarrow> bool \<Rightarrow> msg list \<Rightarrow>
   ('s, 'p, 'j) worker \<Rightarrow> ('s, 'p, 'j) worker \<times> turn" where
  "worker_turn sv enc w stop msgs k =
     (let k1 = foldl (apply_msg enc w) k msgs
      in if stop then (k1, Quit)
         else (case Option.bind (wk_user k1) (\<lambda>u. uq_next_for u (wk_queue k1)) of
             None \<Rightarrow> (k1, Block)
           | Some clip \<Rightarrow>
               (case clip_step sv clip (wk_up k1) (wk_world k1) of
                  (st, c, up, s) \<Rightarrow>
                    finish_step enc w st c
                      (k1\<lparr>wk_up := up, wk_world := s, wk_paused := (st = Step_paused)\<rparr>))))"

section \<open>The status codes of the HTTP side\<close>

text \<open>\<open>json_message\<close> is the \<open>message\<close> field of a JSON body (\<open>serde_json\<close>).\<close>

definition rpc_failure :: "(string \<Rightarrow> string option) \<Rightarrow> string \<Rightarrow> nat \<Rightarrow> string \<Rightarrow> failure" where
  "rpc_failure json_message rpc_id status body =
     (let message = (case json_message body of Some m \<Rightarrow> m | None \<Rightarrow> body);
          why = rpc_id @ '': HTTP '' @ show_nat status @ '': '' @ message
      in if status = 401 \<or> status = 408 \<or> status \<ge> 500 then Retry why else Refused why)"

text \<open>\<open>lines().next()\<close>: up to the first line feed, without a carriage return before it.\<close>

definition first_line :: "string \<Rightarrow> string" where
  "first_line t =
     (let l = takeWhile (\<lambda>c. c \<noteq> CHR 0x0A) t
      in if length l < length t \<and> l \<noteq> [] \<and> last l = CHR 0x0D then butlast l else l)"

definition put_failure :: "nat \<Rightarrow> string \<Rightarrow> failure" where
  "put_failure status body =
     (if status = 403 then Expired
      else if status = 404 then NoSuchUpload
      else if status = 408 \<or> status = 429 then Retry (''PUT: HTTP '' @ show_nat status)
      else if status \<ge> 500 then Retry (''PUT: HTTP '' @ show_nat status)
      else Refused (''PUT: HTTP '' @ show_nat status @ '': '' @ first_line body))"

text \<open>
  \<open>HttpStorage::put\<close>: \<open>client\<close> says there is an HTTP client, \<open>file\<close> is the error of opening or
  seeking the file (the path and the error as text), \<open>sent\<close> the result of the request.
\<close>

datatype sent = Send_error string | Answer nat "string option" string

definition http_put ::
  "bool \<Rightarrow> string option \<Rightarrow> bool \<Rightarrow> nat option \<Rightarrow> sent \<Rightarrow> failure + string" where
  "http_put client file stop rate sent =
     (if \<not> client then Inl (Retry ''no HTTP client'')
      else case file of Some e \<Rightarrow> Inl (Refused e)
      | None \<Rightarrow>
          (case sent of
             Send_error e \<Rightarrow>
               if stop then Inl Stopped
               else if rate = Some 0 then Inl Paused
               else Inl (Retry (''PUT: '' @ e))
           | Answer status etag body \<Rightarrow>
               if 200 \<le> status \<and> status < 300
               then Inr (case etag of Some t \<Rightarrow> t | None \<Rightarrow> '''')
               else Inl (put_failure status body)))"

end
