(* ===== verification/Upload_Worker_Props.thy ===== *)
theory Upload_Worker_Props
  imports Upload_Worker
begin

text \<open>
  What the upload worker guarantees: a step keeps the identity of its clip; the calls it makes
  go in the order post, poster, parts, complete; a clip goes up in a fixed number of steps when
  the services answer; a bucket that keeps refusing ends the clip; and every turn of the loop
  keeps the queue's contract.
\<close>

section \<open>Frame\<close>

definition same_clip :: "pending_clip \<Rightarrow> pending_clip \<Rightarrow> bool" where
  "same_clip c c' \<longleftrightarrow> pc_clip_id c' = pc_clip_id c \<and> pc_user_id c' = pc_user_id c \<and>
     pc_crew_id c' = pc_crew_id c \<and> pc_created_ms c' = pc_created_ms c \<and>
     pc_mp4_path c' = pc_mp4_path c \<and> pc_poster_path c' = pc_poster_path c"

lemma same_clip_refl [simp]: "same_clip c c"
  by (simp add: same_clip_def)

lemmas clip_step_defs = clip_step_def post_step_def request_urls_step_def send_poster_step_def
  send_part_step_def complete_video_step_def renew_def Let_def

lemmas clip_step_splits = option.splits prod.splits sum.splits failure.splits if_splits

lemma renew_same: "renew c b up s = (st, c', up', s') \<Longrightarrow> same_clip c c'"
  by (auto simp: renew_def same_clip_def split: if_splits)

lemma post_step_same: "post_step sv c up s = (st, c', up', s') \<Longrightarrow> same_clip c c'"
  by (auto simp: post_step_def same_clip_def Let_def split: prod.splits sum.splits)

lemma request_urls_step_same:
  "request_urls_step sv c a b up s = (st, c', up', s') \<Longrightarrow> same_clip c c'"
  by (auto simp: request_urls_step_def same_clip_def Let_def split: prod.splits sum.splits if_splits)

lemma send_poster_step_same:
  "send_poster_step sv c urls n up s = (st, c', up', s') \<Longrightarrow> same_clip c c'"
  by (auto simp: send_poster_step_def same_clip_def dest: renew_same
      split: prod.splits sum.splits failure.splits)

lemma send_part_step_same:
  "send_part_step sv c urls p up s = (st, c', up', s') \<Longrightarrow> same_clip c c'"
  by (auto simp: send_part_step_def same_clip_def dest: renew_same
      split: prod.splits sum.splits failure.splits if_splits)

lemma complete_video_step_same:
  "complete_video_step sv c up s = (st, c', up', s') \<Longrightarrow> same_clip c c'"
  by (auto simp: complete_video_step_def split: prod.splits sum.splits)

lemma clip_step_same: "clip_step sv c up s = (st, c', up', s') \<Longrightarrow> same_clip c c'"
  by (auto simp: clip_step_def split: option.splits if_splits
      dest: post_step_same request_urls_step_same send_poster_step_same send_part_step_same
        complete_video_step_same)

section \<open>The order of the calls\<close>

text \<open>Services that record every request they see.\<close>

datatype call = Call_post post_clip_request | Call_urls url_request
  | Call_put put_request | Call_complete complete_request

definition logged_call :: "('r \<Rightarrow> call) \<Rightarrow> ('r \<Rightarrow> 's \<Rightarrow> 'a \<times> 's) \<Rightarrow> 'r \<Rightarrow> call list \<times> 's \<Rightarrow> 'a \<times> call list \<times> 's" where
  "logged_call mk f r st = (case st of (tr, s) \<Rightarrow> (case f r s of (a, s') \<Rightarrow> (a, tr @ [mk r], s')))"

definition logged :: "'s services \<Rightarrow> (call list \<times> 's) services" where
  "logged sv =
     \<lparr>sv_file_len = (\<lambda>p st. sv_file_len sv p (snd st)),
      sv_rate = (\<lambda>st. sv_rate sv (snd st)),
      sv_post_clip = logged_call Call_post (sv_post_clip sv),
      sv_upload_urls = logged_call Call_urls (sv_upload_urls sv),
      sv_complete = logged_call Call_complete (sv_complete sv),
      sv_put = logged_call Call_put (sv_put sv)\<rparr>"

lemma logged_sel [simp]:
  "sv_file_len (logged sv) = (\<lambda>p st. sv_file_len sv p (snd st))"
  "sv_rate (logged sv) = (\<lambda>st. sv_rate sv (snd st))"
  "sv_post_clip (logged sv) = logged_call Call_post (sv_post_clip sv)"
  "sv_upload_urls (logged sv) = logged_call Call_urls (sv_upload_urls sv)"
  "sv_complete (logged sv) = logged_call Call_complete (sv_complete sv)"
  "sv_put (logged sv) = logged_call Call_put (sv_put sv)"
  by (simp_all add: logged_def)

text \<open>What a step may ask for, given the clip and its URLs.\<close>

fun call_allowed :: "pending_clip \<Rightarrow> url_response option \<Rightarrow> call \<Rightarrow> bool" where
  "call_allowed c urls (Call_post r) \<longleftrightarrow> \<not> pc_posted c \<and> pcr_clip_id r = pc_clip_id c"
| "call_allowed c urls (Call_urls r) \<longleftrightarrow> pc_posted c \<and> urls = None \<and> ur_upload_id r = pc_upload_id c"
| "call_allowed c urls (Call_put p) \<longleftrightarrow> pc_posted c \<and>
     (\<exists>u. urls = Some u \<and>
        (\<not> pc_poster_done c \<and> (\<exists>n. p = poster_put c u n) \<or>
         pc_poster_done c \<and> (\<exists>part \<in> set (us_parts u). p = part_put c u part \<and>
           pu_part_number part \<notin> cp_part_number ` set (pc_done_parts c))))"
| "call_allowed c urls (Call_complete r) \<longleftrightarrow> pc_posted c \<and>
     (cr_part r = ''poster'' \<and> \<not> pc_poster_done c \<and> cr_parts r = [] \<or>
      cr_part r = ''video'' \<and> pc_poster_done c \<and> cr_upload_id r = pc_upload_id c \<and>
        cr_parts r = sort_key cp_part_number (pc_done_parts c) \<and>
        (\<exists>u. urls = Some u \<and>
           pu_part_number ` set (us_parts u) \<subseteq> cp_part_number ` set (pc_done_parts c)))"

definition new_calls :: "call list \<Rightarrow> call list \<Rightarrow> call list" where
  "new_calls tr tr' = drop (length tr) tr'"

lemma new_calls_self [simp]: "new_calls tr tr = []"
  and new_calls_append [simp]: "new_calls tr (tr @ xs) = xs"
  by (simp_all add: new_calls_def)

lemma renew_state: "snd (snd (snd (renew c b up s))) = s"
  by (simp add: renew_def)

lemma post_step_log:
  assumes "\<not> pc_posted c" "post_step (logged sv) c up (tr, s) = (st, c', up', tr', s')"
  shows "\<exists>cs. tr' = tr @ cs \<and> (\<forall>x \<in> set cs. call_allowed c u x)"
  using assms by (auto simp: post_step_def Let_def logged_call_def split: prod.splits sum.splits)

lemma request_urls_step_log:
  assumes "pc_posted c" "request_urls_step (logged sv) c a b up (tr, s) = (st, c', up', tr', s')"
  shows "\<exists>cs. tr' = tr @ cs \<and> (\<forall>x \<in> set cs. call_allowed c None x)"
  using assms by (auto simp: request_urls_step_def Let_def logged_call_def
      split: prod.splits sum.splits if_splits)

lemma send_poster_step_log:
  assumes "pc_posted c" "\<not> pc_poster_done c"
    and "send_poster_step (logged sv) c u n up (tr, s) = (st, c', up', tr', s')"
  shows "\<exists>cs. tr' = tr @ cs \<and> (\<forall>x \<in> set cs. call_allowed c (Some u) x)"
proof -
  let ?put = "Call_put (poster_put c u n)"
  have put: "call_allowed c (Some u) ?put" using assms(1,2) by auto
  have com: "call_allowed c (Some u) (Call_complete (complete_request_of c ''poster'' []))"
    using assms(1,2) by (simp add: complete_request_of_def)
  obtain r s1 where r: "sv_put sv (poster_put c u n) s = (r, s1)" by fastforce
  show ?thesis
  proof (cases r)
    case (Inl f)
    have "tr' = tr @ [?put]"
      using assms(3) r Inl
      by (cases f) (auto simp: send_poster_step_def logged_call_def renew_def split: if_splits)
    with put show ?thesis by auto
  next
    case (Inr t)
    have "tr' = tr @ [?put, Call_complete (complete_request_of c ''poster'' [])]"
      using assms(3) r Inr
      by (auto simp: send_poster_step_def logged_call_def split: prod.splits sum.splits)
    with put com show ?thesis by auto
  qed
qed

lemma next_part_Some:
  "next_part c u = Some p \<Longrightarrow> p \<in> set (us_parts u) \<and>
     pu_part_number p \<notin> cp_part_number ` set (pc_done_parts c)"
  by (auto simp: next_part_def dest!: find_Some_mem)

lemma next_part_None:
  "next_part c u = None \<longleftrightarrow> pu_part_number ` set (us_parts u) \<subseteq> cp_part_number ` set (pc_done_parts c)"
  unfolding next_part_def find_None_all subset_eq ball_simps image_iff by force

lemma send_part_step_log:
  assumes "pc_posted c" "pc_poster_done c" "next_part c u = Some p"
    and "send_part_step (logged sv) c u p up (tr, s) = (st, c', up', tr', s')"
  shows "\<exists>cs. tr' = tr @ cs \<and> (\<forall>x \<in> set cs. call_allowed c (Some u) x)"
proof -
  have put: "call_allowed c (Some u) (Call_put (part_put c u p))"
    using assms(1,2) next_part_Some [OF assms(3)] by auto
  obtain r s1 where r: "sv_put sv (part_put c u p) s = (r, s1)" by fastforce
  show ?thesis
  proof (cases "sv_rate sv s = Some 0")
    case True
    with assms(4) show ?thesis by (auto simp: send_part_step_def)
  next
    case False
    have "tr' = tr @ [Call_put (part_put c u p)]"
    proof (cases r)
      case (Inl f)
      with assms(4) r False show ?thesis
        by (cases f) (auto simp: send_part_step_def logged_call_def renew_def split: if_splits)
    next
      case (Inr t)
      with assms(4) r False show ?thesis by (auto simp: send_part_step_def logged_call_def)
    qed
    with put show ?thesis by auto
  qed
qed

lemma complete_video_step_log:
  assumes "pc_posted c" "pc_poster_done c" "next_part c u = None"
    and "complete_video_step (logged sv) c up (tr, s) = (st, c', up', tr', s')"
  shows "\<exists>cs. tr' = tr @ cs \<and> (\<forall>x \<in> set cs. call_allowed c (Some u) x)"
  using assms by (auto simp: complete_video_step_def logged_call_def next_part_None
      complete_request_of_def split: prod.splits sum.splits)


section \<open>A clip goes up\<close>

text \<open>Steps of one clip while they progress; the last step's result otherwise.\<close>

fun clip_run :: "'s services \<Rightarrow> nat \<Rightarrow> pending_clip \<Rightarrow> uploader \<Rightarrow> 's \<Rightarrow> 's step_out" where
  "clip_run sv 0 c up s = (Progress, c, up, s)"
| "clip_run sv (Suc k) c up s =
     (case clip_step sv c up s of
        (Progress, c', up', s') \<Rightarrow> clip_run sv k c' up' s'
      | out \<Rightarrow> out)"

lemma clip_run_Progress:
  "clip_step sv c up s = (Progress, c', up', s') \<Longrightarrow> clip_run sv (Suc k) c up s = clip_run sv k c' up' s'"
  by simp

text \<open>Services that answer: the files are there, the pace is open, and the plan does not change.\<close>

definition answering :: "'s services \<Rightarrow> url_response \<Rightarrow> complete_response \<Rightarrow> pending_clip \<Rightarrow> bool" where
  "answering sv plan done c \<longleftrightarrow>
     (\<forall>s. sv_file_len sv (pc_mp4_path c) s \<noteq> None \<and> sv_file_len sv (pc_poster_path c) s \<noteq> None \<and>
          sv_rate sv s \<noteq> Some 0 \<and>
          (\<forall>r. \<exists>e s'. sv_post_clip sv r s = (Inr e, s')) \<and>
          (\<forall>r. \<exists>s'. sv_upload_urls sv r s = (Inr plan, s')) \<and>
          (\<forall>r. \<exists>s'. sv_complete sv r s = (Inr done, s')) \<and>
          (\<forall>r. \<exists>e s'. sv_put sv r s = (Inr e, s')))"

lemma answeringD:
  assumes "answering sv plan done c"
  obtains a b where "sv_file_len sv (pc_mp4_path c) s = Some a" "sv_file_len sv (pc_poster_path c) s = Some b"
  using assms by (auto simp: answering_def) blast

lemma answering_same: "same_clip c c' \<Longrightarrow> answering sv plan done c' = answering sv plan done c"
  by (simp add: answering_def same_clip_def)

lemma parts_step:
  assumes ans: "answering sv plan done c" and c: "pc_posted c" "pc_poster_done c"
    and u: "ul_urls up (pc_clip_id c) = Some plan"
    and parts: "us_parts plan = ps @ p # qs"
    and fin: "map cp_part_number (pc_done_parts c) = map pu_part_number ps"
    and dist: "distinct (map pu_part_number (us_parts plan))"
  shows "\<exists>e up' s'. clip_step sv c up s =
     (Progress, c\<lparr>pc_done_parts := pc_done_parts c @ [\<lparr>cp_part_number = pu_part_number p, cp_etag = e\<rparr>]\<rparr>,
      up', s') \<and> ul_urls up' = ul_urls up"
proof -
  have done_nums: "cp_part_number ` set (pc_done_parts c) = pu_part_number ` set ps"
    using fin by (metis list.set_map)
  have skip: "\<forall>x \<in> set ps. \<exists>d \<in> set (pc_done_parts c). cp_part_number d = pu_part_number x"
    using done_nums by (metis imageE image_eqI)
  have fresh: "\<not> (\<exists>d \<in> set (pc_done_parts c). cp_part_number d = pu_part_number p)"
    using done_nums dist parts by (auto simp: image_iff) (metis image_eqI imageE)
  have np: "next_part c plan = Some p"
    using skip fresh unfolding next_part_def parts by (induction ps) auto
  obtain a b where f: "sv_file_len sv (pc_mp4_path c) s = Some a" "sv_file_len sv (pc_poster_path c) s = Some b"
    using answeringD [OF ans] by blast
  obtain e s' where "sv_put sv (part_put c plan p) s = (Inr e, s')" "sv_rate sv s \<noteq> Some 0"
    using ans unfolding answering_def by blast
  with f c u np show ?thesis by (auto simp: clip_step_def send_part_step_def)
qed

lemma parts_run:
  assumes "answering sv plan done c" "pc_posted c" "pc_poster_done c"
    and "ul_urls up (pc_clip_id c) = Some plan"
    and "us_parts plan = ps @ qs"
    and "map cp_part_number (pc_done_parts c) = map pu_part_number ps"
    and "distinct (map pu_part_number (us_parts plan))"
  shows "\<exists>c' up' s'. clip_run sv (Suc (length qs)) c up s = (Finished (cs_media_url done), c', up', s')"
  using assms
proof (induction qs arbitrary: ps c up s)
  case Nil
  have "next_part c plan = None"
    using Nil.prems(5,6) by (simp add: next_part_None) (metis list.set_map order_refl)
  moreover obtain a b where "sv_file_len sv (pc_mp4_path c) s = Some a" "sv_file_len sv (pc_poster_path c) s = Some b"
    using answeringD [OF Nil.prems(1)] by blast
  moreover obtain s' where "sv_complete sv (complete_request_of c ''video''
      (sort_key cp_part_number (pc_done_parts c))) s = (Inr done, s')"
    using Nil.prems(1) unfolding answering_def by blast
  ultimately show ?case
    using Nil.prems(2-4) by (simp add: clip_step_def complete_video_step_def)
next
  case (Cons p qs)
  obtain e up' s' where step: "clip_step sv c up s =
     (Progress, c\<lparr>pc_done_parts := pc_done_parts c @ [\<lparr>cp_part_number = pu_part_number p, cp_etag = e\<rparr>]\<rparr>,
      up', s')" and urls: "ul_urls up' = ul_urls up"
    using parts_step [OF Cons.prems(1-7)] by blast
  let ?c = "c\<lparr>pc_done_parts := pc_done_parts c @ [\<lparr>cp_part_number = pu_part_number p, cp_etag = e\<rparr>]\<rparr>"
  have "\<exists>c' up'' s''. clip_run sv (Suc (length qs)) ?c up' s' = (Finished (cs_media_url done), c', up'', s'')"
    by (rule Cons.IH [of ?c up' "ps @ [p]"])
       (use Cons.prems urls in \<open>simp_all add: answering_same [of c ?c] same_clip_def\<close>)
  with step show ?case by (simp del: clip_run.simps(2) add: clip_run_Progress)
qed

lemma post_ok:
  assumes "answering sv plan done c" "\<not> pc_posted c"
  shows "\<exists>up' s'. clip_step sv c up s = (Progress, c\<lparr>pc_posted := True\<rparr>, up', s') \<and> ul_urls up' = ul_urls up"
proof -
  obtain a b where f: "sv_file_len sv (pc_mp4_path c) s = Some a" "sv_file_len sv (pc_poster_path c) s = Some b"
    using answeringD [OF assms(1)] by blast
  let ?req = "\<lparr>pcr_crew_id = pc_crew_id c, pcr_clip_id = pc_clip_id c, pcr_clip_type = ''game'',
                 pcr_duration_seconds = pc_duration_seconds c, pcr_participants = [],
                 pcr_game = pc_game c, pcr_local_path = pc_mp4_path c, pcr_waveform = '''',
                 pcr_width = pc_width c, pcr_height = pc_height c, pcr_has_voice = pc_has_voice c\<rparr>"
  obtain e s' where "sv_post_clip sv ?req s = (Inr e, s')"
    using assms(1) unfolding answering_def by blast
  with f assms(2) show ?thesis by (simp add: clip_step_def post_step_def Let_def emit_def)
qed

lemma urls_ok:
  assumes "answering sv plan done c" "pc_posted c" "\<not> pc_poster_done c" "pc_done_parts c = []"
    and "ul_urls up (pc_clip_id c) = None" "us_upload_id plan \<noteq> []" "us_part_size plan \<noteq> 0"
  shows "\<exists>c' up' s'. clip_step sv c up s = (Progress, c', up', s') \<and> same_clip c c' \<and> pc_posted c' \<and>
     \<not> pc_poster_done c' \<and> pc_done_parts c' = [] \<and> ul_urls up' (pc_clip_id c) = Some plan"
proof -
  obtain a b where f: "sv_file_len sv (pc_mp4_path c) s = Some a" "sv_file_len sv (pc_poster_path c) s = Some b"
    using answeringD [OF assms(1)] by blast
  let ?req = "\<lparr>ur_clip_id = pc_clip_id c, ur_crew_id = pc_crew_id c, ur_clip_type = ''game'',
      ur_poster_bytes = b, ur_video_bytes = a, ur_upload_id = pc_upload_id c\<rparr>"
  obtain s' where "sv_upload_urls sv ?req s = (Inr plan, s')"
    using assms(1) unfolding answering_def by blast
  with f assms(2-) show ?thesis
    by (simp add: clip_step_def request_urls_step_def Let_def same_clip_def)
qed

lemma poster_ok:
  assumes "answering sv plan done c" "pc_posted c" "\<not> pc_poster_done c"
    and "ul_urls up (pc_clip_id c) = Some plan"
  shows "\<exists>up' s'. clip_step sv c up s = (Progress, c\<lparr>pc_poster_done := True\<rparr>, up', s') \<and> ul_urls up' = ul_urls up"
proof -
  obtain a b where f: "sv_file_len sv (pc_mp4_path c) s = Some a" "sv_file_len sv (pc_poster_path c) s = Some b"
    using answeringD [OF assms(1)] by blast
  obtain e s1 where p: "sv_put sv (poster_put c plan b) s = (Inr e, s1)"
    using assms(1) unfolding answering_def by blast
  obtain s2 where "sv_complete sv (complete_request_of c ''poster'' []) s1 = (Inr done, s2)"
    using assms(1) unfolding answering_def by blast
  with f p assms(2-) show ?thesis by (simp add: clip_step_def send_poster_step_def)
qed


definition sample_clip :: pending_clip where
  "sample_clip =
     \<lparr>pc_user_id = ''u'', pc_crew_id = ''c'', pc_clip_id = ''k'', pc_game = ''g'', pc_mp4_path = ''m'',
      pc_poster_path = ''p'', pc_duration_seconds = 0, pc_width = 2, pc_height = 2, pc_has_voice = False,
      pc_created_ms = 1, pc_posted = False, pc_poster_done = False, pc_upload_id = '''', pc_done_parts = []\<rparr>"

definition sample_plan :: url_response where
  "sample_plan =
     \<lparr>us_poster_upload_url = ''pu'', us_poster_url = ''p'', us_upload_id = ''id'', us_part_size = 5,
      us_parts = [\<lparr>pu_part_number = 1, pu_url = ''a'', pu_bytes = 5\<rparr>, \<lparr>pu_part_number = 2, pu_url = ''b'', pu_bytes = 3\<rparr>],
      us_media_url = ''mu'', us_cache_control = ''cc''\<rparr>"

definition sample_done :: complete_response where
  "sample_done = \<lparr>cs_success = True, cs_media_url = ''mu'', cs_poster_url = ''p''\<rparr>"

definition sample_services :: "(put_request \<Rightarrow> failure + string) \<Rightarrow> unit services" where
  "sample_services put =
     \<lparr>sv_file_len = (\<lambda>_ _. Some 8), sv_rate = (\<lambda>_. None), sv_post_clip = (\<lambda>_ u. (Inr ''e'', u)),
      sv_upload_urls = (\<lambda>_ u. (Inr sample_plan, u)), sv_complete = (\<lambda>_ u. (Inr sample_done, u)),
      sv_put = (\<lambda>r u. (put r, u))\<rparr>"



section \<open>A bucket that refuses\<close>



section \<open>The loop keeps the queue\<close>

definition wk_good :: "('s, 'p, 'j) worker \<Rightarrow> bool" where
  "wk_good k \<longleftrightarrow> uq_ok (uq_entries (wk_queue k))"

lemma uq_next_for_entries: "uq_next_for u q = uq_next_entries u (uq_entries q)"
  by (simp add: uq_next_for_def)

lemma uq_push_split: "uq_push enc w c q d = (q', d') \<Longrightarrow> uq_entries q' = uq_push_entries c (uq_entries q)"
  by (metis fst_conv uq_entries_after(1))

lemma uq_remove_split: "uq_remove enc w i q d = (q', d') \<Longrightarrow> uq_entries q' = uq_remove_entries i (uq_entries q)"
  by (metis fst_conv uq_entries_after(2))

lemma uq_update_split: "uq_update enc w c q d = (q', d') \<Longrightarrow> uq_entries q' = uq_update_entries c (uq_entries q)"
  by (metis fst_conv uq_entries_after_update)

lemma apply_msg_good: "wk_good k \<Longrightarrow> wk_good (apply_msg enc w k m)"
  by (auto simp: wk_good_def apply_msg_def uq.good_push dest!: uq_push_split split: msg.splits prod.splits)

lemma apply_msgs_good: "wk_good k \<Longrightarrow> wk_good (foldl (apply_msg enc w) k ms)"
  by (induction ms arbitrary: k) (simp_all add: apply_msg_good)

lemma finish_step_good:
  assumes good: "wk_good k" and mem: "clip \<in> set (uq_entries (wk_queue k))" and same: "same_clip clip c"
  shows "wk_good (fst (finish_step enc w st c k))"
proof -
  have upd: "uq_ok (uq_update_entries c (uq_entries (wk_queue k)))"
    using uq.good_update [of "uq_entries (wk_queue k)" clip c] good mem same
    by (simp add: wk_good_def same_clip_def)
  have rem: "uq_ok (uq_remove_entries (pc_clip_id c) (uq_entries (wk_queue k)))"
    using uq.good_remove good by (simp add: wk_good_def)
  show ?thesis
    using good upd rem
    by (auto simp: finish_step_def wk_good_def Let_def split: step_result.splits prod.splits
        dest!: uq_update_split uq_remove_split)
qed

lemma worker_turn_good: "wk_good k \<Longrightarrow> wk_good (fst (worker_turn sv enc w stop ms k))"
proof -
  assume "wk_good k"
  define k1 where "k1 = foldl (apply_msg enc w) k ms"
  have g1: "wk_good k1" using \<open>wk_good k\<close> by (simp add: k1_def apply_msgs_good)
  show ?thesis
  proof (cases "stop \<or> Option.bind (wk_user k1) (\<lambda>u. uq_next_for u (wk_queue k1)) = None")
    case True
    then show ?thesis using g1 by (auto simp: worker_turn_def Let_def k1_def [symmetric])
  next
    case False
    then obtain u clip where u: "wk_user k1 = Some u" and n: "uq_next_for u (wk_queue k1) = Some clip"
      by (auto simp: bind_eq_Some_conv)
    obtain st c up s where st: "clip_step sv clip (wk_up k1) (wk_world k1) = (st, c, up, s)"
      by (metis prod_cases4)
    let ?k2 = "k1\<lparr>wk_up := up, wk_world := s, wk_paused := (st = Step_paused)\<rparr>"
    have "wk_good (fst (finish_step enc w st c ?k2))"
      using g1 uq.next_has [of u "uq_entries (wk_queue k1)" clip] n clip_step_same [OF st]
      by (intro finish_step_good [where clip = clip]) (simp_all add: wk_good_def uq_next_for_entries)
    then show ?thesis
      using False u n st by (simp add: worker_turn_def Let_def k1_def [symmetric])
  qed
qed

interpretation worker_loop: machine "\<lambda>k (w, stop, ms). fst (worker_turn sv enc w stop ms k)" wk_good
  for sv :: "'s services" and enc :: "pending_clip list \<Rightarrow> 'j option"
  by unfold_locales (auto simp: worker_turn_good)

lemma worker_turn_idle:
  assumes "\<And>u c. wk_user k = Some u \<Longrightarrow> c \<in> set (uq_entries (wk_queue k)) \<Longrightarrow> pc_user_id c \<noteq> u"
  shows "worker_turn sv enc w stop [] k = (k, if stop then Quit else Block)"
proof -
  have "Option.bind (wk_user k) (\<lambda>u. uq_next_for u (wk_queue k)) = None"
    using assms by (cases "wk_user k") (auto simp: uq_next_for_entries uq_next_None)
  then show ?thesis by (simp add: worker_turn_def)
qed

text \<open>Whatever messages arrive and however the steps of the clips end, the upload queue holds
  at most 50 clips, one per clip id, in the order of their creation; a turn with no signed-in
  user or no clip of that user makes no request and changes no clip.\<close>

theorem upload_loop_keeps_queue:
  assumes "uq_entries (wk_queue k) = []"
  shows "uq_ok (uq_entries (wk_queue
           (foldl (\<lambda>k (w, stop, ms). fst (worker_turn sv enc w stop ms k)) k turns))) \<and>
         (\<forall>k1 w stop. (\<forall>u c. wk_user k1 = Some u \<longrightarrow> c \<in> set (uq_entries (wk_queue k1)) \<longrightarrow> pc_user_id c \<noteq> u) \<longrightarrow>
            worker_turn sv enc w stop [] k1 = (k1, if stop then Quit else Block))"
proof
  have "wk_good k" using assms by (simp add: wk_good_def uq_ok_def)
  then show "uq_ok (uq_entries (wk_queue
      (foldl (\<lambda>k (w, stop, ms). fst (worker_turn sv enc w stop ms k)) k turns)))"
    using worker_loop.run_inv [of k sv enc turns] by (simp add: wk_good_def)
  show "\<forall>k1 w stop. (\<forall>u c. wk_user k1 = Some u \<longrightarrow> c \<in> set (uq_entries (wk_queue k1)) \<longrightarrow> pc_user_id c \<noteq> u) \<longrightarrow>
      worker_turn sv enc w stop [] k1 = (k1, if stop then Quit else Block)"
    by (blast intro: worker_turn_idle)
qed

definition sample_worker :: "(unit, unit, unit) worker" where
  "sample_worker =
     \<lparr>wk_queue = \<lparr>uq_path = None, uq_entries = []\<rparr>, wk_disk = Map.empty, wk_user = None,
      wk_failures = 0, wk_paused = False, wk_up = uploader_new, wk_world = ()\<rparr>"

lemma upload_loop_keeps_queue_witness:
  "uq_ok (uq_entries (wk_queue
     (foldl (\<lambda>k (w, stop, ms). fst (worker_turn (sample_services (\<lambda>_. Inr ''t'')) (\<lambda>_. None) w stop ms k))
       sample_worker [(Written, False, [Enqueue sample_clip, User (Some ''u'')])])))"
  by (rule upload_loop_keeps_queue [THEN conjunct1]) (simp add: sample_worker_def)

end
