(* ===== verification/Range_Reader.thy ===== *)
theory Range_Reader
  imports Machine
begin

text \<open>
  The bytes of a remote clip (\<open>clip_play/range_reader.rs\<close>): the coverage map of 1 MiB ranges,
  the read of the player, and the fetch thread. The thread and the reads share the coverage
  under one lock and the cache file under another, so they interleave between the two; the
  step relation at the end has one step per critical section.
\<close>

section \<open>Coverage\<close>

definition chunk_bytes :: nat where "chunk_bytes = 1024 * 1024"
definition ahead_chunks :: nat where "ahead_chunks = 4"
definition range_retries :: nat where "range_retries = 3"

lemma chunk_bytes_pos [simp]: "0 < chunk_bytes"
  by (simp add: chunk_bytes_def)

abbreviation chunks_of :: "nat \<Rightarrow> nat" where
  "chunks_of len \<equiv> div_ceil len chunk_bytes"

record coverage =
  cov_have :: "bool list"
  cov_wanted :: "nat option"
  cov_head :: nat

definition coverage_new :: "nat \<Rightarrow> coverage" where
  "coverage_new len = \<lparr>cov_have = replicate (chunks_of len) False, cov_wanted = None, cov_head = 0\<rparr>"

definition cov_mark :: "nat \<Rightarrow> coverage \<Rightarrow> coverage" where
  "cov_mark c cov =
     (let cov1 = (if c < length (cov_have cov) then cov\<lparr>cov_have := (cov_have cov)[c := True]\<rparr> else cov)
      in if cov_wanted cov1 = Some c then cov1\<lparr>cov_wanted := None\<rparr> else cov1)"

definition cov_has :: "coverage \<Rightarrow> nat \<Rightarrow> bool" where
  "cov_has cov c \<longleftrightarrow> c < length (cov_have cov) \<and> cov_have cov ! c"

text \<open>The loop of \<open>readable\<close> over the ranges that are there.\<close>

function readable_until :: "coverage \<Rightarrow> nat \<Rightarrow> nat \<Rightarrow> nat \<Rightarrow> nat" where
  "readable_until cov end_at c until =
     (if until < end_at \<and> cov_has cov c
      then readable_until cov end_at (c + 1) (min ((c + 1) * chunk_bytes) end_at)
      else until)"
  by pat_completeness auto
termination
  by (relation "measure (\<lambda>(cov, _, c, _). length (cov_have cov) - c)") (auto simp: cov_has_def)

declare readable_until.simps [simp del]

definition cov_readable :: "nat \<Rightarrow> nat \<Rightarrow> nat \<Rightarrow> coverage \<Rightarrow> nat \<times> coverage" where
  "cov_readable offset len whole cov =
     (let first = offset div chunk_bytes;
          cov1 = (if first > cov_head cov \<or> first + ahead_chunks < cov_head cov
                  then cov\<lparr>cov_head := first\<rparr> else cov)
      in if \<not> cov_has cov1 first then (0, cov1\<lparr>cov_wanted := Some first\<rparr>)
         else let end_at = min (wrap_u u64_max (offset + len)) whole
           in (readable_until cov1 end_at first offset - offset, cov1))"

definition wants_far_from :: "nat \<Rightarrow> coverage \<Rightarrow> bool" where
  "wants_far_from c cov =
     (case cov_wanted cov of None \<Rightarrow> False
      | Some w \<Rightarrow> abs_diff w c > ahead_chunks \<and> \<not> cov_has cov w)"

definition cov_next :: "coverage \<Rightarrow> nat option" where
  "cov_next cov =
     (case Option.bind (cov_wanted cov) (\<lambda>w. if cov_has cov w then None else Some w) of
        Some w \<Rightarrow> Some w
      | None \<Rightarrow>
          if cov_have cov = [] then None
          else let last = min (cov_head cov + ahead_chunks) (length (cov_have cov) - 1)
            in List.find (\<lambda>c. \<not> cov_has cov c) [cov_head cov..<Suc last])"

section \<open>The cache file and the opening request\<close>

type_synonym byte = "8 word"

datatype read_result = Read_bytes "byte list" | Read_wait | Read_error

text \<open>\<open>os\<close> is what the seek and the read of the file give: an error, or how many bytes.\<close>

definition read_file_at :: "nat option \<Rightarrow> byte list \<Rightarrow> nat \<Rightarrow> nat \<Rightarrow> nat \<Rightarrow> read_result" where
  "read_file_at os file offset len whole =
     (if offset \<ge> whole then Read_bytes []
      else let n = min len (whole - offset)
        in case os of None \<Rightarrow> Read_error | Some k \<Rightarrow> Read_bytes (slice file offset (min k n)))"

text \<open>\<open>content_range_total\<close>: the text after the last slash, trimmed, as a \<open>u64\<close>.\<close>

definition content_range_total :: "string \<Rightarrow> nat option" where
  "content_range_total v = parse_u u64_max (trim (rev (takeWhile (\<lambda>c. c \<noteq> CHR ''/'') (rev v))))"

text \<open>
  The fetch thread is at one of the points between its critical sections. \<open>Requesting\<close> to
  \<open>Missed\<close> carry the range, whether it is one ahead of the reads, and the attempt.
\<close>

datatype fetch_phase =
    Fetch_idle
  | Requesting nat bool nat
  | Receiving nat bool nat "byte list"
  | Missed nat bool nat
  | Writing nat "byte list"
  | Marking nat
  | Failing nat
  | Fetch_over

record range_reader =
  rr_length :: nat
  rr_file :: "byte list"
  rr_cov :: coverage
  rr_stop :: bool
  rr_failed :: bool
  rr_fetch :: fetch_phase
  rr_reads :: "(nat \<times> nat) list"

datatype open_error =
    No_client | Get_failed | No_range_length | No_content_length | Http_status nat
  | Body_failed | Cache_failed | No_thread

record first_response =
  fr_status :: nat
  fr_content_range :: "string option"
  fr_content_length :: "nat option"
  fr_body :: "byte list option"

definition first_marks :: "nat \<Rightarrow> nat \<Rightarrow> coverage" where
  "first_marks whole got =
     foldl (\<lambda>cov c. if (c + 1) * chunk_bytes \<le> got \<or> got \<ge> whole then cov_mark c cov else cov)
       (coverage_new whole) [0..<chunks_of whole]"

definition range_open ::
  "bool \<Rightarrow> first_response option \<Rightarrow> bool \<Rightarrow> bool \<Rightarrow> open_error + range_reader" where
  "range_open client resp cache_ok thread_ok =
     (if \<not> client then Inl No_client
      else case resp of None \<Rightarrow> Inl Get_failed
      | Some r \<Rightarrow>
          (case (if fr_status r = 206
                 then (case Option.bind (fr_content_range r) content_range_total of
                         None \<Rightarrow> Inl No_range_length | Some n \<Rightarrow> Inr n)
                 else if fr_status r = 200
                 then (case fr_content_length r of None \<Rightarrow> Inl No_content_length | Some n \<Rightarrow> Inr n)
                 else Inl (Http_status (fr_status r))) of
             Inl e \<Rightarrow> Inl e
           | Inr whole \<Rightarrow>
               (case fr_body r of None \<Rightarrow> Inl Body_failed
                | Some body \<Rightarrow>
                    if \<not> cache_ok then Inl Cache_failed
                    else if \<not> thread_ok then Inl No_thread
                    else Inr \<lparr>rr_length = whole, rr_file = put_at 0 body (replicate whole 0),
                      rr_cov = first_marks whole (length body), rr_stop = False,
                      rr_failed = False, rr_fetch = Fetch_idle, rr_reads = []\<rparr>)))"

section \<open>Steps\<close>

definition range_len :: "range_reader \<Rightarrow> nat \<Rightarrow> nat" where
  "range_len r c = min ((c + 1) * chunk_bytes) (rr_length r) - 1 - c * chunk_bytes + 1"

definition give_way :: "range_reader \<Rightarrow> bool \<Rightarrow> nat \<Rightarrow> bool" where
  "give_way r ahead c \<longleftrightarrow> rr_stop r \<or> (ahead \<and> wants_far_from c (rr_cov r))"

text \<open>The first critical section of \<open>read\<close>: \<open>Inl\<close> is the answer, \<open>Inr n\<close> goes on to the file.\<close>

definition read_check :: "nat \<Rightarrow> nat \<Rightarrow> range_reader \<Rightarrow> (read_result + nat) \<times> range_reader" where
  "read_check offset len r =
     (if offset \<ge> rr_length r then (Inl (Read_bytes []), r)
      else if rr_failed r then (Inl Read_error, r)
      else case cov_readable offset len (rr_length r) (rr_cov r) of
        (n, cov) \<Rightarrow> (if n = 0 then Inl Read_wait else Inr n, r\<lparr>rr_cov := cov\<rparr>))"

text \<open>
  The fetch thread: \<open>pick\<close> takes the next range under the lock; \<open>after_miss\<close> is the end of an
  attempt that gave no complete range; \<open>finish_body\<close> the end of the body.
\<close>

definition pick :: "range_reader \<Rightarrow> range_reader" where
  "pick r =
     (if rr_stop r \<or> rr_failed r then r\<lparr>rr_fetch := Fetch_over\<rparr>
      else case cov_next (rr_cov r) of
        Some c \<Rightarrow> r\<lparr>rr_fetch := Requesting c (cov_wanted (rr_cov r) \<noteq> Some c) 1\<rparr>
      | None \<Rightarrow> r)"

definition after_miss :: "nat \<Rightarrow> bool \<Rightarrow> nat \<Rightarrow> range_reader \<Rightarrow> range_reader" where
  "after_miss c ahead k r =
     r\<lparr>rr_fetch := (if rr_stop r then Fetch_over
                    else if k < range_retries then Requesting c ahead (k + 1) else Failing c)\<rparr>"

definition finish_body :: "nat \<Rightarrow> bool \<Rightarrow> nat \<Rightarrow> byte list \<Rightarrow> range_reader \<Rightarrow> range_reader" where
  "finish_body c ahead k bytes r =
     r\<lparr>rr_fetch := (if length bytes = range_len r c then Writing c bytes else Missed c ahead k)\<rparr>"

text \<open>
  One step of the reader. \<open>serve c bytes\<close> says that \<open>bytes\<close> can be the whole body the server
  sends for the range \<open>c\<close>; the label of a step is what a read returned, with its offset.
\<close>

inductive rr_step ::
  "(nat \<Rightarrow> byte list \<Rightarrow> bool) \<Rightarrow> range_reader \<Rightarrow> (nat \<times> read_result) option \<Rightarrow> range_reader \<Rightarrow> bool"
  for serve :: "nat \<Rightarrow> byte list \<Rightarrow> bool" where
  rr_pick: "rr_fetch r = Fetch_idle \<Longrightarrow> rr_step serve r None (pick r)"
| rr_answer: "rr_fetch r = Requesting c ahead k \<Longrightarrow>
    rr_step serve r None (r\<lparr>rr_fetch := (if (status :: nat) = 206 then Receiving c ahead k [] else Missed c ahead k)\<rparr>)"
| rr_no_answer: "rr_fetch r = Requesting c ahead k \<Longrightarrow> rr_step serve r None (r\<lparr>rr_fetch := Missed c ahead k\<rparr>)"
| rr_leave: "rr_fetch r = Receiving c ahead k bytes \<Longrightarrow> give_way r ahead c \<Longrightarrow>
    rr_step serve r None (r\<lparr>rr_fetch := Fetch_idle\<rparr>)"
| rr_piece: "rr_fetch r = Receiving c ahead k bytes \<Longrightarrow> \<not> give_way r ahead c \<Longrightarrow> p \<noteq> [] \<Longrightarrow>
    rr_step serve r None (r\<lparr>rr_fetch := Receiving c ahead k (bytes @ p)\<rparr>)"
| rr_broken: "rr_fetch r = Receiving c ahead k bytes \<Longrightarrow> \<not> give_way r ahead c \<Longrightarrow>
    rr_step serve r None (r\<lparr>rr_fetch := Missed c ahead k\<rparr>)"
| rr_body: "rr_fetch r = Receiving c ahead k bytes \<Longrightarrow> \<not> give_way r ahead c \<Longrightarrow> serve c bytes \<Longrightarrow>
    rr_step serve r None (finish_body c ahead k bytes r)"
| rr_miss: "rr_fetch r = Missed c ahead k \<Longrightarrow> rr_step serve r None (after_miss c ahead k r)"
| rr_written: "rr_fetch r = Writing c bytes \<Longrightarrow>
    rr_step serve r None (r\<lparr>rr_file := put_at (c * chunk_bytes) bytes (rr_file r), rr_fetch := Marking c\<rparr>)"
| rr_write_failed: "rr_fetch r = Writing c bytes \<Longrightarrow>
    rr_step serve r None (r\<lparr>rr_file := put_at (c * chunk_bytes) (take j bytes) (rr_file r), rr_fetch := Failing c\<rparr>)"
| rr_mark: "rr_fetch r = Marking c \<Longrightarrow>
    rr_step serve r None (r\<lparr>rr_cov := cov_mark c (rr_cov r), rr_fetch := Fetch_idle\<rparr>)"
| rr_fail: "rr_fetch r = Failing c \<Longrightarrow>
    rr_step serve r None (r\<lparr>rr_failed := True, rr_fetch := Fetch_idle\<rparr>)"
| rr_read_end: "read_check offset len r = (Inl res, r') \<Longrightarrow> rr_step serve r (Some (offset, res)) r'"
| rr_read_go: "read_check offset len r = (Inr n, r') \<Longrightarrow>
    rr_step serve r None (r'\<lparr>rr_reads := (offset, n) # rr_reads r'\<rparr>)"
| rr_read_file: "rr_reads r = xs @ (offset, n) # ys \<Longrightarrow>
    rr_step serve r (Some (offset, read_file_at os (rr_file r) offset n (rr_length r)))
      (r\<lparr>rr_reads := xs @ ys\<rparr>)"
| rr_drop: "rr_step serve r None (r\<lparr>rr_stop := True\<rparr>)"

inductive rr_run ::
  "(nat \<Rightarrow> byte list \<Rightarrow> bool) \<Rightarrow> range_reader \<Rightarrow> (nat \<times> read_result) list \<Rightarrow> range_reader \<Rightarrow> bool"
  for serve :: "nat \<Rightarrow> byte list \<Rightarrow> bool" where
  rr_run_refl: "rr_run serve r [] r"
| rr_run_step: "rr_run serve r outs r1 \<Longrightarrow> rr_step serve r1 out r2 \<Longrightarrow>
    rr_run serve r (outs @ (case out of None \<Rightarrow> [] | Some x \<Rightarrow> [x])) r2"


section \<open>The coverage\<close>

lemma cov_has_mark: "cov_has (cov_mark c cov) d \<longleftrightarrow> cov_has cov d \<or> (d = c \<and> c < length (cov_have cov))"
  by (auto simp: cov_mark_def cov_has_def Let_def nth_list_update)

lemma cov_mark_simps [simp]:
  "length (cov_have (cov_mark c cov)) = length (cov_have cov)"
  "cov_head (cov_mark c cov) = cov_head cov"
  "cov_wanted (cov_mark c cov) = (if cov_wanted cov = Some c then None else cov_wanted cov)"
  by (auto simp: cov_mark_def Let_def)

lemma chunk_div: "i div chunk_bytes = c \<longleftrightarrow> c * chunk_bytes \<le> i \<and> i < (c + 1) * chunk_bytes"
  by (metis add.commute chunk_bytes_pos div_less_iff_less_mult less_Suc_eq_le
      less_eq_div_iff_mult_less_eq order_antisym_conv plus_1_eq_Suc order_refl)

text \<open>What the loop gives: bytes that are all there, as far as they go.\<close>

lemma readable_until_covered:
  assumes "until \<le> end_at" "until < end_at \<longrightarrow> until div chunk_bytes = c"
  shows "until \<le> readable_until cov end_at c until \<and> readable_until cov end_at c until \<le> end_at \<and>
    (\<forall>i. until \<le> i \<longrightarrow> i < readable_until cov end_at c until \<longrightarrow> cov_has cov (i div chunk_bytes)) \<and>
    (until < end_at \<longrightarrow> cov_has cov c \<longrightarrow> until < readable_until cov end_at c until) \<and>
    (readable_until cov end_at c until < end_at \<longrightarrow>
       \<not> cov_has cov (readable_until cov end_at c until div chunk_bytes))"
  using assms
proof (induction cov end_at c until rule: readable_until.induct)
  case (1 cov end_at c until)
  show ?case
  proof (cases "until < end_at \<and> cov_has cov c")
    case False
    with "1.prems" show ?thesis by (auto simp: readable_until.simps [of cov end_at c until])
  next
    case True
    define next_at where "next_at = min ((c + 1) * chunk_bytes) end_at"
    have c: "c * chunk_bytes \<le> until" "until < (c + 1) * chunk_bytes"
      using True "1.prems"(2) chunk_div [of until c] by simp_all
    have step: "readable_until cov end_at c until = readable_until cov end_at (c + 1) next_at"
      using True by (simp add: readable_until.simps [of cov end_at c until] next_at_def)
    have "next_at \<le> end_at" "next_at < end_at \<longrightarrow> next_at div chunk_bytes = c + 1"
      by (auto simp: next_at_def min_def)
    note IH = "1.IH" [OF True, folded next_at_def, OF this]
    have here: "cov_has cov (i div chunk_bytes)" if "until \<le> i" "i < next_at" for i
    proof -
      have "i div chunk_bytes = c" using that c unfolding chunk_div next_at_def by simp
      with True show ?thesis by simp
    qed
    have "until < next_at" using c True by (simp add: next_at_def)
    moreover have "cov_has cov (i div chunk_bytes)"
      if "until \<le> i" "i < readable_until cov end_at (c + 1) next_at" for i
      using that IH here [of i] by (cases "i < next_at") simp_all
    ultimately show ?thesis using IH unfolding step by simp
  qed
qed

text \<open>\<open>readable\<close>: where it is not zero, the bytes are there.\<close>

lemma cov_readable_cases:
  assumes "cov_readable offset len whole cov = (n, cov')"
  shows "cov_have cov' = cov_have cov \<and>
    (if cov_has cov (offset div chunk_bytes)
     then cov_wanted cov' = cov_wanted cov \<and>
       n = readable_until cov' (min (wrap_u u64_max (offset + len)) whole) (offset div chunk_bytes) offset - offset
     else cov_wanted cov' = Some (offset div chunk_bytes) \<and> n = 0)"
proof -
  have h: "cov_has (cov\<lparr>cov_head := x\<rparr>) = cov_has cov" for x by (auto simp: cov_has_def fun_eq_iff)
  from assms show ?thesis by (auto simp: cov_readable_def Let_def h split: if_splits)
qed

lemma cov_has_cong: "cov_have cov' = cov_have cov \<Longrightarrow> cov_has cov' = cov_has cov"
  by (auto simp: cov_has_def fun_eq_iff)

lemma cov_readable_safe:
  assumes "cov_readable offset len whole cov = (n, cov')" "offset < whole"
  shows "offset + n \<le> whole \<and> (\<forall>i. offset \<le> i \<longrightarrow> i < offset + n \<longrightarrow> cov_has cov (i div chunk_bytes))"
proof -
  define end_at where "end_at = min (wrap_u u64_max (offset + len)) whole"
  note c = cov_readable_cases [OF assms(1), folded end_at_def]
  note u = readable_until_covered [of offset end_at "offset div chunk_bytes" cov']
  show ?thesis
  proof (cases "cov_has cov (offset div chunk_bytes) \<and> offset \<le> end_at")
    case True
    moreover have "end_at \<le> whole" by (simp add: end_at_def)
    ultimately show ?thesis using c u cov_has_cong [of cov' cov] by simp
  next
    case False
    then have "n = 0" using c by (auto simp: readable_until.simps [of cov' end_at] split: if_splits)
    with assms(2) show ?thesis by simp
  qed
qed

lemma cov_readable_go:
  assumes "cov_readable offset len whole cov = (n, cov')" "offset < whole" "offset + len \<le> u64_max" "0 < len"
  shows "n \<le> len \<and> (n = 0 \<longleftrightarrow> \<not> cov_has cov (offset div chunk_bytes))"
proof -
  have w: "wrap_u u64_max (offset + len) = offset + len" using assms(3) by simp
  note c = cov_readable_cases [OF assms(1), unfolded w]
  have "offset \<le> min (offset + len) whole" using assms(2) by simp
  note u = readable_until_covered [OF this, of "offset div chunk_bytes" cov']
  show ?thesis using c u assms(2,4) cov_has_cong [of cov' cov] by (auto split: if_splits)
qed

lemma cov_next_missing:
  assumes "cov_next cov = Some c" "\<And>w. cov_wanted cov = Some w \<Longrightarrow> w < length (cov_have cov)"
  shows "c < length (cov_have cov) \<and> \<not> cov_has cov c"
proof -
  have "c < length (cov_have cov)" "\<not> cov_has cov c"
    if "List.find (\<lambda>c. \<not> cov_has cov c)
      [cov_head cov..<Suc (min (cov_head cov + ahead_chunks) (length (cov_have cov) - 1))] = Some c"
      "cov_have cov \<noteq> []"
    using find_Some_mem [OF that(1)] that(2) by (cases "cov_have cov"; auto)+
  with assms show ?thesis
    by (auto simp: cov_next_def Let_def split: option.splits if_splits bind_splits)
qed

lemma cov_next_wanted: "cov_wanted cov = Some w \<Longrightarrow> \<not> cov_has cov w \<Longrightarrow> cov_next cov = Some w"
  by (simp add: cov_next_def)

section \<open>The invariant of the reader\<close>

text \<open>
  \<open>content\<close> is the clip on the server. Every range marked in the coverage is in the cache file as
  it is on the server, every read past its check is over such ranges, and the range that the
  fetch thread works on is not marked yet.
\<close>

definition phase_ok :: "byte list \<Rightarrow> range_reader \<Rightarrow> bool" where
  "phase_ok content r =
     (case rr_fetch r of
        Requesting c _ _ \<Rightarrow> c < chunks_of (length content) \<and> \<not> cov_has (rr_cov r) c
      | Receiving c _ _ _ \<Rightarrow> c < chunks_of (length content) \<and> \<not> cov_has (rr_cov r) c
      | Missed c _ _ \<Rightarrow> c < chunks_of (length content) \<and> \<not> cov_has (rr_cov r) c
      | Writing c bytes \<Rightarrow> c < chunks_of (length content) \<and> \<not> cov_has (rr_cov r) c \<and>
          bytes = slice content (c * chunk_bytes) chunk_bytes
      | Marking c \<Rightarrow> c < chunks_of (length content) \<and>
          (\<forall>i < length content. i div chunk_bytes = c \<longrightarrow> rr_file r ! i = content ! i)
      | _ \<Rightarrow> True)"

definition rr_ok :: "byte list \<Rightarrow> range_reader \<Rightarrow> bool" where
  "rr_ok content r \<longleftrightarrow>
     rr_length r = length content \<and> length (rr_file r) = length content \<and>
     length (cov_have (rr_cov r)) = chunks_of (length content) \<and>
     (\<forall>i < length content. cov_has (rr_cov r) (i div chunk_bytes) \<longrightarrow> rr_file r ! i = content ! i) \<and>
     (\<forall>w. cov_wanted (rr_cov r) = Some w \<longrightarrow> w < chunks_of (length content)) \<and>
     (\<forall>(a, n) \<in> set (rr_reads r). a + n \<le> length content \<and>
        (\<forall>i. a \<le> i \<longrightarrow> i < a + n \<longrightarrow> cov_has (rr_cov r) (i div chunk_bytes))) \<and>
     phase_ok content r"

lemma range_slice:
  assumes "rr_length r = length content" "c < chunks_of (length content)"
  shows "c * chunk_bytes < length content \<and>
    slice content (c * chunk_bytes) (range_len r c) = slice content (c * chunk_bytes) chunk_bytes"
proof -
  have lt: "c * chunk_bytes < length content"
  proof (rule ccontr)
    assume "\<not> c * chunk_bytes < length content"
    then have "length content div chunk_bytes \<le> c" by (metis chunk_bytes_pos div_le_mono div_mult_self_is_m not_less)
    moreover have "c < length content div chunk_bytes + (if length content mod chunk_bytes = 0 then 0 else 1)"
      using assms(2) by (simp add: div_ceil_def split: if_splits)
    ultimately have "c = length content div chunk_bytes" "length content mod chunk_bytes \<noteq> 0"
      by (simp_all split: if_splits)
    with \<open>\<not> c * chunk_bytes < length content\<close> div_mult_mod_eq [of "length content" chunk_bytes] show False by simp
  qed
  have "range_len r c = min chunk_bytes (length content - c * chunk_bytes)"
    using lt assms(1) by (auto simp: range_len_def min_def)
  with lt show ?thesis by (simp add: slice_def min_def)
qed


section \<open>Every step keeps the invariant\<close>

text \<open>What a server does that answers ranges: a body of the right length is the range.\<close>

definition serves_clip :: "byte list \<Rightarrow> (nat \<Rightarrow> byte list \<Rightarrow> bool) \<Rightarrow> bool" where
  "serves_clip content serve \<longleftrightarrow>
     (\<forall>c bytes. serve c bytes \<longrightarrow> length bytes = min chunk_bytes (length content - c * chunk_bytes) \<longrightarrow>
        bytes = slice content (c * chunk_bytes) chunk_bytes)"

lemma rr_ok_phase:
  "rr_ok content r \<Longrightarrow> phase_ok content (r\<lparr>rr_fetch := p\<rparr>) \<Longrightarrow> rr_ok content (r\<lparr>rr_fetch := p\<rparr>)"
  by (simp add: rr_ok_def)

lemma rr_ok_read_check:
  assumes ok: "rr_ok content r" and rc: "read_check offset len r = (res, r')"
  shows "rr_ok content r' \<and> rr_reads r' = rr_reads r \<and> rr_length r' = rr_length r \<and>
    (\<forall>n. res = Inr n \<longrightarrow> offset + n \<le> length content \<and>
       (\<forall>i. offset \<le> i \<longrightarrow> i < offset + n \<longrightarrow> cov_has (rr_cov r') (i div chunk_bytes)))"
proof (cases "offset \<ge> rr_length r \<or> rr_failed r")
  case True
  with assms show ?thesis by (auto simp: read_check_def split: if_splits)
next
  case False
  obtain n cov where c: "cov_readable offset len (rr_length r) (rr_cov r) = (n, cov)" by fastforce
  with False rc have r': "r' = r\<lparr>rr_cov := cov\<rparr>" "res = (if n = 0 then Inl Read_wait else Inr n)"
    by (auto simp: read_check_def)
  have len: "rr_length r = length content" using ok by (simp add: rr_ok_def)
  have have_eq: "cov_have cov = cov_have (rr_cov r)" using cov_readable_cases [OF c] by simp
  have has: "cov_has cov = cov_has (rr_cov r)" by (rule cov_has_cong [OF have_eq])
  have "offset div chunk_bytes < chunks_of (length content)"
    using False len by (intro div_ceil_gt) simp_all
  with cov_readable_cases [OF c] ok have w: "\<forall>w. cov_wanted cov = Some w \<longrightarrow> w < chunks_of (length content)"
    by (auto simp: rr_ok_def split: if_splits)
  have "phase_ok content (r\<lparr>rr_cov := cov\<rparr>)"
    using ok has by (auto simp: rr_ok_def phase_ok_def split: fetch_phase.splits)
  with ok w have "rr_ok content r'" by (simp add: r' rr_ok_def has have_eq)
  moreover have "offset + n \<le> length content"
    "\<forall>i. offset \<le> i \<longrightarrow> i < offset + n \<longrightarrow> cov_has cov (i div chunk_bytes)"
    using cov_readable_safe [OF c] False len has by simp_all
  ultimately show ?thesis by (auto simp: r')
qed

lemma rr_ok_write:
  assumes ok: "rr_ok content r" and w: "rr_fetch r = Writing c bytes"
  shows "rr_ok content (r\<lparr>rr_file := put_at (c * chunk_bytes) bytes (rr_file r), rr_fetch := Marking c\<rparr>)"
    and "rr_ok content (r\<lparr>rr_file := put_at (c * chunk_bytes) (take j bytes) (rr_file r), rr_fetch := Failing c\<rparr>)"
proof -
  have len: "rr_length r = length content" "length (rr_file r) = length content"
    and c: "c < chunks_of (length content)" "\<not> cov_has (rr_cov r) c"
    and b: "bytes = slice content (c * chunk_bytes) chunk_bytes"
    using ok w by (simp_all add: rr_ok_def phase_ok_def)
  have lt: "c * chunk_bytes < length content" using range_slice [OF len(1) c(1)] by simp
  have bl: "c * chunk_bytes + length bytes \<le> length (rr_file r)" "length bytes \<le> chunk_bytes"
    using b len lt by simp_all
  have keep: "put_at (c * chunk_bytes) (take k bytes) (rr_file r) ! i = content ! i"
    if i: "i < length content" "cov_has (rr_cov r) (i div chunk_bytes)" for i k
  proof -
    have "i div chunk_bytes \<noteq> c" using i(2) c(2) by auto
    then have "\<not> (c * chunk_bytes \<le> i \<and> i < c * chunk_bytes + chunk_bytes)"
      unfolding chunk_div by (simp add: add.commute)
    then have "put_at (c * chunk_bytes) (take k bytes) (rr_file r) ! i = rr_file r ! i"
      using i(1) len bl by (subst put_at_nth) auto
    with ok i show ?thesis by (simp add: rr_ok_def)
  qed
  have new: "put_at (c * chunk_bytes) bytes (rr_file r) ! i = content ! i"
    if "i < length content" "i div chunk_bytes = c" for i
    using that len bl b unfolding chunk_div by (subst put_at_nth) (auto simp: slice_nth)
  have lens: "length (put_at (c * chunk_bytes) (take k bytes) (rr_file r)) = length content" for k
    using bl len by (subst length_put_at) auto
  show "rr_ok content (r\<lparr>rr_file := put_at (c * chunk_bytes) (take j bytes) (rr_file r), rr_fetch := Failing c\<rparr>)"
    using ok keep [of _ j] lens [of j] by (simp add: rr_ok_def phase_ok_def)
  show "rr_ok content (r\<lparr>rr_file := put_at (c * chunk_bytes) bytes (rr_file r), rr_fetch := Marking c\<rparr>)"
    using ok c keep [of _ "length bytes"] lens [of "length bytes"] new by (simp add: rr_ok_def phase_ok_def)
qed

lemma rr_ok_mark:
  assumes ok: "rr_ok content r" and m: "rr_fetch r = Marking c"
  shows "rr_ok content (r\<lparr>rr_cov := cov_mark c (rr_cov r), rr_fetch := Fetch_idle\<rparr>)"
  using assms by (auto simp: rr_ok_def phase_ok_def cov_has_mark)

lemma rr_ok_pick: "rr_ok content r \<Longrightarrow> rr_ok content (pick r)"
  using cov_next_missing [of "rr_cov r"]
  by (fastforce simp: pick_def rr_ok_def phase_ok_def split: option.splits)

lemma read_file_at_content:
  assumes ok: "rr_ok content r" and "(offset, n) \<in> set (rr_reads r)"
    and "read_file_at os (rr_file r) offset n (rr_length r) = Read_bytes bs"
  shows "bs = slice content offset (length bs) \<and> length bs \<le> n"
proof (cases "offset < length content")
  case True
  from ok have len: "rr_length r = length content" "length (rr_file r) = length content"
    by (simp_all add: rr_ok_def)
  with assms(3) True obtain x where
    "bs = slice (rr_file r) offset (min x (min n (length content - offset)))"
    by (auto simp: read_file_at_def split: option.splits)
  moreover define k where "k = min x (length content - offset)"
  ultimately have k: "bs = slice (rr_file r) offset (min k n)"
    by (simp add: min.commute min.left_commute)
  from ok assms(2) have cov: "offset + n \<le> length content"
    "\<And>i. offset \<le> i \<Longrightarrow> i < offset + n \<Longrightarrow> rr_file r ! i = content ! i"
    by (auto simp: rr_ok_def)
  have "slice (rr_file r) offset (min k n) = slice content offset (min k n)"
    by (rule slice_eqI) (use cov len in auto)
  with k cov(1) show ?thesis by (simp add: len)
next
  case False
  with assms show ?thesis by (auto simp: read_file_at_def rr_ok_def slice_def)
qed

lemma rr_ok_step:
  assumes "rr_step serve r out r'" "serves_clip content serve" "rr_ok content r"
  shows "rr_ok content r'"
  using assms
proof (induction rule: rr_step.induct)
  case (rr_body r c ahead k bytes)
  then have c: "c < chunks_of (length content)" "\<not> cov_has (rr_cov r) c"
    and len: "rr_length r = length content" by (simp_all add: rr_ok_def phase_ok_def)
  have "bytes = slice content (c * chunk_bytes) chunk_bytes" if "length bytes = range_len r c"
  proof -
    have "range_len r c = min chunk_bytes (length content - c * chunk_bytes)"
      using range_slice [OF len c(1)] len by (auto simp: range_len_def min_def)
    with rr_body that show ?thesis by (simp add: serves_clip_def)
  qed
  with rr_body c show ?case
    unfolding finish_body_def by (intro rr_ok_phase) (auto simp: phase_ok_def)
next
  case (rr_written r c bytes)
  then show ?case by (intro rr_ok_write)
next
  case (rr_write_failed r c bytes j)
  then show ?case by (intro rr_ok_write)
next
  case (rr_mark r c)
  then show ?case by (intro rr_ok_mark)
next
  case (rr_pick r)
  then show ?case by (intro rr_ok_pick)
next
  case (rr_read_end offset len r res r')
  then show ?case using rr_ok_read_check by blast
next
  case (rr_read_go offset len r n r')
  then show ?case using rr_ok_read_check [OF rr_read_go(3) rr_read_go(1)]
    by (auto simp: rr_ok_def phase_ok_def split: fetch_phase.splits)
next
  case (rr_read_file r xs offset n ys os)
  then show ?case by (auto simp: rr_ok_def phase_ok_def split: fetch_phase.splits)
next
  case (rr_miss r c ahead k)
  then show ?case
    unfolding after_miss_def by (intro rr_ok_phase) (auto simp: phase_ok_def rr_ok_def)
next
  case (rr_drop r)
  then show ?case by (simp add: rr_ok_def phase_ok_def split: fetch_phase.splits)
next
  case (rr_fail r c)
  then show ?case by (simp add: rr_ok_def phase_ok_def)
qed (auto intro!: rr_ok_phase simp: phase_ok_def rr_ok_def)

lemma rr_step_output:
  assumes "rr_step serve r (Some (offset, Read_bytes bs)) r'" "rr_ok content r"
  shows "bs = slice content offset (length bs)"
  using assms
proof (cases rule: rr_step.cases)
  case (rr_read_end len)
  then show ?thesis by (auto simp: read_check_def slice_def split: if_splits prod.splits)
next
  case (rr_read_file xs n ys os)
  then have "(offset, n) \<in> set (rr_reads r)" by simp
  then show ?thesis using read_file_at_content [OF assms(2)] rr_read_file by metis
qed

section \<open>The opening request\<close>

lemma first_marks_have:
  "length (cov_have (first_marks whole got)) = chunks_of whole \<and> cov_wanted (first_marks whole got) = None \<and>
   (cov_has (first_marks whole got) c \<longrightarrow> (c + 1) * chunk_bytes \<le> got \<or> got \<ge> whole)"
proof -
  let ?f = "\<lambda>cov c. if (c + 1) * chunk_bytes \<le> got \<or> got \<ge> whole then cov_mark c cov else cov"
  have "length (cov_have (foldl ?f cov cs)) = length (cov_have cov) \<and>
      (cov_wanted cov = None \<longrightarrow> cov_wanted (foldl ?f cov cs) = None) \<and>
      (cov_has (foldl ?f cov cs) c \<longrightarrow> cov_has cov c \<or> (c + 1) * chunk_bytes \<le> got \<or> got \<ge> whole)" for cs cov
  proof (induction cs arbitrary: cov)
    case Nil
    then show ?case by simp
  next
    case (Cons a cs)
    define cov1 where "cov1 = ?f cov a"
    have "length (cov_have cov1) = length (cov_have cov)" "cov_wanted cov = None \<longrightarrow> cov_wanted cov1 = None"
      "cov_has cov1 c \<longrightarrow> cov_has cov c \<or> (c + 1) * chunk_bytes \<le> got \<or> got \<ge> whole"
      by (auto simp: cov1_def cov_has_mark)
    moreover have "foldl ?f cov (a # cs) = foldl ?f cov1 cs" by (simp add: cov1_def)
    ultimately show ?case using Cons.IH [of cov1] by (auto simp del: foldl_Cons)
  qed
  from this [of "coverage_new whole" "[0..<chunks_of whole]"] show ?thesis
    unfolding first_marks_def by (auto simp: coverage_new_def cov_has_def)
qed

lemma range_open_ok:
  assumes "range_open client resp cache_ok thread_ok = Inr r"
    and "resp = Some fr" "fr_body fr = Some body" "body = take (length body) content"
    and "rr_length r = length content"
  shows "rr_ok content r"
proof -
  have r: "r = \<lparr>rr_length = length content, rr_file = put_at 0 body (replicate (length content) 0),
      rr_cov = first_marks (length content) (length body), rr_stop = False,
      rr_failed = False, rr_fetch = Fetch_idle, rr_reads = []\<rparr>"
    using assms by (auto simp: range_open_def split: if_splits option.splits sum.splits)
  have le: "length body \<le> length content" using assms(4) by (metis length_take min.cobounded1)
  have bytes_at: "put_at 0 body (replicate (length content) 0) ! i = (if i < length body then content ! i else 0)"
    if "i < length content" for i
    using that le assms(4) by (subst put_at_nth) (auto, metis nth_take)
  have "rr_file r ! i = content ! i"
    if i: "i < length content" "cov_has (rr_cov r) (i div chunk_bytes)" for i
  proof -
    have "(i div chunk_bytes + 1) * chunk_bytes \<le> length body \<or> length content \<le> length body"
      using first_marks_have [of "length content" "length body" "i div chunk_bytes"] i(2) r by simp
    then have "i < length body" using i(1) chunk_div [of i "i div chunk_bytes"] by linarith
    with bytes_at [OF i(1)] r show ?thesis by simp
  qed
  moreover have "length (rr_file r) = length content" using r le by (simp add: length_put_at)
  ultimately show ?thesis
    using first_marks_have [of "length content" "length body"] r by (simp add: rr_ok_def phase_ok_def)
qed

section \<open>Properties\<close>

text \<open>C13: whatever the player reads, and however its reads, the fetch thread, seeks, failed
  requests, failed writes and the drop of the reader interleave, every byte a read returns is the
  clip's byte at that offset: with a first response that holds the start of the clip and a server
  whose full-length range bodies are those ranges, all results of a run are slices of the clip.\<close>

theorem clip_reads_are_the_clips_bytes:
  assumes "range_open client (Some fr) cache_ok thread_ok = Inr r0"
    and "fr_body fr = Some body" "body = take (length body) content" "rr_length r0 = length content"
    and "serves_clip content serve" "rr_run serve r0 outs r"
  shows "\<forall>(offset, res) \<in> set outs. \<forall>bs. res = Read_bytes bs \<longrightarrow> bs = slice content offset (length bs)"
proof -
  have ok0: "rr_ok content r0" using range_open_ok assms(1-4) by blast
  have "rr_ok content r \<and> (\<forall>(offset, res) \<in> set outs. \<forall>bs. res = Read_bytes bs \<longrightarrow>
      bs = slice content offset (length bs))"
    using assms(6) ok0
  proof (induction rule: rr_run.induct)
    case (rr_run_refl r)
    then show ?case by simp
  next
    case (rr_run_step r outs r1 out r2)
    with rr_ok_step [OF _ assms(5)] rr_step_output [of serve r1 _ _ r2 content] show ?case
      by (fastforce split: option.splits)
  qed
  then show ?thesis by blast
qed

definition sample_content :: "byte list" where "sample_content = [1, 2, 3]"

definition sample_response :: first_response where
  "sample_response = \<lparr>fr_status = 206, fr_content_range = Some ''bytes 0-2/3'',
     fr_content_length = Some 3, fr_body = Some sample_content\<rparr>"

definition sample_reader :: range_reader where
  "sample_reader = \<lparr>rr_length = 3, rr_file = [1, 2, 3],
     rr_cov = \<lparr>cov_have = [True], cov_wanted = None, cov_head = 0\<rparr>, rr_stop = False,
     rr_failed = False, rr_fetch = Fetch_idle, rr_reads = []\<rparr>"

lemma sample_total: "content_range_total ''bytes 0-2/3'' = Some 3"
  by (simp add: content_range_total_def parse_u_def trim_def ascii_space_def digit_value_def u64_max_def)

lemma sample_marks: "first_marks 3 3 = \<lparr>cov_have = [True], cov_wanted = None, cov_head = 0\<rparr>"
proof -
  have "chunks_of 3 = 1" by (simp add: div_ceil_def chunk_bytes_def)
  then show ?thesis by (simp add: first_marks_def coverage_new_def cov_mark_def)
qed

lemma sample_open: "range_open True (Some sample_response) True True = Inr sample_reader"
  by (simp add: range_open_def sample_response_def sample_reader_def sample_total sample_content_def
      put_at_def sample_marks [unfolded numeral_3_eq_3] numeral_3_eq_3)

lemma sample_run: "\<exists>r. rr_run (\<lambda>_ _. False) sample_reader [(1, Read_bytes [2, 3])] r"
proof -
  let ?r1 = "sample_reader\<lparr>rr_reads := [(1, 2)]\<rparr>"
  have "readable_until (rr_cov sample_reader) 3 0 1 = 3"
    by (simp add: readable_until.simps [of _ 3 0] readable_until.simps [of _ 3 "Suc 0"]
        sample_reader_def cov_has_def chunk_bytes_def)
  then have "read_check 1 2 sample_reader = (Inr 2, sample_reader)"
    by (simp add: read_check_def cov_readable_def Let_def sample_reader_def cov_has_def u64_max_def
        chunk_bytes_def ahead_chunks_def numeral_3_eq_3)
  from rr_read_go [OF this, of "\<lambda>_ _. False"] have 1: "rr_step (\<lambda>_ _. False) sample_reader None ?r1"
    by (simp add: sample_reader_def)
  have "rr_step (\<lambda>_ _. False) ?r1
      (Some (1, read_file_at (Some 2) (rr_file ?r1) 1 2 (rr_length ?r1))) (?r1\<lparr>rr_reads := [] @ []\<rparr>)"
    by (rule rr_read_file) simp
  then have 2: "rr_step (\<lambda>_ _. False) ?r1 (Some (1, Read_bytes [2, 3])) (?r1\<lparr>rr_reads := []\<rparr>)"
    by (simp add: read_file_at_def slice_def sample_reader_def)
  show ?thesis
    using rr_run_step [OF rr_run_step [OF rr_run_refl 1] 2] by auto
qed

lemma clip_reads_are_the_clips_bytes_witness:
  "\<exists>outs. outs \<noteq> [] \<and> (\<forall>(offset, res) \<in> set outs. \<forall>bs. res = Read_bytes bs \<longrightarrow>
     bs = slice sample_content offset (length bs))"
proof -
  obtain r where run: "rr_run (\<lambda>_ _. False) sample_reader [(1, Read_bytes [2, 3])] r"
    using sample_run by blast
  have "serves_clip sample_content (\<lambda>_ _. False)" by (simp add: serves_clip_def)
  from clip_reads_are_the_clips_bytes [OF sample_open _ _ _ this run, of sample_content]
  show ?thesis by (intro exI [of _ "[(1, Read_bytes [2, 3])]"])
      (simp add: sample_response_def sample_reader_def sample_content_def)
qed

text \<open>The fetch thread with no read in between: it takes and marks ranges until none is next.\<close>

fun fetch_rounds :: "nat \<Rightarrow> coverage \<Rightarrow> coverage" where
  "fetch_rounds 0 cov = cov"
| "fetch_rounds (Suc n) cov =
     (case cov_next cov of None \<Rightarrow> cov | Some c \<Rightarrow> fetch_rounds n (cov_mark c cov))"

definition wanted_in :: "coverage \<Rightarrow> bool" where
  "wanted_in cov \<longleftrightarrow> (\<forall>w. cov_wanted cov = Some w \<longrightarrow> w < length (cov_have cov))"

definition missing :: "coverage \<Rightarrow> nat" where
  "missing cov = card {c. c < length (cov_have cov) \<and> \<not> cov_has cov c}"

lemma missing_mark:
  assumes "c < length (cov_have cov)" "\<not> cov_has cov c"
  shows "missing (cov_mark c cov) < missing cov"
proof -
  have "{d. d < length (cov_have cov) \<and> \<not> cov_has (cov_mark c cov) d} \<subset>
      {d. d < length (cov_have cov) \<and> \<not> cov_has cov d}"
    using assms by (auto simp: cov_has_mark)
  then show ?thesis by (simp add: missing_def psubset_card_mono)
qed

lemma fetch_rounds_end:
  assumes "wanted_in cov" "missing cov < n"
  shows "cov_next (fetch_rounds n cov) = None \<and> cov_head (fetch_rounds n cov) = cov_head cov \<and>
    length (cov_have (fetch_rounds n cov)) = length (cov_have cov) \<and>
    (\<forall>c. cov_has cov c \<longrightarrow> cov_has (fetch_rounds n cov) c)"
  using assms
proof (induction n arbitrary: cov)
  case 0
  then show ?case by simp
next
  case (Suc n)
  show ?case
  proof (cases "cov_next cov")
    case None
    then show ?thesis by simp
  next
    case (Some c)
    with Suc.prems have c: "c < length (cov_have cov)" "\<not> cov_has cov c"
      using cov_next_missing [OF Some] by (auto simp: wanted_in_def)
    have "wanted_in (cov_mark c cov)" using Suc.prems by (simp add: wanted_in_def)
    with Suc.IH [of "cov_mark c cov"] missing_mark [OF c] Suc.prems Some show ?thesis
      by (simp add: cov_has_mark)
  qed
qed

lemma cov_next_None_ahead:
  assumes "cov_next cov = None" "cov_head cov \<le> c" "c \<le> cov_head cov + ahead_chunks" "c < length (cov_have cov)"
  shows "cov_has cov c"
proof -
  have "cov_have cov \<noteq> []" using assms(4) by auto
  with assms(1) have "List.find (\<lambda>c. \<not> cov_has cov c)
      [cov_head cov..<Suc (min (cov_head cov + ahead_chunks) (length (cov_have cov) - 1))] = None"
    by (auto simp: cov_next_def Let_def split: option.splits)
  then show ?thesis using assms(2-4) by (auto simp: find_None_all)
qed

text \<open>A read that has to wait gets its bytes. The range it asked for is the next one the fetch
  thread takes, and that fetch gives way to nothing but the end of the reader; a range ahead gives
  way to it when the read jumped more than four ranges; once it is marked the same read gets at
  least one byte; and with no further reads the fetch thread runs dry only when the ranges from
  the head of the reads to four past it are there.\<close>

theorem clip_wait_is_served:
  assumes "cov_readable offset len whole cov = (0, cov')" "offset < whole" "0 < len"
    and "offset + len \<le> u64_max" "length (cov_have cov) = chunks_of whole"
  defines "first \<equiv> offset div chunk_bytes"
  shows "cov_next cov' = Some first \<and>
    (\<forall>r. give_way r (cov_wanted cov' \<noteq> Some first) first = rr_stop r) \<and>
    (\<forall>r c. rr_cov r = cov' \<longrightarrow> 4 < abs_diff first c \<longrightarrow> give_way r True c) \<and>
    0 < fst (cov_readable offset len whole (cov_mark first cov')) \<and>
    (\<forall>n. missing cov' < n \<longrightarrow> cov_next (fetch_rounds n cov') = None \<and>
       (\<forall>c. cov_head cov' \<le> c \<longrightarrow> c \<le> cov_head cov' + 4 \<longrightarrow> c < chunks_of whole \<longrightarrow>
          cov_has (fetch_rounds n cov') c))"
proof -
  have no: "\<not> cov_has cov first" and w: "cov_wanted cov' = Some first" and h: "cov_have cov' = cov_have cov"
    using cov_readable_go [OF assms(1,2,4,3)] cov_readable_cases [OF assms(1)]
    by (simp_all add: first_def)
  have no': "\<not> cov_has cov' first" using no cov_has_cong [OF h] by simp
  have lt: "first < length (cov_have cov')" using assms(2,5) h by (simp add: first_def div_ceil_gt)
  have "cov_next cov' = Some first" using w no' by (rule cov_next_wanted)
  moreover have "\<forall>r. give_way r (cov_wanted cov' \<noteq> Some first) first = rr_stop r"
    by (simp add: give_way_def w)
  moreover have "\<forall>r c. rr_cov r = cov' \<longrightarrow> 4 < abs_diff first c \<longrightarrow> give_way r True c"
    using w no' by (simp add: give_way_def wants_far_from_def ahead_chunks_def)
  moreover have "0 < fst (cov_readable offset len whole (cov_mark first cov'))"
  proof -
    obtain n cov2 where c2: "cov_readable offset len whole (cov_mark first cov') = (n, cov2)" by fastforce
    have "cov_has (cov_mark first cov') (offset div chunk_bytes)" using lt by (simp add: cov_has_mark first_def)
    with cov_readable_go [OF c2 assms(2,4,3)] c2 show ?thesis by simp
  qed
  moreover have "cov_next (fetch_rounds n cov') = None \<and>
      (\<forall>c. cov_head cov' \<le> c \<longrightarrow> c \<le> cov_head cov' + 4 \<longrightarrow> c < chunks_of whole \<longrightarrow>
         cov_has (fetch_rounds n cov') c)" if "missing cov' < n" for n
  proof -
    have "wanted_in cov'" using w lt by (simp add: wanted_in_def)
    note e = fetch_rounds_end [OF this that]
    with cov_next_None_ahead [of "fetch_rounds n cov'"] assms(5) h show ?thesis
      by (simp add: ahead_chunks_def)
  qed
  ultimately show ?thesis by blast
qed

lemma clip_wait_is_served_witness:
  "cov_next (snd (cov_readable 9000000 100 10485765 (coverage_new 10485765))) = Some 8"
proof -
  define c0 where "c0 = coverage_new 10485765"
  have len: "length (cov_have c0) = chunks_of 10485765" and none: "\<not> cov_has c0 k" for k
    by (auto simp: c0_def coverage_new_def cov_has_def)
  obtain n cov' where c: "cov_readable 9000000 100 10485765 c0 = (n, cov')" by fastforce
  with none cov_readable_cases [OF c] have c: "cov_readable 9000000 100 10485765 c0 = (0, cov')" by simp
  have first: "9000000 div chunk_bytes = 8" by (simp add: chunk_bytes_def)
  have "cov_next cov' = Some (9000000 div chunk_bytes)"
    by (rule clip_wait_is_served [OF c _ _ _ len, THEN conjunct1]) (simp_all add: u64_max_def)
  with c show ?thesis unfolding first c0_def by simp
qed


section \<open>The state the UI hears (\<open>clip_play/mod.rs\<close>)\<close>

record playback_state =
  pb_position_ms :: nat
  pb_duration_ms :: nat
  pb_width :: nat
  pb_height :: nat
  pb_buffering :: bool
  pb_paused :: bool
  pb_ended :: bool
  pb_failed :: bool

definition worth_sending :: "playback_state option \<Rightarrow> playback_state \<Rightarrow> bool" where
  "worth_sending sent now =
     (case sent of None \<Rightarrow> True
      | Some s \<Rightarrow>
          (pb_buffering s, pb_paused s, pb_ended s, pb_failed s, pb_width s, pb_height s, pb_duration_ms s) \<noteq>
          (pb_buffering now, pb_paused now, pb_ended now, pb_failed now, pb_width now, pb_height now,
           pb_duration_ms now) \<or>
          abs_diff (pb_position_ms s) (pb_position_ms now) \<ge> 100)"

definition poll_changed :: "playback_state \<Rightarrow> playback_state option \<Rightarrow> playback_state option \<times> playback_state option" where
  "poll_changed now sent = (if worth_sending sent now then (Some now, Some now) else (None, sent))"

text \<open>After a poll the UI knows the flags and the size, and the position to 100 ms.\<close>

lemma poll_changed_fresh:
  assumes "poll_changed now sent = (out, sent')"
  shows "\<exists>s. sent' = Some s \<and> pb_ended s = pb_ended now \<and> pb_failed s = pb_failed now \<and>
    pb_buffering s = pb_buffering now \<and> pb_paused s = pb_paused now \<and>
    abs_diff (pb_position_ms s) (pb_position_ms now) < 100"
  using assms by (auto simp: poll_changed_def worth_sending_def split: if_splits option.splits)

end
