(* ===== verification/Quality_Controller.thy ===== *)
theory Quality_Controller
  imports Machine Rust_Float
begin

text \<open>
  The quality controller of the stream host (\<open>stream/controller.rs\<close>): the rungs, the encode
  sizes, the rung message, the encoder bitrate and the rung switches. The \<open>f32\<close> and \<open>f64\<close>
  operations are the rounded rational operations of \<open>Rust_Float\<close>; \<open>u32\<close> products wrap.
\<close>

section \<open>Constants\<close>

definition floor_kbps :: nat where "floor_kbps = 300"
definition start_percent :: nat where "start_percent = 60"
definition rtp_overhead_percent :: nat where "rtp_overhead_percent = 108"
definition drop_bpp :: rat where "drop_bpp = f32 (55 / 1000)"
definition restore_bpp :: rat where "restore_bpp = f32 (75 / 1000)"
definition restore_preset_percent :: nat where "restore_preset_percent = 95"
definition down_dwell :: duration where "down_dwell = secs 2"
definition up_dwell :: duration where "up_dwell = secs 15"
definition switch_cooldown :: duration where "switch_cooldown = secs 10"
definition geometry_heights :: "nat list" where "geometry_heights = [540, 480, 360]"
definition low_fps :: nat where "low_fps = 30"
definition bitrate_change_min_interval :: duration where "bitrate_change_min_interval = millis 250"
definition bitrate_dead_band_percent :: nat where "bitrate_dead_band_percent = 5"
definition overload_drop_share :: rat where "overload_drop_share = f64 (2 / 100)"
definition overload_budget_share :: rat where "overload_budget_share = f64 (80 / 100)"
definition overload_min_frames :: nat where "overload_min_frames = 30"
definition rung_message_type :: nat where "rung_message_type = 0x04"
definition rung_message_subtype :: nat where "rung_message_subtype = 0x05"
definition level51_max_frame_mbs :: nat where "level51_max_frame_mbs = 36864"
definition level51_max_mbs_per_sec :: nat where "level51_max_mbs_per_sec = 983040"

section \<open>Rungs\<close>

record rung =
  rung_width :: nat
  rung_height :: nat
  rung_fps :: nat

definition pixel_rate :: "rung \<Rightarrow> rat" where
  "pixel_rate r = f64 (f64 (of_nat (rung_width r) * of_nat (rung_height r)) * of_nat (rung_fps r))"

definition bits_per_pixel :: "rung \<Rightarrow> nat \<Rightarrow> rat" where
  "bits_per_pixel r kbps =
     (let rate = pixel_rate r
      in if rate \<le> 0 then 0 else f32 (f64 (f64 (of_nat kbps * 1000) / rate)))"

definition kbps_at_bpp :: "rung \<Rightarrow> rat \<Rightarrow> nat" where
  "kbps_at_bpp r bpp = to_u u32_max (round_away (f64 (f64 (pixel_rate r * bpp) / 1000)))"

text \<open>A message is its bytes, each below 256.\<close>

definition be_bytes16 :: "nat \<Rightarrow> nat list" where
  "be_bytes16 n = [n div 256, n mod 256]"

definition rung_message :: "rung \<Rightarrow> nat list" where
  "rung_message r =
     [rung_message_type, rung_message_subtype] @ be_bytes16 (min (rung_width r) u16_max) @
     be_bytes16 (min (rung_height r) u16_max) @ [min (rung_fps r) u8_max]"

definition parse_rung_message :: "nat list \<Rightarrow> rung option" where
  "parse_rung_message data =
     (case data of
        [a, b, w1, w0, h1, h0, fps] \<Rightarrow>
          if a \<noteq> rung_message_type \<or> b \<noteq> rung_message_subtype then None
          else Some \<lparr>rung_width = w1 * 256 + w0, rung_height = h1 * 256 + h0, rung_fps = fps\<rparr>
      | _ \<Rightarrow> None)"

definition width_for :: "nat \<Rightarrow> nat \<Rightarrow> nat \<Rightarrow> nat" where
  "width_for width height target_height =
     (if height = 0 \<or> target_height \<ge> height then width
      else
        let exact = f64 (f64 (of_nat width * of_nat target_height) / of_nat height);
            w1 = wrap_u u32_max (to_u u32_max (round_away (f64 (exact / 16))) * 16);
            w2 = (if w1 > width then width - width mod 16 else w1)
        in if w2 < 16 then min width 16 else w2)"

definition fits51 :: "nat \<Rightarrow> nat \<Rightarrow> nat \<Rightarrow> bool" where
  "fits51 w h fps \<longleftrightarrow>
     (let mbs = div_ceil w 16 * div_ceil h 16
      in mbs \<le> level51_max_frame_mbs \<and> mbs * fps \<le> level51_max_mbs_per_sec)"

text \<open>The loop that lowers the height until the size fits.\<close>

function lower_height :: "nat \<Rightarrow> nat \<Rightarrow> nat \<Rightarrow> nat \<Rightarrow> nat \<Rightarrow> nat \<times> nat" where
  "lower_height cap_w cap_h fps w h =
     (if h > 2 \<and> \<not> fits51 w h fps
      then lower_height cap_w cap_h fps (width_for cap_w cap_h (h - 2)) (h - 2)
      else (w, h))"
  by pat_completeness auto
termination
  by (relation "measure (\<lambda>(_, _, _, _, h). h)") auto

declare lower_height.simps [simp del]

definition encode_size_for :: "nat \<Rightarrow> nat \<Rightarrow> nat \<Rightarrow> nat \<Rightarrow> nat \<times> nat" where
  "encode_size_for source_w source_h preset_h fps =
     (let cap_w = source_w - source_w mod 2; cap_h = source_h - source_h mod 2
      in if cap_w = 0 \<or> cap_h = 0 then (0, 0)
         else let h = (if preset_h > 0 \<and> preset_h < cap_h then preset_h - preset_h mod 2 else cap_h)
           in lower_height cap_w cap_h fps (width_for cap_w cap_h h) h)"

text \<open>\<open>env\<close> is the value of \<open>MELLO_STREAM_GEOMETRY_RUNGS\<close>.\<close>

definition geometry_rungs_enabled :: "string option \<Rightarrow> bool" where
  "geometry_rungs_enabled env = (if env = Some ''1'' then True else if env = Some ''0'' then False else True)"

definition rungs_for :: "nat \<Rightarrow> nat \<Rightarrow> nat \<Rightarrow> rung list" where
  "rungs_for width height fps =
     [\<lparr>rung_width = width, rung_height = height, rung_fps = fps\<rparr>] @
     (if fps > low_fps then [\<lparr>rung_width = width, rung_height = height, rung_fps = low_fps\<rparr>] else []) @
     map (\<lambda>t. \<lparr>rung_width = width_for width height t, rung_height = t, rung_fps = min low_fps fps\<rparr>)
       (filter (\<lambda>t. t < height) geometry_heights)"

definition ladder :: "nat \<Rightarrow> nat \<Rightarrow> nat \<Rightarrow> bool \<Rightarrow> rung list" where
  "ladder width height fps geometry =
     (if geometry then rungs_for width height fps
      else filter (\<lambda>r. rung_width r = width \<and> rung_height r = height) (rungs_for width height fps))"

text \<open>\<open>mean_encode_ms\<close> is a finite \<open>f64\<close>.\<close>

record encoder_load =
  el_frames_offered :: nat
  el_queue_drops :: nat
  el_mean_encode_ms :: rat
  el_fps :: nat

definition load_overloaded :: "encoder_load \<Rightarrow> bool" where
  "load_overloaded l \<longleftrightarrow>
     (if el_frames_offered l < overload_min_frames \<or> el_fps l = 0 then False
      else
        let drop_share = f64 (f64 (of_nat (el_queue_drops l)) / f64 (of_nat (el_frames_offered l)));
            budget_ms = f64 (1000 / of_nat (el_fps l))
        in drop_share > overload_drop_share \<or>
           el_mean_encode_ms l \<ge> f64 (overload_budget_share * budget_ms))"

section \<open>The controller\<close>

record quality_update =
  up_bitrate_kbps :: "nat option"
  up_rung :: "rung option"
  up_allocation_kbps :: "nat option"

definition no_update :: quality_update where
  "no_update = \<lparr>up_bitrate_kbps = None, up_rung = None, up_allocation_kbps = None\<rparr>"

record quality_controller =
  qc_preset_kbps :: nat
  qc_rungs :: "rung list"
  qc_rung :: nat
  qc_geometry :: bool
  qc_gcc_kbps :: "nat option"
  qc_remb_kbps :: "nat option"
  qc_overloaded :: bool
  qc_bitrate_kbps :: nat
  qc_last_bitrate_change :: "instant option"
  qc_below_since :: "instant option"
  qc_above_since :: "instant option"
  qc_last_switch :: "instant option"

definition with_overhead :: "nat \<Rightarrow> nat" where
  "with_overhead kbps = wrap_u u32_max (kbps * rtp_overhead_percent div 100)"

definition without_overhead :: "nat \<Rightarrow> nat" where
  "without_overhead kbps = wrap_u u32_max (kbps * 100 div rtp_overhead_percent)"

definition qc_new :: "string option \<Rightarrow> nat \<Rightarrow> nat \<Rightarrow> nat \<Rightarrow> nat \<Rightarrow> quality_controller" where
  "qc_new env width height fps preset_kbps =
     (let preset = max preset_kbps floor_kbps; geometry = geometry_rungs_enabled env
      in \<lparr>qc_preset_kbps = preset, qc_rungs = ladder width height fps geometry, qc_rung = 0,
          qc_geometry = geometry, qc_gcc_kbps = None, qc_remb_kbps = None, qc_overloaded = False,
          qc_bitrate_kbps = max (wrap_u u32_max (preset * start_percent) div 100) floor_kbps,
          qc_last_bitrate_change = None, qc_below_since = None, qc_above_since = None,
          qc_last_switch = None\<rparr>)"

definition with_geometry_rungs :: "bool \<Rightarrow> quality_controller \<Rightarrow> quality_controller" where
  "with_geometry_rungs on q =
     (let t = qc_rungs q ! 0; rungs = ladder (rung_width t) (rung_height t) (rung_fps t) on
      in q\<lparr>qc_geometry := on, qc_rungs := rungs, qc_rung := min (qc_rung q) (length rungs - 1)\<rparr>)"

definition drop_kbps :: "nat \<Rightarrow> quality_controller \<Rightarrow> nat" where
  "drop_kbps index q = kbps_at_bpp (qc_rungs q ! index) drop_bpp"

definition restore_kbps :: "nat \<Rightarrow> quality_controller \<Rightarrow> nat" where
  "restore_kbps index q =
     (let by_bpp = kbps_at_bpp (qc_rungs q ! index) restore_bpp;
          by_preset = wrap_u u32_max (qc_preset_kbps q * restore_preset_percent) div 100
      in max (min by_bpp by_preset) (wrap_u u32_max (drop_kbps index q * 11) div 10))"

definition sender_limits_kbps :: "quality_controller \<Rightarrow> nat \<times> nat \<times> nat" where
  "sender_limits_kbps q =
     (with_overhead floor_kbps, with_overhead (qc_bitrate_kbps q), with_overhead (qc_preset_kbps q))"

definition allocation_kbps :: "quality_controller \<Rightarrow> nat" where
  "allocation_kbps q =
     (if qc_rung q = 0 then with_overhead (qc_preset_kbps q)
      else with_overhead (restore_kbps (qc_rung q - 1) q))"

definition set_gcc_target_bps :: "nat \<Rightarrow> quality_controller \<Rightarrow> quality_controller" where
  "set_gcc_target_bps bps q = q\<lparr>qc_gcc_kbps := Some (without_overhead (bps div 1000))\<rparr>"

definition set_remb_ceiling_kbps :: "nat option \<Rightarrow> quality_controller \<Rightarrow> quality_controller" where
  "set_remb_ceiling_kbps kbps q = q\<lparr>qc_remb_kbps := kbps\<rparr>"

definition set_encoder_load :: "encoder_load \<Rightarrow> quality_controller \<Rightarrow> quality_controller" where
  "set_encoder_load l q = q\<lparr>qc_overloaded := load_overloaded l\<rparr>"

definition set_top_size :: "nat \<Rightarrow> nat \<Rightarrow> quality_controller \<Rightarrow> rung option \<times> quality_controller" where
  "set_top_size width height q =
     (let t = qc_rungs q ! 0
      in if width = 0 \<or> height = 0 \<or> (width = rung_width t \<and> height = rung_height t) then (None, q)
         else
           let before = qc_rungs q ! qc_rung q;
               rungs = ladder width height (rung_fps t) (qc_geometry q);
               q' = q\<lparr>qc_rungs := rungs, qc_rung := min (qc_rung q) (length rungs - 1)\<rparr>;
               after = qc_rungs q' ! qc_rung q'
           in (if after \<noteq> before then Some after else None, q'))"

definition desired_kbps :: "quality_controller \<Rightarrow> nat" where
  "desired_kbps q =
     (let a = (case qc_gcc_kbps q of None \<Rightarrow> qc_preset_kbps q | Some g \<Rightarrow> min (qc_preset_kbps q) g);
          b = (case qc_remb_kbps q of None \<Rightarrow> a | Some r \<Rightarrow> min a r)
      in max b floor_kbps)"

definition outside_dead_band :: "nat \<Rightarrow> quality_controller \<Rightarrow> bool" where
  "outside_dead_band kbps q \<longleftrightarrow>
     abs_diff kbps (qc_bitrate_kbps q) * 100 \<ge> qc_bitrate_kbps q * bitrate_dead_band_percent"

definition update_bitrate :: "instant \<Rightarrow> quality_controller \<Rightarrow> nat option \<times> quality_controller" where
  "update_bitrate now q =
     (let desired = desired_kbps q
      in if desired = qc_bitrate_kbps q then (None, q)
         else if (if desired < qc_bitrate_kbps q then \<not> outside_dead_band desired q
                  else (case qc_last_bitrate_change q of
                          Some t \<Rightarrow> duration_since now t < bitrate_change_min_interval
                        | None \<Rightarrow> False) \<or>
                       (\<not> outside_dead_band desired q \<and> desired \<noteq> qc_preset_kbps q))
         then (None, q)
         else (Some desired, q\<lparr>qc_bitrate_kbps := desired, qc_last_bitrate_change := Some now\<rparr>))"

definition cooled_down :: "instant \<Rightarrow> quality_controller \<Rightarrow> bool" where
  "cooled_down now q \<longleftrightarrow>
     (case qc_last_switch q of None \<Rightarrow> True | Some t \<Rightarrow> duration_since now t \<ge> switch_cooldown)"

definition switch_to :: "nat \<Rightarrow> instant \<Rightarrow> quality_controller \<Rightarrow> quality_update \<times> quality_controller" where
  "switch_to index now q =
     (let q' = q\<lparr>qc_rung := index, qc_last_switch := Some now, qc_below_since := None, qc_above_since := None\<rparr>
      in (\<lparr>up_bitrate_kbps = None, up_rung = Some (qc_rungs q' ! index),
           up_allocation_kbps = Some (allocation_kbps q')\<rparr>, q'))"

definition judges_down :: "quality_controller \<Rightarrow> bool" where
  "judges_down q \<longleftrightarrow> qc_rung q + 1 < length (qc_rungs q) \<and>
     (qc_bitrate_kbps q < drop_kbps (qc_rung q) q \<or> qc_overloaded q)"

definition judges_up :: "quality_controller \<Rightarrow> bool" where
  "judges_up q \<longleftrightarrow> qc_rung q > 0 \<and> \<not> qc_overloaded q \<and>
     qc_bitrate_kbps q \<ge> restore_kbps (qc_rung q - 1) q"

definition get_or_insert :: "instant \<Rightarrow> instant option \<Rightarrow> instant" where
  "get_or_insert now o' = (case o' of None \<Rightarrow> now | Some t \<Rightarrow> t)"

definition tick_rung :: "instant \<Rightarrow> quality_controller \<Rightarrow> quality_update \<times> quality_controller" where
  "tick_rung now q =
     (if judges_down q
      then let since = get_or_insert now (qc_below_since q);
               q1 = q\<lparr>qc_above_since := None, qc_below_since := Some since\<rparr>
        in if duration_since now since \<ge> down_dwell \<and> cooled_down now q1
           then switch_to (qc_rung q1 + 1) now q1 else (no_update, q1)
      else if judges_up q
      then let since = get_or_insert now (qc_above_since q);
               q1 = q\<lparr>qc_below_since := None, qc_above_since := Some since\<rparr>
        in if duration_since now since \<ge> up_dwell \<and> cooled_down now q1
           then switch_to (qc_rung q1 - 1) now q1 else (no_update, q1)
      else (no_update, q\<lparr>qc_below_since := None, qc_above_since := None\<rparr>))"


section \<open>The rung message\<close>

text \<open>The viewers read back the rung the host sent when its size fits 16 bits and its frame
  rate 8 bits, and larger values arrive clipped; and a message the parser accepts is, byte for
  byte, the one the host makes for that rung.\<close>

theorem rung_message_roundtrip:
  "parse_rung_message (rung_message r) =
     Some \<lparr>rung_width = min (rung_width r) 65535, rung_height = min (rung_height r) 65535,
           rung_fps = min (rung_fps r) 255\<rparr> \<and>
   (set data \<subseteq> {..255} \<longrightarrow> parse_rung_message data = Some r' \<longrightarrow> rung_message r' = data)"
proof
  have "n div 256 * 256 + n mod 256 = n" for n :: nat by simp
  then show "parse_rung_message (rung_message r) =
     Some \<lparr>rung_width = min (rung_width r) 65535, rung_height = min (rung_height r) 65535,
           rung_fps = min (rung_fps r) 255\<rparr>"
    by (simp add: parse_rung_message_def rung_message_def be_bytes16_def u16_max_def u8_max_def)
  show "set data \<subseteq> {..255} \<longrightarrow> parse_rung_message data = Some r' \<longrightarrow> rung_message r' = data"
    by (auto simp: parse_rung_message_def rung_message_def be_bytes16_def u16_max_def u8_max_def
        min_def split: list.splits if_splits)
qed

lemma rung_message_roundtrip_witness:
  "rung_message \<lparr>rung_width = 1280, rung_height = 720, rung_fps = 60\<rparr> = [4, 5, 5, 0, 2, 208, 60]"
  using rung_message_roundtrip [of undefined "[4, 5, 5, 0, 2, 208, 60]"
      "\<lparr>rung_width = 1280, rung_height = 720, rung_fps = 60\<rparr>", THEN conjunct2]
  by (simp add: parse_rung_message_def rung_message_type_def rung_message_subtype_def)

section \<open>Encode sizes\<close>

lemma width_for_le: "width_for width height t \<le> width"
  by (auto simp: width_for_def Let_def)

text \<open>The width before the clip to the source. Below \<open>2 ^ 26\<close> the products are exact in \<open>f64\<close>.\<close>

definition aligned_width :: "nat \<Rightarrow> nat \<Rightarrow> nat \<Rightarrow> nat" where
  "aligned_width width height t =
     to_u u32_max (round_away (f64 (f64 (f64 (of_nat width * of_nat t) / of_nat height) / 16))) * 16"

lemma round_away_mono: "x \<le> y \<Longrightarrow> round_away x \<le> round_away y"
  by (simp add: round_away_def floor_mono)

lemma aligned_width_mono: "t \<le> t' \<Longrightarrow> aligned_width width height t \<le> aligned_width width height t'"
  unfolding aligned_width_def
  by (intro mult_right_mono to_u_mono round_away_mono fl_mono divide_right_mono mult_left_mono) simp_all

lemma aligned_width_bound:
  assumes "width \<le> 2 ^ 26" "t < height" "height \<le> 2 ^ 26"
  shows "aligned_width width height t \<le> u32_max"
proof -
  define x :: rat where "x = f64 (f64 (of_nat width * of_nat t) / of_nat height)"
  have "width * t \<le> 2 ^ 26 * 2 ^ 26" using assms by (intro mult_mono) simp_all
  then have "f64 (of_nat (width * t)) = of_nat (width * t)" by (intro fl_exact_nat) simp
  moreover have "(of_nat (width * t) :: rat) / of_nat height \<le> of_nat width"
  proof -
    have "(of_nat (width * t) :: rat) \<le> of_nat (width * height)"
      using assms(2) by (intro of_nat_mono mult_le_mono2) simp
    then show ?thesis using assms(2) by (simp add: divide_le_eq)
  qed
  ultimately have "x \<le> f64 (of_nat width)" unfolding x_def by (intro fl_mono) simp_all
  also have "f64 (of_nat width) = of_nat width" using assms(1) by (intro fl_exact_nat) simp
  finally have x: "x \<le> 2 ^ 26" using assms(1) of_nat_mono [of width "2 ^ 26", where 'a = rat] by simp
  have "f64 (x / 16) \<le> f64 (of_nat (2 ^ 22))" using x by (intro fl_mono) simp_all
  also have "f64 (of_nat (2 ^ 22)) = of_nat (2 ^ 22)" by (rule fl_exact_nat) simp
  finally have "round_away (f64 (x / 16)) \<le> round_away (of_nat (2 ^ 22))" by (rule round_away_mono)
  also have "\<dots> = 2 ^ 22"
  proof -
    have "\<lfloor>(2 ^ 22 :: rat) + 1 / 2\<rfloor> = 2 ^ 22" by (rule floor_unique) simp_all
    then show ?thesis by (simp add: round_away_def)
  qed
  finally have "to_u u32_max (round_away (f64 (x / 16))) \<le> to_u u32_max (2 ^ 22)" by (rule to_u_mono)
  also have "\<dots> \<le> 2 ^ 22" by (simp add: to_u_def)
  finally have "to_u u32_max (round_away (f64 (x / 16))) * 16 \<le> 2 ^ 22 * 16" by (rule mult_le_mono1)
  then show ?thesis by (simp add: aligned_width_def x_def u32_max_def)
qed

definition clip_width :: "nat \<Rightarrow> nat \<Rightarrow> nat" where
  "clip_width width a =
     (let w = (if a > width then width - width mod 16 else a) in if w < 16 then min width 16 else w)"

lemma clip_width_mono:
  assumes "a \<le> b" "16 dvd a"
  shows "clip_width width a \<le> clip_width width b"
proof -
  have "a \<le> width - width mod 16" if "a \<le> width"
  proof -
    obtain k where k: "a = 16 * k" using assms(2) by blast
    have "width - width mod 16 = 16 * (width div 16)" by (simp add: minus_mod_eq_mult_div)
    moreover have "k \<le> width div 16" using that k by (simp add: less_eq_div_iff_mult_less_eq mult.commute)
    ultimately show ?thesis using k by simp
  qed
  with assms(1) show ?thesis by (auto simp: clip_width_def Let_def)
qed

lemma width_for_clip:
  assumes "width \<le> 2 ^ 26" "height \<le> 2 ^ 26"
  shows "width_for width height t =
    (if height = 0 \<or> t \<ge> height then width else clip_width width (aligned_width width height t))"
  using aligned_width_bound [OF assms(1) _ assms(2), of t]
  by (auto simp: width_for_def clip_width_def Let_def aligned_width_def not_le)

lemma width_for_mono:
  assumes "width \<le> 2 ^ 26" "height \<le> 2 ^ 26" "t \<le> t'"
  shows "width_for width height t \<le> width_for width height t'"
proof (cases "height = 0 \<or> t' \<ge> height")
  case True
  then show ?thesis using width_for_le [of width height t] by (auto simp: width_for_def [of width height t'])
next
  case False
  with assms(3) have "\<not> (height = 0 \<or> t \<ge> height)" by simp
  with False show ?thesis
    using clip_width_mono [OF aligned_width_mono [OF assms(3)]]
    by (simp add: width_for_clip [OF assms(1,2)] aligned_width_def)
qed

section \<open>The ladder descends\<close>

definition rung_below :: "rung \<Rightarrow> rung \<Rightarrow> bool" where
  "rung_below a b \<longleftrightarrow> rung_width b \<le> rung_width a \<and> rung_height b \<le> rung_height a \<and> rung_fps b \<le> rung_fps a"

lemma rungs_for_sorted:
  assumes "width \<le> 2 ^ 26" "height \<le> 2 ^ 26"
  shows "sorted_wrt rung_below (rungs_for width height fps)"
  using width_for_mono [OF assms, of 360 480] width_for_mono [OF assms, of 480 540]
    width_for_mono [OF assms, of 360 540] width_for_le [of width height]
  by (auto simp: rungs_for_def rung_below_def geometry_heights_def)

lemma ladder_sorted:
  "width \<le> 2 ^ 26 \<Longrightarrow> height \<le> 2 ^ 26 \<Longrightarrow> sorted_wrt rung_below (ladder width height fps geometry)"
  by (simp add: ladder_def rungs_for_sorted sorted_wrt_filter)

lemma pixel_rate_below: "rung_below a b \<Longrightarrow> pixel_rate b \<le> pixel_rate a"
  unfolding pixel_rate_def rung_below_def by (intro fl_mono mult_mono) simp_all

lemma kbps_at_bpp_mono: "pixel_rate b \<le> pixel_rate a \<Longrightarrow> 0 \<le> bpp \<Longrightarrow> kbps_at_bpp b bpp \<le> kbps_at_bpp a bpp"
  unfolding kbps_at_bpp_def
  by (intro to_u_mono round_away_mono fl_mono divide_right_mono mult_right_mono) simp_all

lemma ladder_first: "ladder width height fps geometry \<noteq> [] \<and>
    ladder width height fps geometry ! 0 = \<lparr>rung_width = width, rung_height = height, rung_fps = fps\<rparr>"
  by (simp add: ladder_def rungs_for_def)

text \<open>The rungs of a stream go down: the first is the preset itself, each later one is no
  wider, no taller and no faster than the ones before, so the floor under which it is left
  (\<open>drop_kbps\<close>) is no higher; and a rung's width never exceeds the source's.\<close>

theorem ladder_descends:
  assumes "width \<le> 2 ^ 26" "height \<le> 2 ^ 26" "i < j" "j < length (ladder width height fps geometry)"
  shows "ladder width height fps geometry ! 0 = \<lparr>rung_width = width, rung_height = height, rung_fps = fps\<rparr> \<and>
    rung_below (ladder width height fps geometry ! i) (ladder width height fps geometry ! j) \<and>
    (\<forall>q. qc_rungs q = ladder width height fps geometry \<longrightarrow> drop_kbps j q \<le> drop_kbps i q)"
proof -
  have below: "rung_below (ladder width height fps geometry ! i) (ladder width height fps geometry ! j)"
    using ladder_sorted [OF assms(1,2)] assms(3,4) by (rule sorted_wrt_nth_less)
  then have "\<forall>q. qc_rungs q = ladder width height fps geometry \<longrightarrow> drop_kbps j q \<le> drop_kbps i q"
    by (auto simp: drop_kbps_def drop_bpp_def intro!: kbps_at_bpp_mono pixel_rate_below)
  with below ladder_first show ?thesis by simp
qed

lemma ladder_descends_witness:
  "rung_below (ladder 1920 1080 60 True ! 0) (ladder 1920 1080 60 True ! 4)"
  by (rule ladder_descends [where height = 1080, THEN conjunct2, THEN conjunct1])
     (simp_all add: ladder_def rungs_for_def low_fps_def geometry_heights_def)


section \<open>The encode size\<close>

lemma even_le_floor: "even g \<Longrightarrow> g \<le> (p :: nat) \<Longrightarrow> g \<le> p - p mod 2"
  by presburger

lemma pos_floor: "p \<noteq> 1 \<Longrightarrow> 0 < p \<Longrightarrow> 0 < (p :: nat) - p mod 2"
  by presburger

lemma lower_height_ends:
  assumes "lower_height cap_w cap_h fps w h = (w', h')" "w = width_for cap_w cap_h h" "even h"
  shows "(fits51 w' h' fps \<or> h' \<le> 2) \<and> h' \<le> h \<and> even h' \<and> (0 < h \<longrightarrow> 0 < h') \<and> w' = width_for cap_w cap_h h' \<and>
    (\<forall>g. even g \<longrightarrow> h' < g \<longrightarrow> g \<le> h \<longrightarrow> \<not> fits51 (width_for cap_w cap_h g) g fps)"
  using assms
proof (induction cap_w cap_h fps w h arbitrary: w' h' rule: lower_height.induct)
  case (1 cap_w cap_h fps w h)
  show ?case
  proof (cases "h > 2 \<and> \<not> fits51 w h fps")
    case False
    then have "w' = w \<and> h' = h"
      using "1.prems"(1) by (auto simp: lower_height.simps [of cap_w cap_h fps w h] split: if_splits)
    with False "1.prems" show ?thesis by auto
  next
    case True
    have "lower_height cap_w cap_h fps (width_for cap_w cap_h (h - 2)) (h - 2) = (w', h')"
      using "1.prems"(1) True by (simp add: lower_height.simps [of _ _ _ w h])
    moreover have "even (h - 2)" using "1.prems"(3) by simp
    ultimately have "(fits51 w' h' fps \<or> h' \<le> 2) \<and> h' \<le> h - 2 \<and> even h' \<and> (0 < h - 2 \<longrightarrow> 0 < h') \<and>
      w' = width_for cap_w cap_h h' \<and>
      (\<forall>g. even g \<longrightarrow> h' < g \<longrightarrow> g \<le> h - 2 \<longrightarrow> \<not> fits51 (width_for cap_w cap_h g) g fps)"
      by (rule "1.IH" [OF True _ refl])
    moreover have "0 < h - 2" using True by simp
    ultimately have IH: "(fits51 w' h' fps \<or> h' \<le> 2) \<and> h' \<le> h - 2 \<and> even h' \<and> 0 < h' \<and> w' = width_for cap_w cap_h h' \<and>
      (\<forall>g. even g \<longrightarrow> h' < g \<longrightarrow> g \<le> h - 2 \<longrightarrow> \<not> fits51 (width_for cap_w cap_h g) g fps)" by blast
    have "\<not> fits51 (width_for cap_w cap_h g) g fps" if "even g" "h' < g" "g \<le> h" for g
    proof (cases "g \<le> h - 2")
      case True
      with IH that show ?thesis by blast
    next
      case False
      with that(1,3) "1.prems"(3) have "g = h" by presburger
      with True "1.prems"(2) show ?thesis by simp
    qed
    then have tall: "\<forall>g. even g \<longrightarrow> h' < g \<longrightarrow> g \<le> h \<longrightarrow> \<not> fits51 (width_for cap_w cap_h g) g fps" by blast
    have "h' \<le> h" using IH by linarith
    with IH tall show ?thesis by blast
  qed
qed

text \<open>The encode size of a source has an even height of at most the preset's (where the preset
  lowers it) and the source's, a width of at most the source's, is empty only for a source under
  two pixels, and is the tallest such size that fits H.264 level 5.1: every even height between
  it and the start does not fit, and it fits itself unless the height is down to two.\<close>

theorem encode_size_is_tallest_fit:
  assumes "encode_size_for source_w source_h preset_h fps = (w, h)" "2 \<le> source_w" "2 \<le> source_h"
  defines "cap_w \<equiv> source_w - source_w mod 2" and "cap_h \<equiv> source_h - source_h mod 2"
  shows "even h \<and> h \<le> cap_h \<and> w \<le> cap_w \<and> (0 < preset_h \<longrightarrow> h \<le> preset_h) \<and> (preset_h \<noteq> 1 \<longrightarrow> 0 < h) \<and>
    (fits51 w h fps \<or> h \<le> 2) \<and>
    (\<forall>g. even g \<longrightarrow> h < g \<longrightarrow> g \<le> cap_h \<longrightarrow> (0 < preset_h \<longrightarrow> g \<le> preset_h) \<longrightarrow>
       \<not> fits51 (width_for cap_w cap_h g) g fps)"
proof -
  define h0 where "h0 = (if preset_h > 0 \<and> preset_h < cap_h then preset_h - preset_h mod 2 else cap_h)"
  have pos: "cap_w \<noteq> 0" "cap_h \<noteq> 0" using assms(2,3) by (auto simp: cap_w_def cap_h_def)
  have evens: "even cap_h" "even h0" by (auto simp: cap_h_def h0_def minus_mod_eq_mult_div)
  have run: "lower_height cap_w cap_h fps (width_for cap_w cap_h h0) h0 = (w, h)"
    using assms(1) pos unfolding encode_size_for_def Let_def cap_w_def [symmetric] cap_h_def [symmetric] h0_def
    by simp
  note e = lower_height_ends [OF run refl evens(2)]
  have "h0 \<le> cap_h" "0 < preset_h \<longrightarrow> h0 \<le> preset_h" by (auto simp: h0_def)
  moreover have "preset_h \<noteq> 1 \<longrightarrow> 0 < h0" using pos pos_floor [of preset_h] by (simp add: h0_def)
  moreover have "g \<le> h0" if "even g" "g \<le> cap_h" "0 < preset_h \<longrightarrow> g \<le> preset_h" for g
    using that by (auto simp: h0_def intro: even_le_floor)
  moreover have "w \<le> cap_w" using e width_for_le by metis
  ultimately show ?thesis using e by (meson le_trans)
qed

lemma encode_size_is_tallest_fit_witness:
  "\<exists>w h. encode_size_for 3840 2160 1080 60 = (w, h) \<and> even h \<and> h \<le> 2160"
proof -
  obtain w h where e: "encode_size_for 3840 2160 1080 60 = (w, h)" by fastforce
  from encode_size_is_tallest_fit [OF e] show ?thesis by (auto simp: e)
qed

section \<open>The controller keeps its bounds\<close>

datatype qc_event =
    Gcc_target nat | Remb_ceiling "nat option" | Load encoder_load | Top_size nat nat
  | Geometry bool | Update_bitrate instant | Tick_rung instant

fun qc_step :: "quality_controller \<Rightarrow> qc_event \<Rightarrow> quality_controller" where
  "qc_step q (Gcc_target bps) = set_gcc_target_bps bps q"
| "qc_step q (Remb_ceiling kbps) = set_remb_ceiling_kbps kbps q"
| "qc_step q (Load l) = set_encoder_load l q"
| "qc_step q (Top_size w h) = snd (set_top_size w h q)"
| "qc_step q (Geometry on) = with_geometry_rungs on q"
| "qc_step q (Update_bitrate now) = snd (update_bitrate now q)"
| "qc_step q (Tick_rung now) = snd (tick_rung now q)"

definition qc_ok :: "quality_controller \<Rightarrow> bool" where
  "qc_ok q \<longleftrightarrow> qc_rung q < length (qc_rungs q) \<and> floor_kbps \<le> qc_bitrate_kbps q \<and>
     qc_bitrate_kbps q \<le> qc_preset_kbps q \<and>
     (\<exists>w h fps. qc_rungs q = ladder w h fps (qc_geometry q))"

lemma desired_bounds: "floor_kbps \<le> qc_preset_kbps q \<Longrightarrow> floor_kbps \<le> desired_kbps q \<and> desired_kbps q \<le> qc_preset_kbps q"
  by (auto simp: desired_kbps_def Let_def split: option.splits)

lemma qc_ok_ladder:
  "qc_ok q \<Longrightarrow> qc_ok (q\<lparr>qc_geometry := g, qc_rungs := ladder w h fps g,
     qc_rung := min (qc_rung q) (length (ladder w h fps g) - 1)\<rparr>)"
proof -
  assume ok: "qc_ok q"
  have "0 < length (ladder w h fps g)" using ladder_first [of w h fps g] by simp
  then have "min (qc_rung q) (length (ladder w h fps g) - 1) < length (ladder w h fps g)" by linarith
  with ok show ?thesis by (auto simp: qc_ok_def)
qed

lemma qc_ok_set_top_size: "qc_ok q \<Longrightarrow> qc_ok (snd (set_top_size w h q))"
proof -
  assume ok: "qc_ok q"
  have "qc_ok (q\<lparr>qc_rungs := ladder w h (rung_fps (qc_rungs q ! 0)) (qc_geometry q),
     qc_rung := min (qc_rung q) (length (ladder w h (rung_fps (qc_rungs q ! 0)) (qc_geometry q)) - 1)\<rparr>)"
    using qc_ok_ladder [OF ok, where g = "qc_geometry q" and w = w and h = h] by simp
  with ok show ?thesis by (simp add: set_top_size_def Let_def)
qed

lemma qc_ok_update: "qc_ok q \<Longrightarrow> qc_ok (snd (update_bitrate now q))"
  using desired_bounds [of q] by (auto simp: update_bitrate_def Let_def qc_ok_def)

lemma qc_ok_tick: "qc_ok q \<Longrightarrow> qc_ok (snd (tick_rung now q))"
  by (auto simp: tick_rung_def Let_def qc_ok_def switch_to_def judges_down_def judges_up_def)

lemma qc_ok_step: "qc_ok q \<Longrightarrow> qc_ok (qc_step q e)"
proof (cases e)
  case (Geometry on)
  assume "qc_ok q"
  with qc_ok_ladder [of q, where g = on] show ?thesis by (simp add: Geometry with_geometry_rungs_def Let_def)
qed (simp_all add: qc_ok_set_top_size qc_ok_update qc_ok_tick,
    simp_all add: qc_ok_def set_gcc_target_bps_def set_remb_ceiling_kbps_def set_encoder_load_def)

lemma qc_ok_new: "qc_ok (qc_new env w h fps preset)"
proof -
  have "wrap_u u32_max (p * 60) div 100 \<le> p" for p
  proof -
    have "wrap_u u32_max (p * 60) \<le> p * 60" by (simp add: wrap_u_def)
    then have "wrap_u u32_max (p * 60) div 100 \<le> p * 60 div 100" by (rule div_le_mono)
    then show ?thesis by simp
  qed
  then show ?thesis using ladder_first
    by (auto simp: qc_ok_def qc_new_def Let_def start_percent_def)
qed

interpretation qc: machine qc_step qc_ok
  by unfold_locales (rule qc_ok_step)

text \<open>C30: whatever the inputs and the ticks of the controller are, the current rung is one of the
  stream's rungs, the encoder bitrate stays between 300 kb/s and the preset, and so does what the
  inputs allow next, whatever estimate and REMB they hold.\<close>

theorem controller_stays_in_bounds:
  "let q = foldl qc_step (qc_new env w h fps preset) es in
     qc_rung q < length (qc_rungs q) \<and> 300 \<le> qc_bitrate_kbps q \<and> qc_bitrate_kbps q \<le> qc_preset_kbps q \<and>
     300 \<le> desired_kbps q \<and> desired_kbps q \<le> qc_preset_kbps q"
proof -
  have "qc_ok (foldl qc_step (qc_new env w h fps preset) es)" by (rule qc.run_inv [OF qc_ok_new])
  then show ?thesis using desired_bounds by (auto simp: qc_ok_def floor_kbps_def Let_def)
qed


section \<open>The bitrate rule\<close>

text \<open>One update of the bitrate: it changes nothing or applies exactly what the inputs allow; a
  decrease of five percent or more applies at once; an increase never comes within 250 ms of the
  last change; and once 250 ms are over, the bitrate is within five percent of what the inputs
  allow, and at the preset when they allow the preset.\<close>

theorem bitrate_update_rule:
  assumes "update_bitrate now q = (out, q')"
  shows "(out = None \<longrightarrow> q' = q) \<and>
    (\<forall>k. out = Some k \<longrightarrow> k = desired_kbps q \<and> qc_bitrate_kbps q' = k \<and> qc_last_bitrate_change q' = Some now \<and>
       (qc_bitrate_kbps q < k \<longrightarrow> (\<forall>t. qc_last_bitrate_change q = Some t \<longrightarrow> millis 250 \<le> now - t))) \<and>
    (desired_kbps q < qc_bitrate_kbps q \<longrightarrow>
       qc_bitrate_kbps q * 5 \<le> (qc_bitrate_kbps q - desired_kbps q) * 100 \<longrightarrow> out = Some (desired_kbps q)) \<and>
    ((\<forall>t. qc_last_bitrate_change q = Some t \<longrightarrow> millis 250 \<le> now - t) \<longrightarrow>
       (abs_diff (desired_kbps q) (qc_bitrate_kbps q') * 100 < qc_bitrate_kbps q' * 5 \<or>
        desired_kbps q = qc_bitrate_kbps q') \<and>
       (desired_kbps q = qc_preset_kbps q \<longrightarrow> qc_bitrate_kbps q \<le> qc_preset_kbps q \<longrightarrow>
          qc_bitrate_kbps q' = qc_preset_kbps q))"
proof -
  let ?d = "desired_kbps q" and ?b = "qc_bitrate_kbps q"
  let ?early = "case qc_last_bitrate_change q of Some t \<Rightarrow> now - t < millis 250 | None \<Rightarrow> False"
  define held where "held \<longleftrightarrow> ?d = ?b \<or>
    (if ?d < ?b then (?b - ?d) * 100 < ?b * 5
     else ?early \<or> ((?d - ?b) * 100 < ?b * 5 \<and> ?d \<noteq> qc_preset_kbps q))"
  have u: "update_bitrate now q = (if held then (None, q)
      else (Some ?d, q\<lparr>qc_bitrate_kbps := ?d, qc_last_bitrate_change := Some now\<rparr>))"
    by (simp add: update_bitrate_def Let_def outside_dead_band_def bitrate_dead_band_percent_def
        bitrate_change_min_interval_def held_def abs_diff_def not_le split: option.splits)
  show ?thesis
  proof (cases held)
    case True
    with u assms have "out = None" "q' = q" by simp_all
    moreover have "\<not> (?d < ?b \<and> ?b * 5 \<le> (?b - ?d) * 100)" using True by (auto simp: held_def)
    moreover have "(abs_diff ?d ?b * 100 < ?b * 5 \<or> ?d = ?b) \<and>
        (?d = qc_preset_kbps q \<longrightarrow> ?b \<le> qc_preset_kbps q \<longrightarrow> ?b = qc_preset_kbps q)"
      if "\<forall>t. qc_last_bitrate_change q = Some t \<longrightarrow> millis 250 \<le> now - t"
    proof -
      have "\<not> ?early" using that by (auto split: option.splits)
      with True show ?thesis by (auto simp: held_def abs_diff_def split: if_splits)
    qed
    ultimately show ?thesis by simp
  next
    case False
    with u assms have "out = Some ?d" "q' = q\<lparr>qc_bitrate_kbps := ?d, qc_last_bitrate_change := Some now\<rparr>"
      by simp_all
    moreover have "millis 250 \<le> now - t" if "?b < ?d" "qc_last_bitrate_change q = Some t" for t
      using False that by (simp add: held_def not_less)
    ultimately show ?thesis by simp
  qed
qed

definition sample_controller :: quality_controller where
  "sample_controller = \<lparr>qc_preset_kbps = 8000, qc_rungs = ladder 1920 1080 60 True, qc_rung = 1,
     qc_geometry = True, qc_gcc_kbps = Some 4000, qc_remb_kbps = None, qc_overloaded = False,
     qc_bitrate_kbps = 8000, qc_last_bitrate_change = None, qc_below_since = None,
     qc_above_since = Some 0, qc_last_switch = None\<rparr>"

lemma bitrate_update_rule_witness:
  "fst (update_bitrate 7 sample_controller) = Some 4000"
proof -
  obtain out q' where u: "update_bitrate 7 sample_controller = (out, q')" by fastforce
  have "desired_kbps sample_controller = 4000"
    by (simp add: sample_controller_def desired_kbps_def floor_kbps_def)
  with bitrate_update_rule [OF u, THEN conjunct2, THEN conjunct2, THEN conjunct1] u show ?thesis
    by (simp add: sample_controller_def)
qed

section \<open>A restored rung holds\<close>

lemma mul_11_div_10: "n \<le> n * 11 div (10 :: nat)"
  by simp

text \<open>A step up cannot bounce: the bitrate at which the controller goes to the rung above is at
  least that rung's own floor, so with the same bitrate and no overload the next tick does not
  judge it down; the step is by one rung, to an allocation for that rung.\<close>

theorem restored_rung_holds:
  assumes "judges_up q" "\<not> judges_down q" "tick_rung now q = (u, q')" "up_rung u \<noteq> None"
    and "drop_kbps (qc_rung q - 1) q * 11 \<le> u32_max"
  shows "qc_rung q' = qc_rung q - 1 \<and> up_rung u = Some (qc_rungs q ! qc_rung q') \<and>
    up_allocation_kbps u = Some (allocation_kbps q') \<and> \<not> judges_down q'"
proof -
  define q1 where "q1 = q\<lparr>qc_below_since := None, qc_above_since := Some (get_or_insert now (qc_above_since q))\<rparr>"
  have sw: "(u, q') = switch_to (qc_rung q - 1) now q1"
    using assms by (auto simp: tick_rung_def Let_def q1_def no_update_def split: if_splits)
  have q': "qc_rung q' = qc_rung q - 1" "qc_rungs q' = qc_rungs q" "qc_bitrate_kbps q' = qc_bitrate_kbps q"
      "qc_overloaded q' = qc_overloaded q" "up_rung u = Some (qc_rungs q ! (qc_rung q - 1))"
      "up_allocation_kbps u = Some (allocation_kbps q')"
    using sw by (simp_all add: switch_to_def Let_def q1_def)
  have "drop_kbps (qc_rung q - 1) q \<le> restore_kbps (qc_rung q - 1) q"
    using assms(5) mul_11_div_10 [of "drop_kbps (qc_rung q - 1) q"]
    by (simp add: restore_kbps_def Let_def le_max_iff_disj)
  with assms(1) have "\<not> judges_down q'"
    by (simp add: judges_down_def judges_up_def q' drop_kbps_def)
  with q' show "qc_rung q' = qc_rung q - 1 \<and> up_rung u = Some (qc_rungs q ! qc_rung q') \<and>
    up_allocation_kbps u = Some (allocation_kbps q') \<and> \<not> judges_down q'" by simp
qed

lemma sample_drop_bpp: "drop_bpp = 7381975 / 134217728"
  unfolding drop_bpp_def by code_simp

lemma sample_restore_bpp: "restore_bpp = 5033165 / 67108864"
  unfolding restore_bpp_def by code_simp

lemma sample_floors:
  "\<lfloor>f64 (f64 (124416000 * (7381975/134217728)) / 1000) + 1/2\<rfloor> = 6843"
  "\<lfloor>f64 (f64 (124416000 * (5033165/67108864)) / 1000) + 1/2\<rfloor> = 9331"
  "\<lfloor>f64 (f64 (62208000 * (7381975/134217728)) / 1000) + 1/2\<rfloor> = 3421"
  by code_simp+

lemma sample_pixel_rates:
  "pixel_rate \<lparr>rung_width = 1920, rung_height = 1080, rung_fps = 60\<rparr> = 124416000"
  "pixel_rate \<lparr>rung_width = 1920, rung_height = 1080, rung_fps = 30\<rparr> = 62208000"
  using fl_exact_nat [of "1920*1080" 53] fl_exact_nat [of "1920*1080*60" 53]
    fl_exact_nat [of "1920*1080*30" 53] by (simp_all add: pixel_rate_def)

lemma sample_kbps:
  "kbps_at_bpp \<lparr>rung_width = 1920, rung_height = 1080, rung_fps = 60\<rparr> drop_bpp = 6843"
  "kbps_at_bpp \<lparr>rung_width = 1920, rung_height = 1080, rung_fps = 60\<rparr> restore_bpp = 9331"
  "kbps_at_bpp \<lparr>rung_width = 1920, rung_height = 1080, rung_fps = 30\<rparr> drop_bpp = 3421"
  unfolding kbps_at_bpp_def sample_pixel_rates sample_drop_bpp sample_restore_bpp to_u_def
    round_away_def sample_floors by (simp_all add: u32_max_def)

lemma sample_rungs:
  "ladder 1920 1080 60 True ! 0 = \<lparr>rung_width = 1920, rung_height = 1080, rung_fps = 60\<rparr>"
  "ladder 1920 1080 60 True ! 1 = \<lparr>rung_width = 1920, rung_height = 1080, rung_fps = 30\<rparr>"
  "length (ladder 1920 1080 60 True) = 5"
  by (simp_all add: ladder_def rungs_for_def low_fps_def geometry_heights_def)

lemma sample_judges: "judges_up sample_controller" "\<not> judges_down sample_controller"
    "up_rung (fst (tick_rung (secs 20) sample_controller)) \<noteq> None" "drop_kbps 0 sample_controller * 11 \<le> u32_max"
proof -
  have k: "drop_kbps 0 sample_controller = 6843" "drop_kbps (Suc 0) sample_controller = 3421"
      "restore_kbps 0 sample_controller = 7600"
    using sample_rungs sample_kbps
    by (simp_all add: drop_kbps_def restore_kbps_def Let_def sample_controller_def u32_max_def
        restore_preset_percent_def)
  then show u: "judges_up sample_controller" and d: "\<not> judges_down sample_controller"
    and "drop_kbps 0 sample_controller * 11 \<le> u32_max"
    by (simp_all add: judges_up_def judges_down_def sample_controller_def u32_max_def)
  then show "up_rung (fst (tick_rung (secs 20) sample_controller)) \<noteq> None"
    by (simp add: tick_rung_def Let_def switch_to_def cooled_down_def up_dwell_def get_or_insert_def
        sample_controller_def secs_def)
qed

lemma restored_rung_holds_witness:
  "\<not> judges_down (snd (tick_rung (secs 20) sample_controller))"
proof -
  obtain u q' where t: "tick_rung (secs 20) sample_controller = (u, q')" by fastforce
  have "\<not> judges_down q'"
    by (rule restored_rung_holds [OF sample_judges(1,2) t, THEN conjunct2, THEN conjunct2, THEN conjunct2])
      (use sample_judges(3,4) t in \<open>simp_all add: sample_controller_def\<close>)
  with t show ?thesis by simp
qed


section \<open>When a rung changes\<close>

text \<open>What each tick of a run judged, and whether it switched.\<close>

datatype verdict = Down | Up | Hold

definition verdict :: "quality_controller \<Rightarrow> verdict" where
  "verdict q = (if judges_down q then Down else if judges_up q then Up else Hold)"

definition qc_entry :: "quality_controller \<Rightarrow> qc_event \<Rightarrow> (instant \<times> verdict \<times> bool) list" where
  "qc_entry q e = (case e of Tick_rung now \<Rightarrow> [(now, verdict q, up_rung (fst (tick_rung now q)) \<noteq> None)] | _ \<Rightarrow> [])"

fun qc_trace :: "quality_controller \<Rightarrow> qc_event list \<Rightarrow> (instant \<times> verdict \<times> bool) list" where
  "qc_trace q [] = []"
| "qc_trace q (e # es) = qc_entry q e @ qc_trace (qc_step q e) es"

lemma qc_trace_append: "qc_trace q (es @ fs) = qc_trace q es @ qc_trace (foldl qc_step q es) fs"
  by (induction es arbitrary: q) auto

text \<open>The trace ends in an unbroken series of one verdict, without a switch, since a time.\<close>

definition held_since :: "verdict \<Rightarrow> instant \<Rightarrow> (instant \<times> verdict \<times> bool) list \<Rightarrow> bool" where
  "held_since v t tr \<longleftrightarrow> (\<exists>us vs. tr = us @ (t, v, False) # vs \<and> (\<forall>(_, v', s) \<in> set vs. v' = v \<and> \<not> s))"

definition last_switch_of :: "(instant \<times> verdict \<times> bool) list \<Rightarrow> instant option" where
  "last_switch_of tr = map_option fst (List.find (\<lambda>(_, _, s). s) (rev tr))"

definition qc_clocks :: "quality_controller \<Rightarrow> (instant \<times> verdict \<times> bool) list \<Rightarrow> bool" where
  "qc_clocks q tr \<longleftrightarrow>
     (\<forall>t. qc_below_since q = Some t \<longrightarrow> held_since Down t tr) \<and>
     (\<forall>t. qc_above_since q = Some t \<longrightarrow> held_since Up t tr) \<and>
     qc_last_switch q = last_switch_of tr"

lemma held_since_snoc: "held_since v t tr \<Longrightarrow> held_since v t (tr @ [(now, v, False)])"
  unfolding held_since_def by (elim exE conjE) (rule exI, rule exI, rule conjI, simp, auto)

lemma held_since_start: "held_since v now (tr @ [(now, v, False)])"
  unfolding held_since_def by (intro exI [of _ tr] exI [of _ "[]"]) simp

lemma last_switch_snoc: "last_switch_of (tr @ [(now, v, s)]) = (if s then Some now else last_switch_of tr)"
  by (simp add: last_switch_of_def)

text \<open>What a tick does to the clocks, and what it takes to switch.\<close>

lemma tick_rung_down:
  assumes "judges_down q" and t_def: "t = get_or_insert now (qc_below_since q)"
  shows "if 2 * 1000000000 \<le> now - t \<and> cooled_down now q
    then up_rung (fst (tick_rung now q)) \<noteq> None \<and> qc_below_since (snd (tick_rung now q)) = None \<and>
      qc_above_since (snd (tick_rung now q)) = None \<and> qc_last_switch (snd (tick_rung now q)) = Some now
    else up_rung (fst (tick_rung now q)) = None \<and> qc_below_since (snd (tick_rung now q)) = Some t \<and>
      qc_above_since (snd (tick_rung now q)) = None \<and> qc_last_switch (snd (tick_rung now q)) = qc_last_switch q"
  using assms by (auto simp: tick_rung_def Let_def cooled_down_def switch_to_def no_update_def
      down_dwell_def secs_def)

lemma tick_rung_up:
  assumes "\<not> judges_down q" "judges_up q" and t_def: "t = get_or_insert now (qc_above_since q)"
  shows "if 15 * 1000000000 \<le> now - t \<and> cooled_down now q
    then up_rung (fst (tick_rung now q)) \<noteq> None \<and> qc_below_since (snd (tick_rung now q)) = None \<and>
      qc_above_since (snd (tick_rung now q)) = None \<and> qc_last_switch (snd (tick_rung now q)) = Some now
    else up_rung (fst (tick_rung now q)) = None \<and> qc_above_since (snd (tick_rung now q)) = Some t \<and>
      qc_below_since (snd (tick_rung now q)) = None \<and> qc_last_switch (snd (tick_rung now q)) = qc_last_switch q"
  using assms by (auto simp: tick_rung_def Let_def cooled_down_def switch_to_def no_update_def
      up_dwell_def secs_def)

lemma tick_rung_hold:
  assumes "\<not> judges_down q" "\<not> judges_up q"
  shows "up_rung (fst (tick_rung now q)) = None \<and> qc_above_since (snd (tick_rung now q)) = None \<and>
      qc_below_since (snd (tick_rung now q)) = None \<and> qc_last_switch (snd (tick_rung now q)) = qc_last_switch q"
  using assms by (simp add: tick_rung_def no_update_def)

definition switch_ok :: "(instant \<times> verdict \<times> bool) list \<Rightarrow> instant \<Rightarrow> verdict \<Rightarrow> bool" where
  "switch_ok past now v \<longleftrightarrow>
     (v = Down \<and> (\<exists>t. held_since Down t past \<and> 2 * 1000000000 \<le> now - t) \<or>
      v = Up \<and> (\<exists>t. held_since Up t past \<and> 15 * 1000000000 \<le> now - t)) \<and>
     (\<forall>t. last_switch_of past = Some t \<longrightarrow> 10 * 1000000000 \<le> now - t)"

lemma get_or_insert_held:
  assumes "\<And>t. o' = Some t \<Longrightarrow> held_since v t tr"
  shows "held_since v (get_or_insert now o') (tr @ [(now, v, False)])"
    and "0 < n \<Longrightarrow> n \<le> now - get_or_insert now o' \<Longrightarrow> \<exists>t. held_since v t tr \<and> n \<le> now - t"
  using assms held_since_start held_since_snoc by (auto simp: get_or_insert_def split: option.splits)

lemma qc_clocks_tick:
  assumes "qc_clocks q tr" and s_def: "s \<longleftrightarrow> up_rung (fst (tick_rung now q)) \<noteq> None"
  shows "qc_clocks (snd (tick_rung now q)) (tr @ [(now, verdict q, s)]) \<and> (s \<longrightarrow> switch_ok tr now (verdict q))"
proof -
  have cool: "cooled_down now q \<Longrightarrow> \<forall>t. last_switch_of tr = Some t \<longrightarrow> 10 * 1000000000 \<le> now - t"
    using assms by (auto simp: cooled_down_def qc_clocks_def switch_cooldown_def secs_def)
  consider (d) "judges_down q" | (u) "\<not> judges_down q" "judges_up q" | (h) "\<not> judges_down q" "\<not> judges_up q"
    by blast
  then show ?thesis
  proof cases
    case d
    have b: "\<And>t. qc_below_since q = Some t \<Longrightarrow> held_since Down t tr" using assms by (simp add: qc_clocks_def)
    define t where "t = get_or_insert now (qc_below_since q)"
    have g: "held_since Down t (tr @ [(now, Down, False)])"
      unfolding t_def by (rule get_or_insert_held(1) [OF b])
    have g': "\<exists>t. held_since Down t tr \<and> 2 * 1000000000 \<le> now - t" if "2 * 1000000000 \<le> now - t"
      using that unfolding t_def by (intro get_or_insert_held(2) [OF b]) simp_all
    from tick_rung_down [OF d t_def] d cool g g' assms show ?thesis
      by (auto simp: qc_clocks_def verdict_def last_switch_snoc switch_ok_def split: if_splits)
  next
    case u
    have b: "\<And>t. qc_above_since q = Some t \<Longrightarrow> held_since Up t tr" using assms by (simp add: qc_clocks_def)
    define t where "t = get_or_insert now (qc_above_since q)"
    have g: "held_since Up t (tr @ [(now, Up, False)])"
      unfolding t_def by (rule get_or_insert_held(1) [OF b])
    have g': "\<exists>t. held_since Up t tr \<and> 15 * 1000000000 \<le> now - t" if "15 * 1000000000 \<le> now - t"
      using that unfolding t_def by (intro get_or_insert_held(2) [OF b]) simp_all
    from tick_rung_up [OF u t_def] u cool g g' assms show ?thesis
      by (auto simp: qc_clocks_def verdict_def last_switch_snoc switch_ok_def split: if_splits)
  next
    case h
    with tick_rung_hold [OF h, of now] assms show ?thesis
      by (simp add: qc_clocks_def verdict_def last_switch_snoc)
  qed
qed

lemma qc_step_clocks:
  assumes "\<And>now. e \<noteq> Tick_rung now"
  shows "qc_below_since (qc_step q e) = qc_below_since q" "qc_above_since (qc_step q e) = qc_above_since q"
    "qc_last_switch (qc_step q e) = qc_last_switch q"
  using assms by (cases e; auto simp: set_gcc_target_bps_def set_remb_ceiling_kbps_def
      set_encoder_load_def set_top_size_def with_geometry_rungs_def update_bitrate_def Let_def)+

lemma qc_trace_clocks:
  assumes "qc_clocks q []"
  shows "qc_clocks (foldl qc_step q es) (qc_trace q es) \<and>
    (\<forall>past now v rest. qc_trace q es = past @ (now, v, True) # rest \<longrightarrow> switch_ok past now v)"
proof (induction es rule: rev_induct)
  case Nil
  then show ?case using assms by simp
next
  case (snoc e es)
  define q1 where "q1 = foldl qc_step q es"
  have tr: "qc_trace q (es @ [e]) = qc_trace q es @ qc_entry q1 e" by (simp add: qc_trace_append q1_def)
  show ?case
  proof (cases "\<exists>now. e = Tick_rung now")
    case True
    then obtain now where e: "e = Tick_rung now" by blast
    define s where "s \<longleftrightarrow> up_rung (fst (tick_rung now q1)) \<noteq> None"
    have tr': "qc_trace q (es @ [e]) = qc_trace q es @ [(now, verdict q1, s)]"
      using tr by (simp only: qc_entry_def e s_def qc_event.case)
    from qc_clocks_tick [of q1 "qc_trace q es" s now] s_def snoc.IH
    have k: "qc_clocks (snd (tick_rung now q1)) (qc_trace q es @ [(now, verdict q1, s)])"
        "s \<longrightarrow> switch_ok (qc_trace q es) now (verdict q1)" by (auto simp: q1_def)
    have "switch_ok past now' v" if split: "qc_trace q es @ [(now, verdict q1, s)] = past @ (now', v, True) # rest"
      for past now' v rest
    proof (cases rest rule: rev_cases)
      case Nil
      with split k(2) show ?thesis by simp
    next
      case (snoc rest' x)
      with split have "qc_trace q es = past @ (now', v, True) # rest'" by simp
      with \<open>qc_clocks (foldl qc_step q es) (qc_trace q es) \<and> _\<close> show ?thesis by blast
    qed
    with k(1) tr' e show ?thesis by (simp add: q1_def)
  next
    case False
    then have "qc_entry q1 e = []" by (simp add: qc_entry_def split: qc_event.splits)
    with False snoc.IH qc_step_clocks [of e q1] tr show ?thesis by (simp add: qc_clocks_def q1_def)
  qed
qed

text \<open>C16: in every run of the controller, a tick changes the rung only after an unbroken series of
  ticks that judge it the same way, at least two seconds long for a step down and fifteen for a
  step up, none of them a switch, and never within ten seconds of the switch before.\<close>

theorem rung_switches_dwell:
  assumes "qc_trace (qc_new env w h fps preset) es = past @ (now, v, True) # rest"
  shows "(v = Down \<and> (\<exists>t. held_since Down t past \<and> 2 * 1000000000 \<le> now - t) \<or>
          v = Up \<and> (\<exists>t. held_since Up t past \<and> 15 * 1000000000 \<le> now - t)) \<and>
         (\<forall>t. last_switch_of past = Some t \<longrightarrow> 10 * 1000000000 \<le> now - t)"
proof -
  have "qc_clocks (qc_new env w h fps preset) []"
    by (simp add: qc_clocks_def qc_new_def Let_def last_switch_of_def)
  from qc_trace_clocks [OF this] assms show ?thesis unfolding switch_ok_def by blast
qed

definition sample_start :: quality_controller where
  "sample_start = qc_new None 1280 720 60 5000"

lemma sample_start_simps:
  "qc_rung sample_start = 0" "length (qc_rungs sample_start) = 5" "qc_bitrate_kbps sample_start = 3000"
  "qc_below_since sample_start = None" "qc_above_since sample_start = None" "qc_last_switch sample_start = None"
  "qc_rungs sample_start ! 0 = \<lparr>rung_width = 1280, rung_height = 720, rung_fps = 60\<rparr>"
  by (simp_all add: sample_start_def qc_new_def Let_def ladder_def rungs_for_def geometry_rungs_enabled_def
      low_fps_def geometry_heights_def start_percent_def floor_kbps_def u32_max_def)

lemma sample_start_floor: "kbps_at_bpp \<lparr>rung_width = 1280, rung_height = 720, rung_fps = 60\<rparr> drop_bpp = 3041"
proof -
  have p: "pixel_rate \<lparr>rung_width = 1280, rung_height = 720, rung_fps = 60\<rparr> = 55296000"
    using fl_exact_nat [of "1280*720" 53] fl_exact_nat [of "1280*720*60" 53] by (simp add: pixel_rate_def)
  have f: "\<lfloor>f64 (f64 (55296000 * (7381975/134217728)) / 1000) + 1/2\<rfloor> = 3041" by code_simp
  show ?thesis
    unfolding kbps_at_bpp_def p sample_drop_bpp to_u_def round_away_def f by (simp add: u32_max_def)
qed

lemma sample_start_trace:
  "qc_trace sample_start [Tick_rung 0, Tick_rung (secs 2)] = [(0, Down, False)] @ (secs 2, Down, True) # []"
proof -
  have d: "judges_down sample_start"
    by (simp add: judges_down_def sample_start_simps drop_kbps_def sample_start_floor)
  have t1: "tick_rung 0 sample_start = (no_update, sample_start\<lparr>qc_below_since := Some 0\<rparr>)"
    using d by (simp add: tick_rung_def Let_def get_or_insert_def sample_start_simps down_dwell_def secs_def)
  let ?q = "sample_start\<lparr>qc_below_since := Some 0\<rparr>"
  have d2: "judges_down ?q" using d by (simp add: judges_down_def drop_kbps_def)
  then have t2: "up_rung (fst (tick_rung (secs 2) ?q)) \<noteq> None"
    by (simp add: tick_rung_def Let_def get_or_insert_def down_dwell_def cooled_down_def sample_start_simps switch_to_def)
  from d d2 t1 t2 show ?thesis by (simp add: qc_entry_def verdict_def no_update_def)
qed

lemma rung_switches_dwell_witness:
  "\<exists>t. held_since Down t [(0, Down, False)] \<and> 2 * 1000000000 \<le> secs 2 - t"
  using rung_switches_dwell [OF sample_start_trace [unfolded sample_start_def]] by simp

end
