(* ===== verification/Stream_Session.thy ===== *)
theory Stream_Session
  imports Machine Quality_Controller
begin

text \<open>
  The small parts of a stream session: the presets and the capture target (\<open>stream/config.rs\<close>),
  the pause and idle messages and the host's pause state (\<open>stream/pause.rs\<close>), the members of the
  session as a viewer knows them (\<open>stream/members.rs\<close>), the announced format of the watched
  stream (\<open>stream/viewer_format.rs\<close>) and the pacing target (\<open>stream/pacer.rs\<close>).
\<close>

section \<open>Presets and the capture target\<close>

datatype codec = H264 | Av1
datatype quality_preset = Ultra | High | Medium | Low | Potato

record preset_params =
  pp_width :: nat
  pp_height :: nat
  pp_fps :: nat
  pp_bitrate_kbps :: nat

fun preset_values :: "quality_preset \<Rightarrow> codec \<Rightarrow> preset_params" where
  "preset_values Ultra c = \<lparr>pp_width = 1920, pp_height = 1080, pp_fps = 60,
     pp_bitrate_kbps = (case c of H264 \<Rightarrow> 8000 | Av1 \<Rightarrow> 5000)\<rparr>"
| "preset_values High c = \<lparr>pp_width = 1920, pp_height = 1080, pp_fps = 30,
     pp_bitrate_kbps = (case c of H264 \<Rightarrow> 4500 | Av1 \<Rightarrow> 3000)\<rparr>"
| "preset_values Medium c = \<lparr>pp_width = 1280, pp_height = 720, pp_fps = 60,
     pp_bitrate_kbps = (case c of H264 \<Rightarrow> 5000 | Av1 \<Rightarrow> 2500)\<rparr>"
| "preset_values Low c = \<lparr>pp_width = 1280, pp_height = 720, pp_fps = 30,
     pp_bitrate_kbps = (case c of H264 \<Rightarrow> 3000 | Av1 \<Rightarrow> 1500)\<rparr>"
| "preset_values Potato c = \<lparr>pp_width = 854, pp_height = 480, pp_fps = 30, pp_bitrate_kbps = 1500\<rparr>"

record stream_config =
  sc_width :: nat
  sc_height :: nat
  sc_fps :: nat
  sc_bitrate_kbps :: nat
  sc_codec :: codec
  sc_preset :: quality_preset
  sc_capture_desc :: string

definition from_preset :: "quality_preset \<Rightarrow> codec \<Rightarrow> stream_config" where
  "from_preset p c =
     (let v = preset_values p c
      in \<lparr>sc_width = pp_width v, sc_height = pp_height v, sc_fps = pp_fps v,
          sc_bitrate_kbps = pp_bitrate_kbps v, sc_codec = c, sc_preset = p, sc_capture_desc = ''''\<rparr>)"

definition min_bitrate_kbps :: "codec \<Rightarrow> nat" where
  "min_bitrate_kbps c = floor_kbps"

datatype capture_target = Capture_monitor nat | Capture_window nat | Capture_process nat

text \<open>The errors are the texts of the code; \<open>CHR 0x27\<close> is its quote.\<close>

definition quoted :: "string \<Rightarrow> string" where
  "quoted s = CHR 0x27 # s @ [CHR 0x27]"

definition capture_resolve ::
  "string \<Rightarrow> nat option \<Rightarrow> nat option \<Rightarrow> nat option \<Rightarrow> string + capture_target" where
  "capture_resolve mode monitor_index hwnd pid =
     (if mode = ''process'' \<or> mode = ''game''
      then (case pid of
              Some p \<Rightarrow> if p \<noteq> 0 then Inr (Capture_process p)
                else Inl (''capture mode '' @ quoted mode @ '' selected without a process id'')
            | None \<Rightarrow> Inl (''capture mode '' @ quoted mode @ '' selected without a process id''))
      else if mode = ''window''
      then (case hwnd of
              Some h \<Rightarrow> if h \<noteq> 0 then Inr (Capture_window h)
                else Inl (''capture mode '' @ quoted ''window'' @ '' selected without a window handle'')
            | None \<Rightarrow> Inl (''capture mode '' @ quoted ''window'' @ '' selected without a window handle''))
      else if mode = ''monitor''
      then Inr (Capture_monitor (case monitor_index of Some i \<Rightarrow> i | None \<Rightarrow> 0))
      else Inl (''unknown capture mode '' @ quoted mode))"

fun show_hex :: "nat \<Rightarrow> string" where
  "show_hex n =
     (if n < 16 then [if n < 10 then char_of (48 + n) else char_of (87 + n)]
      else show_hex (n div 16) @
        [if n mod 16 < 10 then char_of (48 + n mod 16) else char_of (87 + n mod 16)])"

declare show_hex.simps [simp del]

fun capture_describe :: "capture_target \<Rightarrow> string" where
  "capture_describe (Capture_monitor i) = ''monitor index='' @ show_nat i"
| "capture_describe (Capture_window h) = ''window hwnd=0x'' @ show_hex h"
| "capture_describe (Capture_process p) = ''process pid='' @ show_nat p"

fun mode_label :: "capture_target \<Rightarrow> string" where
  "mode_label (Capture_monitor i) = ''monitor''"
| "mode_label (Capture_window h) = ''window''"
| "mode_label (Capture_process p) = ''process''"

section \<open>Pause and idle\<close>

definition pause_message_type :: nat where "pause_message_type = 0x04"
definition pause_message_subtype :: nat where "pause_message_subtype = 0x03"
definition idle_message_subtype :: nat where "idle_message_subtype = 0x04"
definition pause_enter_unavailable_ticks :: nat where "pause_enter_unavailable_ticks = 3"

definition u8_from :: "bool \<Rightarrow> nat" where
  "u8_from b = (if b then 1 else 0)"

definition idle_message :: "bool \<Rightarrow> nat list" where
  "idle_message idle = [pause_message_type, idle_message_subtype, u8_from idle]"

definition parse_idle_message :: "nat list \<Rightarrow> bool option" where
  "parse_idle_message data =
     (case data of
        [t, s, idle] \<Rightarrow> if t = pause_message_type \<and> s = idle_message_subtype then Some (idle \<noteq> 0) else None
      | _ \<Rightarrow> None)"

definition pause_message :: "bool \<Rightarrow> nat list" where
  "pause_message paused = [pause_message_type, pause_message_subtype, u8_from paused]"

datatype pause_reason = Reason_unknown | Reason_minimized | Reason_waiting_for_game | Reason_failed

definition reason_from_capture_state :: "nat \<Rightarrow> pause_reason" where
  "reason_from_capture_state state =
     (if state = 1 then Reason_minimized else if state = 2 then Reason_waiting_for_game
      else if state = 3 then Reason_failed else Reason_unknown)"

fun reason_str :: "pause_reason \<Rightarrow> string" where
  "reason_str Reason_unknown = ''unknown''"
| "reason_str Reason_minimized = ''minimized''"
| "reason_str Reason_waiting_for_game = ''waiting''"
| "reason_str Reason_failed = ''failed''"

fun reason_u8 :: "pause_reason \<Rightarrow> nat" where
  "reason_u8 Reason_unknown = 0"
| "reason_u8 Reason_minimized = 1"
| "reason_u8 Reason_waiting_for_game = 2"
| "reason_u8 Reason_failed = 3"

definition pause_message_with_reason :: "bool \<Rightarrow> pause_reason \<Rightarrow> nat list" where
  "pause_message_with_reason paused reason =
     [pause_message_type, pause_message_subtype, u8_from paused, reason_u8 reason]"

definition parse_pause_message_full :: "nat list \<Rightarrow> (bool \<times> pause_reason) option" where
  "parse_pause_message_full data =
     (case data of
        [t, s, state] \<Rightarrow>
          if t = pause_message_type \<and> s = pause_message_subtype then Some (state \<noteq> 0, Reason_unknown) else None
      | [t, s, state, reason] \<Rightarrow>
          if t = pause_message_type \<and> s = pause_message_subtype
          then Some (state \<noteq> 0,
            if reason = 1 then Reason_minimized else if reason = 2 then Reason_waiting_for_game
            else if reason = 3 then Reason_failed else Reason_unknown)
          else None
      | _ \<Rightarrow> None)"

definition parse_pause_message :: "nat list \<Rightarrow> bool option" where
  "parse_pause_message data = map_option fst (parse_pause_message_full data)"

record pause_controller =
  pc_unavailable_ticks :: nat
  pc_paused :: bool

definition pause_new :: pause_controller where
  "pause_new = \<lparr>pc_unavailable_ticks = 0, pc_paused = False\<rparr>"

definition pause_observe :: "bool \<Rightarrow> pause_controller \<Rightarrow> bool option \<times> pause_controller" where
  "pause_observe target_available p =
     (if target_available
      then let p1 = p\<lparr>pc_unavailable_ticks := 0\<rparr>
        in if pc_paused p1 then (Some False, p1\<lparr>pc_paused := False\<rparr>) else (None, p1)
      else let p1 = p\<lparr>pc_unavailable_ticks := sat_add u32_max (pc_unavailable_ticks p) 1\<rparr>
        in if \<not> pc_paused p1 \<and> pc_unavailable_ticks p1 \<ge> pause_enter_unavailable_ticks
           then (Some True, p1\<lparr>pc_paused := True\<rparr>) else (None, p1))"

section \<open>The members of the session\<close>

definition host_role :: string where "host_role = ''host''"

record stream_member =
  sm_user_id :: string
  sm_role :: string

datatype sfu_event = Member_joined string string | Member_left string string | Other_event

definition members_join :: "string \<Rightarrow> string \<Rightarrow> stream_member list \<Rightarrow> stream_member list \<times> bool" where
  "members_join user_id role ms =
     (if user_id = [] then (ms, False)
      else
        let ms1 = (if role = host_role
                   then filter (\<lambda>m. sm_role m \<noteq> host_role \<or> sm_user_id m = user_id) ms else ms);
            ms2 = (if \<exists>m \<in> set ms1. sm_user_id m = user_id
                   then update_first (\<lambda>m. sm_user_id m = user_id) (\<lambda>m. m\<lparr>sm_role := role\<rparr>) ms1
                   else ms1 @ [\<lparr>sm_user_id = user_id, sm_role = role\<rparr>])
        in (ms2, ms2 \<noteq> ms))"

definition members_leave :: "string \<Rightarrow> stream_member list \<Rightarrow> stream_member list \<times> bool" where
  "members_leave user_id ms =
     (let ms1 = filter (\<lambda>m. sm_user_id m \<noteq> user_id) ms in (ms1, length ms1 \<noteq> length ms))"

definition members_apply :: "sfu_event \<Rightarrow> stream_member list \<Rightarrow> stream_member list \<times> bool" where
  "members_apply e ms =
     (case e of
        Member_joined user_id role \<Rightarrow> members_join user_id role ms
      | Member_left user_id reason \<Rightarrow> members_leave user_id ms
      | Other_event \<Rightarrow> (ms, False))"

definition members_from_joined :: "(string \<times> string) list \<Rightarrow> stream_member list" where
  "members_from_joined infos = foldl (\<lambda>ms (u, r). fst (members_join u r ms)) [] infos"

definition members_host :: "stream_member list \<Rightarrow> string option" where
  "members_host ms = map_option sm_user_id (List.find (\<lambda>m. sm_role m = host_role) ms)"

section \<open>The announced format and the pacing target\<close>

record viewer_format =
  vf_rung :: "rung option"
  vf_serial :: nat

definition apply_viewer_rung_message :: "nat list \<Rightarrow> viewer_format \<Rightarrow> bool \<times> viewer_format" where
  "apply_viewer_rung_message data f =
     (case parse_rung_message data of
        None \<Rightarrow> (False, f)
      | Some r \<Rightarrow> (True, f\<lparr>vf_rung := Some r, vf_serial := wrap_u u64_max (vf_serial f + 1)\<rparr>))"

definition reset_viewer_format :: "viewer_format \<Rightarrow> viewer_format" where
  "reset_viewer_format f = f\<lparr>vf_rung := None, vf_serial := wrap_u u64_max (vf_serial f + 1)\<rparr>"

definition pacing_target_kbps :: "nat \<Rightarrow> nat" where
  "pacing_target_kbps kbps = to_u u32_max (max (round_away (f64 (of_nat kbps * f64 (108 / 100)))) 250)"

section \<open>Properties\<close>

text \<open>A capture selection either is an error or captures what was chosen: an unknown mode is
  always an error and never a monitor, a process or window without a nonzero identifier is an
  error, and the target of a success is the one named.\<close>

theorem capture_target_is_chosen:
  "(\<forall>t. capture_resolve mode mon hwnd pid = Inr t \<longrightarrow>
      (mode \<in> {''process'', ''game''} \<and> pid = Some p \<and> p \<noteq> 0 \<longrightarrow> t = Capture_process p) \<and>
      (case t of Capture_monitor i \<Rightarrow> mode = ''monitor'' \<and> i = (case mon of None \<Rightarrow> 0 | Some i \<Rightarrow> i)
       | Capture_window h \<Rightarrow> mode = ''window'' \<and> hwnd = Some h \<and> h \<noteq> 0
       | Capture_process p \<Rightarrow> mode \<in> {''process'', ''game''} \<and> pid = Some p \<and> p \<noteq> 0)) \<and>
   (mode \<notin> {''process'', ''game'', ''window'', ''monitor''} \<longrightarrow>
      (\<exists>e. capture_resolve mode mon hwnd pid = Inl e))"
  by (auto simp: capture_resolve_def split: if_splits option.splits)

lemma capture_target_is_chosen_witness: "\<exists>e. capture_resolve ''screen'' (Some 0) (Some 42) (Some 99) = Inl e"
  using capture_target_is_chosen [of "''screen''" "Some 0" "Some 42" "Some 99", THEN conjunct2] by simp


text \<open>The pause and idle messages are read back as they were sent, reason included, an old
  viewer reads the same state from the short form, no message of one kind parses as another
  (pause, idle, rung), and the reason the wire carries is the one the capture state names.\<close>

theorem pause_messages_roundtrip:
  "parse_pause_message_full (pause_message_with_reason p r) = Some (p, r) \<and>
   parse_pause_message_full (pause_message p) = Some (p, Reason_unknown) \<and>
   parse_pause_message (pause_message p) = Some p \<and>
   parse_idle_message (idle_message i) = Some i \<and>
   parse_idle_message (pause_message p) = None \<and> parse_pause_message_full (idle_message i) = None \<and>
   parse_rung_message (pause_message_with_reason p r) = None \<and>
   parse_pause_message_full (rung_message g) = None \<and>
   reason_from_capture_state (reason_u8 r) = r"
  by (cases r) (simp_all add: parse_pause_message_full_def pause_message_with_reason_def pause_message_def
      parse_pause_message_def parse_idle_message_def idle_message_def u8_from_def pause_message_type_def
      pause_message_subtype_def idle_message_subtype_def reason_from_capture_state_def
      parse_rung_message_def rung_message_def be_bytes16_def)

text \<open>A run of the pause controller over availability samples, with what it tells the viewers.\<close>

fun pause_run :: "bool list \<Rightarrow> pause_controller \<Rightarrow> bool option list \<times> pause_controller" where
  "pause_run [] p = ([], p)"
| "pause_run (a # as) p =
     (case pause_observe a p of (out, p1) \<Rightarrow> (case pause_run as p1 of (outs, p2) \<Rightarrow> (out # outs, p2)))"

lemma pause_run_append:
  "pause_run (as @ bs) p =
     (let (o1, p1) = pause_run as p; (o2, p2) = pause_run bs p1 in (o1 @ o2, p2))"
  by (induction as arbitrary: p) (auto split: prod.splits)

definition trailing_gone :: "bool list \<Rightarrow> nat" where
  "trailing_gone as = length (takeWhile Not (rev as))"

lemma pause_run_state:
  "pc_unavailable_ticks (snd (pause_run as pause_new)) = min (trailing_gone as) u32_max \<and>
   (pc_paused (snd (pause_run as pause_new)) \<longleftrightarrow> 3 \<le> trailing_gone as)"
proof (induction as rule: rev_induct)
  case Nil
  then show ?case by (simp add: trailing_gone_def pause_new_def)
next
  case (snoc a as)
  obtain outs p where p: "pause_run as pause_new = (outs, p)" by fastforce
  have "trailing_gone (as @ [a]) = (if a then 0 else trailing_gone as + 1)" by (simp add: trailing_gone_def)
  moreover have "snd (pause_run (as @ [a]) pause_new) = snd (pause_observe a p)"
    by (simp add: pause_run_append p split: prod.splits)
  ultimately show ?case
    using snoc.IH p by (auto simp: pause_observe_def Let_def sat_add_def pause_enter_unavailable_ticks_def u32_max_def)
qed

lemma pause_observe_out:
  "pause_observe a p = (out, q) \<Longrightarrow> out = (if pc_paused q = pc_paused p then None else Some (pc_paused q))"
  by (auto simp: pause_observe_def Let_def split: if_splits)

text \<open>The viewers see the pause card exactly while the last three samples or more found the
  capture target gone: after any samples the controller is paused if and only if the run of
  unavailable samples at the end is at least three long, and the sample that changes this is the
  one that is told, with the new state; every other sample is silent.\<close>

theorem pause_follows_three_misses:
  "pc_paused (snd (pause_run as pause_new)) = (3 \<le> length (takeWhile Not (rev as))) \<and>
   fst (pause_run (as @ [a]) pause_new) = fst (pause_run as pause_new) @
     [if pc_paused (snd (pause_run (as @ [a]) pause_new)) = pc_paused (snd (pause_run as pause_new)) then None
      else Some (pc_paused (snd (pause_run (as @ [a]) pause_new)))]"
proof
  show "pc_paused (snd (pause_run as pause_new)) = (3 \<le> length (takeWhile Not (rev as)))"
    using pause_run_state [of as] by (simp add: trailing_gone_def)
  obtain outs p where p: "pause_run as pause_new = (outs, p)" by fastforce
  obtain out q where o: "pause_observe a p = (out, q)" by fastforce
  note out = pause_observe_out [OF o]
  show "fst (pause_run (as @ [a]) pause_new) = fst (pause_run as pause_new) @
     [if pc_paused (snd (pause_run (as @ [a]) pause_new)) = pc_paused (snd (pause_run as pause_new)) then None
      else Some (pc_paused (snd (pause_run (as @ [a]) pause_new)))]"
    by (simp add: pause_run_append p o out)
qed

section \<open>The members\<close>

definition members_ok :: "stream_member list \<Rightarrow> bool" where
  "members_ok ms \<longleftrightarrow> distinct (map sm_user_id ms) \<and> [] \<notin> set (map sm_user_id ms) \<and>
     (\<forall>a \<in> set ms. \<forall>b \<in> set ms. sm_role a = host_role \<longrightarrow> sm_role b = host_role \<longrightarrow> a = b)"

lemma set_update_first_id:
  "distinct (map f ms) \<Longrightarrow> (\<And>m. f (g m) = f m) \<Longrightarrow>
   set (update_first (\<lambda>m. f m = u) g ms) = {m \<in> set ms. f m \<noteq> u} \<union> g ` {m \<in> set ms. f m = u}"
proof (induction ms)
  case Nil
  then show ?case by simp
next
  case (Cons a ms)
  show ?case
  proof (cases "f a = u")
    case True
    with Cons.prems(1) have "\<forall>m \<in> set ms. f m \<noteq> u" by (auto simp: image_iff)
    with True show ?thesis by auto
  next
    case False
    with Cons show ?thesis by auto
  qed
qed

lemma set_members_join:
  assumes "members_ok ms" "u \<noteq> []"
  shows "set (fst (members_join u r ms)) =
    insert \<lparr>sm_user_id = u, sm_role = r\<rparr> {m \<in> set ms. sm_user_id m \<noteq> u \<and> \<not> (r = host_role \<and> sm_role m = host_role)}"
proof -
  define ms1 where "ms1 = (if r = host_role
    then filter (\<lambda>m. sm_role m \<noteq> host_role \<or> sm_user_id m = u) ms else ms)"
  have d: "distinct (map sm_user_id ms1)" using assms(1) by (auto simp: ms1_def members_ok_def distinct_map_filter)
  have s1: "{m \<in> set ms1. sm_user_id m \<noteq> u} = {m \<in> set ms. sm_user_id m \<noteq> u \<and> \<not> (r = host_role \<and> sm_role m = host_role)}"
    by (auto simp: ms1_def)
  have rec: "m\<lparr>sm_role := r\<rparr> = \<lparr>sm_user_id = u, sm_role = r\<rparr>" if "sm_user_id m = u" for m :: stream_member
    using that by (cases m) simp
  have j: "fst (members_join u r ms) = (if \<exists>m \<in> set ms1. sm_user_id m = u
      then update_first (\<lambda>m. sm_user_id m = u) (\<lambda>m. m\<lparr>sm_role := r\<rparr>) ms1
      else ms1 @ [\<lparr>sm_user_id = u, sm_role = r\<rparr>])"
    using assms(2) by (simp add: members_join_def Let_def ms1_def)
  show ?thesis
  proof (cases "\<exists>m \<in> set ms1. sm_user_id m = u")
    case True
    then have "(\<lambda>m. m\<lparr>sm_role := r\<rparr>) ` {m \<in> set ms1. sm_user_id m = u} = {\<lparr>sm_user_id = u, sm_role = r\<rparr>}"
      using rec by (auto simp: image_iff)
    with True j s1 set_update_first_id [OF d, of "\<lambda>m. m\<lparr>sm_role := r\<rparr>" u] show ?thesis by simp
  next
    case False
    then have "set ms1 = {m \<in> set ms1. sm_user_id m \<noteq> u}" by auto
    moreover have "set (fst (members_join u r ms)) = insert \<lparr>sm_user_id = u, sm_role = r\<rparr> (set ms1)"
      using False j by simp
    ultimately show ?thesis unfolding s1 by metis
  qed
qed

lemma members_join_ids:
  "members_ok ms \<Longrightarrow> u \<noteq> [] \<Longrightarrow> distinct (map sm_user_id (fst (members_join u r ms)))"
proof -
  assume ok: "members_ok ms" and u: "u \<noteq> []"
  define ms1 where "ms1 = (if r = host_role
    then filter (\<lambda>m. sm_role m \<noteq> host_role \<or> sm_user_id m = u) ms else ms)"
  have "distinct (map sm_user_id ms1)" using ok by (auto simp: ms1_def members_ok_def distinct_map_filter)
  moreover have "map sm_user_id (update_first (\<lambda>m. sm_user_id m = u) (\<lambda>m. m\<lparr>sm_role := r\<rparr>) ms1) = map sm_user_id ms1"
    by (rule map_update_first) simp
  moreover have "fst (members_join u r ms) = (if \<exists>m \<in> set ms1. sm_user_id m = u
      then update_first (\<lambda>m. sm_user_id m = u) (\<lambda>m. m\<lparr>sm_role := r\<rparr>) ms1
      else ms1 @ [\<lparr>sm_user_id = u, sm_role = r\<rparr>])"
    using u by (simp add: members_join_def Let_def ms1_def)
  ultimately show ?thesis by (auto simp: image_iff)
qed

lemma members_ok_join: "members_ok ms \<Longrightarrow> members_ok (fst (members_join u r ms))"
proof (cases "u = []")
  case True
  assume "members_ok ms"
  with True show ?thesis by (simp add: members_join_def)
next
  case False
  assume ok: "members_ok ms"
  have "\<forall>a \<in> set (fst (members_join u r ms)). \<forall>b \<in> set (fst (members_join u r ms)).
      sm_role a = host_role \<longrightarrow> sm_role b = host_role \<longrightarrow> a = b" "[] \<notin> sm_user_id ` set (fst (members_join u r ms))"
    using ok False unfolding set_members_join [OF ok False] by (auto simp: members_ok_def)
  with members_join_ids [OF ok False] show ?thesis by (simp add: members_ok_def)
qed

lemma members_ok_apply: "members_ok ms \<Longrightarrow> members_ok (fst (members_apply e ms))"
proof (cases e)
  case (Member_left u reason)
  assume "members_ok ms"
  with Member_left show ?thesis
    by (auto simp: members_apply_def members_leave_def members_ok_def distinct_map_filter Let_def)
qed (simp_all add: members_apply_def members_ok_join)

interpretation members: machine "\<lambda>ms e. fst (members_apply e ms)" members_ok
  by unfold_locales (rule members_ok_apply)

text \<open>The roles as a map: what the list stands for, and what an event does to it.\<close>

definition role_of :: "stream_member list \<Rightarrow> string \<Rightarrow> string option" where
  "role_of ms u = map_option sm_role (List.find (\<lambda>m. sm_user_id m = u) ms)"

lemma role_of_Some:
  assumes "members_ok ms"
  shows "role_of ms u = Some r \<longleftrightarrow> \<lparr>sm_user_id = u, sm_role = r\<rparr> \<in> set ms"
proof
  assume "role_of ms u = Some r"
  then obtain m where "m \<in> set ms" "sm_user_id m = u" "sm_role m = r"
    by (auto simp: role_of_def dest!: find_Some_mem)
  moreover have "m = \<lparr>sm_user_id = sm_user_id m, sm_role = sm_role m\<rparr>" by simp
  ultimately show "\<lparr>sm_user_id = u, sm_role = r\<rparr> \<in> set ms" by metis
next
  assume m: "\<lparr>sm_user_id = u, sm_role = r\<rparr> \<in> set ms"
  have "List.find (\<lambda>m. sm_user_id m = u) ms \<noteq> None"
  proof
    assume "List.find (\<lambda>m. sm_user_id m = u) ms = None"
    with m have "sm_user_id \<lparr>sm_user_id = u, sm_role = r\<rparr> \<noteq> u" unfolding find_None_all by blast
    then show False by simp
  qed
  then obtain m' where f: "List.find (\<lambda>m. sm_user_id m = u) ms = Some m'" by blast
  have "inj_on sm_user_id (set ms)" using assms by (simp add: members_ok_def distinct_map)
  moreover have "sm_user_id m' = sm_user_id \<lparr>sm_user_id = u, sm_role = r\<rparr>" "m' \<in> set ms"
    using find_Some_mem [OF f] by simp_all
  ultimately have "m' = \<lparr>sm_user_id = u, sm_role = r\<rparr>" using m by (rule inj_onD)
  with f show "role_of ms u = Some r" by (simp add: role_of_def)
qed

fun role_spec :: "sfu_event \<Rightarrow> (string \<Rightarrow> string option) \<Rightarrow> string \<Rightarrow> string option" where
  "role_spec (Member_joined u r) \<rho> =
     (if u = [] then \<rho>
      else (\<lambda>x. if x = u then Some r else if r = host_role \<and> \<rho> x = Some host_role then None else \<rho> x))"
| "role_spec (Member_left u reason) \<rho> = \<rho>(u := None)"
| "role_spec Other_event \<rho> = \<rho>"

lemma role_of_apply:
  assumes ok: "members_ok ms"
  shows "role_of (fst (members_apply e ms)) = role_spec e (role_of ms)"
proof
  fix x
  have "role_of (fst (members_apply e ms)) x = Some r \<longleftrightarrow> role_spec e (role_of ms) x = Some r" for r
  proof (cases e)
    case (Member_joined u r')
    show ?thesis
    proof (cases "u = []")
      case True
      with Member_joined show ?thesis by (simp add: members_apply_def members_join_def)
    next
      case False
      have "role_of (fst (members_join u r' ms)) x = Some r \<longleftrightarrow>
          \<lparr>sm_user_id = x, sm_role = r\<rparr> \<in> set (fst (members_join u r' ms))"
        by (rule role_of_Some [OF members_ok_join [OF ok]])
      moreover have "r1 = r2" if "\<lparr>sm_user_id = x, sm_role = r1\<rparr> \<in> set ms" "\<lparr>sm_user_id = x, sm_role = r2\<rparr> \<in> set ms"
        for r1 r2 using that role_of_Some [OF ok, of x r1] role_of_Some [OF ok, of x r2] by simp
      ultimately show ?thesis
        using Member_joined False
        by (auto simp: members_apply_def set_members_join [OF ok False] role_of_Some [OF ok])
    qed
  next
    case (Member_left u reason)
    have "role_of (fst (members_leave u ms)) x = Some r \<longleftrightarrow> \<lparr>sm_user_id = x, sm_role = r\<rparr> \<in> set (fst (members_leave u ms))"
      using members_ok_apply [OF ok, of e] Member_left by (intro role_of_Some) (simp add: members_apply_def)
    with Member_left show ?thesis
      by (auto simp: members_apply_def members_leave_def Let_def role_of_Some [OF ok])
  qed (simp add: members_apply_def)
  then show "role_of (fst (members_apply e ms)) x = role_spec e (role_of ms) x" by (metis option.exhaust)
qed

lemma role_of_from_joined:
  "members_ok (members_from_joined infos) \<and>
   role_of (members_from_joined infos) = foldl (\<lambda>\<rho> (u, r). role_spec (Member_joined u r) \<rho>) (\<lambda>_. None) infos"
proof (induction infos rule: rev_induct)
  case Nil
  then show ?case by (simp add: members_from_joined_def members_ok_def role_of_def fun_eq_iff)
next
  case (snoc i infos)
  obtain u r where i: "i = (u, r)" by fastforce
  with snoc.IH role_of_apply [of "members_from_joined infos" "Member_joined u r"] members_ok_join show ?case
    by (simp add: members_from_joined_def members_apply_def)
qed

text \<open>After the snapshot of a join and any events of the server, the member list holds every
  user once, no empty user and at most one host, and it implements the map of the users to their
  last role in which a new host takes the place of the old one.\<close>

theorem members_refine_roles:
  "let ms = foldl (\<lambda>ms e. fst (members_apply e ms)) (members_from_joined infos) es in
     distinct (map sm_user_id ms) \<and>
     (\<forall>a \<in> set ms. sm_user_id a \<noteq> [] \<and> (\<forall>b \<in> set ms. sm_role a = host_role \<longrightarrow> sm_role b = host_role \<longrightarrow> a = b)) \<and>
     role_of ms = foldl (\<lambda>\<rho> e. role_spec e \<rho>)
       (foldl (\<lambda>\<rho> (u, r). role_spec (Member_joined u r) \<rho>) (\<lambda>_. None) infos) es"
proof -
  let ?run = "foldl (\<lambda>ms e. fst (members_apply e ms)) (members_from_joined infos)"
  have ok: "members_ok (?run es)" for es by (rule members.run_inv) (simp add: role_of_from_joined)
  moreover have "role_of (?run es) = foldl (\<lambda>\<rho> e. role_spec e \<rho>) (role_of (members_from_joined infos)) es"
    by (induction es rule: rev_induct) (simp_all add: role_of_apply ok)
  moreover have "\<forall>a \<in> set ms. sm_user_id a \<noteq> []" if "members_ok ms" for ms
    using that unfolding members_ok_def by (metis image_eqI set_map)
  ultimately show ?thesis
    using ok [of es] unfolding Let_def role_of_from_joined [THEN conjunct2, symmetric]
    by (simp only: members_ok_def)  blast
qed


lemma members_refine_roles_witness:
  "role_of (foldl (\<lambda>ms e. fst (members_apply e ms)) (members_from_joined [(''a'', ''host''), (''b'', ''viewer'')])
      [Member_joined ''c'' ''host'', Member_left ''b'' ''gone'']) =
     (\<lambda>u. if u = ''c'' then Some ''host'' else None)"
  using members_refine_roles [where infos = "[(''a'', ''host''), (''b'', ''viewer'')]"
    and es = "[Member_joined ''c'' ''host'', Member_left ''b'' ''gone'']"]
  by (auto simp: Let_def host_role_def fun_eq_iff split: if_splits)

end
