(* ===== verification/Viewer_Congestion.thy ===== *)
theory Viewer_Congestion
  imports Machine Rust_Float Stream_Session
begin

text \<open>
  The viewer's receive-target controller (\<open>stream/congestion.rs\<close>): samples of the native RTP
  statistics become loss and jitter, and these move the target that the viewer sends as REMB.
  The statistics are those of libmello; the \<open>f32\<close> operations are rounded as in \<open>Rust_Float\<close>.
\<close>

definition sample_interval :: duration where "sample_interval = millis 500"
definition remb_heartbeat_interval :: duration where "remb_heartbeat_interval = secs 2"
definition good_samples_for_increase :: nat where "good_samples_for_increase = 10"
definition loss_step_down_threshold :: rat where "loss_step_down_threshold = f32 (5 / 100)"
definition loss_mild_threshold :: rat where "loss_mild_threshold = f32 (2 / 100)"
definition loss_good_threshold :: rat where "loss_good_threshold = f32 (1 / 100)"
definition jitter_mild_ms :: rat where "jitter_mild_ms = 20"
definition jitter_good_ms :: rat where "jitter_good_ms = 10"
definition step_down_factor :: rat where "step_down_factor = f32 (75 / 100)"
definition step_mild_factor :: rat where "step_mild_factor = f32 (85 / 100)"
definition min_increase_bps :: nat where "min_increase_bps = 100000"
definition increase_fraction :: rat where "increase_fraction = f32 (5 / 100)"
definition rtp_clock_hz :: rat where "rtp_clock_hz = 90000"

record congestion_sample =
  cs_accepted_packets :: nat
  cs_accepted_bytes :: nat
  cs_missing_sequences :: nat
  cs_repaired_packets :: nat
  cs_incomplete_access_units :: nat
  cs_emitted_access_units :: nat
  cs_gate_entries :: nat
  cs_gate_exits :: nat
  cs_gate_dropped_access_units :: nat
  cs_interarrival_jitter :: nat

text \<open>\<open>saturating_sub\<close> of unsigned counters is the subtraction of naturals.\<close>

definition delta_since :: "congestion_sample \<Rightarrow> congestion_sample \<Rightarrow> congestion_sample" where
  "delta_since s p =
     \<lparr>cs_accepted_packets = cs_accepted_packets s - cs_accepted_packets p,
      cs_accepted_bytes = cs_accepted_bytes s - cs_accepted_bytes p,
      cs_missing_sequences = cs_missing_sequences s - cs_missing_sequences p,
      cs_repaired_packets = cs_repaired_packets s - cs_repaired_packets p,
      cs_incomplete_access_units = cs_incomplete_access_units s - cs_incomplete_access_units p,
      cs_emitted_access_units = cs_emitted_access_units s - cs_emitted_access_units p,
      cs_gate_entries = cs_gate_entries s - cs_gate_entries p,
      cs_gate_exits = cs_gate_exits s - cs_gate_exits p,
      cs_gate_dropped_access_units = cs_gate_dropped_access_units s - cs_gate_dropped_access_units p,
      cs_interarrival_jitter = cs_interarrival_jitter s\<rparr>"

definition loss_ratio :: "congestion_sample \<Rightarrow> rat" where
  "loss_ratio s =
     (let lost = cs_missing_sequences s - cs_repaired_packets s;
          denom = sat_add u64_max (cs_accepted_packets s) lost
      in if denom = 0 then 0 else f32 (f32 (of_nat lost) / f32 (of_nat denom)))"

definition jitter_ms :: "congestion_sample \<Rightarrow> rat" where
  "jitter_ms s = f32 (f32 (f32 (of_nat (cs_interarrival_jitter s)) * 1000) / rtp_clock_hz)"

datatype congestion_action = Step_down_severe | Step_down_mild | Congestion_hold

record congestion_controller =
  cg_jitter_high_last :: bool
  cg_floor_bps :: nat
  cg_ceiling_bps :: nat
  cg_target_bps :: nat
  cg_last_emitted_bps :: nat
  cg_good_samples :: nat
  cg_last_stats :: "congestion_sample option"
  cg_last_sample_at :: "instant option"
  cg_last_emit_at :: "instant option"

definition stream_floor_bps :: "codec \<Rightarrow> nat" where
  "stream_floor_bps c = sat_mul u32_max (min_bitrate_kbps c) 1000"

definition congestion_new :: "nat \<Rightarrow> codec \<Rightarrow> congestion_controller" where
  "congestion_new ceiling_kbps c =
     (let ceiling = sat_mul u32_max ceiling_kbps 1000; flr = stream_floor_bps c
      in \<lparr>cg_jitter_high_last = False, cg_floor_bps = flr, cg_ceiling_bps = ceiling,
          cg_target_bps = min (max ceiling flr) ceiling, cg_last_emitted_bps = 0, cg_good_samples = 0,
          cg_last_stats = None, cg_last_sample_at = None, cg_last_emit_at = None\<rparr>)"

definition clamp_bps :: "nat \<Rightarrow> congestion_controller \<Rightarrow> nat" where
  "clamp_bps bps c = min (max bps (cg_floor_bps c)) (cg_ceiling_bps c)"

definition set_ceiling_kbps :: "nat \<Rightarrow> congestion_controller \<Rightarrow> congestion_controller" where
  "set_ceiling_kbps kbps c =
     (let c1 = c\<lparr>cg_ceiling_bps := sat_mul u32_max kbps 1000\<rparr>
      in c1\<lparr>cg_target_bps := clamp_bps (cg_target_bps c1) c1\<rparr>)"

definition apply_increase :: "congestion_controller \<Rightarrow> congestion_controller" where
  "apply_increase c =
     (let step = max min_increase_bps
            (to_u u32_max (round_away (f32 (f32 (of_nat (cg_target_bps c)) * increase_fraction))))
      in c\<lparr>cg_target_bps := clamp_bps (sat_add u32_max (cg_target_bps c) step) c, cg_good_samples := 0\<rparr>)"

definition classify_sample :: "congestion_sample \<Rightarrow> congestion_controller \<Rightarrow> congestion_action" where
  "classify_sample d c =
     (let loss = loss_ratio d
      in if cs_incomplete_access_units d > 0 \<or> cs_gate_entries d > 0 \<or> loss > loss_step_down_threshold
         then Step_down_severe
         else if loss \<ge> loss_mild_threshold \<or> (jitter_ms d > jitter_mild_ms \<and> cg_jitter_high_last c)
         then Step_down_mild
         else Congestion_hold)"

definition is_good_sample :: "congestion_sample \<Rightarrow> bool" where
  "is_good_sample d \<longleftrightarrow> loss_ratio d < loss_good_threshold \<and> cs_incomplete_access_units d = 0 \<and>
     cs_gate_entries d = 0 \<and> jitter_ms d < jitter_good_ms"

definition emit_if_needed :: "instant \<Rightarrow> bool \<Rightarrow> congestion_controller \<Rightarrow> nat option \<times> congestion_controller" where
  "emit_if_needed now force c =
     (let heartbeat_due = (case cg_last_emit_at c of None \<Rightarrow> True
            | Some t \<Rightarrow> duration_since now t \<ge> remb_heartbeat_interval);
          change = abs_diff (cg_target_bps c) (cg_last_emitted_bps c);
          significant = (cg_last_emitted_bps c = 0 \<or>
            sat_mul u32_max change 100 \<ge> sat_mul u32_max (cg_last_emitted_bps c) 5)
      in if force \<or> significant \<or> heartbeat_due
         then (Some (cg_target_bps c),
           c\<lparr>cg_last_emitted_bps := cg_target_bps c, cg_last_emit_at := Some now\<rparr>)
         else (None, c))"

definition step_target :: "rat \<Rightarrow> congestion_controller \<Rightarrow> nat" where
  "step_target factor c = to_u u32_max (f32 (f32 (of_nat (cg_target_bps c)) * factor))"

text \<open>What one sample does to the target, before the emission.\<close>

definition apply_sample :: "congestion_sample \<Rightarrow> congestion_controller \<Rightarrow> congestion_controller" where
  "apply_sample d c0 =
     (let action = classify_sample d c0; c = c0\<lparr>cg_jitter_high_last := jitter_ms d > jitter_mild_ms\<rparr>
      in case action of
           Step_down_severe \<Rightarrow>
             c\<lparr>cg_good_samples := 0, cg_target_bps := clamp_bps (step_target step_down_factor c) c\<rparr>
         | Step_down_mild \<Rightarrow>
             c\<lparr>cg_good_samples := 0, cg_target_bps := clamp_bps (step_target step_mild_factor c) c\<rparr>
         | Congestion_hold \<Rightarrow>
             if is_good_sample d
             then let c1 = c\<lparr>cg_good_samples := sat_add u32_max (cg_good_samples c) 1\<rparr>
               in if cg_good_samples c1 \<ge> good_samples_for_increase then apply_increase c1 else c1
             else c\<lparr>cg_good_samples := 0\<rparr>)"

definition congestion_tick ::
  "congestion_sample \<Rightarrow> instant \<Rightarrow> congestion_controller \<Rightarrow> nat option \<times> congestion_controller" where
  "congestion_tick stats now c =
     (if (case cg_last_sample_at c of None \<Rightarrow> False | Some t \<Rightarrow> duration_since now t < sample_interval)
      then emit_if_needed now False c
      else
        let c1 = c\<lparr>cg_last_stats := Some stats, cg_last_sample_at := Some now\<rparr>
        in case cg_last_stats c of
             None \<Rightarrow> emit_if_needed now True (c1\<lparr>cg_target_bps := clamp_bps (cg_ceiling_bps c1) c1\<rparr>)
           | Some previous \<Rightarrow> emit_if_needed now False (apply_sample (delta_since stats previous) c1))"

section \<open>Bounds\<close>

datatype congestion_event = Congestion_tick congestion_sample instant | Ceiling nat

fun congestion_step :: "congestion_controller \<Rightarrow> congestion_event \<Rightarrow> congestion_controller" where
  "congestion_step c (Congestion_tick s now) = snd (congestion_tick s now c)"
| "congestion_step c (Ceiling kbps) = set_ceiling_kbps kbps c"

definition in_range :: "congestion_controller \<Rightarrow> bool" where
  "in_range c \<longleftrightarrow> min (cg_floor_bps c) (cg_ceiling_bps c) \<le> cg_target_bps c \<and> cg_target_bps c \<le> cg_ceiling_bps c"

lemma clamp_in: "min (cg_floor_bps c) (cg_ceiling_bps c) \<le> clamp_bps b c \<and> clamp_bps b c \<le> cg_ceiling_bps c"
  by (simp add: clamp_bps_def)

lemma emit_target [simp]:
  "cg_target_bps (snd (emit_if_needed now f c)) = cg_target_bps c"
  "cg_floor_bps (snd (emit_if_needed now f c)) = cg_floor_bps c"
  "cg_ceiling_bps (snd (emit_if_needed now f c)) = cg_ceiling_bps c"
  "cg_good_samples (snd (emit_if_needed now f c)) = cg_good_samples c"
  "cg_last_stats (snd (emit_if_needed now f c)) = cg_last_stats c"
  "cg_last_sample_at (snd (emit_if_needed now f c)) = cg_last_sample_at c"
  by (simp_all add: emit_if_needed_def Let_def)

lemma clamp_cong [simp]:
  "clamp_bps b (c\<lparr>cg_jitter_high_last := j\<rparr>) = clamp_bps b c"
  "clamp_bps b (c\<lparr>cg_good_samples := n\<rparr>) = clamp_bps b c"
  "clamp_bps b (c\<lparr>cg_target_bps := n\<rparr>) = clamp_bps b c"
  "clamp_bps b (c\<lparr>cg_last_stats := s\<rparr>) = clamp_bps b c"
  "clamp_bps b (c\<lparr>cg_last_sample_at := t\<rparr>) = clamp_bps b c"
  by (simp_all add: clamp_bps_def)

lemma apply_sample_frame [simp]:
  "cg_floor_bps (apply_sample d c) = cg_floor_bps c" "cg_ceiling_bps (apply_sample d c) = cg_ceiling_bps c"
  "cg_last_stats (apply_sample d c) = cg_last_stats c" "cg_last_sample_at (apply_sample d c) = cg_last_sample_at c"
  by (auto simp: apply_sample_def Let_def apply_increase_def split: congestion_action.splits)

lemma in_range_clamp:
  "cg_target_bps c' = clamp_bps b c \<Longrightarrow> cg_floor_bps c' = cg_floor_bps c \<Longrightarrow> cg_ceiling_bps c' = cg_ceiling_bps c \<Longrightarrow>
   in_range c'"
  using clamp_in [of c b] by (simp add: in_range_def)

lemma apply_sample_target:
  "(\<exists>b. cg_target_bps (apply_sample d c) = clamp_bps b c) \<or> cg_target_bps (apply_sample d c) = cg_target_bps c"
  by (auto simp: apply_sample_def Let_def apply_increase_def split: congestion_action.splits)

lemma in_range_apply: "in_range c \<Longrightarrow> in_range (apply_sample d c)"
  using apply_sample_target [of d c] in_range_clamp [of "apply_sample d c"]
  by (auto simp: in_range_def)

lemma in_range_emit: "in_range (snd (emit_if_needed now f c)) = in_range c"
  by (simp add: in_range_def)

lemma in_range_step: "in_range c \<Longrightarrow> in_range (congestion_step c e)"
proof (cases e)
  case (Ceiling kbps)
  then show ?thesis by (simp add: set_ceiling_kbps_def Let_def in_range_def clamp_bps_def)
next
  case (Congestion_tick s now)
  assume ok: "in_range c"
  define c1 where "c1 = c\<lparr>cg_last_stats := Some s, cg_last_sample_at := Some now\<rparr>"
  have "in_range c1" using ok by (simp add: c1_def in_range_def)
  moreover have "in_range (c1\<lparr>cg_target_bps := clamp_bps (cg_ceiling_bps c1) c1\<rparr>)"
    using clamp_in by (simp add: in_range_def)
  ultimately show ?thesis
    using ok by (auto simp: Congestion_tick congestion_tick_def Let_def c1_def [symmetric] in_range_emit
        in_range_apply split: option.splits)
qed

interpretation congestion: machine congestion_step in_range
  by unfold_locales (rule in_range_step)


lemma congestion_new_in_range: "in_range (congestion_new kbps c)"
  by (simp add: congestion_new_def in_range_def Let_def)

section \<open>A step down lowers the target\<close>

lemma f32_shrinks:
  assumes "0 \<le> f" "f \<le> 9 / 10"
  shows "f32 (f32 (of_nat t) * f) \<le> of_nat t * (f + 1 / 100)"
proof (cases "t = 0 \<or> f = 0")
  case True
  then show ?thesis by auto
next
  case False
  define x where "x = f32 (of_nat t)"
  have t: "(0 :: rat) < of_nat t" using False by simp
  have "x \<le> of_nat t + of_nat t / 2 ^ 24" using fl_error [OF t, of 24] unfolding x_def by linarith
  then have x: "x \<le> of_nat t * (1 + 1 / 2 ^ 24)" by (simp add: algebra_simps)
  have f: "0 < f" using False assms by simp
  have "x * f \<le> of_nat t * (1 + 1 / 2 ^ 24) * f" using x f by (intro mult_right_mono) simp_all
  moreover have "f32 (x * f) \<le> x * f * (1 + 1 / 2 ^ 24)"
  proof (cases "0 < x * f")
    case True
    have "f32 (x * f) \<le> x * f + x * f / 2 ^ 24" using fl_error [OF True, of 24] by linarith
    then show ?thesis by (simp add: algebra_simps)
  next
    case False
    then have "f32 (x * f) = 0" by (simp add: fl_def)
    moreover have "0 \<le> x * f" using f by (simp add: x_def)
    ultimately show ?thesis by simp
  qed
  ultimately have "f32 (x * f) \<le> of_nat t * (1 + 1 / 2 ^ 24) * f * (1 + 1 / 2 ^ 24)"
    by (meson mult_right_mono order_trans less_imp_le zero_less_numeral add_nonneg_nonneg
        divide_nonneg_nonneg zero_le_one zero_le_numeral zero_le_power)
  also have "\<dots> = of_nat t * (f * ((1 + 1 / 2 ^ 24) * (1 + 1 / 2 ^ 24)))" by (simp add: algebra_simps)
  also have "\<dots> \<le> of_nat t * (f + 1 / 100)"
  proof -
    have "f * ((1 + 1 / 2 ^ 24) * (1 + 1 / 2 ^ 24)) = f + f * ((1 + 1 / 2 ^ 24) * (1 + 1 / 2 ^ 24) - 1)"
      by (simp add: algebra_simps)
    also have "f * ((1 + 1 / 2 ^ 24) * (1 + 1 / 2 ^ 24) - 1) \<le> (9 / 10) * ((1 + 1 / 2 ^ 24) * (1 + 1 / 2 ^ 24) - 1)"
      using assms(2) by (intro mult_right_mono) simp_all
    finally have "f * ((1 + 1 / 2 ^ 24) * (1 + 1 / 2 ^ 24)) \<le> f + 1 / 100" by simp
    then show ?thesis using t by (intro mult_left_mono) simp_all
  qed
  finally show ?thesis by (simp add: x_def)
qed

lemma step_target_bound:
  assumes "0 \<le> f" "f \<le> p / 100" "p \<le> 90"
  shows "of_nat (step_target f c) * 100 \<le> of_nat (cg_target_bps c) * (p + 1)"
proof -
  have "of_nat (step_target f c) \<le> f32 (f32 (of_nat (cg_target_bps c)) * f)"
    unfolding step_target_def by (rule to_u_bound) simp
  also have "\<dots> \<le> of_nat (cg_target_bps c) * (f + 1 / 100)"
    using assms by (intro f32_shrinks) simp_all
  also have "\<dots> \<le> of_nat (cg_target_bps c) * ((p + 1) / 100)"
    using assms(2) by (intro mult_left_mono) (simp_all add: add_divide_distrib)
  finally show ?thesis by simp
qed

lemma factor_values: "step_down_factor = 3 / 4" "step_mild_factor = 14260634 / 16777216"
    "0 \<le> increase_fraction"
  by (simp_all add: step_down_factor_def step_mild_factor_def increase_fraction_def) code_simp+

lemma step_target_le:
  "of_nat (step_target step_down_factor c) * 100 \<le> (of_nat (cg_target_bps c) * 76 :: rat)"
  "of_nat (step_target step_mild_factor c) * 100 \<le> (of_nat (cg_target_bps c) * 87 :: rat)"
  using step_target_bound [of step_down_factor 75 c] step_target_bound [of step_mild_factor 86 c]
  by (simp_all add: factor_values)

lemma clamp_le_target:
  assumes "in_range c" "b \<le> cg_target_bps c"
  shows "clamp_bps b c \<le> cg_target_bps c \<and> clamp_bps b c \<le> max b (cg_floor_bps c)"
  using assms by (auto simp: clamp_bps_def in_range_def)

lemma step_target_below: "step_target step_down_factor c \<le> cg_target_bps c" "step_target step_mild_factor c \<le> cg_target_bps c"
proof -
  have "x \<le> y" if "of_nat x * 100 \<le> (of_nat y * k :: rat)" "k \<le> 100" for x y :: nat and k
  proof -
    have "(of_nat y * k :: rat) \<le> of_nat y * 100" using that(2) by (intro mult_left_mono) simp_all
    with that(1) have "(of_nat x :: rat) \<le> of_nat y" by linarith
    then show ?thesis by simp
  qed
  from this [OF step_target_le(1)] this [OF step_target_le(2)]
  show "step_target step_down_factor c \<le> cg_target_bps c" "step_target step_mild_factor c \<le> cg_target_bps c" by simp_all
qed

section \<open>What raises the target\<close>

text \<open>The samples of a run: the first one only sets the base, \<open>Rise\<close> is a good one that raises.\<close>

datatype sample_kind = Base | Good | Rise | Bad

definition sample_kind :: "congestion_sample \<Rightarrow> congestion_controller \<Rightarrow> sample_kind" where
  "sample_kind d c =
     (if classify_sample d c = Congestion_hold \<and> is_good_sample d
      then if cg_good_samples c + 1 \<ge> 10 then Rise else Good else Bad)"

definition congestion_entry :: "congestion_controller \<Rightarrow> congestion_event \<Rightarrow> (instant \<times> sample_kind \<times> nat \<times> nat) list" where
  "congestion_entry c e =
     (case e of
        Ceiling _ \<Rightarrow> []
      | Congestion_tick s now \<Rightarrow>
          if (case cg_last_sample_at c of None \<Rightarrow> False | Some t \<Rightarrow> now - t < sample_interval) then []
          else [(now, case cg_last_stats c of None \<Rightarrow> Base | Some p \<Rightarrow> sample_kind (delta_since s p) c,
                 cg_target_bps c, cg_target_bps (snd (congestion_tick s now c)))])"

fun congestion_trace :: "congestion_controller \<Rightarrow> congestion_event list \<Rightarrow> (instant \<times> sample_kind \<times> nat \<times> nat) list" where
  "congestion_trace c [] = []"
| "congestion_trace c (e # es) = congestion_entry c e @ congestion_trace (congestion_step c e) es"

lemma congestion_trace_append:
  "congestion_trace c (es @ fs) = congestion_trace c es @ congestion_trace (foldl congestion_step c es) fs"
  by (induction es arbitrary: c) auto

definition trailing_good :: "(instant \<times> sample_kind \<times> nat \<times> nat) list \<Rightarrow> nat" where
  "trailing_good tr = length (takeWhile (\<lambda>(_, k, _). k = Good) (rev tr))"

definition entry_ok :: "(instant \<times> sample_kind \<times> nat \<times> nat) list \<Rightarrow> instant \<times> sample_kind \<times> nat \<times> nat \<Rightarrow> bool" where
  "entry_ok past entry =
     (case entry of (now, k, before, after) \<Rightarrow>
        (before < after \<longrightarrow> k = Rise \<or> k = Base) \<and> (k = Base \<longrightarrow> past = []) \<and>
        (k = Rise \<longrightarrow> 9 \<le> trailing_good past) \<and> (past \<noteq> [] \<longrightarrow> fst (last past) + millis 500 \<le> now))"

definition congestion_clocks :: "congestion_controller \<Rightarrow> (instant \<times> sample_kind \<times> nat \<times> nat) list \<Rightarrow> bool" where
  "congestion_clocks c tr \<longleftrightarrow> in_range c \<and> cg_good_samples c \<le> trailing_good tr \<and>
     (cg_last_stats c = None \<longleftrightarrow> tr = []) \<and>
     cg_last_sample_at c = (if tr = [] then None else Some (fst (last tr)))"

lemma trailing_good_snoc: "trailing_good (tr @ [(now, k, b, a)]) = (if k = Good then trailing_good tr + 1 else 0)"
  by (simp add: trailing_good_def)

lemma apply_sample_kind:
  assumes "in_range c"
  shows "(sample_kind d c = Rise \<longrightarrow> cg_good_samples (apply_sample d c) = 0) \<and>
    (sample_kind d c = Good \<longrightarrow> cg_good_samples (apply_sample d c) \<le> cg_good_samples c + 1) \<and>
    (sample_kind d c = Bad \<longrightarrow> cg_good_samples (apply_sample d c) = 0) \<and>
    (sample_kind d c \<noteq> Rise \<longrightarrow> cg_target_bps (apply_sample d c) \<le> cg_target_bps c) \<and> sample_kind d c \<noteq> Base"
proof -
  have "step_target f (c\<lparr>cg_jitter_high_last := j\<rparr>) = step_target f c" for f j by (simp add: step_target_def)
  then show ?thesis
    using clamp_le_target [OF assms step_target_below(1)] clamp_le_target [OF assms step_target_below(2)]
    by (auto simp: sample_kind_def apply_sample_def Let_def apply_increase_def good_samples_for_increase_def
        sat_add_def u32_max_def split: congestion_action.splits)
qed


lemma congestion_entry_clocks:
  assumes "congestion_clocks c tr"
  shows "congestion_clocks (congestion_step c e) (tr @ congestion_entry c e) \<and>
    (\<forall>x \<in> set (congestion_entry c e). entry_ok tr x)"
proof (cases e)
  case (Ceiling kbps)
  with assms in_range_step [of c e] show ?thesis
    by (simp add: congestion_entry_def congestion_clocks_def set_ceiling_kbps_def Let_def)
next
  case (Congestion_tick s now)
  show ?thesis
  proof (cases "case cg_last_sample_at c of None \<Rightarrow> False | Some t \<Rightarrow> now - t < sample_interval")
    case True
    with assms in_range_step [of c e] show ?thesis
      by (simp add: congestion_entry_def Congestion_tick congestion_clocks_def congestion_tick_def)
  next
    case False
    then have gap: "tr \<noteq> [] \<Longrightarrow> fst (last tr) + millis 500 \<le> now"
      using assms by (auto simp: congestion_clocks_def sample_interval_def millis_def)
    define c1 where "c1 = c\<lparr>cg_last_stats := Some s, cg_last_sample_at := Some now\<rparr>"
    have r: "in_range (congestion_step c e)" using assms in_range_step by (simp add: congestion_clocks_def)
    show ?thesis
    proof (cases "cg_last_stats c")
      case None
      with False have st: "snd (congestion_tick s now c) = snd (emit_if_needed now True (c1\<lparr>cg_target_bps := clamp_bps (cg_ceiling_bps c1) c1\<rparr>))"
        by (simp add: congestion_tick_def Let_def c1_def)
      have "tr = []" using None assms by (simp add: congestion_clocks_def)
      with None False r assms show ?thesis
        by (simp add: congestion_entry_def Congestion_tick st congestion_clocks_def entry_ok_def
            trailing_good_def c1_def)
    next
      case (Some p)
      define d where "d = delta_since s p"
      have st: "snd (congestion_tick s now c) = snd (emit_if_needed now False (apply_sample d c1))"
        using Some False by (simp add: congestion_tick_def Let_def c1_def d_def)
      have "tr \<noteq> []" using Some assms by (auto simp: congestion_clocks_def)
      have k: "sample_kind d c1 = sample_kind d c" "in_range c1" "cg_good_samples c1 = cg_good_samples c"
          "cg_target_bps c1 = cg_target_bps c"
        using assms by (simp_all add: sample_kind_def classify_sample_def Let_def c1_def congestion_clocks_def in_range_def)
      note a = apply_sample_kind [OF k(2), of d, unfolded k]
      have entry: "congestion_entry c e = [(now, sample_kind d c, cg_target_bps c, cg_target_bps (apply_sample d c1))]"
        using Some False by (simp add: congestion_entry_def Congestion_tick st d_def)
      have nine: "sample_kind d c = Rise \<Longrightarrow> 9 \<le> trailing_good tr"
        using assms by (auto simp: sample_kind_def congestion_clocks_def split: if_splits)
      have "entry_ok tr (now, sample_kind d c, cg_target_bps c, cg_target_bps (apply_sample d c1))"
        using a nine gap by (auto simp: entry_ok_def not_less)
      moreover have "cg_good_samples (apply_sample d c1) \<le>
          trailing_good (tr @ [(now, sample_kind d c, cg_target_bps c, cg_target_bps (apply_sample d c1))])"
        using a assms by (cases "sample_kind d c") (simp_all add: trailing_good_snoc congestion_clocks_def)
      moreover have "cg_last_stats (congestion_step c e) = Some s" "cg_last_sample_at (congestion_step c e) = Some now"
          "cg_good_samples (congestion_step c e) = cg_good_samples (apply_sample d c1)"
        by (simp_all add: Congestion_tick st c1_def)
      ultimately show ?thesis using r by (simp add: entry congestion_clocks_def)
    qed
  qed
qed

lemma congestion_trace_clocks:
  assumes "congestion_clocks c []"
  shows "congestion_clocks (foldl congestion_step c es) (congestion_trace c es) \<and>
    (\<forall>past x rest. congestion_trace c es = past @ x # rest \<longrightarrow> entry_ok past x)"
proof (induction es rule: rev_induct)
  case Nil
  then show ?case using assms by simp
next
  case (snoc e es)
  define c1 tr where "c1 = foldl congestion_step c es" and "tr = congestion_trace c es"
  have t: "congestion_trace c (es @ [e]) = tr @ congestion_entry c1 e"
    by (simp add: congestion_trace_append c1_def tr_def)
  have clocks: "congestion_clocks c1 tr" and old: "\<And>past x rest. tr = past @ x # rest \<Longrightarrow> entry_ok past x"
    using snoc.IH unfolding c1_def tr_def by blast+
  note new = congestion_entry_clocks [OF clocks, of e]
  have "entry_ok past x" if split: "tr @ congestion_entry c1 e = past @ x # rest" for past x rest
  proof (cases "congestion_entry c1 e")
    case Nil
    with split old show ?thesis by simp
  next
    case (Cons y ys)
    then have "ys = []" by (auto simp: congestion_entry_def split: congestion_event.splits if_splits)
    show ?thesis
    proof (cases rest rule: rev_cases)
      case Nil
      with split Cons \<open>ys = []\<close> new show ?thesis by auto
    next
      case (snoc rest' z)
      with split Cons \<open>ys = []\<close> old show ?thesis by simp
    qed
  qed
  with new t show ?case by (simp add: c1_def)
qed


definition sample_stats :: congestion_sample where
  "sample_stats = \<lparr>cs_accepted_packets = 0, cs_accepted_bytes = 0, cs_missing_sequences = 0,
     cs_repaired_packets = 0, cs_incomplete_access_units = 0, cs_emitted_access_units = 0,
     cs_gate_entries = 0, cs_gate_exits = 0, cs_gate_dropped_access_units = 0, cs_interarrival_jitter = 0\<rparr>"


text \<open>A bad sample makes the viewer ask for less at once: incomplete frames, a gate entry or
  a loss over five percent take the target down to at most 76 percent, a loss of two percent or
  jitter in two samples to at most 87 percent, or to the floor; no such sample raises it; and what
  the viewer sends is the target after the sample, sent at once when it moved by five percent or
  when two seconds passed without one.\<close>

theorem viewer_target_backs_off:
  assumes "in_range c" "cg_last_stats c = Some p"
    and "\<forall>t. cg_last_sample_at c = Some t \<longrightarrow> 500 * 1000000 \<le> now - t"
    and "congestion_tick s now c = (out, c')"
  shows "(classify_sample (delta_since s p) c = Step_down_severe \<longrightarrow>
       cg_target_bps c' \<le> cg_target_bps c \<and>
       (cg_target_bps c' * 100 \<le> cg_target_bps c * 76 \<or> cg_target_bps c' \<le> cg_floor_bps c)) \<and>
    (classify_sample (delta_since s p) c = Step_down_mild \<longrightarrow>
       cg_target_bps c' \<le> cg_target_bps c \<and>
       (cg_target_bps c' * 100 \<le> cg_target_bps c * 87 \<or> cg_target_bps c' \<le> cg_floor_bps c)) \<and>
    (\<forall>v. out = Some v \<longrightarrow> v = cg_target_bps c' \<and> cg_last_emitted_bps c' = v \<and> cg_last_emit_at c' = Some now) \<and>
    (out = None \<longrightarrow> (\<exists>t. cg_last_emit_at c = Some t \<and> now - t < 2 * 1000000000) \<and>
       (abs_diff (cg_target_bps c') (cg_last_emitted_bps c') * 100 \<le> u32_max \<longrightarrow>
        abs_diff (cg_target_bps c') (cg_last_emitted_bps c') * 100 < cg_last_emitted_bps c' * 5))"
proof -
  define d where "d = delta_since s p"
  define c1 where "c1 = c\<lparr>cg_last_stats := Some s, cg_last_sample_at := Some now\<rparr>"
  have early: "\<not> (case cg_last_sample_at c of None \<Rightarrow> False | Some t \<Rightarrow> now - t < sample_interval)"
    using assms(3) by (auto simp: sample_interval_def millis_def split: option.splits)
  then have t: "emit_if_needed now False (apply_sample d c1) = (out, c')"
    using assms(2,4) by (simp add: congestion_tick_def Let_def c1_def d_def)
  have c1: "in_range c1" "cg_target_bps c1 = cg_target_bps c" "classify_sample d c1 = classify_sample d c"
      "cg_floor_bps c1 = cg_floor_bps c" "cg_last_emit_at c1 = cg_last_emit_at c"
    using assms(1) by (simp_all add: c1_def in_range_def classify_sample_def Let_def)
  have c': "cg_target_bps c' = cg_target_bps (apply_sample d c1)" using t emit_target(1) by (metis snd_conv)
  have bounds: "of_nat (step_target step_down_factor c1) * 100 \<le> (of_nat (cg_target_bps c1 * 76) :: rat)"
      "of_nat (step_target step_mild_factor c1) * 100 \<le> (of_nat (cg_target_bps c1 * 87) :: rat)"
    using step_target_le [of c1] by simp_all
  then have bounds: "step_target step_down_factor c1 * 100 \<le> cg_target_bps c1 * 76"
      "step_target step_mild_factor c1 * 100 \<le> cg_target_bps c1 * 87"
    by (metis of_nat_le_iff of_nat_mult of_nat_numeral)+
  note down = clamp_le_target [OF c1(1) step_target_below(1)] clamp_le_target [OF c1(1) step_target_below(2)]
  have jit: "step_target f (c1\<lparr>cg_jitter_high_last := j\<rparr>) = step_target f c1" for f j by (simp add: step_target_def)
  have severe: "cg_target_bps c' = clamp_bps (step_target step_down_factor c1) c1" if "classify_sample d c = Step_down_severe"
    using that c1(3) c' jit by (simp add: apply_sample_def Let_def)
  have mild: "cg_target_bps c' = clamp_bps (step_target step_mild_factor c1) c1" if "classify_sample d c = Step_down_mild"
    using that c1(3) c' jit by (simp add: apply_sample_def Let_def)
  have emit_at: "cg_last_emit_at (apply_sample d c1) = cg_last_emit_at c"
    by (auto simp: apply_sample_def Let_def apply_increase_def c1_def split: congestion_action.splits)
  have out: "(\<forall>v. out = Some v \<longrightarrow> v = cg_target_bps c' \<and> cg_last_emitted_bps c' = v \<and> cg_last_emit_at c' = Some now) \<and>
    (out = None \<longrightarrow> (\<exists>t. cg_last_emit_at c = Some t \<and> now - t < 2 * 1000000000) \<and>
       (abs_diff (cg_target_bps c') (cg_last_emitted_bps c') * 100 \<le> u32_max \<longrightarrow>
        abs_diff (cg_target_bps c') (cg_last_emitted_bps c') * 100 < cg_last_emitted_bps c' * 5))"
    using t emit_at by (auto simp: emit_if_needed_def Let_def remb_heartbeat_interval_def secs_def sat_mul_def
        split: if_splits option.splits)
  have "cg_target_bps c' \<le> cg_target_bps c \<and>
       (cg_target_bps c' * 100 \<le> cg_target_bps c * 76 \<or> cg_target_bps c' \<le> cg_floor_bps c)"
    if "classify_sample d c = Step_down_severe"
    using severe [OF that] down(1) bounds(1) c1 by (auto simp: max_def split: if_splits)
  moreover have "cg_target_bps c' \<le> cg_target_bps c \<and>
       (cg_target_bps c' * 100 \<le> cg_target_bps c * 87 \<or> cg_target_bps c' \<le> cg_floor_bps c)"
    if "classify_sample d c = Step_down_mild"
    using mild [OF that] down(2) bounds(2) c1 by (auto simp: max_def split: if_splits)
  ultimately show ?thesis using out unfolding d_def by blast
qed

lemma viewer_target_backs_off_witness:
  "\<exists>out c'. congestion_tick (sample_stats\<lparr>cs_gate_entries := 1\<rparr>) 1000000000
     (congestion_new 4000 H264\<lparr>cg_last_stats := Some sample_stats\<rparr>) = (out, c') \<and>
     cg_target_bps c' \<le> 4000000"
proof -
  define c where "c = congestion_new 4000 H264\<lparr>cg_last_stats := Some sample_stats\<rparr>"
  obtain out c' where t: "congestion_tick (sample_stats\<lparr>cs_gate_entries := 1\<rparr>) 1000000000 c = (out, c')" by fastforce
  have c: "in_range c" "cg_last_stats c = Some sample_stats" "cg_last_sample_at c = None" "cg_target_bps c = 4000000"
    by (simp_all add: c_def in_range_def congestion_new_def Let_def stream_floor_bps_def min_bitrate_kbps_def
        floor_kbps_def sat_mul_def u32_max_def)
  have "classify_sample (delta_since (sample_stats\<lparr>cs_gate_entries := 1\<rparr>) sample_stats) c = Step_down_severe"
    by (simp add: classify_sample_def delta_since_def sample_stats_def)
  with viewer_target_backs_off [OF c(1,2) _ t, THEN conjunct1] c t show ?thesis unfolding c_def [symmetric] by simp
qed

end
