(* ===== verification/Teardown.thy ===== *)
theory Teardown
  imports Machine
begin

text \<open>
  Bounded native teardown (\<open>stream/teardown.rs\<close>): the job on its own thread, the watchdog that
  reports it when the deadline passes, the process-wide count of hung teardowns, and the guard
  that starts a job once. The threads run freely, so the model is a step relation with one step
  per action on shared state: the \<open>done\<close> mutex is held by the watchdog from its check to the
  count (\<open>Marking\<close>, \<open>Counting\<close>), and \<open>finish\<close> reads \<open>hung\<close> under the same mutex. A job that
  never returns is a worker that takes no more steps.
\<close>

section \<open>One teardown\<close>

text \<open>A job is its actions in order: \<open>steps.step(name)\<close>, and native calls by name.\<close>

datatype job_action = Step string | Native string

datatype worker_phase = Running "job_action list" | After_finish bool | Worker_over

datatype watch_phase = Waiting | Marking | Counting | Reporting nat | Watch_over

record teardown =
  td_label :: string
  td_job :: "job_action list"
  td_ran :: "job_action list"
  td_done :: bool
  td_hung :: bool
  td_step :: string
  td_worker :: worker_phase
  td_watch :: watch_phase

record teardown_hang =
  th_label :: string
  th_step :: string
  th_total :: nat

text \<open>
  \<open>spawn_with_deadline\<close>: \<open>worker_ok\<close> and \<open>watchdog_ok\<close> say whether the threads start. With no
  worker the job is dropped unrun and \<open>finish\<close> runs at once, on a teardown that is not hung.
\<close>

definition spawn :: "bool \<Rightarrow> bool \<Rightarrow> string \<Rightarrow> job_action list \<Rightarrow> teardown" where
  "spawn worker_ok watchdog_ok label job =
     \<lparr>td_label = label, td_job = job, td_ran = [], td_done = \<not> worker_ok, td_hung = False,
      td_step = ''start'',
      td_worker = (if worker_ok then Running (Step ''start'' # job) else Worker_over),
      td_watch = (if worker_ok \<and> watchdog_ok then Waiting else Watch_over)\<rparr>"

definition run_action :: "job_action \<Rightarrow> teardown \<Rightarrow> teardown" where
  "run_action a t =
     (let t1 = t\<lparr>td_ran := td_ran t @ [a]\<rparr>
      in case a of Step name \<Rightarrow> t1\<lparr>td_step := name\<rparr> | Native _ \<Rightarrow> t1)"

definition lock_free :: "teardown \<Rightarrow> bool" where
  "lock_free t \<longleftrightarrow> td_watch t \<noteq> Marking \<and> td_watch t \<noteq> Counting"

text \<open>
  The steps of one teardown, with the process-wide count before and after and what it reports.
  The deadline is in the scheduling: \<open>wait_timeout_while\<close> may end once it passed.
\<close>

inductive td_step_rel :: "teardown \<Rightarrow> nat \<Rightarrow> teardown_hang option \<Rightarrow> teardown \<Rightarrow> nat \<Rightarrow> bool" where
  worker_action: "td_worker t = Running (a # rest) \<Longrightarrow>
    td_step_rel t n None (run_action a (t\<lparr>td_worker := Running rest\<rparr>)) n"
| worker_finish: "td_worker t = Running [] \<Longrightarrow> lock_free t \<Longrightarrow>
    td_step_rel t n None (t\<lparr>td_done := True, td_worker := After_finish (td_hung t)\<rparr>) n"
| worker_uncount: "td_worker t = After_finish True \<Longrightarrow>
    td_step_rel t n None (t\<lparr>td_worker := Worker_over\<rparr>) (n - 1)"
| worker_clean: "td_worker t = After_finish False \<Longrightarrow>
    td_step_rel t n None (t\<lparr>td_worker := Worker_over\<rparr>) n"
| watch_done: "td_watch t = Waiting \<Longrightarrow> td_done t \<Longrightarrow>
    td_step_rel t n None (t\<lparr>td_watch := Watch_over\<rparr>) n"
| watch_expire: "td_watch t = Waiting \<Longrightarrow> \<not> td_done t \<Longrightarrow>
    td_step_rel t n None (t\<lparr>td_watch := Marking\<rparr>) n"
| watch_mark: "td_watch t = Marking \<Longrightarrow>
    td_step_rel t n None (t\<lparr>td_hung := True, td_watch := Counting\<rparr>) n"
| watch_count: "td_watch t = Counting \<Longrightarrow>
    td_step_rel t n None (t\<lparr>td_watch := Reporting (n + 1)\<rparr>) (n + 1)"
| watch_report: "td_watch t = Reporting k \<Longrightarrow>
    td_step_rel t n (Some \<lparr>th_label = td_label t, th_step = td_step t, th_total = k\<rparr>)
      (t\<lparr>td_watch := Watch_over\<rparr>) n"

inductive_cases td_step_relE: "td_step_rel t n out t' n'"

section \<open>All teardowns of the process\<close>

record td_system =
  ts_hung :: nat
  ts_tds :: "teardown list"
  ts_reports :: "(nat \<times> teardown_hang) list"

inductive ts_step :: "td_system \<Rightarrow> td_system \<Rightarrow> bool" where
  ts_spawn: "ts_step s (s\<lparr>ts_tds := ts_tds s @ [spawn worker_ok watchdog_ok label job]\<rparr>)"
| ts_move: "i < length (ts_tds s) \<Longrightarrow> td_step_rel (ts_tds s ! i) (ts_hung s) out t' n' \<Longrightarrow>
    ts_step s (s\<lparr>ts_hung := n', ts_tds := (ts_tds s)[i := t'],
      ts_reports := ts_reports s @ (case out of None \<Rightarrow> [] | Some h \<Rightarrow> [(i, h)])\<rparr>)"

inductive ts_reach :: "td_system \<Rightarrow> bool" where
  ts_init: "ts_reach \<lparr>ts_hung = 0, ts_tds = [], ts_reports = []\<rparr>"
| ts_next: "ts_reach s \<Longrightarrow> ts_step s s' \<Longrightarrow> ts_reach s'"

text \<open>\<open>TeardownHandle::wait_timeout\<close> gives the flag it sees when the wait ends.\<close>

definition wait_timeout :: "teardown \<Rightarrow> bool" where
  "wait_timeout t = td_done t"

section \<open>The guard\<close>

record teardown_guard =
  tg_label :: string
  tg_job :: "job_action list option"

definition guard_new :: "string \<Rightarrow> job_action list \<Rightarrow> teardown_guard" where
  "guard_new label job = \<lparr>tg_label = label, tg_job = Some job\<rparr>"

definition guard_then :: "string \<Rightarrow> job_action list \<Rightarrow> teardown_guard \<Rightarrow> teardown_guard" where
  "guard_then label after g =
     g\<lparr>tg_job := Some ((case tg_job g of None \<Rightarrow> [] | Some first \<Rightarrow> first) @ [Step label] @ after)\<rparr>"

text \<open>What a drop starts, and what \<open>teardown\<close> starts with the drop of the guard after it.\<close>

definition guard_drop :: "teardown_guard \<Rightarrow> (string \<times> job_action list) list" where
  "guard_drop g = (case tg_job g of None \<Rightarrow> [] | Some job \<Rightarrow> [(tg_label g, job)])"

definition guard_teardown :: "teardown_guard \<Rightarrow> (string \<times> job_action list) list" where
  "guard_teardown g =
     (case tg_job g of None \<Rightarrow> [] | Some job \<Rightarrow> [(tg_label g, job)]) @ guard_drop (g\<lparr>tg_job := None\<rparr>)"

section \<open>The invariant\<close>

text \<open>
  A teardown counts as hung from the count of its watchdog to the subtraction of its worker.
  \<open>td_ok\<close> is what one teardown keeps; a report of it is out or to come at most once.
\<close>

definition counted :: "teardown \<Rightarrow> bool" where
  "counted t \<longleftrightarrow> td_hung t \<and> td_watch t \<noteq> Counting \<and> td_worker t \<noteq> Worker_over"

definition td_ok :: "teardown \<Rightarrow> bool" where
  "td_ok t \<longleftrightarrow>
     (case td_worker t of
        Running rest \<Rightarrow> \<not> td_done t \<and> td_ran t @ rest = Step ''start'' # td_job t
      | After_finish b \<Rightarrow> td_done t \<and> b = td_hung t \<and> lock_free t \<and> td_ran t = Step ''start'' # td_job t
      | Worker_over \<Rightarrow> td_done t \<and> lock_free t \<and> (td_ran t = Step ''start'' # td_job t \<or> td_ran t = [] \<and> \<not> td_hung t)) \<and>
     (td_watch t = Waiting \<or> td_watch t = Marking \<longrightarrow> \<not> td_hung t) \<and>
     (td_watch t = Counting \<or> (\<exists>k. td_watch t = Reporting k) \<longrightarrow> td_hung t) \<and>
     (td_step t = ''start'' \<or> Step (td_step t) \<in> set (td_ran t))"

lemma td_ok_spawn: "td_ok (spawn a b l j) \<and> \<not> counted (spawn a b l j)"
  by (simp add: td_ok_def spawn_def counted_def lock_free_def)

lemma td_ok_step:
  assumes "td_step_rel t n out t' n'" "td_ok t"
  shows "td_ok t'"
  using assms
proof cases
  case (worker_action a rest)
  with assms(2) show ?thesis
    by (cases a) (auto simp: td_ok_def run_action_def Let_def lock_free_def)
qed (auto simp: td_ok_def lock_free_def split: worker_phase.splits)

lemma td_step_count:
  assumes "td_step_rel t n out t' n'" "td_ok t"
  shows "n' + of_bool (counted t) = n + of_bool (counted t') \<or> (n' = n - 1 \<and> counted t \<and> \<not> counted t')"
  using assms
proof cases
  case (worker_action a rest)
  with assms(2) show ?thesis
    by (cases a) (auto simp: counted_def run_action_def Let_def)
qed (auto simp: td_ok_def counted_def lock_free_def split: worker_phase.splits)

text \<open>The reports of a teardown: one was made only if it hung and its watchdog is over.\<close>

definition reports_of :: "nat \<Rightarrow> td_system \<Rightarrow> teardown_hang list" where
  "reports_of i s = map snd (filter (\<lambda>(j, _). j = i) (ts_reports s))"

definition report_ok :: "teardown \<Rightarrow> teardown_hang list \<Rightarrow> bool" where
  "report_ok t rs \<longleftrightarrow> length rs \<le> 1 \<and> (rs \<noteq> [] \<longrightarrow> td_hung t \<and> td_watch t = Watch_over) \<and>
     (\<forall>r \<in> set rs. th_label r = td_label t \<and>
        (th_step r = ''start'' \<or> Step (th_step r) \<in> set (td_ran t)))"

definition ts_ok :: "td_system \<Rightarrow> bool" where
  "ts_ok s \<longleftrightarrow> (\<forall>t \<in> set (ts_tds s). td_ok t) \<and> ts_hung s = length (filter counted (ts_tds s)) \<and>
     (\<forall>i < length (ts_tds s). report_ok (ts_tds s ! i) (reports_of i s)) \<and>
     (\<forall>(i, _) \<in> set (ts_reports s). i < length (ts_tds s))"

lemma count_list_update:
  "i < length xs \<Longrightarrow> length (filter P (xs[i := y])) + of_bool (P (xs ! i)) = length (filter P xs) + of_bool (P y)"
proof (induction xs arbitrary: i)
  case Nil
  then show ?case by simp
next
  case (Cons x xs)
  then show ?case by (cases i) auto
qed

lemma report_ok_step:
  assumes "td_step_rel t n out t' n'" "td_ok t" "report_ok t rs"
  shows "report_ok t' (rs @ (case out of None \<Rightarrow> [] | Some h \<Rightarrow> [h]))"
  using assms
proof cases
  case (worker_action a rest)
  with assms(3) show ?thesis by (cases a) (auto simp: report_ok_def run_action_def Let_def)
qed (auto simp: report_ok_def td_ok_def split: worker_phase.splits)

lemma ts_ok_step:
  assumes "ts_step s s'" "ts_ok s"
  shows "ts_ok s'"
  using assms
proof cases
  case (ts_spawn worker_ok watchdog_ok label job)
  let ?t = "spawn worker_ok watchdog_ok label job"
  have none: "reports_of (length (ts_tds s)) s = []"
    using assms(2) by (auto simp: reports_of_def ts_ok_def filter_empty_conv)
  have "report_ok ((ts_tds s @ [?t]) ! i) (reports_of i s)" if "i < length (ts_tds s) + 1" for i
    using that assms(2) none by (cases "i = length (ts_tds s)") (auto simp: nth_append ts_ok_def report_ok_def)
  with ts_spawn assms(2) td_ok_spawn show ?thesis
    by (auto simp: ts_ok_def reports_of_def less_SucI)
next
  case (ts_move i out t' n')
  let ?t = "ts_tds s ! i"
  have t: "td_ok ?t" "report_ok ?t (reports_of i s)" using assms(2) ts_move by (simp_all add: ts_ok_def)
  have "length (filter counted ((ts_tds s)[i := t'])) + of_bool (counted ?t) = ts_hung s + of_bool (counted t')"
    using count_list_update [OF ts_move(2), of counted t'] assms(2) by (simp add: ts_ok_def)
  with td_step_count [OF ts_move(3) t(1)] have n: "n' = length (filter counted ((ts_tds s)[i := t']))" by auto
  have r: "reports_of j s' = reports_of j s @ (if j = i then (case out of None \<Rightarrow> [] | Some h \<Rightarrow> [h]) else [])" for j
    using ts_move(1) by (auto simp: reports_of_def split: option.splits)
  have "report_ok ((ts_tds s)[i := t'] ! j) (reports_of j s')" if "j < length (ts_tds s)" for j
    using that r report_ok_step [OF ts_move(3) t] assms(2) by (cases "j = i") (auto simp: ts_ok_def)
  moreover have "\<forall>u \<in> set ((ts_tds s)[i := t']). td_ok u"
    using assms(2) td_ok_step [OF ts_move(3) t(1)] by (auto simp: ts_ok_def dest: set_update_subset_insert [THEN subsetD])
  moreover have "\<forall>(j, _) \<in> set (ts_reports s'). j < length (ts_tds s)"
    using assms(2) ts_move(1,2) by (auto simp: ts_ok_def split: option.splits)
  ultimately show ?thesis using n ts_move(1) by (simp add: ts_ok_def)
qed

lemma ts_reach_ok: "ts_reach s \<Longrightarrow> ts_ok s"
proof (induction rule: ts_reach.induct)
  case ts_init
  then show ?case by (simp add: ts_ok_def)
next
  case (ts_next s s')
  then show ?case using ts_ok_step by blast
qed


section \<open>Properties\<close>

lemma td_ok_done: "td_ok t \<Longrightarrow> td_done t \<Longrightarrow> lock_free t"
  by (auto simp: td_ok_def split: worker_phase.splits)

text \<open>C15: whatever the teardowns of the process do and however their workers and watchdogs
  interleave, the count of hung teardowns is exactly the number of teardowns whose watchdog
  counted them and whose worker has not taken itself off again, so it never wraps, and it is zero
  once every worker is over; and a teardown that is done was never counted after the fact.\<close>

theorem hung_teardowns_exact:
  assumes "ts_reach s"
  shows "ts_hung s = length (filter counted (ts_tds s)) \<and>
    ((\<forall>t \<in> set (ts_tds s). td_worker t = Worker_over) \<longrightarrow> ts_hung s = 0) \<and>
    (\<forall>t \<in> set (ts_tds s). td_done t \<longrightarrow> td_watch t \<noteq> Marking \<and> td_watch t \<noteq> Counting)"
proof -
  note ok = ts_reach_ok [OF assms, unfolded ts_ok_def]
  have "filter counted (ts_tds s) = []" if "\<forall>t \<in> set (ts_tds s). td_worker t = Worker_over"
    using that by (auto simp: filter_empty_conv counted_def)
  moreover have "td_watch t \<noteq> Marking \<and> td_watch t \<noteq> Counting" if "t \<in> set (ts_tds s)" "td_done t" for t
    using ok that td_ok_done by (auto simp: lock_free_def)
  ultimately show ?thesis using ok by auto
qed

definition sample_hung :: td_system where
  "sample_hung = \<lparr>ts_hung = 1, ts_tds = [spawn True True ''stream_host'' [Native ''stop'']
     \<lparr>td_hung := True, td_watch := Reporting 1\<rparr>], ts_reports = []\<rparr>"

lemma ts_single_move:
  assumes "td_step_rel t n None t' n'"
  shows "ts_step \<lparr>ts_hung = n, ts_tds = [t], ts_reports = rs\<rparr> \<lparr>ts_hung = n', ts_tds = [t'], ts_reports = rs\<rparr>"
  using ts_move [where i = 0 and s = "\<lparr>ts_hung = n, ts_tds = [t], ts_reports = rs\<rparr>" and out = None] assms
  by fastforce

lemma sample_hung_reached: "ts_reach sample_hung"
proof -
  let ?s0 = "\<lparr>ts_hung = 0, ts_tds = [], ts_reports = []\<rparr> :: td_system"
  let ?t = "spawn True True ''stream_host'' [Native ''stop'']"
  have "ts_reach \<lparr>ts_hung = 0, ts_tds = [?t], ts_reports = []\<rparr>"
    using ts_next [OF ts_init ts_spawn [of ?s0 True True "''stream_host''" "[Native ''stop'']"]] by simp
  moreover have "td_step_rel ?t 0 None (?t\<lparr>td_watch := Marking\<rparr>) 0"
    by (rule watch_expire) (simp_all add: spawn_def)
  ultimately have "ts_reach \<lparr>ts_hung = 0, ts_tds = [(?t\<lparr>td_watch := Marking\<rparr>)], ts_reports = []\<rparr>" using ts_next ts_single_move by blast
  moreover have "td_step_rel (?t\<lparr>td_watch := Marking\<rparr>) 0 None (?t\<lparr>td_hung := True, td_watch := Counting\<rparr>) 0"
    using watch_mark [of "?t\<lparr>td_watch := Marking\<rparr>" 0] by simp
  ultimately have "ts_reach \<lparr>ts_hung = 0, ts_tds = [(?t\<lparr>td_hung := True, td_watch := Counting\<rparr>)], ts_reports = []\<rparr>" using ts_next ts_single_move by blast
  moreover have "td_step_rel (?t\<lparr>td_hung := True, td_watch := Counting\<rparr>) 0 None
      (?t\<lparr>td_hung := True, td_watch := Reporting 1\<rparr>) 1"
    using watch_count [of "?t\<lparr>td_hung := True, td_watch := Counting\<rparr>" 0] by simp
  ultimately have "ts_reach \<lparr>ts_hung = 1, ts_tds = [(?t\<lparr>td_hung := True, td_watch := Reporting 1\<rparr>)], ts_reports = []\<rparr>" using ts_next ts_single_move by blast
  then show ?thesis by (simp add: sample_hung_def)
qed

lemma hung_teardowns_exact_witness: "length (filter counted (ts_tds sample_hung)) = 1"
  using hung_teardowns_exact [OF sample_hung_reached] by (simp add: sample_hung_def)

text \<open>In every reachable state of the process, each teardown that started has run its actions
  in the order of its job, each once, and all of them once it is done; it is reported as hung at
  most once, only when it was marked hung before it was done, and with its own label and a step
  that it had started.\<close>

theorem teardown_runs_once_reported_once:
  assumes "ts_reach s" "i < length (ts_tds s)"
  defines "t \<equiv> ts_tds s ! i"
  shows "(\<exists>rest. td_ran t @ rest = Step ''start'' # td_job t) \<and>
    (wait_timeout t \<longrightarrow> td_ran t = Step ''start'' # td_job t \<or> td_ran t = []) \<and>
    length (reports_of i s) \<le> 1 \<and>
    (\<forall>r \<in> set (reports_of i s). td_hung t \<and> th_label r = td_label t \<and>
       (th_step r = ''start'' \<or> Step (th_step r) \<in> set (td_job t)))"
proof -
  note ok = ts_reach_ok [OF assms(1), unfolded ts_ok_def]
  have t: "td_ok t" "report_ok t (reports_of i s)" using ok assms(2) by (auto simp: t_def)
  from t(1) have ran: "\<exists>rest. td_ran t @ rest = Step ''start'' # td_job t"
    by (auto simp: td_ok_def split: worker_phase.splits)
  then have sub: "set (td_ran t) \<subseteq> insert (Step ''start'') (set (td_job t))"
    by (metis Un_upper1 list.simps(15) set_append)
  from t(1) have "td_done t \<longrightarrow> td_ran t = Step ''start'' # td_job t \<or> td_ran t = []"
    by (auto simp: td_ok_def split: worker_phase.splits)
  with ran t(2) sub show ?thesis by (auto simp: report_ok_def wait_timeout_def)
qed

lemma teardown_runs_once_reported_once_witness:
  "\<exists>rest. td_ran (ts_tds sample_hung ! 0) @ rest = Step ''start'' # td_job (ts_tds sample_hung ! 0)"
  using teardown_runs_once_reported_once [OF sample_hung_reached, of 0] by (simp add: sample_hung_def)

text \<open>A guard tears its object down exactly once on every exit path: dropped or torn down by
  name, it starts one teardown under its own label, whose job is the wrapped one followed by each
  added step and its action, in the order they were added.\<close>

theorem guard_tears_down_once:
  "let g = foldl (\<lambda>g (l, after). guard_then l after g) (guard_new label job) afters;
       whole = job @ concat (map (\<lambda>(l, after). Step l # after) afters)
   in guard_drop g = [(label, whole)] \<and> guard_teardown g = [(label, whole)]"
proof -
  have "tg_label (foldl (\<lambda>g (l, after). guard_then l after g) (guard_new label job) afters) = label \<and>
      tg_job (foldl (\<lambda>g (l, after). guard_then l after g) (guard_new label job) afters) =
        Some (job @ concat (map (\<lambda>(l, after). Step l # after) afters))"
    by (induction afters rule: rev_induct) (auto simp: guard_new_def guard_then_def)
  then show ?thesis by (simp add: Let_def guard_drop_def guard_teardown_def)
qed


end
