(* ===== verification/Reconnect.thy ===== *)
theory Reconnect
  imports Machine
begin

text \<open>
  The two reconnect state machines of the client: the supervisor of the realtime socket
  (\<open>client/reconnect.rs\<close>) and the stream link of a host or a viewer (\<open>client/stream_link.rs\<close>),
  with the attempt schedule and the token life of \<open>client/voice.rs\<close>. Both are pure decision
  logic: the clock and what the loop sees are arguments.
\<close>

section \<open>The supervisor of the realtime socket\<close>

definition wake_gap :: duration where "wake_gap = secs 30"
definition max_reconnect_backoff :: duration where "max_reconnect_backoff = secs 30"
definition heartbeat_interval :: duration where "heartbeat_interval = secs 60"

record decision =
  de_woke_from_sleep :: bool
  de_connection_lost_edge :: bool
  de_heartbeat_due :: bool
  de_attempt_reconnect :: bool

definition decision_default :: decision where
  "decision_default = \<lparr>de_woke_from_sleep = False, de_connection_lost_edge = False,
     de_heartbeat_due = False, de_attempt_reconnect = False\<rparr>"

record reconnect_supervisor =
  rs_ws_alive :: bool
  rs_attempt :: nat
  rs_next_at :: "instant option"
  rs_last_liveness_check :: "nat option"
  rs_last_heartbeat :: "instant option"

definition supervisor_new :: reconnect_supervisor where
  "supervisor_new = \<lparr>rs_ws_alive = False, rs_attempt = 0, rs_next_at = None,
     rs_last_liveness_check = None, rs_last_heartbeat = None\<rparr>"

definition rs_heartbeat_due :: "instant \<Rightarrow> reconnect_supervisor \<Rightarrow> bool" where
  "rs_heartbeat_due now s =
     (case rs_last_heartbeat s of None \<Rightarrow> True | Some t \<Rightarrow> duration_since now t \<ge> heartbeat_interval)"

text \<open>The wall clock may go back: \<open>duration_since\<close> is then an error and no wake.\<close>

definition rs_woke :: "nat \<Rightarrow> reconnect_supervisor \<Rightarrow> bool" where
  "rs_woke wall_now s =
     (case rs_last_liveness_check s of None \<Rightarrow> False
      | Some prev \<Rightarrow> if prev \<le> wall_now then wall_now - prev > wake_gap else False)"

definition rs_poll ::
  "instant \<Rightarrow> nat \<Rightarrow> bool \<Rightarrow> bool \<Rightarrow> reconnect_supervisor \<Rightarrow> decision \<times> reconnect_supervisor" where
  "rs_poll now wall_now connected0 has_session s0 =
     (let d = decision_default; woke = rs_woke wall_now s0;
          s = s0\<lparr>rs_last_liveness_check := Some wall_now\<rparr>
      in if \<not> has_session then (d, s)
         else
           let connected = (connected0 \<and> \<not> woke);
               d1 = d\<lparr>de_woke_from_sleep := woke\<rparr>;
               s1 = (if woke then s\<lparr>rs_next_at := Some now\<rparr> else s);
               lost = (rs_ws_alive s1 \<and> \<not> connected);
               d2 = d1\<lparr>de_connection_lost_edge := lost\<rparr>;
               s2 = (if lost \<and> rs_next_at s1 = None then s1\<lparr>rs_next_at := Some now\<rparr> else s1);
               s3 = s2\<lparr>rs_ws_alive := connected\<rparr>
           in if connected
              then let s4 = s3\<lparr>rs_attempt := 0, rs_next_at := None\<rparr>
                in (d2\<lparr>de_heartbeat_due := rs_heartbeat_due now s4\<rparr>, s4)
              else (d2\<lparr>de_attempt_reconnect := (case rs_next_at s3 of None \<Rightarrow> True | Some t \<Rightarrow> now \<ge> t)\<rparr>, s3))"

definition record_heartbeat :: "instant \<Rightarrow> reconnect_supervisor \<Rightarrow> reconnect_supervisor" where
  "record_heartbeat now s = s\<lparr>rs_last_heartbeat := Some now\<rparr>"

definition begin_reconnect_attempt :: "reconnect_supervisor \<Rightarrow> nat \<times> reconnect_supervisor" where
  "begin_reconnect_attempt s =
     (let s' = s\<lparr>rs_attempt := wrap_u u32_max (rs_attempt s + 1)\<rparr> in (rs_attempt s', s'))"

definition rs_backoff :: "reconnect_supervisor \<Rightarrow> duration" where
  "rs_backoff s = secs (min (min (2 ^ min (rs_attempt s) 5) u64_max) (max_reconnect_backoff div secs 1))"

definition record_reconnect_result :: "instant \<Rightarrow> bool \<Rightarrow> reconnect_supervisor \<Rightarrow> reconnect_supervisor" where
  "record_reconnect_result now ok s =
     (if ok then s\<lparr>rs_attempt := 0, rs_next_at := None, rs_ws_alive := True\<rparr>
      else s\<lparr>rs_next_at := Some (now + rs_backoff s)\<rparr>)"

section \<open>The schedule of the rejoin attempts\<close>

definition sfu_reconnect_first_delay :: duration where "sfu_reconnect_first_delay = millis 500"
definition sfu_reconnect_max_gap :: duration where "sfu_reconnect_max_gap = secs 2"
definition sfu_reconnect_give_up_after :: duration where "sfu_reconnect_give_up_after = secs 30"
definition sfu_voice_token_lifetime :: duration where "sfu_voice_token_lifetime = secs (5 * 60)"
definition sfu_voice_token_margin :: duration where "sfu_voice_token_margin = secs 15"

definition sfu_reconnect_delay :: "nat \<Rightarrow> duration" where
  "sfu_reconnect_delay attempt =
     (if attempt = 0 then sfu_reconnect_first_delay else if attempt = 1 then secs 1 else sfu_reconnect_max_gap)"

definition grant_is_fresh :: "instant \<Rightarrow> instant \<Rightarrow> bool" where
  "grant_is_fresh issued_at now \<longleftrightarrow> now < issued_at + sfu_voice_token_lifetime - sfu_voice_token_margin"

section \<open>The stream link\<close>

definition link_stall :: duration where "link_stall = millis 700"
definition link_rebuild :: duration where "link_rebuild = secs 5"
definition host_silent_after :: duration where "host_silent_after = millis 700"

text \<open>\<open>ws_silent_ms\<close> and \<open>pong_age_ms\<close> are the counters of the SFU connection.\<close>

definition own_link_silence :: "nat \<Rightarrow> int \<Rightarrow> instant \<Rightarrow> instant \<Rightarrow> duration" where
  "own_link_silence ws_silent_ms pong_age_ms connected_at now =
     (let since_connect = duration_since now connected_at;
          ws = min (millis ws_silent_ms) since_connect;
          dc = (if pong_age_ms < 0 then since_connect else millis (nat pong_age_ms))
      in min ws dc)"

datatype stream_role = Host | Viewer
datatype link_action = Show_reconnecting | Show_resumed | Rejoin | Give_up
datatype cause = Own_link | Host_cause

record link_observation =
  lo_own_silent :: duration
  lo_host_silent :: "duration option"
  lo_new_frame :: bool

record rebuild =
  rb_dropped_at :: instant
  rb_attempt :: nat
  rb_next_at :: instant
  rb_running :: bool
  rb_started_at :: instant

record stream_link =
  sl_role :: stream_role
  sl_reconnecting_since :: "instant option"
  sl_cause :: "cause option"
  sl_rebuild :: "rebuild option"
  sl_gave_up :: bool

definition link_new :: "stream_role \<Rightarrow> stream_link" where
  "link_new r = \<lparr>sl_role = r, sl_reconnecting_since = None, sl_cause = None, sl_rebuild = None, sl_gave_up = False\<rparr>"

definition attempt_number :: "stream_link \<Rightarrow> nat" where
  "attempt_number l = (case sl_rebuild l of None \<Rightarrow> 0 | Some r \<Rightarrow> rb_attempt r + 1)"

text \<open>The helpers append to a list of actions; here each gives the actions it adds.\<close>

definition show_reconnecting :: "instant \<Rightarrow> cause \<Rightarrow> stream_link \<Rightarrow> link_action list \<times> stream_link" where
  "show_reconnecting since c l =
     (let (acts, l1) = (if sl_reconnecting_since l = None
            then ([Show_reconnecting], l\<lparr>sl_reconnecting_since := Some since\<rparr>) else ([], l))
      in (acts, if sl_cause l1 \<noteq> Some Own_link then l1\<lparr>sl_cause := Some c\<rparr> else l1))"

definition link_resume :: "stream_link \<Rightarrow> link_action list \<times> stream_link" where
  "link_resume l =
     (if sl_reconnecting_since l \<noteq> None then [Show_resumed] else [],
      l\<lparr>sl_reconnecting_since := None, sl_cause := None\<rparr>)"

definition link_give_up :: "stream_link \<Rightarrow> link_action list \<times> stream_link" where
  "link_give_up l = (if \<not> sl_gave_up l then ([Give_up], l\<lparr>sl_gave_up := True\<rparr>) else ([], l))"

definition start_rebuild :: "instant \<Rightarrow> instant \<Rightarrow> stream_link \<Rightarrow> stream_link" where
  "start_rebuild now dropped_at l =
     (if sl_rebuild l = None
      then l\<lparr>sl_rebuild := Some \<lparr>rb_dropped_at = dropped_at, rb_attempt = 0,
        rb_next_at = max (dropped_at + sfu_reconnect_delay 0) now, rb_running = False, rb_started_at = now\<rparr>\<rparr>
      else l)"

definition poll_rebuild :: "instant \<Rightarrow> stream_link \<Rightarrow> link_action list \<times> stream_link" where
  "poll_rebuild now l =
     (case sl_rebuild l of
        None \<Rightarrow> ([], l)
      | Some r \<Rightarrow>
          if duration_since now (rb_dropped_at r) \<ge> sfu_reconnect_give_up_after then link_give_up l
          else if \<not> rb_running r \<and> now \<ge> rb_next_at r
          then ([Rejoin], l\<lparr>sl_rebuild := Some (r\<lparr>rb_running := True, rb_started_at := now\<rparr>)\<rparr>)
          else ([], l))"

definition on_dropped :: "instant \<Rightarrow> stream_link \<Rightarrow> link_action list \<times> stream_link" where
  "on_dropped now l =
     (if sl_gave_up l then ([], l)
      else
        let dropped_at = (case sl_reconnecting_since l of Some t \<Rightarrow> t | None \<Rightarrow> now);
            (a1, l1) = show_reconnecting now Own_link l;
            l2 = start_rebuild now dropped_at (l1\<lparr>sl_cause := Some Own_link\<rparr>);
            (a2, l3) = poll_rebuild now l2
        in (a1 @ a2, l3))"

definition on_host_reconnecting :: "instant \<Rightarrow> stream_link \<Rightarrow> link_action list \<times> stream_link" where
  "on_host_reconnecting now l = (if \<not> sl_gave_up l then show_reconnecting now Host_cause l else ([], l))"

definition on_attempt_failed :: "instant \<Rightarrow> stream_link \<Rightarrow> stream_link" where
  "on_attempt_failed now l =
     (case sl_rebuild l of None \<Rightarrow> l
      | Some r \<Rightarrow> l\<lparr>sl_rebuild := Some (r\<lparr>rb_running := False, rb_attempt := wrap_u u32_max (rb_attempt r + 1),
          rb_next_at := max (rb_started_at r + sfu_reconnect_delay (wrap_u u32_max (rb_attempt r + 1))) now\<rparr>)\<rparr>)"

definition on_rejoined :: "instant \<Rightarrow> stream_link \<Rightarrow> link_action list \<times> stream_link" where
  "on_rejoined now l0 =
     (let l = l0\<lparr>sl_rebuild := None\<rparr>
      in case sl_role l of
           Host \<Rightarrow> link_resume l
         | Viewer \<Rightarrow>
             (if sl_reconnecting_since l = None then [Show_reconnecting] else [],
              l\<lparr>sl_reconnecting_since := Some (case sl_reconnecting_since l of None \<Rightarrow> now | Some t \<Rightarrow> t),
                sl_cause := Some Host_cause\<rparr>))"

definition since_of :: "instant \<Rightarrow> duration \<Rightarrow> instant" where
  "since_of now silent = (case checked_sub now silent of Some t \<Rightarrow> t | None \<Rightarrow> now)"

definition link_observe :: "instant \<Rightarrow> link_observation \<Rightarrow> stream_link \<Rightarrow> link_action list \<times> stream_link" where
  "link_observe now seen l =
     (if sl_gave_up l then ([], l)
      else if sl_rebuild l \<noteq> None then poll_rebuild now l
      else if lo_own_silent seen \<ge> link_stall
      then let silent_since = since_of now (lo_own_silent seen);
               (a1, l1) = show_reconnecting silent_since Own_link l;
               l2 = l1\<lparr>sl_cause := Some Own_link\<rparr>
        in if lo_own_silent seen \<ge> link_rebuild
           then let dropped_at = (case sl_reconnecting_since l2 of Some t \<Rightarrow> t | None \<Rightarrow> silent_since);
                    (a2, l3) = poll_rebuild now (start_rebuild now dropped_at l2)
             in (a1 @ a2, l3)
           else (a1, l2)
      else case sl_role l of
        Host \<Rightarrow> if sl_reconnecting_since l \<noteq> None then link_resume l else ([], l)
      | Viewer \<Rightarrow>
          let (a1, l1) =
                (if lo_new_frame seen then link_resume l
                 else if (case lo_host_silent seen of None \<Rightarrow> False | Some d \<Rightarrow> d \<ge> host_silent_after)
                 then show_reconnecting (since_of now (case lo_host_silent seen of None \<Rightarrow> 0 | Some d \<Rightarrow> d)) Host_cause l
                 else ([], l));
              (a2, l2) =
                (case sl_reconnecting_since l1 of
                   None \<Rightarrow> ([], l1)
                 | Some since \<Rightarrow>
                     if duration_since now since \<ge> sfu_reconnect_give_up_after then link_give_up l1 else ([], l1))
          in (a1 @ a2, l2))"


section \<open>The supervisor decides once per loss\<close>

text \<open>A poll of the supervisor: without a session it decides nothing; a heartbeat and a
  reconnect attempt never come in one tick, a heartbeat only with the socket up and no wake, an
  attempt only with it down; the lost banner comes exactly when the socket was alive and is not;
  a wake from sleep counts as a loss and attempts at once; and after a failed attempt the next
  one is due exactly when its backoff of 2, 4, 8, 16 and then 30 seconds is over.\<close>

theorem supervisor_poll_decides:
  assumes "rs_poll now wall connected session s = (d, s')"
  shows "(\<not> session \<longrightarrow> d = decision_default \<and> s' = s\<lparr>rs_last_liveness_check := Some wall\<rparr>) \<and>
    (session \<longrightarrow>
       (de_heartbeat_due d \<longrightarrow> connected \<and> \<not> rs_woke wall s \<and> \<not> de_attempt_reconnect d) \<and>
       (de_attempt_reconnect d \<longrightarrow> \<not> connected \<or> rs_woke wall s) \<and>
       de_connection_lost_edge d = (rs_ws_alive s \<and> \<not> rs_ws_alive s') \<and>
       rs_ws_alive s' = (connected \<and> \<not> rs_woke wall s) \<and>
       (rs_woke wall s \<longrightarrow> de_woke_from_sleep d \<and> de_attempt_reconnect d)) \<and>
    (session \<longrightarrow> \<not> connected \<longrightarrow> \<not> rs_woke wall s \<longrightarrow>
       (\<forall>t s0. s = record_reconnect_result t False s0 \<longrightarrow>
          de_attempt_reconnect d = (now \<ge> t + secs (min (2 ^ min (rs_attempt s0) 5) 30))))"
proof -
  have "rs_backoff s0 = secs (min (2 ^ min (rs_attempt s0) 5) 30)" for s0 :: reconnect_supervisor
  proof -
    have "(2 :: nat) ^ min (rs_attempt s0) 5 \<le> 2 ^ 5" by (intro power_increasing) simp_all
    then show ?thesis by (simp add: rs_backoff_def max_reconnect_backoff_def secs_def u64_max_def min_def)
  qed
  with assms show ?thesis
    by (auto simp: rs_poll_def Let_def decision_default_def record_reconnect_result_def
        split: if_splits option.splits)
qed

lemma supervisor_poll_decides_witness:
  "de_attempt_reconnect (fst (rs_poll (secs 5) 0 False True (record_reconnect_result (secs 1) False
     (supervisor_new\<lparr>rs_attempt := 2\<rparr>)))) = (secs 5 \<ge> secs 1 + secs 4)"
proof -
  let ?s = "record_reconnect_result (secs 1) False (supervisor_new\<lparr>rs_attempt := 2\<rparr>)"
  obtain d s' where p: "rs_poll (secs 5) 0 False True ?s = (d, s')" by fastforce
  have "\<not> rs_woke 0 ?s" by (simp add: rs_woke_def record_reconnect_result_def supervisor_new_def)
  with supervisor_poll_decides [OF p, THEN conjunct2, THEN conjunct2] p show ?thesis by fastforce
qed

datatype rs_event = Poll instant nat bool bool | Heartbeat instant | Begin_attempt | Result instant bool

fun rs_step :: "reconnect_supervisor \<Rightarrow> rs_event \<Rightarrow> reconnect_supervisor" where
  "rs_step s (Poll now wall c session) = snd (rs_poll now wall c session s)"
| "rs_step s (Heartbeat now) = record_heartbeat now s"
| "rs_step s Begin_attempt = snd (begin_reconnect_attempt s)"
| "rs_step s (Result now ok) = record_reconnect_result now ok s"

text \<open>The marks of a run: \<open>False\<close> for a lost banner, \<open>True\<close> when the socket comes alive.\<close>

definition rs_marks_of :: "reconnect_supervisor \<Rightarrow> rs_event \<Rightarrow> bool list" where
  "rs_marks_of s e =
     (case e of Poll now wall c session \<Rightarrow>
        if de_connection_lost_edge (fst (rs_poll now wall c session s)) then [False] else [] | _ \<Rightarrow> []) @
     (if rs_ws_alive (rs_step s e) \<and> \<not> rs_ws_alive s then [True] else [])"

fun rs_marks :: "reconnect_supervisor \<Rightarrow> rs_event list \<Rightarrow> bool list" where
  "rs_marks s [] = []"
| "rs_marks s (e # es) = rs_marks_of s e @ rs_marks (rs_step s e) es"

lemma rs_marks_step:
  "rs_marks_of s e = (if rs_ws_alive s = rs_ws_alive (rs_step s e) then [] else [rs_ws_alive (rs_step s e)])"
proof (cases e)
  case (Poll now wall c session)
  have "de_connection_lost_edge (fst (rs_poll now wall c session s)) \<longleftrightarrow>
      rs_ws_alive s \<and> \<not> rs_ws_alive (snd (rs_poll now wall c session s))"
    by (auto simp: rs_poll_def Let_def decision_default_def)
  with Poll show ?thesis by (auto simp: rs_marks_of_def)
qed (auto simp: rs_marks_of_def record_heartbeat_def begin_reconnect_attempt_def Let_def
    record_reconnect_result_def)

text \<open>The user sees one lost banner per loss: over any run the lost banners and the times the
  socket comes alive alternate, starting with alive.\<close>

theorem lost_banner_once:
  "successively (\<noteq>) (rs_ws_alive s # rs_marks s es) \<and>
   (rs_marks supervisor_new es = [] \<or> hd (rs_marks supervisor_new es))"
proof -
  have alt: "successively (\<noteq>) (rs_ws_alive s # rs_marks s es)" for s es
  proof (induction es arbitrary: s)
    case Nil
    then show ?case by simp
  next
    case (Cons e es)
    from Cons.IH [of "rs_step s e"] show ?case by (simp add: rs_marks_step)
  qed
  from alt [of supervisor_new es] have "rs_marks supervisor_new es = [] \<or> hd (rs_marks supervisor_new es)"
    by (cases "rs_marks supervisor_new es") (simp_all add: supervisor_new_def)
  with alt show ?thesis by simp
qed

section \<open>The stream link follows its monitor\<close>

datatype link_event =
    Dropped instant | Host_lost instant | Attempt_failed instant | Rejoined instant
  | Observe instant link_observation

fun link_step :: "link_event \<Rightarrow> stream_link \<Rightarrow> link_action list \<times> stream_link" where
  "link_step (Dropped now) l = on_dropped now l"
| "link_step (Host_lost now) l = on_host_reconnecting now l"
| "link_step (Attempt_failed now) l = ([], on_attempt_failed now l)"
| "link_step (Rejoined now) l = on_rejoined now l"
| "link_step (Observe now seen) l = link_observe now seen l"

text \<open>
  What a user of the link may rely on, as a monitor over its actions and the two reports of an
  attempt's end: whether "reconnecting" is shown, an attempt is open, the link gave up.
\<close>

fun monitor_act :: "link_action \<Rightarrow> bool \<times> bool \<times> bool \<Rightarrow> (bool \<times> bool \<times> bool) option" where
  "monitor_act Show_reconnecting (shown, attempt_open, gave) = (if shown then None else Some (True, attempt_open, gave))"
| "monitor_act Show_resumed (shown, attempt_open, gave) = (if shown then Some (False, attempt_open, gave) else None)"
| "monitor_act Rejoin (shown, attempt_open, gave) = (if attempt_open \<or> gave then None else Some (shown, True, gave))"
| "monitor_act Give_up (shown, attempt_open, gave) = (if gave then None else Some (shown, attempt_open, True))"

fun monitor_acts :: "link_action list \<Rightarrow> bool \<times> bool \<times> bool \<Rightarrow> (bool \<times> bool \<times> bool) option" where
  "monitor_acts [] st = Some st"
| "monitor_acts (a # as) st = Option.bind (monitor_act a st) (monitor_acts as)"

fun monitor_event :: "link_event \<Rightarrow> bool \<times> bool \<times> bool \<Rightarrow> bool \<times> bool \<times> bool" where
  "monitor_event (Attempt_failed now) (shown, attempt_open, gave) = (shown, False, gave)"
| "monitor_event (Rejoined now) (shown, attempt_open, gave) = (shown, False, gave)"
| "monitor_event e st = st"

fun monitor_run :: "link_event list \<Rightarrow> stream_link \<Rightarrow> bool \<times> bool \<times> bool \<Rightarrow> (bool \<times> bool \<times> bool) option" where
  "monitor_run [] l st = Some st"
| "monitor_run (e # es) l st =
     Option.bind (monitor_acts (fst (link_step e l)) (monitor_event e st)) (monitor_run es (snd (link_step e l)))"

definition link_abs :: "stream_link \<Rightarrow> bool \<times> bool \<times> bool" where
  "link_abs l = (sl_reconnecting_since l \<noteq> None,
     (case sl_rebuild l of None \<Rightarrow> False | Some r \<Rightarrow> rb_running r), sl_gave_up l)"

lemma monitor_append: "monitor_acts (as @ bs) st = Option.bind (monitor_acts as st) (monitor_acts bs)"
  by (induction as arbitrary: st) (auto split: bind_splits)

lemma show_reconnecting_monitor:
  "show_reconnecting since c l = (a, l') \<Longrightarrow> monitor_acts a (link_abs l) = Some (link_abs l')"
  by (auto simp: show_reconnecting_def link_abs_def split: if_splits)

lemma link_resume_monitor: "link_resume l = (a, l') \<Longrightarrow> monitor_acts a (link_abs l) = Some (link_abs l')"
  by (auto simp: link_resume_def link_abs_def split: if_splits)

lemma link_give_up_monitor: "link_give_up l = (a, l') \<Longrightarrow> monitor_acts a (link_abs l) = Some (link_abs l')"
  by (auto simp: link_give_up_def link_abs_def split: if_splits)

lemma start_rebuild_monitor: "link_abs (start_rebuild now t l) = link_abs l"
  by (auto simp: start_rebuild_def link_abs_def split: option.splits)

lemma poll_rebuild_monitor:
  "poll_rebuild now l = (a, l') \<Longrightarrow> \<not> sl_gave_up l \<Longrightarrow> monitor_acts a (link_abs l) = Some (link_abs l')"
  using link_give_up_monitor [of l a l']
  by (auto simp: poll_rebuild_def split: option.splits if_splits) (auto simp: link_abs_def)

lemma link_cause_abs [simp]: "link_abs (l\<lparr>sl_cause := c\<rparr>) = link_abs l"
  by (simp add: link_abs_def)

lemma gave_up_frame [simp]:
  "sl_gave_up (snd (show_reconnecting since c l)) = sl_gave_up l"
  "sl_gave_up (start_rebuild now t l) = sl_gave_up l"
  "sl_gave_up (snd (link_resume l)) = sl_gave_up l"
  by (simp_all add: show_reconnecting_def start_rebuild_def link_resume_def)


lemma on_dropped_monitor:
  "on_dropped now l = (a, l') \<Longrightarrow> monitor_acts a (link_abs l) = Some (link_abs l')"
proof (cases "sl_gave_up l")
  case True
  assume "on_dropped now l = (a, l')"
  with True show ?thesis by (simp add: on_dropped_def)
next
  case False
  assume d: "on_dropped now l = (a, l')"
  define t where "t = (case sl_reconnecting_since l of Some t \<Rightarrow> t | None \<Rightarrow> now)"
  obtain a1 l1 where 1: "show_reconnecting now Own_link l = (a1, l1)" by fastforce
  define l2 where "l2 = start_rebuild now t (l1\<lparr>sl_cause := Some Own_link\<rparr>)"
  obtain a2 l3 where 2: "poll_rebuild now l2 = (a2, l3)" by fastforce
  have "\<not> sl_gave_up l2" using False gave_up_frame(1) [of now Own_link l] 1 by (simp add: l2_def)
  moreover have "link_abs l2 = link_abs l1" by (simp add: l2_def start_rebuild_monitor)
  moreover have "a = a1 @ a2" "l' = l3" using d False 1 2 by (simp_all add: on_dropped_def Let_def t_def l2_def)
  ultimately show ?thesis
    using show_reconnecting_monitor [OF 1] poll_rebuild_monitor [OF 2] by (simp add: monitor_append)
qed

lemma link_observe_monitor:
  assumes "link_observe now seen l = (a, l')"
  shows "monitor_acts a (link_abs l) = Some (link_abs l')"
proof -
  consider (gone) "sl_gave_up l" | (rebuild) "\<not> sl_gave_up l" "sl_rebuild l \<noteq> None"
    | (silent) "\<not> sl_gave_up l" "sl_rebuild l = None" "lo_own_silent seen \<ge> link_stall"
    | (host) "\<not> sl_gave_up l" "sl_rebuild l = None" "\<not> lo_own_silent seen \<ge> link_stall" "sl_role l = Host"
    | (viewer) "\<not> sl_gave_up l" "sl_rebuild l = None" "\<not> lo_own_silent seen \<ge> link_stall" "sl_role l = Viewer"
    by (meson stream_role.exhaust)
  then show ?thesis
  proof cases
    case gone
    with assms show ?thesis by (simp add: link_observe_def)
  next
    case rebuild
    with assms show ?thesis by (intro poll_rebuild_monitor) (auto simp: link_observe_def)
  next
    case silent
    define t where "t = since_of now (lo_own_silent seen)"
    obtain a1 l1 where 1: "show_reconnecting t Own_link l = (a1, l1)" by fastforce
    define l2 where "l2 = l1\<lparr>sl_cause := Some Own_link\<rparr>"
    define l3 where "l3 = start_rebuild now (case sl_reconnecting_since l2 of Some t \<Rightarrow> t
      | None \<Rightarrow> since_of now (lo_own_silent seen)) l2"
    obtain a2 l4 where 2: "poll_rebuild now l3 = (a2, l4)" by fastforce
    have g: "\<not> sl_gave_up l3" using silent gave_up_frame(1) [of t Own_link l] 1 by (simp add: l3_def l2_def)
    have abs: "link_abs l3 = link_abs l1" "link_abs l2 = link_abs l1"
      by (simp_all add: l3_def l2_def start_rebuild_monitor)
    have "(a, l') = (if lo_own_silent seen \<ge> link_rebuild then (a1 @ a2, l4) else (a1, l2))"
      using assms silent 1 2 by (auto simp: link_observe_def Let_def t_def l2_def l3_def split: if_splits)
    with show_reconnecting_monitor [OF 1] poll_rebuild_monitor [OF 2 g] abs show ?thesis
      by (auto simp: monitor_append split: if_splits)
  next
    case host
    with assms have "(a, l') = (if sl_reconnecting_since l \<noteq> None then link_resume l else ([], l))"
      by (simp add: link_observe_def)
    with link_resume_monitor show ?thesis by (auto split: if_splits)
  next
    case viewer
    obtain a1 l1 where 1: "(if lo_new_frame seen then link_resume l
        else if (case lo_host_silent seen of None \<Rightarrow> False | Some d \<Rightarrow> d \<ge> host_silent_after)
        then show_reconnecting (since_of now (case lo_host_silent seen of None \<Rightarrow> 0 | Some d \<Rightarrow> d)) Host_cause l
        else ([], l)) = (a1, l1)" by fastforce
    obtain a2 l2 where 2: "(case sl_reconnecting_since l1 of None \<Rightarrow> ([], l1)
        | Some since \<Rightarrow> if duration_since now since \<ge> sfu_reconnect_give_up_after then link_give_up l1 else ([], l1)) = (a2, l2)"
      by fastforce
    have "a = a1 @ a2" "l' = l2" using assms viewer 1 2 by (simp_all add: link_observe_def)
    moreover have "monitor_acts a1 (link_abs l) = Some (link_abs l1)"
      using 1 link_resume_monitor show_reconnecting_monitor by (auto split: if_splits)
    moreover have "monitor_acts a2 (link_abs l1) = Some (link_abs l2)"
      using 2 link_give_up_monitor by (auto split: option.splits if_splits)
    ultimately show ?thesis by (simp add: monitor_append)
  qed
qed

lemma link_step_monitor:
  "monitor_acts (fst (link_step e l)) (monitor_event e (link_abs l)) = Some (link_abs (snd (link_step e l)))"
proof (cases e)
  case (Dropped now)
  obtain a l' where "on_dropped now l = (a, l')" by fastforce
  with Dropped on_dropped_monitor [of now l a l'] show ?thesis by (simp add: link_abs_def)
next
  case (Host_lost now)
  obtain a l' where "show_reconnecting now Host_cause l = (a, l')" by fastforce
  with Host_lost show_reconnecting_monitor [of now Host_cause l a l'] show ?thesis
    by (auto simp: on_host_reconnecting_def link_abs_def)
next
  case (Attempt_failed now)
  then show ?thesis by (auto simp: on_attempt_failed_def link_abs_def split: option.splits)
next
  case (Rejoined now)
  then show ?thesis
    by (auto simp: on_rejoined_def Let_def link_resume_def link_abs_def split: stream_role.splits)
next
  case (Observe now seen)
  obtain a l' where "link_observe now seen l = (a, l')" by fastforce
  with Observe link_observe_monitor [of now seen l a l'] show ?thesis by (simp add: link_abs_def)
qed

lemma link_run_monitor:
  "monitor_run es l (link_abs l) = Some (link_abs (foldl (\<lambda>l e. snd (link_step e l)) l es))"
  by (induction es arbitrary: l) (simp_all add: link_step_monitor)

text \<open>C24: whatever a stream link sees, in whatever order, its actions follow the monitor:
  "reconnecting" and "resumed" alternate, at most one rejoin attempt is open at a time, the link
  gives up at most once and starts no attempt after that; and its own state is that of the
  monitor after every run.\<close>

theorem link_follows_monitor:
  "monitor_run es (link_new role) (False, False, False) =
     Some (link_abs (foldl (\<lambda>l e. snd (link_step e l)) (link_new role) es))"
  using link_run_monitor [of es "link_new role"] by (simp add: link_abs_def link_new_def)

section \<open>The schedule of a rebuild\<close>

text \<open>While a link rebuilds and has not given up, a tick 30 seconds or more after the drop gives
  up and nothing else; before that, a tick starts the next attempt exactly when none runs and its
  time has come, and after a failed attempt that time is half a second, one second and then two
  seconds after the start of the attempt that failed, or at once where that has passed.\<close>

theorem rejoin_schedule:
  assumes "sl_rebuild l = Some r" "\<not> sl_gave_up l"
  shows "(30 * 1000000000 \<le> now - rb_dropped_at r \<longrightarrow>
       fst (link_observe now seen l) = [Give_up] \<and> sl_gave_up (snd (link_observe now seen l))) \<and>
    (now - rb_dropped_at r < 30 * 1000000000 \<longrightarrow>
       fst (link_observe now seen l) = (if \<not> rb_running r \<and> rb_next_at r \<le> now then [Rejoin] else []) \<and>
       (\<not> rb_running r \<longrightarrow> rb_next_at r \<le> now \<longrightarrow>
          sl_rebuild (snd (link_observe now seen l)) = Some (r\<lparr>rb_running := True, rb_started_at := now\<rparr>))) \<and>
    (rb_attempt r < u32_max \<longrightarrow>
       sl_rebuild (on_attempt_failed t l) = Some (r\<lparr>rb_running := False, rb_attempt := rb_attempt r + 1,
         rb_next_at := max (rb_started_at r + (if rb_attempt r = 0 then secs 1 else secs 2)) t\<rparr>))"
  using assms
  by (auto simp: link_observe_def poll_rebuild_def link_give_up_def sfu_reconnect_give_up_after_def secs_def
      on_attempt_failed_def sfu_reconnect_delay_def sfu_reconnect_max_gap_def not_le)

lemma rejoin_schedule_witness:
  "fst (link_observe (secs 31) \<lparr>lo_own_silent = 0, lo_host_silent = None, lo_new_frame = False\<rparr>
     (snd (on_dropped 0 (link_new Host)))) = [Give_up]"
proof -
  let ?l = "snd (on_dropped 0 (link_new Host))"
  have "sl_rebuild ?l = Some \<lparr>rb_dropped_at = 0, rb_attempt = 0, rb_next_at = millis 500, rb_running = False, rb_started_at = 0\<rparr>"
      "\<not> sl_gave_up ?l"
    by (simp_all add: on_dropped_def link_new_def show_reconnecting_def start_rebuild_def poll_rebuild_def
        sfu_reconnect_delay_def sfu_reconnect_first_delay_def sfu_reconnect_give_up_after_def secs_def millis_def)
  from rejoin_schedule [OF this, of "secs 31"] show ?thesis by (simp add: secs_def)
qed

end
