(* ===== verification/Loop_Watchdog.thy ===== *)
theory Loop_Watchdog
  imports Machine
begin

text \<open>
  The watchdog of the command loop (\<open>client/loop_watchdog.rs\<close>): which step runs, the check of the
  watchdog thread, the end of a step, the times of the steps of a voice tick and the budget
  report. What the code logs is a value here; a budget line carries the numbers of its text.
\<close>

definition slow_command :: duration where "slow_command = millis 500"
definition blocked_command :: duration where "blocked_command = secs 2"
definition voice_tick_budget_time :: duration where "voice_tick_budget_time = millis 5"
definition voice_tick_report_interval :: duration where "voice_tick_report_interval = secs 10"

record current_step =
  cu_name :: "string option"
  cu_started :: "instant option"
  cu_reported_blocked :: bool

definition current_default :: current_step where
  "current_default = \<lparr>cu_name = None, cu_started = None, cu_reported_blocked = False\<rparr>"

datatype watchdog_line = Blocked string duration | Released string duration | Slow string duration

definition step_start :: "string \<Rightarrow> instant \<Rightarrow> current_step \<Rightarrow> current_step" where
  "step_start name now c = c\<lparr>cu_name := Some name, cu_started := Some now, cu_reported_blocked := False\<rparr>"

definition step_end :: "instant \<Rightarrow> current_step \<Rightarrow> watchdog_line list \<times> current_step" where
  "step_end now c =
     ((case (cu_name c, cu_started c) of
         (Some name, Some started) \<Rightarrow>
           let elapsed = duration_since now started
           in if cu_reported_blocked c then [Released name elapsed]
              else if elapsed \<ge> slow_command then [Slow name elapsed] else []
       | _ \<Rightarrow> []),
      c\<lparr>cu_name := None, cu_started := None, cu_reported_blocked := False\<rparr>)"

definition watchdog_check :: "duration \<Rightarrow> instant \<Rightarrow> current_step \<Rightarrow> watchdog_line list \<times> current_step" where
  "watchdog_check blocked_after now c =
     (case (cu_name c, cu_started c) of
        (Some name, Some started) \<Rightarrow>
          if cu_reported_blocked c \<or> duration_since now started < blocked_after then ([], c)
          else ([Blocked name (duration_since now started)], c\<lparr>cu_reported_blocked := True\<rparr>)
      | _ \<Rightarrow> ([], c))"

section \<open>The steps of a voice tick\<close>

record tick_steps =
  tk_started :: instant
  tk_last :: instant
  tk_slowest :: "(string \<times> duration) option"

definition tick_start :: "instant \<Rightarrow> tick_steps" where
  "tick_start now = \<lparr>tk_started = now, tk_last = now, tk_slowest = None\<rparr>"

definition tick_record :: "string \<Rightarrow> duration \<Rightarrow> tick_steps \<Rightarrow> tick_steps" where
  "tick_record name elapsed t =
     (if (case tk_slowest t of None \<Rightarrow> True | Some (_, d) \<Rightarrow> elapsed > d)
      then t\<lparr>tk_slowest := Some (name, elapsed)\<rparr> else t)"

definition tick_mark :: "string \<Rightarrow> instant \<Rightarrow> tick_steps \<Rightarrow> tick_steps" where
  "tick_mark name now t = (tick_record name (now - tk_last t) t)\<lparr>tk_last := now\<rparr>"

definition tick_total :: "tick_steps \<Rightarrow> duration" where
  "tick_total t = tk_last t - tk_started t"

record tick_budget =
  tb_last_report :: "instant option"
  tb_suppressed :: nat

definition budget_default :: tick_budget where
  "budget_default = \<lparr>tb_last_report = None, tb_suppressed = 0\<rparr>"

record budget_line =
  bl_total :: duration
  bl_step :: string
  bl_step_time :: duration
  bl_suppressed :: nat

definition over_voice_tick_budget :: "bool \<Rightarrow> duration \<Rightarrow> bool" where
  "over_voice_tick_budget sfu_mode elapsed \<longleftrightarrow> sfu_mode \<and> elapsed > voice_tick_budget_time"

definition budget_check :: "bool \<Rightarrow> tick_steps \<Rightarrow> instant \<Rightarrow> tick_budget \<Rightarrow> budget_line option \<times> tick_budget" where
  "budget_check sfu_mode steps now b =
     (let total_time = tick_total steps
      in if \<not> over_voice_tick_budget sfu_mode total_time then (None, b)
         else if (case tb_last_report b of None \<Rightarrow> False
                  | Some t \<Rightarrow> duration_since now t < voice_tick_report_interval)
         then (None, b\<lparr>tb_suppressed := wrap_u u32_max (tb_suppressed b + 1)\<rparr>)
         else
           let (step, step_time) = (case tk_slowest steps of None \<Rightarrow> (''unknown'', total_time) | Some x \<Rightarrow> x)
           in (Some \<lparr>bl_total = total_time, bl_step = step, bl_step_time = step_time, bl_suppressed = tb_suppressed b\<rparr>,
               b\<lparr>tb_last_report := Some now, tb_suppressed := 0\<rparr>))"

section \<open>One report per blocked step\<close>

text \<open>A step of the loop and the checks of the watchdog thread while it runs.\<close>

fun checks :: "instant list \<Rightarrow> current_step \<Rightarrow> watchdog_line list \<times> current_step" where
  "checks [] c = ([], c)"
| "checks (t # ts) c =
     (case watchdog_check blocked_command t c of (a, c1) \<Rightarrow> (case checks ts c1 of (b, c2) \<Rightarrow> (a @ b, c2)))"

lemma checks_reported:
  "cu_reported_blocked c \<Longrightarrow> checks ts c = ([], c)"
  by (induction ts) (auto simp: watchdog_check_def split: option.splits)

lemma checks_running:
  assumes "cu_name c = Some name" "cu_started c = Some s" "\<not> cu_reported_blocked c"
  shows "checks ts c =
    (case List.find (\<lambda>t. blocked_command \<le> t - s) ts of
       None \<Rightarrow> ([], c) | Some t \<Rightarrow> ([Blocked name (t - s)], c\<lparr>cu_reported_blocked := True\<rparr>))"
  using assms by (induction ts) (auto simp: watchdog_check_def checks_reported not_le split: option.splits)

text \<open>A step of the command loop that the watchdog thread looks at while it runs is reported as
  blocking at most once, by the first look two seconds or more after its start; at its end a
  reported step is announced as released, one not reported but half a second long as slow, any
  other is silent, and the loop is then idle.\<close>

theorem blocked_step_reported_once:
  "let c = step_start name s c0; (lines, c1) = checks ts c; (ends, c2) = step_end e c1
   in lines = (case List.find (\<lambda>t. 2 * 1000000000 \<le> t - s) ts of None \<Rightarrow> [] | Some t \<Rightarrow> [Blocked name (t - s)]) \<and>
      ends = (if lines \<noteq> [] then [Released name (e - s)]
              else if 500 * 1000000 \<le> e - s then [Slow name (e - s)] else []) \<and>
      cu_name c2 = None \<and> cu_started c2 = None \<and> \<not> cu_reported_blocked c2"
proof -
  let ?c = "step_start name s c0"
  have "checks ts ?c = (case List.find (\<lambda>t. blocked_command \<le> t - s) ts of
      None \<Rightarrow> ([], ?c) | Some t \<Rightarrow> ([Blocked name (t - s)], ?c\<lparr>cu_reported_blocked := True\<rparr>))"
    by (rule checks_running) (simp_all add: step_start_def)
  then show ?thesis
    by (auto simp: blocked_command_def secs_def slow_command_def millis_def step_end_def step_start_def Let_def
        split: option.splits)
qed

section \<open>The slowest step and the budget\<close>

fun tick_marks :: "(string \<times> instant) list \<Rightarrow> tick_steps \<Rightarrow> tick_steps" where
  "tick_marks [] t = t"
| "tick_marks ((name, now) # ms) t = tick_marks ms (tick_mark name now t)"

fun mark_times :: "instant \<Rightarrow> (string \<times> instant) list \<Rightarrow> (string \<times> duration) list" where
  "mark_times prev [] = []"
| "mark_times prev ((name, now) # ms) = (name, now - prev) # mark_times now ms"

definition slowest_of :: "(string \<times> duration) option \<Rightarrow> (string \<times> duration) list \<Rightarrow> (string \<times> duration) option" where
  "slowest_of = foldl (\<lambda>o' (n, d). if (case o' of None \<Rightarrow> True | Some (_, d') \<Rightarrow> d > d') then Some (n, d) else o')"

lemma tick_marks_slowest: "tk_slowest (tick_marks ms t) = slowest_of (tk_slowest t) (mark_times (tk_last t) ms)"
proof (induction ms arbitrary: t)
  case Nil
  then show ?case by (simp add: slowest_of_def)
next
  case (Cons m ms)
  obtain name now where m: "m = (name, now)" by fastforce
  from Cons.IH [of "tick_mark name now t"] show ?case
    by (simp add: m tick_mark_def tick_record_def slowest_of_def split: option.splits)
qed

lemma slowest_of_upper:
  "\<lbrakk>case o' of None \<Rightarrow> xs \<noteq> [] | Some p \<Rightarrow> True\<rbrakk> \<Longrightarrow>
   \<exists>n' d'. slowest_of o' xs = Some (n', d') \<and> (\<forall>x \<in> set xs. snd x \<le> d') \<and> (\<forall>p. o' = Some p \<longrightarrow> snd p \<le> d')"
proof (induction xs arbitrary: o')
  case Nil
  then show ?case by (auto simp: slowest_of_def split: option.splits)
next
  case (Cons x xs)
  define o2 where "o2 = (if (case o' of None \<Rightarrow> True | Some (_, d') \<Rightarrow> snd x > d') then Some x else o')"
  have s: "slowest_of o' (x # xs) = slowest_of o2 xs" by (simp add: slowest_of_def o2_def split_beta)
  have "case o2 of None \<Rightarrow> xs \<noteq> [] | Some p \<Rightarrow> True" by (auto simp: o2_def split: option.splits)
  from Cons.IH [OF this] obtain n' d' where r: "slowest_of o2 xs = Some (n', d')"
      "\<forall>x \<in> set xs. snd x \<le> d'" "\<forall>p. o2 = Some p \<longrightarrow> snd p \<le> d'"
    by blast
  have "snd x \<le> d' \<and> (\<forall>p. o' = Some p \<longrightarrow> snd p \<le> d')"
    using r(3) by (cases x; cases o') (auto simp: o2_def split: if_splits prod.splits)
  with r s show ?case by simp
qed

lemma slowest_of_mem: "slowest_of o' xs = o' \<or> (\<exists>x \<in> set xs. slowest_of o' xs = Some x)"
proof (induction xs arbitrary: o')
  case Nil
  then show ?case by (simp add: slowest_of_def)
next
  case (Cons x xs)
  then show ?case
    using Cons.IH [of "Some x"] Cons.IH [of o']
    by (cases x) (auto simp: slowest_of_def split: if_splits)
qed

fun budget_run :: "(tick_steps \<times> instant) list \<Rightarrow> tick_budget \<Rightarrow> (instant \<times> budget_line) list \<times> tick_budget" where
  "budget_run [] b = ([], b)"
| "budget_run ((s, now) # ts) b =
     (case budget_check True s now b of (l, b1) \<Rightarrow>
        (case budget_run ts b1 of (ls, b2) \<Rightarrow> ((case l of None \<Rightarrow> [] | Some x \<Rightarrow> [(now, x)]) @ ls, b2)))"

definition long_ticks :: "(tick_steps \<times> instant) list \<Rightarrow> nat" where
  "long_ticks ts = length (filter (\<lambda>(s, _). over_voice_tick_budget True (tick_total s)) ts)"

lemma budget_run_lines:
  assumes "budget_run ts b = (ls, b')" "tb_suppressed b + long_ticks ts < u32_max"
  shows "(\<forall>t. tb_last_report b = Some t \<longrightarrow> ls \<noteq> [] \<longrightarrow> t + secs 10 \<le> fst (hd ls)) \<and>
    successively (\<lambda>(t, _) (t', _). t + secs 10 \<le> t') ls \<and>
    sum_list (map (\<lambda>(_, l). bl_suppressed l + 1) ls) + tb_suppressed b' = tb_suppressed b + long_ticks ts"
  using assms
proof (induction ts arbitrary: b ls b')
  case Nil
  then show ?case by (simp add: long_ticks_def)
next
  case (Cons x ts)
  obtain s now where x: "x = (s, now)" by fastforce
  obtain l b1 where c: "budget_check True s now b = (l, b1)" by fastforce
  obtain ls2 b2 where r: "budget_run ts b1 = (ls2, b2)" by fastforce
  have out: "ls = (case l of None \<Rightarrow> [] | Some x \<Rightarrow> [(now, x)]) @ ls2" "b' = b2"
    using Cons.prems(1) c r by (simp_all add: x)
  show ?case
  proof (cases "over_voice_tick_budget True (tick_total s)")
    case False
    then have "l = None" "b1 = b" "long_ticks (x # ts) = long_ticks ts"
      using c by (simp_all add: budget_check_def x long_ticks_def)
    with Cons.IH [OF r] Cons.prems(2) out show ?thesis by simp
  next
    case True
    then have n: "long_ticks (x # ts) = long_ticks ts + 1" by (simp add: x long_ticks_def)
    show ?thesis
    proof (cases "case tb_last_report b of None \<Rightarrow> False | Some t \<Rightarrow> now - t < voice_tick_report_interval")
      case held: True
      with True c Cons.prems(2) n have "l = None" "b1 = b\<lparr>tb_suppressed := tb_suppressed b + 1\<rparr>"
        by (auto simp: budget_check_def)
      with Cons.IH [OF r] Cons.prems(2) out n show ?thesis by simp
    next
      case free: False
      with True c obtain line where l: "l = Some line" "bl_suppressed line = tb_suppressed b"
          "b1 = b\<lparr>tb_last_report := Some now, tb_suppressed := 0\<rparr>"
        by (auto simp: budget_check_def Let_def split: prod.splits)
      have "\<forall>t. tb_last_report b = Some t \<longrightarrow> t + secs 10 \<le> now"
        using free by (auto simp: voice_tick_report_interval_def secs_def)
      with Cons.IH [OF r] Cons.prems(2) out n l show ?thesis
        by (cases ls2) auto
    qed
  qed
qed

text \<open>The report of long voice ticks is rate-limited and loses none: two lines are at least ten
  seconds apart, and the lines with the counts they carry, plus what is still held back, add up
  to the number of ticks over the budget; and the step a tick names as the slowest is one of its
  steps and took at least as long as each of them.\<close>

theorem long_ticks_all_counted:
  assumes "budget_run ts budget_default = (ls, b')" "long_ticks ts < u32_max" "ms \<noteq> []"
  shows "successively (\<lambda>(t, _) (t', _). t + secs 10 \<le> t') ls \<and>
    sum_list (map (\<lambda>(_, l). bl_suppressed l + 1) ls) + tb_suppressed b' = long_ticks ts \<and>
    (\<exists>x \<in> set (mark_times t0 ms). tk_slowest (tick_marks ms (tick_start t0)) = Some x \<and>
       (\<forall>y \<in> set (mark_times t0 ms). snd y \<le> snd x))"
proof -
  let ?xs = "mark_times t0 ms"
  obtain m ms' where "ms = m # ms'" using assms(3) by (cases ms) auto
  then have ne: "?xs \<noteq> []" by (cases m) simp
  have s: "tk_slowest (tick_marks ms (tick_start t0)) = slowest_of None ?xs"
    by (simp add: tick_marks_slowest tick_start_def)
  then obtain n' d' where r: "slowest_of None ?xs = Some (n', d')" "\<forall>y \<in> set ?xs. snd y \<le> d'"
    using slowest_of_upper [where o' = None and xs = ?xs] ne by auto
  moreover have "(n', d') \<in> set ?xs" using slowest_of_mem [where o' = None and xs = ?xs] r by auto
  ultimately show ?thesis
    using budget_run_lines [OF assms(1)] assms(2) s r by (auto simp: budget_default_def)
qed

lemma long_ticks_all_counted_witness:
  "\<exists>ls b'. budget_run [(\<lparr>tk_started = 0, tk_last = millis 9, tk_slowest = None\<rparr>, millis 9)] budget_default = (ls, b') \<and>
     sum_list (map (\<lambda>(_, l). bl_suppressed l + 1) ls) + tb_suppressed b' = 1"
proof -
  let ?ts = "[(\<lparr>tk_started = 0, tk_last = millis 9, tk_slowest = None\<rparr>, millis 9)]"
  obtain ls b' where r: "budget_run ?ts budget_default = (ls, b')" by fastforce
  have n: "long_ticks ?ts = 1"
    by (simp add: long_ticks_def over_voice_tick_budget_def voice_tick_budget_time_def tick_total_def millis_def)
  from long_ticks_all_counted [OF r, of "[(''a'', 1)]" 0] n r show ?thesis by (simp add: u32_max_def)
qed

end
