(* ===== verification/Stream_Control.thy ===== *)
theory Stream_Control
  imports Stream_Session
begin

text \<open>
  The control channel from the host to a viewer: the pointer messages (\<open>stream/cursor.rs\<close>) and what
  the viewer's callback makes of every control message (\<open>client/stream_ffi.rs\<close>). A byte is a
  natural number; an \<open>i32\<close> is an integer, written as its four bytes, low byte first.
\<close>

definition cursor_message_type :: nat where "cursor_message_type = 4"
definition cursor_message_subtype :: nat where "cursor_message_subtype = 2"
definition max_cursor_side :: nat where "max_cursor_side = 128"
definition max_cursor_packet_bytes :: nat where
  "max_cursor_packet_bytes = 15 + max_cursor_side * max_cursor_side * 4"
definition cursor_header :: nat where "cursor_header = 12"

definition le_bytes32 :: "int \<Rightarrow> nat list" where
  "le_bytes32 x =
     (let u = nat (x mod 4294967296) in [u mod 256, u div 256 mod 256, u div 65536 mod 256, u div 16777216 mod 256])"

definition i32_from_le :: "nat list \<Rightarrow> int" where
  "i32_from_le bs =
     (let u = bs ! 0 + 256 * bs ! 1 + 65536 * bs ! 2 + 16777216 * bs ! 3
      in if u < 2147483648 then int u else int u - 4294967296)"

definition le_bytes16 :: "nat \<Rightarrow> nat list" where "le_bytes16 n = [n mod 256, n div 256]"

record cursor_shape =
  cs_width :: nat
  cs_height :: nat
  cs_rgba :: "nat list"

record cursor_packet =
  cp_x :: int
  cp_y :: int
  cp_visible :: bool
  cp_shape :: "cursor_shape option"

definition encode_cursor_message :: "cursor_packet \<Rightarrow> nat list" where
  "encode_cursor_message p =
     [cursor_message_type, cursor_message_subtype] @ le_bytes32 (cp_x p) @ le_bytes32 (cp_y p) @
     [u8_from (cp_visible p), u8_from (cp_shape p \<noteq> None)] @
     (case cp_shape p of None \<Rightarrow> []
      | Some s \<Rightarrow> le_bytes16 (cs_width s) @ le_bytes16 (cs_height s) @ cs_rgba s)"

definition control_message_from_native :: "nat list \<Rightarrow> nat list" where
  "control_message_from_native packet = cursor_message_type # packet"

definition parse_cursor_message :: "nat list \<Rightarrow> cursor_packet option" where
  "parse_cursor_message data =
     (if length data < cursor_header \<or> data ! 0 \<noteq> cursor_message_type \<or> data ! 1 \<noteq> cursor_message_subtype
      then None
      else
        let packet = \<lparr>cp_x = i32_from_le (slice data 2 4), cp_y = i32_from_le (slice data 6 4),
              cp_visible = data ! 10 \<noteq> 0, cp_shape = None\<rparr>
        in if data ! 11 = 0 then Some packet
           else if length data < cursor_header + 4 then None
           else
             let width = data ! 12 + 256 * data ! 13; height = data ! 14 + 256 * data ! 15;
                 bytes = width * height * 4
             in if width > max_cursor_side \<or> height > max_cursor_side then None
                else if length data < cursor_header + 4 + bytes then None
                else Some (packet\<lparr>cp_shape := Some \<lparr>cs_width = width, cs_height = height,
                  cs_rgba = slice data (cursor_header + 4) bytes\<rparr>\<rparr>))"

definition message_has_shape :: "nat list \<Rightarrow> bool" where
  "message_has_shape data \<longleftrightarrow> length data > cursor_header \<and> data ! 0 = cursor_message_type \<and>
     data ! 1 = cursor_message_subtype \<and> data ! 11 \<noteq> 0"

record viewer_cursor =
  vc_x :: int
  vc_y :: int
  vc_visible :: bool
  vc_shape :: "cursor_shape option"
  vc_serial :: nat

definition viewer_cursor_new :: viewer_cursor where
  "viewer_cursor_new = \<lparr>vc_x = 0, vc_y = 0, vc_visible = False, vc_shape = None, vc_serial = 0\<rparr>"

definition apply_cursor_packet :: "cursor_packet \<Rightarrow> viewer_cursor \<Rightarrow> viewer_cursor" where
  "apply_cursor_packet p c =
     c\<lparr>vc_x := cp_x p, vc_y := cp_y p, vc_visible := cp_visible p,
       vc_shape := (case cp_shape p of None \<Rightarrow> vc_shape c | Some s \<Rightarrow> Some s),
       vc_serial := wrap_u u64_max (vc_serial c + 1)\<rparr>"

definition reset_viewer_cursor :: "viewer_cursor \<Rightarrow> viewer_cursor" where
  "reset_viewer_cursor c = viewer_cursor_new\<lparr>vc_serial := wrap_u u64_max (vc_serial c + 1)\<rparr>"

section \<open>The callback of the viewer\<close>

record pause_slot =
  ps_paused :: nat
  ps_reason :: nat
  ps_host_idle :: nat

definition pause_slot_new :: pause_slot where
  "pause_slot_new = \<lparr>ps_paused = 0, ps_reason = 0, ps_host_idle = 0\<rparr>"

definition slot_is_host_idle :: "pause_slot \<Rightarrow> bool" where "slot_is_host_idle s \<longleftrightarrow> ps_host_idle s \<noteq> 0"

definition slot_is_paused :: "pause_slot \<Rightarrow> bool" where "slot_is_paused s \<longleftrightarrow> ps_paused s \<noteq> 0"

definition slot_reason :: "pause_slot \<Rightarrow> pause_reason" where
  "slot_reason s =
     (if ps_reason s = 1 then Reason_minimized else if ps_reason s = 2 then Reason_waiting_for_game
      else if ps_reason s = 3 then Reason_failed else Reason_unknown)"

text \<open>What the callback writes: the slot of the stream, the viewer's pointer and format.\<close>

record viewer_view =
  vw_slot :: pause_slot
  vw_cursor :: viewer_cursor
  vw_format :: viewer_format

definition stream_control_data_callback :: "bool \<Rightarrow> nat list \<Rightarrow> viewer_view \<Rightarrow> viewer_view" where
  "stream_control_data_callback reliable data v =
     (if \<not> reliable \<or> data = [] then v
      else case parse_idle_message data of
        Some idle \<Rightarrow> v\<lparr>vw_slot := (vw_slot v)\<lparr>ps_host_idle := u8_from idle\<rparr>\<rparr>
      | None \<Rightarrow>
          (case parse_pause_message_full data of
             Some (paused, reason) \<Rightarrow>
               v\<lparr>vw_slot := (vw_slot v)\<lparr>ps_paused := u8_from paused, ps_reason := reason_u8 reason\<rparr>\<rparr>
           | None \<Rightarrow>
               (case parse_cursor_message data of
                  Some p \<Rightarrow> v\<lparr>vw_cursor := apply_cursor_packet p (vw_cursor v)\<rparr>
                | None \<Rightarrow> v\<lparr>vw_format := snd (apply_viewer_rung_message data (vw_format v))\<rparr>)))"


section \<open>The pointer message is read back\<close>

lemma bytes32_sum:
  assumes "u < (4294967296 :: nat)"
  shows "u mod 256 + 256 * (u div 256 mod 256) + 65536 * (u div 65536 mod 256) + 16777216 * (u div 16777216 mod 256) = u"
proof -
  define a b c where "a = u div 256" and "b = a div 256" and "c = b div 256"
  have e: "u div 65536 = b" "u div 16777216 = c"
    using div_mult2_eq [of u 256 256] div_mult2_eq [of u 65536 256]
    by (simp_all add: a_def b_def c_def)
  have "u mod 256 + 256 * a = u" "a mod 256 + 256 * b = a" "b mod 256 + 256 * c = b"
    by (simp_all add: a_def b_def c_def)
  moreover have "c < 256"
    unfolding e(2) [symmetric] by (rule less_mult_imp_div_less) (use assms in simp)
  ultimately show ?thesis unfolding e a_def [symmetric] by simp
qed

lemma i32_from_le_list:
  "i32_from_le [a, b, c, d] =
     (let u = a + 256 * b + 65536 * c + 16777216 * d in if u < 2147483648 then int u else int u - 4294967296)"
  by (simp only: i32_from_le_def nth_Cons_0 nth_Cons_numeral diff_numeral_special One_nat_def nth_Cons_Suc
      numeral_3_eq_3 numeral_2_eq_2)

lemma i32_le_roundtrip: "- 2147483648 \<le> x \<Longrightarrow> x < 2147483648 \<Longrightarrow> i32_from_le (le_bytes32 x) = x"
proof -
  assume x: "- 2147483648 \<le> x" "x < 2147483648"
  define u where "u = nat (x mod 4294967296)"
  have u: "u < 4294967296" by (simp add: u_def nat_less_iff)
  have b: "i32_from_le (le_bytes32 x) = (if u < 2147483648 then int u else int u - 4294967296)"
    unfolding le_bytes32_def u_def [symmetric] Let_def i32_from_le_list bytes32_sum [OF u] ..
  show ?thesis
  proof (cases "0 \<le> x")
    case True
    with x have "int u = x" by (simp add: u_def)
    with x True b show ?thesis by simp
  next
    case False
    with x have "(x + 4294967296) mod 4294967296 = x + 4294967296" by (intro mod_pos_pos_trivial) simp_all
    then have "x mod 4294967296 = x + 4294967296" by simp
    with x have "int u = x + 4294967296" by (simp add: u_def)
    with x False b show ?thesis by simp
  qed
qed

lemma length_le_bytes32 [simp]: "length (le_bytes32 x) = 4"
  by (simp add: le_bytes32_def Let_def)

lemma encode_cursor_parts:
  defines "tail \<equiv> \<lambda>p. case cp_shape p of None \<Rightarrow> []
      | Some s \<Rightarrow> [cs_width s mod 256, cs_width s div 256, cs_height s mod 256, cs_height s div 256] @ cs_rgba s"
  shows "length (encode_cursor_message p) = 12 + length (tail p)"
    "encode_cursor_message p ! 0 = 4" "encode_cursor_message p ! 1 = 2"
    "slice (encode_cursor_message p) 2 4 = le_bytes32 (cp_x p)"
    "slice (encode_cursor_message p) 6 4 = le_bytes32 (cp_y p)"
    "encode_cursor_message p ! 10 = u8_from (cp_visible p)"
    "encode_cursor_message p ! 11 = u8_from (cp_shape p \<noteq> None)"
    "drop 12 (encode_cursor_message p) = tail p"
proof -
  obtain a b c d where x: "le_bytes32 (cp_x p) = [a, b, c, d]" by (simp add: le_bytes32_def Let_def)
  obtain a' b' c' d' where y: "le_bytes32 (cp_y p) = [a', b', c', d']" by (simp add: le_bytes32_def Let_def)
  have e: "encode_cursor_message p = [4, 2, a, b, c, d, a', b', c', d', u8_from (cp_visible p), u8_from (cp_shape p \<noteq> None)] @ tail p"
    unfolding encode_cursor_message_def x y
    by (simp add: tail_def le_bytes16_def cursor_message_type_def cursor_message_subtype_def split: option.split)
  show "length (encode_cursor_message p) = 12 + length (tail p)"
    "encode_cursor_message p ! 0 = 4" "encode_cursor_message p ! 1 = 2"
    "slice (encode_cursor_message p) 2 4 = le_bytes32 (cp_x p)"
    "slice (encode_cursor_message p) 6 4 = le_bytes32 (cp_y p)"
    "encode_cursor_message p ! 10 = u8_from (cp_visible p)"
    "encode_cursor_message p ! 11 = u8_from (cp_shape p \<noteq> None)"
    "drop 12 (encode_cursor_message p) = tail p"
    unfolding x y e slice_def by simp_all
qed

definition cursor_fits :: "cursor_packet \<Rightarrow> bool" where
  "cursor_fits p \<longleftrightarrow> - 2147483648 \<le> cp_x p \<and> cp_x p < 2147483648 \<and> - 2147483648 \<le> cp_y p \<and> cp_y p < 2147483648 \<and>
     (case cp_shape p of None \<Rightarrow> True
      | Some s \<Rightarrow> cs_width s \<le> max_cursor_side \<and> cs_height s \<le> max_cursor_side \<and>
          length (cs_rgba s) = cs_width s * cs_height s * 4)"

lemma parse_encode_cursor: "cursor_fits p \<Longrightarrow> parse_cursor_message (encode_cursor_message p) = Some p"
proof -
  assume p: "cursor_fits p"
  have xy: "i32_from_le (le_bytes32 (cp_x p)) = cp_x p" "i32_from_le (le_bytes32 (cp_y p)) = cp_y p"
    using p by (simp_all add: cursor_fits_def i32_le_roundtrip)
  note parts = encode_cursor_parts(1-7) [of p] cursor_header_def cursor_message_type_def cursor_message_subtype_def
    u8_from_def xy
  show ?thesis
  proof (cases "cp_shape p")
    case None
    then show ?thesis unfolding parse_cursor_message_def Let_def parts by (cases p) simp
  next
    case (Some s)
    let ?m = "encode_cursor_message p"
    have d: "drop 12 ?m = [cs_width s mod 256, cs_width s div 256, cs_height s mod 256, cs_height s div 256] @ cs_rgba s"
      using encode_cursor_parts(8) [of p] Some by simp
    have n: "?m ! (12 + i) = drop 12 ?m ! i" for i using encode_cursor_parts(1) [of p] by (simp add: nth_drop)
    have b: "?m ! 12 = cs_width s mod 256" "?m ! 13 = cs_width s div 256" "?m ! 14 = cs_height s mod 256"
        "?m ! 15 = cs_height s div 256"
      using n [of 0] n [of 1] n [of 2] n [of 3] by (simp_all add: d)
    have r: "drop 16 ?m = cs_rgba s" using d drop_drop [of 4 12 ?m] by simp
    have bound: "cs_width s \<le> 128" "cs_height s \<le> 128" "length (cs_rgba s) = cs_width s * cs_height s * 4"
      using p Some by (simp_all add: cursor_fits_def max_cursor_side_def)
    have w: "?m ! 12 + 256 * ?m ! 13 = cs_width s" "?m ! 14 + 256 * ?m ! 15 = cs_height s" by (simp_all add: b)
    have l: "length ?m = 16 + cs_width s * cs_height s * 4" using bound encode_cursor_parts(1) [of p] Some by simp
    have sl: "slice ?m (12 + 4) (cs_width s * cs_height s * 4) = cs_rgba s" using bound r by (simp add: slice_def)
    show ?thesis unfolding parse_cursor_message_def Let_def parts(2-) w sl l max_cursor_side_def
      using bound Some by (cases p) simp
  qed
qed


lemma parse_cursor_cut:
  assumes "cursor_fits p" "n < length (encode_cursor_message p)"
  shows "parse_cursor_message (take n (encode_cursor_message p)) = None"
proof (cases "n < 12")
  case True
  then show ?thesis by (simp add: parse_cursor_message_def cursor_header_def min_less_iff_disj)
next
  case False
  let ?m = "encode_cursor_message p"
  note parts = encode_cursor_parts [of p]
  from False assms(2) parts(1) obtain s where s: "cp_shape p = Some s" by (auto split: option.splits)
  have d: "drop 12 ?m = [cs_width s mod 256, cs_width s div 256, cs_height s mod 256, cs_height s div 256] @ cs_rgba s"
    using parts(8) s by simp
  have n: "?m ! (12 + i) = drop 12 ?m ! i" for i using parts(1) by (simp add: nth_drop)
  have b: "?m ! 12 = cs_width s mod 256" "?m ! 13 = cs_width s div 256" "?m ! 14 = cs_height s mod 256"
      "?m ! 15 = cs_height s div 256"
    using n [of 0] n [of 1] n [of 2] n [of 3] by (simp_all add: d)
  have w: "?m ! 12 + 256 * ?m ! 13 = cs_width s" "?m ! 14 + 256 * ?m ! 15 = cs_height s" by (simp_all add: b)
  have l: "length ?m = 16 + cs_width s * cs_height s * 4"
    using parts(1) s assms(1) by (simp add: cursor_fits_def)
  have t: "take n ?m ! i = ?m ! i" if "i < 12" for i using that False by simp
  show ?thesis
  proof (cases "n < 16")
    case True
    then show ?thesis
      using False parts(7) s by (simp add: parse_cursor_message_def cursor_header_def u8_from_def min_less_iff_disj)
  next
    case n16: False
    then have "take n ?m ! 12 + 256 * take n ?m ! 13 = cs_width s" "take n ?m ! 14 + 256 * take n ?m ! 15 = cs_height s"
      using w by simp_all
    then show ?thesis
      using n16 False parts(7) s assms(2) l
      by (simp add: parse_cursor_message_def cursor_header_def u8_from_def Let_def min_less_iff_disj)
  qed
qed

lemma cursor_message_kind:
  assumes "parse_cursor_message data = Some p"
  shows "parse_idle_message data = None" "parse_pause_message_full data = None" "parse_rung_message data = None"
proof -
  have "12 \<le> length data" using assms by (simp add: parse_cursor_message_def cursor_header_def split: if_splits)
  then obtain a b c d e f g h rest where "data = a # b # c # d # e # f # g # h # rest"
    by (auto simp: numeral_eq_Suc Suc_le_length_iff)
  then show "parse_idle_message data = None" "parse_pause_message_full data = None" "parse_rung_message data = None"
    by (simp_all add: parse_idle_message_def parse_pause_message_full_def parse_rung_message_def)
qed

text \<open>A pointer message is read back as it was sent, shape included, when the position fits 32
  bits and the shape is at most 128 by 128 with four bytes a pixel; a message cut short anywhere is
  rejected; the viewer takes it as a pointer message and nothing else, and it is kept for late
  joiners exactly when it carries a shape.\<close>

theorem cursor_message_roundtrip:
  assumes "cursor_fits p"
  shows "parse_cursor_message (encode_cursor_message p) = Some p \<and>
    (\<forall>n < length (encode_cursor_message p). parse_cursor_message (take n (encode_cursor_message p)) = None) \<and>
    stream_control_data_callback True (encode_cursor_message p) v = v\<lparr>vw_cursor := apply_cursor_packet p (vw_cursor v)\<rparr> \<and>
    (message_has_shape (encode_cursor_message p) \<longleftrightarrow> cp_shape p \<noteq> None)"
proof -
  have parse: "parse_cursor_message (encode_cursor_message p) = Some p" by (rule parse_encode_cursor [OF assms])
  have "encode_cursor_message p \<noteq> []" using encode_cursor_parts(1) [of p] by auto
  then have "stream_control_data_callback True (encode_cursor_message p) v = v\<lparr>vw_cursor := apply_cursor_packet p (vw_cursor v)\<rparr>"
    by (simp add: stream_control_data_callback_def cursor_message_kind [OF parse] parse)
  moreover have "message_has_shape (encode_cursor_message p) \<longleftrightarrow> cp_shape p \<noteq> None"
    unfolding message_has_shape_def encode_cursor_parts(1-7)
    by (auto simp: cursor_header_def cursor_message_type_def cursor_message_subtype_def u8_from_def split: option.splits)
  ultimately show ?thesis using parse parse_cursor_cut [OF assms] by blast
qed

lemma cursor_message_roundtrip_witness:
  "parse_cursor_message (encode_cursor_message
     \<lparr>cp_x = - 3, cp_y = 40, cp_visible = True, cp_shape = Some \<lparr>cs_width = 1, cs_height = 1, cs_rgba = [1, 2, 3, 4]\<rparr>\<rparr>) =
   Some \<lparr>cp_x = - 3, cp_y = 40, cp_visible = True, cp_shape = Some \<lparr>cs_width = 1, cs_height = 1, cs_rgba = [1, 2, 3, 4]\<rparr>\<rparr>"
  using cursor_message_roundtrip [where v = undefined and p =
    "\<lparr>cp_x = - 3, cp_y = 40, cp_visible = True, cp_shape = Some \<lparr>cs_width = 1, cs_height = 1, cs_rgba = [1, 2, 3, 4]\<rparr>\<rparr>"]
  by (simp add: cursor_fits_def max_cursor_side_def)

end
