(* ===== verification/Stream_Host.thy ===== *)
theory Stream_Host
  imports Stream_Control Upload_Pace "HOL-Library.AList"
begin

text \<open>
  The stream manager of a host (\<open>stream/manager.rs\<close>) with the packet callbacks that feed it
  (\<open>stream/host.rs\<close>). The manager composes the quality controller, the pause controller and the
  upload governor with the encoder on one side and the packet sink on the other. What it does to
  the two is a log of outputs, \<open>mg_out\<close>; what they answer (send results, statistics, the encode
  size, arrivals in the queue) is an argument of the handler. A handler reads the clock once.
\<close>

definition max_video_coalesce_drain :: nat where "max_video_coalesce_drain = 32"
definition queue_keyframe_coalesce_threshold :: nat where "queue_keyframe_coalesce_threshold = 2"
definition queue_recovery_coalesce_threshold :: nat where "queue_recovery_coalesce_threshold = 10"
definition queue_keyframe_request_cooldown :: duration where "queue_keyframe_request_cooldown = secs 2"
definition viewer_keyframe_request_cooldown :: duration where "viewer_keyframe_request_cooldown = millis 500"
definition remb_stale_secs :: nat where "remb_stale_secs = 3"
definition video_queue_capacity :: nat where "video_queue_capacity = 32"
definition audio_queue_capacity :: nat where "audio_queue_capacity = 128"
definition capture_state_capturing :: nat where "capture_state_capturing = 0"

record remb_state =
  rm_bitrate_bps :: nat
  rm_updated_at :: instant

record video_packet =
  vp_data :: "nat list"
  vp_keyframe :: bool
  vp_timestamp :: nat

record audio_packet =
  ap_data :: "nat list"
  ap_timestamp :: nat

definition media_time_48k :: "nat \<Rightarrow> nat" where
  "media_time_48k timestamp_us = wrap_u u32_max (wrap_u u64_max (timestamp_us * 48) div 1000)"

datatype send_outcome = Sent | Backpressure | Sfu_failed | Other_failed

datatype host_out =
    Set_bitrate nat | Set_framerate nat | Set_resolution nat nat | Request_keyframe string instant
  | Pacing_kbps nat | Bitrate_limits nat nat nat | Max_allocated nat | Control "nat list"
  | Video_out video_packet send_outcome | Audio_out "nat list" nat
  | Sink_joined string | Sink_left string | Ui_host_paused bool | Ui_target_exited
  | Encoded_out video_packet

record manager_totals =
  mt_video_in :: nat
  mt_audio_in :: nat
  mt_coalesced :: nat
  mt_coalesce_events :: nat
  mt_kf_pressure :: nat
  mt_kf_recovery :: nat
  mt_kf_feedback :: nat
  mt_dropped_for_recovery :: nat
  mt_chain_gap :: nat
  mt_send_fail :: nat
  mt_audio_sent :: nat
  mt_audio_fail :: nat

record stream_manager =
  mg_host :: bool
  mg_config_height :: nat
  mg_config_fps :: nat
  mg_video_rx :: "video_packet list"
  mg_audio_rx :: "audio_packet list"
  mg_bitrate :: nat
  mg_min :: nat
  mg_max :: nat
  mg_remb :: "(string \<times> remb_state) list"
  mg_viewers :: "string list"
  mg_audio_seq :: nat
  mg_last_queue_kf :: instant
  mg_last_viewer_kf :: instant
  mg_deferred_at :: "instant option"
  mg_totals :: manager_totals
  mg_capture_failed_flag :: bool
  mg_capture_failed_last :: bool
  mg_capture_state :: nat
  mg_exit_seen :: bool
  mg_exit_reported :: bool
  mg_quality :: quality_controller
  mg_q_frames :: nat
  mg_q_drops :: nat
  mg_q_source_changes :: nat
  mg_governor :: governor
  mg_pace :: upload_pace
  mg_pause :: pause_controller
  mg_ui :: bool
  mg_drop_delta :: bool
  mg_idle :: bool
  mg_idle_tick :: nat
  mg_idle_seen :: nat
  mg_cursor_shape :: "nat list option"
  mg_cursor_last :: "nat list option"
  mg_out :: "host_out list"

definition emit :: "host_out \<Rightarrow> stream_manager \<Rightarrow> stream_manager" where
  "emit a m = m\<lparr>mg_out := mg_out m @ [a]\<rparr>"

definition totals_zero :: manager_totals where
  "totals_zero = \<lparr>mt_video_in = 0, mt_audio_in = 0, mt_coalesced = 0, mt_coalesce_events = 0, mt_kf_pressure = 0,
     mt_kf_recovery = 0, mt_kf_feedback = 0, mt_dropped_for_recovery = 0, mt_chain_gap = 0, mt_send_fail = 0,
     mt_audio_sent = 0, mt_audio_fail = 0\<rparr>"

definition bump :: "((nat \<Rightarrow> nat) \<Rightarrow> manager_totals \<Rightarrow> manager_totals) \<Rightarrow> nat \<Rightarrow> stream_manager \<Rightarrow> stream_manager" where
  "bump upd k m = m\<lparr>mg_totals := upd (\<lambda>n. sat_add u64_max n k) (mg_totals m)\<rparr>"

text \<open>The ladder switch of the controller is the environment variable it reads, \<open>env\<close>.\<close>

definition manager_new ::
  "string option \<Rightarrow> bool \<Rightarrow> stream_config \<Rightarrow> bool \<Rightarrow> upload_pace \<Rightarrow> instant \<Rightarrow> stream_manager" where
  "manager_new env host config ui pace now =
     \<lparr>mg_host = host, mg_config_height = sc_height config, mg_config_fps = sc_fps config,
      mg_video_rx = [], mg_audio_rx = [], mg_bitrate = sc_bitrate_kbps config,
      mg_min = min_bitrate_kbps (sc_codec config), mg_max = sc_bitrate_kbps config, mg_remb = [], mg_viewers = [],
      mg_audio_seq = 0, mg_last_queue_kf = now - queue_keyframe_request_cooldown,
      mg_last_viewer_kf = now - viewer_keyframe_request_cooldown, mg_deferred_at = None, mg_totals = totals_zero,
      mg_capture_failed_flag = False, mg_capture_failed_last = False, mg_capture_state = capture_state_capturing,
      mg_exit_seen = False, mg_exit_reported = False,
      mg_quality = qc_new env (sc_width config) (sc_height config) (sc_fps config) (sc_bitrate_kbps config),
      mg_q_frames = 0, mg_q_drops = 0, mg_q_source_changes = 0, mg_governor = None, mg_pace = pace_hold_new pace,
      mg_pause = pause_new, mg_ui = ui, mg_drop_delta = False, mg_idle = False, mg_idle_tick = 0, mg_idle_seen = 0,
      mg_cursor_shape = None, mg_cursor_last = None, mg_out = []\<rparr>"

section \<open>The packet callbacks\<close>

text \<open>\<open>on_video_packet\<close> of the encoder thread: a full queue drops the packet.\<close>

definition on_video_packet :: "video_packet \<Rightarrow> stream_manager \<Rightarrow> stream_manager" where
  "on_video_packet p m =
     emit (Encoded_out p) (if length (mg_video_rx m) < video_queue_capacity
                           then m\<lparr>mg_video_rx := mg_video_rx m @ [p]\<rparr> else m)"

definition on_audio_packet :: "audio_packet \<Rightarrow> stream_manager \<Rightarrow> stream_manager" where
  "on_audio_packet p m =
     (if length (mg_audio_rx m) < audio_queue_capacity then m\<lparr>mg_audio_rx := mg_audio_rx m @ [p]\<rparr> else m)"


text \<open>
  \<open>coalesce_video_packet\<close>. The encoder runs on its own thread: \<open>arriving\<close> lists the packets that it
  delivers before each look into the queue.
\<close>

datatype coalesce_outcome = Coalesce_send video_packet nat | Chain_gap nat

fun drain_video ::
  "nat \<Rightarrow> video_packet list list \<Rightarrow> video_packet option \<Rightarrow> nat \<Rightarrow> stream_manager \<Rightarrow>
   video_packet option \<times> nat \<times> stream_manager" where
  "drain_video 0 arriving newest n m = (newest, n, m)"
| "drain_video (Suc room) arriving newest n m =
     (let m1 = foldl (\<lambda>m p. on_video_packet p m) m (case arriving of [] \<Rightarrow> [] | ps # _ \<Rightarrow> ps)
      in case mg_video_rx m1 of
           [] \<Rightarrow> (newest, n, m1)
         | p # rest \<Rightarrow>
             drain_video room (drop 1 arriving) (if vp_keyframe p then Some p else newest) (n + 1)
               (m1\<lparr>mg_video_rx := rest\<rparr>))"

definition coalesce_video_packet ::
  "video_packet \<Rightarrow> nat \<Rightarrow> video_packet list list \<Rightarrow> stream_manager \<Rightarrow> coalesce_outcome \<times> stream_manager" where
  "coalesce_video_packet packet max_drain arriving m =
     (case drain_video max_drain arriving (if vp_keyframe packet then Some packet else None) 0 m of
        (newest, coalesced, m1) \<Rightarrow>
          (case newest of
             Some kf \<Rightarrow> Coalesce_send kf coalesced
           | None \<Rightarrow> if coalesced > 0 then Chain_gap coalesced else Coalesce_send packet coalesced, m1))"

section \<open>Bitrate and REMB\<close>

definition refresh_pacing_target :: "stream_manager \<Rightarrow> stream_manager" where
  "refresh_pacing_target m = emit (Pacing_kbps (pacing_target_kbps (mg_bitrate m))) m"

definition clamp_bitrate_kbps :: "nat \<Rightarrow> stream_manager \<Rightarrow> nat" where
  "clamp_bitrate_kbps kbps m = min (max kbps (mg_min m)) (mg_max m)"

definition apply_bitrate_kbps :: "nat \<Rightarrow> stream_manager \<Rightarrow> bool \<times> stream_manager" where
  "apply_bitrate_kbps kbps m =
     (let clamped = clamp_bitrate_kbps kbps m
      in if clamped = mg_bitrate m then (False, m)
         else (True, (if mg_host m then emit (Set_bitrate clamped) m else m)\<lparr>mg_bitrate := clamped\<rparr>))"

definition remb_fresh :: "instant \<Rightarrow> remb_state \<Rightarrow> bool" where
  "remb_fresh now s \<longleftrightarrow> duration_since now (rm_updated_at s) div 1000000000 \<le> remb_stale_secs"

definition expire_stale_remb :: "instant \<Rightarrow> stream_manager \<Rightarrow> stream_manager" where
  "expire_stale_remb now m = m\<lparr>mg_remb := filter (\<lambda>(_, s). remb_fresh now s) (mg_remb m)\<rparr>"

definition aggregate_fresh_remb_bps :: "instant \<Rightarrow> stream_manager \<Rightarrow> nat option" where
  "aggregate_fresh_remb_bps now m =
     (let rates = map (rm_bitrate_bps \<circ> snd) (filter (\<lambda>(_, s). remb_fresh now s) (mg_remb m))
      in case rates of [] \<Rightarrow> None | r # rs \<Rightarrow> Some (fold min rs r))"

definition aggregate_remb_target_kbps :: "instant \<Rightarrow> stream_manager \<Rightarrow> nat option" where
  "aggregate_remb_target_kbps now m =
     map_option (\<lambda>min_bps. clamp_bitrate_kbps (max (min_bps div 1000) 1) m) (aggregate_fresh_remb_bps now m)"

definition apply_quality_bitrate :: "instant \<Rightarrow> stream_manager \<Rightarrow> stream_manager" where
  "apply_quality_bitrate now m =
     (case update_bitrate now (mg_quality m) of
        (None, q) \<Rightarrow> m\<lparr>mg_quality := q\<rparr>
      | (Some kbps, q) \<Rightarrow>
          (case apply_bitrate_kbps kbps (m\<lparr>mg_quality := q\<rparr>) of
             (changed, m1) \<Rightarrow> if changed then refresh_pacing_target m1 else m1))"

definition apply_remb_aggregate :: "instant \<Rightarrow> stream_manager \<Rightarrow> stream_manager" where
  "apply_remb_aggregate now m =
     (let had_entries = mg_remb m \<noteq> [];
          m1 = expire_stale_remb now m;
          ceiling = (case aggregate_remb_target_kbps now m1 of
                       Some kbps \<Rightarrow> Some kbps
                     | None \<Rightarrow> if had_entries then Some (mg_bitrate m1) else None)
      in apply_quality_bitrate now (m1\<lparr>mg_quality := set_remb_ceiling_kbps ceiling (mg_quality m1)\<rparr>))"

text \<open>\<open>wh\<close> is the encode size of the native host.\<close>

definition start_quality :: "nat \<times> nat \<Rightarrow> stream_manager \<Rightarrow> stream_manager" where
  "start_quality wh m =
     (let m1 = (if mg_host m \<and> fst wh > 0 \<and> snd wh > 0
                then m\<lparr>mg_quality := snd (set_top_size (fst wh) (snd wh) (mg_quality m))\<rparr> else m)
      in case sender_limits_kbps (mg_quality m1) of
           (lo, start, hi) \<Rightarrow>
             let m2 = emit (Max_allocated (allocation_kbps (mg_quality m1))) (emit (Bitrate_limits lo start hi) m1)
             in case apply_bitrate_kbps (qc_bitrate_kbps (mg_quality m2)) m2 of
                  (changed, m3) \<Rightarrow> if changed then refresh_pacing_target m3 else m3)"

text \<open>The start of \<open>run\<close>, before its loop.\<close>

definition run_start :: "nat \<times> nat \<Rightarrow> stream_manager \<Rightarrow> stream_manager" where
  "run_start wh m = start_quality wh (refresh_pacing_target m)"

section \<open>Capture state, rung and upload budget\<close>

record native_stats =
  ns_frames_captured :: nat
  ns_queue_drops :: nat
  ns_encode_ms_mean :: rat
  ns_source_changes :: nat
  ns_source_width :: nat
  ns_source_height :: nat
  ns_target_exited :: bool
  ns_idle_repeats :: nat
  ns_capture_state :: nat
  ns_capture_failed :: bool

definition check_capture_state :: "native_stats \<Rightarrow> stream_manager \<Rightarrow> stream_manager" where
  "check_capture_state s m =
     (if \<not> mg_host m then m
      else
        let m1 = m\<lparr>mg_exit_seen := mg_exit_seen m \<or> ns_target_exited s, mg_idle_seen := ns_idle_repeats s,
              mg_capture_state := ns_capture_state s\<rparr>
        in if ns_capture_failed s = mg_capture_failed_last m1 then m1
           else m1\<lparr>mg_capture_failed_last := ns_capture_failed s,
             mg_capture_failed_flag := mg_capture_failed_flag m1 \<or> ns_capture_failed s\<rparr>)"

definition update_upload_budget :: "instant \<Rightarrow> stream_manager \<Rightarrow> stream_manager" where
  "update_upload_budget now m =
     (let q = mg_quality m;
          load = \<lparr>sl_top_rung = (qc_rung q = 0), sl_overloaded = qc_overloaded q, sl_gcc_kbps = qc_gcc_kbps q,
            sl_bitrate_kbps = qc_bitrate_kbps q, sl_preset_kbps = qc_preset_kbps q\<rparr>
      in case budget_bps load now (mg_governor m) of
           (bps, g) \<Rightarrow> m\<lparr>mg_governor := g, mg_pace := pace_hold_set bps (mg_pace m)\<rparr>)"

definition apply_rung_geometry :: "rung \<Rightarrow> stream_manager \<Rightarrow> stream_manager" where
  "apply_rung_geometry r m = (if mg_host m then emit (Set_resolution (rung_width r) (rung_height r)) m else m)"

definition apply_rung :: "rung \<Rightarrow> nat \<times> nat \<Rightarrow> stream_manager \<Rightarrow> stream_manager" where
  "apply_rung r wh m =
     (let m1 = (if mg_host m
                then let m' = emit (Set_framerate (if rung_fps r \<ge> mg_config_fps m then 0 else rung_fps r)) m
                     in if wh \<noteq> (rung_width r, rung_height r) then apply_rung_geometry r m' else m'
                else m)
      in emit (Control (rung_message r)) m1)"

definition current_rung :: "quality_controller \<Rightarrow> rung" where
  "current_rung q = qc_rungs q ! qc_rung q"


text \<open>
  \<open>tick_quality\<close> takes the encoder load and a new source size from the statistics, then the rung.
  \<open>wh\<close> is the encode size of the native host where a rung change asks for it.
\<close>

definition follow_source :: "native_stats \<Rightarrow> stream_manager \<Rightarrow> stream_manager" where
  "follow_source s m =
     (if ns_source_changes s \<noteq> mg_q_source_changes m \<and> ns_source_width s > 0 \<and> ns_source_height s > 0
      then case encode_size_for (ns_source_width s) (ns_source_height s) (mg_config_height m) (mg_config_fps m) of
        (w, h) \<Rightarrow>
          (case set_top_size w h (mg_quality m) of
             (changed, q) \<Rightarrow>
               let m1 = m\<lparr>mg_q_source_changes := ns_source_changes s, mg_quality := q\<rparr>
               in case changed of None \<Rightarrow> m1
                  | Some r \<Rightarrow> emit (Control (rung_message r)) (apply_rung_geometry r m1))
      else m)"

definition take_load :: "native_stats \<Rightarrow> stream_manager \<Rightarrow> stream_manager" where
  "take_load s m =
     m\<lparr>mg_q_frames := ns_frames_captured s, mg_q_drops := ns_queue_drops s,
       mg_quality := set_encoder_load
         \<lparr>el_frames_offered = ns_frames_captured s - mg_q_frames m, el_queue_drops = ns_queue_drops s - mg_q_drops m,
          el_mean_encode_ms = ns_encode_ms_mean s, el_fps = rung_fps (current_rung (mg_quality m))\<rparr> (mg_quality m)\<rparr>"

definition take_rung :: "nat \<times> nat \<Rightarrow> instant \<Rightarrow> stream_manager \<Rightarrow> stream_manager" where
  "take_rung wh now m =
     (case tick_rung now (mg_quality m) of
        (update, q) \<Rightarrow>
          let m1 = m\<lparr>mg_quality := q\<rparr>;
              m2 = (case up_rung update of None \<Rightarrow> m1 | Some r \<Rightarrow> apply_rung r wh m1)
          in case up_allocation_kbps update of None \<Rightarrow> m2 | Some k \<Rightarrow> emit (Max_allocated k) m2)"

definition tick_quality :: "native_stats \<Rightarrow> nat \<times> nat \<Rightarrow> instant \<Rightarrow> stream_manager \<Rightarrow> stream_manager" where
  "tick_quality s wh now m =
     update_upload_budget now
       (take_rung wh now (if mg_host m then follow_source s (take_load s m) else m))"

section \<open>Keyframe requests\<close>

definition fire_host_keyframe :: "string \<Rightarrow> instant \<Rightarrow> stream_manager \<Rightarrow> stream_manager" where
  "fire_host_keyframe reason now m = emit (Request_keyframe reason now) m"

definition request_host_keyframe :: "string \<Rightarrow> instant \<Rightarrow> stream_manager \<Rightarrow> bool \<times> stream_manager" where
  "request_host_keyframe reason now m =
     (if duration_since now (mg_last_queue_kf m) < queue_keyframe_request_cooldown then (False, m)
      else (True, (fire_host_keyframe reason now m)\<lparr>mg_last_queue_kf := now\<rparr>))"

definition request_host_keyframe_with_cooldown ::
  "string \<Rightarrow> duration \<Rightarrow> instant \<Rightarrow> stream_manager \<Rightarrow> bool \<times> stream_manager" where
  "request_host_keyframe_with_cooldown reason cooldown now m =
     (if duration_since now (mg_last_viewer_kf m) < cooldown then (False, m)
      else (True, (fire_host_keyframe reason now m)\<lparr>mg_last_viewer_kf := now\<rparr>))"

definition fire_deferred_keyframe :: "instant \<Rightarrow> stream_manager \<Rightarrow> stream_manager" where
  "fire_deferred_keyframe now m =
     (case mg_deferred_at m of
        None \<Rightarrow> m
      | Some due \<Rightarrow>
          if \<not> mg_drop_delta m then m\<lparr>mg_deferred_at := None\<rparr>
          else if now < due then m
          else case request_host_keyframe_with_cooldown ''deferred_viewer_request'' viewer_keyframe_request_cooldown now m of
                 (fired, m1) \<Rightarrow> if fired then m1\<lparr>mg_deferred_at := None\<rparr> else m1)"

section \<open>Pause, idle and exit\<close>

definition observe_idle :: "nat \<Rightarrow> stream_manager \<Rightarrow> bool option \<times> stream_manager" where
  "observe_idle idle_repeats_total m =
     (let idle = (idle_repeats_total > mg_idle_tick m); m1 = m\<lparr>mg_idle_tick := idle_repeats_total\<rparr>
      in if idle = mg_idle m1 then (None, m1) else (Some idle, m1\<lparr>mg_idle := idle\<rparr>))"

definition tick_host_idle :: "stream_manager \<Rightarrow> stream_manager" where
  "tick_host_idle m =
     (case observe_idle (mg_idle_seen m) m of
        (None, m1) \<Rightarrow> m1
      | (Some idle, m1) \<Rightarrow> emit (Control (idle_message idle)) m1)"

definition send_pause_state_with_reason :: "bool \<Rightarrow> pause_reason \<Rightarrow> stream_manager \<Rightarrow> stream_manager" where
  "send_pause_state_with_reason paused reason m =
     emit (Control (pause_message_with_reason paused reason)) (emit (Control (pause_message paused)) m)"

definition send_pause_state :: "bool \<Rightarrow> stream_manager \<Rightarrow> stream_manager" where
  "send_pause_state paused m = send_pause_state_with_reason paused (reason_from_capture_state (mg_capture_state m)) m"

definition observe_target_exit :: "bool \<Rightarrow> stream_manager \<Rightarrow> bool \<times> stream_manager" where
  "observe_target_exit exited m =
     (if exited \<and> \<not> mg_exit_reported m
      then (True, (if mg_ui m then emit Ui_target_exited m else m)\<lparr>mg_exit_reported := True\<rparr>)
      else (False, m))"

definition tick_stream_pause :: "instant \<Rightarrow> stream_manager \<Rightarrow> stream_manager" where
  "tick_stream_pause now m =
     (if mg_exit_seen m then snd (observe_target_exit True m)
      else case pause_observe (mg_capture_state m = capture_state_capturing) (mg_pause m) of
        (None, p) \<Rightarrow> m\<lparr>mg_pause := p\<rparr>
      | (Some paused, p) \<Rightarrow>
          let m1 = m\<lparr>mg_pause := p\<rparr>;
              m2 = (if paused then m1
                    else snd (request_host_keyframe_with_cooldown ''pause_resume'' viewer_keyframe_request_cooldown now m1));
              m3 = send_pause_state_with_reason paused (reason_from_capture_state (mg_capture_state m)) m2
          in if mg_ui m3 then emit (Ui_host_paused paused) m3 else m3)"

text \<open>The end of \<open>report_stream_stats\<close>: the pause state again while it lasts.\<close>

definition report_stream_stats :: "stream_manager \<Rightarrow> stream_manager" where
  "report_stream_stats m = (if pc_paused (mg_pause m) then send_pause_state True m else m)"

text \<open>\<open>packet\<close> is what \<open>mello_stream_get_cursor_packet\<close> wrote, empty where it has nothing.\<close>

definition poll_cursor :: "nat list \<Rightarrow> stream_manager \<Rightarrow> stream_manager" where
  "poll_cursor packet m =
     (if \<not> mg_host m \<or> packet = [] \<or> length packet > max_cursor_packet_bytes then m
      else
        let msg = control_message_from_native packet; m1 = emit (Control msg) m
        in (if message_has_shape msg then m1\<lparr>mg_cursor_shape := Some msg\<rparr> else m1)\<lparr>mg_cursor_last := Some msg\<rparr>)"

text \<open>The one-second tick of the loop of \<open>run\<close>; the statistics are read twice.\<close>

definition manager_tick :: "native_stats \<Rightarrow> nat \<times> nat \<Rightarrow> native_stats \<Rightarrow> instant \<Rightarrow> stream_manager \<Rightarrow> stream_manager" where
  "manager_tick s wh s' now m =
     tick_host_idle (tick_stream_pause now (check_capture_state s' (tick_quality s wh now m)))"


section \<open>Viewers and their feedback\<close>

definition handle_viewer_joined :: "string \<Rightarrow> stream_manager \<Rightarrow> stream_manager" where
  "handle_viewer_joined viewer_id m =
     (let m1 = emit (Sink_joined viewer_id)
            (m\<lparr>mg_remb := AList.delete viewer_id (mg_remb m), mg_viewers := List.insert viewer_id (mg_viewers m)\<rparr>);
          m2 = (if pc_paused (mg_pause m1) then send_pause_state True m1 else m1);
          m3 = emit (Control (rung_message (current_rung (mg_quality m2)))) m2;
          m4 = (if mg_idle m3 then emit (Control (idle_message True)) m3 else m3)
      in case mg_cursor_shape m4 of
           None \<Rightarrow> m4
         | Some shape \<Rightarrow>
             let m5 = emit (Control shape) m4
             in case mg_cursor_last m5 of
                  None \<Rightarrow> m5
                | Some msg \<Rightarrow> if msg \<noteq> shape then emit (Control msg) m5 else m5)"

definition handle_viewer_left :: "string \<Rightarrow> instant \<Rightarrow> stream_manager \<Rightarrow> stream_manager" where
  "handle_viewer_left viewer_id now m =
     (let m1 = emit (Sink_left viewer_id)
            (m\<lparr>mg_remb := AList.delete viewer_id (mg_remb m), mg_viewers := removeAll viewer_id (mg_viewers m)\<rparr>);
          m2 = (if mg_viewers m1 = [] then m1\<lparr>mg_remb := []\<rparr> else m1)
      in apply_remb_aggregate now m2)"

datatype feedback_kind = Pli | Remb nat | Local_idr_needed | Gcc nat

definition keyframe_feedback :: "string \<Rightarrow> instant \<Rightarrow> stream_manager \<Rightarrow> stream_manager" where
  "keyframe_feedback reason now m =
     (let m1 = (bump mt_kf_feedback_update 1 m)\<lparr>mg_drop_delta := True\<rparr>
      in case request_host_keyframe_with_cooldown reason viewer_keyframe_request_cooldown now m1 of
           (fired, m2) \<Rightarrow>
             if \<not> fired \<and> mg_deferred_at m2 = None
             then m2\<lparr>mg_deferred_at := Some (mg_last_viewer_kf m2 + viewer_keyframe_request_cooldown)\<rparr>
             else m2)"

fun handle_video_feedback :: "string \<times> feedback_kind \<Rightarrow> instant \<Rightarrow> stream_manager \<Rightarrow> stream_manager" where
  "handle_video_feedback (viewer_id, Pli) now m = keyframe_feedback ''native_pli'' now m"
| "handle_video_feedback (viewer_id, Local_idr_needed) now m = keyframe_feedback ''native_local_idr'' now m"
| "handle_video_feedback (viewer_id, Remb bitrate_bps) now m =
     (if bitrate_bps = 0 then m
      else apply_remb_aggregate now
        (m\<lparr>mg_remb := AList.update viewer_id \<lparr>rm_bitrate_bps = bitrate_bps, rm_updated_at = now\<rparr> (mg_remb m)\<rparr>))"
| "handle_video_feedback (viewer_id, Gcc bitrate_bps) now m =
     update_upload_budget now (apply_quality_bitrate now (m\<lparr>mg_quality := set_gcc_target_bps bitrate_bps (mg_quality m)\<rparr>))"

text \<open>What the sink has queued: joins, leaves, then feedback.\<close>

definition drain_sink_events ::
  "string list \<Rightarrow> string list \<Rightarrow> (string \<times> feedback_kind) list \<Rightarrow> instant \<Rightarrow> stream_manager \<Rightarrow> stream_manager" where
  "drain_sink_events joined left feedback now m =
     (let m1 = fold handle_viewer_joined joined m;
          m2 = fold (\<lambda>v. handle_viewer_left v now) left m1;
          m3 = fold (\<lambda>f. handle_video_feedback f now) feedback m2;
          m4 = fire_deferred_keyframe now m3
      in if mg_remb m4 \<noteq> [] then apply_remb_aggregate now m4 else apply_quality_bitrate now m4)"

section \<open>Video and audio\<close>

definition recover_with :: "string \<Rightarrow> instant \<Rightarrow> stream_manager \<Rightarrow> stream_manager" where
  "recover_with reason now m =
     (case request_host_keyframe reason now m of
        (fired, m1) \<Rightarrow> if fired then bump mt_kf_recovery_update 1 m1 else m1)"

text \<open>The branch of \<open>handle_video\<close> for a drained backlog, without its log lines.\<close>

definition note_backlog :: "video_packet \<Rightarrow> nat \<Rightarrow> instant \<Rightarrow> stream_manager \<Rightarrow> stream_manager" where
  "note_backlog packet coalesced now m =
     (if coalesced = 0 then m
      else
        let m1 = bump mt_coalesce_events_update 1 (bump mt_coalesced_update coalesced m)
        in if \<not> vp_keyframe packet \<and> coalesced \<ge> queue_keyframe_coalesce_threshold
           then case request_host_keyframe ''queue_pressure'' now m1 of
             (fired, m2) \<Rightarrow>
               let m3 = (if fired then bump mt_kf_pressure_update 1 m2 else m2)
               in if coalesced \<ge> queue_recovery_coalesce_threshold then m3\<lparr>mg_drop_delta := True\<rparr> else m3
           else m1)"

text \<open>The end of \<open>handle_video\<close>: \<open>outcome\<close> is the answer of the sink.\<close>

definition send_video :: "video_packet \<Rightarrow> send_outcome \<Rightarrow> instant \<Rightarrow> stream_manager \<Rightarrow> stream_manager" where
  "send_video packet outcome now m =
     (let m1 = emit (Video_out packet outcome) m
      in case outcome of
           Sent \<Rightarrow> m1
         | Backpressure \<Rightarrow> m1
         | Sfu_failed \<Rightarrow>
             recover_with ''sfu_send_failed'' now ((bump mt_send_fail_update 1 m1)\<lparr>mg_drop_delta := True\<rparr>)
         | Other_failed \<Rightarrow> bump mt_send_fail_update 1 m1)"

definition handle_video ::
  "video_packet \<Rightarrow> video_packet list list \<Rightarrow> send_outcome \<Rightarrow> instant \<Rightarrow> stream_manager \<Rightarrow> stream_manager" where
  "handle_video pkt arriving outcome now m =
     (case coalesce_video_packet pkt max_video_coalesce_drain arriving m of
        (Chain_gap coalesced, m1) \<Rightarrow>
          recover_with ''reference_chain_gap'' now
            ((bump mt_chain_gap_update 1 (bump mt_coalesce_events_update 1 (bump mt_coalesced_update coalesced
              (bump mt_video_in_update (1 + coalesced) m1))))\<lparr>mg_drop_delta := True\<rparr>)
      | (Coalesce_send packet coalesced, m1) \<Rightarrow>
          let m2 = note_backlog packet coalesced now (bump mt_video_in_update (1 + coalesced) m1)
          in if vp_keyframe packet
             then send_video packet outcome now (m2\<lparr>mg_deferred_at := None, mg_drop_delta := False\<rparr>)
             else if mg_drop_delta m2
             then recover_with ''recovery_wait_keyframe'' now (bump mt_dropped_for_recovery_update 1 m2)
             else send_video packet outcome now m2)"

definition handle_audio :: "audio_packet \<Rightarrow> bool \<Rightarrow> stream_manager \<Rightarrow> stream_manager" where
  "handle_audio pkt ok m =
     (let m1 = bump mt_audio_in_update 1 m
      in if pc_paused (mg_pause m1) then m1
         else
           let m2 = emit (Audio_out (ap_data pkt) (media_time_48k (ap_timestamp pkt)))
                 (m1\<lparr>mg_audio_seq := wrap_u u16_max (mg_audio_seq m1 + 1)\<rparr>)
           in if ok then bump mt_audio_sent_update 1 m2 else bump mt_audio_fail_update 1 m2)"

section \<open>The loop\<close>

text \<open>
  One turn of the loop of \<open>run\<close>, or a callback of the native threads. The loop picks any branch
  that is ready, so a run is any list of these events.
\<close>

datatype host_event =
    Ev_encoded video_packet | Ev_audio audio_packet
  | Ev_video "video_packet list list" send_outcome instant | Ev_send_audio bool
  | Ev_feedback "string list" "string list" "(string \<times> feedback_kind) list" instant
  | Ev_manager native_stats "nat \<times> nat" native_stats instant
  | Ev_stats | Ev_cursor "nat list"

fun host_step :: "host_event \<Rightarrow> stream_manager \<Rightarrow> stream_manager" where
  "host_step (Ev_encoded p) m = on_video_packet p m"
| "host_step (Ev_audio p) m = on_audio_packet p m"
| "host_step (Ev_video arriving outcome now) m =
     (case mg_video_rx m of [] \<Rightarrow> m | p # rest \<Rightarrow> handle_video p arriving outcome now (m\<lparr>mg_video_rx := rest\<rparr>))"
| "host_step (Ev_send_audio ok) m =
     (case mg_audio_rx m of [] \<Rightarrow> m | p # rest \<Rightarrow> handle_audio p ok (m\<lparr>mg_audio_rx := rest\<rparr>))"
| "host_step (Ev_feedback joined left feedback now) m = drain_sink_events joined left feedback now m"
| "host_step (Ev_manager s wh s' now) m = manager_tick s wh s' now m"
| "host_step Ev_stats m = report_stream_stats m"
| "host_step (Ev_cursor packet) m = poll_cursor packet m"

abbreviation host_run :: "host_event list \<Rightarrow> stream_manager \<Rightarrow> stream_manager" where
  "host_run es m \<equiv> fold host_step es m"

text \<open>The client takes the capture failure once (\<open>StreamSession::take_capture_failed\<close>).\<close>

definition take_capture_failed :: "stream_manager \<Rightarrow> bool \<times> stream_manager" where
  "take_capture_failed m = (mg_capture_failed_flag m, m\<lparr>mg_capture_failed_flag := False\<rparr>)"

end
