(* ===== verification/Stream_Host_Frame.thy ===== *)
theory Stream_Host_Frame
  imports Stream_Host
begin

text \<open>
  Which handlers of the manager leave the video path alone. Most of them only emit outputs and
  change their own fields: they keep the video queue, the recovery mode, the clocks of the keyframe
  requests and the core of the log (video out, encoder in, keyframe requests).
\<close>

fun core_out :: "host_out \<Rightarrow> bool" where
  "core_out (Video_out p r) = True"
| "core_out (Encoded_out p) = True"
| "core_out (Request_keyframe r t) = True"
| "core_out _ = False"

definition core :: "stream_manager \<Rightarrow> host_out list" where
  "core m = filter core_out (mg_out m)"

definition still :: "stream_manager \<Rightarrow> stream_manager \<Rightarrow> bool" where
  "still m m' \<longleftrightarrow> core m' = core m \<and> mg_video_rx m' = mg_video_rx m \<and> mg_drop_delta m' = mg_drop_delta m \<and>
     mg_last_queue_kf m' = mg_last_queue_kf m \<and> mg_last_viewer_kf m' = mg_last_viewer_kf m \<and>
     mg_deferred_at m' = mg_deferred_at m"

lemma emit_fields [simp]:
  "mg_host (emit a m) = mg_host m" "mg_config_height (emit a m) = mg_config_height m"
  "mg_config_fps (emit a m) = mg_config_fps m" "mg_video_rx (emit a m) = mg_video_rx m"
  "mg_audio_rx (emit a m) = mg_audio_rx m" "mg_bitrate (emit a m) = mg_bitrate m"
  "mg_min (emit a m) = mg_min m" "mg_max (emit a m) = mg_max m" "mg_remb (emit a m) = mg_remb m"
  "mg_viewers (emit a m) = mg_viewers m" "mg_audio_seq (emit a m) = mg_audio_seq m"
  "mg_last_queue_kf (emit a m) = mg_last_queue_kf m" "mg_last_viewer_kf (emit a m) = mg_last_viewer_kf m"
  "mg_deferred_at (emit a m) = mg_deferred_at m" "mg_capture_failed_flag (emit a m) = mg_capture_failed_flag m"
  "mg_capture_failed_last (emit a m) = mg_capture_failed_last m"
  "mg_capture_state (emit a m) = mg_capture_state m" "mg_exit_seen (emit a m) = mg_exit_seen m"
  "mg_exit_reported (emit a m) = mg_exit_reported m" "mg_quality (emit a m) = mg_quality m"
  "mg_q_frames (emit a m) = mg_q_frames m" "mg_q_drops (emit a m) = mg_q_drops m"
  "mg_q_source_changes (emit a m) = mg_q_source_changes m" "mg_governor (emit a m) = mg_governor m"
  "mg_pace (emit a m) = mg_pace m" "mg_pause (emit a m) = mg_pause m" "mg_ui (emit a m) = mg_ui m"
  "mg_drop_delta (emit a m) = mg_drop_delta m" "mg_idle (emit a m) = mg_idle m"
  "mg_idle_tick (emit a m) = mg_idle_tick m" "mg_idle_seen (emit a m) = mg_idle_seen m"
  "mg_cursor_shape (emit a m) = mg_cursor_shape m" "mg_cursor_last (emit a m) = mg_cursor_last m"
  "mg_totals (emit a m) = mg_totals m" "mg_out (emit a m) = mg_out m @ [a]"
  by (simp_all add: emit_def)

lemma bump_fields [simp]:
  "mg_host (bump u k m) = mg_host m" "mg_config_height (bump u k m) = mg_config_height m"
  "mg_config_fps (bump u k m) = mg_config_fps m" "mg_video_rx (bump u k m) = mg_video_rx m"
  "mg_audio_rx (bump u k m) = mg_audio_rx m" "mg_bitrate (bump u k m) = mg_bitrate m"
  "mg_min (bump u k m) = mg_min m" "mg_max (bump u k m) = mg_max m" "mg_remb (bump u k m) = mg_remb m"
  "mg_viewers (bump u k m) = mg_viewers m" "mg_audio_seq (bump u k m) = mg_audio_seq m"
  "mg_last_queue_kf (bump u k m) = mg_last_queue_kf m" "mg_last_viewer_kf (bump u k m) = mg_last_viewer_kf m"
  "mg_deferred_at (bump u k m) = mg_deferred_at m"
  "mg_capture_failed_flag (bump u k m) = mg_capture_failed_flag m"
  "mg_capture_failed_last (bump u k m) = mg_capture_failed_last m"
  "mg_capture_state (bump u k m) = mg_capture_state m" "mg_exit_seen (bump u k m) = mg_exit_seen m"
  "mg_exit_reported (bump u k m) = mg_exit_reported m" "mg_quality (bump u k m) = mg_quality m"
  "mg_q_frames (bump u k m) = mg_q_frames m" "mg_q_drops (bump u k m) = mg_q_drops m"
  "mg_q_source_changes (bump u k m) = mg_q_source_changes m" "mg_governor (bump u k m) = mg_governor m"
  "mg_pace (bump u k m) = mg_pace m" "mg_pause (bump u k m) = mg_pause m" "mg_ui (bump u k m) = mg_ui m"
  "mg_drop_delta (bump u k m) = mg_drop_delta m" "mg_idle (bump u k m) = mg_idle m"
  "mg_idle_tick (bump u k m) = mg_idle_tick m" "mg_idle_seen (bump u k m) = mg_idle_seen m"
  "mg_cursor_shape (bump u k m) = mg_cursor_shape m" "mg_cursor_last (bump u k m) = mg_cursor_last m"
  "mg_out (bump u k m) = mg_out m"
  by (simp_all add: bump_def)

lemma still_refl [simp, intro]: "still m m"
  by (simp add: still_def)

lemma still_trans [trans]: "still m m1 \<Longrightarrow> still m1 m2 \<Longrightarrow> still m m2"
  by (simp add: still_def)

lemma still_fold: "(\<And>x m. still m (f x m)) \<Longrightarrow> still m (fold f xs m)"
  by (induction xs arbitrary: m) (auto intro: still_trans)

lemma still_emit: "\<not> core_out a \<Longrightarrow> still m (emit a m)"
  by (simp add: still_def emit_def core_def)

lemma still_bump: "still m (bump u k m)"
  by (simp add: still_def bump_def core_def)

lemma still_apply_quality_bitrate: "still m (apply_quality_bitrate now m)"
  by (auto simp: apply_quality_bitrate_def apply_bitrate_kbps_def refresh_pacing_target_def still_def emit_def
      core_def Let_def split: option.splits prod.splits)

lemma still_apply_remb_aggregate: "still m (apply_remb_aggregate now m)"
proof -
  have "still m (m\<lparr>mg_remb := r, mg_quality := q\<rparr>)" for r q by (simp add: still_def core_def)
  then show ?thesis
    unfolding apply_remb_aggregate_def Let_def expire_stale_remb_def
    by (auto intro: still_trans [OF _ still_apply_quality_bitrate])
qed

lemma still_update_upload_budget: "still m (update_upload_budget now m)"
  by (simp add: update_upload_budget_def still_def core_def Let_def split: prod.splits)

lemma still_viewer_joined: "still m (handle_viewer_joined v m)"
  by (auto simp: handle_viewer_joined_def send_pause_state_def send_pause_state_with_reason_def still_def emit_def
      core_def Let_def split: option.splits)

lemma still_viewer_left: "still m (handle_viewer_left v now m)"
proof -
  have "still m ((emit (Sink_left v) (m\<lparr>mg_remb := r, mg_viewers := w\<rparr>))\<lparr>mg_remb := r'\<rparr>)"
    "still m (emit (Sink_left v) (m\<lparr>mg_remb := r, mg_viewers := w\<rparr>))" for r w r'
    by (simp_all add: still_def emit_def core_def)
  then show ?thesis
    unfolding handle_viewer_left_def Let_def
    by (auto intro: still_trans [OF _ still_apply_remb_aggregate])
qed

lemma still_apply_rung: "still m (apply_rung r wh m)" "still m (apply_rung_geometry r m)"
  by (simp_all add: apply_rung_def apply_rung_geometry_def still_def emit_def core_def Let_def)

lemma still_tick_quality: "still m (tick_quality s wh now m)"
proof -
  have q: "still m (m\<lparr>mg_quality := q\<rparr>)" "still m (m\<lparr>mg_q_source_changes := n, mg_quality := q\<rparr>)"
    "still m (take_load s m)" for m n q
    by (simp_all add: take_load_def still_def core_def)
  have "still m (follow_source s m)" for m
    by (simp add: follow_source_def apply_rung_geometry_def still_def emit_def core_def Let_def
        split: prod.split option.split)
  moreover have "still m (take_rung wh now m)" for m
  proof -
    obtain u q where u: "tick_rung now (mg_quality m) = (u, q)" by fastforce
    let ?m1 = "m\<lparr>mg_quality := q\<rparr>"
    let ?m2 = "case up_rung u of None \<Rightarrow> ?m1 | Some r \<Rightarrow> apply_rung r wh ?m1"
    have "still m ?m1" by (rule q(1))
    also have "still ?m1 ?m2" by (simp add: still_apply_rung split: option.split)
    also have "still ?m2 (case up_allocation_kbps u of None \<Rightarrow> ?m2 | Some k \<Rightarrow> emit (Max_allocated k) ?m2)"
      by (auto intro: still_emit split: option.split)
    finally show ?thesis unfolding take_rung_def u Let_def prod.case .
  qed
  moreover have "still m (if mg_host m then follow_source s (take_load s m) else m)"
    using still_trans [OF q(3) calculation(1)] by simp
  ultimately show ?thesis
    unfolding tick_quality_def by (blast intro: still_trans still_update_upload_budget)
qed

lemma still_check_capture_state: "still m (check_capture_state s m)"
  by (simp add: check_capture_state_def still_def core_def Let_def)

lemma still_tick_host_idle: "still m (tick_host_idle m)"
  by (auto simp: tick_host_idle_def observe_idle_def still_def emit_def core_def Let_def
      split: option.splits prod.splits if_splits)

lemma still_other:
  "still m (report_stream_stats m)" "still m (poll_cursor packet m)" "still m (on_audio_packet a m)"
  "still m (handle_audio a ok m)" "still m (run_start wh m)"
      apply (simp add: report_stream_stats_def send_pause_state_def send_pause_state_with_reason_def still_def emit_def core_def)
     apply (simp add: poll_cursor_def still_def emit_def core_def Let_def)
    apply (simp add: on_audio_packet_def still_def core_def)
   apply (simp add: handle_audio_def bump_def still_def emit_def core_def Let_def)
  apply (simp add: run_start_def start_quality_def refresh_pacing_target_def apply_bitrate_kbps_def still_def emit_def
      core_def Let_def split: prod.splits)
  done

end
