(* ===== verification/Stream_Host_Video.thy ===== *)
theory Stream_Host_Video
  imports Stream_Host_Frame "HOL-Library.Sublist"
begin

text \<open>
  The order of the video that a host hands to its sink: in every run of the manager, against every
  encoder, sink and feedback, a delta frame follows the frame it was encoded after.
\<close>

section \<open>What the log says of the video\<close>

fun encoded_of :: "host_out \<Rightarrow> video_packet list" where
  "encoded_of (Encoded_out p) = [p]"
| "encoded_of _ = []"

fun handed_of :: "host_out \<Rightarrow> (video_packet \<times> send_outcome) list" where
  "handed_of (Video_out p r) = [(p, r)]"
| "handed_of _ = []"

definition encoded :: "stream_manager \<Rightarrow> video_packet list" where
  "encoded m = concat (map encoded_of (mg_out m))"

definition handed :: "stream_manager \<Rightarrow> (video_packet \<times> send_outcome) list" where
  "handed m = concat (map handed_of (mg_out m))"

text \<open>A handler is quiet when it leaves the queue and the video log and does not end a recovery.\<close>

definition quiet :: "stream_manager \<Rightarrow> stream_manager \<Rightarrow> bool" where
  "quiet m m' \<longleftrightarrow> mg_video_rx m' = mg_video_rx m \<and> encoded m' = encoded m \<and> handed m' = handed m \<and>
     (mg_drop_delta m \<longrightarrow> mg_drop_delta m')"

lemma quiet_refl [simp, intro]: "quiet m m"
  by (simp add: quiet_def)

lemma quiet_trans [trans]: "quiet m m1 \<Longrightarrow> quiet m1 m2 \<Longrightarrow> quiet m m2"
  by (auto simp: quiet_def)

lemma quiet_of_still: "still m m' \<Longrightarrow> quiet m m'"
proof -
  have "encoded m = concat (map encoded_of (core m))" "handed m = concat (map handed_of (core m))" for m
  proof -
    have "concat (map encoded_of xs) = concat (map encoded_of (filter core_out xs))"
      "concat (map handed_of xs) = concat (map handed_of (filter core_out xs))" for xs
      by (induction xs) (simp_all, (metis encoded_of.simps handed_of.simps core_out.simps host_out.exhaust append_Nil)+)
    then show "encoded m = concat (map encoded_of (core m))" "handed m = concat (map handed_of (core m))"
      by (simp_all add: encoded_def handed_def core_def)
  qed
  then show "still m m' \<Longrightarrow> quiet m m'" by (simp add: still_def quiet_def)
qed

lemma quiet_fold: "(\<And>x m. quiet m (f x m)) \<Longrightarrow> quiet m (fold f xs m)"
  by (induction xs arbitrary: m) (auto intro: quiet_trans)

lemma quiet_emit: "encoded_of a = [] \<Longrightarrow> handed_of a = [] \<Longrightarrow> quiet m (emit a m)"
  by (simp add: quiet_def emit_def encoded_def handed_def)

named_theorems quiet_simps "how the parts of quiet read a changed state"

lemma encoded_simps [quiet_simps]:
  "encoded (emit a m) = encoded m @ encoded_of a" "handed (emit a m) = handed m @ handed_of a"
  "mg_video_rx (emit a m) = mg_video_rx m" "mg_drop_delta (emit a m) = mg_drop_delta m"
  by (simp_all add: emit_def encoded_def handed_def)

lemma bump_simps [quiet_simps]:
  "encoded (bump u k m) = encoded m" "handed (bump u k m) = handed m"
  "mg_video_rx (bump u k m) = mg_video_rx m" "mg_drop_delta (bump u k m) = mg_drop_delta m"
  by (simp_all add: bump_def encoded_def handed_def)

lemma quiet_apply_quality_bitrate: "quiet m (apply_quality_bitrate now m)"
  by (rule quiet_of_still, rule still_apply_quality_bitrate)

lemma quiet_apply_remb_aggregate: "quiet m (apply_remb_aggregate now m)"
  by (rule quiet_of_still, rule still_apply_remb_aggregate)

lemma quiet_request: "quiet m (snd (request_host_keyframe r now m))"
  "quiet m (snd (request_host_keyframe_with_cooldown r c now m))"
  by (simp_all add: request_host_keyframe_def request_host_keyframe_with_cooldown_def fire_host_keyframe_def quiet_def emit_def
      encoded_def handed_def)

lemma quiet_recover_with: "quiet m (recover_with r now m)"
  using quiet_request(1) [of m r now]
  by (auto simp: recover_with_def quiet_def bump_simps split: prod.splits)

lemma quiet_fire_deferred: "quiet m (fire_deferred_keyframe now m)"
  using quiet_request(2) [of m "''deferred_viewer_request''" viewer_keyframe_request_cooldown now]
  by (auto simp: fire_deferred_keyframe_def quiet_def encoded_def handed_def split: option.splits prod.splits)

lemma quiet_keyframe_feedback: "quiet m (keyframe_feedback r now m)"
  by (auto simp: keyframe_feedback_def request_host_keyframe_with_cooldown_def fire_host_keyframe_def quiet_def emit_def bump_def
      encoded_def handed_def Let_def)

lemma quiet_update_upload_budget: "quiet m (update_upload_budget now m)"
  by (rule quiet_of_still, rule still_update_upload_budget)

lemma quiet_feedback: "quiet m (handle_video_feedback f now m)"
proof (cases f)
  case (Pair v k)
  have u: "quiet m (m\<lparr>mg_remb := r\<rparr>)" "quiet m (m\<lparr>mg_quality := q\<rparr>)" for r q
    by (simp_all add: quiet_def encoded_def handed_def)
  show ?thesis
    by (cases k) (auto simp: Pair quiet_keyframe_feedback intro: u quiet_trans [OF _ quiet_apply_remb_aggregate]
        quiet_trans [OF _ quiet_update_upload_budget] quiet_trans [OF _ quiet_apply_quality_bitrate])
qed

lemma quiet_viewer_joined: "quiet m (handle_viewer_joined v m)"
  by (rule quiet_of_still, rule still_viewer_joined)

lemma quiet_viewer_left: "quiet m (handle_viewer_left v now m)"
  by (rule quiet_of_still, rule still_viewer_left)

lemma quiet_drain: "quiet m (drain_sink_events joined left feedback now m)"
proof -
  have "quiet m (fold handle_viewer_joined joined m)" by (rule quiet_fold) (rule quiet_viewer_joined)
  also have "quiet \<dots> (fold (\<lambda>v. handle_viewer_left v now) left \<dots>)" by (rule quiet_fold) (rule quiet_viewer_left)
  also have "quiet \<dots> (fold (\<lambda>f. handle_video_feedback f now) feedback \<dots>)" by (rule quiet_fold) (rule quiet_feedback)
  also have "quiet \<dots> (fire_deferred_keyframe now \<dots>)" by (rule quiet_fire_deferred)
  finally show ?thesis
    unfolding drain_sink_events_def Let_def
    by (auto intro: quiet_trans [OF _ quiet_apply_remb_aggregate] quiet_trans [OF _ quiet_apply_quality_bitrate])
qed

lemma quiet_tick_quality: "quiet m (tick_quality s wh now m)"
  by (rule quiet_of_still, rule still_tick_quality)

lemma quiet_manager_tick: "quiet m (manager_tick s wh s' now m)"
proof -
  have pause: "quiet m (tick_stream_pause now m)" for m
    by (auto simp: tick_stream_pause_def observe_target_exit_def send_pause_state_with_reason_def
        request_host_keyframe_with_cooldown_def fire_host_keyframe_def quiet_def emit_def encoded_def handed_def Let_def
        split: option.splits prod.splits)
  show ?thesis
    unfolding manager_tick_def
    by (rule quiet_trans [OF quiet_trans [OF quiet_trans [OF quiet_tick_quality
          quiet_of_still [OF still_check_capture_state]] pause] quiet_of_still [OF still_tick_host_idle]])
qed

lemmas quiet_other = still_other [THEN quiet_of_still]

section \<open>The queue between the encoder and the manager\<close>

lemma on_video_packet_simps [simp]:
  "encoded (on_video_packet p m) = encoded m @ [p]" "handed (on_video_packet p m) = handed m"
  "mg_drop_delta (on_video_packet p m) = mg_drop_delta m"
  "mg_video_rx (on_video_packet p m) =
     (if length (mg_video_rx m) < video_queue_capacity then mg_video_rx m @ [p] else mg_video_rx m)"
  by (simp_all add: on_video_packet_def emit_def encoded_def handed_def)

lemma rx_pop [simp]: "encoded (m\<lparr>mg_video_rx := r\<rparr>) = encoded m" "handed (m\<lparr>mg_video_rx := r\<rparr>) = handed m"
  by (simp_all add: encoded_def handed_def)

text \<open>
  The drain loop, with at most one packet of the encoder between two looks into the queue: it takes
  the packets from the front, loses none, and keeps the newest keyframe among them.
\<close>

definition newest_keyframe :: "video_packet list \<Rightarrow> video_packet option \<Rightarrow> video_packet option" where
  "newest_keyframe = fold (\<lambda>p k. if vp_keyframe p then Some p else k)"

lemma newest_keyframe_simps [simp]:
  "newest_keyframe [] k = k"
  "newest_keyframe (p # ps) k = newest_keyframe ps (if vp_keyframe p then Some p else k)"
  by (simp_all add: newest_keyframe_def)

lemma newest_keyframe_Some:
  "newest_keyframe ps k = Some x \<Longrightarrow> k = Some x \<or> x \<in> set ps \<and> vp_keyframe x"
  by (induction ps arbitrary: k) (auto split: if_splits)

definition one_by_one :: "video_packet list list \<Rightarrow> bool" where
  "one_by_one arriving \<longleftrightarrow> (\<forall>ps \<in> set arriving. length ps \<le> 1)"

lemma drain_video_split:
  assumes "drain_video room arriving newest n m = (newest', n', m')" "one_by_one arriving"
    and "length (mg_video_rx m) < video_queue_capacity"
  shows "\<exists>ps drained. encoded m' = encoded m @ ps \<and> mg_video_rx m @ ps = drained @ mg_video_rx m' \<and>
    n' = n + length drained \<and> newest' = newest_keyframe drained newest \<and> handed m' = handed m \<and>
    mg_drop_delta m' = mg_drop_delta m \<and> length (mg_video_rx m') \<le> video_queue_capacity \<and>
    (mg_video_rx m' = [] \<or> length drained = room) \<and> (0 < room \<longrightarrow> drained = [] \<longrightarrow> ps = [])"
  using assms
proof (induction room arbitrary: arriving newest n m)
  case 0
  then show ?case by auto
next
  case (Suc room)
  define ps where "ps = (case arriving of [] \<Rightarrow> [] | ps # _ \<Rightarrow> ps)"
  define m1 where "m1 = foldl (\<lambda>m p. on_video_packet p m) m ps"
  have "length ps \<le> 1" using Suc.prems(2) by (auto simp: ps_def one_by_one_def split: list.splits)
  then have ps: "ps = [] \<or> (\<exists>p. ps = [p])" by (cases ps) auto
  then have m1: "encoded m1 = encoded m @ ps" "handed m1 = handed m" "mg_drop_delta m1 = mg_drop_delta m"
      "mg_video_rx m1 = mg_video_rx m @ ps" "length (mg_video_rx m1) \<le> video_queue_capacity"
    using Suc.prems(3) by (auto simp: m1_def)
  show ?case
  proof (cases "mg_video_rx m1")
    case Nil
    with Suc.prems(1) have "m' = m1" "newest' = newest" "n' = n"
      by (simp_all add: ps_def [symmetric] m1_def [symmetric] Let_def)
    with Nil m1 show ?thesis by auto
  next
    case (Cons p rest)
    with Suc.prems(1) have d: "drain_video room (drop 1 arriving) (if vp_keyframe p then Some p else newest) (n + 1)
        (m1\<lparr>mg_video_rx := rest\<rparr>) = (newest', n', m')"
      by (simp add: ps_def [symmetric] m1_def [symmetric] Let_def)
    have "one_by_one (drop 1 arriving)" using Suc.prems(2) by (auto simp: one_by_one_def dest: in_set_dropD)
    moreover have "length (mg_video_rx (m1\<lparr>mg_video_rx := rest\<rparr>)) < video_queue_capacity" using m1(5) Cons by simp
    ultimately obtain qs drained where r: "encoded m' = encoded m1 @ qs" "rest @ qs = drained @ mg_video_rx m'"
        "n' = n + 1 + length drained" "newest' = newest_keyframe drained (if vp_keyframe p then Some p else newest)"
        "handed m' = handed m1" "mg_drop_delta m' = mg_drop_delta m1" "length (mg_video_rx m') \<le> video_queue_capacity"
        "mg_video_rx m' = [] \<or> length drained = room"
      using Suc.IH [OF d] by auto
    have "mg_video_rx m @ ps @ qs = (p # drained) @ mg_video_rx m'"
      using m1(4) Cons r(2) by (metis append.assoc append_Cons)
    with m1 r show ?thesis
      by - (rule exI [of _ "ps @ qs"], rule exI [of _ "p # drained"], auto)
  qed
qed

section \<open>The order of the frames\<close>

text \<open>
  Two frames handed one after the other: a delta frame never follows a failed send, and unless the
  frame before it is a keyframe it directly follows that frame in the order of the encoder.
\<close>

definition follows :: "video_packet list \<Rightarrow> video_packet \<times> send_outcome \<Rightarrow> video_packet \<times> send_outcome \<Rightarrow> bool" where
  "follows enc a b \<longleftrightarrow> vp_keyframe (fst b) \<or>
     snd a \<noteq> Sfu_failed \<and> (vp_keyframe (fst a) \<or> (\<exists>us vs. enc = us @ fst a # fst b # vs))"

definition in_chain :: "stream_manager \<Rightarrow> bool" where
  "in_chain m \<longleftrightarrow> subseq (map fst (handed m) @ mg_video_rx m) (encoded m) \<and>
     successively (follows (encoded m)) (handed m) \<and>
     length (mg_video_rx m) \<le> video_queue_capacity \<and>
     (length (mg_video_rx m) = video_queue_capacity \<or> suffix (mg_video_rx m) (encoded m)) \<and>
     (\<not> mg_drop_delta m \<longrightarrow> handed m \<noteq> [] \<longrightarrow>
        snd (last (handed m)) \<noteq> Sfu_failed \<and>
        (vp_keyframe (fst (last (handed m))) \<or> length (mg_video_rx m) = video_queue_capacity \<or>
         suffix (fst (last (handed m)) # mg_video_rx m) (encoded m)))"

lemma follows_grow: "follows enc a b \<Longrightarrow> follows (enc @ ps) a b"
  unfolding follows_def by (metis append.assoc append_Cons)

lemma follows_growing: "successively (follows enc) xs \<Longrightarrow> successively (follows (enc @ ps)) xs"
  by (erule successively_mono) (rule follows_grow)

lemma in_chain_quiet: "quiet m m' \<Longrightarrow> in_chain m \<Longrightarrow> in_chain m'"
  by (auto simp: quiet_def in_chain_def)

lemma suffix_snoc: "suffix xs ys \<Longrightarrow> suffix (xs @ zs) (ys @ zs)"
  by (auto simp: suffix_def)

lemma in_chain_encoded:
  assumes "in_chain m"
  shows "in_chain (on_video_packet p m)"
proof -
  note c = assms [unfolded in_chain_def]
  have s: "subseq (map fst (handed m) @ mg_video_rx m) (encoded m @ [p])"
    using c by (auto intro: list_emb_append2)
  show ?thesis
  proof (cases "length (mg_video_rx m) < video_queue_capacity")
    case True
    have "subseq ((map fst (handed m) @ mg_video_rx m) @ [p]) (encoded m @ [p])"
      using c by (intro list_emb_append_mono) auto
    with True c show ?thesis
      by (auto simp: in_chain_def follows_growing intro: suffix_snoc dest: suffix_snoc [where zs = "[p]"])
  next
    case False
    with c s show ?thesis by (auto simp: in_chain_def follows_growing)
  qed
qed


section \<open>One turn of the loop\<close>

lemma quiet_bump: "quiet m (bump u k m)"
  by (simp add: quiet_def bump_simps)

lemma quiet_drop: "quiet m (m\<lparr>mg_drop_delta := True\<rparr>)"
  by (simp add: quiet_def encoded_def handed_def)

text \<open>The manager after the drain: \<open>left\<close> is what stays in the queue, a suffix of the encoder's packets.\<close>

lemma drained_chain:
  assumes chain: "in_chain m" and rx: "mg_video_rx m = h # rest"
    and m1: "encoded m1 = encoded m @ ps" "rest @ ps = drained @ mg_video_rx m1" "handed m1 = handed m"
      "length (mg_video_rx m1) \<le> video_queue_capacity"
      "mg_video_rx m1 = [] \<or> length drained = max_video_coalesce_drain"
  shows "successively (follows (encoded m1)) (handed m1)" "suffix (mg_video_rx m1) (encoded m1)"
    "x \<in> set (h # drained) \<Longrightarrow> subseq (map fst (handed m1) @ x # mg_video_rx m1) (encoded m1)"
    "subseq (map fst (handed m1) @ mg_video_rx m1) (encoded m1)"
proof -
  note c = chain [unfolded in_chain_def]
  show "successively (follows (encoded m1)) (handed m1)" using c m1 by (auto intro: follows_growing)
  show "suffix (mg_video_rx m1) (encoded m1)"
  proof (cases "suffix (mg_video_rx m) (encoded m)")
    case True
    then have "suffix (rest @ ps) (encoded m @ ps)" using rx by (auto simp: suffix_def)
    then show ?thesis using m1 by (auto simp: suffix_def)
  next
    case False
    then have "length rest < video_queue_capacity" using c rx by auto
    with m1(2,5) have "mg_video_rx m1 = [] \<or> length rest < length drained"
      by (auto simp: max_video_coalesce_drain_def video_queue_capacity_def)
    with m1(2) have "suffix (mg_video_rx m1) ps" by (auto simp: append_eq_append_conv2 suffix_def)
    with m1(1) show ?thesis by (auto simp: suffix_def)
  qed
  have "subseq ((map fst (handed m) @ h # rest) @ ps) (encoded m @ ps)"
    using c rx by (intro list_emb_append_mono) auto
  then have all: "subseq (map fst (handed m1) @ (h # drained) @ mg_video_rx m1) (encoded m1)"
    using m1 by simp
  show "subseq (map fst (handed m1) @ x # mg_video_rx m1) (encoded m1)" if "x \<in> set (h # drained)"
  proof -
    have "subseq [x] (h # drained)" using that by (simp only: subseq_singleton_left)
    then have "subseq (map fst (handed m1) @ [x] @ mg_video_rx m1) (map fst (handed m1) @ (h # drained) @ mg_video_rx m1)"
      by (intro list_emb_append_mono) auto
    with all show ?thesis by (auto intro: subseq_order.order_trans)
  qed
  have "subseq (map fst (handed m1) @ [] @ mg_video_rx m1) (map fst (handed m1) @ (h # drained) @ mg_video_rx m1)"
    by (intro list_emb_append_mono) auto
  with all show "subseq (map fst (handed m1) @ mg_video_rx m1) (encoded m1)" by (auto intro: subseq_order.order_trans)
qed

lemma send_video_simps:
  "encoded (send_video p r now m) = encoded m" "handed (send_video p r now m) = handed m @ [(p, r)]"
  "mg_video_rx (send_video p r now m) = mg_video_rx m"
  "r = Sfu_failed \<Longrightarrow> mg_drop_delta (send_video p r now m)"
  using quiet_recover_with [of "((bump mt_send_fail_update 1 (emit (Video_out p r) m))\<lparr>mg_drop_delta := True\<rparr>)" "''sfu_send_failed''" now]
  by (cases r; simp add: send_video_def Let_def quiet_def quiet_simps encoded_def handed_def emit_def bump_def)+

lemma note_backlog_key: "vp_keyframe p \<or> n = 0 \<Longrightarrow> quiet m (note_backlog p n now m)"
  by (auto simp: note_backlog_def Let_def quiet_def quiet_simps)

lemma in_chain_send:
  assumes "successively (follows (encoded m1')) (handed m1')" "length (mg_video_rx m1') \<le> video_queue_capacity"
    and "subseq (map fst (handed m1') @ p # mg_video_rx m1') (encoded m1')"
    and "suffix (mg_video_rx m1') (encoded m1')"
    and "handed m1' \<noteq> [] \<Longrightarrow> follows (encoded m1') (last (handed m1')) (p, r)"
    and "vp_keyframe p \<or> suffix (p # mg_video_rx m1') (encoded m1')"
  shows "in_chain (send_video p r now m1')"
proof -
  have "successively (follows (encoded m1')) (handed m1' @ [(p, r)])"
    using assms(1,5) by (auto simp: successively_append_iff)
  with assms(2-4,6) send_video_simps(4) [of r p now m1'] show ?thesis
    by (auto simp: in_chain_def send_video_simps(1-3))
qed

lemma in_chain_drained:
  assumes "in_chain m" "mg_video_rx m = h # rest" "one_by_one arriving"
    and "drain_video max_video_coalesce_drain arriving newest 0 (m\<lparr>mg_video_rx := rest\<rparr>) = (newest', n, m1)"
  obtains ps drained where "encoded m1 = encoded m @ ps" "rest @ ps = drained @ mg_video_rx m1"
    "handed m1 = handed m" "length (mg_video_rx m1) \<le> video_queue_capacity"
    "mg_video_rx m1 = [] \<or> length drained = max_video_coalesce_drain" "n = length drained"
    "newest' = newest_keyframe drained newest" "mg_drop_delta m1 = mg_drop_delta m" "drained = [] \<longrightarrow> ps = []"
proof -
  have "length rest < video_queue_capacity" using assms(1,2) by (simp add: in_chain_def)
  with drain_video_split [OF assms(4,3)] that show ?thesis
    by (auto simp: max_video_coalesce_drain_def encoded_def handed_def)
qed

lemma subseq_front: "subseq (xs @ ys) zs \<Longrightarrow> subseq xs zs"
  by (blast intro: subseq_order.order_trans prefix_imp_subseq)

lemma newest_keyframe_keeps: "newest_keyframe ps (Some k) \<noteq> None"
  by (induction ps arbitrary: k) auto

lemma in_chain_video:
  assumes chain: "in_chain m" and rx: "mg_video_rx m = h # rest" and one: "one_by_one arriving"
  shows "in_chain (handle_video h arriving r now (m\<lparr>mg_video_rx := rest\<rparr>))"
proof -
  let ?start = "if vp_keyframe h then Some h else None"
  obtain newest n m1 where d: "drain_video max_video_coalesce_drain arriving ?start 0 (m\<lparr>mg_video_rx := rest\<rparr>) = (newest, n, m1)"
    by (metis prod_cases3)
  obtain ps drained where m1: "encoded m1 = encoded m @ ps" "rest @ ps = drained @ mg_video_rx m1"
      "handed m1 = handed m" "length (mg_video_rx m1) \<le> video_queue_capacity"
      "mg_video_rx m1 = [] \<or> length drained = max_video_coalesce_drain" "n = length drained"
      "newest = newest_keyframe drained ?start" "mg_drop_delta m1 = mg_drop_delta m" "drained = [] \<longrightarrow> ps = []"
    by (rule in_chain_drained [OF chain rx one d])
  note keeps = drained_chain [OF chain rx m1(1-5)]
  have recovered: "in_chain m'" if "quiet m1 m'" "mg_drop_delta m'" for m'
    using that keeps(1,2,4) m1(4) by (auto simp: quiet_def in_chain_def)
  show ?thesis
  proof (cases newest)
    case (Some k)
    have k: "k \<in> set (h # drained)" "vp_keyframe k"
      using newest_keyframe_Some [of drained ?start k] m1(7) Some by (auto split: if_splits)
    define m2 where "m2 = (note_backlog k n now (bump mt_video_in_update (1 + n) m1))\<lparr>mg_deferred_at := None, mg_drop_delta := False\<rparr>"
    have q: "quiet m1 (note_backlog k n now (bump mt_video_in_update (1 + n) m1))"
      by (rule quiet_trans [OF quiet_bump note_backlog_key]) (simp add: k)
    then have m2: "encoded m2 = encoded m1" "handed m2 = handed m1" "mg_video_rx m2 = mg_video_rx m1"
      by (simp_all add: m2_def quiet_def encoded_def handed_def)
    have "in_chain (send_video k r now m2)"
      using keeps(1-2) keeps(3) [OF k(1)] keeps(4) m1(4) k(2) send_video_simps(4) [of r k now m2]
      by (auto simp: in_chain_def send_video_simps(1-3) m2 successively_append_iff follows_def)
    then show ?thesis
      using d Some k(2) by (simp add: handle_video_def coalesce_video_packet_def Let_def m2_def)
  next
    case None
    then have h: "\<not> vp_keyframe h" using m1(7) newest_keyframe_keeps [of drained h] by auto
    show ?thesis
    proof (cases "n = 0")
      case False
      have "in_chain (recover_with ''reference_chain_gap'' now
          ((bump mt_chain_gap_update 1 (bump mt_coalesce_events_update 1 (bump mt_coalesced_update n
            (bump mt_video_in_update (1 + n) m1))))\<lparr>mg_drop_delta := True\<rparr>))" (is "in_chain (recover_with _ _ ?m2)")
      proof (rule recovered)
        show "quiet m1 (recover_with ''reference_chain_gap'' now ?m2)"
          by (intro quiet_trans [OF _ quiet_recover_with] quiet_trans [OF _ quiet_drop] quiet_trans [OF _ quiet_bump] quiet_refl)
        show "mg_drop_delta (recover_with ''reference_chain_gap'' now ?m2)"
          using quiet_recover_with [of ?m2] by (simp add: quiet_def)
      qed
      with d None False show ?thesis by (simp add: handle_video_def coalesce_video_packet_def)
    next
      case True
      with m1 have alone: "ps = []" "rest = []" "mg_video_rx m1 = []" by (auto simp: max_video_coalesce_drain_def)
      define m2 where "m2 = bump mt_video_in_update 1 m1"
      have q2: "quiet m1 m2" unfolding m2_def by (rule quiet_bump)
      have eq: "handle_video h arriving r now (m\<lparr>mg_video_rx := rest\<rparr>) =
          (if mg_drop_delta m2 then recover_with ''recovery_wait_keyframe'' now (bump mt_dropped_for_recovery_update 1 m2)
           else send_video h r now m2)"
        using d None True h by (simp add: handle_video_def coalesce_video_packet_def note_backlog_def Let_def m2_def)
      show ?thesis
      proof (cases "mg_drop_delta m")
        case True
        then have "mg_drop_delta m2" unfolding m2_def using m1(8) by (simp add: bump_simps)
        moreover have "quiet m1 (recover_with ''recovery_wait_keyframe'' now (bump mt_dropped_for_recovery_update 1 m2))"
          by (rule quiet_trans [OF quiet_trans [OF q2 quiet_bump] quiet_recover_with])
        ultimately show ?thesis
          using recovered quiet_recover_with [of "bump mt_dropped_for_recovery_update 1 m2" "''recovery_wait_keyframe''" now]
          by (simp add: eq quiet_def bump_simps)
      next
        case False
        then have nd: "\<not> mg_drop_delta m2" unfolding m2_def using m1(8) by (simp add: bump_simps)
        have same: "encoded m2 = encoded m" "handed m2 = handed m" "mg_video_rx m2 = []"
          unfolding m2_def using m1 alone by (simp_all add: bump_simps)
        note c = chain [unfolded in_chain_def]
        have one1: "length (mg_video_rx m) \<noteq> video_queue_capacity" using rx alone by (simp add: video_queue_capacity_def)
        have suf: "suffix [h] (encoded m)" using c one1 rx alone by simp
        have fol: "follows (encoded m) (last (handed m)) (h, r)" if "handed m \<noteq> []"
          using c False that one1 rx alone by (auto simp: follows_def suffix_def)
        have "in_chain (send_video h r now m2)"
          by (rule in_chain_send) (use c keeps(3) [of h] same suf fol alone m1 in auto)
        with nd show ?thesis by (simp add: eq)
      qed
    qed
  qed
qed

definition calm :: "host_event \<Rightarrow> bool" where
  "calm e \<longleftrightarrow> (case e of Ev_video arriving _ _ \<Rightarrow> one_by_one arriving | _ \<Rightarrow> True)"

lemma in_chain_step:
  assumes "in_chain m" "calm e"
  shows "in_chain (host_step e m)"
proof (cases e)
  case (Ev_video arriving r now)
  with assms show ?thesis by (auto simp: calm_def in_chain_video split: list.split)
next
  case (Ev_send_audio ok)
  have "quiet m (host_step e m)" 
  proof (cases "mg_audio_rx m")
    case (Cons p rest)
    have "quiet m (m\<lparr>mg_audio_rx := rest\<rparr>)" by (simp add: quiet_def encoded_def handed_def)
    from quiet_trans [OF this quiet_other(4)] Cons show ?thesis by (simp add: Ev_send_audio)
  qed (simp add: Ev_send_audio)
  from in_chain_quiet [OF this assms(1)] show ?thesis .
qed (use assms(1) in \<open>simp_all add: in_chain_encoded in_chain_quiet [OF quiet_drain] in_chain_quiet [OF quiet_manager_tick]
    in_chain_quiet [OF quiet_other(1)] in_chain_quiet [OF quiet_other(2)] in_chain_quiet [OF quiet_other(3)]\<close>)

lemma in_chain_start: "in_chain (run_start wh (manager_new env host config ui pace t0))"
proof (rule in_chain_quiet [OF quiet_other(5)])
  show "in_chain (manager_new env host config ui pace t0)"
    by (simp add: in_chain_def manager_new_def encoded_def handed_def)
qed

interpretation calm_host: machine "\<lambda>m e. if calm e then host_step e m else m" in_chain
  by unfold_locales (simp add: in_chain_step)

lemma in_chain_run: "\<forall>e \<in> set es. calm e \<Longrightarrow> in_chain m \<Longrightarrow> in_chain (host_run es m)"
proof -
  assume "\<forall>e \<in> set es. calm e" "in_chain m"
  moreover from this(1) have "host_run es m = foldl (\<lambda>m e. if calm e then host_step e m else m) m es"
    by (induction es arbitrary: m) auto
  ultimately show "in_chain (host_run es m)" using calm_host.run_inv by simp
qed


lemma run_start_video:
  "handed (run_start wh (manager_new env host config ui pace t0)) = []"
  "encoded (run_start wh (manager_new env host config ui pace t0)) = []"
  "mg_video_rx (run_start wh (manager_new env host config ui pace t0)) = []"
  "\<not> mg_drop_delta (run_start wh (manager_new env host config ui pace t0))"
  by (simp_all add: run_start_def start_quality_def refresh_pacing_target_def apply_bitrate_kbps_def emit_def
      manager_new_def encoded_def handed_def Let_def split: prod.splits)

abbreviation frame :: "bool \<Rightarrow> nat \<Rightarrow> video_packet" where
  "frame key t \<equiv> \<lparr>vp_data = [], vp_keyframe = key, vp_timestamp = t\<rparr>"



text \<open>
  The exception is real. Frame 2 waits in the queue when the keyframe 3 and the delta frame 4 arrive:
  the drain hands the keyframe and drops frame 4, and frame 5, encoded after frame 4, is handed
  next, with no recovery and no keyframe request.
\<close>

lemma keyframe_from_backlog_skips_a_frame:
  "let m = host_run [Ev_encoded (frame False 2), Ev_encoded (frame True 3), Ev_encoded (frame False 4), Ev_video [] Sent 5,
        Ev_encoded (frame False 5), Ev_video [] Sent 6] (run_start (0, 0) (manager_new None False config False pace_new 0))
   in handed m = [(frame True 3, Sent), (frame False 5, Sent)] \<and>
      encoded m = [frame False 2, frame True 3, frame False 4, frame False 5] \<and> \<not> mg_drop_delta m \<and>
      mg_last_queue_kf m = 0 \<and> mg_last_viewer_kf m = 0"
proof -
  note look = drain_video.simps(2) [of 31, simplified] drain_video.simps(2) [of 30, simplified]
    drain_video.simps(2) [of 29, simplified] max_video_coalesce_drain_def
  have rec: "encoded (m\<lparr>mg_deferred_at := None, mg_drop_delta := False\<rparr>) = encoded m"
    "handed (m\<lparr>mg_deferred_at := None, mg_drop_delta := False\<rparr>) = handed m" for m
    by (simp_all add: encoded_def handed_def)
  have start: "mg_last_queue_kf (run_start wh (manager_new env host config ui pace 0)) = 0"
    "mg_last_viewer_kf (run_start wh (manager_new env host config ui pace 0)) = 0" for wh env host ui pace
    by (simp_all add: run_start_def start_quality_def refresh_pacing_target_def apply_bitrate_kbps_def emit_def
        manager_new_def Let_def split: prod.splits)
  have kf: "mg_last_queue_kf (emit a m) = mg_last_queue_kf m" "mg_last_viewer_kf (emit a m) = mg_last_viewer_kf m"
    "mg_last_queue_kf (bump u k m) = mg_last_queue_kf m" "mg_last_viewer_kf (bump u k m) = mg_last_viewer_kf m"
    "mg_last_queue_kf (on_video_packet p m) = mg_last_queue_kf m"
    "mg_last_viewer_kf (on_video_packet p m) = mg_last_viewer_kf m" for a u k m p
    by (simp_all add: emit_def bump_def on_video_packet_def)
  show ?thesis
    by (simp add: handle_video_def coalesce_video_packet_def look Let_def send_video_def note_backlog_def quiet_simps
        video_queue_capacity_def run_start_video rec start kf)
qed

text \<open>The branch of \<open>handle_video\<close> for queue pressure is never taken: a backlog is sent as a keyframe or is a gap.\<close>

lemma drain_video_keyframe:
  "drain_video room arriving newest n0 m = (Some k, n, m') \<Longrightarrow> \<forall>x. newest = Some x \<longrightarrow> vp_keyframe x \<Longrightarrow> vp_keyframe k"
proof (induction room arbitrary: arriving newest n0 m)
  case (Suc room)
  then show ?case by (simp add: Let_def split: list.splits if_splits)
qed simp

lemma backlog_sends_keyframes:
  "coalesce_video_packet packet room arriving m = (Coalesce_send p n, m') \<Longrightarrow> 0 < n \<Longrightarrow> vp_keyframe p"
  by (auto simp: coalesce_video_packet_def split: prod.splits option.splits if_splits dest: drain_video_keyframe)

end
