(* ===== verification/Stream_Host_Props.thy ===== *)
theory Stream_Host_Props
  imports Stream_Host_Frame
begin

text \<open>
  The keyframe requests, the bitrate and what the viewers see, over every run of the stream manager.
\<close>

section \<open>Keyframe requests\<close>

fun request_of :: "host_out \<Rightarrow> (string \<times> instant) list" where
  "request_of (Request_keyframe r t) = [(r, t)]"
| "request_of _ = []"

definition viewer_reasons :: "string list" where
  "viewer_reasons = [''native_pli'', ''native_local_idr'', ''deferred_viewer_request'', ''pause_resume'']"

definition viewer_requests :: "stream_manager \<Rightarrow> instant list" where
  "viewer_requests m = map snd (filter (\<lambda>(r, _). r \<in> set viewer_reasons) (concat (map request_of (core m))))"

definition queue_requests :: "stream_manager \<Rightarrow> instant list" where
  "queue_requests m = map snd (filter (\<lambda>(r, _). r \<notin> set viewer_reasons) (concat (map request_of (core m))))"

definition spaced :: "duration \<Rightarrow> instant list \<Rightarrow> instant \<Rightarrow> bool" where
  "spaced d ts final \<longleftrightarrow> successively (\<lambda>a b. a + d \<le> b) ts \<and> (ts \<noteq> [] \<longrightarrow> last ts = final)"

definition asked :: "stream_manager \<Rightarrow> bool" where
  "asked m \<longleftrightarrow> spaced viewer_keyframe_request_cooldown (viewer_requests m) (mg_last_viewer_kf m) \<and>
     spaced queue_keyframe_request_cooldown (queue_requests m) (mg_last_queue_kf m) \<and>
     (\<forall>due. mg_deferred_at m = Some due \<longrightarrow> due \<le> mg_last_viewer_kf m + viewer_keyframe_request_cooldown)"

lemma asked_still: "still m m' \<Longrightarrow> asked m \<Longrightarrow> asked m'"
  by (simp add: still_def asked_def viewer_requests_def queue_requests_def)

lemma requests_simps:
  "viewer_requests (m\<lparr>mg_last_viewer_kf := a\<rparr>) = viewer_requests m" "queue_requests (m\<lparr>mg_last_viewer_kf := a\<rparr>) = queue_requests m"
  "viewer_requests (m\<lparr>mg_last_queue_kf := a\<rparr>) = viewer_requests m" "queue_requests (m\<lparr>mg_last_queue_kf := a\<rparr>) = queue_requests m"
  "viewer_requests (m\<lparr>mg_deferred_at := b\<rparr>) = viewer_requests m" "queue_requests (m\<lparr>mg_deferred_at := b\<rparr>) = queue_requests m"
  "viewer_requests (m\<lparr>mg_drop_delta := c\<rparr>) = viewer_requests m" "queue_requests (m\<lparr>mg_drop_delta := c\<rparr>) = queue_requests m"
  "viewer_requests (m\<lparr>mg_video_rx := d\<rparr>) = viewer_requests m" "queue_requests (m\<lparr>mg_video_rx := d\<rparr>) = queue_requests m"
  "viewer_requests (emit (Request_keyframe r t) m) =
     viewer_requests m @ (if r \<in> set viewer_reasons then [t] else [])"
  "queue_requests (emit (Request_keyframe r t) m) =
     queue_requests m @ (if r \<in> set viewer_reasons then [] else [t])"
  by (simp_all add: viewer_requests_def queue_requests_def core_def emit_def)

lemma spaced_snoc: "spaced d ts final \<Longrightarrow> d \<le> now - final \<Longrightarrow> 0 < d \<Longrightarrow> spaced d (ts @ [now]) now"
  by (auto simp: spaced_def successively_append_iff)

lemma asked_queue_request:
  assumes "asked m" "r \<notin> set viewer_reasons"
  shows "asked (snd (request_host_keyframe r now m))"
  using assms spaced_snoc [of queue_keyframe_request_cooldown "queue_requests m" "mg_last_queue_kf m" now]
  by (auto simp: request_host_keyframe_def fire_host_keyframe_def asked_def requests_simps not_less
      queue_keyframe_request_cooldown_def secs_def)

lemma asked_viewer_request:
  assumes "asked m" "r \<in> set viewer_reasons"
  shows "asked (snd (request_host_keyframe_with_cooldown r viewer_keyframe_request_cooldown now m))"
  using assms spaced_snoc [of viewer_keyframe_request_cooldown "viewer_requests m" "mg_last_viewer_kf m" now]
  by (auto simp: request_host_keyframe_with_cooldown_def fire_host_keyframe_def asked_def requests_simps not_less
      viewer_keyframe_request_cooldown_def millis_def)

lemma asked_recover_with: "asked m \<Longrightarrow> r \<notin> set viewer_reasons \<Longrightarrow> asked (recover_with r now m)"
  using asked_queue_request [of m r now] asked_still [OF still_bump]
  by (auto simp: recover_with_def split: prod.split)

lemma asked_fields:
  "asked m \<Longrightarrow> asked (m\<lparr>mg_drop_delta := c\<rparr>)" "asked m \<Longrightarrow> asked (m\<lparr>mg_deferred_at := None\<rparr>)"
  "asked m \<Longrightarrow> asked (m\<lparr>mg_video_rx := d\<rparr>)" "asked m \<Longrightarrow> asked (m\<lparr>mg_pause := e\<rparr>)"
  "asked m \<Longrightarrow> asked (m\<lparr>mg_deferred_at := None, mg_drop_delta := c\<rparr>)" "asked m \<Longrightarrow> asked (m\<lparr>mg_audio_rx := h\<rparr>)"
  by (simp_all add: asked_def requests_simps viewer_requests_def queue_requests_def core_def)

lemma asked_fire_deferred: "asked m \<Longrightarrow> asked (fire_deferred_keyframe now m)"
  using asked_viewer_request [of m "''deferred_viewer_request''" now]
  by (auto simp: fire_deferred_keyframe_def viewer_reasons_def asked_fields split: option.split prod.split)

lemma asked_keyframe_feedback:
  assumes "asked m" "r \<in> set viewer_reasons"
  shows "asked (keyframe_feedback r now m)"
proof -
  define m1 where "m1 = (bump mt_kf_feedback_update 1 m)\<lparr>mg_drop_delta := True\<rparr>"
  have "asked m1" unfolding m1_def by (rule asked_fields(1)) (rule asked_still [OF still_bump assms(1)])
  with asked_viewer_request [OF _ assms(2)] have
    "asked (snd (request_host_keyframe_with_cooldown r viewer_keyframe_request_cooldown now m1))" .
  then show ?thesis
    unfolding keyframe_feedback_def Let_def m1_def [symmetric]
    by (auto simp: asked_def requests_simps split: prod.split)
qed


lemma requests_encoded:
  "viewer_requests (emit (Encoded_out p) m) = viewer_requests m" "queue_requests (emit (Encoded_out p) m) = queue_requests m"
  "viewer_requests (emit (Video_out p r) m) = viewer_requests m" "queue_requests (emit (Video_out p r) m) = queue_requests m"
  by (simp_all add: viewer_requests_def queue_requests_def core_def)

lemma asked_encoded: "asked m \<Longrightarrow> asked (on_video_packet p m)"
  by (auto simp: on_video_packet_def asked_def requests_encoded requests_simps)

lemma asked_fold: "(\<And>x m. asked m \<Longrightarrow> asked (f x m)) \<Longrightarrow> asked m \<Longrightarrow> asked (fold f xs m)"
  by (induction xs arbitrary: m) auto

lemma asked_drain_video: "drain_video room arriving newest n m = (k, n', m') \<Longrightarrow> asked m \<Longrightarrow> asked m'"
proof (induction room arbitrary: arriving newest n m)
  case (Suc room)
  define m1 where "m1 = fold on_video_packet (case arriving of [] \<Rightarrow> [] | ps # _ \<Rightarrow> ps) m"
  have "asked m1" unfolding m1_def by (rule asked_fold) (simp_all add: asked_encoded Suc.prems(2))
  then show ?case
    using Suc.prems(1) Suc.IH [OF _ asked_fields(3)]
    by (auto simp: foldl_conv_fold m1_def [symmetric] Let_def split: list.splits)
qed simp

lemma asked_bump: "asked m \<Longrightarrow> asked (bump u k m)"
  by (rule asked_still [OF still_bump])

lemma asked_note_backlog: "asked m \<Longrightarrow> asked (note_backlog p n now m)"
  using asked_queue_request [of "bump mt_coalesce_events_update 1 (bump mt_coalesced_update n m)" "''queue_pressure''" now]
  by (auto simp: note_backlog_def viewer_reasons_def asked_bump asked_fields Let_def split: prod.split)

lemma asked_send_video: "asked m \<Longrightarrow> asked (send_video p r now m)"
proof -
  assume "asked m"
  then have "asked (emit (Video_out p r) m)" by (simp add: asked_def requests_encoded)
  then show ?thesis
    by (cases r) (simp_all add: send_video_def Let_def asked_bump asked_fields asked_recover_with viewer_reasons_def)
qed

lemma asked_handle_video: "asked m \<Longrightarrow> asked (handle_video p arriving r now m)"
proof -
  assume m: "asked m"
  obtain o' m1 where c: "coalesce_video_packet p max_video_coalesce_drain arriving m = (o', m1)" by fastforce
  then have "asked m1" using asked_drain_video [OF _ m] by (auto simp: coalesce_video_packet_def split: prod.splits)
  then show ?thesis
    by (cases o') (simp_all add: handle_video_def c Let_def asked_bump asked_fields asked_recover_with asked_note_backlog
        asked_send_video viewer_reasons_def)
qed

lemma asked_tick_stream_pause: "asked m \<Longrightarrow> asked (tick_stream_pause now m)"
proof -
  have out: "asked m \<Longrightarrow> asked (emit a m)" if "\<not> core_out a" for a m by (rule asked_still [OF still_emit [OF that]])
  have pause: "asked m \<Longrightarrow> asked (send_pause_state_with_reason b r m)" for b r m
    by (simp add: send_pause_state_with_reason_def out)
  have exit: "asked m \<Longrightarrow> asked (m\<lparr>mg_exit_reported := b\<rparr>)" for b m
    by (simp add: asked_def viewer_requests_def queue_requests_def core_def)
  assume "asked m"
  then show ?thesis
    by (auto simp: tick_stream_pause_def observe_target_exit_def Let_def out pause exit asked_fields asked_viewer_request
        viewer_reasons_def split: option.split prod.split)
qed

lemma asked_feedback: "asked m \<Longrightarrow> asked (handle_video_feedback f now m)"
proof -
  have fields: "still m (m\<lparr>mg_remb := r\<rparr>)" "still m (m\<lparr>mg_quality := q\<rparr>)" for r q m by (simp_all add: still_def core_def)
  obtain v k where f: "f = (v, k)" by fastforce
  assume m: "asked m"
  show ?thesis
  proof (cases k)
    case (Remb b)
    from asked_still [OF still_trans [OF fields(1) still_apply_remb_aggregate] m] m show ?thesis by (simp add: f Remb)
  next
    case (Gcc b)
    from asked_still [OF still_trans [OF fields(2) still_trans [OF still_apply_quality_bitrate still_update_upload_budget]] m]
    show ?thesis by (simp add: f Gcc)
  qed (simp_all add: f asked_keyframe_feedback m viewer_reasons_def)
qed

lemma asked_drain: "asked m \<Longrightarrow> asked (drain_sink_events joined left feedback now m)"
proof -
  assume "asked m"
  then have "asked (fold handle_viewer_joined joined m)"
    by (rule asked_still [OF still_fold, rotated]) (rule still_viewer_joined)
  then have "asked (fold (\<lambda>v. handle_viewer_left v now) left (fold handle_viewer_joined joined m))"
    by (rule asked_still [OF still_fold, rotated]) (rule still_viewer_left)
  then have "asked (fold (\<lambda>f. handle_video_feedback f now) feedback
      (fold (\<lambda>v. handle_viewer_left v now) left (fold handle_viewer_joined joined m)))"
    by (rule asked_fold [rotated]) (rule asked_feedback)
  from asked_fire_deferred [OF this] show ?thesis
    unfolding drain_sink_events_def Let_def
    by (auto intro: asked_still [OF still_apply_remb_aggregate] asked_still [OF still_apply_quality_bitrate])
qed

lemma asked_step: "asked m \<Longrightarrow> asked (host_step e m)"
proof (cases e)
  case (Ev_manager s wh s' now)
  assume "asked m"
  then have "asked (check_capture_state s' (tick_quality s wh now m))"
    by (rule asked_still [OF still_trans [OF still_tick_quality still_check_capture_state]])
  then show ?thesis unfolding Ev_manager
    by (simp add: manager_tick_def asked_still [OF still_tick_host_idle] asked_tick_stream_pause)
qed (auto simp: asked_encoded asked_still [OF still_other(1)] asked_still [OF still_other(2)] asked_still [OF still_other(3)]
    asked_still [OF still_other(4)] asked_handle_video asked_fields asked_drain split: list.split)

interpretation asking_host: machine "\<lambda>m e. host_step e m" asked
  by unfold_locales (rule asked_step)

lemma asked_start: "asked (run_start wh (manager_new env host config ui pace t0))"
  by (rule asked_still [OF still_other(5)])
    (simp add: asked_def manager_new_def viewer_requests_def queue_requests_def core_def spaced_def)

lemma asked_run: "asked (host_run es (run_start wh (manager_new env host config ui pace t0)))"
  using asking_host.run_inv [OF asked_start, where es = es] by (simp add: foldl_conv_fold)

lemma keyframe_feedback_asks:
  assumes "asked m" "r \<in> set viewer_reasons"
  shows "mg_drop_delta (keyframe_feedback r now m)"
    "viewer_requests (keyframe_feedback r now m) = viewer_requests m @ [now] \<or>
     (\<exists>due. mg_deferred_at (keyframe_feedback r now m) = Some due \<and>
        due \<le> mg_last_viewer_kf (keyframe_feedback r now m) + viewer_keyframe_request_cooldown)"
proof -
  define m1 where "m1 = (bump mt_kf_feedback_update 1 m)\<lparr>mg_drop_delta := True\<rparr>"
  have v: "viewer_requests m1 = viewer_requests m" by (simp add: m1_def viewer_requests_def core_def)
  have l: "mg_drop_delta m1" "mg_deferred_at m1 = mg_deferred_at m" "mg_last_viewer_kf m1 = mg_last_viewer_kf m"
    by (simp_all add: m1_def)
  show "mg_drop_delta (keyframe_feedback r now m)"
    unfolding keyframe_feedback_def Let_def m1_def [symmetric]
    by (simp add: request_host_keyframe_with_cooldown_def fire_host_keyframe_def l)
  show "viewer_requests (keyframe_feedback r now m) = viewer_requests m @ [now] \<or>
     (\<exists>due. mg_deferred_at (keyframe_feedback r now m) = Some due \<and>
        due \<le> mg_last_viewer_kf (keyframe_feedback r now m) + viewer_keyframe_request_cooldown)"
    unfolding keyframe_feedback_def Let_def m1_def [symmetric]
    using assms by (auto simp: request_host_keyframe_with_cooldown_def fire_host_keyframe_def l requests_simps v asked_def)
qed




section \<open>The encoder runs at the controller's bitrate\<close>

fun encoder_rate :: "nat \<Rightarrow> host_out list \<Rightarrow> nat" where
  "encoder_rate r [] = r"
| "encoder_rate r (a # outs) = encoder_rate (case a of Set_bitrate k \<Rightarrow> k | _ \<Rightarrow> r) outs"

fun pacer_rate :: "nat \<Rightarrow> host_out list \<Rightarrow> nat" where
  "pacer_rate r [] = r"
| "pacer_rate r (a # outs) = pacer_rate (case a of Pacing_kbps k \<Rightarrow> k | _ \<Rightarrow> r) outs"

lemma rate_append [simp]:
  "encoder_rate r (outs @ outs') = encoder_rate (encoder_rate r outs) outs'"
  "pacer_rate r (outs @ outs') = pacer_rate (pacer_rate r outs) outs'"
  by (induction outs arbitrary: r) auto

text \<open>A level handler changes neither the bitrate nor what the encoder and the pacer were told.\<close>

definition level :: "stream_manager \<Rightarrow> stream_manager \<Rightarrow> bool" where
  "level m m' \<longleftrightarrow> mg_bitrate m' = mg_bitrate m \<and> mg_min m' = mg_min m \<and> mg_max m' = mg_max m \<and> mg_host m' = mg_host m \<and>
     encoder_rate (mg_max m) (mg_out m') = encoder_rate (mg_max m) (mg_out m) \<and> pacer_rate 0 (mg_out m') = pacer_rate 0 (mg_out m) \<and>
     (up_stream_bps (mg_pace m) \<le> max_bps \<longrightarrow> up_stream_bps (mg_pace m') \<le> max_bps) \<and>
     (qc_ok (mg_quality m) \<longrightarrow> qc_ok (mg_quality m')) \<and>
     qc_bitrate_kbps (mg_quality m') = qc_bitrate_kbps (mg_quality m) \<and>
     qc_preset_kbps (mg_quality m') = qc_preset_kbps (mg_quality m)"

lemma level_refl [simp, intro]: "level m m"
  by (simp add: level_def)

lemma level_trans [trans]: "level m m1 \<Longrightarrow> level m1 m2 \<Longrightarrow> level m m2"
  unfolding level_def by (elim conjE) (intro conjI; simp)

lemma level_fold: "(\<And>x m. level m (f x m)) \<Longrightarrow> level m (fold f xs m)"
  by (induction xs arbitrary: m) (auto intro: level_trans)

lemma level_bump: "level m (bump u k m)"
  by (simp add: level_def bump_def)

lemma level_update_upload_budget: "level m (update_upload_budget now m)"
proof -
  have "min (fst (budget_bps l now g)) k \<le> max_bps" for l g k using budget_le_max [of l now g] by simp
  then show ?thesis
    by (simp add: level_def update_upload_budget_def pace_hold_set_def set_stream_budget_def Let_def split_beta)
qed

lemma qc_level:
  "qc_ok q \<Longrightarrow> qc_ok (set_encoder_load l q)" "qc_bitrate_kbps (set_encoder_load l q) = qc_bitrate_kbps q"
  "qc_preset_kbps (set_encoder_load l q) = qc_preset_kbps q"
  "qc_bitrate_kbps (snd (set_top_size w h q)) = qc_bitrate_kbps q" "qc_preset_kbps (snd (set_top_size w h q)) = qc_preset_kbps q"
  "qc_bitrate_kbps (snd (tick_rung now q)) = qc_bitrate_kbps q" "qc_preset_kbps (snd (tick_rung now q)) = qc_preset_kbps q"
  "qc_ok q \<Longrightarrow> qc_ok (set_gcc_target_bps b q)" "qc_bitrate_kbps (set_gcc_target_bps b q) = qc_bitrate_kbps q"
  "qc_preset_kbps (set_gcc_target_bps b q) = qc_preset_kbps q"
  "qc_ok q \<Longrightarrow> qc_ok (set_remb_ceiling_kbps c q)" "qc_bitrate_kbps (set_remb_ceiling_kbps c q) = qc_bitrate_kbps q"
  "qc_preset_kbps (set_remb_ceiling_kbps c q) = qc_preset_kbps q"
  by (simp_all add: set_encoder_load_def set_gcc_target_bps_def set_remb_ceiling_kbps_def qc_ok_def set_top_size_def
      tick_rung_def switch_to_def Let_def)

lemma level_take_load: "level m (take_load s m)"
  by (simp add: level_def take_load_def qc_level)

lemma level_apply_rung: "level m (apply_rung r wh m)" "level m (apply_rung_geometry r m)"
  by (simp_all add: level_def apply_rung_def apply_rung_geometry_def Let_def)

lemma level_follow_source: "level m (follow_source s m)"
proof -
  obtain w h where e: "encode_size_for (ns_source_width s) (ns_source_height s) (mg_config_height m) (mg_config_fps m) = (w, h)"
    by fastforce
  obtain ch q where t: "set_top_size w h (mg_quality m) = (ch, q)" by fastforce
  have "qc_ok (mg_quality m) \<Longrightarrow> qc_ok q" "qc_bitrate_kbps q = qc_bitrate_kbps (mg_quality m)"
      "qc_preset_kbps q = qc_preset_kbps (mg_quality m)"
    using qc_ok_set_top_size [of "mg_quality m" w h] qc_level(4,5) [of w h "mg_quality m"] by (simp_all add: t)
  then show ?thesis
    by (cases ch) (simp_all add: level_def follow_source_def e t Let_def apply_rung_geometry_def)
qed

lemma level_take_rung: "level m (take_rung wh now m)"
proof -
  obtain u q where t: "tick_rung now (mg_quality m) = (u, q)" by fastforce
  let ?m1 = "m\<lparr>mg_quality := q\<rparr>"
  let ?m2 = "case up_rung u of None \<Rightarrow> ?m1 | Some r \<Rightarrow> apply_rung r wh ?m1"
  have "level m ?m1"
    using qc_ok_tick [of "mg_quality m" now] qc_level(6,7) [of now "mg_quality m"] by (simp add: level_def t)
  also have "level ?m1 ?m2" by (simp add: level_apply_rung split: option.split)
  also have "level ?m2 (case up_allocation_kbps u of None \<Rightarrow> ?m2 | Some k \<Rightarrow> emit (Max_allocated k) ?m2)"
    by (auto simp: level_def split: option.split)
  finally show ?thesis unfolding take_rung_def t Let_def prod.case .
qed

lemma level_tick_quality: "level m (tick_quality s wh now m)"
proof -
  have "level m (if mg_host m then follow_source s (take_load s m) else m)"
    by (simp add: level_trans [OF level_take_load level_follow_source])
  then show ?thesis
    unfolding tick_quality_def by (rule level_trans [OF level_trans [OF _ level_take_rung] level_update_upload_budget])
qed

lemma level_request: "level m (snd (request_host_keyframe r now m))"
  "level m (snd (request_host_keyframe_with_cooldown r c now m))"
  by (simp_all add: level_def request_host_keyframe_def request_host_keyframe_with_cooldown_def fire_host_keyframe_def)

lemma level_recover_with: "level m (recover_with r now m)"
  using level_request(1) [of m r now] level_trans [OF _ level_bump]
  by (auto simp: recover_with_def split: prod.split)

lemma level_manager_tick: "level m (manager_tick s wh s' now m)"
proof -
  have check: "level m (check_capture_state s m)" for s m
    by (simp add: level_def check_capture_state_def Let_def)
  have pause: "level m (tick_stream_pause now m)" for m
    by (auto simp: level_def tick_stream_pause_def observe_target_exit_def send_pause_state_with_reason_def
        request_host_keyframe_with_cooldown_def fire_host_keyframe_def Let_def split: option.splits prod.splits)
  have idle: "level m (tick_host_idle m)" for m
    by (auto simp: level_def tick_host_idle_def observe_idle_def Let_def split: option.splits prod.splits if_splits)
  show ?thesis
    unfolding manager_tick_def
    by (rule level_trans [OF level_trans [OF level_trans [OF level_tick_quality check] pause] idle])
qed


lemma level_other:
  "level m (report_stream_stats m)" "level m (poll_cursor packet m)" "level m (on_audio_packet a m)"
  "level m (handle_audio a ok m)" "level m (on_video_packet p m)" "level m (handle_viewer_joined v m)"
  "level m (fire_deferred_keyframe now m)" "level m (keyframe_feedback r now m)"
         apply (simp add: level_def report_stream_stats_def send_pause_state_def send_pause_state_with_reason_def)
        apply (simp add: level_def poll_cursor_def Let_def)
       apply (simp add: level_def on_audio_packet_def)
      apply (simp add: level_def handle_audio_def Let_def)
     apply (simp add: level_def on_video_packet_def)
    apply (auto simp: level_def handle_viewer_joined_def send_pause_state_def send_pause_state_with_reason_def Let_def
      split: option.split)[1]
   apply (auto simp: level_def fire_deferred_keyframe_def request_host_keyframe_with_cooldown_def fire_host_keyframe_def
      split: option.split)[1]
  apply (auto simp: level_def keyframe_feedback_def request_host_keyframe_with_cooldown_def fire_host_keyframe_def Let_def)
  done

lemma level_fields:
  "level m (m\<lparr>mg_video_rx := a\<rparr>)" "level m (m\<lparr>mg_drop_delta := b\<rparr>)" "level m (m\<lparr>mg_audio_rx := c\<rparr>)"
  "level m (m\<lparr>mg_deferred_at := d, mg_drop_delta := b\<rparr>)" "level m (emit (Video_out p r) m)"
  by (simp_all add: level_def)

lemma level_drain_video: "drain_video room arriving newest n m = (k, n', m') \<Longrightarrow> level m m'"
proof (induction room arbitrary: arriving newest n m)
  case (Suc room)
  define m1 where "m1 = fold on_video_packet (case arriving of [] \<Rightarrow> [] | ps # _ \<Rightarrow> ps) m"
  have "level m m1" unfolding m1_def by (rule level_fold) (rule level_other)
  show ?case
  proof (cases "mg_video_rx m1")
    case Nil
    with Suc.prems \<open>level m m1\<close> show ?thesis by (simp add: foldl_conv_fold m1_def [symmetric] Let_def)
  next
    case (Cons p rest)
    with Suc.prems have "drain_video room (drop 1 arriving) (if vp_keyframe p then Some p else newest) (n + 1)
        (m1\<lparr>mg_video_rx := rest\<rparr>) = (k, n', m')"
      by (simp add: foldl_conv_fold m1_def [symmetric] Let_def)
    from level_trans [OF level_trans [OF \<open>level m m1\<close> level_fields(1)] Suc.IH [OF this]] show ?thesis .
  qed
qed simp

lemma level_note_backlog: "level m (note_backlog p n now m)"
  by (simp add: level_def note_backlog_def request_host_keyframe_def fire_host_keyframe_def Let_def)

lemma level_send_video: "level m (send_video p r now m)"
  by (cases r) (simp_all add: send_video_def Let_def level_trans [OF level_fields(5) level_recover_with]
      level_trans [OF level_trans [OF level_trans [OF level_fields(5) level_bump] level_fields(2)] level_recover_with]
      level_trans [OF level_fields(5) level_bump] level_fields(5))

lemma level_handle_video: "level m (handle_video p arriving r now m)"
proof -
  obtain o' m1 where c: "coalesce_video_packet p max_video_coalesce_drain arriving m = (o', m1)" by fastforce
  then have m1: "level m m1" using level_drain_video by (auto simp: coalesce_video_packet_def split: prod.splits)
  show ?thesis
  proof (cases o')
    case (Coalesce_send q n)
    let ?m2 = "note_backlog q n now (bump mt_video_in_update (1 + n) m1)"
    have m2: "level m ?m2" by (rule level_trans [OF level_trans [OF m1 level_bump] level_note_backlog])
    then show ?thesis
      by (simp add: handle_video_def c Coalesce_send Let_def level_trans [OF level_trans [OF m2 level_fields(4)] level_send_video]
          level_trans [OF level_trans [OF m2 level_bump] level_recover_with] level_trans [OF m2 level_send_video]
          del: One_nat_def plus_1_eq_Suc)
  next
    case (Chain_gap n)
    have "level m1 (recover_with ''reference_chain_gap'' now
          ((bump mt_chain_gap_update 1 (bump mt_coalesce_events_update 1 (bump mt_coalesced_update n
            (bump mt_video_in_update (1 + n) m1))))\<lparr>mg_drop_delta := True\<rparr>))"
      by (intro level_trans [OF _ level_recover_with] level_trans [OF _ level_fields(2)] level_trans [OF _ level_bump] level_refl)
    from level_trans [OF m1 this] show ?thesis by (simp add: handle_video_def c Chain_gap)
  qed
qed

text \<open>The invariant: \<open>k\<close> is the bitrate of the preset.\<close>

definition rated :: "nat \<Rightarrow> stream_manager \<Rightarrow> bool" where
  "rated k m \<longleftrightarrow> qc_ok (mg_quality m) \<and> qc_preset_kbps (mg_quality m) = max k floor_kbps \<and> mg_min m = floor_kbps \<and> mg_max m = k \<and>
     mg_bitrate m = clamp_bitrate_kbps (qc_bitrate_kbps (mg_quality m)) m \<and>
     (mg_host m \<longrightarrow> encoder_rate k (mg_out m) = mg_bitrate m) \<and>
     pacer_rate 0 (mg_out m) = pacing_target_kbps (mg_bitrate m) \<and> up_stream_bps (mg_pace m) \<le> max_bps"

lemma clamp_fields:
  "clamp_bitrate_kbps b (m\<lparr>mg_quality := q\<rparr>) = clamp_bitrate_kbps b m" "clamp_bitrate_kbps b (emit a m) = clamp_bitrate_kbps b m"
  "clamp_bitrate_kbps b (m\<lparr>mg_bitrate := c\<rparr>) = clamp_bitrate_kbps b m"
  by (simp_all add: clamp_bitrate_kbps_def)

lemma rated_level: "level m m' \<Longrightarrow> rated k m \<Longrightarrow> rated k m'"
  by (auto simp: level_def rated_def clamp_bitrate_kbps_def)

lemma rated_apply_quality_bitrate: "rated k m \<Longrightarrow> rated k (apply_quality_bitrate now m)"
proof -
  assume m: "rated k m"
  obtain out q where u: "update_bitrate now (mg_quality m) = (out, q)" by fastforce
  then have q: "qc_ok q" "qc_preset_kbps q = qc_preset_kbps (mg_quality m)"
      "out = None \<Longrightarrow> q = mg_quality m" "\<And>b. out = Some b \<Longrightarrow> qc_bitrate_kbps q = b"
    using m qc_ok_update [of "mg_quality m" now] by (auto simp: rated_def update_bitrate_def Let_def split: if_splits)
  show ?thesis
  proof (cases out)
    case None
    with u q m show ?thesis by (simp add: apply_quality_bitrate_def)
  next
    case (Some b)
    let ?m1 = "m\<lparr>mg_quality := q\<rparr>"
    have b: "qc_bitrate_kbps q = b" by (rule q(4) [OF Some])
    show ?thesis
    proof (cases "clamp_bitrate_kbps b m = mg_bitrate m")
      case True
      then have "apply_quality_bitrate now m = ?m1"
        by (simp add: apply_quality_bitrate_def u Some apply_bitrate_kbps_def clamp_fields)
      with True m q b show ?thesis by (simp add: rated_def clamp_fields)
    next
      case False
      then have "apply_quality_bitrate now m =
          refresh_pacing_target ((if mg_host m then emit (Set_bitrate (clamp_bitrate_kbps b m)) ?m1 else ?m1)
            \<lparr>mg_bitrate := clamp_bitrate_kbps b m\<rparr>)"
        by (simp add: apply_quality_bitrate_def u Some apply_bitrate_kbps_def clamp_fields Let_def)
      with m q b show ?thesis by (simp add: rated_def clamp_fields refresh_pacing_target_def)
    qed
  qed
qed

lemma rated_apply_remb_aggregate: "rated k m \<Longrightarrow> rated k (apply_remb_aggregate now m)"
proof -
  have "level m (m\<lparr>mg_remb := r, mg_quality := set_remb_ceiling_kbps c (mg_quality m)\<rparr>)" for r c
    by (simp add: level_def qc_level)
  from rated_level [OF this] show "rated k m \<Longrightarrow> ?thesis"
    by (simp add: apply_remb_aggregate_def Let_def expire_stale_remb_def rated_apply_quality_bitrate)
qed

lemma rated_start: "rated (sc_bitrate_kbps config) (run_start wh (manager_new env host config ui pace t0))"
proof -
  let ?k = "sc_bitrate_kbps config"
  let ?m = "refresh_pacing_target (manager_new env host config ui pace t0)"
  define m1 where "m1 = (if mg_host ?m \<and> fst wh > 0 \<and> snd wh > 0
     then ?m\<lparr>mg_quality := snd (set_top_size (fst wh) (snd wh) (mg_quality ?m))\<rparr> else ?m)"
  have new: "qc_ok (mg_quality ?m)" "qc_preset_kbps (mg_quality ?m) = max ?k floor_kbps"
    by (simp_all add: refresh_pacing_target_def manager_new_def qc_ok_new) (simp add: qc_new_def Let_def)
  have q: "qc_ok (mg_quality m1)" "qc_preset_kbps (mg_quality m1) = max ?k floor_kbps"
    using new qc_ok_set_top_size [OF new(1)] by (simp_all add: m1_def qc_level)
  have f: "mg_min m1 = floor_kbps" "mg_max m1 = ?k" "mg_bitrate m1 = ?k" "mg_host m1 = host"
      "encoder_rate ?k (mg_out m1) = ?k" "pacer_rate 0 (mg_out m1) = pacing_target_kbps ?k" "up_stream_bps (mg_pace m1) = 0"
    by (simp_all add: m1_def refresh_pacing_target_def manager_new_def min_bitrate_kbps_def pace_hold_new_def
        set_stream_budget_def)
  let ?m2 = "emit (Max_allocated (allocation_kbps (mg_quality m1))) (emit (Bitrate_limits (with_overhead floor_kbps)
      (with_overhead (qc_bitrate_kbps (mg_quality m1))) (with_overhead (qc_preset_kbps (mg_quality m1)))) m1)"
  let ?c = "clamp_bitrate_kbps (qc_bitrate_kbps (mg_quality m1)) m1"
  have "run_start wh (manager_new env host config ui pace t0) =
      (if ?c = mg_bitrate m1 then ?m2
       else refresh_pacing_target ((if mg_host m1 then emit (Set_bitrate ?c) ?m2 else ?m2)\<lparr>mg_bitrate := ?c\<rparr>))"
    unfolding run_start_def start_quality_def m1_def [symmetric] Let_def sender_limits_kbps_def
    by (simp add: apply_bitrate_kbps_def clamp_fields Let_def)
  with q f show ?thesis by (simp add: rated_def clamp_fields refresh_pacing_target_def)
qed


lemma rated_fold: "(\<And>x m. rated k m \<Longrightarrow> rated k (f x m)) \<Longrightarrow> rated k m \<Longrightarrow> rated k (fold f xs m)"
  by (induction xs arbitrary: m) auto

lemma rated_viewer_left: "rated k m \<Longrightarrow> rated k (handle_viewer_left v now m)"
proof -
  have "level m ((emit (Sink_left v) (m\<lparr>mg_remb := r, mg_viewers := w\<rparr>))\<lparr>mg_remb := r'\<rparr>)"
    "level m (emit (Sink_left v) (m\<lparr>mg_remb := r, mg_viewers := w\<rparr>))" for r w r'
    by (simp_all add: level_def)
  from this [THEN rated_level] show "rated k m \<Longrightarrow> ?thesis"
    by (simp add: handle_viewer_left_def Let_def rated_apply_remb_aggregate)
qed

lemma rated_feedback: "rated k m \<Longrightarrow> rated k (handle_video_feedback f now m)"
proof -
  assume m: "rated k m"
  obtain v c where f: "f = (v, c)" by fastforce
  have remb: "level m (m\<lparr>mg_remb := r\<rparr>)" and gcc: "level m (m\<lparr>mg_quality := set_gcc_target_bps b (mg_quality m)\<rparr>)" for r b
    by (simp_all add: level_def qc_level)
  show ?thesis
  proof (cases c)
    case (Remb b)
    with rated_apply_remb_aggregate [OF rated_level [OF remb m]] m show ?thesis by (simp add: f)
  next
    case (Gcc b)
    with rated_level [OF level_update_upload_budget rated_apply_quality_bitrate [OF rated_level [OF gcc m]]]
    show ?thesis by (simp add: f)
  qed (simp_all add: f rated_level [OF level_other(8) m])
qed

lemma rated_drain: "rated k m \<Longrightarrow> rated k (drain_sink_events joined left feedback now m)"
proof -
  assume "rated k m"
  then have "rated k (fold handle_viewer_joined joined m)"
    by (rule rated_fold [rotated]) (rule rated_level [OF level_other(6)])
  then have "rated k (fold (\<lambda>v. handle_viewer_left v now) left (fold handle_viewer_joined joined m))"
    by (rule rated_fold [rotated]) (rule rated_viewer_left)
  then have "rated k (fold (\<lambda>f. handle_video_feedback f now) feedback
      (fold (\<lambda>v. handle_viewer_left v now) left (fold handle_viewer_joined joined m)))"
    by (rule rated_fold [rotated]) (rule rated_feedback)
  from rated_level [OF level_other(7) this] show ?thesis
    by (simp add: drain_sink_events_def Let_def rated_apply_remb_aggregate rated_apply_quality_bitrate)
qed

lemma rated_step: "rated k m \<Longrightarrow> rated k (host_step e m)"
  by (cases e) (simp_all add: rated_level [OF level_other(1)] rated_level [OF level_other(2)] rated_level [OF level_other(3)]
      rated_level [OF level_other(4)] rated_level [OF level_other(5)] rated_drain rated_level [OF level_manager_tick]
      rated_level [OF level_trans [OF level_fields(1) level_handle_video]]
      rated_level [OF level_trans [OF level_fields(3) level_other(4)]] split: list.split)

interpretation rated_host: machine "\<lambda>m e. host_step e m" "rated k" for k
  by unfold_locales (rule rated_step)

text \<open>C27: in every run of a host the encoder runs at the bitrate of the quality controller, held
  between 300 kb/s and the preset: that is the last rate it was told, or the preset it started at;
  the pacer was last told the pacing target of that rate; and as long as the stream lives the
  upload beside it has at most 1 Mb/s, whatever the pace was before.\<close>

theorem encoder_follows_controller:
  fixes env host config ui pace t0 wh es
  defines "m \<equiv> host_run es (run_start wh (manager_new env host config ui pace t0))"
    and "preset \<equiv> sc_bitrate_kbps config"
  assumes "300 \<le> preset"
  shows "mg_bitrate m = qc_bitrate_kbps (mg_quality m) \<and> 300 \<le> mg_bitrate m \<and> mg_bitrate m \<le> preset \<and>
    (mg_host m \<longrightarrow> encoder_rate preset (mg_out m) = mg_bitrate m) \<and>
    pacer_rate 0 (mg_out m) = pacing_target_kbps (mg_bitrate m) \<and>
    (\<exists>bps. rate_bps (mg_pace m) = Some bps \<and> bps \<le> 1000000)"
proof -
  have "rated preset m"
    using rated_host.run_inv [OF rated_start, where es = es] by (simp add: m_def preset_def foldl_conv_fold)
  then show ?thesis
    using assms(3) by (auto simp: rated_def qc_ok_def clamp_bitrate_kbps_def floor_kbps_def rate_bps_def no_stream_def
        u64_max_def max_bps_def)
qed

lemma encoder_follows_controller_witness:
  "mg_bitrate (run_start (0, 0) (manager_new None False (from_preset High H264) False pace_new 0)) =
   qc_bitrate_kbps (mg_quality (run_start (0, 0) (manager_new None False (from_preset High H264) False pace_new 0)))"
  using encoder_follows_controller [where env = None and host = False and config = "from_preset High H264" and ui = False
      and pace = pace_new and ?t0.0 = 0 and wh = "(0, 0)" and es = "[]"]
  by (simp add: from_preset_def Let_def)

end
