(* ===== verification/Stream_Host_View.thy ===== *)
theory Stream_Host_View
  imports Stream_Host_Frame
begin

text \<open>
  What the viewers of a stream see: the messages of the host's control channel (\<open>Stream_Host\<close>)
  through the callback of a viewer (\<open>Stream_Control\<close>), for a viewer that joins at any time.
\<close>

fun control_of :: "host_out \<Rightarrow> nat list list" where
  "control_of (Control d) = [d]"
| "control_of _ = []"

definition controls :: "host_out list \<Rightarrow> nat list list" where
  "controls outs = concat (map control_of outs)"

lemma controls_append [simp]: "controls [] = []" "controls (xs @ ys) = controls xs @ controls ys"
  "controls (a # xs) = control_of a @ controls xs"
  by (simp_all add: controls_def)

definition watch :: "viewer_view \<Rightarrow> nat list list \<Rightarrow> viewer_view" where
  "watch = foldl (\<lambda>v d. stream_control_data_callback True d v)"

lemma watch_simps [simp]:
  "watch v [] = v" "watch v (d # ds) = watch (stream_control_data_callback True d v) ds"
  "watch v (ds @ ds') = watch (watch v ds) ds'"
  by (simp_all add: watch_def)

definition view_new :: viewer_view where
  "view_new = \<lparr>vw_slot = pause_slot_new, vw_cursor = viewer_cursor_new, vw_format = \<lparr>vf_rung = None, vf_serial = 0\<rparr>\<rparr>"

definition wire_rung :: "rung \<Rightarrow> rung" where
  "wire_rung r = \<lparr>rung_width = min (rung_width r) u16_max, rung_height = min (rung_height r) u16_max, rung_fps = min (rung_fps r) u8_max\<rparr>"

section \<open>The callback on each message\<close>

lemma parse_rung_of_message: "parse_rung_message (rung_message r) = Some (wire_rung r)"
proof -
  have "n div 256 * 256 + n mod 256 = n" for n :: nat by simp
  then show ?thesis by (simp add: parse_rung_message_def rung_message_def be_bytes16_def wire_rung_def)
qed

lemma callback_pause:
  "stream_control_data_callback True (pause_message b) v = v\<lparr>vw_slot := (vw_slot v)\<lparr>ps_paused := u8_from b, ps_reason := 0\<rparr>\<rparr>"
  "stream_control_data_callback True (pause_message_with_reason b r) v =
     v\<lparr>vw_slot := (vw_slot v)\<lparr>ps_paused := u8_from b, ps_reason := reason_u8 r\<rparr>\<rparr>"
  by (cases r; simp add: stream_control_data_callback_def pause_message_def pause_message_with_reason_def parse_idle_message_def
      parse_pause_message_full_def pause_message_type_def pause_message_subtype_def idle_message_subtype_def u8_from_def)+

lemma callback_idle:
  "stream_control_data_callback True (idle_message b) v = v\<lparr>vw_slot := (vw_slot v)\<lparr>ps_host_idle := u8_from b\<rparr>\<rparr>"
  by (simp add: stream_control_data_callback_def idle_message_def parse_idle_message_def
      pause_message_type_def idle_message_subtype_def u8_from_def)

lemma callback_rung:
  "stream_control_data_callback True (rung_message r) v =
     v\<lparr>vw_format := (vw_format v)\<lparr>vf_rung := Some (wire_rung r), vf_serial := wrap_u u64_max (vf_serial (vw_format v) + 1)\<rparr>\<rparr>"
proof -
  have other: "parse_idle_message (rung_message r) = None" "parse_pause_message_full (rung_message r) = None"
      "parse_cursor_message (rung_message r) = None" "rung_message r \<noteq> []"
    by (simp_all add: rung_message_def be_bytes16_def parse_idle_message_def parse_pause_message_full_def
        parse_cursor_message_def cursor_header_def)
  then show ?thesis
    by (simp add: stream_control_data_callback_def apply_viewer_rung_message_def parse_rung_of_message)
qed

lemma callback_cursor:
  assumes "parse_cursor_message d = Some p"
  shows "stream_control_data_callback True d v = v\<lparr>vw_cursor := apply_cursor_packet p (vw_cursor v)\<rparr>"
proof -
  have "d \<noteq> []" using assms by (auto simp: parse_cursor_message_def cursor_header_def)
  with assms show ?thesis by (simp add: stream_control_data_callback_def cursor_message_kind [OF assms])
qed

lemma message_has_shape_parse: "parse_cursor_message d = Some p \<Longrightarrow> message_has_shape d \<longleftrightarrow> cp_shape p \<noteq> None"
  by (auto simp: parse_cursor_message_def message_has_shape_def cursor_header_def Let_def split: if_splits)

section \<open>What a viewer should see\<close>

text \<open>The pointer the host keeps for late joiners: the last shape, and the last message.\<close>

definition pointer_ok :: "stream_manager \<Rightarrow> bool" where
  "pointer_ok m \<longleftrightarrow>
     (\<forall>d. mg_cursor_last m = Some d \<longrightarrow>
        (\<exists>p. parse_cursor_message d = Some p \<and> (cp_shape p = None \<or> mg_cursor_shape m = Some d))) \<and>
     (\<forall>d. mg_cursor_shape m = Some d \<longrightarrow>
        mg_cursor_last m \<noteq> None \<and> (\<exists>p s. parse_cursor_message d = Some p \<and> cp_shape p = Some s))"

text \<open>
  Once a shape was sent, the viewer draws that shape where the last message put it; before, none.
\<close>

definition shows_pointer :: "stream_manager \<Rightarrow> viewer_cursor \<Rightarrow> bool" where
  "shows_pointer m c \<longleftrightarrow>
     (case mg_cursor_shape m of
        None \<Rightarrow> vc_shape c = None
      | Some d \<Rightarrow>
          (\<exists>p l. parse_cursor_message d = Some p \<and> Option.bind (mg_cursor_last m) parse_cursor_message = Some l \<and>
             vc_shape c = cp_shape p \<and> vc_x c = cp_x l \<and> vc_y c = cp_y l \<and> vc_visible c = cp_visible l))"

definition shows_stream :: "stream_manager \<Rightarrow> viewer_view \<Rightarrow> bool" where
  "shows_stream m v \<longleftrightarrow>
     slot_is_paused (vw_slot v) = pc_paused (mg_pause m) \<and> slot_is_host_idle (vw_slot v) = mg_idle m \<and>
     vf_rung (vw_format v) = Some (wire_rung (current_rung (mg_quality m))) \<and> shows_pointer m (vw_cursor v)"

text \<open>A change of the manager tells its viewers when its messages take them to the new state.\<close>

definition tells :: "stream_manager \<Rightarrow> stream_manager \<Rightarrow> bool" where
  "tells m m' \<longleftrightarrow> (pointer_ok m \<longrightarrow> pointer_ok m') \<and>
     (\<exists>outs. mg_out m' = mg_out m @ outs \<and>
        (\<forall>v. pointer_ok m \<longrightarrow> shows_stream m v \<longrightarrow> shows_stream m' (watch v (controls outs))))"

lemma tells_refl [simp, intro]: "tells m m"
  by (auto simp: tells_def)

lemma tells_trans [trans]: "tells m m1 \<Longrightarrow> tells m1 m2 \<Longrightarrow> tells m m2"
  by (fastforce simp: tells_def)

lemma tells_fold: "(\<And>x m. tells m (f x m)) \<Longrightarrow> tells m (fold f xs m)"
  by (induction xs arbitrary: m) (auto intro: tells_trans)

text \<open>A change that keeps what is shown, with outputs that are no control messages.\<close>

definition same_view :: "stream_manager \<Rightarrow> stream_manager \<Rightarrow> bool" where
  "same_view m m' \<longleftrightarrow> pc_paused (mg_pause m') = pc_paused (mg_pause m) \<and> mg_idle m' = mg_idle m \<and>
     current_rung (mg_quality m') = current_rung (mg_quality m) \<and> mg_cursor_shape m' = mg_cursor_shape m \<and>
     mg_cursor_last m' = mg_cursor_last m"

lemma same_view_shows:
  assumes "same_view m m'"
  shows "pointer_ok m' = pointer_ok m" "shows_stream m' v = shows_stream m v"
proof -
  have e: "mg_cursor_shape m' = mg_cursor_shape m" "mg_cursor_last m' = mg_cursor_last m"
    using assms by (simp_all add: same_view_def)
  show "pointer_ok m' = pointer_ok m" unfolding pointer_ok_def e ..
  have "shows_pointer m' c = shows_pointer m c" for c unfolding shows_pointer_def e ..
  with assms show "shows_stream m' v = shows_stream m v" by (simp add: same_view_def shows_stream_def)
qed

lemma tells_same_view: "same_view m m' \<Longrightarrow> mg_out m' = mg_out m @ outs \<Longrightarrow> controls outs = [] \<Longrightarrow> tells m m'"
  unfolding tells_def by (metis same_view_shows watch_simps(1))

lemma tells_silent: "same_view m m' \<Longrightarrow> mg_out m' = mg_out m \<Longrightarrow> tells m m'"
  by (rule tells_same_view [of m m' "[]"]) simp_all


section \<open>The handlers\<close>

lemma same_view_fields:
  "same_view m m' \<Longrightarrow> same_view m (m'\<lparr>mg_remb := a\<rparr>)" "same_view m m' \<Longrightarrow> same_view m (m'\<lparr>mg_bitrate := b\<rparr>)"
  "same_view m m" "same_view m m' \<Longrightarrow> same_view m (emit o' m')" "same_view m m' \<Longrightarrow> same_view m (bump u k m')"
  by (simp_all add: same_view_def)

lemma rung_update_bitrate: "current_rung (snd (update_bitrate now q)) = current_rung q"
  by (simp add: current_rung_def update_bitrate_def Let_def)

lemma rung_inputs:
  "current_rung (set_remb_ceiling_kbps c q) = current_rung q" "current_rung (set_gcc_target_bps b q) = current_rung q"
  "current_rung (set_encoder_load l q) = current_rung q"
  by (simp_all add: current_rung_def set_remb_ceiling_kbps_def set_gcc_target_bps_def set_encoder_load_def)

lemma tells_emit: "control_of a = [] \<Longrightarrow> tells m (emit a m)"
  by (rule tells_same_view [of _ _ "[a]"]) (simp_all add: same_view_def)

lemma tells_bump: "tells m (bump u k m)"
  by (rule tells_silent) (simp_all add: same_view_def)

lemma tells_apply_quality_bitrate: "tells m (apply_quality_bitrate now m)"
proof -
  obtain out q where u: "update_bitrate now (mg_quality m) = (out, q)" by fastforce
  have q: "current_rung q = current_rung (mg_quality m)" using rung_update_bitrate [of now "mg_quality m"] by (simp add: u)
  let ?m1 = "m\<lparr>mg_quality := q\<rparr>"
  have m1: "tells m ?m1" by (rule tells_silent) (simp_all add: same_view_def q)
  have rate: "tells m' (m'\<lparr>mg_bitrate := c\<rparr>)" for m' c by (rule tells_silent) (simp_all add: same_view_def)
  show ?thesis
  proof (cases out)
    case None
    with m1 show ?thesis by (simp add: apply_quality_bitrate_def u)
  next
    case (Some b)
    have "tells ?m1 (refresh_pacing_target ((if mg_host m then emit (Set_bitrate c) ?m1 else ?m1)\<lparr>mg_bitrate := c\<rparr>))" for c
      unfolding refresh_pacing_target_def
      by (intro tells_trans [OF tells_trans [OF _ rate] tells_emit]) (simp_all add: tells_emit)
    from tells_trans [OF m1 this] m1 show ?thesis
      by (simp add: apply_quality_bitrate_def u Some apply_bitrate_kbps_def Let_def)
  qed
qed

lemma tells_apply_remb_aggregate: "tells m (apply_remb_aggregate now m)"
proof -
  have "tells m (m\<lparr>mg_remb := r, mg_quality := set_remb_ceiling_kbps c (mg_quality m)\<rparr>)" for r c
    by (rule tells_silent) (simp_all add: same_view_def rung_inputs)
  from tells_trans [OF this tells_apply_quality_bitrate] show ?thesis
    by (simp add: apply_remb_aggregate_def Let_def expire_stale_remb_def)
qed

lemma tells_update_upload_budget: "tells m (update_upload_budget now m)"
  by (rule tells_silent) (simp_all add: same_view_def update_upload_budget_def Let_def split_beta)

lemma tells_request: "tells m (snd (request_host_keyframe r now m))"
  "tells m (snd (request_host_keyframe_with_cooldown r c now m))"
proof -
  have "tells m (emit (Request_keyframe r now) m)" by (rule tells_emit) simp
  moreover have "tells m' (m'\<lparr>mg_last_queue_kf := t\<rparr>)" "tells m' (m'\<lparr>mg_last_viewer_kf := t\<rparr>)" for m' t
    by (rule tells_silent; simp add: same_view_def)+
  ultimately show "tells m (snd (request_host_keyframe r now m))"
    "tells m (snd (request_host_keyframe_with_cooldown r c now m))"
    by (auto simp: request_host_keyframe_def request_host_keyframe_with_cooldown_def fire_host_keyframe_def intro: tells_trans)
qed

lemma tells_fields:
  "tells m (m\<lparr>mg_drop_delta := b\<rparr>)" "tells m (m\<lparr>mg_deferred_at := d\<rparr>)" "tells m (m\<lparr>mg_video_rx := a\<rparr>)"
  "tells m (m\<lparr>mg_audio_rx := c\<rparr>)" "tells m (m\<lparr>mg_deferred_at := d, mg_drop_delta := b\<rparr>)" "tells m (m\<lparr>mg_audio_seq := n\<rparr>)"
  by (rule tells_silent; simp add: same_view_def)+


lemma pointer_cong:
  assumes "mg_cursor_shape m' = mg_cursor_shape m" "mg_cursor_last m' = mg_cursor_last m"
  shows "pointer_ok m' = pointer_ok m" "shows_pointer m' = shows_pointer m"
  unfolding pointer_ok_def shows_pointer_def assms by (rule refl)+

lemma tells_rung:
  assumes "mg_out m1 = mg_out m @ outs" "controls outs = []" "mg_pause m1 = mg_pause m" "mg_idle m1 = mg_idle m"
    "mg_cursor_shape m1 = mg_cursor_shape m" "mg_cursor_last m1 = mg_cursor_last m"
  shows "tells m (emit (Control (rung_message (current_rung (mg_quality m1)))) m1)"
proof -
  let ?m = "emit (Control (rung_message (current_rung (mg_quality m1)))) m1"
  have p: "pointer_ok ?m = pointer_ok m" "shows_pointer ?m = shows_pointer m"
    by (rule pointer_cong; simp add: assms(5,6))+
  have "shows_stream ?m (watch v (controls (outs @ [Control (rung_message (current_rung (mg_quality m1)))])))"
    if "shows_stream m v" for v
    using that assms(2-4) by (simp add: shows_stream_def p callback_rung)
  then show ?thesis unfolding tells_def p(1) using assms(1) by (intro conjI impI exI) auto
qed

lemma tells_take_load: "tells m (take_load s m)"
  by (rule tells_silent) (simp_all add: same_view_def take_load_def rung_inputs)

lemma set_top_size_rung:
  "set_top_size w h q = (None, q') \<Longrightarrow> current_rung q' = current_rung q"
  "set_top_size w h q = (Some r, q') \<Longrightarrow> r = current_rung q'"
  by (auto simp: set_top_size_def current_rung_def Let_def split: if_splits)

lemma geometry_out:
  "mg_out (apply_rung_geometry r m) = mg_out m @ (if mg_host m then [Set_resolution (rung_width r) (rung_height r)] else [])"
  "mg_pause (apply_rung_geometry r m) = mg_pause m" "mg_idle (apply_rung_geometry r m) = mg_idle m"
  "mg_cursor_shape (apply_rung_geometry r m) = mg_cursor_shape m" "mg_cursor_last (apply_rung_geometry r m) = mg_cursor_last m"
  "mg_quality (apply_rung_geometry r m) = mg_quality m"
  by (simp_all add: apply_rung_geometry_def)

lemma tells_follow_source: "tells m (follow_source s m)"
proof (cases "ns_source_changes s \<noteq> mg_q_source_changes m \<and> ns_source_width s > 0 \<and> ns_source_height s > 0")
  case True
  obtain w h where wh: "encode_size_for (ns_source_width s) (ns_source_height s) (mg_config_height m) (mg_config_fps m) = (w, h)"
    by fastforce
  obtain changed q where top: "set_top_size w h (mg_quality m) = (changed, q)" by fastforce
  let ?m1 = "m\<lparr>mg_q_source_changes := ns_source_changes s, mg_quality := q\<rparr>"
  show ?thesis
  proof (cases changed)
    case None
    with top have "tells m ?m1" by (intro tells_silent) (simp_all add: same_view_def set_top_size_rung)
    then show ?thesis unfolding follow_source_def if_P [OF True] wh prod.case top None by simp
  next
    case (Some r)
    with top have "r = current_rung (mg_quality (apply_rung_geometry r ?m1))"
      by (simp add: set_top_size_rung geometry_out)
    moreover have "tells m (emit (Control (rung_message (current_rung (mg_quality (apply_rung_geometry r ?m1))))) (apply_rung_geometry r ?m1))"
      by (rule tells_rung [of _ _ "if mg_host m then [Set_resolution (rung_width r) (rung_height r)] else []"])
        (simp_all add: geometry_out)
    ultimately show ?thesis unfolding follow_source_def if_P [OF True] wh prod.case top Some by (simp add: Let_def)
  qed
qed (unfold follow_source_def, simp only: if_False tells_refl)

lemma tick_rung_rung:
  "tick_rung now q = (u, q') \<Longrightarrow> up_rung u = None \<Longrightarrow> current_rung q' = current_rung q"
  "tick_rung now q = (u, q') \<Longrightarrow> up_rung u = Some r \<Longrightarrow> r = current_rung q'"
  by (auto simp: tick_rung_def current_rung_def switch_to_def no_update_def Let_def split: if_splits)

lemma tells_apply_rung:
  assumes "m1 = m\<lparr>mg_quality := q\<rparr>" "r = current_rung q"
  shows "tells m (apply_rung r wh m1)"
proof -
  let ?f = "emit (Set_framerate (if rung_fps r \<ge> mg_config_fps m1 then 0 else rung_fps r)) m1"
  define m2 where "m2 = (if mg_host m1 then if wh \<noteq> (rung_width r, rung_height r) then apply_rung_geometry r ?f else ?f else m1)"
  have "apply_rung r wh m1 = emit (Control (rung_message (current_rung (mg_quality m2)))) m2"
    by (simp add: apply_rung_def m2_def geometry_out assms Let_def)
  moreover have "tells m (emit (Control (rung_message (current_rung (mg_quality m2)))) m2)"
    by (rule tells_rung [of _ _ "drop (length (mg_out m)) (mg_out m2)"]) (simp_all add: m2_def geometry_out assms(1))
  ultimately show ?thesis by simp
qed

lemma tells_take_rung: "tells m (take_rung wh now m)"
proof -
  obtain u q where u: "tick_rung now (mg_quality m) = (u, q)" by fastforce
  let ?m1 = "m\<lparr>mg_quality := q\<rparr>"
  let ?m2 = "case up_rung u of None \<Rightarrow> ?m1 | Some r \<Rightarrow> apply_rung r wh ?m1"
  have "tells m ?m2"
  proof (cases "up_rung u")
    case None
    with tick_rung_rung(1) [OF u] have "tells m ?m1" by (intro tells_silent) (simp_all add: same_view_def)
    with None show ?thesis by simp
  next
    case (Some r)
    with tells_apply_rung [OF refl tick_rung_rung(2) [OF u Some]] show ?thesis by simp
  qed
  also have "tells ?m2 (case up_allocation_kbps u of None \<Rightarrow> ?m2 | Some k \<Rightarrow> emit (Max_allocated k) ?m2)"
    by (cases "up_allocation_kbps u") (simp_all add: tells_emit)
  finally show ?thesis unfolding take_rung_def u Let_def prod.case .
qed

lemma tells_tick_quality: "tells m (tick_quality s wh now m)"
proof -
  have "tells m (if mg_host m then follow_source s (take_load s m) else m)"
    using tells_trans [OF tells_take_load tells_follow_source] by simp
  then show ?thesis
    unfolding tick_quality_def by (rule tells_trans [OF tells_trans [OF _ tells_take_rung] tells_update_upload_budget])
qed


lemma tells_if: "tells m a \<Longrightarrow> tells m b \<Longrightarrow> tells m (if c then a else b)"
  by simp

lemma tells_check_capture_state: "tells m (check_capture_state s m)"
  by (rule tells_silent) (simp_all add: same_view_def check_capture_state_def Let_def)

text \<open>A change of the pause state is told whatever the viewer showed before.\<close>

lemma shows_after_pause:
  assumes "shows_stream m v" "pointer_ok m" "m' = m\<lparr>mg_pause := p\<rparr>"
  shows "shows_stream (send_pause_state_with_reason (pc_paused p) r m')
    (watch v [pause_message (pc_paused p), pause_message_with_reason (pc_paused p) r])"
proof -
  let ?m = "send_pause_state_with_reason (pc_paused p) r m'"
  have "shows_pointer ?m = shows_pointer m" by (rule pointer_cong; simp add: send_pause_state_with_reason_def assms(3))
  then show ?thesis
    using assms by (simp add: send_pause_state_with_reason_def shows_stream_def callback_pause slot_is_paused_def
        u8_from_def slot_is_host_idle_def)
qed

lemma tells_pause_change: "tells m (send_pause_state_with_reason (pc_paused p) r (m\<lparr>mg_pause := p\<rparr>))"
proof -
  let ?m = "send_pause_state_with_reason (pc_paused p) r (m\<lparr>mg_pause := p\<rparr>)"
  have "pointer_ok ?m = pointer_ok m" by (rule pointer_cong; simp add: send_pause_state_with_reason_def)
  moreover have "mg_out ?m = mg_out m @ [Control (pause_message (pc_paused p)), Control (pause_message_with_reason (pc_paused p) r)]"
    by (simp add: send_pause_state_with_reason_def)
  ultimately show ?thesis unfolding tells_def
    using shows_after_pause [OF _ _ refl] by (intro conjI impI exI allI) auto
qed

lemma tells_tick_stream_pause: "tells m (tick_stream_pause now m)"
proof (cases "mg_exit_seen m")
  case True
  have "tells m' (m'\<lparr>mg_exit_reported := True\<rparr>)" for m' by (rule tells_silent) (simp_all add: same_view_def)
  moreover have "tells m (if mg_ui m then emit Ui_target_exited m else m)" by (simp add: tells_emit)
  ultimately have "tells m ((if mg_ui m then emit Ui_target_exited m else m)\<lparr>mg_exit_reported := True\<rparr>)"
    by (rule tells_trans [rotated])
  moreover have "tick_stream_pause now m =
      (if mg_exit_reported m then m else (if mg_ui m then emit Ui_target_exited m else m)\<lparr>mg_exit_reported := True\<rparr>)"
    using True by (cases "mg_exit_reported m") (simp_all add: tick_stream_pause_def observe_target_exit_def)
  ultimately show ?thesis by (cases "mg_exit_reported m") (simp_all only: if_True if_False tells_refl)
next
  case False
  obtain change p where o': "pause_observe (mg_capture_state m = capture_state_capturing) (mg_pause m) = (change, p)"
    by fastforce
  show ?thesis
  proof (cases change)
    case None
    then have "pc_paused p = pc_paused (mg_pause m)" using o' by (auto simp: pause_observe_def Let_def split: if_splits)
    then have "tells m (m\<lparr>mg_pause := p\<rparr>)" by (intro tells_silent) (simp_all add: same_view_def)
    then show ?thesis by (simp add: tick_stream_pause_def False o' None)
  next
    case (Some b)
    then have b: "pc_paused p = b" using o' by (auto simp: pause_observe_def Let_def split: if_splits)
    let ?r = "reason_from_capture_state (mg_capture_state m)"
    let ?m2 = "if b then m\<lparr>mg_pause := p\<rparr>
      else snd (request_host_keyframe_with_cooldown ''pause_resume'' viewer_keyframe_request_cooldown now (m\<lparr>mg_pause := p\<rparr>))"
    let ?n = "if b then m else snd (request_host_keyframe_with_cooldown ''pause_resume'' viewer_keyframe_request_cooldown now m)"
    have n: "?m2 = ?n\<lparr>mg_pause := p\<rparr>"
      by (simp add: request_host_keyframe_with_cooldown_def fire_host_keyframe_def emit_def)
    have "tells m ?n" by (simp add: tells_request)
    also have "tells ?n (send_pause_state_with_reason b ?r ?m2)"
      using tells_pause_change [of ?n p ?r] by (simp only: n b)
    finally have t: "tells m (send_pause_state_with_reason b ?r ?m2)" .
    let ?m3 = "send_pause_state_with_reason b ?r ?m2"
    have "tick_stream_pause now m = (if mg_ui ?m3 then emit (Ui_host_paused b) ?m3 else ?m3)"
      by (simp only: tick_stream_pause_def False if_False o' Some prod.case option.case Let_def)
    with t tells_trans [OF t tells_emit [of "Ui_host_paused b"]] show ?thesis by simp
  qed
qed

lemma tells_tick_host_idle: "tells m (tick_host_idle m)"
proof -
  let ?m1 = "m\<lparr>mg_idle_tick := mg_idle_seen m\<rparr>"
  define idle where "idle \<longleftrightarrow> mg_idle_seen m > mg_idle_tick m"
  let ?m2 = "emit (Control (idle_message idle)) (?m1\<lparr>mg_idle := idle\<rparr>)"
  have "tells m ?m1" by (rule tells_silent) (simp_all add: same_view_def)
  moreover have "tells m ?m2"
  proof -
    have "pointer_ok ?m2 = pointer_ok m" "shows_pointer ?m2 = shows_pointer m" by (rule pointer_cong; simp)+
    then show ?thesis unfolding tells_def
      by (intro conjI impI exI [of _ "[Control (idle_message idle)]"])
        (auto simp: shows_stream_def callback_idle slot_is_paused_def u8_from_def slot_is_host_idle_def)
  qed
  moreover have "tick_host_idle m = (if idle = mg_idle m then ?m1 else ?m2)"
    by (simp add: tick_host_idle_def observe_idle_def idle_def Let_def)
  ultimately show ?thesis by (simp only: tells_if)
qed

lemma tells_report_stream_stats: "tells m (report_stream_stats m)"
proof (cases "pc_paused (mg_pause m)")
  case True
  have "m\<lparr>mg_pause := mg_pause m\<rparr> = m" by simp
  with tells_pause_change [of m "mg_pause m"] True show ?thesis
    by (simp add: report_stream_stats_def send_pause_state_def)
qed (simp add: report_stream_stats_def)


text \<open>The native library writes pointer packets, or nothing.\<close>

definition pointer_packet :: "nat list \<Rightarrow> bool" where
  "pointer_packet packet \<longleftrightarrow> packet = [] \<or> parse_cursor_message (control_message_from_native packet) \<noteq> None"

lemma shows_new_pointer:
  assumes "pointer_ok m" "shows_pointer m (vw_cursor v)" "parse_cursor_message d = Some p"
    "mg_cursor_last m' = Some d" "mg_cursor_shape m' = (if cp_shape p \<noteq> None then Some d else mg_cursor_shape m)"
  shows "pointer_ok m'" "shows_pointer m' (apply_cursor_packet p (vw_cursor v))"
proof -
  show "pointer_ok m'" using assms by (auto simp: pointer_ok_def split: if_splits)
  show "shows_pointer m' (apply_cursor_packet p (vw_cursor v))"
  proof (cases "cp_shape p")
    case None
    with assms(2,3) show ?thesis
      unfolding shows_pointer_def assms(4,5) by (auto simp: apply_cursor_packet_def split: option.split option.split_asm)
  next
    case (Some s)
    with assms(3) show ?thesis unfolding shows_pointer_def assms(4,5) by (simp add: apply_cursor_packet_def)
  qed
qed

lemma tells_poll_cursor:
  assumes "pointer_packet packet"
  shows "tells m (poll_cursor packet m)"
proof (cases "\<not> mg_host m \<or> packet = [] \<or> length packet > max_cursor_packet_bytes")
  case False
  let ?d = "control_message_from_native packet"
  from False assms obtain p where p: "parse_cursor_message ?d = Some p" by (auto simp: pointer_packet_def)
  let ?m = "poll_cursor packet m"
  have m: "mg_out ?m = mg_out m @ [Control ?d]" "mg_cursor_last ?m = Some ?d"
      "mg_cursor_shape ?m = (if cp_shape p \<noteq> None then Some ?d else mg_cursor_shape m)"
      "mg_pause ?m = mg_pause m" "mg_idle ?m = mg_idle m" "mg_quality ?m = mg_quality m"
    unfolding poll_cursor_def if_not_P [OF False] by (simp_all add: Let_def message_has_shape_parse [OF p])
  have "pointer_ok ?m" if "pointer_ok m"
    using that p m(2,3) by (auto simp: pointer_ok_def)
  moreover have "shows_stream ?m (watch v [?d])" if "pointer_ok m" "shows_stream m v" for v
    using that shows_new_pointer(2) [OF that(1) _ p m(2,3), of v]
    by (simp add: shows_stream_def callback_cursor [OF p] m(4-6))
  ultimately show ?thesis unfolding tells_def
    by (intro conjI impI exI [of _ "[Control ?d]"]) (simp_all add: m(1))
qed (unfold poll_cursor_def, simp only: if_True tells_refl)

section \<open>A viewer joins\<close>

text \<open>What the host replays to all its viewers when one joins, after the notice to the sink.\<close>

definition replayed :: "stream_manager \<Rightarrow> nat list list" where
  "replayed m =
     (if pc_paused (mg_pause m)
      then [pause_message True, pause_message_with_reason True (reason_from_capture_state (mg_capture_state m))] else []) @
     [rung_message (current_rung (mg_quality m))] @ (if mg_idle m then [idle_message True] else []) @
     (case mg_cursor_shape m of None \<Rightarrow> []
      | Some shape \<Rightarrow> shape # (case mg_cursor_last m of None \<Rightarrow> [] | Some msg \<Rightarrow> if msg \<noteq> shape then [msg] else []))"

lemma joined_fields:
  "mg_pause (handle_viewer_joined u m) = mg_pause m" "mg_idle (handle_viewer_joined u m) = mg_idle m"
  "mg_quality (handle_viewer_joined u m) = mg_quality m" "mg_cursor_shape (handle_viewer_joined u m) = mg_cursor_shape m"
  "mg_cursor_last (handle_viewer_joined u m) = mg_cursor_last m"
  "mg_out (handle_viewer_joined u m) = mg_out m @ Sink_joined u # map Control (replayed m)"
  by (simp_all add: handle_viewer_joined_def send_pause_state_def send_pause_state_with_reason_def replayed_def Let_def
      split: option.split)

lemma controls_map [simp]: "controls (map Control ds) = ds"
  by (induction ds) simp_all

text \<open>The messages of a replay show the stream to any viewer that is new or has seen it all.\<close>

lemma replayed_shows:
  assumes ok: "pointer_ok m"
    and v: "slot_is_paused (vw_slot v) \<longrightarrow> pc_paused (mg_pause m)" "slot_is_host_idle (vw_slot v) \<longrightarrow> mg_idle m"
      "mg_cursor_shape m = None \<longrightarrow> vc_shape (vw_cursor v) = None"
  shows "shows_stream m (watch v (replayed m))"
proof -
  define v1 where "v1 = watch v (if pc_paused (mg_pause m)
      then [pause_message True, pause_message_with_reason True (reason_from_capture_state (mg_capture_state m))] else [])"
  define v2 where "v2 = watch v1 ([rung_message (current_rung (mg_quality m))] @ (if mg_idle m then [idle_message True] else []))"
  have v1: "slot_is_paused (vw_slot v1) = pc_paused (mg_pause m)" "slot_is_host_idle (vw_slot v1) = slot_is_host_idle (vw_slot v)"
      "vw_cursor v1 = vw_cursor v"
    using v(1) by (auto simp: v1_def callback_pause slot_is_paused_def slot_is_host_idle_def u8_from_def)
  have v2: "slot_is_paused (vw_slot v2) = pc_paused (mg_pause m)" "slot_is_host_idle (vw_slot v2) = mg_idle m"
      "vw_cursor v2 = vw_cursor v" "vf_rung (vw_format v2) = Some (wire_rung (current_rung (mg_quality m)))"
    using v1 v(2) by (auto simp: v2_def callback_rung callback_idle slot_is_paused_def slot_is_host_idle_def u8_from_def)
  have w: "watch v (replayed m) = watch v2
      (case mg_cursor_shape m of None \<Rightarrow> []
       | Some shape \<Rightarrow> shape # (case mg_cursor_last m of None \<Rightarrow> [] | Some msg \<Rightarrow> if msg \<noteq> shape then [msg] else []))"
    unfolding replayed_def v2_def v1_def by simp
  show ?thesis
  proof (cases "mg_cursor_shape m")
    case None
    with v2 v(3) show ?thesis unfolding w by (simp add: shows_stream_def shows_pointer_def)
  next
    case (Some d)
    with ok obtain p s where p: "parse_cursor_message d = Some p" "cp_shape p = Some s" by (auto simp: pointer_ok_def)
    from ok Some obtain l where l: "mg_cursor_last m = Some l" by (auto simp: pointer_ok_def)
    show ?thesis
    proof (cases "l = d")
      case True
      with v2 p l Some show ?thesis
        unfolding w by (simp add: shows_stream_def shows_pointer_def callback_cursor [OF p(1)] apply_cursor_packet_def)
    next
      case False
      with ok l Some obtain q where q: "parse_cursor_message l = Some q" "cp_shape q = None" by (auto simp: pointer_ok_def)
      from False v2 p q l Some show ?thesis
        unfolding w by (simp add: shows_stream_def shows_pointer_def callback_cursor [OF p(1)] callback_cursor [OF q(1)]
            apply_cursor_packet_def)
    qed
  qed
qed

lemma joined_shows:
  "pointer_ok m \<Longrightarrow> shows_stream (handle_viewer_joined u m) v = shows_stream m v"
  "pointer_ok (handle_viewer_joined u m) = pointer_ok m"
proof -
  have "same_view m (handle_viewer_joined u m)" by (simp add: same_view_def joined_fields)
  from same_view_shows [OF this] show "shows_stream (handle_viewer_joined u m) v = shows_stream m v"
    "pointer_ok (handle_viewer_joined u m) = pointer_ok m" by simp_all
qed

lemma tells_viewer_joined: "tells m (handle_viewer_joined u m)"
proof -
  have "shows_stream m (watch v (replayed m))" if "pointer_ok m" "shows_stream m v" for v
    by (rule replayed_shows [OF that(1)]) (use that(2) in \<open>auto simp: shows_stream_def shows_pointer_def\<close>)
  then show ?thesis
    unfolding tells_def by (intro conjI impI exI [of _ "Sink_joined u # map Control (replayed m)"])
      (simp_all add: joined_fields joined_shows)
qed

lemma joined_new: "pointer_ok m \<Longrightarrow> shows_stream (handle_viewer_joined u m) (watch view_new (replayed m))"
  by (simp add: joined_shows replayed_shows view_new_def pause_slot_new_def slot_is_paused_def slot_is_host_idle_def
      viewer_cursor_new_def)


section \<open>Every event\<close>

lemma tells_viewer_left: "tells m (handle_viewer_left u now m)"
proof -
  have "tells m (emit (Sink_left u) (m\<lparr>mg_remb := r, mg_viewers := w\<rparr>))"
    "tells m ((emit (Sink_left u) (m\<lparr>mg_remb := r, mg_viewers := w\<rparr>))\<lparr>mg_remb := r'\<rparr>)" for r w r'
    by (rule tells_same_view [of _ _ "[Sink_left u]"]; simp add: same_view_def)+
  from tells_if [OF this(2) this(1)] show ?thesis
    unfolding handle_viewer_left_def Let_def by (rule tells_trans [OF _ tells_apply_remb_aggregate])
qed

lemma tells_fire_deferred: "tells m (fire_deferred_keyframe now m)"
proof (cases "mg_deferred_at m")
  case (Some due)
  let ?r = "request_host_keyframe_with_cooldown ''deferred_viewer_request'' viewer_keyframe_request_cooldown now m"
  have "tells m ((snd ?r)\<lparr>mg_deferred_at := None\<rparr>)" "tells m (snd ?r)" "tells m (m\<lparr>mg_deferred_at := None\<rparr>)"
    by (rule tells_trans [OF tells_request(2) tells_fields(2)] tells_request tells_fields)+
  then show ?thesis by (simp only: fire_deferred_keyframe_def Some option.case split_beta tells_if tells_refl)
qed (simp add: fire_deferred_keyframe_def)

lemma tells_keyframe_feedback: "tells m (keyframe_feedback r now m)"
proof -
  let ?m1 = "(bump mt_kf_feedback_update 1 m)\<lparr>mg_drop_delta := True\<rparr>"
  let ?r = "snd (request_host_keyframe_with_cooldown r viewer_keyframe_request_cooldown now ?m1)"
  have r: "tells m ?r" by (rule tells_trans [OF tells_trans [OF tells_bump tells_fields(1)] tells_request(2)])
  from r tells_trans [OF r tells_fields(2)] show ?thesis
    by (simp only: keyframe_feedback_def Let_def split_beta tells_if)
qed

lemma tells_feedback: "tells m (handle_video_feedback f now m)"
proof -
  obtain u c where f: "f = (u, c)" by fastforce
  have q: "tells m (m\<lparr>mg_quality := set_gcc_target_bps b (mg_quality m)\<rparr>)" "tells m (m\<lparr>mg_remb := r\<rparr>)" for b r
    by (rule tells_silent; simp add: same_view_def rung_inputs)+
  show ?thesis
  proof (cases c)
    case (Remb b)
    then show ?thesis unfolding f
      by (simp only: handle_video_feedback.simps tells_if tells_refl tells_trans [OF q(2) tells_apply_remb_aggregate])
  next
    case (Gcc b)
    then show ?thesis unfolding f
      by (simp only: handle_video_feedback.simps
          tells_trans [OF tells_trans [OF q(1) tells_apply_quality_bitrate] tells_update_upload_budget])
  qed (simp_all add: f tells_keyframe_feedback)
qed

lemma tells_after_joins:
  "tells m (let m2 = fold (\<lambda>v. handle_viewer_left v now) left m;
          m3 = fold (\<lambda>f. handle_video_feedback f now) feedback m2;
          m4 = fire_deferred_keyframe now m3
      in if mg_remb m4 \<noteq> [] then apply_remb_aggregate now m4 else apply_quality_bitrate now m4)"
proof -
  let ?m2 = "fold (\<lambda>v. handle_viewer_left v now) left m"
  let ?m3 = "fold (\<lambda>f. handle_video_feedback f now) feedback ?m2"
  have "tells m ?m2" by (rule tells_fold) (rule tells_viewer_left)
  also have "tells ?m2 ?m3" by (rule tells_fold) (rule tells_feedback)
  also note tells_fire_deferred [of ?m3 now]
  finally have "tells m (fire_deferred_keyframe now ?m3)" .
  from tells_if [OF tells_trans [OF this tells_apply_remb_aggregate] tells_trans [OF this tells_apply_quality_bitrate]]
  show ?thesis unfolding Let_def .
qed

lemma tells_drain: "tells m (drain_sink_events joined left feedback now m)"
proof -
  have "tells m (fold handle_viewer_joined joined m)" by (rule tells_fold) (rule tells_viewer_joined)
  from tells_trans [OF this tells_after_joins [of _ now left feedback]] show ?thesis
    by (simp only: drain_sink_events_def Let_def)
qed

lemma tells_encoded: "tells m (on_video_packet p m)"
  unfolding on_video_packet_def
  by (rule tells_trans [OF tells_if [OF tells_fields(3) tells_refl] tells_emit]) simp

lemma tells_drain_video: "drain_video room arriving newest n m = (k, n', m') \<Longrightarrow> tells m m'"
proof (induction room arbitrary: arriving newest n m)
  case (Suc room)
  define m1 where "m1 = fold on_video_packet (case arriving of [] \<Rightarrow> [] | ps # _ \<Rightarrow> ps) m"
  have m1: "tells m m1" unfolding m1_def by (rule tells_fold) (rule tells_encoded)
  show ?case
  proof (cases "mg_video_rx m1")
    case Nil
    with Suc.prems m1 show ?thesis by (simp add: foldl_conv_fold m1_def [symmetric] Let_def)
  next
    case (Cons p rest)
    with Suc.prems have "drain_video room (drop 1 arriving) (if vp_keyframe p then Some p else newest) (n + 1)
        (m1\<lparr>mg_video_rx := rest\<rparr>) = (k, n', m')"
      by (simp add: foldl_conv_fold m1_def [symmetric] Let_def)
    from tells_trans [OF tells_trans [OF m1 tells_fields(3)] Suc.IH [OF this]] show ?thesis .
  qed
qed simp

lemma tells_recover_with: "tells m (recover_with r now m)"
  unfolding recover_with_def split_beta
  by (rule tells_if [OF tells_trans [OF tells_request(1) tells_bump] tells_request(1)])

lemma tells_note_backlog: "tells m (note_backlog p n now m)"
proof -
  let ?m1 = "bump mt_coalesce_events_update 1 (bump mt_coalesced_update n m)"
  let ?r = "request_host_keyframe ''queue_pressure'' now ?m1"
  have m1: "tells m ?m1" by (rule tells_trans [OF tells_bump tells_bump])
  let ?m3 = "if fst ?r then bump mt_kf_pressure_update 1 (snd ?r) else snd ?r"
  have m3: "tells m ?m3" 
    by (rule tells_if [OF tells_trans [OF tells_trans [OF m1 tells_request(1)] tells_bump] tells_trans [OF m1 tells_request(1)]])
  from m1 m3 tells_trans [OF m3 tells_fields(1)] show ?thesis
    by (simp only: note_backlog_def Let_def split_beta tells_if tells_refl)
qed

lemma tells_send_video: "tells m (send_video p r now m)"
proof -
  have m1: "tells m (emit (Video_out p r) m)" by (rule tells_emit) simp
  from m1 tells_trans [OF m1 tells_bump]
    tells_trans [OF tells_trans [OF tells_trans [OF m1 tells_bump] tells_fields(1)] tells_recover_with]
  show ?thesis by (cases r) (simp_all only: send_video_def Let_def send_outcome.case)
qed

lemma tells_handle_video: "tells m (handle_video p arriving r now m)"
proof -
  obtain o' m1 where c: "coalesce_video_packet p max_video_coalesce_drain arriving m = (o', m1)" by fastforce
  then have m1: "tells m m1" using tells_drain_video by (auto simp: coalesce_video_packet_def split: prod.splits)
  show ?thesis
  proof (cases o')
    case (Coalesce_send q n)
    let ?m2 = "note_backlog q n now (bump mt_video_in_update (1 + n) m1)"
    have m2: "tells m ?m2" by (rule tells_trans [OF tells_trans [OF m1 tells_bump] tells_note_backlog])
    show ?thesis
      by (simp only: handle_video_def c Coalesce_send coalesce_outcome.case prod.case Let_def tells_if
          tells_trans [OF tells_trans [OF m2 tells_fields(5)] tells_send_video]
          tells_trans [OF tells_trans [OF m2 tells_bump] tells_recover_with] tells_trans [OF m2 tells_send_video])
  next
    case (Chain_gap n)
    have "tells m1 (recover_with ''reference_chain_gap'' now
          ((bump mt_chain_gap_update 1 (bump mt_coalesce_events_update 1 (bump mt_coalesced_update n
            (bump mt_video_in_update (1 + n) m1))))\<lparr>mg_drop_delta := True\<rparr>))"
      by (intro tells_trans [OF _ tells_recover_with] tells_trans [OF _ tells_fields(1)] tells_trans [OF _ tells_bump] tells_refl)
    from tells_trans [OF m1 this] show ?thesis by (simp add: handle_video_def c Chain_gap)
  qed
qed

lemma tells_handle_audio: "tells m (handle_audio p ok m)"
proof -
  let ?m1 = "bump mt_audio_in_update 1 m"
  let ?m2 = "emit (Audio_out (ap_data p) (media_time_48k (ap_timestamp p))) (?m1\<lparr>mg_audio_seq := wrap_u u16_max (mg_audio_seq ?m1 + 1)\<rparr>)"
  have m2: "tells m ?m2" by (rule tells_trans [OF tells_trans [OF tells_bump tells_fields(6)] tells_emit]) simp
  show ?thesis by (simp only: handle_audio_def Let_def tells_if tells_bump tells_trans [OF m2 tells_bump])
qed

fun event_ok :: "host_event \<Rightarrow> bool" where
  "event_ok (Ev_cursor packet) = pointer_packet packet"
| "event_ok _ = True"

lemma tells_step: "event_ok e \<Longrightarrow> tells m (host_step e m)"
proof (cases e)
  case (Ev_video arriving r now)
  then show ?thesis using tells_trans [OF tells_fields(3) tells_handle_video] by (simp split: list.split)
next
  case (Ev_send_audio ok)
  then show ?thesis using tells_trans [OF tells_fields(4) tells_handle_audio] by (simp split: list.split)
next
  case (Ev_manager s wh s' now)
  then show ?thesis
    by (simp add: manager_tick_def tells_trans [OF tells_trans [OF tells_trans [OF tells_tick_quality tells_check_capture_state]
        tells_tick_stream_pause] tells_tick_host_idle])
qed (simp_all add: tells_encoded on_audio_packet_def tells_fields tells_drain tells_report_stream_stats tells_poll_cursor)

lemma tells_run: "\<forall>e \<in> set es. event_ok e \<Longrightarrow> tells m (host_run es m)"
  by (induction es arbitrary: m) (auto intro: tells_trans tells_step)


lemma pointer_ok_run: "pointer_ok m \<Longrightarrow> \<forall>e \<in> set es. event_ok e \<Longrightarrow> pointer_ok (host_run es m)"
  using tells_run [of es m] by (simp add: tells_def)

lemma pointer_ok_start: "pointer_ok (run_start wh (manager_new env host config ui pace t0))"
proof -
  have "mg_cursor_shape (run_start wh (manager_new env host config ui pace t0)) = None"
    "mg_cursor_last (run_start wh (manager_new env host config ui pace t0)) = None"
    by (simp_all add: run_start_def start_quality_def manager_new_def refresh_pacing_target_def apply_bitrate_kbps_def Let_def
        split: prod.split)
  then show ?thesis unfolding pointer_ok_def by simp
qed

lemma pointer_ok_joins: "pointer_ok (fold handle_viewer_joined us m) = pointer_ok m"
  by (induction us arbitrary: m) (simp_all add: joined_shows)

lemma tells_append:
  assumes "tells m m'" "pointer_ok m" "mg_out m = xs @ outs" "shows_stream m (watch v (controls outs))"
  shows "\<exists>outs. mg_out m' = xs @ outs \<and> shows_stream m' (watch v (controls outs))"
proof -
  from assms(1) obtain more where "mg_out m' = mg_out m @ more"
      "\<forall>v. pointer_ok m \<longrightarrow> shows_stream m v \<longrightarrow> shows_stream m' (watch v (controls more))"
    unfolding tells_def by blast
  with assms(2-4) show ?thesis by (intro exI [of _ "outs @ more"]) simp
qed

text \<open>C3: a viewer that joins a stream at any time, among others, and takes the control messages
  sent from its join on, shows at any later time what the host is: paused exactly when the host is,
  idle exactly when the host is, the rung the encoder runs at (clipped to the widths of the
  message), and the last pointer shape at the last position, or no pointer before the first shape.
  The native library is taken to write well-formed pointer packets.\<close>

theorem late_joiner_sees_the_stream:
  fixes env host config ui pace t0 wh es es' earlier later left feedback now viewer
  defines "before \<equiv> host_run es (run_start wh (manager_new env host config ui pace t0))"
  defines "m0 \<equiv> fold handle_viewer_joined earlier before"
    and "m \<equiv> host_run (Ev_feedback (earlier @ viewer # later) left feedback now # es') before"
  assumes ok: "\<forall>e \<in> set (es @ es'). event_ok e"
  shows "\<exists>outs v. mg_out m = mg_out m0 @ outs \<and> v = watch view_new (controls outs) \<and>
    slot_is_paused (vw_slot v) = pc_paused (mg_pause m) \<and> slot_is_host_idle (vw_slot v) = mg_idle m \<and>
    vf_rung (vw_format v) = Some (wire_rung (current_rung (mg_quality m))) \<and> shows_pointer m (vw_cursor v)"
proof -
  have m0: "pointer_ok m0"
    using pointer_ok_run [OF pointer_ok_start] ok by (simp add: m0_def before_def pointer_ok_joins)
  let ?m1 = "handle_viewer_joined viewer m0"
  have "tells ?m1 (fold handle_viewer_joined later ?m1)" by (rule tells_fold) (rule tells_viewer_joined)
  also note tells_after_joins [of _ now left feedback]
  also have "(let m2 = fold (\<lambda>v. handle_viewer_left v now) left (fold handle_viewer_joined later ?m1);
          m3 = fold (\<lambda>f. handle_video_feedback f now) feedback m2;
          m4 = fire_deferred_keyframe now m3
      in if mg_remb m4 \<noteq> [] then apply_remb_aggregate now m4 else apply_quality_bitrate now m4) =
      host_step (Ev_feedback (earlier @ viewer # later) left feedback now) before"
    by (simp only: host_step.simps drain_sink_events_def Let_def fold_append fold.simps comp_apply m0_def)
  also have "tells \<dots> m"
    unfolding m_def fold.simps comp_apply by (rule tells_run) (use ok in simp)
  finally have "tells ?m1 m" .
  moreover have "pointer_ok ?m1" "mg_out ?m1 = mg_out m0 @ Sink_joined viewer # map Control (replayed m0)"
    "shows_stream ?m1 (watch view_new (controls (Sink_joined viewer # map Control (replayed m0))))"
    using m0 joined_new [OF m0] by (simp_all add: joined_fields joined_shows)
  ultimately obtain outs where "mg_out m = mg_out m0 @ outs" "shows_stream m (watch view_new (controls outs))"
    using tells_append by blast
  then show ?thesis by (intro exI [of _ outs] exI [of _ "watch view_new (controls outs)"]) (simp add: shows_stream_def)
qed

text \<open>A host whose pointer was a 1 by 1 shape when the viewer joined, then moved.\<close>

lemma late_joiner_sees_the_stream_witness:
  "let before = host_run [Ev_cursor [2, 7, 0, 0, 0, 9, 0, 0, 0, 1, 1, 1, 0, 1, 0, 1, 2, 3, 4], Ev_stats]
         (run_start (0, 0) (manager_new None True (from_preset High H264) False pace_new 0));
       m = host_run [Ev_feedback [''v''] [] [] 0, Ev_cursor [2, 8, 0, 0, 0, 9, 0, 0, 0, 1, 0]] before
   in \<exists>outs. mg_out m = mg_out before @ outs \<and> shows_pointer m (vw_cursor (watch view_new (controls outs)))"
proof -
  let ?before = "host_run [Ev_cursor [2, 7, 0, 0, 0, 9, 0, 0, 0, 1, 1, 1, 0, 1, 0, 1, 2, 3, 4], Ev_stats]
         (run_start (0, 0) (manager_new None True (from_preset High H264) False pace_new 0))"
  have "\<forall>e \<in> set ([Ev_cursor [2, 7, 0, 0, 0, 9, 0, 0, 0, 1, 1, 1, 0, 1, 0, 1, 2, 3, 4], Ev_stats] @
      [Ev_cursor [2, 8, 0, 0, 0, 9, 0, 0, 0, 1, 0]]). event_ok e"
    by (simp add: pointer_packet_def control_message_from_native_def parse_cursor_message_def cursor_header_def
        cursor_message_type_def cursor_message_subtype_def slice_def Let_def max_cursor_side_def)
  from late_joiner_sees_the_stream [OF this, where earlier = "[]" and later = "[]" and left = "[]" and feedback = "[]" and
      viewer = "''v''" and env = None and host = True and config = "from_preset High H264" and ui = False and
      pace = pace_new and ?t0.0 = 0 and wh = "(0, 0)" and now = 0]
  show ?thesis by (simp only: Let_def append.simps fold.simps id_apply comp_apply) blast
qed

end
