(* ===== verification/Utf8_Text.thy ===== *)
theory Utf8_Text
  imports Prelude
begin

text \<open>
  The functions of Rust's \<open>str\<close> that the source calls. A \<open>str\<close> is the list of its UTF-8 bytes, a
  \<open>char\<close> of it the bytes of one code point. What only looks at ASCII characters works on the bytes:
  no byte of a longer code point is one of them. The tables of Unicode (upper and lower case) are
  arguments of the functions that use them.
\<close>

section \<open>ASCII\<close>

definition ascii_lower_char :: "char \<Rightarrow> char" where
  "ascii_lower_char c = (let n = of_char c :: nat in if 65 \<le> n \<and> n \<le> 90 then char_of (n + 32) else c)"

definition to_ascii_lowercase :: "string \<Rightarrow> string" where
  "to_ascii_lowercase = map ascii_lower_char"

definition ascii_digit :: "char \<Rightarrow> bool" where
  "ascii_digit c \<longleftrightarrow> (let n = of_char c :: nat in 48 \<le> n \<and> n \<le> 57)"

definition ascii_alphanumeric :: "char \<Rightarrow> bool" where
  "ascii_alphanumeric c \<longleftrightarrow>
     (let n = of_char c :: nat in 48 \<le> n \<and> n \<le> 57 \<or> 65 \<le> n \<and> n \<le> 90 \<or> 97 \<le> n \<and> n \<le> 122)"

definition ends_with :: "'a list \<Rightarrow> 'a list \<Rightarrow> bool" where
  "ends_with s suf \<longleftrightarrow> length suf \<le> length s \<and> drop (length s - length suf) s = suf"

text \<open>\<open>trim_end_matches\<close> with a text takes it off as often as it is there.\<close>

function trim_end_matches :: "'a list \<Rightarrow> 'a list \<Rightarrow> 'a list" where
  "trim_end_matches suf s =
     (if suf \<noteq> [] \<and> ends_with s suf then trim_end_matches suf (take (length s - length suf) s) else s)"
  by pat_completeness auto
termination
  by (relation "measure (\<lambda>(suf, s). length s)") (auto simp: ends_with_def length_greater_0_conv [symmetric] simp del: length_greater_0_conv)

declare trim_end_matches.simps [simp del]

text \<open>\<open>s.trim().is_empty()\<close>: only white space, which in UTF-8 takes one, two or three bytes.\<close>

definition white3 :: "nat \<Rightarrow> nat \<Rightarrow> nat \<Rightarrow> bool" where
  "white3 a b c \<longleftrightarrow> a = 225 \<and> b = 154 \<and> c = 128 \<or>
     a = 226 \<and> (b = 128 \<and> (128 \<le> c \<and> c \<le> 138 \<or> c = 168 \<or> c = 169 \<or> c = 175) \<or> b = 129 \<and> c = 159) \<or>
     a = 227 \<and> b = 128 \<and> c = 128"

fun blank :: "nat list \<Rightarrow> bool" where
  "blank [] \<longleftrightarrow> True"
| "blank (a # r) \<longleftrightarrow>
     (if a = 32 \<or> 9 \<le> a \<and> a \<le> 13 then blank r
      else case r of
        b # r' \<Rightarrow>
          if a = 194 \<and> (b = 133 \<or> b = 160) then blank r'
          else (case r' of c # r'' \<Rightarrow> white3 a b c \<and> blank r'' | [] \<Rightarrow> False)
      | [] \<Rightarrow> False)"

definition is_blank :: "string \<Rightarrow> bool" where
  "is_blank s \<longleftrightarrow> blank (map of_char s)"

definition eq_ignore_case :: "string \<Rightarrow> string \<Rightarrow> bool" where
  "eq_ignore_case a b \<longleftrightarrow> to_ascii_lowercase a = to_ascii_lowercase b"

fun starts_with :: "'a list \<Rightarrow> 'a list \<Rightarrow> bool" where
  "starts_with s [] \<longleftrightarrow> True"
| "starts_with [] (p # ps) \<longleftrightarrow> False"
| "starts_with (c # s) (p # ps) \<longleftrightarrow> c = p \<and> starts_with s ps"

fun contains :: "'a list \<Rightarrow> 'a list \<Rightarrow> bool" where
  "contains [] sub \<longleftrightarrow> sub = []"
| "contains (c # s) sub \<longleftrightarrow> starts_with (c # s) sub \<or> contains s sub"

text \<open>\<open>split\<close> on a character: one piece more than there are separators.\<close>

fun split_on :: "('a \<Rightarrow> bool) \<Rightarrow> 'a list \<Rightarrow> 'a list list" where
  "split_on P [] = [[]]"
| "split_on P (c # s) =
     (if P c then [] # split_on P s else case split_on P s of [] \<Rightarrow> [[c]] | p # ps \<Rightarrow> (c # p) # ps)"

text \<open>\<open>split_once\<close> and the second piece of \<open>split\<close> with a text.\<close>

fun split_once :: "'a list \<Rightarrow> 'a list \<Rightarrow> ('a list \<times> 'a list) option" where
  "split_once sep [] = (if sep = [] then Some ([], []) else None)"
| "split_once sep (c # s) =
     (if starts_with (c # s) sep then Some ([], drop (length sep) (c # s))
      else map_option (\<lambda>(a, b). (c # a, b)) (split_once sep s))"

definition split_second :: "'a list \<Rightarrow> 'a list \<Rightarrow> 'a list option" where
  "split_second sep s =
     map_option (\<lambda>(_, rest). case split_once sep rest of None \<Rightarrow> rest | Some (piece, _) \<Rightarrow> piece) (split_once sep s)"

definition split_first :: "'a list \<Rightarrow> 'a list \<Rightarrow> 'a list" where
  "split_first sep s = (case split_once sep s of None \<Rightarrow> s | Some (piece, _) \<Rightarrow> piece)"

definition strip_prefix :: "'a list \<Rightarrow> 'a list \<Rightarrow> 'a list option" where
  "strip_prefix pre s = (if starts_with s pre then Some (drop (length pre) s) else None)"

definition strip_suffix :: "'a list \<Rightarrow> 'a list \<Rightarrow> 'a list option" where
  "strip_suffix suf s = (if ends_with s suf then Some (take (length s - length suf) s) else None)"

lemma split_on_nonempty [simp]: "split_on P s \<noteq> []"
  by (induction s) (auto split: list.split)

lemma split_on_append: "P c \<Longrightarrow> split_on P (a @ c # b) = split_on P a @ split_on P b"
proof (induction a)
  case (Cons x a)
  obtain p ps where "split_on P a = p # ps" by (cases "split_on P a") auto
  with Cons show ?case by simp
qed simp

lemma split_on_none: "\<forall>c \<in> set b. \<not> P c \<Longrightarrow> split_on P b = [b]"
  by (induction b) auto

lemma split_on_map: "(\<And>c. P (f c) = P c) \<Longrightarrow> split_on P (map f s) = map (map f) (split_on P s)"
  by (induction s) (auto split: list.split)

definition newline :: char where "newline = CHR 0x0A"
definition backslash :: char where "backslash = CHR 0x5C"
definition quote :: char where "quote = CHR 0x22"

text \<open>\<open>lines\<close>: the text after the last line break is a line only when it is not empty, and a carriage
  return before a line break is taken off with it.\<close>

definition lines :: "string \<Rightarrow> string list" where
  "lines s =
     (let ps = split_on (\<lambda>c. c = newline) s;
          strip = (\<lambda>l. if l \<noteq> [] \<and> last l = CHR 0x0D then butlast l else l)
      in map strip (butlast ps) @ (if last ps = [] then [] else [last ps]))"

fun replace_all :: "'a \<Rightarrow> 'a list \<Rightarrow> 'a list \<Rightarrow> 'a list" where
  "replace_all c by' [] = []"
| "replace_all c by' (x # xs) = (if x = c then by' @ replace_all c by' xs else x # replace_all c by' xs)"

section \<open>Code points\<close>

definition continuation :: "char \<Rightarrow> bool" where
  "continuation c \<longleftrightarrow> (let n = of_char c :: nat in 128 \<le> n \<and> n < 192)"

function chars :: "string \<Rightarrow> string list" where
  "chars [] = []"
| "chars (c # s) = (c # takeWhile continuation s) # chars (dropWhile continuation s)"
  by pat_completeness auto
termination
  by (relation "measure length") (auto simp: le_imp_less_Suc length_dropWhile_le)

lemma concat_chars [simp]: "concat (chars s) = s"
  by (induction s rule: chars.induct) simp_all

definition white_char :: "string \<Rightarrow> bool" where
  "white_char c \<longleftrightarrow> c \<noteq> [] \<and> is_blank c"

definition trim_text :: "string \<Rightarrow> string" where
  "trim_text s = concat (rev (dropWhile white_char (rev (dropWhile white_char (chars s)))))"

definition trim_end_text :: "string \<Rightarrow> string" where
  "trim_end_text s = concat (rev (dropWhile white_char (rev (chars s))))"

definition split_whitespace :: "string \<Rightarrow> string list" where
  "split_whitespace s = map concat (filter (\<lambda>w. w \<noteq> []) (split_on white_char (chars s)))"

text \<open>\<open>str::from_utf8\<close>: the byte sequences that are well formed.\<close>

fun utf8_valid :: "nat list \<Rightarrow> bool" where
  "utf8_valid [] \<longleftrightarrow> True"
| "utf8_valid (a # r) \<longleftrightarrow>
     (if a < 128 then utf8_valid r
      else if 194 \<le> a \<and> a < 224 then (case r of b # r' \<Rightarrow> 128 \<le> b \<and> b < 192 \<and> utf8_valid r' | [] \<Rightarrow> False)
      else if 224 \<le> a \<and> a < 240 then
        (case r of b # c # r' \<Rightarrow>
            (if a = 224 then 160 else 128) \<le> b \<and> b < (if a = 237 then 160 else 192) \<and> 128 \<le> c \<and> c < 192 \<and> utf8_valid r'
         | _ \<Rightarrow> False)
      else if 240 \<le> a \<and> a < 245 then
        (case r of b # c # d # r' \<Rightarrow>
            (if a = 240 then 144 else 128) \<le> b \<and> b < (if a = 244 then 144 else 192) \<and> 128 \<le> c \<and> c < 192 \<and>
            128 \<le> d \<and> d < 192 \<and> utf8_valid r'
         | _ \<Rightarrow> False)
      else False)"

definition utf8_text :: "nat list \<Rightarrow> string option" where
  "utf8_text bs = (if utf8_valid bs then Some (map char_of bs) else None)"

end
