(* ===== verification/Game_Sensing.thy ===== *)
theory Game_Sensing
  imports Machine Utf8_Text "HOL-Library.AList" "HOL-Library.Product_Lexorder"
begin

text \<open>
  The game sensor (\<open>game_sensing.rs\<close>): its scan loop over the process table, with the session store
  of \<open>session_store.rs\<close>. Texts are those of \<open>Utf8_Text\<close>, a time in Unix milliseconds an
  integer. A hash map is an association list with distinct keys; the order in which Rust visits
  it is unspecified, so each visit goes through \<open>ord\<close>, an argument that may reorder the keys.
\<close>

section \<open>Data\<close>

definition game_scan_interval :: duration where "game_scan_interval = secs 15"
definition game_scan_interval_active :: duration where "game_scan_interval_active = secs 4"
definition active_cadence_scans :: nat where "active_cadence_scans = 8"
definition library_rescan_scans :: nat where "library_rescan_scans = 20"
definition windowless_grace_scans :: nat where "windowless_grace_scans = 2"
definition process_capacity_headroom :: nat where "process_capacity_headroom = 128"
definition max_enumeration_attempts :: nat where "max_enumeration_attempts = 4"

record raw_process =
  rp_pid :: nat
  rp_name :: string
  rp_exe :: string
  rp_is_fullscreen :: bool
  rp_path :: string
  rp_window_title :: string
  rp_is_foreground :: bool
  rp_started_at_ms :: int
  rp_is_minimized :: bool

record active_game =
  ag_game_id :: string
  ag_game_name :: string
  ag_short_name :: string
  ag_color :: string
  ag_exe :: string
  ag_exe_path :: string
  ag_pid :: nat
  ag_igdb_id :: "nat option"
  ag_started_at :: int
  ag_started_at_ms :: int
  ag_foreground_ms :: int

record matched =
  md_game_id :: string
  md_game_name :: string
  md_short_name :: string
  md_color :: string
  md_igdb_id :: "nat option"

text \<open>The entries of a library scan are read by another component and left out here.\<close>

datatype game_event =
    Game_started active_game | Game_stopped active_game int | Primary_changed "string option" | Foreground string int
  | Library_scanned

record persisted_session =
  pe_pid :: nat
  pe_started_at_ms :: int
  pe_game_id :: string
  pe_game_name :: string
  pe_short_name :: string
  pe_color :: string
  pe_exe :: string
  pe_exe_path :: string
  pe_last_seen_ms :: int
  pe_foreground_ms :: int

text \<open>
  The variables of \<open>scan_loop\<close>; \<open>sn_saved\<close> is what it last gave the store, \<open>sn_out\<close> what it sent.
\<close>

record sensor =
  sn_active :: "(nat \<times> active_game) list"
  sn_shadow :: "(nat \<times> string) list"
  sn_primary :: "nat option"
  sn_windowless :: "(nat \<times> nat) list"
  sn_last_scan :: "instant option"
  sn_orphans :: "persisted_session list"
  sn_since_refresh :: nat
  sn_fast_left :: nat
  sn_saved :: "persisted_session list option"
  sn_out :: "game_event list"

definition sensor_new :: "persisted_session list \<Rightarrow> sensor" where
  "sensor_new orphans =
     \<lparr>sn_active = [], sn_shadow = [], sn_primary = None, sn_windowless = [], sn_last_scan = None, sn_orphans = orphans,
      sn_since_refresh = 0, sn_fast_left = active_cadence_scans, sn_saved = None, sn_out = [Library_scanned]\<rparr>"

definition tell :: "game_event \<Rightarrow> sensor \<Rightarrow> sensor" where
  "tell e s = s\<lparr>sn_out := sn_out s @ [e]\<rparr>"

section \<open>Which processes are games being played\<close>

definition grown_capacity :: "nat \<Rightarrow> nat \<Rightarrow> nat option" where
  "grown_capacity n capacity = (if n > capacity then Some (n + process_capacity_headroom) else None)"

text \<open>
  The attempts of \<open>enumerate_game_processes\<close>: \<open>totals\<close> are the sizes that libmello reports, one per
  attempt. The result is the buffer's size for the next scan and the number of entries read.
\<close>

function enumerate_attempts :: "nat \<Rightarrow> (nat \<Rightarrow> int) \<Rightarrow> nat \<Rightarrow> nat \<times> nat" where
  "enumerate_attempts attempt totals capacity =
     (let n = nat (max (totals attempt) 0)
      in case grown_capacity n capacity of
           Some next \<Rightarrow>
             if attempt < max_enumeration_attempts then enumerate_attempts (attempt + 1) totals next
             else (capacity, capacity)
         | None \<Rightarrow> (capacity, n))"
  by pat_completeness auto
termination
  by (relation "measure (\<lambda>(a, _, _). max_enumeration_attempts - a)") auto

declare enumerate_attempts.simps [simp del]

definition detect_games :: "(raw_process \<Rightarrow> matched option) \<Rightarrow> raw_process list \<Rightarrow> int \<Rightarrow> active_game list" where
  "detect_games resolve processes now =
     List.map_filter (\<lambda>p. map_option (\<lambda>m.
       \<lparr>ag_game_id = md_game_id m, ag_game_name = md_game_name m, ag_short_name = md_short_name m, ag_color = md_color m,
        ag_exe = rp_exe p, ag_exe_path = rp_path p, ag_pid = rp_pid p, ag_igdb_id = md_igdb_id m,
        ag_started_at = (if rp_started_at_ms p > 0 then rp_started_at_ms p else now),
        ag_started_at_ms = rp_started_at_ms p, ag_foreground_ms = 0\<rparr>) (resolve p)) processes"

definition has_window :: "raw_process list \<Rightarrow> nat \<Rightarrow> bool" where
  "has_window processes pid =
     (case List.find (\<lambda>p. rp_pid p = pid) processes of None \<Rightarrow> False | Some p \<Rightarrow> \<not> is_blank (rp_window_title p))"

fun windowless_loop ::
  "raw_process list \<Rightarrow> active_game list \<Rightarrow> (nat \<times> nat) list \<Rightarrow> active_game list \<times> (nat \<times> nat) list" where
  "windowless_loop processes [] seen = ([], seen)"
| "windowless_loop processes (g # gs) seen =
     (if has_window processes (ag_pid g)
      then case windowless_loop processes gs (AList.delete (ag_pid g) seen) of (kept, seen') \<Rightarrow> (g # kept, seen')
      else
        let misses = wrap_u u32_max ((case map_of seen (ag_pid g) of None \<Rightarrow> 0 | Some n \<Rightarrow> n) + 1)
        in case windowless_loop processes gs (AList.update (ag_pid g) misses seen) of
             (kept, seen') \<Rightarrow> (if misses \<le> windowless_grace_scans then g # kept else kept, seen'))"

definition drop_windowless ::
  "active_game list \<Rightarrow> raw_process list \<Rightarrow> (nat \<times> nat) list \<Rightarrow> active_game list \<times> (nat \<times> nat) list" where
  "drop_windowless detected processes seen =
     (case windowless_loop processes detected seen of
        (kept, seen') \<Rightarrow> (kept, filter (\<lambda>(pid, _). pid \<in> ag_pid ` set detected) seen'))"

definition startable_pids :: "active_game list \<Rightarrow> raw_process list \<Rightarrow> nat list" where
  "startable_pids detected processes =
     map ag_pid (filter (\<lambda>g.
       case List.find (\<lambda>p. rp_pid p = ag_pid g) processes of
         None \<Rightarrow> False
       | Some p \<Rightarrow> \<not> is_blank (rp_window_title p) \<and> \<not> rp_is_minimized p) detected)"


section \<open>The session store\<close>

definition resume_matches :: "persisted_session \<Rightarrow> nat \<Rightarrow> int \<Rightarrow> bool" where
  "resume_matches p live_pid live_started_at \<longleftrightarrow>
     pe_pid p = live_pid \<and> pe_started_at_ms p \<noteq> 0 \<and> live_started_at \<noteq> 0 \<and> pe_started_at_ms p = live_started_at"

definition persisted_of :: "int \<Rightarrow> active_game \<Rightarrow> persisted_session" where
  "persisted_of now g =
     \<lparr>pe_pid = ag_pid g, pe_started_at_ms = ag_started_at_ms g, pe_game_id = ag_game_id g, pe_game_name = ag_game_name g,
      pe_short_name = ag_short_name g, pe_color = ag_color g, pe_exe = ag_exe g, pe_exe_path = ag_exe_path g,
      pe_last_seen_ms = now, pe_foreground_ms = ag_foreground_ms g\<rparr>"

definition game_of_orphan :: "persisted_session \<Rightarrow> active_game" where
  "game_of_orphan o' =
     \<lparr>ag_game_id = pe_game_id o', ag_game_name = pe_game_name o', ag_short_name = pe_short_name o', ag_color = pe_color o',
      ag_exe = pe_exe o', ag_exe_path = pe_exe_path o', ag_pid = pe_pid o', ag_igdb_id = None,
      ag_started_at = pe_started_at_ms o', ag_started_at_ms = pe_started_at_ms o', ag_foreground_ms = pe_foreground_ms o'\<rparr>"

text \<open>\<open>save\<close> and \<open>take\<close> of the store's file; \<open>take\<close> removes the file it read.\<close>

definition store_save ::
  "(persisted_session list \<Rightarrow> 'j option) \<Rightarrow> 'j write_outcome \<Rightarrow> 'p option \<Rightarrow> persisted_session list \<Rightarrow>
   ('p \<rightharpoonup> 'j) \<Rightarrow> ('p \<rightharpoonup> 'j)" where
  "store_save enc w path sessions d =
     (case path of
        None \<Rightarrow> d
      | Some p \<Rightarrow>
          if sessions = [] then remove_file w p d
          else (case enc sessions of None \<Rightarrow> d | Some j \<Rightarrow> write_file w p j d))"

definition store_take ::
  "('j \<Rightarrow> persisted_session list option) \<Rightarrow> 'j write_outcome \<Rightarrow> 'p option \<Rightarrow> ('p \<rightharpoonup> 'j) \<Rightarrow>
   persisted_session list \<times> ('p \<rightharpoonup> 'j)" where
  "store_take dec w path d =
     (case path of
        None \<Rightarrow> ([], d)
      | Some p \<Rightarrow>
          (case d p of
             None \<Rightarrow> ([], d)
           | Some j \<Rightarrow> ((case dec j of None \<Rightarrow> [] | Some es \<Rightarrow> es), remove_file w p d)))"

section \<open>One scan\<close>

definition hash_keys :: "('k list \<Rightarrow> 'k list) \<Rightarrow> ('k \<times> 'v) list \<Rightarrow> 'k list" where
  "hash_keys ord m = ord (map fst m)"

definition hash_first :: "('k list \<Rightarrow> 'k list) \<Rightarrow> ('k \<times> 'v) list \<Rightarrow> 'k option" where
  "hash_first ord m = (case hash_keys ord m of [] \<Rightarrow> None | k # _ \<Rightarrow> Some k)"

definition hash_collect :: "('k \<times> 'v) list \<Rightarrow> ('k \<times> 'v) list" where
  "hash_collect kvs = fold (\<lambda>(k, v). AList.update k v) kvs []"

text \<open>The first of the elements whose key is least, as \<open>min_by_key\<close> takes it.\<close>

definition min_by_key :: "('a \<Rightarrow> 'k::linorder) \<Rightarrow> 'a list \<Rightarrow> 'a option" where
  "min_by_key key xs = (case sort_key key xs of [] \<Rightarrow> None | x # _ \<Rightarrow> Some x)"

definition auxiliary_suffixes :: "string list" where
  "auxiliary_suffixes =
     [''launcher'', ''updater'', ''update'', ''patcher'', ''setup'', ''installer'', ''uninstall'', ''crashhandler'',
      ''crashreporter'', ''crashpad'', ''errorreporter'', ''helper'', ''service'', ''services'', ''daemon'', ''server'',
      ''config'', ''settings'', ''benchmark'']"

definition is_auxiliary_binary :: "string \<Rightarrow> bool" where
  "is_auxiliary_binary exe_lower \<longleftrightarrow>
     (let squashed = filter ascii_alphanumeric (trim_end_matches ''.exe'' exe_lower);
          had_digits = (squashed \<noteq> [] \<and> ascii_digit (last squashed));
          s1 = rev (dropWhile ascii_digit (rev squashed));
          s2 = (if had_digits \<and> s1 \<noteq> [] \<and> last s1 = CHR ''x'' then butlast s1 else s1)
      in \<exists>suf \<in> set auxiliary_suffixes. ends_with s2 suf)"

definition accumulate_foreground_ms :: "int \<Rightarrow> bool \<Rightarrow> int \<Rightarrow> int" where
  "accumulate_foreground_ms carried is_foreground elapsed_ms = wrap_i64 (carried + (if is_foreground then elapsed_ms else 0))"

definition any_foreground_for_game :: "string \<Rightarrow> (nat \<times> active_game) list \<Rightarrow> raw_process list \<Rightarrow> bool" where
  "any_foreground_for_game game_id live processes \<longleftrightarrow>
     (\<exists>(pid, g) \<in> set live. ag_game_id g = game_id \<and>
        (\<exists>p \<in> set processes. rp_pid p = pid \<and> (rp_is_foreground p \<or> rp_is_fullscreen p)))"

definition representative_pid :: "(nat list \<Rightarrow> nat list) \<Rightarrow> (nat \<times> active_game) list \<Rightarrow> string \<Rightarrow> nat option" where
  "representative_pid ord active game_id =
     List.find (\<lambda>p. map_option ag_game_id (map_of active p) = Some game_id) (hash_keys ord active)"

definition representative_rank :: "active_game \<Rightarrow> nat \<times> nat" where
  "representative_rank g = (of_bool (is_auxiliary_binary (to_ascii_lowercase (ag_exe g))), ag_pid g)"

definition should_upgrade_representative :: "active_game \<Rightarrow> active_game \<Rightarrow> bool" where
  "should_upgrade_representative rep candidate \<longleftrightarrow>
     is_auxiliary_binary (to_ascii_lowercase (ag_exe rep)) \<and> \<not> is_auxiliary_binary (to_ascii_lowercase (ag_exe candidate))"

text \<open>A session moves to another process of its game: it keeps its start and its foreground time.\<close>

definition inherit :: "active_game \<Rightarrow> active_game \<Rightarrow> active_game" where
  "inherit old g = g\<lparr>ag_foreground_ms := ag_foreground_ms old, ag_started_at := ag_started_at old,
     ag_started_at_ms := ag_started_at_ms old\<rparr>"

definition upgrade_representative :: "nat \<Rightarrow> nat \<Rightarrow> active_game \<Rightarrow> sensor \<Rightarrow> sensor" where
  "upgrade_representative old_pid new_pid candidate s =
     (case map_of (sn_active s) old_pid of
        None \<Rightarrow> s\<lparr>sn_active := AList.update new_pid candidate (sn_active s)\<rparr>
      | Some old \<Rightarrow>
          s\<lparr>sn_active := AList.update new_pid (inherit old candidate) (AList.delete old_pid (sn_active s)),
            sn_shadow := AList.update old_pid (ag_game_id candidate) (sn_shadow s)\<rparr>)"

definition start_one ::
  "(nat list \<Rightarrow> nat list) \<Rightarrow> nat \<times> active_game \<Rightarrow> string list \<times> sensor \<Rightarrow> string list \<times> sensor" where
  "start_one ord = (\<lambda>(pid, game) (opened, s).
     let shadowed = s\<lparr>sn_shadow := AList.update pid (ag_game_id game) (sn_shadow s)\<rparr>
     in case representative_pid ord (sn_active s) (ag_game_id game) of
          Some rep_pid \<Rightarrow>
            (opened, case map_of (sn_active s) rep_pid of
               None \<Rightarrow> s
             | Some rep \<Rightarrow>
                 if should_upgrade_representative rep game then upgrade_representative rep_pid pid game s else shadowed)
        | None \<Rightarrow>
            if ag_game_id game \<in> set opened then (opened, shadowed)
            else (ag_game_id game # opened,
                  tell (Game_started game) (s\<lparr>sn_active := AList.update pid game (sn_active s)\<rparr>)))"

definition coalesce_starts ::
  "(nat list \<Rightarrow> nat list) \<Rightarrow> (nat \<times> active_game) list \<Rightarrow> nat list \<Rightarrow> sensor \<Rightarrow> bool \<times> sensor" where
  "coalesce_starts ord live startable s =
     (let newcomers = sort_key (\<lambda>(_, g). representative_rank g)
            (filter (\<lambda>(pid, _). map_of (sn_active s) pid = None \<and> map_of (sn_shadow s) pid = None \<and> pid \<in> set startable)
              live)
      in case fold (start_one ord) newcomers ([], s) of (opened, s') \<Rightarrow> (opened \<noteq> [], s'))"

definition stop_one ::
  "(nat list \<Rightarrow> nat list) \<Rightarrow> (nat \<times> active_game) list \<Rightarrow> nat list \<Rightarrow> int \<Rightarrow> nat \<Rightarrow> bool \<times> sensor \<Rightarrow> bool \<times> sensor" where
  "stop_one ord live startable now rep_pid = (\<lambda>(changed, s).
     case map_of (sn_active s) rep_pid of
       None \<Rightarrow> (changed, s)
     | Some session \<Rightarrow>
         let s1 = s\<lparr>sn_active := AList.delete rep_pid (sn_active s)\<rparr>
         in case min_by_key (\<lambda>(_, g). representative_rank g)
                (filter (\<lambda>(pid, g). ag_game_id g = ag_game_id session \<and> pid \<in> set startable) live) of
              Some (new_pid, new_game) \<Rightarrow>
                (changed,
                 s1\<lparr>sn_active := AList.update new_pid (inherit session new_game) (sn_active s1),
                   sn_shadow := AList.delete new_pid (sn_shadow s1),
                   sn_primary := (if sn_primary s1 = Some rep_pid then Some new_pid else sn_primary s1)\<rparr>)
            | None \<Rightarrow>
                (True, tell (Game_stopped session now)
                  (s1\<lparr>sn_primary := (if sn_primary s1 = Some rep_pid then hash_first ord (sn_active s1) else sn_primary s1)\<rparr>)))"

definition coalesce_stops ::
  "(nat list \<Rightarrow> nat list) \<Rightarrow> (nat \<times> active_game) list \<Rightarrow> nat list \<Rightarrow> int \<Rightarrow> sensor \<Rightarrow> bool \<times> sensor" where
  "coalesce_stops ord live startable now s =
     (let s1 = s\<lparr>sn_shadow := filter (\<lambda>(pid, _). map_of live pid \<noteq> None) (sn_shadow s)\<rparr>;
          gone_reps = filter (\<lambda>pid. map_of live pid = None) (hash_keys ord (sn_active s1))
      in fold (stop_one ord live startable now) gone_reps (False, s1))"


definition recover_one :: "active_game list \<Rightarrow> persisted_session \<Rightarrow> sensor \<Rightarrow> sensor" where
  "recover_one detected orphan s =
     (case List.find (\<lambda>g. resume_matches orphan (ag_pid g) (ag_started_at_ms g)) detected of
        Some live \<Rightarrow>
          let resumed = live\<lparr>ag_foreground_ms := pe_foreground_ms orphan\<rparr>
          in tell (Game_started resumed) (s\<lparr>sn_active := AList.update (ag_pid resumed) resumed (sn_active s)\<rparr>)
      | None \<Rightarrow> tell (Game_stopped (game_of_orphan orphan) (pe_last_seen_ms orphan)) s)"

definition recover_orphans :: "active_game list \<Rightarrow> sensor \<Rightarrow> sensor" where
  "recover_orphans detected s = fold (recover_one detected) (sn_orphans s) (s\<lparr>sn_orphans := []\<rparr>)"

definition credit_one :: "(nat \<times> active_game) list \<Rightarrow> raw_process list \<Rightarrow> int \<Rightarrow> nat \<Rightarrow> sensor \<Rightarrow> sensor" where
  "credit_one live processes elapsed_ms pid s =
     (case map_of (sn_active s) pid of
        None \<Rightarrow> s
      | Some session \<Rightarrow>
          let total = accumulate_foreground_ms (ag_foreground_ms session)
                (any_foreground_for_game (ag_game_id session) live processes) elapsed_ms
          in if total = ag_foreground_ms session then s
             else tell (Foreground (ag_game_id session) total)
               (s\<lparr>sn_active := AList.update pid (session\<lparr>ag_foreground_ms := total\<rparr>) (sn_active s)\<rparr>))"

definition credit_foreground ::
  "(nat list \<Rightarrow> nat list) \<Rightarrow> (nat \<times> active_game) list \<Rightarrow> raw_process list \<Rightarrow> int \<Rightarrow> sensor \<Rightarrow> sensor" where
  "credit_foreground ord live processes elapsed_ms s =
     fold (credit_one live processes elapsed_ms) (hash_keys ord (sn_active s)) s"

definition primary_rank :: "(nat \<times> active_game) list \<Rightarrow> raw_process list \<Rightarrow> nat \<Rightarrow> nat \<times> int \<times> nat" where
  "primary_rank active processes pid =
     (let tier = (case List.find (\<lambda>p. rp_pid p = pid) processes of
            None \<Rightarrow> 2
          | Some p \<Rightarrow> if rp_is_foreground p then 0 else if rp_is_fullscreen p then 1 else 2)
      in (tier, (case map_of active pid of None \<Rightarrow> 0 | Some g \<Rightarrow> ag_started_at g), pid))"

definition pick_primary ::
  "(nat list \<Rightarrow> nat list) \<Rightarrow> (nat \<times> active_game) list \<Rightarrow> raw_process list \<Rightarrow> nat option" where
  "pick_primary ord active processes = min_by_key (primary_rank active processes) (hash_keys ord active)"

definition settle_primary :: "(nat list \<Rightarrow> nat list) \<Rightarrow> raw_process list \<Rightarrow> sensor \<Rightarrow> sensor" where
  "settle_primary ord processes s =
     (let next = pick_primary ord (sn_active s) processes
      in if next = sn_primary s then s
         else tell (Primary_changed (map_option ag_game_id (Option.bind next (map_of (sn_active s))))) (s\<lparr>sn_primary := next\<rparr>))"

definition persist :: "(nat list \<Rightarrow> nat list) \<Rightarrow> int \<Rightarrow> sensor \<Rightarrow> sensor" where
  "persist ord now s =
     s\<lparr>sn_saved := Some (map (persisted_of now) (List.map_filter (map_of (sn_active s)) (hash_keys ord (sn_active s))))\<rparr>"

text \<open>
  What one scan finds: the process table, the wall clock, the steady clock, the order of visits, and
  the game of a process by the catalogue and the library of the time.
\<close>

record scan_input =
  si_processes :: "raw_process list"
  si_now :: int
  si_instant :: instant
  si_order :: "nat list \<Rightarrow> nat list"
  si_resolve :: "raw_process \<Rightarrow> matched option"

text \<open>
  One turn of the loop, until its sleep, in parts. \<open>window_ends_session\<close> is the constant of the
  platform and \<open>si_resolve\<close> names the game of a process.
\<close>

definition scan_elapsed :: "scan_input \<Rightarrow> sensor \<Rightarrow> int" where
  "scan_elapsed i s = (case sn_last_scan s of None \<Rightarrow> 0
     | Some prev \<Rightarrow> wrap_i64 (int (duration_since (si_instant i) prev div 1000000)))"

definition scan_detected :: "bool \<Rightarrow> scan_input \<Rightarrow> sensor \<Rightarrow> active_game list \<times> (nat \<times> nat) list" where
  "scan_detected window_ends_session i s =
     (let detected = detect_games (si_resolve i) (si_processes i) (si_now i)
      in if window_ends_session then drop_windowless detected (si_processes i) (sn_windowless s)
         else (detected, sn_windowless s))"

definition scan_startable :: "bool \<Rightarrow> scan_input \<Rightarrow> sensor \<Rightarrow> nat list" where
  "scan_startable window_ends_session i s =
     (let detected = fst (scan_detected window_ends_session i s)
      in if window_ends_session then startable_pids detected (si_processes i) else map ag_pid detected)"

definition scan_live :: "bool \<Rightarrow> scan_input \<Rightarrow> sensor \<Rightarrow> (nat \<times> active_game) list" where
  "scan_live window_ends_session i s =
     hash_collect (map (\<lambda>g. (ag_pid g, g)) (fst (scan_detected window_ends_session i s)))"

definition scan_recovered :: "bool \<Rightarrow> scan_input \<Rightarrow> sensor \<Rightarrow> sensor" where
  "scan_recovered window_ends_session i s =
     (case scan_detected window_ends_session i s of
        (detected, windowless) \<Rightarrow>
          recover_orphans detected (s\<lparr>sn_last_scan := Some (si_instant i), sn_windowless := windowless\<rparr>))"

text \<open>The diff of the live set against what was tracked, then the foreground time and the primary.\<close>

definition scan_diffed :: "bool \<Rightarrow> scan_input \<Rightarrow> sensor \<Rightarrow> bool \<times> sensor" where
  "scan_diffed window_ends_session i s =
     (let ord = si_order i; live = scan_live window_ends_session i s; startable = scan_startable window_ends_session i s;
          (started, s1) = coalesce_starts ord live startable (scan_recovered window_ends_session i s);
          (stopped, s2) = coalesce_stops ord live startable (si_now i) s1
      in (started \<or> stopped, s2))"

definition scan_credited :: "bool \<Rightarrow> scan_input \<Rightarrow> sensor \<Rightarrow> sensor" where
  "scan_credited window_ends_session i s =
     settle_primary (si_order i) (si_processes i)
       (credit_foreground (si_order i) (scan_live window_ends_session i s) (si_processes i) (scan_elapsed i s)
         (snd (scan_diffed window_ends_session i s)))"

definition library_turn :: "sensor \<Rightarrow> sensor" where
  "library_turn s =
     (if sn_since_refresh s + 1 \<ge> library_rescan_scans then tell Library_scanned (s\<lparr>sn_since_refresh := 0\<rparr>)
      else s\<lparr>sn_since_refresh := sn_since_refresh s + 1\<rparr>)"

text \<open>The result also says how long the loop sleeps.\<close>

definition scan_once :: "bool \<Rightarrow> scan_input \<Rightarrow> sensor \<Rightarrow> duration \<times> sensor" where
  "scan_once window_ends_session i s =
     (let s1 = persist (si_order i) (si_now i) (scan_credited window_ends_session i s);
          fast = (if fst (scan_diffed window_ends_session i s) then active_cadence_scans else sn_fast_left s1)
      in (if fast > 0 then game_scan_interval_active else game_scan_interval,
          library_turn (s1\<lparr>sn_fast_left := fast - 1\<rparr>)))"

abbreviation scans :: "bool \<Rightarrow> scan_input list \<Rightarrow> sensor \<Rightarrow> sensor" where
  "scans w is s \<equiv> fold (\<lambda>i s. snd (scan_once w i s)) is s"

end
