(* ===== verification/Game_Session.thy ===== *)
theory Game_Session
  imports Game_Sensing
begin

text \<open>
  The open game sessions of the client (\<open>game_state.rs\<close>), fed by the events of the game sensor
  (\<open>Game_Sensing\<close>) and by those of the telemetry adapters (\<open>telemetry/mod.rs\<close>). The two hash maps
  are association lists with distinct keys; where Rust takes any key, \<open>ord\<close> chooses.
\<close>

definition min_session_ledger_min :: nat where "min_session_ledger_min = 2"

datatype outcome = Win | Loss | Draw | Incomplete

fun outcome_str :: "outcome \<Rightarrow> string" where
  "outcome_str Win = ''win''"
| "outcome_str Loss = ''loss''"
| "outcome_str Draw = ''draw''"
| "outcome_str Incomplete = ''incomplete''"

datatype source_quality = Sq_live | Sq_post_match | Sq_replay | Sq_manual

record performance =
  pf_kills :: "nat option"
  pf_deaths :: "nat option"
  pf_assists :: "nat option"
  pf_mvps :: "nat option"
  pf_score :: "nat option"
  pf_damage :: "nat option"
  pf_healing :: "nat option"
  pf_goals :: "nat option"
  pf_saves :: "nat option"
  pf_shots :: "nat option"
  pf_cs :: "nat option"

record build_info =
  bi_character :: "string option"
  bi_deck_code :: "string option"
  bi_items :: "string list"

record run_info =
  ri_stage_reached :: "string option"
  ri_difficulty :: "string option"
  ri_duration_sec :: "nat option"

record match_result =
  mr_game_id :: string
  mr_mode :: string
  mr_map :: string
  mr_result :: outcome
  mr_streak_eligible :: bool
  mr_own_score :: nat
  mr_opp_score :: nat
  mr_performance :: "performance option"
  mr_build :: "build_info option"
  mr_run :: "run_info option"
  mr_source :: source_quality
  mr_ts :: int

datatype telemetry_event =
    Match_started string string | Score_changed nat nat | Match_ended match_result | Setup_required string string
  | Activity_started string string int | Activity_ended string int | Activity_named string string string

datatype game_ui =
    Ui_game_detected string string string string nat string int | Ui_game_ended string string string nat
  | Ui_game_activity string string | Ui_match_ended string nat nat string | Ui_setup_hint string string

record game_session =
  gs_game :: active_game
  gs_matches :: "match_result list"
  gs_activity_id :: "string option"
  gs_activity_name :: "string option"
  gs_foreground_base :: int

record session_summary =
  ss_game_name :: string
  ss_game_id :: string
  ss_duration_min :: nat
  ss_active_min :: nat
  ss_igdb_id :: nat
  ss_wins :: nat
  ss_losses :: nat
  ss_draws :: nat
  ss_matches :: "match_result list"
  ss_start_ms :: int
  ss_end_ms :: int
  ss_activity :: "string option"

record game_state =
  gm_sessions :: "(string \<times> game_session) list"
  gm_primary :: "string option"
  gm_gated :: "string set"
  gm_pending :: "(string \<times> active_game) list"

definition game_state_new :: game_state where
  "game_state_new = \<lparr>gm_sessions = [], gm_primary = None, gm_gated = {}, gm_pending = []\<rparr>"

definition set_gated_games :: "string list \<Rightarrow> game_state \<Rightarrow> game_state" where
  "set_gated_games ids m = m\<lparr>gm_gated := set ids\<rparr>"

definition detected_event :: "active_game \<Rightarrow> game_ui" where
  "detected_event g = Ui_game_detected (ag_game_id g) (ag_game_name g) (ag_short_name g) (ag_color g) (ag_pid g)
     (ag_exe_path g) (ag_started_at g)"

definition tally :: "match_result list \<Rightarrow> nat \<times> nat \<times> nat" where
  "tally ms =
     foldl (\<lambda>(w, l, d) m.
       if \<not> mr_streak_eligible m then (w, l, d)
       else case mr_result m of Win \<Rightarrow> (wrap_u u32_max (w + 1), l, d) | Loss \<Rightarrow> (w, wrap_u u32_max (l + 1), d)
         | Draw \<Rightarrow> (w, l, wrap_u u32_max (d + 1)) | Incomplete \<Rightarrow> (w, l, d)) (0, 0, 0) ms"

text \<open>\<open>as u32\<close> of an \<open>i64\<close> keeps the low 32 bits.\<close>

definition as_u32 :: "int \<Rightarrow> nat" where "as_u32 n = nat (n mod 4294967296)"

definition close_session ::
  "(string list \<Rightarrow> string list) \<Rightarrow> string \<Rightarrow> int \<Rightarrow> int \<Rightarrow> game_state \<Rightarrow>
   game_ui list \<times> session_summary option \<times> game_state" where
  "close_session ord game_id ended_at foreground_ms m =
     (case map_of (gm_sessions m) game_id of
        None \<Rightarrow> ([], None, m)
      | Some session \<Rightarrow>
          let rest = AList.delete game_id (gm_sessions m);
              m1 = m\<lparr>gm_sessions := rest,
                     gm_primary := (if gm_primary m = Some game_id then hash_first ord rest else gm_primary m)\<rparr>;
              game = gs_game session;
              foreground = max (wrap_i64 (max (ag_foreground_ms game) foreground_ms - gs_foreground_base session)) 0;
              duration_min = as_u32 (max (wrap_i64 (ended_at - ag_started_at game)) 0 div 60000);
              (wins, losses, draws) = tally (gs_matches session);
              summary = \<lparr>ss_game_name = ag_game_name game, ss_game_id = ag_game_id game, ss_duration_min = duration_min,
                ss_active_min = as_u32 (foreground div 60000),
                ss_igdb_id = (case ag_igdb_id game of None \<Rightarrow> 0 | Some n \<Rightarrow> n), ss_wins = wins, ss_losses = losses,
                ss_draws = draws, ss_matches = gs_matches session, ss_start_ms = ag_started_at game, ss_end_ms = ended_at,
                ss_activity = gs_activity_name session\<rparr>
          in ([Ui_game_ended (ag_game_id game) (ag_game_name game) (ag_short_name game) duration_min],
              if duration_min \<ge> min_session_ledger_min then Some summary else None, m1))"

section \<open>Events of the sensor\<close>

fun handle_event ::
  "(string list \<Rightarrow> string list) \<Rightarrow> game_event \<Rightarrow> game_state \<Rightarrow> game_ui list \<times> session_summary option \<times> game_state" where
  "handle_event ord (Game_started game) m =
     (if ag_game_id game \<in> gm_gated m
      then ([], None,
            if map_of (gm_sessions m) (ag_game_id game) \<noteq> None then m
            else m\<lparr>gm_pending := AList.update (ag_game_id game) game (gm_pending m)\<rparr>)
      else case map_of (gm_sessions m) (ag_game_id game) of
        Some open \<Rightarrow>
          ([], None,
           if ag_started_at game < ag_started_at (gs_game open)
           then m\<lparr>gm_sessions := AList.update (ag_game_id game)
                  (open\<lparr>gs_game := (gs_game open)\<lparr>ag_started_at := ag_started_at game\<rparr>\<rparr>) (gm_sessions m)\<rparr>
           else m)
      | None \<Rightarrow>
          ([detected_event game], None,
           m\<lparr>gm_sessions := AList.update (ag_game_id game)
               \<lparr>gs_game = game, gs_matches = [], gs_activity_id = None, gs_activity_name = None, gs_foreground_base = 0\<rparr>
               (gm_sessions m),
             gm_primary := (case gm_primary m of None \<Rightarrow> Some (ag_game_id game) | Some p \<Rightarrow> Some p)\<rparr>))"
| "handle_event ord (Game_stopped game ended_at) m =
     close_session ord (ag_game_id game) ended_at (ag_foreground_ms game)
       (m\<lparr>gm_pending := AList.delete (ag_game_id game) (gm_pending m)\<rparr>)"
| "handle_event ord (Foreground game_id foreground_ms) m =
     ([], None,
      m\<lparr>gm_sessions := AList.map_entry game_id
          (\<lambda>open. open\<lparr>gs_game := (gs_game open)\<lparr>ag_foreground_ms := max (ag_foreground_ms (gs_game open)) foreground_ms\<rparr>\<rparr>)
          (gm_sessions m),
        gm_pending := AList.map_entry game_id
          (\<lambda>parked. parked\<lparr>ag_foreground_ms := max (ag_foreground_ms parked) foreground_ms\<rparr>) (gm_pending m)\<rparr>)"
| "handle_event ord (Primary_changed game_id) m =
     ([], None,
      m\<lparr>gm_primary := (case game_id of
          Some gid \<Rightarrow> if map_of (gm_pending m) gid \<noteq> None then hash_first ord (gm_sessions m) else Some gid
        | None \<Rightarrow> None)\<rparr>)"
| "handle_event ord Library_scanned m = ([], None, m)"

section \<open>Events of the adapters\<close>

fun handle_telemetry ::
  "(string list \<Rightarrow> string list) \<Rightarrow> telemetry_event \<Rightarrow> game_state \<Rightarrow>
   game_ui list \<times> session_summary option \<times> game_state" where
  "handle_telemetry ord (Activity_started game_id activity_id ts) m =
     (case map_of (gm_sessions m) game_id of
        Some open \<Rightarrow>
          (case gs_activity_name open of Some _ \<Rightarrow> [Ui_game_activity game_id []] | None \<Rightarrow> [], None,
           m\<lparr>gm_sessions := AList.update game_id
               (open\<lparr>gs_activity_id := Some activity_id, gs_activity_name := None\<rparr>) (gm_sessions m)\<rparr>)
      | None \<Rightarrow>
          (case map_of (gm_pending m) game_id of
             None \<Rightarrow> ([], None, m)
           | Some parked \<Rightarrow>
               let game = parked\<lparr>ag_started_at := ts\<rparr>
               in ([detected_event game], None,
                   m\<lparr>gm_pending := AList.delete game_id (gm_pending m),
                     gm_sessions := AList.update game_id
                       \<lparr>gs_game = game, gs_matches = [], gs_activity_id = Some activity_id, gs_activity_name = None,
                        gs_foreground_base = ag_foreground_ms game\<rparr> (gm_sessions m),
                     gm_primary := (case gm_primary m of None \<Rightarrow> Some game_id | Some p \<Rightarrow> Some p)\<rparr>)))"
| "handle_telemetry ord (Activity_named game_id activity_id name) m =
     (case map_of (gm_sessions m) game_id of
        None \<Rightarrow> ([], None, m)
      | Some open \<Rightarrow>
          if gs_activity_id open \<noteq> Some activity_id then ([], None, m)
          else ([Ui_game_activity game_id name], None,
                m\<lparr>gm_sessions := AList.update game_id (open\<lparr>gs_activity_name := Some name\<rparr>) (gm_sessions m)\<rparr>))"
| "handle_telemetry ord (Activity_ended game_id ts) m =
     (case map_of (gm_sessions m) game_id of
        None \<Rightarrow> ([], None, m)
      | Some open \<Rightarrow>
          (case close_session ord game_id ts (ag_foreground_ms (gs_game open)) m of
             (uis, summary, m1) \<Rightarrow>
               (uis, summary, m1\<lparr>gm_pending := AList.update game_id (gs_game open) (gm_pending m1)\<rparr>)))"
| "handle_telemetry ord (Match_ended r) m =
     (case List.find (\<lambda>k. map_option (\<lambda>s. ag_game_id (gs_game s)) (map_of (gm_sessions m) k) = Some (mr_game_id r))
            (hash_keys ord (gm_sessions m)) of
        None \<Rightarrow> ([], None, m)
      | Some k \<Rightarrow>
          ([Ui_match_ended (outcome_str (mr_result r)) (mr_own_score r) (mr_opp_score r) (mr_map r)], None,
           m\<lparr>gm_sessions := AList.map_entry k (\<lambda>s. s\<lparr>gs_matches := gs_matches s @ [r]\<rparr>) (gm_sessions m)\<rparr>))"
| "handle_telemetry ord (Match_started mode game_map) m = ([], None, m)"
| "handle_telemetry ord (Score_changed own opp) m = ([], None, m)"
| "handle_telemetry ord (Setup_required game_id hint) m = ([Ui_setup_hint game_id hint], None, m)"

section \<open>What the client reads\<close>

definition current_game :: "game_state \<Rightarrow> active_game option" where
  "current_game m = map_option gs_game (Option.bind (gm_primary m) (map_of (gm_sessions m)))"

definition running_game :: "string \<Rightarrow> game_state \<Rightarrow> active_game option" where
  "running_game game_id m = map_option gs_game (map_of (gm_sessions m) game_id)"

definition current_activity :: "game_state \<Rightarrow> string option" where
  "current_activity m = Option.bind (Option.bind (gm_primary m) (map_of (gm_sessions m))) gs_activity_name"

definition is_in_activity :: "string \<Rightarrow> string \<Rightarrow> game_state \<Rightarrow> bool" where
  "is_in_activity game_id activity_id m \<longleftrightarrow>
     (case map_of (gm_sessions m) game_id of None \<Rightarrow> False | Some s \<Rightarrow> gs_activity_id s = Some activity_id)"

definition any_active :: "game_state \<Rightarrow> bool" where
  "any_active m \<longleftrightarrow> gm_sessions m \<noteq> []"

end
