(* ===== verification/Game_Tracking.thy ===== *)
theory Game_Tracking
  imports Game_Session "HOL-Library.Multiset"
begin

text \<open>
  The game sensor (\<open>Game_Sensing\<close>) and the sessions of the client (\<open>Game_Session\<close>) together: the
  client applies what the sensor sent, in the order it was sent.
\<close>

section \<open>Hash maps\<close>

definition visits_all :: "('k list \<Rightarrow> 'k list) \<Rightarrow> bool" where
  "visits_all ord \<longleftrightarrow> (\<forall>ks. mset (ord ks) = mset ks)"

lemma visits_all_id: "visits_all id" "visits_all rev"
  by (simp_all add: visits_all_def)

lemma hash_keys_set: "visits_all ord \<Longrightarrow> set (hash_keys ord m) = fst ` set m"
  by (metis hash_keys_def image_set set_mset_mset visits_all_def)

lemma hash_keys_distinct: "visits_all ord \<Longrightarrow> distinct (map fst m) \<Longrightarrow> distinct (hash_keys ord m)"
  by (metis hash_keys_def mset_eq_imp_distinct_iff visits_all_def)

lemma hash_keys_mem: "visits_all ord \<Longrightarrow> k \<in> set (hash_keys ord m) \<longleftrightarrow> map_of m k \<noteq> None"
  by (simp add: hash_keys_set map_of_eq_None_iff)

lemma hash_first_Some: "visits_all ord \<Longrightarrow> hash_first ord m = Some k \<Longrightarrow> map_of m k \<noteq> None"
  using hash_keys_mem [of ord k m] by (auto simp: hash_first_def split: list.splits)

lemma hash_first_None: "visits_all ord \<Longrightarrow> hash_first ord m = None \<longleftrightarrow> m = []"
  using hash_keys_set [of ord m] by (auto simp: hash_first_def split: list.splits)

lemma hash_collect_distinct: "distinct (map fst (hash_collect kvs))"
proof -
  have "distinct (map fst m) \<Longrightarrow> distinct (map fst (fold (\<lambda>(k, v). AList.update k v) kvs m))" for m
    by (induction kvs arbitrary: m) (auto simp: distinct_update split: prod.split)
  then show ?thesis by (simp add: hash_collect_def)
qed

lemma hash_collect_mem: "map_of (hash_collect kvs) k = Some v \<Longrightarrow> (k, v) \<in> set kvs"
proof -
  have "map_of (fold (\<lambda>(k, v). AList.update k v) kvs m) k = Some v \<Longrightarrow> (k, v) \<in> set kvs \<or> map_of m k = Some v" for m
    by (induction kvs arbitrary: m) (fastforce simp: update_conv' split: if_splits prod.split)+
  then show "map_of (hash_collect kvs) k = Some v \<Longrightarrow> ?thesis" by (fastforce simp: hash_collect_def)
qed

lemma hash_collect_keys: "map_of (hash_collect kvs) k \<noteq> None \<longleftrightarrow> k \<in> fst ` set kvs"
proof -
  have "map_of (fold (\<lambda>(k, v). AList.update k v) kvs m) k \<noteq> None \<longleftrightarrow> k \<in> fst ` set kvs \<or> map_of m k \<noteq> None" for m
    by (induction kvs arbitrary: m) (auto simp: update_conv' split: if_splits prod.split)
  then show ?thesis by (simp add: hash_collect_def)
qed

lemma map_of_map_entry: "map_of (AList.map_entry k f m) = (\<lambda>x. if x = k then map_option f (map_of m x) else map_of m x)"
  by (induction m) (auto simp: fun_eq_iff)

lemma min_by_key_Some: "min_by_key f xs = Some x \<Longrightarrow> x \<in> set xs \<and> (\<forall>y \<in> set xs. f x \<le> f y)"
proof -
  assume "min_by_key f xs = Some x"
  then obtain r where r: "sort_key f xs = x # r" by (auto simp: min_by_key_def split: list.splits)
  then have "sorted (map f (x # r))" using sorted_sort_key [of f xs] by simp
  moreover have "set xs = set (x # r)" using set_sort [of f xs] r by simp
  ultimately show ?thesis by auto
qed

lemma min_by_key_None: "min_by_key f xs = None \<longleftrightarrow> xs = []"
proof -
  have "length (sort_key f xs) = length xs" by simp
  then have "sort_key f xs = [] \<longleftrightarrow> xs = []" by (metis length_0_conv)
  then show ?thesis by (auto simp: min_by_key_def split: list.splits)
qed

section \<open>The sessions follow the sensor\<close>

definition feed :: "(string list \<Rightarrow> string list) \<Rightarrow> game_event list \<Rightarrow> game_state \<Rightarrow> game_state" where
  "feed ord = fold (\<lambda>e m. snd (snd (handle_event ord e m)))"

lemma feed_snoc: "feed ord (es @ [e]) m = snd (snd (handle_event ord e (feed ord es m)))"
  by (simp add: feed_def)

text \<open>The tracked games, one process each; \<open>game_of\<close> names the game of a process.\<close>

definition one_each :: "(nat \<Rightarrow> string) \<Rightarrow> (nat \<rightharpoonup> active_game) \<Rightarrow> bool" where
  "one_each game_of f \<longleftrightarrow> (\<forall>p g. f p = Some g \<longrightarrow> ag_game_id g = game_of p \<and> ag_pid g = p) \<and> inj_on game_of (dom f)"

definition agrees :: "active_game \<Rightarrow> active_game \<Rightarrow> bool" where
  "agrees g h \<longleftrightarrow> ag_game_id h = ag_game_id g \<and> ag_started_at h = ag_started_at g \<and> ag_foreground_ms h = ag_foreground_ms g"

definition tracks :: "(nat \<rightharpoonup> active_game) \<Rightarrow> game_state \<Rightarrow> bool" where
  "tracks f m \<longleftrightarrow> gm_gated m = {} \<and> gm_pending m = [] \<and>
     (\<forall>p g. f p = Some g \<longrightarrow>
        (\<exists>o'. map_of (gm_sessions m) (ag_game_id g) = Some o' \<and> agrees g (gs_game o') \<and> gs_foreground_base o' = 0)) \<and>
     (\<forall>gid. map_of (gm_sessions m) gid \<noteq> None \<longrightarrow> (\<exists>p g. f p = Some g \<and> ag_game_id g = gid)) \<and>
     (\<forall>gid. gm_primary m = Some gid \<longrightarrow> map_of (gm_sessions m) gid \<noteq> None) \<and>
     (gm_primary m = None \<longrightarrow> gm_sessions m = [])"


lemma one_each_game: "one_each game_of f \<Longrightarrow> f p = Some g \<Longrightarrow> ag_game_id g = game_of p"
  by (simp add: one_each_def)

lemma one_each_pid: "one_each game_of f \<Longrightarrow> f p = Some g \<Longrightarrow> ag_pid g = p"
  by (simp add: one_each_def)

lemma one_each_same: "one_each game_of f \<Longrightarrow> f p = Some g \<Longrightarrow> f q = Some h \<Longrightarrow> ag_game_id h = ag_game_id g \<Longrightarrow> q = p"
  unfolding one_each_def inj_on_def by (metis domI)

lemma one_eachI:
  assumes "\<And>p g. f p = Some g \<Longrightarrow> ag_game_id g = game_of p \<and> ag_pid g = p"
    and "\<And>p q g h. f p = Some g \<Longrightarrow> f q = Some h \<Longrightarrow> ag_game_id h = ag_game_id g \<Longrightarrow> q = p"
  shows "one_each game_of f"
  unfolding one_each_def inj_on_def using assms by (metis domD)

lemma one_each_start:
  assumes one: "one_each game_of f" and g: "ag_game_id g = game_of p" "ag_pid g = p"
    and fresh: "\<And>q h. f q = Some h \<Longrightarrow> ag_game_id h \<noteq> ag_game_id g"
  shows "one_each game_of (f(p \<mapsto> g))"
proof (rule one_eachI)
  fix q r h k assume "(f(p \<mapsto> g)) q = Some h" "(f(p \<mapsto> g)) r = Some k" "ag_game_id k = ag_game_id h"
  then show "r = q" using fresh [of q h] fresh [of r k] one_each_same [OF one] by (auto split: if_splits)
qed (use one_each_game [OF one] one_each_pid [OF one] g in \<open>auto split: if_splits\<close>)

lemma one_each_move:
  assumes one: "one_each game_of f" and f: "f p = Some g" and h: "ag_game_id h = game_of q" "ag_game_id h = ag_game_id g"
      "ag_pid h = q"
  shows "one_each game_of (f(p := None, q \<mapsto> h))"
proof (rule one_eachI)
  fix x y k l assume "(f(p := None, q \<mapsto> h)) x = Some k" "(f(p := None, q \<mapsto> h)) y = Some l" "ag_game_id l = ag_game_id k"
  then show "y = x"
    using one_each_same [OF one f, of x k] one_each_same [OF one f, of y l] one_each_same [OF one, of x k y l] h(2)
    by (auto split: if_splits)
qed (use one_each_game [OF one] one_each_pid [OF one] h(1,3) in \<open>auto split: if_splits\<close>)

lemma one_each_stop: "one_each game_of f \<Longrightarrow> one_each game_of (f(p := None))"
  by (rule one_eachI) (auto dest: one_each_game one_each_pid one_each_same split: if_splits)

lemma tracksI:
  assumes "gm_gated m = {}" "gm_pending m = []"
    and "\<And>p g. f p = Some g \<Longrightarrow>
      \<exists>o'. map_of (gm_sessions m) (ag_game_id g) = Some o' \<and> agrees g (gs_game o') \<and> gs_foreground_base o' = 0"
    and "\<And>gid. map_of (gm_sessions m) gid \<noteq> None \<Longrightarrow> \<exists>p g. f p = Some g \<and> ag_game_id g = gid"
    and "\<And>gid. gm_primary m = Some gid \<Longrightarrow> map_of (gm_sessions m) gid \<noteq> None"
    and "gm_primary m = None \<Longrightarrow> gm_sessions m = []"
  shows "tracks f m"
  unfolding tracks_def using assms by simp

lemma tracksD:
  assumes "tracks f m"
  shows "gm_gated m = {}" "gm_pending m = []"
    and "f p = Some g \<Longrightarrow>
      \<exists>o'. map_of (gm_sessions m) (ag_game_id g) = Some o' \<and> agrees g (gs_game o') \<and> gs_foreground_base o' = 0"
    and "map_of (gm_sessions m) gid \<noteq> None \<Longrightarrow> \<exists>p g. f p = Some g \<and> ag_game_id g = gid"
    and "gm_primary m = Some gid \<Longrightarrow> map_of (gm_sessions m) gid \<noteq> None"
    and "gm_primary m = None \<Longrightarrow> gm_sessions m = []"
  using assms unfolding tracks_def by simp_all

lemma tracks_start:
  assumes t: "tracks f m" and fresh: "f p = None" "\<And>q h. f q = Some h \<Longrightarrow> ag_game_id h \<noteq> ag_game_id g"
  shows "tracks (f(p \<mapsto> g)) (snd (snd (handle_event ord (Game_started g) m)))"
proof -
  have none: "map_of (gm_sessions m) (ag_game_id g) = None" using t fresh(2) unfolding tracks_def by (metis option.exhaust)
  let ?o = "\<lparr>gs_game = g, gs_matches = [], gs_activity_id = None, gs_activity_name = None, gs_foreground_base = 0\<rparr>"
  let ?S = "(map_of (gm_sessions m))(ag_game_id g \<mapsto> ?o)"
  have m: "map_of (gm_sessions (snd (snd (handle_event ord (Game_started g) m)))) = ?S"
    "gm_gated (snd (snd (handle_event ord (Game_started g) m))) = {}"
    "gm_pending (snd (snd (handle_event ord (Game_started g) m))) = []"
    "gm_primary (snd (snd (handle_event ord (Game_started g) m))) =
       (case gm_primary m of None \<Rightarrow> Some (ag_game_id g) | Some p \<Rightarrow> Some p)"
    using t none by (simp_all add: tracks_def update_conv')
  show ?thesis
  proof (rule tracksI, unfold m)
    show "\<exists>o'. ?S (ag_game_id h) = Some o' \<and> agrees h (gs_game o') \<and> gs_foreground_base o' = 0"
      if "(f(p \<mapsto> g)) q = Some h" for q h
      using that tracksD(3) [OF t, of q h] fresh(2) [of q h] by (cases "q = p") (simp_all add: agrees_def)
    show "\<exists>q h. (f(p \<mapsto> g)) q = Some h \<and> ag_game_id h = gid" if "?S gid \<noteq> None" for gid
    proof (cases "gid = ag_game_id g")
      case True
      then show ?thesis by (intro exI [of _ p] exI [of _ g]) simp
    next
      case False
      with that tracksD(4) [OF t, of gid] obtain q h where "f q = Some h" "ag_game_id h = gid" by auto
      with fresh(1) show ?thesis by (intro exI [of _ q] exI [of _ h]) auto
    qed
    show "?S gid \<noteq> None" if "(case gm_primary m of None \<Rightarrow> Some (ag_game_id g) | Some p \<Rightarrow> Some p) = Some gid" for gid
      using that tracksD(5) [OF t, of gid] by (auto split: option.splits)
  qed (simp_all split: option.splits)
qed

lemma tracks_move:
  assumes t: "tracks f m" and f: "f p = Some g" "f q = None \<or> q = p" and h: "agrees g h"
  shows "tracks (f(p := None, q \<mapsto> h)) m"
proof -
  have "\<exists>o'. map_of (gm_sessions m) (ag_game_id k) = Some o' \<and> agrees k (gs_game o') \<and> gs_foreground_base o' = 0"
    if k: "(f(p := None, q \<mapsto> h)) x = Some k" for x k
  proof (cases "x = q")
    case True
    with tracksD(3) [OF t f(1)] h k show ?thesis unfolding agrees_def by auto
  next
    case False
    with tracksD(3) [OF t, of x k] k show ?thesis by (simp split: if_splits)
  qed
  moreover have "\<exists>x k. (f(p := None, q \<mapsto> h)) x = Some k \<and> ag_game_id k = gid"
    if "map_of (gm_sessions m) gid \<noteq> None" for gid
  proof -
    from tracksD(4) [OF t that] obtain x k where x: "f x = Some k" "ag_game_id k = gid" by blast
    show ?thesis
    proof (cases "x = p")
      case True
      with x f h show ?thesis by (intro exI [of _ q] exI [of _ h]) (simp add: agrees_def)
    next
      case False
      with x f show ?thesis by (intro exI [of _ x] exI [of _ k]) auto
    qed
  qed
  ultimately show ?thesis by (rule tracksI [OF tracksD(1,2) [OF t] _ _ tracksD(5,6) [OF t]])
qed

lemma close_session_state:
  "gm_sessions (snd (snd (close_session ord gid e fg m))) = AList.delete gid (gm_sessions m)"
  "gm_primary (snd (snd (close_session ord gid e fg m))) =
     (if map_of (gm_sessions m) gid \<noteq> None \<and> gm_primary m = Some gid then hash_first ord (AList.delete gid (gm_sessions m))
      else gm_primary m)"
  "gm_gated (snd (snd (close_session ord gid e fg m))) = gm_gated m"
  "gm_pending (snd (snd (close_session ord gid e fg m))) = gm_pending m"
proof -
  have "map_of (gm_sessions m) gid = None \<Longrightarrow> AList.delete gid (gm_sessions m) = gm_sessions m"
    by (simp add: map_of_eq_None_iff)
  then show "gm_sessions (snd (snd (close_session ord gid e fg m))) = AList.delete gid (gm_sessions m)"
    "gm_primary (snd (snd (close_session ord gid e fg m))) =
     (if map_of (gm_sessions m) gid \<noteq> None \<and> gm_primary m = Some gid then hash_first ord (AList.delete gid (gm_sessions m))
      else gm_primary m)"
    "gm_gated (snd (snd (close_session ord gid e fg m))) = gm_gated m"
    "gm_pending (snd (snd (close_session ord gid e fg m))) = gm_pending m"
    by (cases "map_of (gm_sessions m) gid"; simp add: close_session_def Let_def split_beta)+
qed

lemma tracks_stop:
  assumes t: "tracks f m" and one: "one_each game_of f" and f: "f p = Some g" and ord: "visits_all ord"
    and k: "ag_game_id k = ag_game_id g"
  shows "tracks (f(p := None)) (snd (snd (handle_event ord (Game_stopped k e) m)))"
proof -
  let ?m = "snd (snd (handle_event ord (Game_stopped k e) m))"
  let ?S = "(map_of (gm_sessions m))(ag_game_id g := None)"
  have "gm_pending m = []" using t by (simp add: tracks_def)
  then have m: "map_of (gm_sessions ?m) = ?S" "gm_gated ?m = gm_gated m" "gm_pending ?m = []"
    "gm_primary ?m = (if map_of (gm_sessions m) (ag_game_id g) \<noteq> None \<and> gm_primary m = Some (ag_game_id g)
       then hash_first ord (AList.delete (ag_game_id g) (gm_sessions m)) else gm_primary m)"
    by (simp_all add: close_session_state delete_conv' k)
  have other: "ag_game_id h \<noteq> ag_game_id g" if "f q = Some h" "q \<noteq> p" for q h
    using one_each_same [OF one f that(1)] that(2) by blast
  have A: "\<exists>o'. ?S (ag_game_id h) = Some o' \<and> agrees h (gs_game o') \<and> gs_foreground_base o' = 0"
    if "(f(p := None)) q = Some h" for q h
    using that tracksD(3) [OF t, of q h] other [of q h] by (simp split: if_splits)
  have B: "\<exists>q h. (f(p := None)) q = Some h \<and> ag_game_id h = gid" if "?S gid \<noteq> None" for gid
  proof -
    from that tracksD(4) [OF t, of gid] obtain q h where "f q = Some h" "ag_game_id h = gid" by (auto split: if_splits)
    with that f show ?thesis by (intro exI [of _ q] exI [of _ h]) auto
  qed
  have C: "?S gid \<noteq> None" if "gm_primary ?m = Some gid" for gid
  proof (cases "gm_primary m = Some (ag_game_id g)")
    case True
    from tracksD(5) [OF t True] True that have "hash_first ord (AList.delete (ag_game_id g) (gm_sessions m)) = Some gid" unfolding m by simp
    from hash_first_Some [OF ord this] show ?thesis by (simp add: delete_conv')
  next
    case False
    with that have "gm_primary m = Some gid" "gid \<noteq> ag_game_id g" unfolding m by auto
    with tracksD(5) [OF t, of gid] show ?thesis by simp
  qed
  have D: "gm_sessions ?m = []" if "gm_primary ?m = None"
  proof -
    have "AList.delete (ag_game_id g) (gm_sessions m) = []"
    proof (cases "map_of (gm_sessions m) (ag_game_id g) \<noteq> None \<and> gm_primary m = Some (ag_game_id g)")
      case True
      with that show ?thesis unfolding m if_P [OF True] by (simp add: hash_first_None [OF ord])
    next
      case False
      with that tracksD(6) [OF t] show ?thesis unfolding m if_not_P [OF False] by simp
    qed
    then show ?thesis by (simp add: close_session_state k)
  qed
  show ?thesis
    by (rule tracksI, unfold m(1-3))
      (rule tracksD(1) [OF t], rule refl, erule A, erule B, erule C, erule D)
qed

lemma tracks_credit:
  assumes t: "tracks f m" and one: "one_each game_of f" and f: "f p = Some g" and n: "ag_foreground_ms g \<le> n"
  shows "tracks (f(p \<mapsto> g\<lparr>ag_foreground_ms := n\<rparr>)) (snd (snd (handle_event ord (Foreground (ag_game_id g) n) m)))"
proof -
  let ?m = "snd (snd (handle_event ord (Foreground (ag_game_id g) n) m))"
  let ?u = "\<lambda>open. open\<lparr>gs_game := (gs_game open)\<lparr>ag_foreground_ms := max (ag_foreground_ms (gs_game open)) n\<rparr>\<rparr>"
  let ?S = "\<lambda>x. if x = ag_game_id g then map_option ?u (map_of (gm_sessions m) x) else map_of (gm_sessions m) x"
  have m: "map_of (gm_sessions ?m) = ?S" "gm_gated ?m = gm_gated m" "gm_pending ?m = []" "gm_primary ?m = gm_primary m"
    "gm_sessions ?m = [] \<longleftrightarrow> gm_sessions m = []"
    using t by (simp_all add: tracks_def map_of_map_entry) (cases "gm_sessions m"; auto)
  have other: "ag_game_id h \<noteq> ag_game_id g" if "f q = Some h" "q \<noteq> p" for q h
    using one_each_same [OF one f that(1)] that(2) by blast
  have A: "\<exists>o'. ?S (ag_game_id h) = Some o' \<and> agrees h (gs_game o') \<and> gs_foreground_base o' = 0"
    if h: "(f(p \<mapsto> g\<lparr>ag_foreground_ms := n\<rparr>)) q = Some h" for q h
  proof (cases "q = p")
    case True
    from tracksD(3) [OF t f] obtain o' where "map_of (gm_sessions m) (ag_game_id g) = Some o'" "agrees g (gs_game o')"
      "gs_foreground_base o' = 0" by blast
    with True h n show ?thesis by (auto simp: agrees_def)
  next
    case False
    with h other [of q h] tracksD(3) [OF t, of q h] show ?thesis by simp
  qed
  have B: "\<exists>q h. (f(p \<mapsto> g\<lparr>ag_foreground_ms := n\<rparr>)) q = Some h \<and> ag_game_id h = gid" if "?S gid \<noteq> None" for gid
  proof -
    from that have "map_of (gm_sessions m) gid \<noteq> None" by (simp split: if_splits)
    from tracksD(4) [OF t this] obtain q h where q: "f q = Some h" "ag_game_id h = gid" by blast
    show ?thesis
    proof (cases "q = p")
      case True
      with q f show ?thesis by (intro exI [of _ p] exI [of _ "g\<lparr>ag_foreground_ms := n\<rparr>"]) simp
    next
      case False
      with q show ?thesis by (intro exI [of _ q] exI [of _ h]) simp
    qed
  qed
  have C: "?S gid \<noteq> None" if "gm_primary m = Some gid" for gid using tracksD(5) [OF t that] by auto
  show ?thesis
    by (rule tracksI, unfold m)
      (rule tracksD(1) [OF t], rule refl, erule A, erule B, erule C, erule tracksD(6) [OF t])
qed


section \<open>The steps of a scan\<close>

definition following :: "(string list \<Rightarrow> string list) \<Rightarrow> (nat \<Rightarrow> string) \<Rightarrow> int \<Rightarrow> sensor \<Rightarrow> bool" where
  "following mord game_of bound s \<longleftrightarrow> distinct (map fst (sn_active s)) \<and> one_each game_of (map_of (sn_active s)) \<and>
     tracks (map_of (sn_active s)) (feed mord (sn_out s) game_state_new) \<and>
     (\<forall>p g. map_of (sn_active s) p = Some g \<longrightarrow> 0 \<le> ag_foreground_ms g \<and> ag_foreground_ms g \<le> bound)"

lemma following_new: "following mord game_of bound (sensor_new [])"
  by (simp add: following_def one_each_def tracks_def sensor_new_def feed_def game_state_new_def)

lemma following_frame:
  "following mord game_of bound s \<Longrightarrow> sn_active s' = sn_active s \<Longrightarrow> sn_out s' = sn_out s \<Longrightarrow> following mord game_of bound s'"
  by (simp add: following_def)

lemma tell_fields [simp]:
  "sn_active (tell e s) = sn_active s" "sn_shadow (tell e s) = sn_shadow s" "sn_primary (tell e s) = sn_primary s"
  "sn_windowless (tell e s) = sn_windowless s" "sn_last_scan (tell e s) = sn_last_scan s"
  "sn_orphans (tell e s) = sn_orphans s" "sn_since_refresh (tell e s) = sn_since_refresh s"
  "sn_fast_left (tell e s) = sn_fast_left s" "sn_saved (tell e s) = sn_saved s" "sn_out (tell e s) = sn_out s @ [e]"
  by (simp_all add: tell_def)

lemma followingD:
  assumes "following mord game_of bound s"
  shows "distinct (map fst (sn_active s))" "one_each game_of (map_of (sn_active s))"
    "tracks (map_of (sn_active s)) (feed mord (sn_out s) game_state_new)"
    "map_of (sn_active s) p = Some g \<Longrightarrow> 0 \<le> ag_foreground_ms g \<and> ag_foreground_ms g \<le> bound"
  using assms unfolding following_def by blast+

lemma representative_pid_Some:
  "representative_pid ord active gid = Some p \<Longrightarrow> \<exists>g. map_of active p = Some g \<and> ag_game_id g = gid"
  by (auto simp: representative_pid_def dest!: find_Some_mem)

lemma representative_pid_None:
  "visits_all ord \<Longrightarrow> representative_pid ord active gid = None \<Longrightarrow> map_of active q = Some h \<Longrightarrow> ag_game_id h \<noteq> gid"
  using hash_keys_mem [of ord q active] by (auto simp: representative_pid_def find_None_all)

lemma following_start:
  assumes ok: "following mord game_of bound s" and new: "map_of (sn_active s) p = None" "ag_game_id g = game_of p"
      "ag_pid g = p" "0 \<le> ag_foreground_ms g" "ag_foreground_ms g \<le> bound"
    and fresh: "\<And>q h. map_of (sn_active s) q = Some h \<Longrightarrow> ag_game_id h \<noteq> ag_game_id g"
  shows "following mord game_of bound (tell (Game_started g) (s\<lparr>sn_active := AList.update p g (sn_active s)\<rparr>))"
  unfolding following_def
proof (intro conjI)
  let ?s = "tell (Game_started g) (s\<lparr>sn_active := AList.update p g (sn_active s)\<rparr>)"
  have a: "map_of (sn_active ?s) = (map_of (sn_active s))(p \<mapsto> g)" by (simp add: update_conv')
  show "distinct (map fst (sn_active ?s))" using followingD(1) [OF ok] by (simp add: distinct_update)
  show "one_each game_of (map_of (sn_active ?s))" unfolding a by (rule one_each_start [OF followingD(2) [OF ok] new(2,3) fresh])
  show "tracks (map_of (sn_active ?s)) (feed mord (sn_out ?s) game_state_new)"
    unfolding a using tracks_start [OF followingD(3) [OF ok] new(1) fresh] by (simp add: feed_snoc)
  show "\<forall>q h. map_of (sn_active ?s) q = Some h \<longrightarrow> 0 \<le> ag_foreground_ms h \<and> ag_foreground_ms h \<le> bound"
    unfolding a using followingD(4) [OF ok] new(4,5) by auto
qed

lemma following_move:
  assumes ok: "following mord game_of bound s" and old: "map_of (sn_active s) p = Some g"
    and new: "map_of (sn_active s) q = None \<or> q = p" "ag_game_id h = game_of q" "ag_game_id h = ag_game_id g" "ag_pid h = q"
    and s': "sn_active s' = AList.update q (inherit g h) (AList.delete p (sn_active s))" "sn_out s' = sn_out s"
  shows "following mord game_of bound s'"
  unfolding following_def
proof (intro conjI)
  have a: "map_of (sn_active s') = (map_of (sn_active s))(p := None, q \<mapsto> inherit g h)"
    by (simp add: s'(1) update_conv' delete_conv')
  have i: "ag_game_id (inherit g h) = ag_game_id h" "ag_pid (inherit g h) = ag_pid h" by (simp_all add: inherit_def)
  show "distinct (map fst (sn_active s'))"
    using followingD(1) [OF ok] by (simp add: s'(1) distinct_update distinct_delete)
  show "one_each game_of (map_of (sn_active s'))"
    unfolding a by (rule one_each_move [OF followingD(2) [OF ok] old], unfold i) (rule new)+
  show "tracks (map_of (sn_active s')) (feed mord (sn_out s') game_state_new)"
    unfolding a s'(2) by (rule tracks_move [OF followingD(3) [OF ok] old new(1)]) (simp add: agrees_def inherit_def new(3))
  show "\<forall>x k. map_of (sn_active s') x = Some k \<longrightarrow> 0 \<le> ag_foreground_ms k \<and> ag_foreground_ms k \<le> bound"
    unfolding a using followingD(4) [OF ok] followingD(4) [OF ok old] by (auto simp: inherit_def split: if_splits)
qed

lemma following_stop:
  assumes ok: "following mord game_of bound s" and p: "map_of (sn_active s) p = Some g" and ord: "visits_all mord"
    and s': "sn_active s' = AList.delete p (sn_active s)" "sn_out s' = sn_out s @ [Game_stopped g now]"
  shows "following mord game_of bound s'"
  unfolding following_def
proof (intro conjI)
  have a: "map_of (sn_active s') = (map_of (sn_active s))(p := None)" by (simp add: s'(1) delete_conv')
  show "distinct (map fst (sn_active s'))" using followingD(1) [OF ok] by (simp add: s'(1) distinct_delete)
  show "one_each game_of (map_of (sn_active s'))" unfolding a by (rule one_each_stop [OF followingD(2) [OF ok]])
  show "tracks (map_of (sn_active s')) (feed mord (sn_out s') game_state_new)"
    unfolding a s'(2) feed_snoc by (rule tracks_stop [OF followingD(3,2) [OF ok] p ord refl])
  show "\<forall>x k. map_of (sn_active s') x = Some k \<longrightarrow> 0 \<le> ag_foreground_ms k \<and> ag_foreground_ms k \<le> bound"
    unfolding a using followingD(4) [OF ok] by (auto split: if_splits)
qed

text \<open>A process that the sensor found: its game is the one of its pid, and it starts at no time.\<close>

definition found :: "(nat \<Rightarrow> string) \<Rightarrow> nat \<times> active_game \<Rightarrow> bool" where
  "found game_of kv \<longleftrightarrow> ag_game_id (snd kv) = game_of (fst kv) \<and> ag_pid (snd kv) = fst kv \<and> ag_foreground_ms (snd kv) = 0"

lemma following_start_one:
  assumes ok: "following mord game_of bound s" and ord: "visits_all ord" and g: "found game_of (p, g)" "0 \<le> bound"
    and new: "map_of (sn_active s) p = None"
  shows "following mord game_of bound (snd (start_one ord (p, g) (opened, s)))"
    "map_of (sn_active (snd (start_one ord (p, g) (opened, s)))) q \<noteq> None \<Longrightarrow> q = p \<or> map_of (sn_active s) q \<noteq> None"
proof -
  let ?shadowed = "s\<lparr>sn_shadow := AList.update p (ag_game_id g) (sn_shadow s)\<rparr>"
  have sh: "following mord game_of bound ?shadowed" by (rule following_frame [OF ok]) simp_all
  have "following mord game_of bound (snd (start_one ord (p, g) (opened, s))) \<and>
    (map_of (sn_active (snd (start_one ord (p, g) (opened, s)))) q \<noteq> None \<longrightarrow> q = p \<or> map_of (sn_active s) q \<noteq> None)"
  proof (cases "representative_pid ord (sn_active s) (ag_game_id g)")
    case None
    note fresh = representative_pid_None [OF ord None]
    show ?thesis
    proof (cases "ag_game_id g \<in> set opened")
      case True
      with None sh show ?thesis by (simp add: start_one_def Let_def)
    next
      case False
      with None following_start [OF ok new _ _ _ _ fresh] g show ?thesis
        by (simp add: start_one_def Let_def found_def update_conv')
    qed
  next
    case (Some r)
    then obtain old where old: "map_of (sn_active s) r = Some old" "ag_game_id old = ag_game_id g"
      using representative_pid_Some by blast
    show ?thesis
    proof (cases "should_upgrade_representative old g")
      case True
      with Some old have e: "snd (start_one ord (p, g) (opened, s)) = upgrade_representative r p g s"
        by (simp add: start_one_def Let_def)
      have "following mord game_of bound (upgrade_representative r p g s)"
        by (rule following_move [OF ok old(1), where q = p and h = g])
          (use new g(1) old in \<open>simp_all add: upgrade_representative_def found_def\<close>)
      then show ?thesis unfolding e using old by (simp add: upgrade_representative_def update_conv' delete_conv')
    next
      case False
      with Some old sh show ?thesis by (simp add: start_one_def Let_def)
    qed
  qed
  then show "following mord game_of bound (snd (start_one ord (p, g) (opened, s)))"
    "map_of (sn_active (snd (start_one ord (p, g) (opened, s)))) q \<noteq> None \<Longrightarrow> q = p \<or> map_of (sn_active s) q \<noteq> None"
    by blast+
qed

lemma following_start_fold:
  "following mord game_of bound s \<Longrightarrow> visits_all ord \<Longrightarrow> 0 \<le> bound \<Longrightarrow> \<forall>kv \<in> set news. found game_of kv \<Longrightarrow>
   distinct (map fst news) \<Longrightarrow> \<forall>p \<in> fst ` set news. map_of (sn_active s) p = None \<Longrightarrow>
   following mord game_of bound (snd (fold (start_one ord) news (opened, s)))"
proof (induction news arbitrary: s opened)
  case (Cons kv news)
  obtain p g where kv: "kv = (p, g)" by fastforce
  obtain opened' s' where s': "start_one ord (p, g) (opened, s) = (opened', s')" by fastforce
  have "found game_of (p, g)" "map_of (sn_active s) p = None" using Cons.prems(4,6) by (simp_all add: kv)
  note step = following_start_one [OF Cons.prems(1,2) this(1) Cons.prems(3) this(2), where opened = opened, unfolded s', simplified]
  have "\<forall>q \<in> fst ` set news. map_of (sn_active s') q = None"
    using step(2) Cons.prems(5,6) unfolding kv by (auto simp: image_iff) (metis fst_conv option.distinct(1) option.exhaust)+
  from Cons.IH [OF step(1) Cons.prems(2,3) _ _ this] Cons.prems(4,5) show ?case by (simp add: kv s')
qed simp


lemma following_starts:
  assumes "following mord game_of bound s" "visits_all ord" "0 \<le> bound" "distinct (map fst live)"
    "\<forall>kv \<in> set live. found game_of kv"
  shows "following mord game_of bound (snd (coalesce_starts ord live startable s))"
proof -
  let ?news = "sort_key (\<lambda>(_, g). representative_rank g)
      (filter (\<lambda>(pid, _). map_of (sn_active s) pid = None \<and> map_of (sn_shadow s) pid = None \<and> pid \<in> set startable) live)"
  have "distinct (map fst (filter P live))" for P
    using assms(4) by (induction live) auto
  then have "distinct (map fst ?news)"
    by (metis (no_types, lifting) distinct_map distinct_sort inj_on_def set_sort)
  then have "following mord game_of bound (snd (fold (start_one ord) ?news ([], s)))"
    by (intro following_start_fold [OF assms(1-3)]) (use assms(5) in auto)
  then show ?thesis by (simp add: coalesce_starts_def Let_def split_beta)
qed

lemma following_stop_one:
  assumes ok: "following mord game_of bound (snd cs)" and mord: "visits_all mord" and live: "\<forall>kv \<in> set live. found game_of kv"
  shows "following mord game_of bound (snd (stop_one ord live startable now p cs))"
proof -
  obtain changed s where cs: "cs = (changed, s)" by fastforce
  have s: "following mord game_of bound s" using ok by (simp add: cs)
  show ?thesis
  proof (cases "map_of (sn_active s) p")
    case None
    with s show ?thesis by (simp add: stop_one_def cs)
  next
    case (Some session)
    let ?kin = "filter (\<lambda>(pid, g). ag_game_id g = ag_game_id session \<and> pid \<in> set startable) live"
    show ?thesis
    proof (cases "min_by_key (\<lambda>(_, g). representative_rank g) ?kin")
      case None
      show ?thesis
        by (rule following_stop [OF s Some mord, where now = now]) (simp_all add: stop_one_def cs Some None Let_def)
    next
      case kin: (Some kv)
      obtain q h where kv: "kv = (q, h)" by fastforce
      from min_by_key_Some [OF kin] have h: "(q, h) \<in> set live" "ag_game_id h = ag_game_id session" by (simp_all add: kv)
      from h(1) live have f: "ag_game_id h = game_of q" "ag_pid h = q" by (auto simp: found_def)
      have "map_of (sn_active s) q = None \<or> q = p"
      proof (cases "map_of (sn_active s) q")
        case k: (Some k)
        with one_each_game [OF followingD(2) [OF s] k] f h(2) have "ag_game_id k = ag_game_id session" by simp
        from one_each_same [OF followingD(2) [OF s] Some k this] show ?thesis by simp
      qed simp
      from following_move [OF s Some this f(1) h(2) f(2)] show ?thesis by (simp add: stop_one_def cs Some kin kv Let_def)
    qed
  qed
qed

lemma following_stops:
  assumes "following mord game_of bound s" "visits_all mord" "\<forall>kv \<in> set live. found game_of kv"
  shows "following mord game_of bound (snd (coalesce_stops ord live startable now s))"
proof -
  have "following mord game_of bound (snd cs) \<Longrightarrow>
      following mord game_of bound (snd (fold (stop_one ord live startable now) ps cs))" for ps cs
    by (induction ps arbitrary: cs) (simp_all add: following_stop_one [OF _ assms(2,3)])
  moreover have "following mord game_of bound (s\<lparr>sn_shadow := sh\<rparr>)" for sh by (rule following_frame [OF assms(1)]) simp_all
  ultimately show ?thesis by (simp add: coalesce_stops_def Let_def)
qed

lemma following_credit_one:
  assumes ok: "following mord game_of (bound + elapsed) s" and e: "0 \<le> elapsed" "bound + elapsed < 2 ^ 63"
    and p: "\<And>g. map_of (sn_active s) p = Some g \<Longrightarrow> ag_foreground_ms g \<le> bound"
  shows "following mord game_of (bound + elapsed) (credit_one live processes elapsed p s)"
    "q \<noteq> p \<Longrightarrow> map_of (sn_active (credit_one live processes elapsed p s)) q = map_of (sn_active s) q"
proof -
  show "q \<noteq> p \<Longrightarrow> map_of (sn_active (credit_one live processes elapsed p s)) q = map_of (sn_active s) q"
    by (simp add: credit_one_def update_conv' Let_def split: option.split)
  show "following mord game_of (bound + elapsed) (credit_one live processes elapsed p s)"
  proof (cases "map_of (sn_active s) p")
    case (Some g)
    define n where "n = accumulate_foreground_ms (ag_foreground_ms g) (any_foreground_for_game (ag_game_id g) live processes) elapsed"
    have g: "0 \<le> ag_foreground_ms g" "ag_foreground_ms g \<le> bound" using followingD(4) [OF ok Some] p [OF Some] by simp_all
    have "n = ag_foreground_ms g + (if any_foreground_for_game (ag_game_id g) live processes then elapsed else 0)"
      unfolding n_def accumulate_foreground_ms_def by (rule wrap_i64_id) (use g e in auto)
    then have n: "ag_foreground_ms g \<le> n" "n \<le> bound + elapsed" using g e by auto
    let ?h = "g\<lparr>ag_foreground_ms := n\<rparr>"
    have eq: "credit_one live processes elapsed p s = (if n = ag_foreground_ms g then s
        else tell (Foreground (ag_game_id g) n) (s\<lparr>sn_active := AList.update p ?h (sn_active s)\<rparr>))"
      by (simp add: credit_one_def Some n_def Let_def)
    let ?s = "tell (Foreground (ag_game_id g) n) (s\<lparr>sn_active := AList.update p ?h (sn_active s)\<rparr>)"
    have a: "map_of (sn_active ?s) = (map_of (sn_active s))(p \<mapsto> ?h)" by (simp add: update_conv')
    have "following mord game_of (bound + elapsed) ?s"
      unfolding following_def
    proof (intro conjI)
      show "distinct (map fst (sn_active ?s))" using followingD(1) [OF ok] by (simp add: distinct_update)
      have "map_of (sn_active ?s) = (map_of (sn_active s))(p := None, p \<mapsto> ?h)" unfolding a by simp
      then show "one_each game_of (map_of (sn_active ?s))"
        using one_each_move [OF followingD(2) [OF ok] Some, of ?h p] one_each_game [OF followingD(2) [OF ok] Some]
          one_each_pid [OF followingD(2) [OF ok] Some] by simp
      show "tracks (map_of (sn_active ?s)) (feed mord (sn_out ?s) game_state_new)"
        unfolding a using tracks_credit [OF followingD(3,2) [OF ok] Some n(1)] by (simp add: feed_snoc)
      show "\<forall>x k. map_of (sn_active ?s) x = Some k \<longrightarrow> 0 \<le> ag_foreground_ms k \<and> ag_foreground_ms k \<le> bound + elapsed"
        unfolding a using followingD(4) [OF ok] g n by auto
    qed
    with ok show ?thesis unfolding eq by simp
  qed (simp add: credit_one_def ok)
qed

lemma following_weaken: "following mord game_of b s \<Longrightarrow> b \<le> b' \<Longrightarrow> following mord game_of b' s"
  unfolding following_def by (meson order_trans)

lemma following_credit:
  assumes ok: "following mord game_of bound s" and ord: "visits_all ord" and e: "0 \<le> elapsed" "bound + elapsed < 2 ^ 63"
  shows "following mord game_of (bound + elapsed) (credit_foreground ord live processes elapsed s)"
proof -
  have "following mord game_of (bound + elapsed) s \<Longrightarrow> distinct ps \<Longrightarrow>
      \<forall>p \<in> set ps. \<forall>g. map_of (sn_active s) p = Some g \<longrightarrow> ag_foreground_ms g \<le> bound \<Longrightarrow>
      following mord game_of (bound + elapsed) (fold (credit_one live processes elapsed) ps s)" for ps s
  proof (induction ps arbitrary: s)
    case (Cons p ps)
    have p: "\<And>g. map_of (sn_active s) p = Some g \<Longrightarrow> ag_foreground_ms g \<le> bound" using Cons.prems(3) by simp
    have same: "map_of (sn_active (credit_one live processes elapsed p s)) q = map_of (sn_active s) q" if "q \<noteq> p" for q
      by (rule following_credit_one(2) [OF Cons.prems(1) e _ that]) (rule p)
    have step: "following mord game_of (bound + elapsed) (credit_one live processes elapsed p s)"
      by (rule following_credit_one(1) [OF Cons.prems(1) e]) (rule p)
    have "\<forall>q \<in> set ps. \<forall>g. map_of (sn_active (credit_one live processes elapsed p s)) q = Some g \<longrightarrow> ag_foreground_ms g \<le> bound"
    proof (intro ballI allI impI)
      fix q g assume q: "q \<in> set ps" "map_of (sn_active (credit_one live processes elapsed p s)) q = Some g"
      with Cons.prems(2) have "q \<noteq> p" by auto
      from same [OF this] q Cons.prems(3) show "ag_foreground_ms g \<le> bound" by simp
    qed
    from Cons.IH [OF step _ this] Cons.prems(2) show ?case by simp
  qed simp
  from this [OF following_weaken [OF ok] hash_keys_distinct [OF ord followingD(1) [OF ok]]] e followingD(4) [OF ok]
  show ?thesis by (simp add: credit_foreground_def)
qed


lemma pick_primary_active:
  assumes "visits_all ord"
  shows "pick_primary ord active processes = Some p \<Longrightarrow> map_of active p \<noteq> None"
    "pick_primary ord active processes = None \<longleftrightarrow> active = []"
proof -
  show "pick_primary ord active processes = Some p \<Longrightarrow> map_of active p \<noteq> None"
    using hash_keys_mem [OF assms, of p active] min_by_key_Some by (fastforce simp: pick_primary_def)
  have "hash_keys ord active = [] \<longleftrightarrow> active = []" using hash_keys_set [OF assms, of active] by auto
  then show "pick_primary ord active processes = None \<longleftrightarrow> active = []" by (simp add: pick_primary_def min_by_key_None)
qed

lemma tracks_primary:
  assumes t: "tracks f m" and g: "\<And>x. gid = Some x \<Longrightarrow> map_of (gm_sessions m) x \<noteq> None" "gid = None \<Longrightarrow> gm_sessions m = []"
  shows "tracks f (snd (snd (handle_event ord (Primary_changed gid) m)))"
proof -
  have "snd (snd (handle_event ord (Primary_changed gid) m)) = m\<lparr>gm_primary := gid\<rparr>"
    using tracksD(2) [OF t] by (simp split: option.split)
  then show ?thesis using tracksD(1-4) [OF t] g by (intro tracksI) simp_all
qed

lemma following_silent:
  assumes "following mord game_of bound s" "sn_active s' = sn_active s" "sn_out s' = sn_out s @ [e]"
    "tracks (map_of (sn_active s)) (snd (snd (handle_event mord e (feed mord (sn_out s) game_state_new))))"
  shows "following mord game_of bound s'"
  using assms by (simp add: following_def feed_snoc)

lemma following_settle:
  assumes ok: "following mord game_of bound s" and ord: "visits_all ord"
  shows "following mord game_of bound (settle_primary ord processes s)"
proof (cases "pick_primary ord (sn_active s) processes = sn_primary s")
  case False
  let ?next = "pick_primary ord (sn_active s) processes"
  let ?gid = "map_option ag_game_id (Option.bind ?next (map_of (sn_active s)))"
  let ?m = "feed mord (sn_out s) game_state_new"
  note t = followingD(3) [OF ok]
  have "tracks (map_of (sn_active s)) (snd (snd (handle_event mord (Primary_changed ?gid) ?m)))"
  proof (rule tracks_primary [OF t])
    fix x assume "?gid = Some x"
    then obtain p g where "map_of (sn_active s) p = Some g" "ag_game_id g = x"
      by (auto simp: bind_eq_Some_conv)
    with tracksD(3) [OF t] show "map_of (gm_sessions ?m) x \<noteq> None" by fastforce
  next
    assume none: "?gid = None"
    have "?next = None"
      using none pick_primary_active(1) [OF ord] by (cases ?next) auto
    then have "sn_active s = []" by (simp add: pick_primary_active(2) [OF ord])
    with tracksD(4) [OF t] have "map_of (gm_sessions ?m) gid = None" for gid by fastforce
    then have "map_of (gm_sessions ?m) = Map.empty" by (rule ext)
    then show "gm_sessions ?m = []" by simp
  qed
  with False show ?thesis
    by (intro following_silent [OF ok, of _ "Primary_changed ?gid"]) (simp_all add: settle_primary_def Let_def)
qed (simp add: settle_primary_def ok)

lemma following_library:
  assumes "following mord game_of bound s" "sn_active s' = sn_active s" "sn_out s' = sn_out s @ [Library_scanned]"
  shows "following mord game_of bound s'"
  by (rule following_silent [OF assms]) (simp add: followingD(3) [OF assms(1)])

text \<open>
  What a scan may rely on: Rust visits every entry of a hash map once, and a process that resolves
  to a game resolves to the same game in every scan, so no pid comes back as another game.
\<close>

definition scan_sane :: "(nat \<Rightarrow> string) \<Rightarrow> scan_input \<Rightarrow> bool" where
  "scan_sane game_of i \<longleftrightarrow> visits_all (si_order i) \<and>
     (\<forall>p \<in> set (si_processes i). \<forall>m. si_resolve i p = Some m \<longrightarrow> md_game_id m = game_of (rp_pid p))"

lemma detected_found:
  assumes "scan_sane game_of i" "g \<in> set (detect_games (si_resolve i) (si_processes i) now)"
  shows "found game_of (ag_pid g, g)"
  using assms by (auto simp: detect_games_def List.map_filter_def scan_sane_def found_def)

lemma windowless_loop_subset: "set (fst (windowless_loop processes gs seen)) \<subseteq> set gs"
proof (induction gs arbitrary: seen)
  case (Cons g gs)
  have "set (if c then g # xs else xs) \<subseteq> set (g # gs)" if "set xs \<subseteq> set gs" for c xs using that by auto
  with Cons.IH show ?case by (simp add: Let_def split_beta) (meson subset_insertI2)
qed simp

definition last_ms :: "sensor \<Rightarrow> int" where
  "last_ms s = (case sn_last_scan s of None \<Rightarrow> 0 | Some t \<Rightarrow> int t div 1000000)"


section \<open>A scan keeps them in step\<close>

lemma scan_detected_subset:
  "set (fst (scan_detected w i s)) \<subseteq> set (detect_games (si_resolve i) (si_processes i) (si_now i))"
  using windowless_loop_subset by (simp add: scan_detected_def drop_windowless_def split_beta Let_def)

lemma scan_live_mem: "map_of (scan_live w i s) p = Some g \<Longrightarrow> g \<in> set (fst (scan_detected w i s)) \<and> p = ag_pid g"
  by (auto simp: scan_live_def dest!: hash_collect_mem)

lemma scan_live_found: "scan_sane game_of i \<Longrightarrow> \<forall>kv \<in> set (scan_live w i s). found game_of kv"
proof
  fix kv assume i: "scan_sane game_of i" assume "kv \<in> set (scan_live w i s)"
  moreover have "distinct (map fst (scan_live w i s))" by (simp add: scan_live_def hash_collect_distinct)
  ultimately have "map_of (scan_live w i s) (fst kv) = Some (snd kv)" by (simp add: map_of_eq_Some_iff)
  from scan_live_mem [OF this] scan_detected_subset detected_found [OF i]
  have "found game_of (ag_pid (snd kv), snd kv)" "fst kv = ag_pid (snd kv)" by blast+
  then show "found game_of kv" by (metis prod.collapse)
qed

text \<open>What the steps of a scan leave alone.\<close>

definition calm :: "sensor \<Rightarrow> sensor \<Rightarrow> bool" where
  "calm s s' \<longleftrightarrow> sn_orphans s' = sn_orphans s \<and> sn_last_scan s' = sn_last_scan s \<and> sn_windowless s' = sn_windowless s"

lemma calm_fold: "(\<And>x s. calm (g s) (g (f x s))) \<Longrightarrow> calm (g s) (g (fold f xs s))"
proof (induction xs arbitrary: s)
  case (Cons x xs)
  from Cons.prems [of s x] Cons.IH [OF Cons.prems, of "f x s"] show ?case by (simp add: calm_def)
qed (simp add: calm_def)

lemma calm_starts: "calm s (snd (coalesce_starts ord live startable s))"
proof -
  have "calm (snd os) (snd (start_one ord kv os))" for kv os
    by (cases kv, cases os) (simp add: calm_def start_one_def upgrade_representative_def Let_def split: option.split)
  from calm_fold [of snd, OF this, of "([], s)"] show ?thesis by (simp add: coalesce_starts_def Let_def split_beta)
qed

lemma calm_stops: "calm s (snd (coalesce_stops ord live startable now s))"
proof -
  have "calm (snd cs) (snd (stop_one ord live startable now p cs))" for p cs
    by (cases cs) (simp add: calm_def stop_one_def Let_def split: option.split prod.split)
  from calm_fold [of snd, OF this, of "(False, s\<lparr>sn_shadow := sh\<rparr>)" for sh] show ?thesis
    by (simp add: coalesce_stops_def Let_def calm_def)
qed

lemma calm_credit: "calm s (credit_foreground ord live processes elapsed s)"
proof -
  have "calm s (credit_one live processes elapsed p s)" for p s
    by (simp add: calm_def credit_one_def Let_def split: option.split)
  then have "calm (id s) (id (credit_one live processes elapsed p s))" for p s by simp
  from calm_fold [of id, OF this, where xs = "hash_keys ord (sn_active s)" and s = s] show ?thesis by (simp add: credit_foreground_def)
qed

lemma calm_scan: "calm (scan_recovered w i s) (snd (scan_once w i s))"
  using calm_starts [of "scan_recovered w i s" "si_order i" "scan_live w i s" "scan_startable w i s"]
    calm_stops [of "snd (coalesce_starts (si_order i) (scan_live w i s) (scan_startable w i s) (scan_recovered w i s))"
      "si_order i" "scan_live w i s" "scan_startable w i s" "si_now i"]
    calm_credit [of "snd (scan_diffed w i s)" "si_order i" "scan_live w i s" "si_processes i" "scan_elapsed i s"]
  by (simp add: calm_def scan_once_def library_turn_def persist_def scan_credited_def settle_primary_def scan_diffed_def
      Let_def split_beta)

lemma recovered_none:
  "sn_orphans s = [] \<Longrightarrow> scan_recovered w i s =
     s\<lparr>sn_orphans := [], sn_last_scan := Some (si_instant i), sn_windowless := snd (scan_detected w i s)\<rparr>"
  by (simp add: scan_recovered_def recover_orphans_def split_beta)

lemma scan_elapsed_bound:
  assumes "case_option True (\<lambda>t. t \<le> si_instant i) (sn_last_scan s)" "si_instant i < 2 ^ 63"
  shows "0 \<le> scan_elapsed i s" "last_ms s + scan_elapsed i s \<le> int (si_instant i) div 1000000" "0 \<le> last_ms s"
    "last_ms s + scan_elapsed i s < 2 ^ 63"
proof -
  have "int prev div 1000000 + int ((si_instant i - prev) div 1000000) \<le> int (si_instant i) div 1000000"
    if "prev \<le> si_instant i" for prev
  proof -
    have "int ((si_instant i - prev) div 1000000) = (int (si_instant i) - int prev) div 1000000"
      using that by (simp add: zdiv_int)
    then show ?thesis by linarith
  qed
  moreover have "wrap_i64 (int ((si_instant i - prev) div 1000000)) = int ((si_instant i - prev) div 1000000)" for prev
  proof (rule wrap_i64_id)
    have "int ((si_instant i - prev) div 1000000) \<le> int (si_instant i)"
      by (meson diff_le_self div_le_dividend le_trans of_nat_le_iff)
    also have "\<dots> < 2 ^ 63" using assms(2) by (simp flip: of_nat_less_iff)
    finally show "int ((si_instant i - prev) div 1000000) < 2 ^ 63" .
    show "- (2 ^ 63) \<le> int ((si_instant i - prev) div 1000000)" by (rule order_trans [of _ 0]) simp_all
  qed
  ultimately show le: "0 \<le> scan_elapsed i s" "last_ms s + scan_elapsed i s \<le> int (si_instant i) div 1000000" "0 \<le> last_ms s"
    using assms by (auto simp: scan_elapsed_def last_ms_def split: option.splits)
  show "last_ms s + scan_elapsed i s < 2 ^ 63" 
  proof -
    have "int (si_instant i) div 1000000 \<le> int (si_instant i)" by linarith
    also have "\<dots> < 2 ^ 63" using assms(2) by (simp flip: of_nat_less_iff)
    finally show ?thesis using le(2) by simp
  qed
qed

text \<open>A scan after it has recovered what was left by a crash.\<close>

lemma following_rest:
  assumes ok: "following mord game_of b (scan_recovered w i s)" and mord: "visits_all mord" and i: "scan_sane game_of i"
    and b: "0 \<le> b" "0 \<le> scan_elapsed i s" "b + scan_elapsed i s < 2 ^ 63"
  shows "following mord game_of (b + scan_elapsed i s) (snd (scan_once w i s))"
proof -
  have ord: "visits_all (si_order i)" using i by (simp add: scan_sane_def)
  note found = scan_live_found [OF i, of w s]
  from following_starts [OF ok ord b(1) _ found, of "scan_startable w i s"]
  have "following mord game_of b
      (snd (coalesce_starts (si_order i) (scan_live w i s) (scan_startable w i s) (scan_recovered w i s)))"
    by (simp add: scan_live_def hash_collect_distinct)
  from following_stops [OF this mord found] have "following mord game_of b (snd (scan_diffed w i s))"
    by (simp add: scan_diffed_def Let_def split_beta)
  from following_credit [OF this ord b(2,3)]
  have credited: "following mord game_of (b + scan_elapsed i s) (scan_credited w i s)"
    unfolding scan_credited_def by (rule following_settle [OF _ ord])
  have "following mord game_of (b + scan_elapsed i s) (library_turn (persist (si_order i) now (scan_credited w i s)
      \<lparr>sn_fast_left := n\<rparr>))" for now n
    unfolding library_turn_def persist_def
    by (auto intro: following_frame [OF credited] following_library [OF credited])
  then show ?thesis by (simp add: scan_once_def Let_def)
qed

text \<open>One scan that is not the first after a crash: nothing is left to recover.\<close>

lemma following_scan:
  assumes ok: "following mord game_of (last_ms s) s" and none: "sn_orphans s = []" and mord: "visits_all mord"
    and i: "scan_sane game_of i" and clock: "case_option True (\<lambda>t. t \<le> si_instant i) (sn_last_scan s)" "si_instant i < 2 ^ 63"
  shows "following mord game_of (last_ms (snd (scan_once w i s))) (snd (scan_once w i s))"
    "sn_orphans (snd (scan_once w i s)) = []" "sn_last_scan (snd (scan_once w i s)) = Some (si_instant i)"
proof -
  note bound = scan_elapsed_bound [OF clock]
  have "following mord game_of (last_ms s) (scan_recovered w i s)"
    by (rule following_frame [OF ok]) (simp_all add: recovered_none none)
  from following_weaken [OF following_rest [OF this mord i bound(3,1,4)] bound(2)]
  have "following mord game_of (int (si_instant i) div 1000000) (snd (scan_once w i s))" .
  moreover show kept: "sn_orphans (snd (scan_once w i s)) = []" "sn_last_scan (snd (scan_once w i s)) = Some (si_instant i)"
    using calm_scan [of w i s] by (simp_all add: calm_def recovered_none none)
  ultimately show "following mord game_of (last_ms (snd (scan_once w i s))) (snd (scan_once w i s))"
    by (simp add: last_ms_def)
qed

lemma following_scans:
  "following mord game_of (last_ms s) s \<Longrightarrow> sn_orphans s = [] \<Longrightarrow> visits_all mord \<Longrightarrow> \<forall>i \<in> set is. scan_sane game_of i \<Longrightarrow>
   sorted (map si_instant is) \<Longrightarrow> \<forall>i \<in> set is. case_option True (\<lambda>t. t \<le> si_instant i) (sn_last_scan s) \<and> si_instant i < 2 ^ 63 \<Longrightarrow>
   last_ms s < 2 ^ 63 \<Longrightarrow>
   following mord game_of (last_ms (scans w is s)) (scans w is s) \<and> last_ms (scans w is s) < 2 ^ 63"
proof (induction "is" arbitrary: s)
  case (Cons i "is")
  have i: "case_option True (\<lambda>t. t \<le> si_instant i) (sn_last_scan s)" "si_instant i < 2 ^ 63" "scan_sane game_of i"
    using Cons.prems(4,6) by simp_all
  note step = following_scan [OF Cons.prems(1-3) i(3,1,2), of w]
  have "int (si_instant i) div 1000000 \<le> int (si_instant i)" by linarith
  then have "last_ms (snd (scan_once w i s)) < 2 ^ 63" using i(2) step(3) by (simp add: last_ms_def flip: of_nat_less_iff)
  from Cons.IH [OF step(1,2) Cons.prems(3) _ _ _ this] Cons.prems(4-6) step(3) show ?case by simp
qed auto




end
