(* ===== verification/Game_Window.thy ===== *)
theory Game_Window
  imports Game_Tracking
begin

text \<open>
  The window decides what counts as play: which processes may open a session of the game sensor
  (\<open>Game_Sensing\<close>), which event ends one, and how long a session lives without a window.
\<close>

section \<open>Which events a scan sends\<close>

definition startable :: "raw_process list \<Rightarrow> nat \<Rightarrow> bool" where
  "startable processes pid \<longleftrightarrow>
     (\<exists>p. List.find (\<lambda>p. rp_pid p = pid) processes = Some p \<and> \<not> is_blank (rp_window_title p) \<and> \<not> rp_is_minimized p)"

lemma startable_pids_mem: "pid \<in> set (startable_pids detected processes) \<Longrightarrow> startable processes pid"
  by (auto simp: startable_pids_def startable_def split: option.splits)

lemma scan_live_distinct: "distinct (map fst (scan_live w i s))"
  by (simp add: scan_live_def hash_collect_distinct)

lemma scan_live_set: "(p, g) \<in> set (scan_live w i s) \<Longrightarrow> g \<in> set (fst (scan_detected w i s)) \<and> p = ag_pid g"
  using scan_live_mem [of w i s p g] map_of_eq_Some_iff [OF scan_live_distinct] by blast

text \<open>The new events of a step are of one kind and satisfy a condition.\<close>

definition sends :: "(game_event \<Rightarrow> bool) \<Rightarrow> sensor \<Rightarrow> sensor \<Rightarrow> bool" where
  "sends P s s' \<longleftrightarrow> (\<exists>new. sn_out s' = sn_out s @ new \<and> (\<forall>e \<in> set new. P e))"

lemma sends_refl: "sn_out s' = sn_out s \<Longrightarrow> sends P s s'"
  by (simp add: sends_def)

lemma sends_one: "sn_out s' = sn_out s @ [e] \<Longrightarrow> P e \<Longrightarrow> sends P s s'"
  by (simp add: sends_def)

lemma sends_trans [trans]: "sends P s s1 \<Longrightarrow> sends P s1 s2 \<Longrightarrow> sends P s s2"
  by (fastforce simp: sends_def)

lemma sends_mono: "sends P s s' \<Longrightarrow> (\<And>e. P e \<Longrightarrow> Q e) \<Longrightarrow> sends Q s s'"
  by (fastforce simp: sends_def)

lemma sends_fold: "(\<And>x s. x \<in> set xs \<Longrightarrow> sends P (g s) (g (f x s))) \<Longrightarrow> sends P (g s) (g (fold f xs s))"
proof (induction xs arbitrary: s)
  case (Cons x xs)
  have "sends P (g s) (g (f x s))" by (rule Cons.prems) simp
  moreover have "sends P (g (f x s)) (g (fold f xs (f x s)))" by (rule Cons.IH) (rule Cons.prems, simp)
  ultimately show ?case by (auto intro: sends_trans)
qed (simp add: sends_refl)

lemma sends_starts:
  "sends (\<lambda>e. \<exists>p g. e = Game_started g \<and> (p, g) \<in> set live \<and> p \<in> set st) s (snd (coalesce_starts ord live st s))"
proof -
  let ?P = "\<lambda>e. \<exists>p g. e = Game_started g \<and> (p, g) \<in> set live \<and> p \<in> set st"
  let ?news = "sort_key (\<lambda>(_, g). representative_rank g)
            (filter (\<lambda>(pid, _). map_of (sn_active s) pid = None \<and> map_of (sn_shadow s) pid = None \<and> pid \<in> set st) live)"
  have "sends ?P (snd os) (snd (start_one ord kv os))" if kv: "kv \<in> set ?news" for kv os
  proof -
    obtain p g opened t where e: "kv = (p, g)" "os = (opened, t)" by fastforce
    with kv have pg: "(p, g) \<in> set live" "p \<in> set st" by auto
    have "sn_out (snd (start_one ord kv os)) = sn_out t \<or> sn_out (snd (start_one ord kv os)) = sn_out t @ [Game_started g]"
      by (simp add: e start_one_def upgrade_representative_def Let_def split: option.split)
    with pg show ?thesis by (auto simp: e intro: sends_refl sends_one)
  qed
  from sends_fold [where g = snd and f = "start_one ord" and xs = ?news and s = "([], s)", OF this] show ?thesis
    by (simp add: coalesce_starts_def Let_def split_beta)
qed

lemma sends_stops:
  "sends (\<lambda>e. \<exists>g. e = Game_stopped g now \<and> (\<forall>(p, h) \<in> set live. ag_game_id h = ag_game_id g \<longrightarrow> p \<notin> set st))
     s (snd (coalesce_stops ord live st now s))"
proof -
  let ?P = "\<lambda>e. \<exists>g. e = Game_stopped g now \<and> (\<forall>(p, h) \<in> set live. ag_game_id h = ag_game_id g \<longrightarrow> p \<notin> set st)"
  have "sends ?P (snd cs) (snd (stop_one ord live st now p cs))" for p cs
  proof -
    obtain c t where cs: "cs = (c, t)" by fastforce
    show ?thesis
    proof (cases "map_of (sn_active t) p")
      case None
      then show ?thesis by (intro sends_refl) (simp add: stop_one_def cs)
    next
      case (Some g)
      let ?kin = "filter (\<lambda>(pid, h). ag_game_id h = ag_game_id g \<and> pid \<in> set st) live"
      show ?thesis
      proof (cases "min_by_key (\<lambda>(_, g). representative_rank g) ?kin")
        case None
        then have "?kin = []" by (simp add: min_by_key_None)
        then have "?P (Game_stopped g now)" by (auto simp: filter_empty_conv)
        then show ?thesis by (rule sends_one [rotated]) (simp add: stop_one_def cs Some None Let_def)
      next
        case (Some kv)
        with \<open>map_of (sn_active t) p = Some g\<close> show ?thesis
          by (intro sends_refl) (simp add: stop_one_def cs Let_def split: prod.split)
      qed
    qed
  qed
  from sends_fold [where g = snd and f = "stop_one ord live st now", OF this]
  have "sends ?P (snd cs) (snd (fold (stop_one ord live st now) ps cs))" for ps cs by blast
  from this [of "(False, s\<lparr>sn_shadow := sh\<rparr>)" for sh] show ?thesis
    by (simp add: coalesce_stops_def Let_def sends_def)
qed

lemma sends_credited:
  "sends (\<lambda>e. (\<exists>gid n. e = Foreground gid n) \<or> (\<exists>gid. e = Primary_changed gid)) (snd (scan_diffed w i s)) (scan_credited w i s)"
proof -
  let ?P = "\<lambda>e. (\<exists>gid n. e = Foreground gid n) \<or> (\<exists>gid. e = Primary_changed gid)"
  have "sends ?P s (credit_one live processes elapsed p s)" for live processes elapsed p s
    by (auto simp: credit_one_def Let_def split: option.split intro: sends_refl sends_one)
  then have "sends ?P t (credit_foreground ord live processes elapsed t)" for ord live processes elapsed t
    unfolding credit_foreground_def by (intro sends_fold [where g = "\<lambda>s. s"])
  moreover have "sends ?P t (settle_primary ord processes t)" for ord processes t
    by (auto simp: settle_primary_def Let_def intro: sends_refl sends_one)
  ultimately show ?thesis unfolding scan_credited_def by (rule sends_trans)
qed



section \<open>How long a game lives without a window\<close>

definition misses :: "(nat \<times> nat) list \<Rightarrow> nat \<Rightarrow> nat" where
  "misses seen p = (case map_of seen p of None \<Rightarrow> 0 | Some n \<Rightarrow> n)"

lemma windowless_loop_spec:
  "distinct (map ag_pid gs) \<Longrightarrow>
   (\<forall>g. g \<in> set (fst (windowless_loop ps gs seen)) \<longleftrightarrow>
      g \<in> set gs \<and> (has_window ps (ag_pid g) \<or> wrap_u u32_max (misses seen (ag_pid g) + 1) \<le> windowless_grace_scans)) \<and>
   (\<forall>p. map_of (snd (windowless_loop ps gs seen)) p =
      (if p \<notin> ag_pid ` set gs then map_of seen p else if has_window ps p then None
       else Some (wrap_u u32_max (misses seen p + 1))))"
proof (induction gs arbitrary: seen)
  case (Cons g gs)
  have d: "distinct (map ag_pid gs)" "ag_pid g \<notin> ag_pid ` set gs" using Cons.prems by simp_all
  let ?seen = "if has_window ps (ag_pid g) then AList.delete (ag_pid g) seen
    else AList.update (ag_pid g) (wrap_u u32_max (misses seen (ag_pid g) + 1)) seen"
  let ?rest = "windowless_loop ps gs ?seen"
  have other: "map_of ?seen p = map_of seen p" "misses ?seen p = misses seen p" if "p \<noteq> ag_pid g" for p
    using that by (simp_all add: misses_def update_conv' delete_conv')
  have pid: "ag_pid h \<noteq> ag_pid g" if "h \<in> set gs" for h using d(2) that by (metis imageI)
  define keep rest where "keep \<longleftrightarrow> has_window ps (ag_pid g) \<or> wrap_u u32_max (misses seen (ag_pid g) + 1) \<le> windowless_grace_scans"
    and "rest = windowless_loop ps gs ?seen"
  have out: "windowless_loop ps (g # gs) seen = (if keep then g # fst rest else fst rest, snd rest)"
    by (simp add: keep_def rest_def Let_def split_beta misses_def)
  note IH = Cons.IH [OF d(1), of ?seen, folded rest_def]
  show ?case unfolding out
  proof (intro conjI allI)
    fix h show "h \<in> set (fst (if keep then g # fst rest else fst rest, snd rest)) \<longleftrightarrow>
      h \<in> set (g # gs) \<and> (has_window ps (ag_pid h) \<or> wrap_u u32_max (misses seen (ag_pid h) + 1) \<le> windowless_grace_scans)"
    proof (cases "h = g")
      case True
      have "g \<notin> set (fst rest)" using IH pid by blast
      with True show ?thesis by (simp add: keep_def)
    next
      case False
      then show ?thesis using conjunct1 [OF IH, rule_format, of h] pid [of h] other(2) [of "ag_pid h"] by auto
    qed
  next
    fix p show "map_of (snd (if keep then g # fst rest else fst rest, snd rest)) p =
      (if p \<notin> ag_pid ` set (g # gs) then map_of seen p else if has_window ps p then None
       else Some (wrap_u u32_max (misses seen p + 1)))"
    proof (cases "p = ag_pid g")
      case True
      with conjunct2 [OF IH, rule_format, of p] d(2) show ?thesis by (simp add: update_conv' delete_conv')
    next
      case False
      with conjunct2 [OF IH, rule_format, of p] other [OF False] show ?thesis by simp
    qed
  qed
qed simp

lemma detect_pids: "distinct (map rp_pid ps) \<Longrightarrow> distinct (map ag_pid (detect_games resolve ps now))"
proof (induction ps)
  case (Cons p ps)
  have "ag_pid ` set (detect_games resolve ps now) \<subseteq> rp_pid ` set ps"
    by (auto simp: detect_games_def List.map_filter_def)
  then have "rp_pid p \<notin> ag_pid ` set (detect_games resolve ps now)" using Cons.prems by auto
  with Cons show ?case by (auto simp: detect_games_def map_filter_simps split: option.split)
qed (simp add: detect_games_def map_filter_simps)

text \<open>After a scan a live process has a window, or few scans without one.\<close>

lemma live_window:
  assumes "distinct (map rp_pid (si_processes i))" "g \<in> set (fst (scan_detected True i s))"
  shows "has_window (si_processes i) (ag_pid g) \<or>
    (misses (snd (scan_detected True i s)) (ag_pid g) = wrap_u u32_max (misses (sn_windowless s) (ag_pid g) + 1) \<and>
     wrap_u u32_max (misses (sn_windowless s) (ag_pid g) + 1) \<le> 2)"
    "misses (snd (scan_detected True i s)) (ag_pid g) \<le> 2"
proof -
  let ?all = "detect_games (si_resolve i) (si_processes i) (si_now i)"
  note spec = windowless_loop_spec [OF detect_pids [OF assms(1)], where ps = "si_processes i" and seen = "sn_windowless s" and
      resolve1 = "si_resolve i" and now1 = "si_now i"]
  have d: "scan_detected True i s = (fst (windowless_loop (si_processes i) ?all (sn_windowless s)),
      filter (\<lambda>(pid, _). pid \<in> ag_pid ` set ?all) (snd (windowless_loop (si_processes i) ?all (sn_windowless s))))"
    by (simp add: scan_detected_def drop_windowless_def split_beta Let_def)
  have filter: "map_of (filter (\<lambda>(k, _). k \<in> A) xs) k = (if k \<in> A then map_of xs k else None)" for A k and xs :: "(nat \<times> nat) list"
    by (induction xs) auto
  have g: "g \<in> set ?all" "has_window (si_processes i) (ag_pid g) \<or>
      wrap_u u32_max (misses (sn_windowless s) (ag_pid g) + 1) \<le> windowless_grace_scans"
    using assms(2) conjunct1 [OF spec, rule_format, of g] by (simp_all add: d)
  then have "map_of (snd (scan_detected True i s)) (ag_pid g) =
      (if has_window (si_processes i) (ag_pid g) then None else Some (wrap_u u32_max (misses (sn_windowless s) (ag_pid g) + 1)))"
    using conjunct2 [OF spec, rule_format, of "ag_pid g"] by (simp add: d filter)
  with g(2) show "has_window (si_processes i) (ag_pid g) \<or>
    (misses (snd (scan_detected True i s)) (ag_pid g) = wrap_u u32_max (misses (sn_windowless s) (ag_pid g) + 1) \<and>
     wrap_u u32_max (misses (sn_windowless s) (ag_pid g) + 1) \<le> 2)"
    "misses (snd (scan_detected True i s)) (ag_pid g) \<le> 2"
    by (auto simp: misses_def windowless_grace_scans_def)
qed


section \<open>A game without a window ends\<close>

definition only_in :: "(nat \<Rightarrow> string \<Rightarrow> bool) \<Rightarrow> sensor \<Rightarrow> bool" where
  "only_in P s \<longleftrightarrow> (\<forall>p g. map_of (sn_active s) p = Some g \<longrightarrow> P p (ag_game_id g))"

lemma only_in_start_one:
  assumes "only_in P (snd os)" "P (fst kv) (ag_game_id (snd kv))"
  shows "only_in P (snd (start_one ord kv os))"
proof -
  obtain p g opened s where e: "kv = (p, g)" "os = (opened, s)" by fastforce
  have "only_in P (upgrade_representative r p g s)" for r
    using assms by (auto simp: e only_in_def upgrade_representative_def inherit_def update_conv' delete_conv' split: option.split if_splits)
  with assms show ?thesis
    by (auto simp: e start_one_def only_in_def update_conv' Let_def split: option.split if_splits)
qed

lemma only_in_starts:
  assumes "only_in P s" "\<forall>(p, h) \<in> set live. p \<in> set st \<longrightarrow> P p (ag_game_id h)"
  shows "only_in P (snd (coalesce_starts ord live st s))"
proof -
  have "only_in P (snd os) \<Longrightarrow> \<forall>kv \<in> set news. P (fst kv) (ag_game_id (snd kv)) \<Longrightarrow> only_in P (snd (fold (start_one ord) news os))"
    for news os by (induction news arbitrary: os) (simp_all add: only_in_start_one)
  with assms show ?thesis by (auto simp: coalesce_starts_def Let_def split_beta)
qed

lemma only_in_stop_one:
  assumes "only_in P (snd cs)" "\<forall>(p, h) \<in> set live. p \<in> set st \<longrightarrow> P p (ag_game_id h)"
    and "\<forall>q. map_of (sn_active (snd cs)) q \<noteq> None \<longrightarrow> q \<in> fst ` set live \<or> q \<in> set (p # ps)"
  shows "only_in P (snd (stop_one ord live st now p cs)) \<and>
    (\<forall>q. map_of (sn_active (snd (stop_one ord live st now p cs))) q \<noteq> None \<longrightarrow> q \<in> fst ` set live \<or> q \<in> set ps)"
proof -
  obtain c s where cs: "cs = (c, s)" by fastforce
  show ?thesis
  proof (cases "map_of (sn_active s) p")
    case None
    with assms(1,3) show ?thesis by (auto simp: stop_one_def cs)
  next
    case (Some g)
    let ?kin = "filter (\<lambda>(pid, h). ag_game_id h = ag_game_id g \<and> pid \<in> set st) live"
    show ?thesis
    proof (cases "min_by_key (\<lambda>(_, g). representative_rank g) ?kin")
      case None
      with assms(1,3) show ?thesis
        by (auto simp: stop_one_def cs Some Let_def only_in_def delete_conv' split: if_splits)
    next
      case kin: (Some kv)
      obtain q h where kv: "kv = (q, h)" by fastforce
      from min_by_key_Some [OF kin] have h: "(q, h) \<in> set live" "q \<in> set st" by (simp_all add: kv)
      with assms(2) have "P q (ag_game_id h)" by blast
      moreover have "q \<in> fst ` set live" using h(1) by force
      ultimately show ?thesis
        using assms(1,3) by (auto simp: stop_one_def cs Some kin kv Let_def only_in_def inherit_def update_conv' delete_conv' split: if_splits)
    qed
  qed
qed

lemma only_in_stops:
  assumes "only_in P s" "\<forall>(p, h) \<in> set live. p \<in> set st \<longrightarrow> P p (ag_game_id h)" "visits_all ord"
  shows "only_in P (snd (coalesce_stops ord live st now s))"
    "map_of (sn_active (snd (coalesce_stops ord live st now s))) q \<noteq> None \<Longrightarrow> q \<in> fst ` set live"
proof -
  let ?s = "s\<lparr>sn_shadow := filter (\<lambda>(pid, _). map_of live pid \<noteq> None) (sn_shadow s)\<rparr>"
  let ?gone = "filter (\<lambda>pid. map_of live pid = None) (hash_keys ord (sn_active ?s))"
  have loop: "only_in P (snd (fold (stop_one ord live st now) ps cs)) \<and>
      (\<forall>q. map_of (sn_active (snd (fold (stop_one ord live st now) ps cs))) q \<noteq> None \<longrightarrow> q \<in> fst ` set live)"
    if "only_in P (snd cs)" "\<forall>q. map_of (sn_active (snd cs)) q \<noteq> None \<longrightarrow> q \<in> fst ` set live \<or> q \<in> set ps" for ps cs
    using that
  proof (induction ps arbitrary: cs)
    case (Cons p ps)
    note step = only_in_stop_one [OF Cons.prems(1) assms(2) Cons.prems(2), of ord now]
    from Cons.IH [OF conjunct1 [OF step] conjunct2 [OF step]] show ?case by simp
  qed simp
  have "only_in P (snd (False, ?s))" using assms(1) by (simp add: only_in_def)
  moreover have "\<forall>q. map_of (sn_active (snd (False, ?s))) q \<noteq> None \<longrightarrow> q \<in> fst ` set live \<or> q \<in> set ?gone"
    using hash_keys_mem [OF assms(3)] by (auto simp: map_of_eq_None_iff)
  ultimately have all: "only_in P (snd (coalesce_stops ord live st now s)) \<and>
      (\<forall>q. map_of (sn_active (snd (coalesce_stops ord live st now s))) q \<noteq> None \<longrightarrow> q \<in> fst ` set live)"
    unfolding coalesce_stops_def Let_def by (rule loop)
  from all show "only_in P (snd (coalesce_stops ord live st now s))" by (rule conjunct1)
  from all show "map_of (sn_active (snd (coalesce_stops ord live st now s))) q \<noteq> None \<Longrightarrow> q \<in> fst ` set live" by blast
qed

lemma credited_active:
  "map_option ag_game_id (map_of (sn_active (scan_credited w i s)) p) =
   map_option ag_game_id (map_of (sn_active (snd (scan_diffed w i s))) p)"
proof -
  have "map_option ag_game_id (map_of (sn_active (credit_one live processes elapsed q t)) p) = map_option ag_game_id (map_of (sn_active t) p)"
    for live processes elapsed q t
    by (simp add: credit_one_def Let_def update_conv' split: option.split)
  then have "map_option ag_game_id (map_of (sn_active (fold (credit_one live processes elapsed) qs t)) p) =
      map_option ag_game_id (map_of (sn_active t) p)" for live processes elapsed qs t
    by (induction qs arbitrary: t) simp_all
  then show ?thesis by (simp add: scan_credited_def settle_primary_def credit_foreground_def Let_def)
qed

definition unseen :: "string \<Rightarrow> scan_input \<Rightarrow> bool" where
  "unseen gid i \<longleftrightarrow> (\<forall>p \<in> set (si_processes i). \<forall>m. si_resolve i p = Some m \<longrightarrow> md_game_id m = gid \<longrightarrow>
     \<not> has_window (si_processes i) (rp_pid p))"

lemma unseen_detected:
  "unseen gid i \<Longrightarrow> g \<in> set (fst (scan_detected w i s)) \<Longrightarrow> ag_game_id g = gid \<Longrightarrow> \<not> has_window (si_processes i) (ag_pid g)"
  using scan_detected_subset [of w i s] by (fastforce simp: detect_games_def List.map_filter_def unseen_def)

lemma scan_active_ids:
  "map_option ag_game_id (map_of (sn_active (snd (scan_once w i s))) p) =
   map_option ag_game_id (map_of (sn_active (snd (scan_diffed w i s))) p)"
  using credited_active [of w i s p] by (simp add: scan_once_def library_turn_def persist_def Let_def)

text \<open>A scan that sees no window of a game keeps at most the process it tracked, while that is alive.\<close>

lemma scan_active_only:
  assumes "only_in P (scan_recovered w i s)" "visits_all (si_order i)"
    "\<forall>(p, h) \<in> set (scan_live w i s). p \<in> set (scan_startable w i s) \<longrightarrow> P p (ag_game_id h)"
    and g: "map_of (sn_active (snd (scan_once w i s))) p = Some g"
  shows "P p (ag_game_id g) \<and> p \<in> fst ` set (scan_live w i s)"
proof -
  note t = only_in_stops [OF only_in_starts [OF assms(1,3)] assms(3,2)]
  from g scan_active_ids [of w i s p]
  have "map_option ag_game_id (map_of (sn_active (snd (scan_diffed w i s))) p) = Some (ag_game_id g)" by simp
  then obtain h where "map_of (sn_active (snd (scan_diffed w i s))) p = Some h" "ag_game_id h = ag_game_id g" by auto
  with t show ?thesis by (fastforce simp: scan_diffed_def Let_def split_beta only_in_def)
qed

lemma scan_active_unseen:
  assumes "unseen gid i" "scan_sane game_of i" "sn_orphans s = []"
    and g: "map_of (sn_active (snd (scan_once True i s))) p = Some g" "ag_game_id g = gid"
  shows "(\<exists>g. map_of (sn_active s) p = Some g \<and> ag_game_id g = gid) \<and> p \<in> fst ` set (scan_live True i s)"
proof -
  let ?P = "\<lambda>p k. k = gid \<longrightarrow> (\<exists>g. map_of (sn_active s) p = Some g \<and> ag_game_id g = gid)"
  let ?live = "scan_live True i s" and ?st = "scan_startable True i s"
  have "\<forall>(p, h) \<in> set ?live. p \<in> set ?st \<longrightarrow> ?P p (ag_game_id h)"
  proof (intro ballI, clarify)
    fix p h assume h: "(p, h) \<in> set ?live" "p \<in> set ?st" "gid = ag_game_id h"
    from h(2) have "startable (si_processes i) p" by (auto simp: scan_startable_def Let_def dest: startable_pids_mem)
    then have "has_window (si_processes i) p" by (auto simp: startable_def has_window_def)
    with unseen_detected [OF assms(1)] scan_live_set [OF h(1)] h(3)
    show "\<exists>g. map_of (sn_active s) p = Some g \<and> ag_game_id g = ag_game_id h" by blast
  qed
  moreover have "only_in ?P (scan_recovered True i s)" by (simp add: only_in_def recovered_none assms(3))
  moreover have "visits_all (si_order i)" using assms(2) by (simp add: scan_sane_def)
  ultimately show ?thesis using scan_active_only [of ?P True i s p g] g by blast
qed

definition graced :: "sensor \<Rightarrow> bool" where
  "graced s \<longleftrightarrow> (\<forall>p. map_of (sn_active s) p \<noteq> None \<longrightarrow> misses (sn_windowless s) p \<le> 2)"

lemma scan_windowless: "sn_orphans s = [] \<Longrightarrow> sn_windowless (snd (scan_once w i s)) = snd (scan_detected w i s)"
  using calm_scan [of w i s] by (simp add: calm_def recovered_none)

lemma graced_scan:
  assumes "scan_sane game_of i" "distinct (map rp_pid (si_processes i))" "sn_orphans s = []"
  shows "graced (snd (scan_once True i s))"
  unfolding graced_def
proof (intro allI impI)
  fix p assume "map_of (sn_active (snd (scan_once True i s))) p \<noteq> None"
  then obtain g where "map_of (sn_active (snd (scan_once True i s))) p = Some g" by auto
  moreover have "visits_all (si_order i)" using assms(1) by (simp add: scan_sane_def)
  ultimately have "p \<in> fst ` set (scan_live True i s)"
    using scan_active_only [of "\<lambda>_ _. True" True i s] by (auto simp: only_in_def)
  then obtain h where "(p, h) \<in> set (scan_live True i s)" by force
  from scan_live_set [OF this] have "h \<in> set (fst (scan_detected True i s))" "p = ag_pid h" by simp_all
  with live_window(2) [OF assms(2)] show "misses (sn_windowless (snd (scan_once True i s))) p \<le> 2"
    by (simp add: scan_windowless assms(3))
qed

text \<open>A scan without the window counts one more miss for a process that stays tracked.\<close>

lemma unseen_counts:
  assumes "unseen gid i" "scan_sane game_of i" "sn_orphans s = []" "distinct (map rp_pid (si_processes i))" "graced s"
    and one: "one_each game_of (map_of (sn_active s))"
    and g: "map_of (sn_active (snd (scan_once True i s))) p = Some g" "ag_game_id g = gid"
  shows "(\<exists>g. map_of (sn_active s) p = Some g \<and> ag_game_id g = gid) \<and>
    misses (sn_windowless (snd (scan_once True i s))) p = misses (sn_windowless s) p + 1 \<and>
    misses (sn_windowless s) p + 1 \<le> 2"
proof -
  note a = scan_active_unseen [OF assms(1-3) g]
  then obtain k where k: "map_of (sn_active s) p = Some k" "ag_game_id k = gid" by blast
  from a obtain h where h: "(p, h) \<in> set (scan_live True i s)" by force
  have d: "h \<in> set (fst (scan_detected True i s))" "p = ag_pid h" using scan_live_set [OF h] by simp_all
  have "h \<in> set (detect_games (si_resolve i) (si_processes i) (si_now i))" using d(1) scan_detected_subset by blast
  from detected_found [OF assms(2) this] d(2) have "ag_game_id h = game_of p" by (simp add: found_def)
  with one_each_game [OF one k(1)] k(2) have "ag_game_id h = gid" by simp
  from unseen_detected [OF assms(1) d(1) this] d(2) have "\<not> has_window (si_processes i) p" by simp
  with live_window(1) [OF assms(4) d(1)] d(2)
  have "misses (snd (scan_detected True i s)) p = wrap_u u32_max (misses (sn_windowless s) p + 1)"
    "wrap_u u32_max (misses (sn_windowless s) p + 1) \<le> 2" by simp_all
  moreover have "misses (sn_windowless s) p \<le> 2" using assms(5) k by (simp add: graced_def)
  then have "wrap_u u32_max (misses (sn_windowless s) p + 1) = misses (sn_windowless s) p + 1" by (simp add: u32_max_def)
  ultimately show ?thesis using k by (simp add: scan_windowless assms(3))
qed

definition run_ok :: "(string list \<Rightarrow> string list) \<Rightarrow> (nat \<Rightarrow> string) \<Rightarrow> instant \<Rightarrow> sensor \<Rightarrow> bool" where
  "run_ok mord game_of t s \<longleftrightarrow> following mord game_of (last_ms s) s \<and> sn_orphans s = [] \<and> graced s \<and>
     case_option True (\<lambda>u. u \<le> t) (sn_last_scan s)"

definition input_ok :: "(nat \<Rightarrow> string) \<Rightarrow> scan_input \<Rightarrow> bool" where
  "input_ok game_of i \<longleftrightarrow> scan_sane game_of i \<and> distinct (map rp_pid (si_processes i)) \<and> si_instant i < 2 ^ 63"

lemma run_ok_scan:
  assumes "run_ok mord game_of t s" "visits_all mord" "input_ok game_of i" "t \<le> si_instant i"
  shows "run_ok mord game_of (si_instant i) (snd (scan_once True i s))"
proof -
  have a: "following mord game_of (last_ms s) s" "sn_orphans s = []"
    "case_option True (\<lambda>u. u \<le> si_instant i) (sn_last_scan s)"
    using assms(1,4) by (auto simp: run_ok_def split: option.splits)
  have i: "scan_sane game_of i" "distinct (map rp_pid (si_processes i))" "si_instant i < 2 ^ 63"
    using assms(3) by (simp_all add: input_ok_def)
  from following_scan [OF a(1,2) assms(2) i(1) a(3) i(3), of True] graced_scan [OF i(1,2) a(2)]
  show ?thesis by (simp add: run_ok_def)
qed

lemma run_ok_scans:
  "run_ok mord game_of t s \<Longrightarrow> visits_all mord \<Longrightarrow> \<forall>i \<in> set is. input_ok game_of i \<Longrightarrow> sorted (t # map si_instant is) \<Longrightarrow>
   run_ok mord game_of (last (t # map si_instant is)) (scans True is s)"
proof (induction "is" arbitrary: s t)
  case (Cons i "is")
  have "run_ok mord game_of (si_instant i) (snd (scan_once True i s))"
    by (rule run_ok_scan [OF Cons.prems(1,2)]) (use Cons.prems in auto)
  from Cons.IH [OF this Cons.prems(2)] Cons.prems(3,4) show ?case by simp
qed simp

lemma run_ok_new: "run_ok mord game_of 0 (sensor_new [])"
  using following_new [of mord game_of "last_ms (sensor_new [])"]
  by (simp add: run_ok_def graced_def sensor_new_def)




end
