(* ===== verification/Game_Ledger.thy ===== *)
theory Game_Ledger
  imports Game_Tracking
begin

text \<open>
  What the client records of the games (\<open>Game_Session\<close>): over any events of the sensor and of the
  telemetry adapters, the summary of a session and the games that wait for their adapter.
\<close>

datatype client_event = Sensed game_event | Told telemetry_event

fun client_step ::
  "(string list \<Rightarrow> string list) \<Rightarrow> client_event \<Rightarrow> game_state \<Rightarrow> game_ui list \<times> session_summary option \<times> game_state" where
  "client_step ord (Sensed e) m = handle_event ord e m"
| "client_step ord (Told e) m = handle_telemetry ord e m"

definition after :: "(string list \<Rightarrow> string list) \<Rightarrow> client_event list \<Rightarrow> game_state \<Rightarrow> game_state" where
  "after ord = fold (\<lambda>e m. snd (snd (client_step ord e m)))"

lemma after_simps [simp]:
  "after ord [] m = m" "after ord (e # es) m = after ord es (snd (snd (client_step ord e m)))"
  "after ord (es @ es') m = after ord es' (after ord es m)"
  by (simp_all add: after_def)

section \<open>One game's session through an event\<close>

definition session :: "string \<Rightarrow> game_state \<Rightarrow> game_session option" where
  "session gid m = map_of (gm_sessions m) gid"

definition keyed :: "game_state \<Rightarrow> bool" where
  "keyed m \<longleftrightarrow> (\<forall>gid s. session gid m = Some s \<longrightarrow> ag_game_id (gs_game s) = gid) \<and>
     (\<forall>gid g. map_of (gm_pending m) gid = Some g \<longrightarrow> ag_game_id g = gid)"

text \<open>The events that end the session of a game, and the match results for it.\<close>

fun ends :: "string \<Rightarrow> client_event \<Rightarrow> bool" where
  "ends gid (Sensed (Game_stopped g t)) \<longleftrightarrow> ag_game_id g = gid"
| "ends gid (Told (Activity_ended k t)) \<longleftrightarrow> k = gid"
| "ends gid _ \<longleftrightarrow> False"

fun match_of :: "string \<Rightarrow> client_event \<Rightarrow> match_result list" where
  "match_of gid (Told (Match_ended r)) = (if mr_game_id r = gid then [r] else [])"
| "match_of gid _ = []"

definition matches_of :: "string \<Rightarrow> client_event list \<Rightarrow> match_result list" where
  "matches_of gid es = concat (map (match_of gid) es)"

lemma close_session_sessions:
  "session k (snd (snd (close_session ord gid e fg m))) = (if k = gid then None else session k m)"
  by (simp add: session_def close_session_state delete_conv')

lemma match_key:
  assumes "keyed m" "visits_all ord"
  shows "List.find (\<lambda>k. map_option (\<lambda>s. ag_game_id (gs_game s)) (map_of (gm_sessions m) k) = Some gid)
      (hash_keys ord (gm_sessions m)) = (if session gid m = None then None else Some gid)"
proof -
  let ?P = "\<lambda>k. map_option (\<lambda>s. ag_game_id (gs_game s)) (map_of (gm_sessions m) k) = Some gid"
  have only: "k = gid \<and> session gid m \<noteq> None" if "?P k" for k
  proof -
    from that obtain s where "session k m = Some s" "ag_game_id (gs_game s) = gid" by (auto simp: session_def)
    with assms(1) show ?thesis by (auto simp: keyed_def)
  qed
  show ?thesis
  proof (cases "List.find ?P (hash_keys ord (gm_sessions m))")
    case None
    have "session gid m = None"
    proof (rule ccontr)
      assume "session gid m \<noteq> None"
      then have "gid \<in> set (hash_keys ord (gm_sessions m))" "?P gid"
        using assms hash_keys_mem [OF assms(2), of gid "gm_sessions m"] by (auto simp: session_def keyed_def)
      with None [unfolded find_None_all] show False by blast
    qed
    with None show ?thesis by simp
  next
    case (Some k)
    with only [of k] find_Some_mem [OF Some] show ?thesis by simp
  qed
qed

lemma keyed_step: "keyed m \<Longrightarrow> visits_all ord \<Longrightarrow> keyed (snd (snd (client_step ord e m)))"
proof (cases e)
  case (Sensed ev)
  assume k: "keyed m"
  show ?thesis
  proof (cases ev)
    case (Game_started g)
    with k show ?thesis by (auto simp: Sensed keyed_def session_def update_conv' split: option.split)
  next
    case (Game_stopped g t)
    with k show ?thesis by (auto simp: Sensed keyed_def close_session_sessions close_session_state delete_conv' session_def)
  next
    case (Foreground gid n)
    with k show ?thesis by (auto simp: Sensed keyed_def session_def map_of_map_entry)
  qed (use k in \<open>auto simp: Sensed keyed_def session_def\<close>)
next
  case (Told ev)
  assume k: "keyed m" and ord: "visits_all ord"
  show ?thesis
  proof (cases ev)
    case (Activity_started gid a t)
    with k show ?thesis
      by (auto simp: Told keyed_def session_def update_conv' delete_conv' Let_def split: option.split)
  next
    case (Activity_ended gid t)
    have "session gid m = Some s \<Longrightarrow> ag_game_id (gs_game s) = gid" for s using k by (simp add: keyed_def)
    with k show ?thesis
      by (auto simp: Told Activity_ended keyed_def close_session_state update_conv' delete_conv' split_beta session_def
          split: option.split)
  next
    case (Activity_named gid a n)
    with k show ?thesis by (auto simp: Told keyed_def session_def update_conv' split: option.split)
  next
    case (Match_ended r)
    with k match_key [OF k ord, of "mr_game_id r"] show ?thesis
      by (auto simp: Told keyed_def session_def map_of_map_entry)
  qed (use k in \<open>simp_all add: Told\<close>)
qed

lemma keyed_after: "keyed m \<Longrightarrow> visits_all ord \<Longrightarrow> keyed (after ord es m)"
  by (induction es arbitrary: m) (simp_all add: keyed_step)

lemma keyed_new: "keyed (set_gated_games ids game_state_new)"
  by (simp add: keyed_def session_def set_gated_games_def game_state_new_def)


section \<open>The summary of a session\<close>

lemma session_step:
  assumes "keyed m" "visits_all ord" "session gid m = Some s" "\<not> ends gid e"
  shows "\<exists>s'. session gid (snd (snd (client_step ord e m))) = Some s' \<and> gs_matches s' = gs_matches s @ match_of gid e"
proof (cases e)
  case (Sensed ev)
  show ?thesis
  proof (cases ev)
    case (Game_started g)
    with assms(3) show ?thesis
      by (cases "ag_game_id g = gid") (auto simp: Sensed session_def update_conv' split: option.split)
  next
    case (Game_stopped g t)
    with assms(3,4) show ?thesis by (auto simp: Sensed close_session_sessions session_def close_session_state delete_conv')
  next
    case (Foreground k n)
    with assms(3) show ?thesis by (auto simp: Sensed session_def map_of_map_entry)
  qed (use assms(3) in \<open>auto simp: Sensed session_def\<close>)
next
  case (Told ev)
  show ?thesis
  proof (cases ev)
    case (Activity_started k a t)
    with assms(3) show ?thesis
      by (cases "k = gid") (auto simp: Told session_def update_conv' Let_def split: option.split)
  next
    case (Activity_ended k t)
    with assms(3,4) show ?thesis
      by (auto simp: Told session_def close_session_state delete_conv' split_beta split: option.split)
  next
    case (Activity_named k a n)
    with assms(3) show ?thesis
      by (cases "k = gid") (auto simp: Told session_def update_conv' split: option.split)
  next
    case (Match_ended r)
    with assms(3) match_key [OF assms(1,2), of "mr_game_id r"] show ?thesis
      by (auto simp: Told session_def map_of_map_entry)
  qed (use assms(3) in \<open>simp_all add: Told\<close>)
qed

lemma session_opens:
  assumes "keyed m" "visits_all ord" "session gid m = None" "session gid (snd (snd (client_step ord e m))) = Some s"
  shows "gs_matches s = []"
proof (cases e)
  case (Sensed ev)
  with assms(3,4) show ?thesis
    by (cases ev) (auto simp: session_def update_conv' map_of_map_entry close_session_state delete_conv' split: option.splits if_splits)
next
  case (Told ev)
  show ?thesis
  proof (cases ev)
    case (Match_ended r)
    with assms(3,4) match_key [OF assms(1,2), of "mr_game_id r"] show ?thesis
      by (auto simp: Told session_def map_of_map_entry split: if_splits)
  qed (use assms(3,4) in \<open>auto simp: Told session_def update_conv' delete_conv' close_session_state split_beta Let_def
      split: option.splits if_splits\<close>)
qed

lemma session_after:
  "keyed m \<Longrightarrow> visits_all ord \<Longrightarrow> session gid m = Some s \<Longrightarrow> \<forall>e \<in> set es. \<not> ends gid e \<Longrightarrow>
   \<exists>s'. session gid (after ord es m) = Some s' \<and> gs_matches s' = gs_matches s @ matches_of gid es"
proof (induction es arbitrary: m s)
  case (Cons e es)
  have e: "\<not> ends gid e" "\<forall>e \<in> set es. \<not> ends gid e" using Cons.prems(4) by simp_all
  obtain s1 where s1: "session gid (snd (snd (client_step ord e m))) = Some s1" "gs_matches s1 = gs_matches s @ match_of gid e"
    using session_step [OF Cons.prems(1-3) e(1)] by blast
  from Cons.IH [OF keyed_step [OF Cons.prems(1,2)] Cons.prems(2) s1(1) e(2)] s1(2) show ?case
    by (auto simp: matches_of_def)
qed (simp add: matches_of_def)

definition count_results :: "outcome \<Rightarrow> match_result list \<Rightarrow> nat" where
  "count_results o' ms = length (filter (\<lambda>r. mr_streak_eligible r \<and> mr_result r = o') ms)"

lemma tally_counts:
  assumes "length ms \<le> u32_max"
  shows "tally ms = (count_results Win ms, count_results Loss ms, count_results Draw ms)"
  using assms
proof (induction ms rule: rev_induct)
  case (snoc r ms)
  have le: "count_results o' ms \<le> length ms" for o' by (simp add: count_results_def)
  have "count_results o' ms + 1 \<le> u32_max" for o' using le [of o'] snoc.prems by simp
  with snoc show ?case
    by (cases "mr_result r") (simp_all add: tally_def count_results_def)
qed (simp add: tally_def count_results_def)

lemma close_session_summary:
  assumes "session gid m = Some s"
  shows "(\<exists>d. fst (close_session ord gid t fg m) =
       [Ui_game_ended (ag_game_id (gs_game s)) (ag_game_name (gs_game s)) (ag_short_name (gs_game s)) d] \<and>
     (case fst (snd (close_session ord gid t fg m)) of
        None \<Rightarrow> d < 2
      | Some x \<Rightarrow> 2 \<le> d \<and> ss_duration_min x = d \<and> ss_game_id x = ag_game_id (gs_game s) \<and> ss_matches x = gs_matches s \<and>
          (ss_wins x, ss_losses x, ss_draws x) = tally (gs_matches s) \<and> ss_end_ms x = t \<and>
          ss_start_ms x = ag_started_at (gs_game s) \<and> ss_activity x = gs_activity_name s))"
  using assms by (cases "tally (gs_matches s)") (simp add: session_def close_session_def Let_def min_session_ledger_min_def)

lemma ending_event:
  assumes "ends gid c" "session gid m1 = Some s"
  shows "\<exists>t fg m. fst (client_step ord c m1) = fst (close_session ord gid t fg m) \<and>
    fst (snd (client_step ord c m1)) = fst (snd (close_session ord gid t fg m)) \<and> session gid m = Some s \<and>
    session gid (snd (snd (client_step ord c m1))) = None"
proof (cases "(gid, c)" rule: ends.cases)
  case (1 k g t)
  with assms show ?thesis
    by (intro exI [of _ t] exI [of _ "ag_foreground_ms g"] exI [of _ "m1\<lparr>gm_pending := AList.delete gid (gm_pending m1)\<rparr>"])
      (simp add: session_def close_session_state delete_conv')
next
  case (2 l k t)
  with assms show ?thesis
    by (intro exI [of _ t] exI [of _ "ag_foreground_ms (gs_game s)"] exI [of _ m1])
      (simp add: session_def close_session_state delete_conv' split_beta)
qed (use assms in simp_all)




section \<open>Games that wait for their adapter\<close>

definition gated_ok :: "string list \<Rightarrow> game_state \<Rightarrow> bool" where
  "gated_ok ids m \<longleftrightarrow> gm_gated m = set ids \<and>
     (\<forall>gid. map_of (gm_pending m) gid \<noteq> None \<longrightarrow> gid \<in> set ids \<and> session gid m = None)"

lemma gated_ok_new: "gated_ok ids (set_gated_games ids game_state_new)"
  by (simp add: gated_ok_def set_gated_games_def game_state_new_def)

text \<open>Only the adapters of gated games report activities.\<close>

definition from_gate :: "string list \<Rightarrow> client_event \<Rightarrow> bool" where
  "from_gate ids e \<longleftrightarrow> (\<forall>gid t. e = Told (Activity_ended gid t) \<longrightarrow> gid \<in> set ids)"

lemma gated_ok_step:
  "gated_ok ids m \<Longrightarrow> keyed m \<Longrightarrow> visits_all ord \<Longrightarrow> from_gate ids e \<Longrightarrow> gated_ok ids (snd (snd (client_step ord e m)))"
proof (cases e)
  case (Sensed ev)
  assume m: "gated_ok ids m"
  show ?thesis
  proof (cases ev)
    case (Game_started g)
    with m show ?thesis by (auto simp: Sensed gated_ok_def session_def update_conv' split: option.split)
  next
    case (Game_stopped g t)
    with m show ?thesis by (auto simp: Sensed gated_ok_def session_def close_session_state delete_conv')
  next
    case (Foreground gid n)
    with m show ?thesis by (auto simp: Sensed gated_ok_def session_def map_of_map_entry)
  qed (use m in \<open>auto simp: Sensed gated_ok_def session_def\<close>)
next
  case (Told ev)
  assume m: "gated_ok ids m" and k: "keyed m" and ord: "visits_all ord" and gate: "from_gate ids e"
  show ?thesis
  proof (cases ev)
    case (Activity_started gid a t)
    with m show ?thesis
      by (auto simp: Told gated_ok_def session_def update_conv' delete_conv' Let_def split: option.split)
  next
    case (Activity_ended gid t)
    with gate have "gid \<in> set ids" by (simp add: from_gate_def Told)
    with m show ?thesis
      by (auto simp: Told Activity_ended gated_ok_def session_def close_session_state update_conv' delete_conv' split_beta
          split: option.split)
  next
    case (Activity_named gid a n)
    with m show ?thesis by (auto simp: Told gated_ok_def session_def update_conv' split: option.split)
  next
    case (Match_ended r)
    with m match_key [OF k ord, of "mr_game_id r"] show ?thesis
      by (auto simp: Told gated_ok_def session_def map_of_map_entry)
  qed (use m in \<open>simp_all add: Told\<close>)
qed

lemma gated_ok_after:
  "gated_ok ids m \<Longrightarrow> keyed m \<Longrightarrow> visits_all ord \<Longrightarrow> \<forall>e \<in> set es. from_gate ids e \<Longrightarrow> gated_ok ids (after ord es m)"
  by (induction es arbitrary: m) (simp_all add: gated_ok_step keyed_step)



end
