(* ===== verification/Game_Restart.thy ===== *)
theory Game_Restart
  imports Game_Window
begin

text \<open>
  A restart of the client while games run: what the sensor saved (\<open>session_store.rs\<close>), what the next
  run makes of it in its first scan (\<open>game_sensing.rs\<close>), and what the new client's sessions then
  are (\<open>game_state.rs\<close>). The last section shows where a session is lost.
\<close>

section \<open>The store\<close>

lemma store_take_save:
  assumes "\<And>xs. \<exists>j. enc xs = Some j \<and> dec j = Some xs"
  shows "fst (store_take dec v (Some p) (store_save enc Written (Some p) saved d)) = saved"
proof -
  obtain j where "enc saved = Some j" "dec j = Some saved" using assms by blast
  then show ?thesis by (simp add: store_save_def store_take_def)
qed

lemma persisted_keys:
  assumes "visits_all ord" "distinct (map fst active)"
  shows "set (List.map_filter (map_of active) (hash_keys ord active)) = snd ` set active"
proof -
  have "set (List.map_filter (map_of active) (hash_keys ord active)) = {g. \<exists>p. map_of active p = Some g}"
    using hash_keys_mem [OF assms(1), of _ active] by (force simp: List.map_filter_def)
  also have "\<dots> = snd ` set active" using assms(2) by (force simp: map_of_eq_Some_iff)
  finally show ?thesis .
qed

section \<open>Recovery\<close>

definition live_of :: "active_game list \<Rightarrow> persisted_session \<Rightarrow> active_game option" where
  "live_of detected o' = List.find (\<lambda>g. resume_matches o' (ag_pid g) (ag_started_at_ms g)) detected"

lemma live_of_Some: "live_of detected o' = Some g \<Longrightarrow> g \<in> set detected \<and> ag_pid g = pe_pid o' \<and>
    ag_started_at_ms g = pe_started_at_ms o' \<and> pe_started_at_ms o' \<noteq> 0"
  by (auto simp: live_of_def resume_matches_def dest: find_Some_mem)

lemma handle_stop_unknown:
  assumes "gm_pending m = []" "map_of (gm_sessions m) (ag_game_id k) = None"
  shows "handle_event ord (Game_stopped k e) m = ([], None, m)"
proof -
  have "m\<lparr>gm_pending := []\<rparr> = m" using assms(1) by (cases m) simp
  then show ?thesis using assms by (simp add: close_session_def)
qed

definition saved_ok :: "(nat \<Rightarrow> string) \<Rightarrow> int \<Rightarrow> persisted_session \<Rightarrow> bool" where
  "saved_ok game_of b o' \<longleftrightarrow> pe_game_id o' = game_of (pe_pid o') \<and> 0 \<le> pe_foreground_ms o' \<and> pe_foreground_ms o' \<le> b"

lemma following_recover_one:
  assumes ok: "following mord game_of b s" and det: "\<forall>g \<in> set detected. found game_of (ag_pid g, g)"
    and o: "saved_ok game_of b o'"
    and fresh: "\<And>p g. map_of (sn_active s) p = Some g \<Longrightarrow> ag_game_id g \<noteq> game_of (pe_pid o')"
  shows "following mord game_of b (recover_one detected o' s)"
    "map_of (sn_active (recover_one detected o' s)) = (case live_of detected o' of None \<Rightarrow> map_of (sn_active s)
      | Some live \<Rightarrow> (map_of (sn_active s))(pe_pid o' \<mapsto> live\<lparr>ag_foreground_ms := pe_foreground_ms o'\<rparr>))"
proof -
  note one = followingD(2) [OF ok] and t = followingD(3) [OF ok]
  show "following mord game_of b (recover_one detected o' s)"
  proof (cases "live_of detected o'")
    case None
    let ?k = "game_of_orphan o'"
    have gid: "ag_game_id ?k = game_of (pe_pid o')" using o by (simp add: game_of_orphan_def saved_ok_def)
    have "map_of (gm_sessions (feed mord (sn_out s) game_state_new)) (ag_game_id ?k) = None"
      using tracksD(4) [OF t, of "ag_game_id ?k"] fresh unfolding gid
      by (cases "map_of (gm_sessions (feed mord (sn_out s) game_state_new)) (game_of (pe_pid o'))") auto
    from handle_stop_unknown [OF tracksD(2) [OF t] this]
    have "tracks (map_of (sn_active s)) (snd (snd (handle_event mord (Game_stopped ?k (pe_last_seen_ms o'))
        (feed mord (sn_out s) game_state_new))))" using t by simp
    with None show ?thesis
      by (intro following_silent [OF ok, of _ "Game_stopped ?k (pe_last_seen_ms o')"]) (simp_all add: recover_one_def live_of_def)
  next
    case (Some live)
    let ?g = "live\<lparr>ag_foreground_ms := pe_foreground_ms o'\<rparr>"
    note l = live_of_Some [OF Some]
    have gid: "ag_game_id live = game_of (pe_pid o')" using l det by (auto simp: found_def)
    have new: "map_of (sn_active s) (pe_pid o') = None"
      using one_each_game [OF one, of "pe_pid o'"] fresh by (cases "map_of (sn_active s) (pe_pid o')") auto
    have "following mord game_of b (tell (Game_started ?g) (s\<lparr>sn_active := AList.update (pe_pid o') ?g (sn_active s)\<rparr>))"
      by (rule following_start [OF ok new]) (use o gid l fresh in \<open>simp_all add: saved_ok_def\<close>)
    with Some l show ?thesis by (simp add: recover_one_def live_of_def Let_def)
  qed
  show "map_of (sn_active (recover_one detected o' s)) = (case live_of detected o' of None \<Rightarrow> map_of (sn_active s)
      | Some live \<Rightarrow> (map_of (sn_active s))(pe_pid o' \<mapsto> live\<lparr>ag_foreground_ms := pe_foreground_ms o'\<rparr>))"
  proof (cases "live_of detected o'")
    case (Some live)
    with live_of_Some [OF Some] show ?thesis
      unfolding recover_one_def live_of_def [symmetric] by (simp add: Let_def update_conv')
  qed (simp add: recover_one_def live_of_def [symmetric])
qed

lemma following_recover:
  "following mord game_of b s \<Longrightarrow> \<forall>g \<in> set detected. found game_of (ag_pid g, g) \<Longrightarrow> \<forall>o' \<in> set os. saved_ok game_of b o' \<Longrightarrow>
   \<forall>o' \<in> set os. \<forall>p g. map_of (sn_active s) p = Some g \<longrightarrow> ag_game_id g \<noteq> game_of (pe_pid o') \<Longrightarrow>
   distinct (map (\<lambda>x. game_of (pe_pid x)) os) \<Longrightarrow>
   following mord game_of b (fold (recover_one detected) os s) \<and>
   (\<forall>p. map_of (sn_active (fold (recover_one detected) os s)) p =
     (case List.find (\<lambda>o'. pe_pid o' = p \<and> live_of detected o' \<noteq> None) os of None \<Rightarrow> map_of (sn_active s) p
      | Some o' \<Rightarrow> map_option (\<lambda>live. live\<lparr>ag_foreground_ms := pe_foreground_ms o'\<rparr>) (live_of detected o')))"
proof (induction os arbitrary: s)
  case (Cons o' os)
  have fresh: "ag_game_id g \<noteq> game_of (pe_pid o')" if "map_of (sn_active s) p = Some g" for p g
    using Cons.prems(4) that by simp
  have o: "saved_ok game_of b o'" using Cons.prems(3) by simp
  let ?s = "recover_one detected o' s"
  have step: "following mord game_of b ?s"
    "map_of (sn_active ?s) = (case live_of detected o' of None \<Rightarrow> map_of (sn_active s)
      | Some live \<Rightarrow> (map_of (sn_active s))(pe_pid o' \<mapsto> live\<lparr>ag_foreground_ms := pe_foreground_ms o'\<rparr>))"
    by (rule following_recover_one [OF Cons.prems(1,2) o], erule fresh)+
  have gid: "ag_game_id live = game_of (pe_pid o')" if "live_of detected o' = Some live" for live
    using live_of_Some [OF that] Cons.prems(2) by (auto simp: found_def)
  have others: "game_of (pe_pid x) \<noteq> game_of (pe_pid o')" if "x \<in> set os" for x
  proof
    assume eq: "game_of (pe_pid x) = game_of (pe_pid o')"
    have "game_of (pe_pid x) \<in> (\<lambda>x. game_of (pe_pid x)) ` set os" using that by simp
    with Cons.prems(5) show False by (simp add: eq)
  qed
  have fresh2: "\<forall>x \<in> set os. \<forall>p g. map_of (sn_active ?s) p = Some g \<longrightarrow> ag_game_id g \<noteq> game_of (pe_pid x)"
  proof (intro ballI allI impI)
    fix x p g assume x: "x \<in> set os" and g: "map_of (sn_active ?s) p = Some g"
    show "ag_game_id g \<noteq> game_of (pe_pid x)"
    proof (cases "live_of detected o'")
      case (Some live)
      have s: "map_of (sn_active ?s) = (map_of (sn_active s))(pe_pid o' \<mapsto> live\<lparr>ag_foreground_ms := pe_foreground_ms o'\<rparr>)"
        by (simp only: step(2) Some option.case)
      show ?thesis
      proof (cases "p = pe_pid o'")
        case True
        with g have "g = live\<lparr>ag_foreground_ms := pe_foreground_ms o'\<rparr>" unfolding s by simp
        with gid [OF Some] others [OF x] show ?thesis by simp
      next
        case False
        with g have "map_of (sn_active s) p = Some g" unfolding s by simp
        with Cons.prems(4) x show ?thesis by (meson list.set_intros(2))
      qed
    next
      case None
      have "map_of (sn_active s) p = Some g" using g by (simp only: step(2) None option.case)
      with Cons.prems(4) x show ?thesis by (meson list.set_intros(2))
    qed
  qed
  have rest: "\<forall>x \<in> set os. saved_ok game_of b x" "distinct (map (\<lambda>x. game_of (pe_pid x)) os)" using Cons.prems(3,5) by simp_all
  note IH = Cons.IH [OF step(1) Cons.prems(2) rest(1) fresh2 rest(2)]
  then have each: "map_of (sn_active (fold (recover_one detected) os ?s)) p =
     (case List.find (\<lambda>o'. pe_pid o' = p \<and> live_of detected o' \<noteq> None) os of None \<Rightarrow> map_of (sn_active ?s) p
      | Some o' \<Rightarrow> map_option (\<lambda>live. live\<lparr>ag_foreground_ms := pe_foreground_ms o'\<rparr>) (live_of detected o'))" for p by blast
  have none: "List.find (\<lambda>x. pe_pid x = pe_pid o' \<and> live_of detected x \<noteq> None) os = None"
    unfolding find_None_iff using others by metis
  show ?case
  proof (intro conjI allI)
    fix p
    show "map_of (sn_active (fold (recover_one detected) (o' # os) s)) p =
     (case List.find (\<lambda>o'. pe_pid o' = p \<and> live_of detected o' \<noteq> None) (o' # os) of None \<Rightarrow> map_of (sn_active s) p
      | Some o' \<Rightarrow> map_option (\<lambda>live. live\<lparr>ag_foreground_ms := pe_foreground_ms o'\<rparr>) (live_of detected o'))"
    proof (cases "p = pe_pid o'")
      case True
      with each [of p] none show ?thesis unfolding step(2) by (cases "live_of detected o'") simp_all
    next
      case False
      then have "map_of (sn_active ?s) p = map_of (sn_active s) p"
        unfolding step(2) by (cases "live_of detected o'") simp_all
      from each [of p, unfolded this] False show ?thesis by simp
    qed
  qed (use IH in simp)
qed simp

section \<open>The rest of the first scan\<close>

text \<open>The session of a game is on a live process, with this start and this foreground time.\<close>

definition holds :: "nat set \<Rightarrow> string \<Rightarrow> int \<Rightarrow> int \<Rightarrow> sensor \<Rightarrow> bool" where
  "holds live gid start fg s \<longleftrightarrow> (\<exists>p g. map_of (sn_active s) p = Some g \<and> p \<in> live \<and> ag_game_id g = gid \<and>
     ag_started_at g = start \<and> ag_foreground_ms g = fg)"

lemma holdsI:
  "map_of (sn_active s) p = Some g \<Longrightarrow> p \<in> live \<Longrightarrow> ag_game_id g = gid \<Longrightarrow> ag_started_at g = start \<Longrightarrow>
   ag_foreground_ms g = fg \<Longrightarrow> holds live gid start fg s"
  unfolding holds_def by blast

lemma holds_start_one:
  assumes ok: "following mord game_of b s" and ord: "visits_all ord" and k: "found game_of (q, k)" "q \<in> live"
    and h: "holds live gid start fg s"
  shows "holds live gid start fg (snd (start_one ord (q, k) (opened, s)))"
proof -
  obtain p g where p: "map_of (sn_active s) p = Some g" "p \<in> live" "ag_game_id g = gid" "ag_started_at g = start"
    "ag_foreground_ms g = fg" using h unfolding holds_def by blast
  note one = followingD(2) [OF ok]
  have gp: "game_of p = gid" using one_each_game [OF one p(1)] p(3) by simp
  have kq: "ag_game_id k = game_of q" using k(1) by (simp add: found_def)
  show ?thesis
  proof (cases "representative_pid ord (sn_active s) (ag_game_id k)")
    case None
    with representative_pid_None [OF ord None p(1)] p kq gp have "q \<noteq> p" by auto
    with None p show ?thesis
      by (intro holdsI [of _ p g]) (simp_all add: start_one_def Let_def update_conv')
  next
    case (Some r)
    then obtain old where old: "map_of (sn_active s) r = Some old" "ag_game_id old = ag_game_id k"
      using representative_pid_Some by blast
    show ?thesis
    proof (cases "should_upgrade_representative old k")
      case False
      with Some old p show ?thesis by (intro holdsI [of _ p g]) (simp_all add: start_one_def Let_def)
    next
      case True
      then have a: "map_of (sn_active (snd (start_one ord (q, k) (opened, s)))) =
          (map_of (sn_active s))(r := None, q \<mapsto> inherit old k)"
        using Some old by (simp add: start_one_def upgrade_representative_def Let_def update_conv' delete_conv')
      show ?thesis
      proof (cases "r = p")
        case True
        with old p have "old = g" by simp
        with True old p k(2) show ?thesis
          by (intro holdsI [of _ q "inherit old k"], unfold a) (simp_all add: inherit_def)
      next
        case False
        with one_each_same [OF one p(1) old(1)] old(2) p(3) have "ag_game_id k \<noteq> gid" by auto
        with gp kq have "q \<noteq> p" by auto
        with False p show ?thesis by (intro holdsI [of _ p g], unfold a) simp_all
      qed
    qed
  qed
qed

lemma holds_starts:
  assumes ok: "following mord game_of b s" and ord: "visits_all ord" and b: "0 \<le> b" and d: "distinct (map fst live)"
    and f: "\<forall>kv \<in> set live. found game_of kv" and h: "holds (fst ` set live) gid start fg s"
  shows "holds (fst ` set live) gid start fg (snd (coalesce_starts ord live up s))"
proof -
  let ?news = "sort_key (\<lambda>(_, g). representative_rank g)
      (filter (\<lambda>(pid, _). map_of (sn_active s) pid = None \<and> map_of (sn_shadow s) pid = None \<and> pid \<in> set up) live)"
  have fold: "following mord game_of b s \<Longrightarrow> holds (fst ` set live) gid start fg s \<Longrightarrow> \<forall>kv \<in> set news. kv \<in> set live \<Longrightarrow>
      distinct (map fst news) \<Longrightarrow> \<forall>p \<in> fst ` set news. map_of (sn_active s) p = None \<Longrightarrow>
      holds (fst ` set live) gid start fg (snd (fold (start_one ord) news (opened, s)))" for news s opened
  proof (induction news arbitrary: s opened)
    case (Cons kv news)
    obtain p g where kv: "kv = (p, g)" by fastforce
    obtain opened' s' where s': "start_one ord (p, g) (opened, s) = (opened', s')" by fastforce
    have g: "found game_of (p, g)" "map_of (sn_active s) p = None" "p \<in> fst ` set live"
      using Cons.prems(3,5) f by (force simp: kv)+
    note step = following_start_one [OF Cons.prems(1) ord g(1) b g(2), where opened = opened, unfolded s', simplified]
    have h: "holds (fst ` set live) gid start fg s'"
      using holds_start_one [OF Cons.prems(1) ord g(1,3) Cons.prems(2), of opened] by (simp add: s')
    have new: "map_of (sn_active s') q = None" if "q \<in> fst ` set news" for q
    proof -
      have "q \<noteq> p" using that Cons.prems(4) by (auto simp: kv)
      moreover have "map_of (sn_active s) q = None" using that Cons.prems(5) by auto
      ultimately show ?thesis using step(2) [of q] by (cases "map_of (sn_active s') q") auto
    qed
    have "holds (fst ` set live) gid start fg (snd (fold (start_one ord) news (opened', s')))"
      by (rule Cons.IH [OF step(1) h]) (use Cons.prems(3,4) new in auto)
    then show ?case by (simp add: kv s')
  qed simp
  have "distinct (map fst (filter P live))" for P using d by (induction live) auto
  then have "distinct (map fst ?news)"
    by (metis (no_types, lifting) distinct_map distinct_sort inj_on_def set_sort)
  then have "holds (fst ` set live) gid start fg (snd (fold (start_one ord) ?news ([], s)))"
    by (intro fold [OF ok h]) auto
  then show ?thesis by (simp add: coalesce_starts_def Let_def split_beta)
qed

lemma holds_stop_one:
  assumes ok: "following mord game_of b s" and f: "\<forall>kv \<in> set live. found game_of kv"
    and h: "holds (fst ` set live) gid start fg s" and q: "q \<notin> fst ` set live"
  shows "holds (fst ` set live) gid start fg (snd (stop_one ord live up now q (changed, s)))"
proof -
  obtain p g where p: "map_of (sn_active s) p = Some g" "p \<in> fst ` set live" "ag_game_id g = gid" "ag_started_at g = start"
    "ag_foreground_ms g = fg" using h unfolding holds_def by blast
  note one = followingD(2) [OF ok]
  have qp: "q \<noteq> p" using p(2) q by auto
  show ?thesis
  proof (cases "map_of (sn_active s) q")
    case None
    with h show ?thesis by (simp add: stop_one_def)
  next
    case (Some old)
    have og: "ag_game_id old \<noteq> gid" using one_each_same [OF one p(1) Some] p(3) qp by auto
    let ?next = "min_by_key (\<lambda>(_, g). representative_rank g)
      (filter (\<lambda>(pid, g). ag_game_id g = ag_game_id old \<and> pid \<in> set up) live)"
    show ?thesis
    proof (cases ?next)
      case None
      with Some qp p show ?thesis
        by (intro holdsI [of _ p g]) (simp_all add: stop_one_def Let_def delete_conv')
    next
      case (Some kv)
      obtain r k where kv: "kv = (r, k)" by fastforce
      have "(r, k) \<in> set live" "ag_game_id k = ag_game_id old" using min_by_key_Some [OF Some] by (auto simp: kv)
      with f have "game_of r = ag_game_id old" by (force simp: found_def)
      with og one_each_game [OF one p(1)] p(3) have "r \<noteq> p" by auto
      then show ?thesis using Some \<open>map_of (sn_active s) q = Some old\<close> qp p
        by (intro holdsI [of _ p g]) (simp_all add: stop_one_def Let_def kv delete_conv' update_conv')
    qed
  qed
qed

lemma holds_stops:
  assumes ok: "following mord game_of b s" and mord: "visits_all mord" and f: "\<forall>kv \<in> set live. found game_of kv"
    and h: "holds (fst ` set live) gid start fg s"
  shows "holds (fst ` set live) gid start fg (snd (coalesce_stops ord live up now s))"
proof -
  have "following mord game_of b (snd cs) \<Longrightarrow> holds (fst ` set live) gid start fg (snd cs) \<Longrightarrow> \<forall>q \<in> set qs. q \<notin> fst ` set live \<Longrightarrow>
      holds (fst ` set live) gid start fg (snd (fold (stop_one ord live up now) qs cs))" for qs cs
  proof (induction qs arbitrary: cs)
    case (Cons q qs)
    obtain c s where cs: "cs = (c, s)" by fastforce
    have "following mord game_of b s" "holds (fst ` set live) gid start fg s" "q \<notin> fst ` set live"
      using Cons.prems by (simp_all add: cs)
    from holds_stop_one [OF this(1) f this(2,3)]
    have "holds (fst ` set live) gid start fg (snd (stop_one ord live up now q cs))" unfolding cs .
    from Cons.IH [OF following_stop_one [OF Cons.prems(1) mord f] this] Cons.prems(3) show ?case by simp
  qed simp
  moreover have "following mord game_of b (s\<lparr>sn_shadow := sh\<rparr>)" "holds (fst ` set live) gid start fg (s\<lparr>sn_shadow := sh\<rparr>)" for sh
    using following_frame [OF ok] h by (simp_all add: holds_def)
  ultimately show ?thesis by (simp add: coalesce_stops_def Let_def map_of_eq_None_iff)
qed

text \<open>In the first scan no time has passed, so no foreground time is credited.\<close>

lemma credit_nothing:
  assumes ok: "following mord game_of b s" and b: "b < 2 ^ 63"
  shows "credit_foreground ord live processes 0 s = s"
proof -
  have "credit_one live processes 0 p s = s" for p
  proof (cases "map_of (sn_active s) p")
    case (Some g)
    from followingD(4) [OF ok this] b have "wrap_i64 (ag_foreground_ms g) = ag_foreground_ms g" by (intro wrap_i64_id) auto
    with Some show ?thesis by (simp add: credit_one_def accumulate_foreground_ms_def Let_def)
  qed (simp add: credit_one_def)
  then have "fold (credit_one live processes 0) ps s = s" for ps by (induction ps) simp_all
  then show ?thesis by (simp add: credit_foreground_def)
qed


lemma first_scan_keeps_all:
  assumes "sn_windowless s = []" "distinct (map rp_pid (si_processes i))"
    and g: "g \<in> set (detect_games (si_resolve i) (si_processes i) (si_now i))"
  shows "g \<in> set (fst (scan_detected w i s))"
proof (cases w)
  case True
  have "wrap_u u32_max (misses [] (ag_pid g) + 1) \<le> windowless_grace_scans"
    by (simp add: misses_def wrap_u_def u32_max_def windowless_grace_scans_def)
  moreover note conjunct1 [OF windowless_loop_spec [OF detect_pids [OF assms(2), of "si_resolve i" "si_now i"], of "si_processes i" "[]"],
      rule_format, of g]
  ultimately
  show ?thesis using True g assms(1) by (simp add: scan_detected_def drop_windowless_def split_beta Let_def)
qed (use g in \<open>simp add: scan_detected_def Let_def\<close>)

lemma scan_live_pids: "fst ` set (scan_live w i s) = ag_pid ` set (fst (scan_detected w i s))"
proof -
  have "p \<in> fst ` set (scan_live w i s) \<longleftrightarrow> p \<in> ag_pid ` set (fst (scan_detected w i s))" for p
    using hash_collect_keys [of "map (\<lambda>g. (ag_pid g, g)) (fst (scan_detected w i s))" p]
    by (simp add: scan_live_def map_of_eq_None_iff image_image)
  then show ?thesis by blast
qed

lemma recovered_following:
  assumes i: "scan_sane game_of i" and b: "\<forall>o' \<in> set os. saved_ok game_of b o'" "distinct (map (\<lambda>x. game_of (pe_pid x)) os)"
  shows "following mord game_of b (scan_recovered w i (sensor_new os))"
    "o' \<in> set os \<Longrightarrow> live_of (fst (scan_detected w i (sensor_new os))) o' = Some live \<Longrightarrow>
      map_of (sn_active (scan_recovered w i (sensor_new os))) (pe_pid o') = Some (live\<lparr>ag_foreground_ms := pe_foreground_ms o'\<rparr>)"
proof -
  let ?det = "fst (scan_detected w i (sensor_new os))"
  define s0 where "s0 = sensor_new os\<lparr>sn_last_scan := Some (si_instant i),
      sn_windowless := snd (scan_detected w i (sensor_new os)), sn_orphans := []\<rparr>"
  have rec: "scan_recovered w i (sensor_new os) = fold (recover_one ?det) os s0"
    by (simp add: scan_recovered_def recover_orphans_def split_beta s0_def) (simp add: sensor_new_def)
  have det: "\<forall>g \<in> set ?det. found game_of (ag_pid g, g)"
    using scan_detected_subset detected_found [OF i] by blast
  have s0: "following mord game_of b s0"
    by (rule following_frame [OF following_new]) (simp_all add: s0_def sensor_new_def)
  have "\<forall>o' \<in> set os. \<forall>p g. map_of (sn_active s0) p = Some g \<longrightarrow> ag_game_id g \<noteq> game_of (pe_pid o')"
    by (simp add: s0_def sensor_new_def)
  note r = following_recover [OF s0 det b(1) this b(2)]
  show "following mord game_of b (scan_recovered w i (sensor_new os))" unfolding rec using r by blast
  show "map_of (sn_active (scan_recovered w i (sensor_new os))) (pe_pid o') = Some (live\<lparr>ag_foreground_ms := pe_foreground_ms o'\<rparr>)"
    if o': "o' \<in> set os" "live_of ?det o' = Some live"
  proof -
    have "List.find (\<lambda>x. pe_pid x = pe_pid o' \<and> live_of ?det x \<noteq> None) os = Some x \<Longrightarrow> x = o'" for x
      using b(2) o'(1) by (auto dest!: find_Some_mem simp: distinct_map inj_on_def)
    moreover have "List.find (\<lambda>x. pe_pid x = pe_pid o' \<and> live_of ?det x \<noteq> None) os \<noteq> None"
      unfolding find_None_all using o' by auto
    ultimately have "List.find (\<lambda>x. pe_pid x = pe_pid o' \<and> live_of ?det x \<noteq> None) os = Some o'" by blast
    with conjunct2 [OF r, rule_format, of "pe_pid o'"] o'(2) show ?thesis unfolding rec by simp
  qed
qed

lemma resumed_holds:
  assumes mord: "visits_all mord" and i: "scan_sane game_of i" and b: "0 \<le> b" "b < 2 ^ 63"
    and os: "\<forall>o' \<in> set os. saved_ok game_of b o'" "distinct (map (\<lambda>x. game_of (pe_pid x)) os)"
    and o': "o' \<in> set os" "live_of (fst (scan_detected w i (sensor_new os))) o' = Some live"
  shows "following mord game_of b (snd (scan_once w i (sensor_new os)))"
    "holds (fst ` set (scan_live w i (sensor_new os))) (ag_game_id live) (ag_started_at live) (pe_foreground_ms o')
      (snd (scan_once w i (sensor_new os)))"
proof -
  let ?s = "sensor_new os"
  let ?live = "scan_live w i ?s"
  let ?H = "holds (fst ` set ?live) (ag_game_id live) (ag_started_at live) (pe_foreground_ms o')"
  have ord: "visits_all (si_order i)" using i by (simp add: scan_sane_def)
  have e: "scan_elapsed i ?s = 0" by (simp add: scan_elapsed_def sensor_new_def)
  note rec = recovered_following [OF i os, where w = w]
  note found = scan_live_found [OF i, of w ?s]
  have d: "distinct (map fst ?live)" by (simp add: scan_live_def hash_collect_distinct)
  show "following mord game_of b (snd (scan_once w i ?s))"
    using following_rest [OF rec(1) mord i b(1)] b(2) by (simp add: e)
  have "pe_pid o' \<in> fst ` set ?live" using live_of_Some [OF o'(2)] unfolding scan_live_pids by (metis imageI)
  then have "?H (scan_recovered w i ?s)" by (rule holdsI [OF rec(2) [OF o']]) simp_all
  note h = holds_starts [OF rec(1) ord b(1) d found this, where up = "scan_startable w i ?s"]
  note st = following_starts [OF rec(1) ord b(1) d found, where startable = "scan_startable w i ?s"]
  have h2: "?H (snd (scan_diffed w i ?s))" and f2: "following mord game_of b (snd (scan_diffed w i ?s))"
    using holds_stops [OF st mord found h] following_stops [OF st mord found]
    by (simp_all add: scan_diffed_def Let_def split_beta)
  have "sn_active (scan_credited w i ?s) = sn_active (snd (scan_diffed w i ?s))"
    using credit_nothing [OF f2 b(2)] by (simp add: scan_credited_def e settle_primary_def Let_def)
  then have "sn_active (snd (scan_once w i ?s)) = sn_active (snd (scan_diffed w i ?s))"
    by (simp add: scan_once_def Let_def persist_def library_turn_def)
  with h2 show "?H (snd (scan_once w i ?s))" by (simp add: holds_def)
qed


section \<open>A restart\<close>

lemma saved_sessions:
  assumes "sn_saved (scans w inputs (sensor_new os)) = Some saved"
  obtains ord now where "ord \<in> si_order ` set inputs"
    "saved = map (persisted_of now) (List.map_filter (map_of (sn_active (scans w inputs (sensor_new os))))
       (hash_keys ord (sn_active (scans w inputs (sensor_new os)))))"
proof (cases inputs rule: rev_cases)
  case Nil
  with assms show ?thesis by (simp add: sensor_new_def)
next
  case (snoc js j)
  let ?s = "scans w js (sensor_new os)"
  have "sn_active (snd (scan_once w j ?s)) = sn_active (scan_credited w j ?s)"
    "sn_saved (snd (scan_once w j ?s)) = Some (map (persisted_of (si_now j)) (List.map_filter (map_of (sn_active (scan_credited w j ?s)))
       (hash_keys (si_order j) (sn_active (scan_credited w j ?s)))))"
    by (simp_all add: scan_once_def Let_def persist_def library_turn_def)
  with assms snoc show ?thesis by (intro that [of "si_order j" "si_now j"]) simp_all
qed

lemma saved_pids:
  assumes ord: "visits_all ord" and one: "one_each game_of (map_of active)"
  shows "map pe_pid (map (persisted_of now) (List.map_filter (map_of active) (hash_keys ord active))) = hash_keys ord active"
proof -
  have "\<forall>p \<in> set ks. map_of active p \<noteq> None \<Longrightarrow>
      map pe_pid (map (persisted_of now) (List.map_filter (map_of active) ks)) = ks" for ks
  proof (induction ks)
    case (Cons p ks)
    then obtain g where "map_of active p = Some g" by auto
    with Cons one_each_pid [OF one this] show ?case by (simp add: map_filter_simps persisted_of_def)
  qed (simp add: map_filter_simps)
  then show ?thesis using hash_keys_mem [OF ord, of _ active] by blast
qed

lemma saved_all_ok:
  fixes mord game_of b s ord now
  assumes ok: "following mord game_of b s" and ord: "visits_all ord"
  defines "saved \<equiv> map (persisted_of now) (List.map_filter (map_of (sn_active s)) (hash_keys ord (sn_active s)))"
  shows "\<forall>o' \<in> set saved. saved_ok game_of b o'" "distinct (map (\<lambda>x. game_of (pe_pid x)) saved)"
    "map_of (sn_active s) p = Some g \<Longrightarrow> persisted_of now g \<in> set saved"
proof -
  note one = followingD(2) [OF ok]
  have set: "set saved = persisted_of now ` {g. \<exists>p. map_of (sn_active s) p = Some g}"
    using hash_keys_mem [OF ord, of _ "sn_active s"] by (force simp: saved_def List.map_filter_def)
  show "\<forall>o' \<in> set saved. saved_ok game_of b o'"
  proof
    fix o' assume "o' \<in> set saved"
    then obtain p g where g: "o' = persisted_of now g" "map_of (sn_active s) p = Some g" by (auto simp: set)
    with one_each_game [OF one g(2)] one_each_pid [OF one g(2)] followingD(4) [OF ok g(2)] show "saved_ok game_of b o'"
      by (simp add: saved_ok_def persisted_of_def)
  qed
  have keys: "map pe_pid saved = hash_keys ord (sn_active s)"
    unfolding saved_def by (rule saved_pids [OF ord one])
  have "distinct (map game_of (map pe_pid saved))"
    unfolding keys distinct_map
  proof
    show "distinct (hash_keys ord (sn_active s))" by (rule hash_keys_distinct [OF ord followingD(1) [OF ok]])
    have "set (hash_keys ord (sn_active s)) = dom (map_of (sn_active s))" using hash_keys_mem [OF ord, of _ "sn_active s"] by auto
    then show "inj_on game_of (set (hash_keys ord (sn_active s)))" using one by (simp add: one_each_def)
  qed
  then show "distinct (map (\<lambda>x. game_of (pe_pid x)) saved)" by (simp add: comp_def)
  show "persisted_of now g \<in> set saved" if "map_of (sn_active s) p = Some g" using that by (auto simp: set)
qed



text \<open>Two scans with the game in front, four seconds apart, then a restart.\<close>

definition cs2_process :: raw_process where
  "cs2_process = \<lparr>rp_pid = 7, rp_name = ''cs2'', rp_exe = ''cs2.exe'', rp_is_fullscreen = False, rp_path = ''C:/cs2.exe'',
     rp_window_title = ''CS2'', rp_is_foreground = True, rp_started_at_ms = 1000, rp_is_minimized = False\<rparr>"

definition cs2_scan :: "instant \<Rightarrow> scan_input" where
  "cs2_scan t = \<lparr>si_processes = [cs2_process], si_now = 5000, si_instant = t, si_order = id, si_resolve = (\<lambda>_. Some
     \<lparr>md_game_id = ''cs2'', md_game_name = ''CS2'', md_short_name = ''CS2'', md_color = '''', md_igdb_id = None\<rparr>)\<rparr>"

definition cs2_game :: active_game where
  "cs2_game = \<lparr>ag_game_id = ''cs2'', ag_game_name = ''CS2'', ag_short_name = ''CS2'', ag_color = '''', ag_exe = ''cs2.exe'',
     ag_exe_path = ''C:/cs2.exe'', ag_pid = 7, ag_igdb_id = None, ag_started_at = 1000, ag_started_at_ms = 1000,
     ag_foreground_ms = 4000\<rparr>"

lemma cs2_scan_fields: "si_order (cs2_scan t) = id" "si_now (cs2_scan t) = 5000" "si_processes (cs2_scan t) = [cs2_process]"
  "si_instant (cs2_scan t) = t"
  by (simp_all add: cs2_scan_def)

definition cs2_sensor :: sensor where
  "cs2_sensor = snd (scan_once True (cs2_scan 0) (sensor_new []))"

lemma cs2_sensor_fields:
  "sn_active cs2_sensor = [(7, cs2_game\<lparr>ag_foreground_ms := 0\<rparr>)]" "sn_shadow cs2_sensor = []" "sn_primary cs2_sensor = Some 7"
  "sn_windowless cs2_sensor = []" "sn_last_scan cs2_sensor = Some 0" "sn_orphans cs2_sensor = []"
  by (simp_all add: cs2_sensor_def scan_once_def persist_def library_turn_def Let_def, code_simp+)

lemma cs2_detected: "scan_detected True (cs2_scan t) s = ([cs2_game\<lparr>ag_foreground_ms := 0\<rparr>], [])" if "sn_windowless s = []"
  using that by (simp add: scan_detected_def cs2_scan_def detect_games_def map_filter_simps cs2_process_def cs2_game_def
    drop_windowless_def has_window_def is_blank_def white3_def)

lemma cs2_second:
  "sn_active (scan_credited True (cs2_scan 4000000000) cs2_sensor) = [(7, cs2_game)]"
proof -
  have e: "scan_elapsed (cs2_scan 4000000000) cs2_sensor = 4000"
    by (simp add: scan_elapsed_def cs2_sensor_fields cs2_scan_fields wrap_i64_def)
  show ?thesis
    by (simp add: scan_credited_def e scan_diffed_def scan_live_def scan_startable_def scan_recovered_def cs2_detected cs2_sensor_fields
      recover_orphans_def hash_collect_def coalesce_starts_def coalesce_stops_def hash_keys_def startable_pids_def settle_primary_def
      credit_foreground_def credit_one_def accumulate_foreground_ms_def any_foreground_for_game_def cs2_scan_fields cs2_process_def
      cs2_game_def wrap_i64_def Let_def)
qed

lemma cs2_scans:
  "sn_saved (scans True [cs2_scan 0, cs2_scan 4000000000] (sensor_new [])) = Some [persisted_of 5000 cs2_game]"
  "sn_active (scans True [cs2_scan 0, cs2_scan 4000000000] (sensor_new [])) = [(7, cs2_game)]"
  using cs2_second by (simp_all add: cs2_sensor_def [symmetric] scan_once_def [of _ _ cs2_sensor] persist_def library_turn_def Let_def
    hash_keys_def cs2_scan_fields map_filter_simps)



section \<open>Where a session is lost\<close>

text \<open>
  A saved session whose process is gone is sent as a stop, but the new client has no session of the
  game to close: nothing is recorded of it. The store's documentation says that it is closed out at
  \<open>last_seen_ms\<close> and reported normally.
\<close>

lemma orphan_stop_is_not_recorded:
  assumes "following mord game_of b s" "live_of detected o' = None"
    and "\<And>p g. map_of (sn_active s) p = Some g \<Longrightarrow> ag_game_id g \<noteq> pe_game_id o'"
  shows "sn_out (recover_one detected o' s) = sn_out s @ [Game_stopped (game_of_orphan o') (pe_last_seen_ms o')]"
    "handle_event mord (Game_stopped (game_of_orphan o') (pe_last_seen_ms o')) (feed mord (sn_out s) game_state_new) =
       ([], None, feed mord (sn_out s) game_state_new)"
proof -
  note t = followingD(3) [OF assms(1)]
  show "sn_out (recover_one detected o' s) = sn_out s @ [Game_stopped (game_of_orphan o') (pe_last_seen_ms o')]"
    using assms(2) by (simp add: recover_one_def live_of_def)
  have "map_of (gm_sessions (feed mord (sn_out s) game_state_new)) (ag_game_id (game_of_orphan o')) = None"
    using tracksD(4) [OF t, of "pe_game_id o'"] assms(3)
    by (cases "map_of (gm_sessions (feed mord (sn_out s) game_state_new)) (pe_game_id o')") (auto simp: game_of_orphan_def)
  from handle_stop_unknown [OF tracksD(2) [OF t] this]
  show "handle_event mord (Game_stopped (game_of_orphan o') (pe_last_seen_ms o')) (feed mord (sn_out s) game_state_new) =
       ([], None, feed mord (sn_out s) game_state_new)" .
qed

text \<open>
  A session that moved to another process keeps the creation time of the old one beside the pid of
  the new one, so after a restart no process matches it, although its process still runs.
\<close>

lemma moved_session_never_resumes:
  "ag_started_at_ms old \<noteq> ag_started_at_ms g \<Longrightarrow>
   \<not> resume_matches (persisted_of now (inherit old g)) (ag_pid g) (ag_started_at_ms g)"
  by (simp add: resume_matches_def persisted_of_def inherit_def)

text \<open>
  When the game in front stops while two others run, the sensor and the client each take any
  remaining game, from two hash maps; if the sensor's choice is also the one its ranking makes, it
  sends no change, and the client may keep showing another game.
\<close>

lemma primary_may_part:
  fixes a b c
  defines "game \<equiv> \<lambda>n gid. \<lparr>ag_game_id = gid, ag_game_name = gid, ag_short_name = gid, ag_color = '''', ag_exe = gid, ag_exe_path = gid,
     ag_pid = n, ag_igdb_id = None, ag_started_at = int n, ag_started_at_ms = int n, ag_foreground_ms = 0\<rparr>"
  defines "s \<equiv> \<lparr>sn_active = [(2, game 2 ''b''), (3, game 3 ''c''), (1, game 1 ''a'')], sn_shadow = [], sn_primary = Some 1, sn_windowless = [],
     sn_last_scan = Some 0, sn_orphans = [], sn_since_refresh = 0, sn_fast_left = 0, sn_saved = None, sn_out = []\<rparr>"
  defines "m \<equiv> feed rev [Game_started (game 2 ''b''), Game_started (game 3 ''c''), Game_started (game 1 ''a''), Primary_changed (Some ''a'')]
     game_state_new"
  defines "s1 \<equiv> settle_primary id [] (snd (coalesce_stops id [(2, game 2 ''b''), (3, game 3 ''c'')] [2, 3] 9 s))"
  shows "map_option ag_game_id (Option.bind (sn_primary s1) (map_of (sn_active s1))) = Some ''b'' \<and>
    map_option ag_game_id (current_game (feed rev (sn_out s1) m)) = Some ''c''"
  unfolding s1_def m_def s_def game_def by code_simp

end
