(* ===== verification/Catalogue.thy ===== *)
theory Catalogue
  imports Utf8_Text "HOL-Library.Sublist"
begin

text \<open>
  The bundled game catalogue (\<open>catalogue.rs\<close>): the Steam index, which is delta coded as
  \<open>scripts/build_catalogue.py\<close> writes it, and the head with its records, executables and strings.
  A file is the list of its bytes, a \<open>u32\<close> a natural number. A borrowed text of the head is the
  text itself, and the map of the executables an association list.
\<close>

unbundle bit_operations_syntax

section \<open>Bytes\<close>

definition magic_head :: "nat list" where "magic_head = [77, 72, 68, 50]"
definition magic_index :: "nat list" where "magic_index = [77, 65, 73, 50]"
definition head_record_len :: nat where "head_record_len = 32"
definition head_header_len :: nat where "head_header_len = 16"
definition exe_entry_len :: nat where "exe_entry_len = 16"
definition index_pair_len :: nat where "index_pair_len = 8"
definition index_header_len :: nat where "index_header_len = 8"

text \<open>
  The loop of \<open>read_varint\<close> from a position, with the value and the shift so far. \<open>checked_shl\<close> only
  fails for a shift of 32 or more, and drops the bits that leave the 32.
\<close>

function read_varint_from :: "nat list \<Rightarrow> nat \<Rightarrow> nat \<Rightarrow> nat \<Rightarrow> (nat \<times> nat) option" where
  "read_varint_from bytes pos v shift =
     (if pos < length bytes then
        let byte = bytes ! pos
        in if shift > 28 then None
           else
             let v' = v OR take_bit 32 (push_bit shift (byte AND 127))
             in if byte AND 128 = 0 then Some (v', pos + 1) else read_varint_from bytes (pos + 1) v' (shift + 7)
      else None)"
  by pat_completeness auto
termination
  by (relation "measure (\<lambda>(bytes, pos, _, _). length bytes - pos)") auto

declare read_varint_from.simps [simp del]

definition read_varint :: "nat list \<Rightarrow> nat \<Rightarrow> (nat \<times> nat) option" where
  "read_varint bytes pos = read_varint_from bytes pos 0 0"

definition u32_le :: "nat list \<Rightarrow> nat" where
  "u32_le bs = bs ! 0 + 256 * bs ! 1 + 65536 * bs ! 2 + 16777216 * bs ! 3"

definition to_le_bytes :: "nat \<Rightarrow> nat list" where
  "to_le_bytes n = [n mod 256, n div 256 mod 256, n div 65536 mod 256, n div 16777216 mod 256]"

definition get_slice :: "nat list \<Rightarrow> nat \<Rightarrow> nat \<Rightarrow> nat list option" where
  "get_slice bytes off n = (if off + n \<le> length bytes then Some (slice bytes off n) else None)"

definition u32_at :: "nat list \<Rightarrow> nat \<Rightarrow> nat option" where
  "u32_at bytes off = map_option u32_le (get_slice bytes off 4)"

text \<open>The binary search over a table with ascending keys: the loops of \<open>Head::get\<close> and \<open>igdb_id\<close>.\<close>

function search_table :: "(nat \<Rightarrow> nat option) \<Rightarrow> (nat \<Rightarrow> 'a option) \<Rightarrow> nat \<Rightarrow> nat \<Rightarrow> nat \<Rightarrow> 'a option" where
  "search_table key entry wanted lo hi =
     (if lo < hi then
        let mid = lo + (hi - lo) div 2
        in case key mid of
             None \<Rightarrow> None
           | Some k \<Rightarrow>
               if k < wanted then search_table key entry wanted (mid + 1) hi
               else if k > wanted then search_table key entry wanted lo mid
               else entry mid
      else None)"
  by pat_completeness auto
termination
  by (relation "measure (\<lambda>(_, _, _, lo, hi). hi - lo)") auto

declare search_table.simps [simp del]

section \<open>The Steam index\<close>

record appid_index =
  ai_bytes :: "nat list"
  ai_count :: nat

text \<open>The loop of \<open>AppIdIndex::parse\<close> over \<open>n\<close> pairs.\<close>

fun expand_pairs :: "nat \<Rightarrow> nat list \<Rightarrow> nat \<Rightarrow> nat \<Rightarrow> nat list \<Rightarrow> nat list option" where
  "expand_pairs 0 bytes pos appid flat = Some flat"
| "expand_pairs (Suc n) bytes pos appid flat =
     (case read_varint bytes pos of
        None \<Rightarrow> None
      | Some (delta, next) \<Rightarrow>
          (case read_varint bytes next of
             None \<Rightarrow> None
           | Some (igdb_id, next) \<Rightarrow>
               if appid + delta > u32_max then None
               else expand_pairs n bytes next (appid + delta) (flat @ to_le_bytes (appid + delta) @ to_le_bytes igdb_id)))"

definition parse_index :: "nat list \<Rightarrow> appid_index option" where
  "parse_index bytes =
     (if length bytes < index_header_len \<or> take 4 bytes \<noteq> magic_index then None
      else
        case u32_at bytes 4 of
          None \<Rightarrow> None
        | Some count \<Rightarrow>
            map_option (\<lambda>flat. \<lparr>ai_bytes = flat, ai_count = count\<rparr>) (expand_pairs count bytes index_header_len 0 []))"

definition index_igdb_id :: "nat \<Rightarrow> appid_index \<Rightarrow> nat option" where
  "index_igdb_id appid idx =
     search_table (\<lambda>mid. u32_at (ai_bytes idx) (mid * index_pair_len)) (\<lambda>mid. u32_at (ai_bytes idx) (mid * index_pair_len + 4))
       appid 0 (ai_count idx)"

definition appids_for_igdb :: "nat \<Rightarrow> appid_index \<Rightarrow> nat list" where
  "appids_for_igdb igdb_id idx =
     List.map_filter (\<lambda>i.
       case u32_at (ai_bytes idx) (i * index_pair_len + 4) of
         None \<Rightarrow> None
       | Some g \<Rightarrow> if g = igdb_id then u32_at (ai_bytes idx) (i * index_pair_len) else None) [0..<ai_count idx]"

text \<open>The builder of the file (\<open>scripts/build_catalogue.py\<close>).\<close>

function varint :: "nat \<Rightarrow> nat list" where
  "varint n =
     (let byte = n AND 127; rest = drop_bit 7 n
      in if rest = 0 then [byte] else (byte OR 128) # varint rest)"
  by pat_completeness auto
termination
  by (relation "measure id") (auto simp: drop_bit_eq_div)

declare varint.simps [simp del]

fun varint_pairs :: "nat \<Rightarrow> (nat \<times> nat) list \<Rightarrow> nat list" where
  "varint_pairs prev [] = []"
| "varint_pairs prev ((appid, gid) # ps) = varint (appid - prev) @ varint gid @ varint_pairs appid ps"

definition build_appid_index :: "(nat \<times> nat) list \<Rightarrow> nat list" where
  "build_appid_index pairs = magic_index @ to_le_bytes (length pairs) @ varint_pairs 0 pairs"


section \<open>Varints\<close>

lemma and_127: "n AND 127 = n mod 128" for n :: nat
proof -
  have "mask 7 = (127 :: nat)" by (simp add: mask_eq_exp_minus_1)
  then show ?thesis using take_bit_eq_mask [of 7 n] by (simp add: take_bit_eq_mod)
qed

lemma and_128: "n < 256 \<Longrightarrow> n AND 128 = 0 \<longleftrightarrow> n < 128" for n :: nat
proof -
  assume n: "n < 256"
  have "n AND 128 = 0 \<longleftrightarrow> \<not> bit n 7" using and_exp_eq_0_iff_not_bit [of n 7] by simp
  also have "\<dots> \<longleftrightarrow> even (n div 128)" by (simp add: bit_iff_odd)
  also have "\<dots> \<longleftrightarrow> n < 128"
  proof -
    have "n div 128 < 2" using n by (simp add: less_mult_imp_div_less)
    then have "n div 128 = 0 \<or> n div 128 = 1" by auto
    then show ?thesis by (auto simp: div_eq_0_iff)
  qed
  finally show ?thesis .
qed

lemma or_push_bit: "v < 2 ^ s \<Longrightarrow> v OR push_bit s b = v + b * 2 ^ s" for v b :: nat
proof -
  assume v: "v < 2 ^ s"
  have "\<not> bit v n \<or> \<not> bit (push_bit s b) n" for n
  proof (cases "n < s")
    case False
    have "v < 2 ^ n" by (rule less_le_trans [OF v]) (use False in simp)
    then show ?thesis by (simp add: bit_iff_odd)
  qed (simp add: bit_push_bit_iff)
  from disjunctive_add [OF this] show ?thesis by (simp add: push_bit_eq_mult)
qed

lemma or_less: "x < 2 ^ n \<Longrightarrow> y < 2 ^ n \<Longrightarrow> y OR x < 2 ^ n" for x y :: nat
proof -
  assume "x < 2 ^ n" "y < 2 ^ n"
  then have "take_bit n (y OR x) = y OR x" by (simp add: take_bit_or take_bit_nat_eq_self)
  then show ?thesis by (metis take_bit_nat_less_exp)
qed

lemma or_128: "n < 128 \<Longrightarrow> n OR 128 = n + 128" for n :: nat
  using or_push_bit [of n 7 1] by simp

text \<open>The digits of a number to the base 128, least first, which is what a varint writes.\<close>

lemma varint_small: "n < 128 \<Longrightarrow> varint n = [n]"
  by (subst varint.simps) (simp add: and_127 drop_bit_eq_div Let_def)

lemma varint_large: "128 \<le> n \<Longrightarrow> varint n = (n mod 128 + 128) # varint (n div 128)"
  by (subst varint.simps) (simp add: and_127 drop_bit_eq_div or_128 Let_def div_eq_0_iff)

lemma varint_nonempty [simp]: "varint n \<noteq> []"
  by (cases "n < 128") (simp_all add: varint_small varint_large)

lemma varint_step:
  assumes "v < 2 ^ s" "b < 128" "b * 2 ^ s < 2 ^ 32"
  shows "v OR take_bit 32 (push_bit s ((b :: nat) AND 127)) = v + b * 2 ^ s"
proof -
  have "take_bit 32 (push_bit s (b AND 127)) = push_bit s b"
    using assms(2,3) by (simp add: and_127 take_bit_eq_mod push_bit_eq_mult)
  with or_push_bit [OF assms(1)] show ?thesis by simp
qed

lemma read_varint_from_varint:
  assumes "n < 2 ^ (32 - s)" "v < 2 ^ s" "s \<in> {0, 7, 14, 21, 28}"
  shows "read_varint_from (pre @ varint n @ post) (length pre) v s = Some (v + n * 2 ^ s, length pre + length (varint n))"
  using assms
proof (induction n arbitrary: pre v s rule: less_induct)
  case (less n)
  have split: "v + b * p + r * (p * 2 ^ 7) = v + (b + 128 * r) * p" for v b r p :: nat by (simp add: algebra_simps)
  have pow: "(2 :: nat) ^ (32 - s) * 2 ^ s = 2 ^ 32" using less.prems(3) by (auto simp flip: power_add)
  show ?case
  proof (cases "n < 128")
    case True
    have "n * 2 ^ s < 2 ^ 32" using less.prems(1) pow by (metis mult_less_mono1 zero_less_power zero_less_numeral)
    with True less.prems varint_step [of v s n] show ?thesis
      by (subst read_varint_from.simps) (auto simp: varint_small nth_append and_128 Let_def)
  next
    case False
    let ?b = "n mod 128" and ?r = "n div 128"
    have n: "n = ?b + 128 * ?r" by simp
    have s: "s \<in> {0, 7, 14, 21}"
    proof (rule ccontr)
      assume "s \<notin> {0, 7, 14, 21}"
      then have "s = 28" using less.prems(3) by simp
      with less.prems(1) False show False by simp
    qed
    then have s7: "s + 7 \<in> {0, 7, 14, 21, 28}" by auto
    have p7: "(2 :: nat) ^ (32 - s) = 128 * 2 ^ (32 - (s + 7))" using s by auto
    have r: "?r < 2 ^ (32 - (s + 7))" using less.prems(1) unfolding p7 by (simp add: less_mult_imp_div_less mult.commute)
    have "?b * 2 ^ s < 2 ^ 32"
    proof -
      have "?b \<le> n" by simp
      then have "?b < 2 ^ (32 - s)" using less.prems(1) by linarith
      then show ?thesis using pow by (metis mult_less_mono1 zero_less_power zero_less_numeral)
    qed
    then have v: "v OR take_bit 32 (push_bit s ((?b + 128) AND 127)) = v + ?b * 2 ^ s"
      using varint_step [OF less.prems(2), of ?b] by (simp add: and_127)
    have v2: "v + ?b * 2 ^ s < 2 ^ (s + 7)"
    proof -
      have "v + ?b * 2 ^ s < (1 + ?b) * 2 ^ s" using less.prems(2) by simp
      also have "\<dots> \<le> 128 * 2 ^ s" by (intro mult_right_mono) (simp_all add: Suc_leI)
      also have "\<dots> = 2 ^ (s + 7)" by (simp add: power_add)
      finally show ?thesis .
    qed
    have "read_varint_from (pre @ varint n @ post) (length pre) v s =
        read_varint_from ((pre @ [?b + 128]) @ varint ?r @ post) (length (pre @ [?b + 128])) (v + ?b * 2 ^ s) (s + 7)"
      using False s v by (subst read_varint_from.simps) (auto simp: varint_large nth_append and_128 Let_def)
    also have "\<dots> = Some (v + ?b * 2 ^ s + ?r * 2 ^ (s + 7), length (pre @ [?b + 128]) + length (varint ?r))"
      by (rule less.IH [OF _ r v2 s7]) (use False in simp)
    also have "v + ?b * 2 ^ s + ?r * 2 ^ (s + 7) = v + (?b + 128 * ?r) * 2 ^ s"
      unfolding power_add by (rule split)
    also have "?b + 128 * ?r = n" by simp
    finally show ?thesis using False by (simp add: varint_large)
  qed
qed

lemma read_varint_varint:
  "n < 2 ^ 32 \<Longrightarrow> read_varint (pre @ varint n @ post) (length pre) = Some (n, length pre + length (varint n))"
  using read_varint_from_varint [of n 0 0 pre post] by (simp add: read_varint_def)

text \<open>A varint that is cut off is none.\<close>

lemma read_varint_from_cut:
  assumes "n < 2 ^ (32 - s)" "v < 2 ^ s" "s \<in> {0, 7, 14, 21, 28}" "m < length pre + length (varint n)"
  shows "read_varint_from (take m (pre @ varint n @ post)) (length pre) v s = None"
  using assms
proof (induction n arbitrary: pre v s rule: less_induct)
  case (less n)
  show ?case
  proof (cases "m \<le> length pre")
    case True
    then show ?thesis by (subst read_varint_from.simps) simp
  next
    case False
    then have large: "128 \<le> n" using less.prems(4) by (cases "n < 128") (simp_all add: varint_small)
    let ?b = "n mod 128" and ?r = "n div 128"
    have s: "s \<in> {0, 7, 14, 21}"
    proof (rule ccontr)
      assume "s \<notin> {0, 7, 14, 21}"
      then have "s = 28" using less.prems(3) by simp
      with less.prems(1) large show False by simp
    qed
    then have p7: "(2 :: nat) ^ (32 - s) = 128 * 2 ^ (32 - (s + 7))" "s + 7 \<in> {0, 7, 14, 21, 28}" by auto
    have r: "?r < 2 ^ (32 - (s + 7))" using less.prems(1) unfolding p7 by (simp add: less_mult_imp_div_less mult.commute)
    let ?v = "v OR take_bit 32 (push_bit s ((?b + 128) AND 127))"
    have bound: "take_bit 32 (push_bit s ((?b + 128) AND 127)) < 2 ^ (s + 7)"
    proof -
      have "take_bit 32 (push_bit s ((?b + 128) AND 127)) \<le> ?b * 2 ^ s"
        by (simp add: and_127 take_bit_eq_mod push_bit_eq_mult)
      also have "\<dots> < 2 ^ (s + 7)" by (simp add: power_add)
      finally show ?thesis .
    qed
    have "v < 2 ^ (s + 7)" using less.prems(2) by (meson less_le_trans le_add1 one_le_numeral power_increasing)
    with bound have v: "?v < 2 ^ (s + 7)" by (rule or_less)
    have pos: "length pre < length (take m (pre @ varint n @ post))" "take m (pre @ varint n @ post) ! length pre = ?b + 128"
      using False large by (simp_all add: varint_large nth_append)
    have step: "read_varint_from xs (length pre) v s = read_varint_from xs (length pre + 1) ?v (s + 7)"
      if "length pre < length xs" "xs ! length pre = ?b + 128" for xs
      using that s by (subst read_varint_from.simps) (auto simp: and_128 Let_def)
    have "read_varint_from (take m (pre @ varint n @ post)) (length pre) v s =
        read_varint_from (take m ((pre @ [?b + 128]) @ varint ?r @ post)) (length (pre @ [?b + 128])) ?v (s + 7)"
      unfolding step [OF pos] by (simp add: varint_large [OF large])
    also have "\<dots> = None"
      by (rule less.IH [OF _ r v p7(2)]) (use large less.prems(4) in \<open>simp_all add: varint_large\<close>)
    finally show ?thesis .
  qed
qed

lemma read_varint_cut:
  "n < 2 ^ 32 \<Longrightarrow> m < length pre + length (varint n) \<Longrightarrow> read_varint (take m (pre @ varint n @ post)) (length pre) = None"
  using read_varint_from_cut [of n 0 0 m pre post] by (simp add: read_varint_def)


section \<open>The binary search\<close>

lemma search_table_spec:
  assumes keys: "\<And>i. i < n \<Longrightarrow> key i = Some (k i)" and ascending: "\<And>i j. i < j \<Longrightarrow> j < n \<Longrightarrow> k i < k j"
  shows "hi \<le> n \<Longrightarrow> \<forall>i < lo. k i < wanted \<Longrightarrow> \<forall>i. hi \<le> i \<and> i < n \<longrightarrow> wanted < k i \<Longrightarrow>
    search_table key entry wanted lo hi = (case List.find (\<lambda>i. k i = wanted) [0..<n] of None \<Rightarrow> None | Some i \<Rightarrow> entry i)"
proof (induction "hi - lo" arbitrary: lo hi rule: less_induct)
  case less
  show ?case
  proof (cases "lo < hi")
    case False
    have "k i \<noteq> wanted" if "i < n" for i using less.prems(2) [rule_format, of i] less.prems(3) [rule_format, of i] False that
      by (cases "i < lo") auto
    then have "List.find (\<lambda>i. k i = wanted) [0..<n] = None" by (simp add: find_None_all)
    with False show ?thesis by (subst search_table.simps) simp
  next
    case True
    let ?mid = "lo + (hi - lo) div 2"
    have mid: "lo \<le> ?mid" "?mid < hi" "?mid < n" using True less.prems(1) by auto
    have order: "k i \<le> k j" if "i \<le> j" "j < n" for i j using ascending [of i j] that by (cases "i = j") auto
    consider "k ?mid < wanted" | "wanted < k ?mid" | "k ?mid = wanted" by linarith
    then show ?thesis
    proof cases
      case 1
      have "\<forall>i < ?mid + 1. k i < wanted" using 1 order mid(3) by (metis add.commute le_less_trans less_Suc_eq_le plus_1_eq_Suc)
      from less.hyps [OF _ less.prems(1) this less.prems(3)] True 1 keys [OF mid(3)] show ?thesis
        by (subst search_table.simps) (simp add: Let_def)
    next
      case 2
      have "\<forall>i. ?mid \<le> i \<and> i < n \<longrightarrow> wanted < k i" using 2 order by (metis less_le_trans)
      from less.hyps [OF _ _ less.prems(2) this] True 2 keys [OF mid(3)] mid less.prems(1) show ?thesis
        by (subst search_table.simps) (simp add: Let_def)
    next
      case 3
      have only: "i = ?mid" if "i < n" "k i = wanted" for i
        using ascending [of i ?mid] ascending [of ?mid i] 3 mid(3) that by (cases i ?mid rule: linorder_cases) auto
      have "List.find (\<lambda>i. k i = wanted) [0..<n] = Some ?mid"
      proof (cases "List.find (\<lambda>i. k i = wanted) [0..<n]")
        case None
        with 3 mid(3) show ?thesis unfolding find_None_all by auto
      next
        case (Some i)
        from find_Some_mem [OF this] only Some show ?thesis by auto
      qed
      with 3 True keys [OF mid(3)] show ?thesis by (subst search_table.simps) (simp add: Let_def)
    qed
  qed
qed

lemma search_table_pairs:
  assumes "\<And>i. i < length ps \<Longrightarrow> key i = Some (fst (ps ! i))" "\<And>i. i < length ps \<Longrightarrow> entry i = Some (snd (ps ! i))"
    and "sorted_wrt (<) (map fst ps)"
  shows "search_table key entry wanted 0 (length ps) = map_of ps wanted"
proof -
  have "search_table key entry wanted 0 (length ps) =
      (case List.find (\<lambda>i. fst (ps ! i) = wanted) [0..<length ps] of None \<Rightarrow> None | Some i \<Rightarrow> entry i)"
    by (rule search_table_spec [where n = "length ps"])
      (use assms(1) sorted_wrt_nth_less [OF assms(3)] in auto)
  also have "\<dots> = map_of ps wanted"
  proof (cases "List.find (\<lambda>i. fst (ps ! i) = wanted) [0..<length ps]")
    case None
    then have "fst (ps ! i) \<noteq> wanted" if "i < length ps" for i using that unfolding find_None_all by simp
    then have "wanted \<notin> fst ` set ps" by (metis imageE in_set_conv_nth)
    with None show ?thesis by (simp add: map_of_eq_None_iff [THEN iffD2])
  next
    case (Some i)
    from find_Some_mem [OF this] have i: "i < length ps" "fst (ps ! i) = wanted" by auto
    have "distinct (map fst ps)" using assms(3) by (simp add: strict_sorted_iff)
    with i have "map_of ps wanted = Some (snd (ps ! i))" by (metis map_of_eq_Some_iff nth_mem prod.collapse)
    with Some i assms(2) show ?thesis by simp
  qed
  finally show ?thesis .
qed

section \<open>The index reads back\<close>

definition flat_pairs :: "(nat \<times> nat) list \<Rightarrow> nat list" where
  "flat_pairs ps = concat (map (\<lambda>(a, g). to_le_bytes a @ to_le_bytes g) ps)"

lemma u32_le_bytes: "n < 2 ^ 32 \<Longrightarrow> u32_le (to_le_bytes n) = n"
proof -
  assume "n < 2 ^ 32"
  then have top: "n div 16777216 mod 256 = n div 16777216" by (simp add: less_mult_imp_div_less)
  have "256 * (n div 256) + n mod 256 = n" by simp
  moreover have "256 * (n div 65536) + n div 256 mod 256 = n div 256"
    using mult_div_mod_eq [of 256 "n div 256"] by (simp add: div_mult2_eq [symmetric])
  moreover have "256 * (n div 16777216) + n div 65536 mod 256 = n div 65536"
    using mult_div_mod_eq [of 256 "n div 65536"] by (simp add: div_mult2_eq [symmetric])
  ultimately have "n mod 256 + 256 * (n div 256 mod 256) + 65536 * (n div 65536 mod 256) + 16777216 * (n div 16777216) = n"
    by linarith
  then show ?thesis using top by (simp add: u32_le_def to_le_bytes_def)
qed

lemma u32_at_append: "n < 2 ^ 32 \<Longrightarrow> u32_at (pre @ to_le_bytes n @ post) (length pre) = Some n"
  using u32_le_bytes [of n] by (simp add: u32_at_def get_slice_def slice_def to_le_bytes_def)

lemma length_to_le_bytes [simp]: "length (to_le_bytes n) = 4"
  by (simp add: to_le_bytes_def)

lemma flat_pairs_split:
  assumes "i < length ps"
  shows "flat_pairs ps = flat_pairs (take i ps) @ to_le_bytes (fst (ps ! i)) @ to_le_bytes (snd (ps ! i)) @ flat_pairs (drop (Suc i) ps)"
    "length (flat_pairs (take i ps)) = i * index_pair_len"
proof -
  have "ps = take i ps @ ps ! i # drop (Suc i) ps" by (rule id_take_nth_drop [OF assms])
  then show "flat_pairs ps = flat_pairs (take i ps) @ to_le_bytes (fst (ps ! i)) @ to_le_bytes (snd (ps ! i)) @ flat_pairs (drop (Suc i) ps)"
    by (metis (no_types, lifting) append_assoc concat.simps(2) concat_append flat_pairs_def list.simps(9) map_append split_beta)
  have "length (flat_pairs qs) = length qs * index_pair_len" for qs
    by (induction qs) (auto simp: flat_pairs_def index_pair_len_def)
  with assms show "length (flat_pairs (take i ps)) = i * index_pair_len" by simp
qed

lemma u32_at_flat:
  assumes "i < length ps" "fst (ps ! i) < 2 ^ 32" "snd (ps ! i) < 2 ^ 32"
  shows "u32_at (flat_pairs ps) (i * index_pair_len) = Some (fst (ps ! i))"
    "u32_at (flat_pairs ps) (i * index_pair_len + 4) = Some (snd (ps ! i))"
proof -
  note f = flat_pairs_split [OF assms(1)]
  show "u32_at (flat_pairs ps) (i * index_pair_len) = Some (fst (ps ! i))"
    unfolding f(1) f(2) [symmetric] by (rule u32_at_append [OF assms(2)])
  show "u32_at (flat_pairs ps) (i * index_pair_len + 4) = Some (snd (ps ! i))"
    using u32_at_append [OF assms(3), of "flat_pairs (take i ps) @ to_le_bytes (fst (ps ! i))" "flat_pairs (drop (Suc i) ps)"]
    by (subst f(1)) (simp add: f(2))
qed

lemma expand_pairs_spec:
  "sorted_wrt (<) (map fst ps) \<Longrightarrow> \<forall>(a, g) \<in> set ps. prev \<le> a \<and> a < 2 ^ 32 \<and> g < 2 ^ 32 \<Longrightarrow>
   expand_pairs (length ps) (pre @ varint_pairs prev ps) (length pre) prev flat = Some (flat @ flat_pairs ps)"
proof (induction ps arbitrary: pre prev flat)
  case (Cons p ps)
  obtain a g where p: "p = (a, g)" by fastforce
  have a: "prev \<le> a" "a < 2 ^ 32" "g < 2 ^ 32" using Cons.prems(2) by (auto simp: p)
  have d: "a - prev < 2 ^ 32" using a(2) by simp
  have r1: "read_varint (pre @ varint_pairs prev (p # ps)) (length pre) = Some (a - prev, length (pre @ varint (a - prev)))"
    using read_varint_varint [OF d, of pre "varint g @ varint_pairs a ps"] by (simp add: p)
  have r2: "read_varint (pre @ varint_pairs prev (p # ps)) (length (pre @ varint (a - prev))) =
      Some (g, length (pre @ varint (a - prev) @ varint g))"
    using read_varint_varint [OF a(3), of "pre @ varint (a - prev)" "varint_pairs a ps"] by (simp add: p)
  have "\<forall>(b, h) \<in> set ps. a \<le> b \<and> b < 2 ^ 32 \<and> h < 2 ^ 32" using Cons.prems by (fastforce simp: p)
  from Cons.IH [OF _ this, of "pre @ varint (a - prev) @ varint g" "flat @ to_le_bytes a @ to_le_bytes g"] Cons.prems(1)
  have IH: "expand_pairs (length ps) (pre @ varint_pairs prev (p # ps)) (length (pre @ varint (a - prev) @ varint g)) a
      (flat @ to_le_bytes a @ to_le_bytes g) = Some ((flat @ to_le_bytes a @ to_le_bytes g) @ flat_pairs ps)"
    by (simp add: p)
  have le: "prev + (a - prev) = a" "\<not> a > u32_max" using a(1,2) by (simp_all add: u32_max_def)
  show ?case
    unfolding list.size(4) add_Suc_right add_0_right expand_pairs.simps(2) r1 option.case prod.case r2 le(1) if_not_P [OF le(2)] IH
    by (simp add: flat_pairs_def p)
qed (simp add: flat_pairs_def)


lemma length_flat_pairs: "length (flat_pairs ps) = length ps * index_pair_len"
  by (induction ps) (auto simp: flat_pairs_def index_pair_len_def)

lemma length_magic: "length magic_index = 4"
  by (simp add: magic_index_def)

lemma parse_index_start:
  "length ps < 2 ^ 32 \<Longrightarrow> parse_index (build_appid_index ps) =
     map_option (\<lambda>flat. \<lparr>ai_bytes = flat, ai_count = length ps\<rparr>)
       (expand_pairs (length ps) (build_appid_index ps) index_header_len 0 [])"
proof -
  assume "length ps < 2 ^ 32"
  from u32_at_append [OF this, of magic_index "varint_pairs 0 ps"]
  have "u32_at (build_appid_index ps) 4 = Some (length ps)" by (simp only: build_appid_index_def length_magic)
  moreover have "\<not> length (build_appid_index ps) < index_header_len" "take 4 (build_appid_index ps) = magic_index"
    by (simp_all add: build_appid_index_def length_magic index_header_len_def)
  ultimately show ?thesis by (simp add: parse_index_def)
qed

text \<open>C32: the client reads the Steam index as the build script wrote it: every appid of the table
  gives its own IGDB id, every other appid gives none, and the reverse lookup gives the appids of a
  game in their order. The script sorts the pairs by appid; the numbers have 32 bits.\<close>

theorem appid_index_reads_back:
  assumes "sorted_wrt (<) (map fst pairs)" "\<forall>(a, g) \<in> set pairs. a < 2 ^ 32 \<and> g < 2 ^ 32" "length pairs < 2 ^ 32"
  shows "\<exists>idx. parse_index (build_appid_index pairs) = Some idx \<and> ai_count idx = length pairs \<and>
    (\<forall>a. index_igdb_id a idx = map_of pairs a) \<and>
    (\<forall>g. appids_for_igdb g idx = map fst (filter (\<lambda>p. snd p = g) pairs))"
proof -
  have "\<forall>(a, g) \<in> set pairs. 0 \<le> a \<and> a < 2 ^ 32 \<and> g < 2 ^ 32" using assms(2) by auto
  from expand_pairs_spec [OF assms(1) this, of "magic_index @ to_le_bytes (length pairs)" "[]"]
  have "expand_pairs (length pairs) (build_appid_index pairs) index_header_len 0 [] = Some (flat_pairs pairs)"
    by (simp add: build_appid_index_def magic_index_def index_header_len_def)
  then have p: "parse_index (build_appid_index pairs) = Some \<lparr>ai_bytes = flat_pairs pairs, ai_count = length pairs\<rparr>"
    by (simp add: parse_index_start [OF assms(3)])
  have at': "u32_at (flat_pairs pairs) (i * index_pair_len) = Some (fst (pairs ! i))"
    "u32_at (flat_pairs pairs) (i * index_pair_len + 4) = Some (snd (pairs ! i))" if "i < length pairs" for i
    using u32_at_flat [OF that] assms(2) nth_mem [OF that] by (auto simp: case_prod_beta)
  have "index_igdb_id a \<lparr>ai_bytes = flat_pairs pairs, ai_count = length pairs\<rparr> = map_of pairs a" for a
    unfolding index_igdb_id_def appid_index.simps by (rule search_table_pairs [OF at' assms(1)])
  moreover have "appids_for_igdb g \<lparr>ai_bytes = flat_pairs pairs, ai_count = length pairs\<rparr> = map fst (filter (\<lambda>p. snd p = g) pairs)" for g
  proof -
    have "List.map_filter f [0..<length pairs] = List.map_filter f' [0..<length pairs]"
      if "\<And>i. i < length pairs \<Longrightarrow> f i = f' i" for f f' :: "nat \<Rightarrow> nat option"
      using that by (auto simp: List.map_filter_def intro!: map_cong filter_cong)
    note cong = this
    have "appids_for_igdb g \<lparr>ai_bytes = flat_pairs pairs, ai_count = length pairs\<rparr> =
        List.map_filter (\<lambda>i. if snd (pairs ! i) = g then Some (fst (pairs ! i)) else None) [0..<length pairs]"
      unfolding appids_for_igdb_def appid_index.simps by (rule cong) (simp add: at')
    also have "\<dots> = List.map_filter (\<lambda>p. if snd p = g then Some (fst p) else None) (map (\<lambda>i. pairs ! i) [0..<length pairs])"
      by (simp add: List.map_filter_def filter_map comp_def)
    also have "\<dots> = map fst (filter (\<lambda>p. snd p = g) pairs)"
      unfolding map_nth by (induction pairs) (auto simp: map_filter_simps)
    finally show ?thesis .
  qed
  ultimately show ?thesis using p by auto
qed

lemma appid_index_reads_back_witness:
  "\<exists>idx. parse_index (build_appid_index [(570, 2963), (730, 242408)]) = Some idx \<and> index_igdb_id 730 idx = Some 242408 \<and>
     index_igdb_id 600 idx = None"
  using appid_index_reads_back [of "[(570, 2963), (730, 242408)]"] by auto

lemma expand_pairs_cut:
  "sorted_wrt (<) (map fst ps) \<Longrightarrow> \<forall>(a, g) \<in> set ps. prev \<le> a \<and> a < 2 ^ 32 \<and> g < 2 ^ 32 \<Longrightarrow>
   m < length (pre @ varint_pairs prev ps) \<Longrightarrow> length pre \<le> m \<Longrightarrow>
   expand_pairs (length ps) (take m (pre @ varint_pairs prev ps)) (length pre) prev flat = None"
proof (induction ps arbitrary: pre prev flat)
  case (Cons p ps)
  obtain a g where p: "p = (a, g)" by fastforce
  have a: "prev \<le> a" "a < 2 ^ 32" "g < 2 ^ 32" using Cons.prems(2) by (auto simp: p)
  have d: "a - prev < 2 ^ 32" using a(2) by simp
  let ?all = "pre @ varint_pairs prev (p # ps)"
  let ?p1 = "pre @ varint (a - prev)" and ?p2 = "pre @ varint (a - prev) @ varint g"
  have all: "?all = pre @ varint (a - prev) @ varint g @ varint_pairs a ps" "?all = ?p1 @ varint g @ varint_pairs a ps"
    "?all = ?p2 @ varint_pairs a ps" by (simp_all add: p)
  show ?case
  proof (cases "m < length ?p1")
    case True
    then have "read_varint (take m ?all) (length pre) = None"
      unfolding all(1) using read_varint_cut [OF d, of m pre] by simp
    then show ?thesis by simp
  next
    case False
    have r1: "read_varint (take m ?all) (length pre) = Some (a - prev, length ?p1)"
    proof -
      have "take m ?all = pre @ varint (a - prev) @ take (m - length ?p1) (varint g @ varint_pairs a ps)"
        unfolding all(1) using False by simp
      then show ?thesis using read_varint_varint [OF d, of pre] by simp
    qed
    show ?thesis
    proof (cases "m < length ?p2")
      case True
      then have "read_varint (take m ?all) (length ?p1) = None"
        unfolding all(2) using read_varint_cut [OF a(3), of m ?p1] by simp
      with r1 show ?thesis by (simp add: r1)
    next
      case m: False
      have r2: "read_varint (take m ?all) (length ?p1) = Some (g, length ?p2)"
      proof -
        have "take m ?all = ?p1 @ varint g @ take (m - length ?p2) (varint_pairs a ps)"
          unfolding all(3) using m by (simp add: add.assoc)
        then show ?thesis using read_varint_varint [OF a(3), of ?p1] by simp
      qed
      have rest: "\<forall>(b, h) \<in> set ps. a \<le> b \<and> b < 2 ^ 32 \<and> h < 2 ^ 32" using Cons.prems(1,2) by (fastforce simp: p)
      have len: "m < length (?p2 @ varint_pairs a ps)" "length ?p2 \<le> m" using Cons.prems(3) m by (simp_all add: p)
      have "sorted_wrt (<) (map fst ps)" using Cons.prems(1) by simp
      from Cons.IH [OF this rest len, of "flat @ to_le_bytes a @ to_le_bytes g"]
      have IH: "expand_pairs (length ps) (take m ?all) (length ?p2) a (flat @ to_le_bytes a @ to_le_bytes g) = None" unfolding all(3) .
      have le: "prev + (a - prev) = a" "\<not> a > u32_max" using a(1,2) by (simp_all add: u32_max_def)
      show ?thesis
        unfolding list.size(4) add_Suc_right add_0_right expand_pairs.simps(2) r1 option.case prod.case r2 le(1) if_not_P [OF le(2)] IH ..
    qed
  qed
qed simp

text \<open>C39: an index file that was cut off anywhere is refused as a whole, not read as a shorter table.\<close>

theorem cut_index_is_refused:
  assumes "sorted_wrt (<) (map fst pairs)" "\<forall>(a, g) \<in> set pairs. a < 2 ^ 32 \<and> g < 2 ^ 32" "length pairs < 2 ^ 32"
    and "n < length (build_appid_index pairs)"
  shows "parse_index (take n (build_appid_index pairs)) = None"
proof (cases "n < index_header_len")
  case True
  then show ?thesis by (simp add: parse_index_def min.strict_coboundedI2)
next
  case False
  let ?pre = "magic_index @ to_le_bytes (length pairs)"
  have pre: "length ?pre = index_header_len" by (simp add: magic_index_def index_header_len_def)
  have cut: "take n (build_appid_index pairs) = ?pre @ take (n - index_header_len) (varint_pairs 0 pairs)"
  proof -
    have all: "build_appid_index pairs = ?pre @ varint_pairs 0 pairs" by (simp add: build_appid_index_def)
    show ?thesis unfolding all take_append pre using False by (simp add: length_magic index_header_len_def)
  qed
  have u: "u32_at (take n (build_appid_index pairs)) 4 = Some (length pairs)" "take 4 (take n (build_appid_index pairs)) = magic_index"
    "\<not> length (take n (build_appid_index pairs)) < index_header_len"
    using u32_at_append [OF assms(3), of magic_index "take (n - index_header_len) (varint_pairs 0 pairs)"] False assms(4)
    unfolding cut length_magic by (simp_all add: length_magic index_header_len_def)
  have "\<forall>(a, g) \<in> set pairs. 0 \<le> a \<and> a < 2 ^ 32 \<and> g < 2 ^ 32" using assms(2) by auto
  from expand_pairs_cut [OF assms(1) this, of n ?pre "[]"] assms(4) False
  have "expand_pairs (length pairs) (take n (build_appid_index pairs)) index_header_len 0 [] = None"
    unfolding pre by (simp add: build_appid_index_def)
  with u show ?thesis by (simp add: parse_index_def)
qed

lemma cut_index_is_refused_witness: "parse_index (take 12 (build_appid_index [(570, 2963), (730, 242408)])) = None"
proof (rule cut_index_is_refused)
  show "12 < length (build_appid_index [(570, 2963), (730, 242408)])"
    by (simp add: build_appid_index_def magic_index_def varint_small varint_large)
qed simp_all

text \<open>A fifth byte can carry bits that a \<open>u32\<close> has no room for. They are dropped: the varint of
  \<open>2 ^ 32\<close> reads as zero, although the function means to refuse what does not fit.\<close>

lemma wide_varint_wraps: "read_varint [128, 128, 128, 128, 16] 0 = Some (0, 5)"
  unfolding read_varint_def
  by (subst read_varint_from.simps, simp add: and_127 and_128 push_bit_eq_mult take_bit_eq_mod)+

end
