(* ===== verification/Catalogue_Head.thy ===== *)
theory Catalogue_Head
  imports Catalogue "HOL-Library.AList"
begin

text \<open>
  The head of the game catalogue (\<open>catalogue.rs\<close>): records sorted by IGDB id, the table of curated
  executables with the map that indexes it, and the texts. The lower case of a text outside ASCII,
  which only the search uses, is an argument.
\<close>

record catalogue_entry =
  ce_igdb_id :: nat
  ce_game_id :: string
  ce_name :: string
  ce_slug :: string
  ce_short_name :: string
  ce_cover_image :: string

record catalogue_head =
  ch_bytes :: "nat list"
  ch_count :: nat
  ch_strings_off :: nat
  ch_exe_count :: nat
  ch_by_exe :: "(string \<times> nat list) list"

text \<open>\<open>static_string\<close> and \<open>string_at\<close>.\<close>

definition head_string :: "nat \<Rightarrow> nat \<Rightarrow> catalogue_head \<Rightarrow> string" where
  "head_string off len h =
     (if len = 0 then []
      else case Option.bind (get_slice (ch_bytes h) (ch_strings_off h + off) len) utf8_text of None \<Rightarrow> [] | Some s \<Rightarrow> s)"

definition exe_base :: "catalogue_head \<Rightarrow> nat" where
  "exe_base h = head_header_len + ch_count h * head_record_len"

definition build_exe_map :: "catalogue_head \<Rightarrow> (string \<times> nat list) list" where
  "build_exe_map h =
     fold (\<lambda>i map.
       case get_slice (ch_bytes h) (exe_base h + i * exe_entry_len) exe_entry_len of
         None \<Rightarrow> map
       | Some e \<Rightarrow>
           let exe = head_string (u32_le (slice e 0 4)) (e ! 12) h
           in if exe = [] then map
              else AList.update exe ((case map_of map exe of None \<Rightarrow> [] | Some is \<Rightarrow> is) @ [i]) map) [0..<ch_exe_count h] []"

text \<open>\<open>checked_add\<close> and \<open>checked_mul\<close> on \<open>usize\<close>.\<close>

definition checked_usize :: "nat \<Rightarrow> nat option" where
  "checked_usize n = (if n \<le> u64_max then Some n else None)"

definition parse_head :: "nat list \<Rightarrow> catalogue_head option" where
  "parse_head bytes =
     (if length bytes < head_header_len \<or> take 4 bytes \<noteq> magic_head then None
      else
        Option.bind (u32_at bytes 4) (\<lambda>count.
        Option.bind (u32_at bytes 8) (\<lambda>strings_off.
        Option.bind (u32_at bytes 12) (\<lambda>exe_count.
        Option.bind (Option.bind (checked_usize (count * head_record_len)) (\<lambda>n. checked_usize (head_header_len + n))) (\<lambda>records_end.
        Option.bind (Option.bind (checked_usize (exe_count * exe_entry_len)) (\<lambda>n. checked_usize (records_end + n))) (\<lambda>exe_end.
          if exe_end > strings_off \<or> strings_off > length bytes then None
          else
            let h = \<lparr>ch_bytes = bytes, ch_count = count, ch_strings_off = strings_off, ch_exe_count = exe_count, ch_by_exe = []\<rparr>
            in Some (h\<lparr>ch_by_exe := build_exe_map h\<rparr>)))))))"

definition entry_at :: "nat \<Rightarrow> catalogue_head \<Rightarrow> catalogue_entry option" where
  "entry_at i h =
     map_option (\<lambda>rec.
       let g = (\<lambda>k. u32_le (slice rec k 4))
       in \<lparr>ce_igdb_id = g 0, ce_game_id = head_string (g 20) (rec ! 28) h, ce_name = head_string (g 4) (rec ! 24) h,
           ce_slug = head_string (g 8) (rec ! 25) h, ce_short_name = head_string (g 12) (rec ! 26) h,
           ce_cover_image = head_string (g 16) (rec ! 27) h\<rparr>)
       (get_slice (ch_bytes h) (head_header_len + i * head_record_len) head_record_len)"

definition head_entries :: "catalogue_head \<Rightarrow> catalogue_entry list" where
  "head_entries h = List.map_filter (\<lambda>i. entry_at i h) [0..<ch_count h]"

section \<open>Lookups\<close>

text \<open>The loop of \<open>lookup_exe\<close> over the entries that claim the executable.\<close>

fun lookup_candidates :: "catalogue_head \<Rightarrow> string \<Rightarrow> nat list \<Rightarrow> nat option \<Rightarrow> catalogue_entry option" where
  "lookup_candidates h path [] unguarded = Option.bind unguarded (\<lambda>i. entry_at i h)"
| "lookup_candidates h path (i # is) unguarded =
     (case get_slice (ch_bytes h) (exe_base h + i * exe_entry_len) exe_entry_len of
        None \<Rightarrow> None
      | Some e \<Rightarrow>
          let record_idx = u32_le (slice e 8 4);
              shape = head_string (u32_le (slice e 4 4)) (e ! 13) h
          in if shape = [] then
               lookup_candidates h path is (case unguarded of None \<Rightarrow> Some record_idx | Some u \<Rightarrow> Some u)
             else if contains path shape then entry_at record_idx h
             else lookup_candidates h path is unguarded)"

definition lookup_exe :: "string \<Rightarrow> string \<Rightarrow> catalogue_head \<Rightarrow> catalogue_entry option" where
  "lookup_exe exe exe_path h =
     (case map_of (ch_by_exe h) (to_ascii_lowercase exe) of
        None \<Rightarrow> None
      | Some candidates \<Rightarrow> lookup_candidates h (to_ascii_lowercase exe_path) candidates None)"

definition head_by_game_id :: "string \<Rightarrow> catalogue_head \<Rightarrow> catalogue_entry option" where
  "head_by_game_id game_id h =
     (if game_id = [] then None else List.find (\<lambda>e. ce_game_id e = game_id) (head_entries h))"

definition head_by_name :: "string \<Rightarrow> catalogue_head \<Rightarrow> catalogue_entry option" where
  "head_by_name name h = (if name = [] then None else List.find (\<lambda>e. eq_ignore_case (ce_name e) name) (head_entries h))"

definition head_all_by_name :: "string \<Rightarrow> catalogue_head \<Rightarrow> catalogue_entry list" where
  "head_all_by_name name h = (if name = [] then [] else filter (\<lambda>e. eq_ignore_case (ce_name e) name) (head_entries h))"

definition head_get :: "nat \<Rightarrow> catalogue_head \<Rightarrow> catalogue_entry option" where
  "head_get igdb_id h =
     search_table (\<lambda>mid. u32_at (ch_bytes h) (head_header_len + mid * head_record_len)) (\<lambda>mid. entry_at mid h)
       igdb_id 0 (ch_count h)"

text \<open>The loop of \<open>search\<close>, which ends when enough names start with the query.\<close>

fun search_loop ::
  "(string \<Rightarrow> string) \<Rightarrow> string \<Rightarrow> nat \<Rightarrow> catalogue_entry list \<Rightarrow> catalogue_entry list \<Rightarrow> catalogue_entry list \<Rightarrow>
   catalogue_entry list \<times> catalogue_entry list" where
  "search_loop lower q limit [] starts has = (starts, has)"
| "search_loop lower q limit (e # es) starts has =
     (let name = lower (ce_name e)
      in if starts_with name q then
           if length (starts @ [e]) \<ge> limit then (starts @ [e], has) else search_loop lower q limit es (starts @ [e]) has
         else if length has < limit \<and> contains name q then search_loop lower q limit es starts (has @ [e])
         else search_loop lower q limit es starts has)"

definition head_search :: "(string \<Rightarrow> string) \<Rightarrow> string \<Rightarrow> nat \<Rightarrow> catalogue_head \<Rightarrow> catalogue_entry list" where
  "head_search lower query limit h =
     (let q = lower (trim_text query)
      in if q = [] \<or> limit = 0 then []
         else case search_loop lower q limit (head_entries h) [] [] of (starts, has) \<Rightarrow> take limit (starts @ has))"

section \<open>A file that was accepted\<close>

text \<open>The table of the executables as it lies in the file.\<close>

definition exe_row :: "catalogue_head \<Rightarrow> nat \<Rightarrow> string \<times> string \<times> nat" where
  "exe_row h i =
     (let e = slice (ch_bytes h) (exe_base h + i * exe_entry_len) exe_entry_len
      in (head_string (u32_le (slice e 0 4)) (e ! 12) h, head_string (u32_le (slice e 4 4)) (e ! 13) h, u32_le (slice e 8 4)))"

lemma parse_head_fits:
  assumes "parse_head bytes = Some h"
  shows "ch_bytes h = bytes" "exe_base h + ch_exe_count h * exe_entry_len \<le> length bytes"
    "ch_by_exe h = build_exe_map (h\<lparr>ch_by_exe := []\<rparr>)"
  using assms by (auto simp: parse_head_def exe_base_def Let_def bind_eq_Some_conv checked_usize_def split: if_splits)

lemma exe_row_read:
  assumes "exe_base h + ch_exe_count h * exe_entry_len \<le> length (ch_bytes h)" "i < ch_exe_count h"
  shows "get_slice (ch_bytes h) (exe_base h + i * exe_entry_len) exe_entry_len =
    Some (slice (ch_bytes h) (exe_base h + i * exe_entry_len) exe_entry_len)"
proof -
  have "Suc i * exe_entry_len \<le> ch_exe_count h * exe_entry_len" using assms(2) by (intro mult_le_mono1) simp
  with assms(1) show ?thesis by (simp add: get_slice_def)
qed

lemma head_fields_update [simp]:
  "head_string off len (h\<lparr>ch_by_exe := m\<rparr>) = head_string off len h" "exe_base (h\<lparr>ch_by_exe := m\<rparr>) = exe_base h"
  "exe_row (h\<lparr>ch_by_exe := m\<rparr>) = exe_row h"
  by (simp_all add: head_string_def exe_base_def exe_row_def fun_eq_iff Let_def)

text \<open>The map lists, for an executable, the rows that claim it, in their order.\<close>

lemma exe_map_rows:
  assumes "exe_base h + ch_exe_count h * exe_entry_len \<le> length (ch_bytes h)" "exe \<noteq> []"
  shows "(case map_of (build_exe_map h) exe of None \<Rightarrow> [] | Some is \<Rightarrow> is) = filter (\<lambda>i. fst (exe_row h i) = exe) [0..<ch_exe_count h]"
proof -
  let ?add = "\<lambda>i map. case get_slice (ch_bytes h) (exe_base h + i * exe_entry_len) exe_entry_len of
         None \<Rightarrow> map
       | Some e \<Rightarrow>
           let exe = head_string (u32_le (slice e 0 4)) (e ! 12) h
           in if exe = [] then map
              else AList.update exe ((case map_of map exe of None \<Rightarrow> [] | Some is \<Rightarrow> is) @ [i]) map"
  let ?rows = "\<lambda>m. case map_of m exe of None \<Rightarrow> [] | Some is \<Rightarrow> is"
  have step: "?rows (?add i m) = ?rows m @ (if fst (exe_row h i) = exe then [i] else [])" if "i < ch_exe_count h" for i m
    using exe_row_read [OF assms(1) that] assms(2) by (simp add: exe_row_def Let_def update_conv')
  have "?rows (fold ?add is m) = ?rows m @ filter (\<lambda>i. fst (exe_row h i) = exe) is" if "\<forall>i \<in> set is. i < ch_exe_count h" for "is" m
    using that
  proof (induction "is" arbitrary: m)
    case (Cons i "is")
    then show ?case using step [of i m] by simp
  qed simp
  from this [of "[0..<ch_exe_count h]" "[]"] show ?thesis by (simp add: build_exe_map_def)
qed


lemma lookup_candidates_spec:
  assumes "exe_base h + ch_exe_count h * exe_entry_len \<le> length (ch_bytes h)" "\<forall>i \<in> set is. i < ch_exe_count h"
  shows "lookup_candidates h path is unguarded =
    (case List.find (\<lambda>i. fst (snd (exe_row h i)) \<noteq> [] \<and> contains path (fst (snd (exe_row h i)))) is of
       Some i \<Rightarrow> entry_at (snd (snd (exe_row h i))) h
     | None \<Rightarrow> Option.bind (case unguarded of Some r \<Rightarrow> Some r
          | None \<Rightarrow> map_option (\<lambda>i. snd (snd (exe_row h i))) (List.find (\<lambda>i. fst (snd (exe_row h i)) = []) is)) (\<lambda>r. entry_at r h))"
  using assms(2)
proof (induction "is" arbitrary: unguarded)
  case Nil
  then show ?case by (simp split: option.split)
next
  case (Cons i "is")
  have row: "exe_row h i = (head_string (u32_le (slice e 0 4)) (e ! 12) h, head_string (u32_le (slice e 4 4)) (e ! 13) h, u32_le (slice e 8 4))"
    if "e = slice (ch_bytes h) (exe_base h + i * exe_entry_len) exe_entry_len" for e using that by (simp add: exe_row_def Let_def)
  have IH: "lookup_candidates h path is u = (case List.find (\<lambda>i. fst (snd (exe_row h i)) \<noteq> [] \<and> contains path (fst (snd (exe_row h i)))) is of
       Some i \<Rightarrow> entry_at (snd (snd (exe_row h i))) h
     | None \<Rightarrow> Option.bind (case u of Some r \<Rightarrow> Some r
          | None \<Rightarrow> map_option (\<lambda>i. snd (snd (exe_row h i))) (List.find (\<lambda>i. fst (snd (exe_row h i)) = []) is)) (\<lambda>r. entry_at r h))" for u
    using Cons by simp
  have "i < ch_exe_count h" using Cons.prems by simp
  note read = exe_row_read [OF assms(1) this]
  define e where "e = slice (ch_bytes h) (exe_base h + i * exe_entry_len) exe_entry_len"
  define shape r where "shape = head_string (u32_le (slice e 4 4)) (e ! 13) h" and "r = u32_le (slice e 8 4)"
  have row: "fst (snd (exe_row h i)) = shape" "snd (snd (exe_row h i)) = r" using row [OF e_def] by (simp_all add: shape_def r_def)
  have unfold: "lookup_candidates h path (i # is) unguarded =
      (if shape = [] then lookup_candidates h path is (case unguarded of None \<Rightarrow> Some r | Some u \<Rightarrow> Some u)
       else if contains path shape then entry_at r h else lookup_candidates h path is unguarded)"
    by (simp only: lookup_candidates.simps read option.case Let_def e_def [symmetric] shape_def [symmetric] r_def [symmetric])
  consider "shape = []" | "shape \<noteq> []" "contains path shape" | "shape \<noteq> []" "\<not> contains path shape" by blast
  then show ?case
    by cases (simp_all add: unfold row IH del: lookup_candidates.simps split: option.split)
qed

lemma find_map: "List.find P (map f xs) = map_option f (List.find (\<lambda>x. P (f x)) xs)"
  by (induction xs) auto

lemma find_filter: "List.find P (filter Q xs) = List.find (\<lambda>x. Q x \<and> P x) xs"
  by (induction xs) auto

text \<open>C33: the index of the executables answers as the table does. Of the rows of a process's
  executable the first whose marker is in its path wins, whatever stands before it; without one the
  first row that needs no marker; and an executable of no row is no game. A marker only ever narrows
  a shared name, so a Java program is not Minecraft.\<close>

theorem executable_lookup_is_the_table:
  assumes "parse_head bytes = Some h" "exe \<noteq> []"
  defines "rows \<equiv> map (exe_row h) [0..<ch_exe_count h]"
  shows "lookup_exe exe path h =
    (case List.find (\<lambda>(name, marker, r). name = to_ascii_lowercase exe \<and> marker \<noteq> [] \<and> contains (to_ascii_lowercase path) marker) rows of
       Some (name, marker, r) \<Rightarrow> entry_at r h
     | None \<Rightarrow>
        (case List.find (\<lambda>(name, marker, r). name = to_ascii_lowercase exe \<and> marker = []) rows of
           Some (name, marker, r) \<Rightarrow> entry_at r h
         | None \<Rightarrow> None))"
proof -
  note p = parse_head_fits [OF assms(1)]
  let ?key = "to_ascii_lowercase exe" and ?path = "to_ascii_lowercase path"
  have fits: "exe_base h + ch_exe_count h * exe_entry_len \<le> length (ch_bytes h)" using p by simp
  have key: "?key \<noteq> []" using assms(2) by (simp add: to_ascii_lowercase_def)
  let ?is = "filter (\<lambda>i. fst (exe_row h i) = ?key) [0..<ch_exe_count h]"
  have mem: "\<forall>i \<in> set ?is. i < ch_exe_count h" by simp
  have rows': "(case map_of (ch_by_exe h) ?key of None \<Rightarrow> [] | Some is \<Rightarrow> is) = ?is"
    using exe_map_rows [of "h\<lparr>ch_by_exe := []\<rparr>", OF _ key] fits by (simp add: p(3))
  have "lookup_exe exe path h = lookup_candidates h ?path ?is None"
    using rows' by (cases "map_of (ch_by_exe h) ?key") (simp_all add: lookup_exe_def)
  also have "\<dots> = (case List.find (\<lambda>i. fst (snd (exe_row h i)) \<noteq> [] \<and> contains ?path (fst (snd (exe_row h i)))) ?is of
       Some i \<Rightarrow> entry_at (snd (snd (exe_row h i))) h
     | None \<Rightarrow> Option.bind (map_option (\<lambda>i. snd (snd (exe_row h i))) (List.find (\<lambda>i. fst (snd (exe_row h i)) = []) ?is)) (\<lambda>r. entry_at r h))"
    by (simp only: lookup_candidates_spec [OF fits mem] option.case(1))
  finally show ?thesis
    by (simp add: rows_def find_map find_filter case_prod_beta split: option.split)
qed

text \<open>The binary search for an IGDB id finds what a pass over all records finds: the record of
  that id when there is one, and nothing else, as long as the records are sorted by id. A file that
  was accepted is long enough for each of its records.\<close>

theorem catalogue_get_is_find:
  assumes "parse_head bytes = Some h" "sorted_wrt (<) (map ce_igdb_id (head_entries h))"
  shows "length (head_entries h) = ch_count h \<and> head_get igdb_id h = List.find (\<lambda>e. ce_igdb_id e = igdb_id) (head_entries h)"
proof -
  note p = parse_head_fits [OF assms(1)]
  have fits: "head_header_len + ch_count h * head_record_len \<le> length (ch_bytes h)" using p by (simp add: exe_base_def)
  have slice: "get_slice (ch_bytes h) (head_header_len + i * head_record_len) head_record_len =
      Some (slice (ch_bytes h) (head_header_len + i * head_record_len) head_record_len)" if "i < ch_count h" for i
  proof -
    have "Suc i * head_record_len \<le> ch_count h * head_record_len" using that by (intro mult_le_mono1) simp
    with fits show ?thesis by (simp add: get_slice_def)
  qed
  define E where "E i = the (entry_at i h)" for i
  have E: "entry_at i h = Some (E i)" if "i < ch_count h" for i using slice [OF that] by (simp add: E_def entry_at_def)
  have entries: "head_entries h = map E [0..<ch_count h]"
  proof -
    have "List.map_filter (\<lambda>i. entry_at i h) is = map E is" if "\<forall>i \<in> set is. i < ch_count h" for "is"
      using that by (induction "is") (simp_all add: map_filter_simps E)
    then show ?thesis by (simp add: head_entries_def)
  qed
  have key: "u32_at (ch_bytes h) (head_header_len + i * head_record_len) = Some (ce_igdb_id (E i))" if "i < ch_count h" for i
  proof -
    let ?o = "head_header_len + i * head_record_len"
    have "?o + 4 \<le> length (ch_bytes h)" "slice (slice (ch_bytes h) ?o head_record_len) 0 4 = slice (ch_bytes h) ?o 4"
      using slice [OF that] by (auto simp: get_slice_def slice_def head_record_len_def min_def split: if_splits)
    moreover have "ce_igdb_id (E i) = u32_le (slice (slice (ch_bytes h) ?o head_record_len) 0 4)"
      by (simp add: E_def entry_at_def slice [OF that] Let_def)
    ultimately show ?thesis by (simp add: u32_at_def get_slice_def)
  qed
  have ascending: "ce_igdb_id (E i) < ce_igdb_id (E j)" if "i < j" "j < ch_count h" for i j
    using sorted_wrt_nth_less [OF assms(2), of i j] that by (simp add: entries)
  have "head_get igdb_id h = (case List.find (\<lambda>i. ce_igdb_id (E i) = igdb_id) [0..<ch_count h] of None \<Rightarrow> None | Some i \<Rightarrow> entry_at i h)"
    unfolding head_get_def by (rule search_table_spec [where n = "ch_count h"]) (use key ascending in auto)
  also have "\<dots> = List.find (\<lambda>e. ce_igdb_id e = igdb_id) (head_entries h)"
    unfolding entries find_map using E by (auto split: option.split dest!: find_Some_mem)
  finally show ?thesis by (simp add: entries)
qed


text \<open>A head with one record, the game \<open>g\<close> with id 7, and one row, the executable \<open>g\<close> without a marker.\<close>

definition small_head :: "nat list" where
  "small_head = [77, 72, 68, 50, 1, 0, 0, 0, 64, 0, 0, 0, 1, 0, 0, 0,
     7, 0, 0, 0, 0, 0, 0, 0, 0, 0, 0, 0, 0, 0, 0, 0, 0, 0, 0, 0, 0, 0, 0, 0, 1, 0, 0, 0, 1, 0, 0, 0,
     0, 0, 0, 0, 0, 0, 0, 0, 0, 0, 0, 0, 1, 0, 0, 0, 103]"

lemma char_g: "char_of (103 :: nat) = CHR ''g''"
  by code_simp

lemma small_head_parsed: "\<exists>h. parse_head small_head = Some h \<and> ch_bytes h = small_head \<and> ch_count h = 1 \<and> ch_strings_off h = 64 \<and> ch_exe_count h = 1"
  by (simp add: parse_head_def small_head_def magic_head_def head_header_len_def u32_at_def get_slice_def slice_def u32_le_def
    head_record_len_def exe_entry_len_def checked_usize_def u64_max_def Let_def)

lemma small_head_rows:
  assumes "ch_bytes h = small_head" "ch_count h = 1" "ch_strings_off h = 64" "ch_exe_count h = 1"
  shows "exe_row h 0 = (''g'', [], 0)" "head_entries h = [\<lparr>ce_igdb_id = 7, ce_game_id = ''g'', ce_name = ''g'', ce_slug = [],
    ce_short_name = [], ce_cover_image = []\<rparr>]"
  using assms by (simp_all add: exe_row_def head_entries_def entry_at_def map_filter_simps exe_base_def small_head_def magic_head_def
    head_header_len_def head_record_len_def exe_entry_len_def get_slice_def slice_def u32_le_def head_string_def utf8_text_def
    char_g Let_def)

lemma executable_lookup_is_the_table_witness:
  "\<exists>h. parse_head small_head = Some h \<and> lookup_exe ''G'' [] h = entry_at 0 h"
proof -
  obtain h where h: "parse_head small_head = Some h" "ch_bytes h = small_head" "ch_count h = 1" "ch_strings_off h = 64" "ch_exe_count h = 1"
    using small_head_parsed by blast
  have "lookup_exe ''G'' [] h = entry_at 0 h"
    by (subst executable_lookup_is_the_table [OF h(1)])
      (simp_all add: h(5) small_head_rows(1) [OF h(2-5)] to_ascii_lowercase_def ascii_lower_char_def char_g)
  with h(1) show ?thesis by blast
qed

lemma catalogue_get_is_find_witness:
  "\<exists>h. parse_head small_head = Some h \<and> map_option ce_game_id (head_get 7 h) = Some ''g'' \<and> head_get 8 h = None"
proof -
  obtain h where h: "parse_head small_head = Some h" "ch_bytes h = small_head" "ch_count h = 1" "ch_strings_off h = 64" "ch_exe_count h = 1"
    using small_head_parsed by blast
  note e = small_head_rows(2) [OF h(2-5)]
  have "head_get i h = List.find (\<lambda>e. ce_igdb_id e = i) (head_entries h)" for i
    by (rule catalogue_get_is_find [OF h(1), THEN conjunct2]) (simp add: e)
  with h(1) show ?thesis by (simp add: e)
qed


section \<open>What an accepted head is\<close>

definition head_wf :: "catalogue_head \<Rightarrow> bool" where
  "head_wf h \<longleftrightarrow>
     list_all (\<lambda>i. case entry_at i h of None \<Rightarrow> False
       | Some e \<Rightarrow> ce_igdb_id e \<le> u32_max \<and>
           list_all (\<lambda>s. length s \<le> 255) [ce_game_id e, ce_name e, ce_slug e, ce_short_name e, ce_cover_image e]) [0..<ch_count h] \<and>
     distinct (map fst (ch_by_exe h)) \<and>
     list_all (\<lambda>(exe, is). exe \<noteq> [] \<and> is \<noteq> [] \<and> sorted_wrt (<) is \<and> list_all (\<lambda>i. i < ch_exe_count h \<and> fst (exe_row h i) = exe) is)
       (ch_by_exe h)"

lemma head_string_short: "n \<le> 255 \<Longrightarrow> length (head_string off n h) \<le> 255"
  by (auto simp: head_string_def utf8_text_def get_slice_def slice_def split: option.split if_splits)

lemma byte_nth: "\<forall>b \<in> set bs. b < (256 :: nat) \<Longrightarrow> k < length bs \<Longrightarrow> bs ! k \<le> 255"
  using nth_mem [of k bs] by fastforce

lemma u32_le_bound: "\<forall>b \<in> set bs. b < 256 \<Longrightarrow> 4 \<le> length bs \<Longrightarrow> u32_le bs \<le> u32_max"
proof -
  assume b: "\<forall>b \<in> set bs. b < 256" "4 \<le> length bs"
  then have "bs ! 0 \<le> 255" "bs ! 1 \<le> 255" "bs ! 2 \<le> 255" "bs ! 3 \<le> 255" by (auto intro!: byte_nth)
  then show ?thesis by (simp add: u32_le_def u32_max_def)
qed

lemma exe_map_keys:
  assumes "exe_base h + ch_exe_count h * exe_entry_len \<le> length (ch_bytes h)"
  shows "distinct (map fst (build_exe_map h))" "(exe, is) \<in> set (build_exe_map h) \<Longrightarrow> exe \<noteq> [] \<and> is \<noteq> []"
proof -
  let ?add = "\<lambda>i map. case get_slice (ch_bytes h) (exe_base h + i * exe_entry_len) exe_entry_len of
         None \<Rightarrow> map
       | Some e \<Rightarrow>
           let exe = head_string (u32_le (slice e 0 4)) (e ! 12) h
           in if exe = [] then map
              else AList.update exe ((case map_of map exe of None \<Rightarrow> [] | Some is \<Rightarrow> is) @ [i]) map"
  let ?ok = "\<lambda>m. distinct (map fst m) \<and> (\<forall>(exe, is) \<in> set m. exe \<noteq> [] \<and> is \<noteq> [])"
  have upd: "?ok (AList.update k v m)" if "?ok m" "k \<noteq> []" "v \<noteq> []" for k v and m :: "(string \<times> nat list) list"
  proof -
    have d: "distinct (map fst (AList.update k v m))" using that by (simp add: distinct_update)
    have "p = (k, v) \<or> p \<in> set m" if "p \<in> set (AList.update k v m)" for p
      using that by (induction m) (auto split: if_splits)
    with d that show ?thesis by blast
  qed
  have "?ok (fold ?add is m)" if "?ok m" for "is" m
    using that
  proof (induction "is" arbitrary: m)
    case (Cons i "is")
    have "?ok (?add i m)"
    proof (cases "get_slice (ch_bytes h) (exe_base h + i * exe_entry_len) exe_entry_len")
      case None
      then show ?thesis using Cons.prems by simp
    next
      case (Some e)
      define exe where "exe = head_string (u32_le (slice e 0 4)) (e ! 12) h"
      define rows where "rows = (case map_of m exe of None \<Rightarrow> [] | Some is \<Rightarrow> is) @ [i]"
      have "rows \<noteq> []" by (simp add: rows_def)
      have "?add i m = (if exe = [] then m else AList.update exe rows m)"
        by (simp only: Some option.case Let_def exe_def rows_def)
      moreover have "?ok (AList.update exe rows m)" if "exe \<noteq> []" by (rule upd [OF Cons.prems that \<open>rows \<noteq> []\<close>])
      ultimately show ?thesis using Cons.prems by simp
    qed
    then show ?case using Cons.IH by simp
  qed simp
  from this [of "[]"] have "?ok (build_exe_map h)" by (simp add: build_exe_map_def)
  then show "distinct (map fst (build_exe_map h))" "(exe, is) \<in> set (build_exe_map h) \<Longrightarrow> exe \<noteq> [] \<and> is \<noteq> []" by auto
qed

text \<open>C38: a head that was accepted is well formed: each of its records can be read, with an id of 32 bits
  and texts of at most 255 bytes, and its map has each executable once, never an empty name, with its rows
  in ascending order, every one a row of the table that names it.\<close>

theorem accepted_head_is_well_formed:
  assumes "parse_head bytes = Some h" "\<forall>b \<in> set bytes. b < 256"
  shows "head_wf h"
proof -
  note p = parse_head_fits [OF assms(1)]
  have fits: "exe_base h + ch_exe_count h * exe_entry_len \<le> length (ch_bytes h)" using p by simp
  have entry: "case entry_at i h of None \<Rightarrow> False | Some e \<Rightarrow> ce_igdb_id e \<le> u32_max \<and>
      list_all (\<lambda>s. length s \<le> 255) [ce_game_id e, ce_name e, ce_slug e, ce_short_name e, ce_cover_image e]" if "i < ch_count h" for i
  proof -
    let ?r = "slice bytes (head_header_len + i * head_record_len) head_record_len"
    have "Suc i * head_record_len \<le> ch_count h * head_record_len" using that by (intro mult_le_mono1) simp
    then have fit: "head_header_len + i * head_record_len + head_record_len \<le> length bytes" using p by (simp add: exe_base_def)
    then have get: "get_slice (ch_bytes h) (head_header_len + i * head_record_len) head_record_len = Some ?r" using p(1) by (simp add: get_slice_def)
    have len: "length ?r = 32" using fit by (simp add: slice_def head_record_len_def)
    have small: "\<forall>b \<in> set ?r. b < 256" using assms(2) by (auto simp: slice_def dest!: in_set_takeD in_set_dropD)
    then have b: "k < 32 \<Longrightarrow> ?r ! k \<le> 255" for k using len by (intro byte_nth) simp_all
    have "set (slice ?r 0 4) \<subseteq> set ?r" by (auto simp: slice_def [of ?r] dest: in_set_takeD)
    moreover have "length (slice ?r 0 4) = 4" using len by (simp add: slice_def [of ?r])
    ultimately have "\<forall>b \<in> set (slice ?r 0 4). b < 256" "4 \<le> length (slice ?r 0 4)" using small by auto
    then have "u32_le (slice ?r 0 4) \<le> u32_max" by (rule u32_le_bound)
    then show ?thesis by (simp add: entry_at_def get Let_def head_string_short b)
  qed
  have map: "ch_by_exe h = build_exe_map (h\<lparr>ch_by_exe := []\<rparr>)" by (rule p(3))
  have rows: "(exe, is) \<in> set (ch_by_exe h) \<Longrightarrow> exe \<noteq> [] \<and> is = filter (\<lambda>i. fst (exe_row h i) = exe) [0..<ch_exe_count h]" for exe "is"
    using exe_map_keys [of "h\<lparr>ch_by_exe := []\<rparr>"] exe_map_rows [of "h\<lparr>ch_by_exe := []\<rparr>" exe] fits
    by (fastforce simp: map dest: map_of_is_SomeI)
  have "list_all (\<lambda>(exe, is). exe \<noteq> [] \<and> is \<noteq> [] \<and> sorted_wrt (<) is \<and>
      list_all (\<lambda>i. i < ch_exe_count h \<and> fst (exe_row h i) = exe) is) (ch_by_exe h)"
    using rows exe_map_keys(2) [of "h\<lparr>ch_by_exe := []\<rparr>"] fits
    by (fastforce simp: map list_all_iff intro: sorted_wrt_filter)
  moreover have "distinct (map fst (ch_by_exe h))" using exe_map_keys(1) [of "h\<lparr>ch_by_exe := []\<rparr>"] fits by (simp add: map)
  ultimately show ?thesis using entry by (simp add: head_wf_def list_all_iff)
qed

lemma accepted_head_is_well_formed_witness: "\<exists>h. parse_head small_head = Some h \<and> head_wf h"
proof -
  obtain h where h: "parse_head small_head = Some h" using small_head_parsed by blast
  have "head_wf h" by (rule accepted_head_is_well_formed [OF h]) (simp add: small_head_def)
  with h show ?thesis by blast
qed


end
