(* ===== verification/Library.thy ===== *)
theory Library
  imports Utf8_Text "HOL-Library.AList"
begin

text \<open>
  The installed games (\<open>library.rs\<close>): the entries that the launchers describe and the lookup by the
  path of an executable, the reader of Valve's KeyValues files, and what the sensor reads from
  Steam's manifests and local files. A path is its text. What the file system and the registry
  hold, the JSON of an Epic manifest and the upper case of a code point are arguments.
\<close>

section \<open>Entries\<close>

datatype library_source = Steam | Epic | Gog

fun source_prefix :: "library_source \<Rightarrow> string" where
  "source_prefix Steam = ''steam''"
| "source_prefix Epic = ''epic''"
| "source_prefix Gog = ''gog''"

record library_entry =
  le_source :: library_source
  le_external_id :: string
  le_name :: string
  le_install_dir :: string
  le_playtime_min :: "nat option"
  le_last_played_unix :: "nat option"
  le_hidden :: bool

definition entry_game_id :: "library_entry \<Rightarrow> string" where
  "entry_game_id e = source_prefix (le_source e) @ ''-'' @ le_external_id e"

definition stopwords :: "string list" where
  "stopwords = [''of'', ''the'', ''and'', ''a'', ''an'', ''de'', ''la'']"

text \<open>\<open>upper\<close> is \<open>char::to_uppercase\<close>, which may give several characters.\<close>

definition derive_short_name :: "(string \<Rightarrow> string) \<Rightarrow> string \<Rightarrow> string" where
  "derive_short_name upper name =
     (let first = (\<lambda>n s. concat (take n (chars s)))
      in if length (chars name) \<le> 7 then name
         else
           let cleaned = map (\<lambda>c. if c = CHR ''-'' \<or> c = CHR '':'' then CHR '' '' else c) name;
               significant = filter (\<lambda>w. to_ascii_lowercase w \<notin> set stopwords) (split_whitespace cleaned)
           in case significant of
                [] \<Rightarrow> first 7 name
              | [w] \<Rightarrow> first 8 w
              | _ \<Rightarrow> first 8 (concat (map (\<lambda>w. if list_all ascii_digit w then w
                    else case chars w of [] \<Rightarrow> [] | c # _ \<Rightarrow> upper c) significant)))"

definition entry_short_name :: "(string \<Rightarrow> string) \<Rightarrow> library_entry \<Rightarrow> string" where
  "entry_short_name upper e = derive_short_name upper (le_name e)"

definition normalize_path :: "string \<Rightarrow> string" where
  "normalize_path path =
     (let s = map (\<lambda>c. if c = CHR ''/'' then backslash else c) (to_ascii_lowercase path)
      in if s \<noteq> [] \<and> last s = backslash then s else s @ [backslash])"

text \<open>Longest first; equal lengths keep their order, as \<open>sort_by\<close> does.\<close>

definition from_entries :: "library_entry list \<Rightarrow> (string \<times> library_entry) list" where
  "from_entries entries =
     map (\<lambda>e. (normalize_path (le_install_dir e), e)) (sort_key (\<lambda>e. - int (length (le_install_dir e))) entries)"

definition resolve_path :: "string \<Rightarrow> (string \<times> library_entry) list \<Rightarrow> library_entry option" where
  "resolve_path exe_path index =
     (if exe_path = [] then None
      else
        let path = normalize_path exe_path
        in map_option snd (List.find (\<lambda>(dir, _). dir \<noteq> [] \<and> starts_with path dir) index))"

fun dedup_by :: "('a \<Rightarrow> 'k) \<Rightarrow> 'k list \<Rightarrow> 'a list \<Rightarrow> 'a list" where
  "dedup_by f seen [] = []"
| "dedup_by f seen (x # xs) = (if f x \<in> set seen then dedup_by f seen xs else x # dedup_by f (f x # seen) xs)"

definition dedup_paths :: "string list \<Rightarrow> string list" where
  "dedup_paths paths = dedup_by normalize_path [] paths"

text \<open>\<open>Path::join\<close> with the separator of the platform and a relative path.\<close>

definition path_join :: "char \<Rightarrow> string \<Rightarrow> string \<Rightarrow> string" where
  "path_join sep p q = (if p = [] \<or> last p = sep then p @ q else p @ [sep] @ q)"

text \<open>The Linux root: the first candidate with a \<open>steamapps\<close> folder.\<close>

definition linux_steam_root_in :: "(string \<Rightarrow> bool) \<Rightarrow> string \<Rightarrow> string option" where
  "linux_steam_root_in is_dir home =
     (let j = path_join (CHR ''/'')
      in List.find (\<lambda>root. is_dir (j root ''steamapps''))
           [j home ''.local/share/Steam'', j home ''.steam/steam'',
            j home ''.var/app/com.valvesoftware.Steam/.local/share/Steam''])"

text \<open>The pieces of a line between quotes that hold more than white space.\<close>

definition quoted_parts :: "string \<Rightarrow> string list" where
  "quoted_parts line = filter (\<lambda>s. trim_text s \<noteq> []) (split_on (\<lambda>c. c = quote) line)"

text \<open>\<open>replace\<close> of two backslashes by one.\<close>

fun unescape_path :: "string \<Rightarrow> string" where
  "unescape_path (a # b # s) =
     (if a = backslash \<and> b = backslash then backslash # unescape_path s else a # unescape_path (b # s))"
| "unescape_path s = s"

definition parse_library_paths :: "string \<Rightarrow> string list" where
  "parse_library_paths vdf =
     List.map_filter (\<lambda>line.
       let line = trim_text line
       in if \<not> starts_with (to_ascii_lowercase line) ([quote] @ ''path'' @ [quote]) then None
          else case quoted_parts line of _ # raw # _ \<Rightarrow> Some (unescape_path raw) | _ \<Rightarrow> None) (lines vdf)"

section \<open>Valve's KeyValues\<close>

datatype vdf = Vdf_str string | Vdf_map "(string \<times> vdf) list"

fun vdf_get :: "string \<Rightarrow> vdf \<Rightarrow> vdf option" where
  "vdf_get key (Vdf_map items) = map_option snd (List.find (\<lambda>(k, _). eq_ignore_case k key) items)"
| "vdf_get key (Vdf_str s) = None"

fun vdf_path :: "string list \<Rightarrow> vdf \<Rightarrow> vdf option" where
  "vdf_path [] node = Some node"
| "vdf_path (k # ks) node = (case vdf_get k node of None \<Rightarrow> None | Some child \<Rightarrow> vdf_path ks child)"

fun vdf_as_str :: "vdf \<Rightarrow> string option" where
  "vdf_as_str (Vdf_str s) = Some s"
| "vdf_as_str (Vdf_map items) = None"

fun vdf_entries :: "vdf \<Rightarrow> (string \<times> vdf) list" where
  "vdf_entries (Vdf_map items) = items"
| "vdf_entries (Vdf_str s) = []"

definition vdf_skipped_keys :: "string list" where "vdf_skipped_keys = [''launchoptions'']"

definition vdf_skipped :: "string \<Rightarrow> bool" where
  "vdf_skipped key \<longleftrightarrow> list_ex (eq_ignore_case key) vdf_skipped_keys"

datatype vdf_tok = Tok_str string | Tok_open | Tok_close

text \<open>A quoted text after its opening quote: the value and the rest.\<close>

fun vdf_quoted :: "string \<Rightarrow> string \<Rightarrow> (string \<times> string) option" where
  "vdf_quoted v [] = None"
| "vdf_quoted v (c # s) =
     (if c = quote then Some (v, s)
      else if c = backslash then
        (case s of
           [] \<Rightarrow> None
         | e # r \<Rightarrow> vdf_quoted (v @ [if e = CHR ''n'' then newline else if e = CHR ''t'' then CHR 0x09 else e]) r)
      else vdf_quoted (v @ [c]) s)"

lemma vdf_quoted_shorter: "vdf_quoted v s = Some (v', r) \<Longrightarrow> length r < length s"
  by (induction v s rule: vdf_quoted.induct) (force split: if_splits list.splits)+

function vdf_tokens :: "string \<Rightarrow> vdf_tok list option" where
  "vdf_tokens doc =
     (case doc of
        [] \<Rightarrow> Some []
      | c # s \<Rightarrow>
          if c = CHR 0x7B then map_option (Cons Tok_open) (vdf_tokens s)
          else if c = CHR 0x7D then map_option (Cons Tok_close) (vdf_tokens s)
          else if c = quote then
            (case vdf_quoted [] s of None \<Rightarrow> None | Some (v, r) \<Rightarrow> map_option (Cons (Tok_str v)) (vdf_tokens r))
          else if c = CHR ''/'' \<and> s \<noteq> [] \<and> hd s = CHR ''/'' then vdf_tokens (tl (dropWhile (\<lambda>n. n \<noteq> newline) s))
          else vdf_tokens s)"
  by pat_completeness auto
termination
proof (relation "measure length")
  fix doc c s x v r
  assume "doc = c # s" "vdf_quoted [] s = Some x" "(v, r) = x"
  then show "(r, doc) \<in> measure length" using vdf_quoted_shorter [of "[]" s v r] by simp
next
  fix doc c and s :: string
  assume doc: "doc = c # s"
  have "length (tl (dropWhile (\<lambda>n. n \<noteq> newline) s)) \<le> length s"
    using length_dropWhile_le [of "\<lambda>n. n \<noteq> newline" s] by simp
  with doc show "(tl (dropWhile (\<lambda>n. n \<noteq> newline) s), doc) \<in> measure length" by simp
qed simp_all

declare vdf_tokens.simps [simp del]

text \<open>A block up to its closing brace, or at the top up to the end: the items and the rest.\<close>

function vdf_block :: "vdf_tok list \<Rightarrow> bool \<Rightarrow> (string \<times> vdf) list \<Rightarrow> ((string \<times> vdf) list \<times> vdf_tok list) option" where
  "vdf_block toks top_level items =
     (case toks of
        [] \<Rightarrow> if top_level then Some (items, []) else None
      | Tok_close # r \<Rightarrow> if top_level then None else Some (items, r)
      | Tok_open # r \<Rightarrow> None
      | Tok_str key # r \<Rightarrow>
          (let put = (\<lambda>v. if vdf_skipped key then items else items @ [(key, v)])
           in case r of
                Tok_str v # r' \<Rightarrow> vdf_block r' top_level (put (Vdf_str v))
              | Tok_open # r' \<Rightarrow>
                  (case vdf_block r' False [] of
                     None \<Rightarrow> None
                   | Some (sub, r'') \<Rightarrow> vdf_block r'' top_level (put (Vdf_map sub)))
              | _ \<Rightarrow> None))"
  by pat_completeness auto

lemma vdf_block_rest:
  "vdf_block_dom (toks, top_level, items) \<Longrightarrow> vdf_block toks top_level items = Some (items', r) \<Longrightarrow> length r \<le> length toks"
proof (induction toks top_level items arbitrary: items' r rule: vdf_block.pinduct)
  case (1 toks top_level items)
  from "1.prems" "1.IH" show ?case
    by (subst (asm) vdf_block.psimps [OF "1.hyps"])
      (fastforce simp: Let_def split: list.splits vdf_tok.splits if_splits option.splits prod.splits)
qed

termination vdf_block
proof (relation "measure (\<lambda>(toks, _, _). length toks)")
  fix toks :: "vdf_tok list" and top_level items a r key put r2 t r3 x sub rest
  assume "toks = a # r" "a = Tok_str key" "r = t # r3" "vdf_block r3 False [] = Some x" "(sub, rest) = x"
    "vdf_block_dom (r3, False, [])"
  then show "((rest, top_level, put (Vdf_map sub)), toks, top_level, items) \<in> measure (\<lambda>(toks, _, _). length toks)"
    using vdf_block_rest [of r3 False "[]" sub rest] by simp
qed auto

declare vdf_block.simps [simp del]

lemma vdf_block_simps [simp]:
  "vdf_block [] top_level items = (if top_level then Some (items, []) else None)"
  "vdf_block (Tok_close # r) top_level items = (if top_level then None else Some (items, r))"
  "vdf_block (Tok_open # r) top_level items = None"
  "vdf_block [Tok_str key] top_level items = None"
  "vdf_block (Tok_str key # Tok_close # r) top_level items = None"
  "vdf_block (Tok_str key # Tok_str v # r) top_level items =
     vdf_block r top_level (if vdf_skipped key then items else items @ [(key, Vdf_str v)])"
  "vdf_block (Tok_str key # Tok_open # r) top_level items =
     (case vdf_block r False [] of None \<Rightarrow> None
      | Some (sub, r') \<Rightarrow> vdf_block r' top_level (if vdf_skipped key then items else items @ [(key, Vdf_map sub)]))"
  by (subst vdf_block.simps, simp)+

text \<open>The tokens of a block, one item at a time.\<close>

lemma vdf_toks_cases:
  obtains "toks = []" | r where "toks = Tok_close # r" | r where "toks = Tok_open # r" | key where "toks = [Tok_str key]"
    | key r where "toks = Tok_str key # Tok_close # r" | key v r where "toks = Tok_str key # Tok_str v # r"
    | key r where "toks = Tok_str key # Tok_open # r"
  by (metis neq_Nil_conv vdf_tok.exhaust)

lemma vdf_block_rest_le: "vdf_block toks top_level items = Some (items', r) \<Longrightarrow> length r \<le> length toks"
proof (induction "length toks" arbitrary: toks top_level items items' r rule: less_induct)
  case less
  show ?case
  proof (cases toks rule: vdf_toks_cases)
    case (6 key v ts)
    have "length ts < length toks" by (simp add: 6)
    from less.hyps [OF this] less.prems 6 show ?thesis by fastforce
  next
    case (7 key ts)
    then obtain sub rest where sub: "vdf_block ts False [] = Some (sub, rest)"
      "vdf_block rest top_level (if vdf_skipped key then items else items @ [(key, Vdf_map sub)]) = Some (items', r)"
      using less.prems by (auto split: option.splits)
    have "length rest \<le> length ts" by (rule less.hyps [OF _ sub(1)]) (simp add: 7)
    with less.hyps [OF _ sub(2)] 7 show ?thesis by simp
  qed (use less.prems in \<open>simp_all split: if_splits\<close>)
qed

definition parse_vdf :: "string \<Rightarrow> vdf option" where
  "parse_vdf doc = Option.bind (vdf_tokens doc) (\<lambda>toks. map_option (\<lambda>(items, _). Vdf_map items) (vdf_block toks True []))"


section \<open>The user and the games of Steam\<close>

definition non_game_appids :: "nat list" where
  "non_game_appids = [228980, 1070560, 1391110, 1628350, 4183110, 1826330, 1493710, 2180100]"

definition steam_id64_base :: nat where "steam_id64_base = 76561197960265728"

record login_user =
  lu_account_id :: string
  lu_most_recent :: bool
  lu_auto_login :: bool
  lu_timestamp :: "nat option"

definition vdf_text :: "string \<Rightarrow> vdf \<Rightarrow> string option" where
  "vdf_text key node = Option.bind (vdf_get key node) vdf_as_str"

definition parse_login_users :: "string \<Rightarrow> login_user list" where
  "parse_login_users loginusers =
     (case Option.bind (parse_vdf loginusers) (vdf_get ''users'') of
        None \<Rightarrow> []
      | Some users \<Rightarrow>
          List.map_filter (\<lambda>(id64, u).
            case parse_u u64_max id64 of
              None \<Rightarrow> None
            | Some i \<Rightarrow>
                if i < steam_id64_base then None
                else Some \<lparr>lu_account_id = show_nat (i - steam_id64_base), lu_most_recent = (vdf_text ''MostRecent'' u = Some ''1''),
                  lu_auto_login = (vdf_text ''AutoLogin'' u = Some ''1''),
                  lu_timestamp = Option.bind (vdf_text ''timestamp'' u) (\<lambda>t. parse_u u64_max (trim_text t))\<rparr>)
            (vdf_entries users))"

datatype user_rule = By_most_recent | By_auto_login | By_newest_timestamp | By_only_folder | By_newest_localconfig

text \<open>\<open>max_by_key\<close>: the last of the elements with the greatest key.\<close>

fun max_by_key :: "('a \<Rightarrow> nat) \<Rightarrow> 'a list \<Rightarrow> 'a option" where
  "max_by_key f [] = None"
| "max_by_key f (x # xs) = (case max_by_key f xs of None \<Rightarrow> Some x | Some y \<Rightarrow> Some (if f x \<le> f y then y else x))"

definition pick_login_user :: "(string \<Rightarrow> bool) \<Rightarrow> string \<Rightarrow> (string \<times> user_rule) option" where
  "pick_login_user has_dir loginusers =
     (let users = filter (\<lambda>u. has_dir (lu_account_id u)) (parse_login_users loginusers)
      in case List.find lu_most_recent users of
           Some u \<Rightarrow> Some (lu_account_id u, By_most_recent)
         | None \<Rightarrow>
             (case filter lu_auto_login users of
                [u] \<Rightarrow> Some (lu_account_id u, By_auto_login)
              | _ \<Rightarrow>
                  map_option (\<lambda>(t, u). (lu_account_id u, By_newest_timestamp))
                    (max_by_key fst (List.map_filter (\<lambda>u. map_option (\<lambda>t. (t, u)) (lu_timestamp u)) users))))"

text \<open>
  The folders below \<open>userdata\<close>: their names, and when their \<open>localconfig.vdf\<close> changed last, if it
  can be read. \<open>None\<close> stands for a \<open>userdata\<close> or a file that cannot be read.
\<close>

definition active_user_dir :: "string option \<Rightarrow> (string \<times> nat option) list option \<Rightarrow> (string \<times> user_rule) option" where
  "active_user_dir loginusers userdata =
     (let folders = (case userdata of None \<Rightarrow> [] | Some ds \<Rightarrow> ds)
      in case Option.bind loginusers (pick_login_user (\<lambda>n. n \<in> fst ` set folders)) of
           Some picked \<Rightarrow> Some picked
         | None \<Rightarrow>
             (case filter (\<lambda>(n, _). list_all ascii_digit n \<and> n \<noteq> ''0'') folders of
                [] \<Rightarrow> None
              | [(n, _)] \<Rightarrow> Some (n, By_only_folder)
              | dirs \<Rightarrow>
                  map_option (\<lambda>(m, n). (n, By_newest_localconfig))
                    (max_by_key fst (List.map_filter (\<lambda>(n, m). map_option (\<lambda>m. (m, n)) m) dirs))))"

record local_app_stats =
  ls_playtime_min :: "nat option"
  ls_last_played_unix :: "nat option"

definition positive :: "nat option \<Rightarrow> nat option" where
  "positive n = Option.bind n (\<lambda>t. if t > 0 then Some t else None)"

definition vdf_num :: "string \<Rightarrow> vdf \<Rightarrow> nat option" where
  "vdf_num key app = Option.bind (vdf_text key app) (\<lambda>s. parse_u u64_max (trim_text s))"

text \<open>The result is a hash map, inserted in the order of the file.\<close>

definition parse_local_stats :: "string \<Rightarrow> (nat \<times> local_app_stats) list" where
  "parse_local_stats localconfig =
     (case Option.bind (parse_vdf localconfig) (vdf_path [''UserLocalConfigStore'', ''Software'', ''Valve'', ''Steam'', ''apps'']) of
        None \<Rightarrow> []
      | Some apps \<Rightarrow>
          fold (\<lambda>(i, app) out.
            case parse_u u32_max i of
              None \<Rightarrow> out
            | Some appid \<Rightarrow>
                AList.update appid
                  \<lparr>ls_playtime_min = Option.bind (vdf_num ''Playtime'' app) (\<lambda>v. if v \<le> u32_max then Some v else None),
                   ls_last_played_unix = positive (vdf_num ''LastPlayed'' app)\<rparr> out) (vdf_entries apps) [])"

definition parse_hidden_apps :: "string \<Rightarrow> nat set" where
  "parse_hidden_apps sharedconfig =
     (case Option.bind (parse_vdf sharedconfig) (vdf_path [''UserRoamingConfigStore'', ''Software'', ''Valve'', ''Steam'', ''apps'']) of
        None \<Rightarrow> {}
      | Some apps \<Rightarrow>
          set (List.map_filter (\<lambda>(i, app).
            if map_option trim_text (vdf_text ''hidden'' app) = Some ''1'' then parse_u u32_max i else None) (vdf_entries apps)))"

definition apply_local_data :: "(nat \<times> local_app_stats) list \<Rightarrow> nat set \<Rightarrow> library_entry list \<Rightarrow> library_entry list" where
  "apply_local_data stats hidden =
     map (\<lambda>e.
       if le_source e \<noteq> Steam then e
       else case parse_u u32_max (le_external_id e) of
         None \<Rightarrow> e
       | Some appid \<Rightarrow>
           (case map_of stats appid of
              None \<Rightarrow> e
            | Some s \<Rightarrow>
                e\<lparr>le_playtime_min := ls_playtime_min s,
                  le_last_played_unix := (if ls_last_played_unix s \<noteq> None then ls_last_played_unix s else le_last_played_unix e)\<rparr>)
           \<lparr>le_hidden := appid \<in> hidden\<rparr>)"

definition is_steam_tool :: "string \<Rightarrow> bool" where
  "is_steam_tool installdir \<longleftrightarrow> starts_with installdir ''Proton '' \<or> starts_with installdir ''SteamLinuxRuntime''"

text \<open>The first value of each field that matters.\<close>

definition manifest_fields :: "string \<Rightarrow> (string \<times> string) list" where
  "manifest_fields contents =
     fold (\<lambda>line fields.
       case quoted_parts (trim_text line) of
         key # v # _ \<Rightarrow>
           let key = to_ascii_lowercase (trim_text key)
           in if key \<in> {''appid'', ''name'', ''installdir'', ''lastplayed''} \<and> map_of fields key = None
              then AList.update key v fields else fields
       | _ \<Rightarrow> fields) (lines contents) []"

definition parse_app_manifest :: "char \<Rightarrow> string \<Rightarrow> string \<Rightarrow> library_entry option" where
  "parse_app_manifest sep contents steamapps =
     (let fields = map_of (manifest_fields contents)
      in Option.bind (Option.bind (fields ''appid'') (parse_u u32_max)) (\<lambda>appid.
           if appid \<in> set non_game_appids then None
           else
             Option.bind (map_option trim_text (fields ''name'')) (\<lambda>name.
             Option.bind (map_option trim_text (fields ''installdir'')) (\<lambda>installdir.
               if name = [] \<or> installdir = [] \<or> is_steam_tool installdir then None
               else
                 Some \<lparr>le_source = Steam, le_external_id = show_nat appid, le_name = name,
                   le_install_dir = path_join sep (path_join sep steamapps ''common'') installdir, le_playtime_min = None,
                   le_last_played_unix =
                     positive (Option.bind (fields ''lastplayed'') (\<lambda>v. parse_u u64_max (trim_text v))),
                   le_hidden = False\<rparr>))))"

text \<open>
  The folders of all libraries with the files that could be read, and the local files of the active
  user, \<open>localconfig.vdf\<close> and \<open>sharedconfig.vdf\<close>.
\<close>

definition is_manifest_name :: "string \<Rightarrow> bool" where
  "is_manifest_name n \<longleftrightarrow> starts_with n ''appmanifest_'' \<and> ends_with n ''.acf''"

definition scan_steam ::
  "char \<Rightarrow> (string \<times> (string \<times> string option) list) list \<Rightarrow> string option \<Rightarrow> string option \<Rightarrow> library_entry list" where
  "scan_steam sep libraries localconfig sharedconfig =
     apply_local_data (case localconfig of None \<Rightarrow> [] | Some t \<Rightarrow> parse_local_stats t)
       (case sharedconfig of None \<Rightarrow> {} | Some t \<Rightarrow> parse_hidden_apps t)
       (concat (map (\<lambda>(library, files).
          List.map_filter (\<lambda>(name, contents).
            if is_manifest_name name
            then Option.bind contents (\<lambda>c. parse_app_manifest sep c (path_join sep library ''steamapps'')) else None) files) libraries))"

text \<open>\<open>get\<close> gives a text field of the JSON document, and \<open>None\<close> when the manifest is no JSON.\<close>

definition parse_epic_manifest :: "(string \<Rightarrow> string option) option \<Rightarrow> library_entry option" where
  "parse_epic_manifest raw =
     Option.bind raw (\<lambda>field.
       let get = (\<lambda>k. case field k of None \<Rightarrow> [] | Some s \<Rightarrow> s);
           name = get ''DisplayName''; location = get ''InstallLocation'';
           eid = (if get ''CatalogItemId'' = [] then get ''AppName'' else get ''CatalogItemId'')
       in if trim_text name = [] \<or> trim_text location = [] \<or> eid = [] then None
          else Some \<lparr>le_source = Epic, le_external_id = eid, le_name = trim_text name, le_install_dir = trim_text location,
            le_playtime_min = None, le_last_played_unix = None, le_hidden = False\<rparr>)"

end
