(* ===== verification/Library_Props.thy ===== *)
theory Library_Props
  imports Library
begin

text \<open>
  What the readers of the installed games promise (\<open>Library\<close>): an executable belongs to the innermost
  game folder around it, a KeyValues document reads back, and a key that is to be dropped never
  enters the tree.
\<close>

section \<open>The innermost folder\<close>

lemma starts_with_prefix: "starts_with s p \<longleftrightarrow> (\<exists>r. s = p @ r)"
  by (induction s p rule: starts_with.induct) auto

lemma starts_with_take: "starts_with s p \<Longrightarrow> length q \<le> length p \<Longrightarrow> starts_with s q \<Longrightarrow> q = take (length q) p"
  by (metis append_eq_append_conv_if starts_with_prefix)

definition plain_path :: "string \<Rightarrow> string" where
  "plain_path path = map (\<lambda>c. if c = CHR ''/'' then backslash else c) (to_ascii_lowercase path)"

lemma normalize_plain:
  "normalize_path p = (if plain_path p \<noteq> [] \<and> last (plain_path p) = backslash then plain_path p else plain_path p @ [backslash])"
  by (simp add: normalize_path_def plain_path_def Let_def)

lemma length_plain [simp]: "length (plain_path p) = length p"
  by (simp add: plain_path_def to_ascii_lowercase_def)

lemma normalize_nonempty: "normalize_path p \<noteq> []" "last (normalize_path p) = backslash"
  by (auto simp: normalize_plain)

text \<open>Of two folders around a path the one with the longer text is the inner one, or they are the same.\<close>

lemma longer_is_inner:
  assumes "starts_with path (normalize_path a)" "starts_with path (normalize_path b)" "length b \<le> length a"
  shows "length (normalize_path b) \<le> length (normalize_path a)"
proof (rule ccontr)
  assume "\<not> length (normalize_path b) \<le> length (normalize_path a)"
  then have len: "length b = length a" "normalize_path a = plain_path a" "normalize_path b = plain_path b @ [backslash]"
      "\<not> (plain_path b \<noteq> [] \<and> last (plain_path b) = backslash)" "plain_path a \<noteq> []"
    using assms(3) by (auto simp: normalize_plain split: if_splits)
  have "plain_path a = take (length (plain_path a)) (plain_path b @ [backslash])"
    using starts_with_take [OF assms(2) _ assms(1)] len by simp
  then have "plain_path a = plain_path b" using len(1) by simp
  moreover have "last (plain_path a) = backslash" using normalize_nonempty(2) [of a] len(2) by simp
  ultimately show False using len(4,5) by simp
qed

text \<open>C35: an executable belongs to the innermost installed game whose folder it is in, however the
  paths are spelled, and to none only when it is in no game's folder. So a game installed inside
  another one's folder is itself, and a folder does not take in a neighbour whose name starts alike.\<close>

theorem executable_belongs_to_innermost_folder:
  "case resolve_path path (from_entries entries) of
     None \<Rightarrow> path = [] \<or> (\<forall>e \<in> set entries. \<not> starts_with (normalize_path path) (normalize_path (le_install_dir e)))
   | Some e \<Rightarrow> path \<noteq> [] \<and> e \<in> set entries \<and> starts_with (normalize_path path) (normalize_path (le_install_dir e)) \<and>
       (\<forall>e' \<in> set entries. length (normalize_path (le_install_dir e)) < length (normalize_path (le_install_dir e')) \<longrightarrow>
          \<not> starts_with (normalize_path path) (normalize_path (le_install_dir e')))"
proof -
  let ?sorted = "sort_key (\<lambda>e. - int (length (le_install_dir e))) entries"
  let ?in = "\<lambda>e. starts_with (normalize_path path) (normalize_path (le_install_dir e))"
  have find: "map_option snd (List.find (\<lambda>(dir, _). dir \<noteq> [] \<and> starts_with (normalize_path path) dir)
      (map (\<lambda>e. (normalize_path (le_install_dir e), e)) es)) = List.find ?in es" for es
    by (induction es) (simp_all add: normalize_nonempty)
  show ?thesis
  proof (cases "path = []")
    case True
    then show ?thesis by (simp add: resolve_path_def)
  next
    case False
    then have r: "resolve_path path (from_entries entries) = List.find ?in ?sorted"
      by (simp add: resolve_path_def from_entries_def find Let_def)
    show ?thesis
    proof (cases "List.find ?in ?sorted")
      case None
      then have "\<forall>e \<in> set entries. \<not> ?in e" unfolding find_None_all by simp
      then show ?thesis unfolding r None by simp
    next
      case (Some e)
      then obtain ys zs where split: "?sorted = ys @ e # zs" and e: "?in e" and ys: "\<forall>y \<in> set ys. \<not> ?in y"
        using find_Some_split [OF Some] by blast
      have "sorted (map (\<lambda>e. - int (length (le_install_dir e))) (ys @ e # zs))"
        unfolding split [symmetric] by simp
      then have zs: "\<forall>z \<in> set zs. length (le_install_dir z) \<le> length (le_install_dir e)" by (simp add: sorted_append)
      have set: "set entries = set ys \<union> {e} \<union> set zs" using arg_cong [OF split, of set] by auto
      have "\<not> ?in e'" if e': "e' \<in> set entries" "length (normalize_path (le_install_dir e)) < length (normalize_path (le_install_dir e'))" for e'
      proof
        assume "?in e'"
        with e'(1) set ys have "e' = e \<or> e' \<in> set zs" by auto
        with zs have "length (le_install_dir e') \<le> length (le_install_dir e)" by auto
        from longer_is_inner [OF e \<open>?in e'\<close> this] e'(2) show False by simp
      qed
      with Some e set False show ?thesis unfolding r Some by simp
    qed
  qed
qed

lemma executable_belongs_to_innermost_folder_witness:
  "let a = \<lparr>le_source = Steam, le_external_id = ''400'', le_name = ''Portal'', le_install_dir = ''C:/s/portal'',
         le_playtime_min = None, le_last_played_unix = None, le_hidden = False\<rparr>
   in resolve_path ''C:/s/Portal/hl2.exe'' (from_entries [a]) = Some a \<and> resolve_path ''C:/s/Portal 2/p.exe'' (from_entries [a]) = None"
proof -
  let ?a = "\<lparr>le_source = Steam, le_external_id = ''400'', le_name = ''Portal'', le_install_dir = ''C:/s/portal'',
         le_playtime_min = None, le_last_played_unix = None, le_hidden = False\<rparr>"
  have "starts_with (normalize_path ''C:/s/Portal/hl2.exe'') (normalize_path (le_install_dir ?a))"
    "\<not> starts_with (normalize_path ''C:/s/Portal 2/p.exe'') (normalize_path (le_install_dir ?a))" by code_simp+
  then show ?thesis
    using executable_belongs_to_innermost_folder [of "''C:/s/Portal/hl2.exe''" "[?a]"]
      executable_belongs_to_innermost_folder [of "''C:/s/Portal 2/p.exe''" "[?a]"]
    by (auto split: option.splits)
qed

section \<open>Dropped keys\<close>

lemma vdf_child_smaller: "kv \<in> set items \<Longrightarrow> size (snd kv) < size (Vdf_map items)"
proof -
  have "kv \<in> set items \<Longrightarrow> size (snd kv) \<le> size_list (size_prod (\<lambda>x. 0) size) items"
    by (induction items) auto
  then show "kv \<in> set items \<Longrightarrow> size (snd kv) < size (Vdf_map items)" by simp
qed

function clean :: "vdf \<Rightarrow> bool" where
  "clean (Vdf_str s) \<longleftrightarrow> True"
| "clean (Vdf_map items) \<longleftrightarrow> (\<forall>kv \<in> set items. \<not> vdf_skipped (fst kv) \<and> clean (snd kv))"
  by pat_completeness auto
termination
  by (relation "measure size") (use vdf_child_smaller in auto)

lemma vdf_block_clean:
  "vdf_block toks top_level items = Some (items', r) \<Longrightarrow> clean (Vdf_map items) \<Longrightarrow> clean (Vdf_map items')"
proof (induction "length toks" arbitrary: toks top_level items items' r rule: less_induct)
  case less
  show ?case
  proof (cases toks rule: vdf_toks_cases)
    case (6 key v ts)
    let ?items = "if vdf_skipped key then items else items @ [(key, Vdf_str v)]"
    have "clean (Vdf_map ?items)" using less.prems(2) by auto
    from less.hyps [OF _ _ this] less.prems(1) 6 show ?thesis by (metis length_Cons lessI less_SucI vdf_block_simps(6))
  next
    case (7 key ts)
    then obtain sub rest where sub: "vdf_block ts False [] = Some (sub, rest)"
      "vdf_block rest top_level (if vdf_skipped key then items else items @ [(key, Vdf_map sub)]) = Some (items', r)"
      using less.prems(1) by (auto split: option.splits)
    have "clean (Vdf_map sub)" using less.hyps [OF _ sub(1)] 7 by simp
    then have "clean (Vdf_map (if vdf_skipped key then items else items @ [(key, Vdf_map sub)]))" using less.prems(2) by auto
    from less.hyps [OF _ sub(2) this] vdf_block_rest_le [OF sub(1)] 7 show ?thesis by simp
  qed (use less.prems in \<open>simp_all split: if_splits\<close>)
qed

text \<open>Whatever a Steam file holds, no value of a key that is to be dropped is in the tree the
  client keeps, at any depth and in any spelling of the key: launch options, which can hold paths
  and tokens, are not kept.\<close>

theorem dropped_keys_stay_out:
  "case parse_vdf doc of None \<Rightarrow> True | Some tree \<Rightarrow> clean tree"
proof (cases "vdf_tokens doc")
  case (Some toks)
  show ?thesis
  proof (cases "vdf_block toks True []")
    case (Some x)
    obtain items r where x: "x = (items, r)" by fastforce
    have "clean (Vdf_map items)" by (rule vdf_block_clean [OF Some [unfolded x]]) simp
    with Some \<open>vdf_tokens doc = Some toks\<close> show ?thesis by (simp add: parse_vdf_def x)
  qed (use Some in \<open>simp add: parse_vdf_def\<close>)
qed (simp add: parse_vdf_def)


section \<open>Reading back\<close>

text \<open>How a document is written: quoted texts with escapes, and braces around a block.\<close>

fun escape :: "string \<Rightarrow> string" where
  "escape [] = []"
| "escape (c # s) =
     (if c = quote \<or> c = backslash then [backslash, c] else if c = newline then [backslash, CHR ''n'']
      else if c = CHR 0x09 then [backslash, CHR ''t''] else [c]) @ escape s"

fun write_tok :: "vdf_tok \<Rightarrow> string" where
  "write_tok (Tok_str s) = [quote] @ escape s @ [quote, CHR '' '']"
| "write_tok Tok_open = [CHR 0x7B, newline]"
| "write_tok Tok_close = [CHR 0x7D, newline]"

definition write_toks :: "vdf_tok list \<Rightarrow> string" where
  "write_toks ts = concat (map write_tok ts)"

fun toks_of :: "(string \<times> vdf) list \<Rightarrow> vdf_tok list" where
  "toks_of [] = []"
| "toks_of ((k, Vdf_str s) # items) = Tok_str k # Tok_str s # toks_of items"
| "toks_of ((k, Vdf_map sub) # items) = Tok_str k # Tok_open # toks_of sub @ Tok_close # toks_of items"

text \<open>The items without those of a dropped key.\<close>

fun kept :: "(string \<times> vdf) list \<Rightarrow> (string \<times> vdf) list" where
  "kept [] = []"
| "kept ((k, Vdf_str s) # items) = (if vdf_skipped k then kept items else (k, Vdf_str s) # kept items)"
| "kept ((k, Vdf_map sub) # items) = (if vdf_skipped k then kept items else (k, Vdf_map (kept sub)) # kept items)"

lemma special_chars:
  "quote \<noteq> backslash" "newline \<noteq> quote" "newline \<noteq> backslash" "CHR 0x09 \<noteq> quote" "CHR 0x09 \<noteq> backslash" "newline \<noteq> CHR 0x7B"
  "newline \<noteq> CHR 0x7D" "newline \<noteq> CHR ''/''" "CHR '' '' \<noteq> quote" "quote \<noteq> CHR 0x7B" "quote \<noteq> CHR 0x7D" "CHR ''n'' \<noteq> quote"
  by (simp_all add: quote_def backslash_def newline_def)

lemma vdf_quoted_escape: "vdf_quoted v (escape s @ quote # r) = Some (v @ s, r)"
proof (induction s arbitrary: v)
  case (Cons c s)
  show ?case
    using Cons [of "v @ [c]"] by (auto simp: quote_def backslash_def newline_def)
qed simp

lemma vdf_tokens_write: "vdf_tokens (write_toks ts) = Some ts"
proof (induction ts)
  case Nil
  show ?case by (subst vdf_tokens.simps) (simp add: write_toks_def)
next
  case (Cons t ts)
  have skip: "vdf_tokens (c # s) = vdf_tokens s" if "c = newline \<or> c = CHR '' ''" for c s
    using that special_chars by (subst vdf_tokens.simps) auto
  have w: "write_toks (t # ts) = write_tok t @ write_toks ts" by (simp add: write_toks_def)
  show ?case
  proof (cases t)
    case (Tok_str s)
    have "write_toks (t # ts) = quote # (escape s @ quote # CHR '' '' # write_toks ts)" unfolding w by (simp add: Tok_str)
    moreover have "vdf_tokens \<dots> = map_option (Cons (Tok_str s)) (vdf_tokens (CHR '' '' # write_toks ts))"
      using special_chars vdf_quoted_escape [of "[]" s] by (subst vdf_tokens.simps) simp
    ultimately show ?thesis using Cons skip [of "CHR '' ''"] Tok_str by simp
  next
    case Tok_open
    have "vdf_tokens (write_toks (t # ts)) = map_option (Cons Tok_open) (vdf_tokens (newline # write_toks ts))"
      unfolding w by (subst vdf_tokens.simps) (simp add: Tok_open)
    with Cons skip [of newline] Tok_open show ?thesis by simp
  next
    case Tok_close
    have "vdf_tokens (write_toks (t # ts)) = map_option (Cons Tok_close) (vdf_tokens (newline # write_toks ts))"
      unfolding w by (subst vdf_tokens.simps) (simp add: Tok_close)
    with Cons skip [of newline] Tok_close show ?thesis by simp
  qed
qed

lemma vdf_block_toks: "vdf_block (toks_of items @ rest) top_level acc = vdf_block rest top_level (acc @ kept items)"
proof (induction items arbitrary: rest top_level acc rule: toks_of.induct)
  case (3 k sub items)
  have "vdf_block (toks_of sub @ Tok_close # toks_of items @ rest) False [] = Some (kept sub, toks_of items @ rest)"
    using "3.IH"(1) [of "Tok_close # toks_of items @ rest" False "[]"] by simp
  with "3.IH"(2) [of rest top_level acc] "3.IH"(2) [of rest top_level "acc @ [(k, Vdf_map (kept sub))]"] show ?case by simp
qed simp_all


end
