(* ===== verification/Library_Report.thy ===== *)
theory Library_Report
  imports Library "HOL-Library.Char_ord" "HOL-Library.List_Lexorder" "HOL-Library.Product_Lexorder"
begin

text \<open>
  The report of the installed games (\<open>library_report.rs\<close>) and what the client does with it
  (\<open>client/game_services.rs\<close>, \<open>client/mod.rs\<close>): when a report is sent, what is in it, and that the
  server's document follows the user's consent. The hash of a report and the lower case of a text are
  arguments; a call to the server has an outcome, which the client does not choose.
\<close>

section \<open>What goes into a report\<close>

definition max_report_games :: nat where "max_report_games = 500"

record report_game =
  rg_game_id :: string
  rg_name :: string
  rg_launcher :: string
  rg_playtime_min :: "nat option"
  rg_last_played_unix :: "nat option"

record installed_game =
  ig_game_id :: string
  ig_name :: string
  ig_steam_hidden :: bool

definition installed_games :: "(string \<Rightarrow> string) \<Rightarrow> library_entry list \<Rightarrow> installed_game list" where
  "installed_games lower entries =
     sort_key (\<lambda>g. (lower (ig_name g), ig_game_id g))
       (map (\<lambda>e. \<lparr>ig_game_id = entry_game_id e, ig_name = le_name e, ig_steam_hidden = le_hidden e\<rparr>) entries)"

text \<open>\<open>dedup_by\<close>: of neighbours with the same id the first stays.\<close>

fun dedup_ids :: "report_game list \<Rightarrow> report_game list" where
  "dedup_ids (a # b # gs) = (if rg_game_id b = rg_game_id a then dedup_ids (a # gs) else a # dedup_ids (b # gs))"
| "dedup_ids gs = gs"

text \<open>\<open>Option\<close> orders \<open>None\<close> before every value.\<close>

definition recency :: "report_game \<Rightarrow> int" where
  "recency g = (case rg_last_played_unix g of None \<Rightarrow> -1 | Some t \<Rightarrow> int t)"

definition visible_games :: "library_entry list \<Rightarrow> string set \<Rightarrow> report_game list" where
  "visible_games entries hidden_games =
     map (\<lambda>e. \<lparr>rg_game_id = entry_game_id e, rg_name = le_name e, rg_launcher = source_prefix (le_source e),
              rg_playtime_min = le_playtime_min e, rg_last_played_unix = positive (le_last_played_unix e)\<rparr>)
       (filter (\<lambda>e. entry_game_id e \<notin> hidden_games) (filter (\<lambda>e. \<not> le_hidden e) entries))"

definition build_report :: "library_entry list \<Rightarrow> string set \<Rightarrow> report_game list" where
  "build_report entries hidden_games =
     (let games = dedup_ids (sort_key rg_game_id (visible_games entries hidden_games))
      in if length games > max_report_games
         then sort_key rg_game_id (take max_report_games (sort_key (\<lambda>g. (- recency g, rg_game_id g)) games))
         else games)"

section \<open>When a report is sent\<close>

datatype held = Held_unknown | Held_sent nat | Held_cleared

record library_reporter =
  lr_entries :: "library_entry list option"
  lr_held :: held
  lr_clear_pending :: bool

definition reporter_new :: library_reporter where
  "reporter_new = \<lparr>lr_entries = None, lr_held = Held_unknown, lr_clear_pending = False\<rparr>"

definition set_scan :: "library_entry list \<Rightarrow> library_reporter \<Rightarrow> library_reporter" where
  "set_scan entries r = r\<lparr>lr_entries := Some entries\<rparr>"

definition consent_turned_off :: "library_reporter \<Rightarrow> library_reporter" where
  "consent_turned_off r = r\<lparr>lr_clear_pending := True\<rparr>"

definition reset_for_account :: "library_reporter \<Rightarrow> library_reporter" where
  "reset_for_account r = r\<lparr>lr_held := Held_unknown\<rparr>"

definition send_failed :: "bool \<Rightarrow> library_reporter \<Rightarrow> library_reporter" where
  "send_failed was_clear r =
     (let r1 = r\<lparr>lr_held := Held_unknown\<rparr> in if was_clear then r1\<lparr>lr_clear_pending := True\<rparr> else r1)"

definition report_plan ::
  "(report_game list \<Rightarrow> nat) \<Rightarrow> bool \<Rightarrow> bool \<Rightarrow> string set \<Rightarrow> library_reporter \<Rightarrow> report_game list option \<times> library_reporter" where
  "report_plan hash share session_active hidden_games r =
     (if \<not> session_active then (None, r\<lparr>lr_held := Held_unknown\<rparr>)
      else if \<not> share then
        (if lr_clear_pending r \<or> (\<exists>h. lr_held r = Held_sent h)
         then (Some [], r\<lparr>lr_clear_pending := False, lr_held := Held_cleared\<rparr>) else (None, r))
      else
        let r1 = r\<lparr>lr_clear_pending := False\<rparr>
        in case lr_entries r1 of
             None \<Rightarrow> (None, r1)
           | Some entries \<Rightarrow>
               let report = build_report entries hidden_games
               in if lr_held r1 = Held_sent (hash report) then (None, r1)
                  else (Some report, r1\<lparr>lr_held := Held_sent (hash report)\<rparr>))"

section \<open>The client\<close>

text \<open>
  The parts of \<open>Client\<close> that decide about reports. \<open>lc_doc\<close> is the document the server holds for the
  account that is logged in, \<open>lc_found\<close> the one it held at the login: both are the server's. A call that
  fails may still have arrived.
\<close>

datatype rpc_outcome = Rpc_ok | Rpc_lost | Rpc_unanswered

record library_client =
  lc_share :: bool
  lc_hidden :: "string set"
  lc_active :: bool
  lc_reporter :: library_reporter
  lc_doc :: "report_game list option"
  lc_found :: "report_game list option"

definition sync_library_report :: "(report_game list \<Rightarrow> nat) \<Rightarrow> rpc_outcome \<Rightarrow> library_client \<Rightarrow> library_client" where
  "sync_library_report hash rpc c =
     (case report_plan hash (lc_share c) (lc_active c) (lc_hidden c) (lc_reporter c) of
        (None, r) \<Rightarrow> c\<lparr>lc_reporter := r\<rparr>
      | (Some games, r) \<Rightarrow>
          let is_clear = (games = [] \<and> \<not> lc_share c);
              c1 = (if rpc = Rpc_lost then c else c\<lparr>lc_doc := Some games\<rparr>)
          in c1\<lparr>lc_reporter := (if rpc = Rpc_ok then r else send_failed is_clear r)\<rparr>)"

datatype library_command =
    Scanned "library_entry list" | Set_hidden_games "string list" | Set_share_game_activity bool
  | Connected "report_game list option" | Logged_out

fun library_step :: "(report_game list \<Rightarrow> nat) \<Rightarrow> rpc_outcome \<Rightarrow> library_command \<Rightarrow> library_client \<Rightarrow> library_client" where
  "library_step hash rpc (Scanned entries) c =
     sync_library_report hash rpc (c\<lparr>lc_reporter := set_scan entries (lc_reporter c)\<rparr>)"
| "library_step hash rpc (Set_hidden_games hidden) c = sync_library_report hash rpc (c\<lparr>lc_hidden := set hidden\<rparr>)"
| "library_step hash rpc (Set_share_game_activity enabled) c =
     (let changed = (lc_share c \<noteq> enabled);
          c1 = c\<lparr>lc_share := enabled\<rparr>;
          c2 = (if changed \<and> \<not> enabled then c1\<lparr>lc_reporter := consent_turned_off (lc_reporter c1)\<rparr> else c1)
      in if changed then sync_library_report hash rpc c2 else c2)"
| "library_step hash rpc (Connected found) c =
     sync_library_report hash rpc
       (c\<lparr>lc_active := True, lc_doc := found, lc_found := found, lc_reporter := reset_for_account (lc_reporter c)\<rparr>)"
| "library_step hash rpc Logged_out c = c\<lparr>lc_active := False, lc_reporter := reset_for_account (lc_reporter c)\<rparr>"

definition library_client_new :: "bool \<Rightarrow> string set \<Rightarrow> library_client" where
  "library_client_new share hidden =
     \<lparr>lc_share = share, lc_hidden = hidden, lc_active = False, lc_reporter = reporter_new, lc_doc = None, lc_found = None\<rparr>"

abbreviation library_run :: "(report_game list \<Rightarrow> nat) \<Rightarrow> (rpc_outcome \<times> library_command) list \<Rightarrow> library_client \<Rightarrow> library_client" where
  "library_run hash es c \<equiv> foldl (\<lambda>c (rpc, e). library_step hash rpc e c) c es"

section \<open>The contents of a report\<close>

lemma dedup_ids_sorted:
  "sorted (map rg_game_id gs) \<Longrightarrow> sorted (map rg_game_id (dedup_ids gs)) \<and> distinct (map rg_game_id (dedup_ids gs)) \<and>
     set (dedup_ids gs) \<subseteq> set gs \<and> rg_game_id ` set (dedup_ids gs) = rg_game_id ` set gs \<and>
     (gs \<noteq> [] \<longrightarrow> dedup_ids gs \<noteq> [] \<and> hd (dedup_ids gs) = hd gs)"
proof (induction gs rule: dedup_ids.induct)
  case (1 a b gs)
  show ?case
  proof (cases "rg_game_id b = rg_game_id a")
    case True
    with 1 show ?thesis by auto
  next
    case False
    let ?r = "dedup_ids (b # gs)"
    have IH: "sorted (map rg_game_id ?r)" "distinct (map rg_game_id ?r)" "set ?r \<subseteq> set (b # gs)"
      "rg_game_id ` set ?r = rg_game_id ` set (b # gs)" using 1 False by simp_all
    have le: "rg_game_id a \<le> rg_game_id b" "\<forall>g \<in> set (b # gs). rg_game_id b \<le> rg_game_id g" using "1.prems" by auto
    with False have lt: "\<forall>g \<in> set (b # gs). rg_game_id a < rg_game_id g" by fastforce
    with IH(3) have "\<forall>g \<in> set ?r. rg_game_id a < rg_game_id g" by blast
    then have tail: "\<forall>g \<in> set ?r. rg_game_id a < rg_game_id g \<and> rg_game_id a \<le> rg_game_id g \<and> rg_game_id a \<noteq> rg_game_id g"
      by (auto simp: less_imp_le)
    have "dedup_ids (a # b # gs) = a # ?r" using False by simp
    moreover have "sorted (map rg_game_id (a # ?r)) \<and> distinct (map rg_game_id (a # ?r))"
      using IH(1,2) tail by auto
    moreover have "set (a # ?r) \<subseteq> set (a # b # gs)" "rg_game_id ` set (a # ?r) = rg_game_id ` set (a # b # gs)"
      using IH(3,4) by auto
    ultimately show ?thesis by simp
  qed
qed auto

lemma sorted_key_take_rest:
  assumes "sorted (map f xs)" "x \<in> set (take n xs)" "y \<in> set (drop n xs)"
  shows "f x \<le> f y"
proof -
  have "sorted (map f (take n xs) @ map f (drop n xs))"
    using assms(1) by (metis append_take_drop_id map_append)
  with assms(2,3) show ?thesis by (auto simp: sorted_append)
qed

lemma build_report_shape:
  fixes entries hidden defines "v \<equiv> visible_games entries hidden" and "g \<equiv> build_report entries hidden"
  shows "sorted (map rg_game_id g)" and "distinct (map rg_game_id g)" and "length g \<le> max_report_games" and
    "set g \<subseteq> set v" and
    "card (rg_game_id ` set v) \<le> max_report_games \<Longrightarrow> rg_game_id ` set g = rg_game_id ` set v" and
    "\<forall>d \<in> rg_game_id ` set v - rg_game_id ` set g.
       \<exists>w \<in> set v. rg_game_id w = d \<and> (\<forall>k \<in> set g. recency w \<le> recency k)" and
    "max_report_games < card (rg_game_id ` set v) \<Longrightarrow> length g = max_report_games"
proof -
  define all where "all = dedup_ids (sort_key rg_game_id v)"
  define byrec where "byrec = sort_key (\<lambda>g. (- recency g, rg_game_id g)) all"
  have srt: "sorted (map rg_game_id (sort_key rg_game_id v))" by simp
  note d = dedup_ids_sorted [OF srt, folded all_def]
  have g: "g = (if length all > max_report_games then sort_key rg_game_id (take max_report_games byrec) else all)"
    unfolding g_def build_report_def v_def [symmetric] all_def byrec_def Let_def ..
  have len: "length all = card (rg_game_id ` set v)"
    using d distinct_card [of "map rg_game_id all"] by simp
  have sub: "set all \<subseteq> set v" using d by simp
  have mb: "set byrec = set all" unfolding byrec_def by simp
  have db: "distinct (map rg_game_id byrec)"
    using d unfolding byrec_def by (simp add: distinct_map)
  then have dt: "distinct (map rg_game_id (take max_report_games byrec))"
    by (simp add: take_map [symmetric])
  show "sorted (map rg_game_id g)" using d by (simp add: g)
  show "distinct (map rg_game_id g)" using d dt by (simp add: g distinct_map)
  have lb: "length byrec = length all" unfolding byrec_def by simp
  show "length g \<le> max_report_games" by (simp add: g)
  show "max_report_games < card (rg_game_id ` set v) \<Longrightarrow> length g = max_report_games" by (simp add: g len [symmetric] lb)
  show "set g \<subseteq> set v" using sub mb by (auto simp: g dest: in_set_takeD)
  show "card (rg_game_id ` set v) \<le> max_report_games \<Longrightarrow> rg_game_id ` set g = rg_game_id ` set v"
    using d by (simp add: g len [symmetric])
  show "\<forall>d \<in> rg_game_id ` set v - rg_game_id ` set g. \<exists>w \<in> set v. rg_game_id w = d \<and> (\<forall>k \<in> set g. recency w \<le> recency k)"
  proof
    fix i assume i: "i \<in> rg_game_id ` set v - rg_game_id ` set g"
    then have "i \<in> rg_game_id ` set all" using d by simp
    then obtain w where w: "w \<in> set all" "rg_game_id w = i" by auto
    have big: "length all > max_report_games" using i w by (auto simp: g)
    have gs: "set g = set (take max_report_games byrec)" using big by (simp add: g)
    have "w \<notin> set (take max_report_games byrec)" using i w gs by auto
    then have wd: "w \<in> set (drop max_report_games byrec)"
      using w mb by (metis Un_iff append_take_drop_id set_append)
    have "\<forall>k \<in> set g. recency w \<le> recency k"
    proof
      fix k assume "k \<in> set g"
      then have kt: "k \<in> set (take max_report_games byrec)" using gs by simp
      have sb: "sorted (map (\<lambda>g. (- recency g, rg_game_id g)) byrec)" unfolding byrec_def by simp
      have "(- recency k, rg_game_id k) \<le> (- recency w, rg_game_id w)"
        by (rule sorted_key_take_rest [OF sb kt wd])
      then show "recency w \<le> recency k" by auto
    qed
    then show "\<exists>w \<in> set v. rg_game_id w = i \<and> (\<forall>k \<in> set g. recency w \<le> recency k)" using w sub by blast
  qed
qed

text \<open>C26: A report only leaves while a user is logged in. Without consent it is empty. It has at most 500
  games, sorted by id and each id once; each is an entry of the newest scan that Steam does not hide and
  the user did not hide. Up to 500 ids none is left out; above that there are exactly 500, and a game left
  out was not played more recently than any that stays.\<close>

theorem report_is_bounded_and_private:
  assumes "report_plan hash share session_active hidden r = (Some games, r')"
  shows "session_active \<and> (share \<or> games = []) \<and>
    length games \<le> 500 \<and> sorted (map rg_game_id games) \<and> distinct (map rg_game_id games) \<and>
    (share \<longrightarrow> (\<exists>entries. lr_entries r = Some entries \<and>
      (\<forall>g \<in> set games. rg_game_id g \<notin> hidden \<and>
         (\<exists>e \<in> set entries. \<not> le_hidden e \<and> rg_game_id g = entry_game_id e \<and> rg_name g = le_name e)) \<and>
      (let ids = entry_game_id ` {e \<in> set entries. \<not> le_hidden e} - hidden in
         (card ids \<le> 500 \<longrightarrow> rg_game_id ` set games = ids) \<and>
         (500 < card ids \<longrightarrow> length games = 500 \<and>
            (\<forall>d \<in> ids - rg_game_id ` set games. \<exists>w \<in> set (visible_games entries hidden).
               rg_game_id w = d \<and> (\<forall>k \<in> set games. recency w \<le> recency k))))))"
proof (cases share)
  case False
  then show ?thesis using assms by (auto simp: report_plan_def split: if_splits)
next
  case True
  then obtain entries where e: "session_active" "lr_entries r = Some entries" "games = build_report entries hidden"
    using assms by (auto simp: report_plan_def Let_def split: if_splits option.splits)
  have ids: "rg_game_id ` set (visible_games entries hidden) = entry_game_id ` {e \<in> set entries. \<not> le_hidden e} - hidden"
    by (force simp: visible_games_def)
  note shape = build_report_shape [of entries hidden, folded e(3), unfolded ids max_report_games_def]
  have from_scan: "\<forall>g \<in> set games. rg_game_id g \<notin> hidden \<and>
      (\<exists>e \<in> set entries. \<not> le_hidden e \<and> rg_game_id g = entry_game_id e \<and> rg_name g = le_name e)"
  proof
    fix g assume "g \<in> set games"
    then have "g \<in> set (visible_games entries hidden)" using shape(4) by blast
    then show "rg_game_id g \<notin> hidden \<and>
        (\<exists>e \<in> set entries. \<not> le_hidden e \<and> rg_game_id g = entry_game_id e \<and> rg_name g = le_name e)"
      by (auto simp: visible_games_def)
  qed
  show ?thesis unfolding Let_def using True e(1,2) shape(1-3,5-7) from_scan by auto
qed

definition sample_library :: "library_entry list" where
  "sample_library =
     [\<lparr>le_source = Steam, le_external_id = ''9'', le_name = ''Z'', le_install_dir = ''/z'', le_playtime_min = None, le_last_played_unix = Some 5, le_hidden = False\<rparr>,
      \<lparr>le_source = Steam, le_external_id = ''3'', le_name = ''A'', le_install_dir = ''/a'', le_playtime_min = None, le_last_played_unix = None, le_hidden = True\<rparr>]"

text \<open>One game of two is hidden in Steam: the report has the other one.\<close>

lemma report_is_bounded_and_private_witness:
  defines "r \<equiv> set_scan sample_library reporter_new"
  shows "\<exists>games r'. report_plan length True True {} r = (Some games, r') \<and> map rg_game_id games = [''steam-9''] \<and>
    length games \<le> 500"
proof -
  obtain games r' where p: "report_plan length True True {} r = (Some games, r')" "map rg_game_id games = [''steam-9'']"
    by (simp add: r_def report_plan_def set_scan_def reporter_new_def build_report_def visible_games_def sample_library_def
        entry_game_id_def max_report_games_def)
  have "length games \<le> 500" by (rule conjunct1 [OF conjunct2 [OF conjunct2 [OF report_is_bounded_and_private [OF p(1)]]]])
  with p show ?thesis by (intro exI conjI)
qed

end
