(* ===== verification/Library_Consent.thy ===== *)
theory Library_Consent
  imports Library_Report Machine
begin

text \<open>
  The server's document and the user's consent, over any sequence of scans, settings, logins and
  calls that fail.
\<close>

section \<open>What the reporter knows\<close>

text \<open>
  While a user is logged in, what the reporter believes the server holds is what it holds; and without
  consent, when no clear is owed, the document is empty or as the login found it.
\<close>

definition consent_ok :: "(report_game list \<Rightarrow> nat) \<Rightarrow> library_client \<Rightarrow> bool" where
  "consent_ok hash c \<longleftrightarrow>
     (if lc_active c
      then (case lr_held (lc_reporter c) of
              Held_unknown \<Rightarrow> True
            | Held_sent h \<Rightarrow> (\<exists>g. lc_doc c = Some g \<and> hash g = h)
            | Held_cleared \<Rightarrow> lc_doc c = Some [])
        \<and> (\<not> lc_share c \<and> \<not> lr_clear_pending (lc_reporter c) \<and> (\<forall>h. lr_held (lc_reporter c) \<noteq> Held_sent h)
             \<longrightarrow> lc_doc c = Some [] \<or> lc_doc c = lc_found c)
      else lr_held (lc_reporter c) = Held_unknown)"

lemmas reporter_defs = reporter_new_def set_scan_def consent_turned_off_def reset_for_account_def send_failed_def

lemma plan_silent:
  "fst (report_plan hash share active hidden r) = None \<Longrightarrow>
     snd (report_plan hash share active hidden r) =
       (if \<not> active then r\<lparr>lr_held := Held_unknown\<rparr> else if share then r\<lparr>lr_clear_pending := False\<rparr> else r)"
  by (auto simp: report_plan_def Let_def split: if_splits option.splits)

lemma sync_inactive: "\<not> lc_active c \<Longrightarrow>
    sync_library_report hash rpc c = c\<lparr>lc_reporter := (lc_reporter c)\<lparr>lr_held := Held_unknown\<rparr>\<rparr>"
  by (simp add: sync_library_report_def report_plan_def)

lemma sync_keeps_fields [simp]:
  "lc_share (sync_library_report hash rpc c) = lc_share c"
  "lc_active (sync_library_report hash rpc c) = lc_active c"
  "lc_hidden (sync_library_report hash rpc c) = lc_hidden c"
  "lc_found (sync_library_report hash rpc c) = lc_found c"
  "lr_entries (lc_reporter (sync_library_report hash rpc c)) = lr_entries (lc_reporter c)"
  by (auto simp: sync_library_report_def report_plan_def send_failed_def Let_def split: prod.split option.split if_splits)

lemma sync_without_consent:
  assumes "lc_active c" "\<not> lc_share c"
  shows "sync_library_report hash rpc c =
    (if lr_clear_pending (lc_reporter c) \<or> (\<exists>h. lr_held (lc_reporter c) = Held_sent h)
     then (case rpc of
             Rpc_ok \<Rightarrow> c\<lparr>lc_doc := Some [], lc_reporter := (lc_reporter c)\<lparr>lr_clear_pending := False, lr_held := Held_cleared\<rparr>\<rparr>
           | Rpc_lost \<Rightarrow> c\<lparr>lc_reporter := (lc_reporter c)\<lparr>lr_clear_pending := True, lr_held := Held_unknown\<rparr>\<rparr>
           | Rpc_unanswered \<Rightarrow> c\<lparr>lc_doc := Some [], lc_reporter := (lc_reporter c)\<lparr>lr_clear_pending := True, lr_held := Held_unknown\<rparr>\<rparr>)
     else c)"
  using assms by (auto simp: sync_library_report_def report_plan_def send_failed_def split: rpc_outcome.split)

lemma sync_with_consent:
  assumes "lc_active c" "lc_share c"
  shows "sync_library_report hash rpc c =
    (let r = (lc_reporter c)\<lparr>lr_clear_pending := False\<rparr> in
     case lr_entries r of
       None \<Rightarrow> c\<lparr>lc_reporter := r\<rparr>
     | Some entries \<Rightarrow>
         let g = build_report entries (lc_hidden c) in
         if lr_held r = Held_sent (hash g) then c\<lparr>lc_reporter := r\<rparr>
         else (case rpc of
                 Rpc_ok \<Rightarrow> c\<lparr>lc_doc := Some g, lc_reporter := r\<lparr>lr_held := Held_sent (hash g)\<rparr>\<rparr>
               | Rpc_lost \<Rightarrow> c\<lparr>lc_reporter := r\<lparr>lr_held := Held_unknown\<rparr>\<rparr>
               | Rpc_unanswered \<Rightarrow> c\<lparr>lc_doc := Some g, lc_reporter := r\<lparr>lr_held := Held_unknown\<rparr>\<rparr>))"
  using assms by (auto simp: sync_library_report_def report_plan_def send_failed_def Let_def split: rpc_outcome.split option.split)

lemma consent_ok_sync:
  assumes "consent_ok hash c" shows "consent_ok hash (sync_library_report hash rpc c)"
proof (cases "lc_active c")
  case False
  then show ?thesis by (simp add: sync_inactive consent_ok_def)
next
  case active: True
  show ?thesis
  proof (cases "lc_share c")
    case False
    then show ?thesis using assms active
      by (auto simp: sync_without_consent consent_ok_def split: rpc_outcome.split)
  next
    case True
    then show ?thesis using assms active
      by (auto simp: sync_with_consent consent_ok_def Let_def split: rpc_outcome.split option.split held.splits)
  qed
qed

lemma consent_ok_step: "consent_ok hash c \<Longrightarrow> consent_ok hash (library_step hash rpc e c)"
proof (cases e)
  case (Scanned entries)
  assume "consent_ok hash c"
  then have "consent_ok hash (c\<lparr>lc_reporter := set_scan entries (lc_reporter c)\<rparr>)"
    by (auto simp: consent_ok_def set_scan_def split: held.splits if_splits)
  then show ?thesis by (simp add: Scanned consent_ok_sync)
next
  case (Set_hidden_games hidden)
  assume "consent_ok hash c"
  then have "consent_ok hash (c\<lparr>lc_hidden := set hidden\<rparr>)"
    by (auto simp: consent_ok_def split: held.splits if_splits)
  then show ?thesis by (simp add: Set_hidden_games consent_ok_sync)
next
  case (Set_share_game_activity on)
  assume "consent_ok hash c"
  then have "lc_share c \<noteq> on \<and> \<not> on \<Longrightarrow>
      consent_ok hash (c\<lparr>lc_share := False, lc_reporter := consent_turned_off (lc_reporter c)\<rparr>)"
    and "consent_ok hash (c\<lparr>lc_share := True\<rparr>)" and "lc_share c = on \<Longrightarrow> consent_ok hash (c\<lparr>lc_share := on\<rparr>)"
    by (auto simp: consent_ok_def consent_turned_off_def split: if_splits held.splits)
  then show ?thesis by (cases "on") (auto simp: Set_share_game_activity Let_def intro: consent_ok_sync)
next
  case (Connected found)
  then show ?thesis by (simp, intro consent_ok_sync) (simp add: consent_ok_def reset_for_account_def)
next
  case Logged_out
  then show ?thesis by (simp add: consent_ok_def reset_for_account_def)
qed

interpretation consent: machine "\<lambda>c (rpc, e). library_step hash rpc e c" "consent_ok hash" for hash
  by unfold_locales (auto intro: consent_ok_step)

lemma consent_ok_new: "consent_ok hash (library_client_new share hidden)"
  by (simp add: consent_ok_def library_client_new_def reporter_new_def)

text \<open>What a call that works settles.\<close>

lemma sync_settles:
  fixes c hash defines "d \<equiv> sync_library_report hash Rpc_ok c"
  assumes ok: "consent_ok hash c" and active: "lc_active c"
  shows "(lc_share d \<longrightarrow> (\<forall>entries. lr_entries (lc_reporter d) = Some entries \<longrightarrow>
            (\<exists>g. lc_doc d = Some g \<and> hash g = hash (build_report entries (lc_hidden d))))) \<and>
         (\<not> lc_share d \<longrightarrow> lc_doc d = Some [] \<or> lc_doc d = lc_found d) \<and>
         (\<not> lc_share d \<and> lr_clear_pending (lc_reporter c) \<longrightarrow> lc_doc d = Some [])"
proof (cases "lc_share c")
  case False
  then show ?thesis using ok active by (auto simp: d_def sync_without_consent consent_ok_def)
next
  case True
  then show ?thesis using ok active
    by (auto simp: d_def sync_with_consent consent_ok_def Let_def split: option.splits)
qed

definition settles :: "library_client \<Rightarrow> library_command \<Rightarrow> bool" where
  "settles c e \<longleftrightarrow> (case e of Logged_out \<Rightarrow> False | Set_share_game_activity enabled \<Rightarrow> enabled \<noteq> lc_share c | _ \<Rightarrow> True)"

text \<open>C25: Whatever scans, settings, logins and failed calls came before: when a step that syncs gets its call
  through while a user is logged in, the server's document agrees with the setting. With consent it hashes
  like the report of the newest scan without the hidden games; without consent it is empty or the one the
  login found, and it is empty when the user just turned the consent off.\<close>

theorem server_document_follows_consent:
  fixes es share hidden e hash
  defines "c \<equiv> library_run hash es (library_client_new share hidden)"
  defines "d \<equiv> library_step hash Rpc_ok e c"
  assumes "settles c e" and "lc_active d"
  shows "(lc_share d \<longrightarrow> (\<forall>entries. lr_entries (lc_reporter d) = Some entries \<longrightarrow>
            (\<exists>g. lc_doc d = Some g \<and> hash g = hash (build_report entries (lc_hidden d))))) \<and>
         (\<not> lc_share d \<longrightarrow> lc_doc d = Some [] \<or> lc_doc d = lc_found d) \<and>
         (e = Set_share_game_activity False \<longrightarrow> lc_doc d = Some [])"
proof -
  have ok: "consent_ok hash c" unfolding c_def by (rule consent.run_inv [OF consent_ok_new])
  have prep: "consent_ok hash b \<Longrightarrow> d = sync_library_report hash Rpc_ok b \<Longrightarrow> ?thesis"
    if "e = Set_share_game_activity False \<longrightarrow> lr_clear_pending (lc_reporter b) \<and> \<not> lc_share b" for b
    using sync_settles [of hash b] that assms(4) by auto
  show ?thesis
  proof (cases e)
    case (Scanned entries)
    show ?thesis
      by (rule prep [of "c\<lparr>lc_reporter := set_scan entries (lc_reporter c)\<rparr>"])
        (use ok in \<open>auto simp: Scanned d_def consent_ok_def set_scan_def split: held.splits if_splits\<close>)
  next
    case (Set_hidden_games hidden)
    show ?thesis
      by (rule prep [of "c\<lparr>lc_hidden := set hidden\<rparr>"])
        (use ok in \<open>auto simp: Set_hidden_games d_def consent_ok_def split: held.splits if_splits\<close>)
  next
    case (Set_share_game_activity enabled)
    then have ch: "enabled \<noteq> lc_share c" using assms(3) by (simp add: settles_def)
    show ?thesis
    proof (cases enabled)
      case True
      show ?thesis
        by (rule prep [of "c\<lparr>lc_share := True\<rparr>"])
          (use ok ch True in \<open>auto simp: Set_share_game_activity d_def consent_ok_def split: held.splits if_splits\<close>)
    next
      case False
      show ?thesis
        by (rule prep [of "c\<lparr>lc_share := False, lc_reporter := consent_turned_off (lc_reporter c)\<rparr>"])
          (use ok ch False in \<open>auto simp: Set_share_game_activity d_def consent_ok_def consent_turned_off_def split: held.splits if_splits\<close>)
    qed
  next
    case (Connected found)
    show ?thesis
      by (rule prep [of "c\<lparr>lc_active := True, lc_doc := found, lc_found := found, lc_reporter := reset_for_account (lc_reporter c)\<rparr>"])
        (auto simp: Connected d_def consent_ok_def reset_for_account_def)
  next
    case Logged_out
    then show ?thesis using assms(3) by (simp add: settles_def)
  qed
qed

text \<open>The clear of a consent that was turned off is lost; the next scan sends it again.\<close>

lemma server_document_follows_consent_witness:
  defines "es \<equiv> [(Rpc_ok, Connected None), (Rpc_ok, Scanned sample_library), (Rpc_lost, Set_share_game_activity False)]"
  defines "c \<equiv> library_run length es (library_client_new True {})"
  shows "lc_doc c \<noteq> Some [] \<and> lc_doc c \<noteq> None \<and>
    lc_doc (library_step length Rpc_ok (Scanned []) c) = Some []"
proof -
  have sent: "build_report sample_library {} =
      [\<lparr>rg_game_id = ''steam-9'', rg_name = ''Z'', rg_launcher = ''steam'', rg_playtime_min = None, rg_last_played_unix = Some 5\<rparr>]"
    by (simp add: build_report_def visible_games_def sample_library_def entry_game_id_def max_report_games_def positive_def)
  have run: "lc_doc c = Some (build_report sample_library {})" "lc_active c" "lc_found c = None" "\<not> lc_share c"
    "lr_clear_pending (lc_reporter c)"
    by (simp_all add: c_def es_def library_client_new_def sync_library_report_def report_plan_def reporter_defs sent)
  have st: "settles c (Scanned [])" by (simp add: settles_def)
  have act: "lc_active (library_step length Rpc_ok (Scanned []) c)" using run by simp
  have fd: "lc_found (library_step length Rpc_ok (Scanned []) c) = None" "\<not> lc_share (library_step length Rpc_ok (Scanned []) c)"
    using run by simp_all
  note th = server_document_follows_consent [where hash = length and es = es and share = True and hidden = "{}" and e = "Scanned []",
      folded c_def, OF st act]
  have "lc_doc (library_step length Rpc_ok (Scanned []) c) \<noteq> None"
    using run by (simp add: sync_without_consent set_scan_def)
  then show ?thesis using th run fd sent by auto
qed

section \<open>A clear that is lost\<close>

text \<open>
  The clear that is owed lives in memory only. A client that starts with the consent turned off sends
  nothing until the consent is turned on again: a clear that did not get through before the client was
  closed is never sent, and the document stays as the login finds it.
\<close>

lemma no_clear_after_restart:
  assumes "\<forall>(rpc, e) \<in> set es. e \<noteq> Set_share_game_activity True"
  shows "lc_doc (library_run hash es (library_client_new False hidden)) = lc_found (library_run hash es (library_client_new False hidden))"
proof -
  let ?q = "\<lambda>c. \<not> lc_share c \<and> \<not> lr_clear_pending (lc_reporter c) \<and> (\<forall>h. lr_held (lc_reporter c) \<noteq> Held_sent h) \<and>
    lc_doc c = lc_found c"
  have step: "?q (library_step hash rpc e c)" if "?q c" "e \<noteq> Set_share_game_activity True" for rpc e c
    using that by (cases e; cases "lc_active c")
      (auto simp: sync_inactive sync_without_consent set_scan_def reset_for_account_def)
  have "?q (library_run hash es c)" if "?q c" for c
    using that assms by (induction es arbitrary: c) (auto simp del: library_step.simps intro!: step)
  moreover have "?q (library_client_new False hidden)" by (simp add: library_client_new_def reporter_new_def)
  ultimately show ?thesis by blast
qed

end
