(* ===== verification/Game_Resolve.thy ===== *)
theory Game_Resolve
  imports Game_Sensing Catalogue_Head Library Machine "HOL-Library.Char_ord" "HOL-Library.List_Lexorder" "HOL-Library.Product_Lexorder"
begin

text \<open>
  How the sensor names the game of a process (\<open>game_sensing.rs\<close>, \<open>unresolved.rs\<close>): the curated
  executables, the installed library, and for what looks like a game but has no name a provisional
  identity. The directories on disk, the tables of Unicode and the outcome of a write are in a
  record of the environment; what the process keeps between scans is the memory.
\<close>

section \<open>Paths\<close>

text \<open>
  \<open>Path::components\<close> and \<open>Path::parent\<close> for a path without \<open>.\<close> components, as the system reports
  them. The root is no component here and a drive is one like another, which no test below sees.
\<close>

definition path_parts :: "(char \<Rightarrow> bool) \<Rightarrow> string \<Rightarrow> string list" where
  "path_parts sep p = filter (\<lambda>s. s \<noteq> []) (split_on sep p)"

definition strip_seps :: "(char \<Rightarrow> bool) \<Rightarrow> string \<Rightarrow> string" where
  "strip_seps sep p = rev (dropWhile sep (rev p))"

definition path_parent :: "(char \<Rightarrow> bool) \<Rightarrow> string \<Rightarrow> string option" where
  "path_parent sep p =
     (let t = strip_seps sep p; cut = strip_seps (\<lambda>c. \<not> sep c) t
      in if t = [] then None else Some (if strip_seps sep cut = [] then take 1 cut else strip_seps sep cut))"

section \<open>What looks like a game\<close>

definition unknown_denylist :: "string list" where
  "unknown_denylist =
     [''chrome.exe'', ''msedge.exe'', ''firefox.exe'', ''brave.exe'', ''opera.exe'', ''opera_gx.exe'', ''vivaldi.exe'',
      ''vlc.exe'', ''wmplayer.exe'', ''mpc-hc64.exe'', ''spotify.exe'',
      ''steam.exe'', ''steamwebhelper.exe'', ''epicgameslauncher.exe'', ''battle.net.exe'', ''riotclientservices.exe'',
      ''riotclientux.exe'', ''eadesktop.exe'', ''galaxyclient.exe'', ''upc.exe'', ''ubisoftconnect.exe'',
      ''discord.exe'', ''slack.exe'', ''zoom.exe'', ''teams.exe'', ''ms-teams.exe'', ''obs64.exe'',
      ''windowsterminal.exe'', ''wt.exe'', ''cmd.exe'', ''powershell.exe'', ''pwsh.exe'', ''conhost.exe'', ''code.exe'',
      ''cursor.exe'', ''devenv.exe'', ''claude.exe'',
      ''explorer.exe'', ''taskmgr.exe'', ''mello.exe'', ''mello-client.exe'']"

definition unknown_path_denylist :: "string list" where
  "unknown_path_denylist =
     map (map (\<lambda>c. if c = CHR ''/'' then backslash else c))
       [''/windows/system32/'', ''/windows/systemapps/'', ''/windowsapps/'', ''/appdata/local/programs/'']"

definition engine_marker_files :: "string list" where
  "engine_marker_files =
     [''unityplayer.dll'', ''gameassembly.dll'', ''mono-2.0-bdwgc.dll'', ''steam_api64.dll'', ''steam_api.dll'',
      ''galaxy64.dll'', ''d3d12core.dll'',
      ''unityplayer.dylib'', ''gameassembly.dylib'', ''libmonobdwgc-2.0.dylib'', ''libsteam_api.dylib'', ''libgalaxy.dylib'']"

text \<open>The windows of four components: an app, its \<open>Contents/MacOS\<close>, and something in it.\<close>

fun bundle_in :: "string list \<Rightarrow> bool" where
  "bundle_in (a # b # c # d # r) \<longleftrightarrow>
     length a > length ''.app'' \<and> ends_with a ''.app'' \<and> b = ''contents'' \<and> c = ''macos'' \<or> bundle_in (b # c # d # r)"
| "bundle_in _ \<longleftrightarrow> False"

definition in_app_bundle :: "(char \<Rightarrow> bool) \<Rightarrow> string \<Rightarrow> bool" where
  "in_app_bundle sep p = bundle_in (map to_ascii_lowercase (path_parts sep p))"

record resolve_env =
  re_head :: "catalogue_head option"
  re_index :: "appid_index option"
  re_library :: "(string \<times> library_entry) list"
  re_dir :: "string \<Rightarrow> string list option"
  re_windows :: bool
  re_lower :: "string \<Rightarrow> string"
  re_upper :: "string \<Rightarrow> string"

definition re_sep :: "resolve_env \<Rightarrow> char \<Rightarrow> bool" where
  "re_sep env c \<longleftrightarrow> c = CHR ''/'' \<or> re_windows env \<and> c = backslash"

definition re_join :: "resolve_env \<Rightarrow> char" where
  "re_join env = (if re_windows env then backslash else CHR ''/'')"

definition marker_dirs :: "resolve_env \<Rightarrow> string \<Rightarrow> string list" where
  "marker_dirs env exe_path =
     (case path_parent (re_sep env) exe_path of
        None \<Rightarrow> []
      | Some dir \<Rightarrow>
          dir # (if in_app_bundle (re_sep env) exe_path
                 then case path_parent (re_sep env) dir of
                        None \<Rightarrow> []
                      | Some contents \<Rightarrow> [path_join (re_join env) contents ''Frameworks'', path_join (re_join env) contents ''Resources'']
                 else []))"

definition is_marker :: "string \<Rightarrow> bool" where
  "is_marker file_name \<longleftrightarrow>
     (let name = to_ascii_lowercase file_name
      in name \<in> set engine_marker_files \<or> ends_with name ''_data'' \<or> ends_with name ''.pck'')"

text \<open>The loop over the directories, without the cache.\<close>

definition marker_on_disk :: "resolve_env \<Rightarrow> string \<Rightarrow> bool" where
  "marker_on_disk env exe_path \<longleftrightarrow>
     list_ex (\<lambda>dir. case re_dir env dir of None \<Rightarrow> False | Some entries \<Rightarrow> list_ex is_marker entries) (marker_dirs env exe_path)"

definition has_engine_marker :: "resolve_env \<Rightarrow> string \<Rightarrow> (string \<times> bool) list \<Rightarrow> bool \<times> (string \<times> bool) list" where
  "has_engine_marker env exe_path cache =
     (case path_parent (re_sep env) exe_path of
        None \<Rightarrow> (False, cache)
      | Some dir \<Rightarrow>
          let key = to_ascii_lowercase dir
          in case map_of cache key of
               Some hit \<Rightarrow> (hit, cache)
             | None \<Rightarrow> let found = marker_on_disk env exe_path in (found, AList.update key found cache))"

text \<open>Which processes are looked at on disk, and the verdict of the others.\<close>

definition plain_verdict :: "resolve_env \<Rightarrow> raw_process \<Rightarrow> bool option" where
  "plain_verdict env p =
     (let exe = to_ascii_lowercase (rp_exe p); path = to_ascii_lowercase (rp_path p)
      in if rp_path p = [] \<or> is_blank (rp_window_title p) then Some False
         else if exe \<in> set unknown_denylist \<or> list_ex (contains path) unknown_path_denylist then Some False
         else if is_auxiliary_binary exe then Some False
         else if ends_with exe ''-win64-shipping.exe'' \<or> ends_with exe ''-shipping.exe'' then Some True
         else if rp_is_fullscreen p \<and> \<not> in_app_bundle (re_sep env) (rp_path p) then Some True
         else None)"

definition looks_like_a_game :: "resolve_env \<Rightarrow> raw_process \<Rightarrow> (string \<times> bool) list \<Rightarrow> bool \<times> (string \<times> bool) list" where
  "looks_like_a_game env p cache =
     (case plain_verdict env p of
        Some verdict \<Rightarrow> (verdict, cache)
      | None \<Rightarrow> has_engine_marker env (rp_path p) cache)"

section \<open>A provisional identity\<close>

fun slug_loop :: "string \<Rightarrow> string \<Rightarrow> bool \<Rightarrow> string" where
  "slug_loop [] slug last_dash = slug"
| "slug_loop (c # s) slug last_dash =
     (let c = ascii_lower_char c
      in if ascii_alphanumeric c then slug_loop s (slug @ [c]) False
         else if \<not> last_dash then slug_loop s (slug @ ''-'') True
         else slug_loop s slug last_dash)"

definition exe_stem :: "string \<Rightarrow> string" where
  "exe_stem exe = trim_end_matches ''.EXE'' (trim_end_matches ''.exe'' exe)"

definition provisional_game_id :: "string \<Rightarrow> string" where
  "provisional_game_id exe =
     (let stem = exe_stem (last (split_on (\<lambda>c. c = backslash \<or> c = CHR ''/'') exe));
          slug = trim_end_matches ''-'' (slug_loop stem [] True)
      in if slug = [] then ''local-game'' else ''local-'' @ slug)"

definition join_words :: "string list \<Rightarrow> string" where
  "join_words ws = (case ws of [] \<Rightarrow> [] | w # ws \<Rightarrow> w @ concat (map (\<lambda>v. '' '' @ v) ws))"

definition provisional_name :: "(string \<Rightarrow> string) \<Rightarrow> raw_process \<Rightarrow> string" where
  "provisional_name upper p =
     (let title = trim_text (rp_window_title p);
          stem = map (\<lambda>c. if c = CHR ''_'' \<or> c = CHR ''-'' then CHR '' '' else c) (exe_stem (rp_exe p))
      in if title \<noteq> [] \<and> length title \<le> 64 then title
         else if stem = [] then rp_exe p
         else join_words (map (\<lambda>w. case chars w of [] \<Rightarrow> [] | c # cs \<Rightarrow> upper c @ concat cs) (split_whitespace stem)))"

section \<open>The tally of what had no name\<close>

definition max_tally_entries :: nat where "max_tally_entries = 200"

record unresolved_entry =
  ue_exe :: string
  ue_folder :: string
  ue_name :: string
  ue_seen :: nat
  ue_last_seen_ms :: int

definition folder_of :: "string \<Rightarrow> string" where
  "folder_of exe_path =
     (case rev (split_on (\<lambda>c. c = backslash \<or> c = CHR ''/'') exe_path) of leaf # folder # _ \<Rightarrow> folder | _ \<Rightarrow> [])"

text \<open>The store is a \<open>BTreeMap\<close>: a list sorted by key. \<open>min_by_key\<close> gives the first of the least.\<close>

fun tree_update :: "string \<Rightarrow> 'v \<Rightarrow> (string \<times> 'v) list \<Rightarrow> (string \<times> 'v) list" where
  "tree_update k v [] = [(k, v)]"
| "tree_update k v ((k', v') # m) =
     (if k = k' then (k, v) # m else if k < k' then (k, v) # (k', v') # m else (k', v') # tree_update k v m)"

fun first_min :: "('a \<Rightarrow> 'k::linorder) \<Rightarrow> 'a list \<Rightarrow> 'a option" where
  "first_min f [] = None"
| "first_min f (x # xs) = (case first_min f xs of None \<Rightarrow> Some x | Some y \<Rightarrow> Some (if f y < f x then y else x))"

definition tally_entries :: "(string \<Rightarrow> string) \<Rightarrow> string \<Rightarrow> string \<Rightarrow> string \<Rightarrow> int \<Rightarrow>
    (string \<times> unresolved_entry) list \<Rightarrow> (string \<times> unresolved_entry) list" where
  "tally_entries lower exe exe_path name now_ms entries =
     (let key = lower exe;
          old = (case map_of entries key of
                   Some e \<Rightarrow> e
                 | None \<Rightarrow> \<lparr>ue_exe = exe, ue_folder = folder_of exe_path, ue_name = name, ue_seen = 0, ue_last_seen_ms = now_ms\<rparr>);
          entries = tree_update key (old\<lparr>ue_seen := sat_add u32_max (ue_seen old) 1, ue_last_seen_ms := now_ms\<rparr>) entries
      in if length entries > max_tally_entries
         then case first_min (\<lambda>(_, e). (ue_seen e, ue_last_seen_ms e)) entries of
                None \<Rightarrow> entries
              | Some (worst, _) \<Rightarrow> AList.delete worst entries
         else entries)"

text \<open>The file is what a read of it gives; \<open>None\<close> when it is missing or no tally, or when there is no place for it.\<close>

definition tally_record :: "bool \<Rightarrow> (string \<times> unresolved_entry) list write_outcome \<Rightarrow> (string \<Rightarrow> string) \<Rightarrow> string \<Rightarrow> string \<Rightarrow> string \<Rightarrow>
    int \<Rightarrow> (string \<times> unresolved_entry) list option \<Rightarrow> (string \<times> unresolved_entry) list option" where
  "tally_record has_path w lower exe exe_path name now_ms stored =
     (if \<not> has_path then stored
      else
        let entries = tally_entries lower exe exe_path name now_ms (case stored of None \<Rightarrow> [] | Some es \<Rightarrow> es)
        in case w of Written \<Rightarrow> Some entries | Write_failed left \<Rightarrow> left)"

definition tally_all :: "bool \<Rightarrow> (string \<times> unresolved_entry) list option \<Rightarrow> unresolved_entry list" where
  "tally_all has_path stored =
     (if \<not> has_path then []
      else sort_key (\<lambda>e. - int (ue_seen e)) (map snd (case stored of None \<Rightarrow> [] | Some es \<Rightarrow> es)))"

section \<open>The ladder\<close>

record resolve_memory =
  rm_cache :: "(string \<times> bool) list"
  rm_seen :: "string list"
  rm_tally :: "(string \<times> unresolved_entry) list option"

definition note_unresolved :: "resolve_env \<Rightarrow> bool \<Rightarrow> (string \<times> unresolved_entry) list write_outcome \<Rightarrow> int \<Rightarrow>
    string \<Rightarrow> string \<Rightarrow> string \<Rightarrow> resolve_memory \<Rightarrow> resolve_memory" where
  "note_unresolved env has_path w now_ms exe exe_path name m =
     (let key = re_lower env exe
      in if key \<in> set (rm_seen m) then m
         else m\<lparr>rm_seen := key # rm_seen m,
                rm_tally := tally_record has_path w (re_lower env) exe exe_path name now_ms (rm_tally m)\<rparr>)"

definition grey :: string where "grey = ''#888888''"

definition matched_entry :: "catalogue_entry \<Rightarrow> matched" where
  "matched_entry e =
     \<lparr>md_game_id = ce_game_id e, md_game_name = ce_name e, md_short_name = ce_short_name e, md_color = grey,
      md_igdb_id = Some (ce_igdb_id e)\<rparr>"

definition library_igdb_id :: "resolve_env \<Rightarrow> library_entry \<Rightarrow> nat option" where
  "library_igdb_id env e =
     (if le_source e = Steam
      then Option.bind (parse_u u32_max (le_external_id e)) (\<lambda>appid. Option.bind (re_index env) (index_igdb_id appid))
      else None)"

text \<open>The rungs that only read: the curated table and the library.\<close>

definition named_game :: "resolve_env \<Rightarrow> raw_process \<Rightarrow> matched option" where
  "named_game env p =
     (case Option.bind (re_head env) (lookup_exe (rp_exe p) (rp_path p)) of
        Some e \<Rightarrow> Some (matched_entry e)
      | None \<Rightarrow>
          (case resolve_path (rp_path p) (re_library env) of
             None \<Rightarrow> None
           | Some entry \<Rightarrow>
               let igdb_id = library_igdb_id env entry
               in case Option.bind igdb_id (\<lambda>i. Option.bind (re_head env) (head_get i)) of
                    Some catalogued \<Rightarrow> Some (matched_entry catalogued)
                  | None \<Rightarrow>
                      (case (case re_head env of None \<Rightarrow> [] | Some h \<Rightarrow> head_all_by_name (le_name entry) h) of
                         [catalogued] \<Rightarrow> Some (matched_entry catalogued)
                       | _ \<Rightarrow>
                           Some \<lparr>md_game_id = entry_game_id entry, md_game_name = le_name entry,
                             md_short_name = entry_short_name (re_upper env) entry, md_color = grey, md_igdb_id = igdb_id\<rparr>)))"

definition provisional_game :: "resolve_env \<Rightarrow> raw_process \<Rightarrow> matched" where
  "provisional_game env p =
     (let name = provisional_name (re_upper env) p
      in \<lparr>md_game_id = provisional_game_id (rp_exe p), md_game_name = name,
          md_short_name = derive_short_name (re_upper env) name, md_color = grey, md_igdb_id = None\<rparr>)"

definition resolve_process :: "resolve_env \<Rightarrow> bool \<Rightarrow> (string \<times> unresolved_entry) list write_outcome \<Rightarrow> int \<Rightarrow>
    raw_process \<Rightarrow> resolve_memory \<Rightarrow> matched option \<times> resolve_memory" where
  "resolve_process env has_path w now_ms p m =
     (case named_game env p of
        Some g \<Rightarrow> (Some g, m)
      | None \<Rightarrow>
          (case looks_like_a_game env p (rm_cache m) of
             (looks, cache) \<Rightarrow>
               let m1 = m\<lparr>rm_cache := cache\<rparr>
               in if looks
                  then (Some (provisional_game env p),
                        note_unresolved env has_path w now_ms (rp_exe p) (rp_path p) (provisional_name (re_upper env) p) m1)
                  else (None, m1)))"

text \<open>One scan, over all processes in their order, with the outcome of the write for each.\<close>

fun resolve_all :: "resolve_env \<Rightarrow> bool \<Rightarrow> int \<Rightarrow> (raw_process \<times> (string \<times> unresolved_entry) list write_outcome) list \<Rightarrow>
    resolve_memory \<Rightarrow> matched option list \<times> resolve_memory" where
  "resolve_all env has_path now_ms [] m = ([], m)"
| "resolve_all env has_path now_ms ((p, w) # ps) m =
     (case resolve_process env has_path w now_ms p m of
        (r, m1) \<Rightarrow> (case resolve_all env has_path now_ms ps m1 of (rs, m2) \<Rightarrow> (r # rs, m2)))"

definition is_tracked_game :: "catalogue_head option \<Rightarrow> appid_index option \<Rightarrow> string \<Rightarrow> string \<Rightarrow> bool" where
  "is_tracked_game head index game_id game_name =
     (case head of
        None \<Rightarrow> False
      | Some h \<Rightarrow>
          head_by_game_id game_id h \<noteq> None
          \<or> Option.bind (Option.bind (if starts_with game_id ''steam-'' then parse_u u32_max (drop 6 game_id) else None)
              (\<lambda>appid. Option.bind index (index_igdb_id appid))) (\<lambda>i. head_get i h) \<noteq> None
          \<or> head_by_name game_name h \<noteq> None)"

end
