(* ===== verification/Game_Resolve_Props.thy ===== *)
theory Game_Resolve_Props
  imports Game_Resolve
begin

text \<open>
  The cache of the engine files changes no answer, a provisional id is well formed, and the tally of
  the games without a name stays small.
\<close>

section \<open>Paths without regard to case\<close>

lemma path_parts_map: "(\<And>c. sep (f c) = sep c) \<Longrightarrow> path_parts sep (map f p) = map (map f) (path_parts sep p)"
  by (simp add: path_parts_def split_on_map filter_map comp_def)

lemma strip_seps_map: "(\<And>c. sep (f c) = sep c) \<Longrightarrow> strip_seps sep (map f p) = map f (strip_seps sep p)"
  by (simp add: strip_seps_def rev_map dropWhile_map comp_def)

lemma path_parent_map:
  assumes "\<And>c. sep (f c) = sep c"
  shows "path_parent sep (map f p) = map_option (map f) (path_parent sep p)"
  by (simp add: path_parent_def strip_seps_map assms take_map Let_def)

lemma path_parts_seps: "sep c \<Longrightarrow> path_parts sep (a @ c # b) = path_parts sep a @ path_parts sep b"
  by (simp add: path_parts_def split_on_append)

lemma path_parts_trailing: "\<forall>c \<in> set b. sep c \<Longrightarrow> path_parts sep (a @ b) = path_parts sep a"
proof (induction b arbitrary: a)
  case (Cons c b)
  have "path_parts sep b = path_parts sep []" using Cons.IH [of "[]"] Cons.prems by simp
  with Cons.prems show ?case by (simp add: path_parts_seps) (simp add: path_parts_def)
qed simp

lemma strip_seps_split: "\<exists>b. p = strip_seps sep p @ b \<and> (\<forall>c \<in> set b. sep c)"
proof (intro exI conjI)
  show "p = strip_seps sep p @ rev (takeWhile sep (rev p))"
    by (metis rev_append rev_rev_ident strip_seps_def takeWhile_dropWhile_id)
qed (auto dest: set_takeWhileD)

lemma path_parts_strip: "path_parts sep (strip_seps sep p) = path_parts sep p"
  using strip_seps_split [of p sep] path_parts_trailing by metis

lemma strip_seps_last: "strip_seps sep p \<noteq> [] \<Longrightarrow> \<not> sep (last (strip_seps sep p))"
  by (simp add: strip_seps_def last_rev hd_dropWhile)

text \<open>A path is its directory and one component more.\<close>

lemma path_parent_parts:
  assumes "path_parent sep p = Some dir"
  shows "\<exists>leaf. path_parts sep p = path_parts sep dir @ [leaf]"
proof -
  define t where "t = strip_seps sep p"
  define cut leaf where "cut = strip_seps (\<lambda>c. \<not> sep c) t" and "leaf = rev (takeWhile (\<lambda>c. \<not> sep c) (rev t))"
  have t: "t \<noteq> []" and dir: "dir = (if strip_seps sep cut = [] then take 1 cut else strip_seps sep cut)"
    using assms by (auto simp: path_parent_def t_def cut_def Let_def split: if_splits)
  have split: "t = cut @ leaf" unfolding cut_def leaf_def strip_seps_def
    by (metis rev_append rev_rev_ident takeWhile_dropWhile_id)
  have leaf: "leaf \<noteq> []" "\<forall>c \<in> set leaf. \<not> sep c"
    using t strip_seps_last [of sep p]
    by (auto simp: leaf_def t_def [symmetric] takeWhile_eq_Nil_iff hd_rev dest: set_takeWhileD)
  have plain: "path_parts sep leaf = [leaf]" using leaf by (simp add: path_parts_def split_on_none)
  have "path_parts sep t = path_parts sep cut @ [leaf]"
  proof (cases "cut = []")
    case False
    then obtain a c where c: "cut = a @ [c]" by (metis rev_exhaust)
    have "sep c" using strip_seps_last [of "\<lambda>c. \<not> sep c" t] False c by (simp add: cut_def [symmetric])
    then show ?thesis using path_parts_seps [of sep c a leaf] path_parts_seps [of sep c a "[]"] plain
      by (simp add: split c) (simp add: path_parts_def)
  qed (use plain in \<open>simp add: split path_parts_def\<close>)
  moreover have "path_parts sep dir = path_parts sep cut"
  proof (cases "strip_seps sep cut = []")
    case True
    then have "\<forall>c \<in> set cut. sep c" using strip_seps_split [of cut sep] by simp
    then have "\<forall>c \<in> set cut. sep c" "\<forall>c \<in> set (take 1 cut). sep c" by (auto dest: in_set_takeD)
    then have "path_parts sep ([] @ cut) = path_parts sep []" "path_parts sep ([] @ take 1 cut) = path_parts sep []"
      by (blast intro: path_parts_trailing)+
    then show ?thesis using True dir by simp
  qed (simp add: dir path_parts_strip)
  ultimately show ?thesis using path_parts_strip [of sep p] by (auto simp: t_def)
qed

lemma bundle_in_last: "bundle_in (xs @ [x]) = bundle_in (xs @ [y])"
proof (induction xs rule: bundle_in.induct)
  case (1 a b c d r)
  then show ?case by simp
qed auto

lemma ascii_lower_plain: "ascii_lower_char c = d \<Longrightarrow> (of_char d :: nat) < 97 \<Longrightarrow> c = d"
  by (auto simp: ascii_lower_char_def Let_def split: if_splits)

lemma ascii_lower_sep: "re_sep env (ascii_lower_char c) = re_sep env c"
proof -
  have "ascii_lower_char c = CHR ''/'' \<longleftrightarrow> c = CHR ''/''" "ascii_lower_char c = backslash \<longleftrightarrow> c = backslash"
    by (auto intro: ascii_lower_plain simp: backslash_def) (simp_all add: ascii_lower_char_def)
  then show ?thesis by (simp add: re_sep_def)
qed

lemma ascii_lower_join: "ascii_lower_char c = re_join env \<longleftrightarrow> c = re_join env"
  by (auto intro: ascii_lower_plain simp: re_join_def backslash_def) (simp_all add: ascii_lower_char_def)

section \<open>The cache of the engine files\<close>

text \<open>What the disk is asked depends on the directory of the executable only, and on it without its case.\<close>

definition disk_ignores_case :: "resolve_env \<Rightarrow> bool" where
  "disk_ignores_case env \<longleftrightarrow> (\<forall>a b. to_ascii_lowercase a = to_ascii_lowercase b \<longrightarrow> re_dir env a = re_dir env b)"

lemma in_app_bundle_dir:
  assumes "path_parent (re_sep env) p = Some d" "path_parent (re_sep env) q = Some e" "to_ascii_lowercase d = to_ascii_lowercase e"
  shows "in_app_bundle (re_sep env) p = in_app_bundle (re_sep env) q"
proof -
  have lower: "map to_ascii_lowercase (path_parts (re_sep env) x) = path_parts (re_sep env) (to_ascii_lowercase x)" for x
    unfolding to_ascii_lowercase_def by (simp add: path_parts_map ascii_lower_sep)
  obtain u v where "path_parts (re_sep env) p = path_parts (re_sep env) d @ [u]" "path_parts (re_sep env) q = path_parts (re_sep env) e @ [v]"
    using path_parent_parts assms(1,2) by metis
  then show ?thesis by (simp add: in_app_bundle_def lower assms(3) bundle_in_last)
qed

lemma path_join_lower:
  "to_ascii_lowercase (path_join (re_join env) a b) = path_join (re_join env) (to_ascii_lowercase a) (to_ascii_lowercase b)"
proof (cases a rule: rev_cases)
  case (snoc ys y)
  have "map ascii_lower_char [re_join env] = [re_join env]" by (simp add: re_join_def ascii_lower_char_def backslash_def)
  then show ?thesis by (simp add: snoc path_join_def to_ascii_lowercase_def ascii_lower_join)
qed (simp add: path_join_def to_ascii_lowercase_def)

lemma marker_dirs_lower:
  assumes "path_parent (re_sep env) p = Some d" "path_parent (re_sep env) q = Some e" "to_ascii_lowercase d = to_ascii_lowercase e"
  shows "map to_ascii_lowercase (marker_dirs env p) = map to_ascii_lowercase (marker_dirs env q)"
proof -
  have parent: "map_option to_ascii_lowercase (path_parent (re_sep env) x) = path_parent (re_sep env) (to_ascii_lowercase x)" for x
    unfolding to_ascii_lowercase_def by (simp add: path_parent_map ascii_lower_sep)
  have "map_option to_ascii_lowercase (path_parent (re_sep env) d) = map_option to_ascii_lowercase (path_parent (re_sep env) e)"
    by (simp add: parent assms(3))
  then show ?thesis using assms in_app_bundle_dir [OF assms]
    by (cases "path_parent (re_sep env) d"; cases "path_parent (re_sep env) e") (simp_all add: marker_dirs_def path_join_lower)
qed

lemma marker_on_disk_dir:
  assumes "disk_ignores_case env" "path_parent (re_sep env) p = Some d" "path_parent (re_sep env) q = Some e"
    "to_ascii_lowercase d = to_ascii_lowercase e"
  shows "marker_on_disk env p = marker_on_disk env q"
proof -
  let ?hit = "\<lambda>dir. case re_dir env dir of None \<Rightarrow> False | Some entries \<Rightarrow> list_ex is_marker entries"
  have "list_ex ?hit xs = list_ex ?hit ys" if "map to_ascii_lowercase xs = map to_ascii_lowercase ys" for xs ys
    using that
  proof (induction xs arbitrary: ys)
    case (Cons x xs)
    then obtain y ys' where y: "ys = y # ys'" "to_ascii_lowercase x = to_ascii_lowercase y" "map to_ascii_lowercase xs = map to_ascii_lowercase ys'"
      by (cases ys) auto
    have "re_dir env x = re_dir env y" using assms(1) y(2) unfolding disk_ignores_case_def by blast
    then show ?case using Cons.IH [OF y(3)] by (simp add: y(1))
  qed simp
  from this [OF marker_dirs_lower [OF assms(2-4)]] show ?thesis by (simp add: marker_on_disk_def)
qed

definition cache_ok :: "resolve_env \<Rightarrow> (string \<times> bool) list \<Rightarrow> bool" where
  "cache_ok env cache \<longleftrightarrow>
     (\<forall>p dir hit. path_parent (re_sep env) p = Some dir \<longrightarrow> map_of cache (to_ascii_lowercase dir) = Some hit \<longrightarrow>
        hit = marker_on_disk env p)"

lemma has_engine_marker_spec:
  assumes "disk_ignores_case env" "cache_ok env cache"
  shows "fst (has_engine_marker env p cache) = marker_on_disk env p \<and> cache_ok env (snd (has_engine_marker env p cache))"
proof (cases "path_parent (re_sep env) p")
  case None
  then show ?thesis using assms(2) by (simp add: has_engine_marker_def marker_on_disk_def marker_dirs_def)
next
  case (Some dir)
  show ?thesis
  proof (cases "map_of cache (to_ascii_lowercase dir)")
    case None
    have "cache_ok env (AList.update (to_ascii_lowercase dir) (marker_on_disk env p) cache)"
      unfolding cache_ok_def
    proof (intro allI impI)
      fix q e hit
      assume q: "path_parent (re_sep env) q = Some e"
        and hit: "map_of (AList.update (to_ascii_lowercase dir) (marker_on_disk env p) cache) (to_ascii_lowercase e) = Some hit"
      show "hit = marker_on_disk env q"
      proof (cases "to_ascii_lowercase e = to_ascii_lowercase dir")
        case True
        then show ?thesis using hit marker_on_disk_dir [OF assms(1) Some q] by (simp add: update_conv')
      next
        case False
        then show ?thesis using hit q assms(2) by (simp add: update_conv' cache_ok_def)
      qed
    qed
    then show ?thesis by (simp add: has_engine_marker_def Some None Let_def)
  next
    case (Some hit)
    then show ?thesis using assms(2) \<open>path_parent (re_sep env) p = Some dir\<close>
      by (auto simp: has_engine_marker_def cache_ok_def)
  qed
qed

definition resolve_plain :: "resolve_env \<Rightarrow> raw_process \<Rightarrow> matched option" where
  "resolve_plain env p =
     (case named_game env p of
        Some g \<Rightarrow> Some g
      | None \<Rightarrow>
          if (case plain_verdict env p of Some verdict \<Rightarrow> verdict | None \<Rightarrow> marker_on_disk env (rp_path p))
          then Some (provisional_game env p) else None)"

lemma note_unresolved_cache [simp]: "rm_cache (note_unresolved env hp w now exe path name m) = rm_cache m"
  by (simp add: note_unresolved_def Let_def)

lemma resolve_process_spec:
  assumes "disk_ignores_case env" "cache_ok env (rm_cache m)"
  shows "fst (resolve_process env hp w now p m) = resolve_plain env p \<and> cache_ok env (rm_cache (snd (resolve_process env hp w now p m)))"
  using has_engine_marker_spec [OF assms, of "rp_path p"] assms(2)
  by (auto simp: resolve_process_def resolve_plain_def looks_like_a_game_def Let_def split: option.split prod.split)

lemma resolve_all_spec:
  assumes "disk_ignores_case env" "cache_ok env (rm_cache m)"
  shows "fst (resolve_all env hp now ps m) = map (resolve_plain env) (map fst ps) \<and>
    cache_ok env (rm_cache (snd (resolve_all env hp now ps m)))"
  using assms(2)
proof (induction ps arbitrary: m)
  case (Cons q ps)
  obtain p w where q: "q = (p, w)" by (cases q)
  obtain r m1 where r: "resolve_process env hp w now p m = (r, m1)" by fastforce
  obtain rs m2 where rs: "resolve_all env hp now ps m1 = (rs, m2)" by fastforce
  have "r = resolve_plain env p" "cache_ok env (rm_cache m1)"
    using resolve_process_spec [OF assms(1) Cons.prems, of hp w now p] r by simp_all
  then show ?case using Cons.IH [of m1] rs r by (simp add: q)
qed simp

definition fresh_memory :: "(string \<times> unresolved_entry) list option \<Rightarrow> resolve_memory" where
  "fresh_memory tally = \<lparr>rm_cache = [], rm_seen = [], rm_tally = tally\<rparr>"

text \<open>Every scan of a run, in order.\<close>

fun resolve_scans :: "resolve_env \<Rightarrow> bool \<Rightarrow> (int \<times> (raw_process \<times> (string \<times> unresolved_entry) list write_outcome) list) list \<Rightarrow>
    resolve_memory \<Rightarrow> matched option list list \<times> resolve_memory" where
  "resolve_scans env hp [] m = ([], m)"
| "resolve_scans env hp ((now, ps) # ss) m =
     (case resolve_all env hp now ps m of
        (rs, m1) \<Rightarrow> (case resolve_scans env hp ss m1 of (rss, m2) \<Rightarrow> (rs # rss, m2)))"

lemma resolve_scans_spec:
  assumes "disk_ignores_case env" "cache_ok env (rm_cache m)"
  shows "fst (resolve_scans env hp ss m) = map (\<lambda>(now, ps). map (resolve_plain env) (map fst ps)) ss"
  using assms(2)
proof (induction ss arbitrary: m)
  case (Cons s ss)
  obtain now ps where s: "s = (now, ps)" by (cases s)
  obtain rs m1 where rs: "resolve_all env hp now ps m = (rs, m1)" by fastforce
  obtain rss m2 where rss: "resolve_scans env hp ss m1 = (rss, m2)" by fastforce
  have "rs = map (resolve_plain env) (map fst ps)" "cache_ok env (rm_cache m1)"
    using resolve_all_spec [OF assms(1) Cons.prems, of hp now ps] rs by simp_all
  then show ?case using Cons.IH [of m1] rss rs by (simp add: s)
qed simp

lemma detect_games_plain:
  "detect_games f processes now = detect_games g processes now" if "map f processes = map g processes"
  using that by (auto simp: detect_games_def List.map_filter_def intro!: filter_cong map_cong)


definition unity_env :: resolve_env where
  "unity_env = \<lparr>re_head = None, re_index = None, re_library = [],
     re_dir = (\<lambda>d. if to_ascii_lowercase d = ''/g'' then Some [''UnityPlayer.dll''] else None),
     re_windows = False, re_lower = to_ascii_lowercase, re_upper = (\<lambda>c. c)\<rparr>"

definition unity_process :: raw_process where
  "unity_process = \<lparr>rp_pid = 4, rp_name = ''n'', rp_exe = ''ns.exe'', rp_is_fullscreen = False, rp_path = ''/G/ns.exe'',
     rp_window_title = ''Night'', rp_is_foreground = True, rp_started_at_ms = 1, rp_is_minimized = False\<rparr>"

lemma unity_verdict: "plain_verdict unity_env unity_process = None"
  by code_simp

lemma unity_marker: "marker_on_disk unity_env (rp_path unity_process)"
  by code_simp


section \<open>The provisional id\<close>

definition id_words :: "string \<Rightarrow> string list" where
  "id_words s = filter (\<lambda>w. w \<noteq> []) (split_on (\<lambda>c. \<not> ascii_alphanumeric c) (to_ascii_lowercase s))"

definition dashed :: "string list \<Rightarrow> string" where
  "dashed ws = concat (map (\<lambda>w. ''-'' @ w) ws)"

lemma trim_dash: "trim_end_matches ''-'' s = rev (dropWhile (\<lambda>c. c = CHR ''-'') (rev s))"
proof (induction "''-''" s rule: trim_end_matches.induct)
  case (1 s)
  show ?case
  proof (cases s rule: rev_cases)
    case Nil
    then show ?thesis by (simp add: trim_end_matches.simps ends_with_def)
  next
    case (snoc a c)
    then show ?thesis using 1 by (subst trim_end_matches.simps) (simp add: ends_with_def)
  qed
qed

lemma trim_dash_simps [simp]:
  "trim_end_matches ''-'' [] = []" "trim_end_matches ''-'' (s @ ''-'') = trim_end_matches ''-'' s"
  "c \<noteq> CHR ''-'' \<Longrightarrow> trim_end_matches ''-'' (s @ [c]) = s @ [c]"
  by (simp_all add: trim_dash)

lemma dash_plain: "\<not> ascii_alphanumeric (CHR ''-'')"
  by code_simp

lemma slug_loop_words:
  fixes s acc defines "ps \<equiv> split_on (\<lambda>c. \<not> ascii_alphanumeric c) (to_ascii_lowercase s)"
  shows "acc \<noteq> [] \<Longrightarrow> last acc \<noteq> CHR ''-'' \<Longrightarrow>
      trim_end_matches ''-'' (slug_loop s acc False) = acc @ hd ps @ dashed (filter (\<lambda>w. w \<noteq> []) (tl ps))"
    and "acc \<noteq> [] \<Longrightarrow> last acc \<noteq> CHR ''-'' \<Longrightarrow>
      trim_end_matches ''-'' (slug_loop s (acc @ ''-'') True) = acc @ dashed (id_words s)"
    and "trim_end_matches ''-'' (slug_loop s [] True) = drop 1 (dashed (id_words s))"
  unfolding ps_def
proof (induction s arbitrary: acc)
  case Nil
  {
    case 1
    then show ?case by (cases acc rule: rev_cases) (simp_all add: to_ascii_lowercase_def dashed_def)
  next
    case 2
    then show ?case by (cases acc rule: rev_cases) (simp_all add: to_ascii_lowercase_def dashed_def id_words_def trim_dash)
  next
    case 3
    show ?case by (simp add: to_ascii_lowercase_def dashed_def id_words_def)
  }
next
  case (Cons c s)
  define d where "d = ascii_lower_char c"
  have d: "ascii_alphanumeric d \<Longrightarrow> d \<noteq> CHR ''-''" using dash_plain by auto
  have low: "to_ascii_lowercase (c # s) = d # to_ascii_lowercase s" by (simp add: to_ascii_lowercase_def d_def)
  have step: "slug_loop (c # s) a ld = (if ascii_alphanumeric d then slug_loop s (a @ [d]) False
      else if \<not> ld then slug_loop s (a @ ''-'') True else slug_loop s a ld)" for a ld by (simp add: d_def Let_def)
  let ?ps = "split_on (\<lambda>c. \<not> ascii_alphanumeric c) (to_ascii_lowercase s)"
  have parts: "split_on (\<lambda>c. \<not> ascii_alphanumeric c) (to_ascii_lowercase (c # s)) =
      (if ascii_alphanumeric d then (d # hd ?ps) # tl ?ps else [] # ?ps)"
    unfolding low by (cases ?ps) simp_all
  have words: "id_words (c # s) = (if ascii_alphanumeric d then (d # hd ?ps) # filter (\<lambda>w. w \<noteq> []) (tl ?ps) else id_words s)"
    unfolding id_words_def parts by simp
  {
    case 1
    then show ?case using Cons.IH(1) [of "acc @ [d]"] Cons.IH(2) [of acc] d
      by (simp add: step parts del: slug_loop.simps) (simp add: id_words_def)
  next
    case 2
    then show ?case using Cons.IH(1) [of "acc @ ''-'' @ [d]"] Cons.IH(2) [of acc] d
      by (simp add: step words dashed_def del: slug_loop.simps)
  next
    case 3
    show ?case using Cons.IH(1) [of "[d]"] Cons.IH(3) d
      by (simp add: step words dashed_def del: slug_loop.simps)
  }
qed

text \<open>A provisional id is \<open>local-\<close> and the words of the executable's stem in lower case, joined by single
  dashes; a stem without an ASCII letter or digit is \<open>local-game\<close>. So the folder, the case and the punctuation
  of the stem do not matter, and two players of one unknown game agree.\<close>

theorem provisional_id_is_its_words:
  fixes exe defines "stem \<equiv> exe_stem (last (split_on (\<lambda>c. c = backslash \<or> c = CHR ''/'') exe))"
  shows "provisional_game_id exe = (if id_words stem = [] then ''local-game'' else ''local'' @ dashed (id_words stem))"
proof (cases "id_words stem")
  case Nil
  then show ?thesis by (simp add: provisional_game_id_def stem_def [symmetric] slug_loop_words(3) dashed_def Let_def)
next
  case (Cons w ws)
  have "w \<in> set (id_words stem)" by (simp add: Cons)
  then have "w \<noteq> []" by (simp add: id_words_def)
  with Cons show ?thesis by (simp add: provisional_game_id_def stem_def [symmetric] slug_loop_words(3) dashed_def Let_def)
qed

text \<open>Two different unknown games whose names have no ASCII letter or digit are one game to the sensor.\<close>

lemma names_outside_ascii_collide:
  assumes "list_all (\<lambda>c. \<not> ascii_alphanumeric (ascii_lower_char c)) (exe_stem (last (split_on (\<lambda>c. c = backslash \<or> c = CHR ''/'') exe)))"
  shows "provisional_game_id exe = ''local-game''"
proof -
  have "slug_loop s [] True = []" if "list_all (\<lambda>c. \<not> ascii_alphanumeric (ascii_lower_char c)) s" for s
    using that by (induction s) simp_all
  from this [OF assms] show ?thesis by (simp add: provisional_game_id_def)
qed


section \<open>The tally\<close>

definition tally_ok :: "(string \<times> unresolved_entry) list \<Rightarrow> bool" where
  "tally_ok es \<longleftrightarrow> length es \<le> max_tally_entries \<and> sorted_wrt (<) (map fst es)"

definition times_seen :: "string \<Rightarrow> (string \<times> unresolved_entry) list \<Rightarrow> nat" where
  "times_seen key es = (case map_of es key of None \<Rightarrow> 0 | Some e \<Rightarrow> ue_seen e)"

lemma tree_update_keys: "set (map fst (tree_update k v m)) = insert k (set (map fst m))"
  by (induction k v m rule: tree_update.induct) auto

lemma tree_update_sorted: "sorted_wrt (<) (map fst m) \<Longrightarrow> sorted_wrt (<) (map fst (tree_update k v m))"
proof (induction k v m rule: tree_update.induct)
  case (2 k v k' v' m)
  have "\<forall>x \<in> set (map fst (tree_update k v m)). k' < x" if "k' < k"
    using "2.prems" that tree_update_keys [of k v m] by auto
  then show ?case using 2 by (auto dest: order.strict_trans)
qed simp

lemma tree_update_map_of: "sorted_wrt (<) (map fst m) \<Longrightarrow> map_of (tree_update k v m) = (map_of m)(k \<mapsto> v)"
proof (induction k v m rule: tree_update.induct)
  case (2 k v k' v' m)
  then show ?case by (auto simp: fun_eq_iff)
qed simp

lemma tree_update_length: "length (tree_update k v m) \<le> Suc (length m)"
  by (induction k v m rule: tree_update.induct) auto

lemma first_min_mem: "first_min f xs = Some x \<Longrightarrow> x \<in> set xs"
  by (induction xs arbitrary: x) (auto split: option.splits if_splits)

lemma first_min_least: "first_min f xs = Some x \<Longrightarrow> y \<in> set xs \<Longrightarrow> f x \<le> f y"
proof (induction xs arbitrary: x y)
  case (Cons z xs)
  show ?case
  proof (cases "first_min f xs")
    case None
    then have "xs = []" by (cases xs) (auto split: option.splits)
    then show ?thesis using Cons.prems by simp
  next
    case (Some w)
    then show ?thesis using Cons by (auto split: if_splits) (meson order.trans less_imp_le not_less)+
  qed
qed simp

lemma first_min_None: "first_min f xs = None \<longleftrightarrow> xs = []"
  by (cases xs) (auto split: option.splits)

lemma delete_shorter: "k \<in> fst ` set m \<Longrightarrow> length (AList.delete k m) < length m"
  by (induction m) (auto simp: le_imp_less_Suc length_delete_le)

lemma delete_sorted: "sorted_wrt (<) (map fst m) \<Longrightarrow> sorted_wrt (<) (map fst (AList.delete k m))"
  by (induction m) (auto simp: delete_keys)

lemma tally_entries_ok:
  assumes "tally_ok es"
  shows "tally_ok (tally_entries lower exe path name now es)"
    and "times_seen key (tally_entries lower exe path name now es) \<le> times_seen key es + of_bool (key = lower exe)"
proof -
  define old where "old = (case map_of es (lower exe) of Some e \<Rightarrow> e
      | None \<Rightarrow> \<lparr>ue_exe = exe, ue_folder = folder_of path, ue_name = name, ue_seen = 0, ue_last_seen_ms = now\<rparr>)"
  define new where "new = tree_update (lower exe) (old\<lparr>ue_seen := sat_add u32_max (ue_seen old) 1, ue_last_seen_ms := now\<rparr>) es"
  define f where "f = (\<lambda>(_ :: string, e :: unresolved_entry). (ue_seen e, ue_last_seen_ms e))"
  have sorted: "sorted_wrt (<) (map fst new)" using assms by (simp add: new_def tally_ok_def tree_update_sorted)
  have "length new \<le> Suc (length es)" unfolding new_def by (rule tree_update_length)
  then have len: "length new \<le> Suc max_tally_entries" using assms by (simp add: tally_ok_def)
  have seen: "times_seen key new \<le> times_seen key es + of_bool (key = lower exe)"
    using assms by (auto simp: new_def tally_ok_def tree_update_map_of times_seen_def old_def sat_add_def split: option.split)
  have result: "tally_entries lower exe path name now es =
      (if length new > max_tally_entries then case first_min f new of None \<Rightarrow> new | Some (worst, _) \<Rightarrow> AList.delete worst new else new)"
    by (simp only: tally_entries_def old_def new_def f_def Let_def)
  consider "length new \<le> max_tally_entries" | worst e where "length new > max_tally_entries" "first_min f new = Some (worst, e)"
    using first_min_None [of f new] by (cases "first_min f new"; cases "length new \<le> max_tally_entries") auto
  then have "tally_ok (tally_entries lower exe path name now es) \<and>
      times_seen key (tally_entries lower exe path name now es) \<le> times_seen key new"
  proof cases
    case 1
    then show ?thesis using sorted by (simp add: result tally_ok_def)
  next
    case 2
    have "length (AList.delete worst new) < length new"
      using first_min_mem [OF 2(2)] by (intro delete_shorter) force
    then show ?thesis using 2 len sorted
      by (auto simp: result tally_ok_def delete_sorted times_seen_def delete_conv' split: option.split)
  qed
  then show "tally_ok (tally_entries lower exe path name now es)"
    "times_seen key (tally_entries lower exe path name now es) \<le> times_seen key es + of_bool (key = lower exe)"
    using seen by simp_all
qed

abbreviation note_run :: "resolve_env \<Rightarrow> (int \<times> string \<times> string \<times> string) list \<Rightarrow> resolve_memory \<Rightarrow> resolve_memory" where
  "note_run env xs m \<equiv> fold (\<lambda>(now, exe, path, name). note_unresolved env True Written now exe path name) xs m"

lemma note_run_ok:
  assumes "rm_tally m = Some es" "tally_ok es"
  shows "\<exists>es'. rm_tally (note_run env xs m) = Some es' \<and> tally_ok es' \<and>
    (\<forall>key. times_seen key es' \<le> times_seen key es + of_bool (key \<notin> set (rm_seen m)))"
  using assms
proof (induction xs arbitrary: m es)
  case (Cons x xs)
  obtain now exe path name where x: "x = (now, exe, path, name)" by (cases x)
  show ?case
  proof (cases "re_lower env exe \<in> set (rm_seen m)")
    case True
    then show ?thesis using Cons by (simp add: x note_unresolved_def)
  next
    case False
    define es1 where "es1 = tally_entries (re_lower env) exe path name now es"
    define m1 where "m1 = m\<lparr>rm_seen := re_lower env exe # rm_seen m, rm_tally := Some es1\<rparr>"
    have m1: "note_unresolved env True Written now exe path name m = m1"
      using False Cons.prems by (simp add: note_unresolved_def tally_record_def m1_def es1_def)
    have ok: "tally_ok es1" "times_seen key es1 \<le> times_seen key es + of_bool (key = re_lower env exe)" for key
      unfolding es1_def by (rule tally_entries_ok [OF Cons.prems(2)])+
    obtain es' where es': "rm_tally (note_run env xs m1) = Some es'" "tally_ok es'"
      "\<And>key. times_seen key es' \<le> times_seen key es1 + of_bool (key \<notin> set (rm_seen m1))"
      using Cons.IH [of m1 es1] ok(1) by (auto simp: m1_def)
    have "times_seen key es' \<le> times_seen key es + of_bool (key \<notin> set (rm_seen m))" for key
      using es'(3) [of key] ok(2) [of key] False by (cases "key = re_lower env exe") (auto simp: m1_def)
    then show ?thesis using es' by (simp add: x m1)
  qed
qed simp

text \<open>The tally of games without a name stays bounded and counts runs: whatever a run meets, in any order and
  as often as it likes, the file keeps at most 200 entries, sorted by executable with each once, and
  no executable counts more than once for the run.\<close>

theorem tally_counts_runs:
  assumes "tally_ok es"
  shows "\<exists>es'. rm_tally (note_run env xs (fresh_memory (Some es))) = Some es' \<and> length es' \<le> 200 \<and>
    sorted_wrt (<) (map fst es') \<and> (\<forall>key. times_seen key es' \<le> times_seen key es + 1)"
  using note_run_ok [of "fresh_memory (Some es)" es env xs] assms
  by (auto simp: fresh_memory_def tally_ok_def max_tally_entries_def)

lemma tally_counts_runs_witness:
  "\<exists>es'. rm_tally (note_run unity_env [(1, ''A'', ''/g/a'', ''A''), (2, ''a'', ''/g/a'', ''A'')] (fresh_memory (Some []))) = Some es' \<and>
    times_seen ''a'' es' \<le> 1"
  using tally_counts_runs [of "[]" unity_env "[(1, ''A'', ''/g/a'', ''A''), (2, ''a'', ''/g/a'', ''A'')]"]
  by (auto simp: tally_ok_def times_seen_def)

text \<open>
  A full tally whose entries were all seen twice takes in nothing new: the entry just made is the least
  seen and goes at once, in this run and in every later one.
\<close>

lemma full_tally_learns_nothing:
  assumes "length es = 200" "sorted_wrt (<) (map fst es)" "\<forall>(k, e) \<in> set es. 2 \<le> ue_seen e" "lower exe \<notin> fst ` set es"
  shows "tally_entries lower exe path name now es = es"
proof -
  define v where "v = \<lparr>ue_exe = exe, ue_folder = folder_of path, ue_name = name, ue_seen = 1, ue_last_seen_ms = now\<rparr>"
  define new where "new = tree_update (lower exe) v es"
  let ?f = "\<lambda>(_ :: string, e :: unresolved_entry). (ue_seen e, ue_last_seen_ms e)"
  have none: "map_of es (lower exe) = None" using assms(4) by (simp add: map_of_eq_None_iff)
  have elems: "set new = insert (lower exe, v) (set es)" and len: "length new = Suc (length es)" and del: "AList.delete (lower exe) new = es"
    using assms(4) unfolding new_def
    by (induction "lower exe" v es rule: tree_update.induct) (auto simp: delete_idem)
  obtain m where m: "first_min ?f new = Some m" using first_min_None [of ?f new] len by (cases "first_min ?f new") auto
  have "m \<in> set new" "?f m \<le> ?f (lower exe, v)" using first_min_mem [OF m] first_min_least [OF m] elems by auto
  then have "m = (lower exe, v)" using elems assms(3) by (auto simp: v_def less_eq_prod_def split: prod.splits)
  then show ?thesis using len m del assms(1)
    by (simp add: tally_entries_def none new_def v_def sat_add_def u32_max_def max_tally_entries_def Let_def)
qed


end
