(* ===== verification/Log_Tail.thy ===== *)
theory Log_Tail
  imports Utf8_Text
begin

text \<open>
  The thread that follows a log file (\<open>telemetry/log_tail.rs\<close>). What the file system shows at one
  poll is an argument: the path that is resolved, which file a path opens, the length that the
  metadata of a path tell, and the bytes of an opened file, which stays the same file when its path
  is taken by another one.
\<close>

datatype tail_start = Start_end | Start_beginning

record tail_view =
  tv_resolved :: "string option"
  tv_open :: "string \<Rightarrow> nat option"
  tv_len :: "string \<Rightarrow> nat option"
  tv_bytes :: "nat \<Rightarrow> nat list"

text \<open>The open file, where its reader stands, and the position the thread counts.\<close>

record tail_file =
  tf_path :: string
  tf_id :: nat
  tf_offset :: nat
  tf_pos :: nat

record tailer =
  tl_current :: "tail_file option"
  tl_caught_up :: bool

definition tailer_new :: tailer where
  "tailer_new = \<lparr>tl_current = None, tl_caught_up = False\<rparr>"

definition tail_reopen :: "tail_start \<Rightarrow> tail_view \<Rightarrow> tail_file option \<Rightarrow> tail_file option" where
  "tail_reopen start v current =
     (case (current, tv_resolved v) of
        (None, Some path) \<Rightarrow>
          map_option (\<lambda>f.
            let len = length (tv_bytes v f)
            in case start of
                 Start_end \<Rightarrow> \<lparr>tf_path = path, tf_id = f, tf_offset = len, tf_pos = len\<rparr>
               | Start_beginning \<Rightarrow> \<lparr>tf_path = path, tf_id = f, tf_offset = 0, tf_pos = 0\<rparr>) (tv_open v path)
      | (Some tf, Some new_path) \<Rightarrow>
          let moved = (tf_path tf \<noteq> new_path);
              shrank = (case tv_len v (tf_path tf) of None \<Rightarrow> True | Some n \<Rightarrow> n < tf_pos tf)
          in if moved \<or> shrank
             then map_option (\<lambda>f. \<lparr>tf_path = new_path, tf_id = f, tf_offset = 0, tf_pos = 0\<rparr>) (tv_open v new_path)
             else Some tf
      | _ \<Rightarrow> current)"

text \<open>
  The lines from the reader's position on. \<open>read_line\<close> takes the bytes up to a line break or the end;
  bytes that are no UTF-8 are an error, and they are taken all the same. \<open>left\<close> is how many more
  lines are fed before the thread is told to stop, if it is.
\<close>

definition line_bytes :: "nat list \<Rightarrow> nat list" where
  "line_bytes rest = takeWhile (\<lambda>b. b \<noteq> 10) rest @ take 1 (dropWhile (\<lambda>b. b \<noteq> 10) rest)"

lemma line_bytes_pos [simp]: "rest \<noteq> [] \<Longrightarrow> line_bytes rest \<noteq> []"
  by (cases rest) (auto simp: line_bytes_def)

function read_lines :: "nat option \<Rightarrow> nat list \<Rightarrow> nat \<Rightarrow> nat \<Rightarrow> string list \<times> nat \<times> nat \<times> bool" where
  "read_lines left rest offset pos =
     (if rest = [] then ([], offset, pos, False)
      else
        let l = line_bytes rest; n = length l
        in case utf8_text l of
             None \<Rightarrow> ([], offset + n, pos, False)
           | Some line \<Rightarrow>
               if last l \<noteq> 10 then ([], offset, pos, False)
               else if left = Some 0 then ([trim_end_text line], offset + n, pos + n, True)
               else case read_lines (map_option (\<lambda>k. k - 1) left) (drop n rest) (offset + n) (pos + n) of
                      (ls, offset', pos', stopped) \<Rightarrow> (trim_end_text line # ls, offset', pos', stopped))"
  by pat_completeness auto
termination
  by (relation "measure (\<lambda>(_, rest, _, _). length rest)") auto

declare read_lines.simps [simp del]

text \<open>One turn of the loop: the lines fed, whether the adapter is told that history is read, whether the thread ends.\<close>

definition tail_poll :: "tail_start \<Rightarrow> nat option \<Rightarrow> tail_view \<Rightarrow> tailer \<Rightarrow> string list \<times> bool \<times> bool \<times> tailer" where
  "tail_poll start left v t =
     (case tail_reopen start v (tl_current t) of
        None \<Rightarrow> ([], False, False, t\<lparr>tl_current := None\<rparr>)
      | Some tf \<Rightarrow>
          (case read_lines left (drop (tf_offset tf) (tv_bytes v (tf_id tf))) (tf_offset tf) (tf_pos tf) of
             (ls, offset, pos, stopped) \<Rightarrow>
               let t1 = t\<lparr>tl_current := Some (tf\<lparr>tf_offset := offset, tf_pos := pos\<rparr>)\<rparr>
               in if stopped then (ls, False, True, t1)
                  else (ls, \<not> tl_caught_up t, False, t1\<lparr>tl_caught_up := True\<rparr>)))"

text \<open>Polls of a thread that goes on: the lines of each poll with the call that history is read, in order.\<close>

fun tail_polls :: "tail_start \<Rightarrow> tail_view list \<Rightarrow> tailer \<Rightarrow> (string list \<times> bool) list \<times> tailer" where
  "tail_polls start [] t = ([], t)"
| "tail_polls start (v # vs) t =
     (case tail_poll start None v t of
        (ls, caught, _, t1) \<Rightarrow> (case tail_polls start vs t1 of (out, t2) \<Rightarrow> ((ls, caught) # out, t2)))"

section \<open>Lines and bytes\<close>

definition whole_lines :: "nat list \<Rightarrow> string list" where
  "whole_lines bs = map (\<lambda>l. trim_end_text (map char_of l)) (butlast (split_on (\<lambda>b. b = 10) bs))"

definition lines_valid :: "nat list \<Rightarrow> bool" where
  "lines_valid bs \<longleftrightarrow> list_all utf8_valid (split_on (\<lambda>b. b = 10) bs)"

text \<open>A line and what follows it, or a rest without a line break.\<close>

lemma line_cases:
  assumes "rest \<noteq> []"
  obtains a b where "rest = a @ 10 # b" "10 \<notin> set a" "line_bytes rest = a @ [10]"
  | "10 \<notin> set rest" "line_bytes rest = rest"
proof (cases "10 \<in> set rest")
  case True
  then obtain a b where "rest = a @ 10 # b" "10 \<notin> set a" by (meson split_list_first)
  moreover from this have "takeWhile (\<lambda>b. b \<noteq> 10) rest = a" "dropWhile (\<lambda>b. b \<noteq> 10) rest = 10 # b"
    by (induction a arbitrary: rest) auto
  then have "line_bytes rest = a @ [10]" by (simp add: line_bytes_def)
  ultimately show ?thesis using that(1) by blast
next
  case False
  then have "takeWhile (\<lambda>b. b \<noteq> 10) rest = rest" "dropWhile (\<lambda>b. b \<noteq> 10) rest = []"
    by (auto simp: takeWhile_eq_all_conv)
  with False that(2) show ?thesis by (simp add: line_bytes_def)
qed

lemma utf8_valid_newline: "utf8_valid l \<Longrightarrow> utf8_valid (l @ [10])"
proof (induction "length l" arbitrary: l rule: less_induct)
  case less
  show ?case
  proof (cases l)
    case (Cons a r)
    consider "a < 128" | "194 \<le> a" "a < 224" | "224 \<le> a" "a < 240" | "240 \<le> a" "a < 245"
      using less.prems Cons by (force split: if_splits)
    then show ?thesis
    proof cases
      case 1
      then show ?thesis using less Cons by simp
    next
      case 2
      then obtain b r' where "r = b # r'" "128 \<le> b" "b < 192" "utf8_valid r'" using less.prems Cons by (cases r) auto
      then show ?thesis using 2 less.hyps [of r'] Cons by simp
    next
      case 3
      then obtain b c r' where "r = b # c # r'" "(if a = 224 then 160 else 128) \<le> b" "b < (if a = 237 then 160 else 192)"
        "128 \<le> c" "c < 192" "utf8_valid r'" using less.prems Cons by (cases r; cases "tl r") auto
      then show ?thesis using 3 less.hyps [of r'] Cons by simp
    next
      case 4
      then obtain b c d r' where "r = b # c # d # r'" "(if a = 240 then 144 else 128) \<le> b" "b < (if a = 244 then 144 else 192)"
        "128 \<le> c" "c < 192" "128 \<le> d" "d < 192" "utf8_valid r'"
        using less.prems Cons by (cases r; cases "tl r"; cases "tl (tl r)") auto
      then show ?thesis using 4 less.hyps [of r'] Cons by simp
    qed
  qed simp
qed

lemma continuation_newline: "\<not> continuation (char_of (10 :: nat))"
  by (simp add: continuation_def)

lemma chars_newline: "chars (s @ [char_of (10 :: nat)]) = chars s @ [[char_of (10 :: nat)]]"
proof (induction s rule: chars.induct)
  case (2 c s)
  have "dropWhile continuation (s @ [char_of (10 :: nat)]) = dropWhile continuation s @ [char_of (10 :: nat)]"
    "takeWhile continuation (s @ [char_of (10 :: nat)]) = takeWhile continuation s"
    using continuation_newline by (induction s) auto
  then show ?case using 2 by simp
qed simp

lemma trim_end_newline: "trim_end_text (s @ [char_of (10 :: nat)]) = trim_end_text s"
proof -
  have "white_char [char_of (10 :: nat)]" by (simp add: white_char_def is_blank_def)
  then show ?thesis by (simp add: trim_end_text_def chars_newline)
qed


section \<open>Every line once\<close>

definition open_line :: "nat list \<Rightarrow> nat list" where
  "open_line bs = last (split_on (\<lambda>b. b = 10) bs)"

lemma split_on_grow: "split_on P (x @ y) = butlast (split_on P x) @ split_on P (last (split_on P x) @ y)"
proof (induction x)
  case (Cons c x)
  obtain p ps where p: "split_on P x = p # ps" by (cases "split_on P x") auto
  then show ?case using Cons by (cases ps) (auto split: list.split)
qed simp

lemma open_line_drop: "drop (length bs - length (open_line bs)) bs = open_line bs" "length (open_line bs) \<le> length bs"
proof -
  have "\<exists>a. bs = a @ open_line bs" unfolding open_line_def
  proof (induction bs)
    case (Cons c bs)
    obtain p ps where p: "split_on (\<lambda>b. b = 10) bs = p # ps" by (cases "split_on (\<lambda>b. b = 10) bs") auto
    obtain a where a: "bs = a @ last (p # ps)" using Cons p by auto
    show ?case
    proof (cases "c = 10")
      case True
      then show ?thesis using p a by (intro exI [of _ "c # a"]) simp
    next
      case False
      show ?thesis
      proof (cases ps)
        case Nil
        then have "split_on (\<lambda>b. b = 10) (c # bs) = [c # p]" using False p by simp
        moreover have "p = bs" using p Nil
        proof -
          have "concat (split_on (\<lambda>b. b = 10) bs) = filter (\<lambda>b. b \<noteq> 10) bs" for bs :: "nat list"
            by (induction bs) (auto split: list.split)
          moreover have "length (split_on (\<lambda>b. b = 10) bs) = Suc (length (filter (\<lambda>b. b = 10) bs))" for bs :: "nat list"
            by (induction bs) (auto split: list.split)
          ultimately show ?thesis using p Nil by (metis (mono_tags, lifting) One_nat_def concat.simps append_Nil2 filter_False filter_True
                length_0_conv length_Cons list.size(3) nat.inject filter_empty_conv)
        qed
        ultimately show ?thesis by (intro exI [of _ "[]"]) simp
      next
        case (Cons q qs)
        then show ?thesis using False p a by (intro exI [of _ "c # a"]) simp
      qed
    qed
  qed simp
  then obtain a where "bs = a @ open_line bs" by blast
  then show "drop (length bs - length (open_line bs)) bs = open_line bs" "length (open_line bs) \<le> length bs"
    by (metis append_eq_conv_conj diff_add_inverse2 length_append, metis length_append le_add2)
qed

lemma whole_lines_grow: "whole_lines (x @ y) = whole_lines x @ whole_lines (open_line x @ y)"
  by (simp add: whole_lines_def open_line_def split_on_grow [of _ x y] butlast_append)

lemma lines_valid_open: "lines_valid (x @ y) \<Longrightarrow> lines_valid (open_line x @ y)"
  by (simp add: lines_valid_def open_line_def split_on_grow [of _ x y])

lemma open_line_grow: "open_line (open_line x @ y) = open_line (x @ y)"
  by (simp add: open_line_def split_on_grow [of _ x y])

lemma read_lines_spec:
  assumes "lines_valid rest"
  shows "read_lines None rest offset pos =
    (whole_lines rest, offset + (length rest - length (open_line rest)), pos + (length rest - length (open_line rest)), False)"
  using assms
proof (induction "length rest" arbitrary: rest offset pos rule: less_induct)
  case less
  show ?case
  proof (cases "rest = []")
    case True
    then show ?thesis by (simp add: read_lines.simps whole_lines_def)
  next
    case False
    then show ?thesis
    proof (cases rule: line_cases)
      case (1 a b)
      have a: "split_on (\<lambda>b. b = 10) a = [a]" using 1(2) by (intro split_on_none) auto
      have split: "split_on (\<lambda>b. b = 10) rest = a # split_on (\<lambda>b. b = 10) b" by (simp add: 1(1) split_on_append a)
      have ok: "utf8_valid a" "lines_valid b" using less.prems by (simp_all add: lines_valid_def split)
      have IH: "read_lines None b (offset + Suc (length a)) (pos + Suc (length a)) =
          (whole_lines b, offset + Suc (length a) + (length b - length (open_line b)),
           pos + Suc (length a) + (length b - length (open_line b)), False)"
        by (rule less.hyps) (use 1(1) ok in auto)
      have dr: "drop (Suc (length a)) rest = b" by (simp add: 1(1))
      have "utf8_text (a @ [10]) = Some (map char_of a @ [char_of (10 :: nat)])" using ok(1) by (simp add: utf8_text_def utf8_valid_newline)
      then have "read_lines None rest offset pos =
          (trim_end_text (map char_of a) # whole_lines b, offset + Suc (length a) + (length b - length (open_line b)),
           pos + Suc (length a) + (length b - length (open_line b)), False)"
        using False IH dr by (subst read_lines.simps) (simp add: 1(3) Let_def trim_end_newline)
      moreover have "whole_lines rest = trim_end_text (map char_of a) # whole_lines b" by (simp add: whole_lines_def split)
      moreover have "open_line rest = open_line b" by (simp add: open_line_def split)
      moreover have "length rest - length (open_line b) = Suc (length a) + (length b - length (open_line b))"
        using 1(1) open_line_drop(2) [of b] by simp
      ultimately show ?thesis by simp
    next
      case 2
      have split: "split_on (\<lambda>b. b = 10) rest = [rest]" using 2(1) by (intro split_on_none) auto
      then have ok: "utf8_valid rest" using less.prems by (simp add: lines_valid_def)
      have "last rest \<noteq> 10" using 2(1) False last_in_set [of rest] by metis
      then show ?thesis using False ok
        by (subst read_lines.simps) (simp add: 2(2) utf8_text_def whole_lines_def open_line_def split Let_def)
    qed
  qed
qed

text \<open>A file that stays in its place and only grows.\<close>

definition steady :: "string \<Rightarrow> nat \<Rightarrow> tail_view \<Rightarrow> bool" where
  "steady p f v \<longleftrightarrow> tv_resolved v = Some p \<and> tv_open v p = Some f \<and> tv_len v p = Some (length (tv_bytes v f))"

fun grows :: "nat \<Rightarrow> nat list \<Rightarrow> tail_view list \<Rightarrow> bool" where
  "grows f x [] \<longleftrightarrow> True"
| "grows f x (v # vs) \<longleftrightarrow> take (length x) (tv_bytes v f) = x \<and> grows f (tv_bytes v f) vs"

definition read_to :: "string \<Rightarrow> nat \<Rightarrow> nat \<Rightarrow> nat list \<Rightarrow> tail_file" where
  "read_to p f base x =
     (let n = base + (length (drop base x) - length (open_line (drop base x)))
      in \<lparr>tf_path = p, tf_id = f, tf_offset = n, tf_pos = n\<rparr>)"

lemma tail_poll_grown:
  assumes "tl_current t = Some (read_to p f base x)" "tl_caught_up t" "steady p f v" "take (length x) (tv_bytes v f) = x"
    "base \<le> length x" "lines_valid (drop base (tv_bytes v f))"
  obtains ls where "tail_poll start None v t = (ls, False, False, t\<lparr>tl_current := Some (read_to p f base (tv_bytes v f))\<rparr>)"
    "whole_lines (drop base (tv_bytes v f)) = whole_lines (drop base x) @ ls"
proof -
  obtain y where y: "tv_bytes v f = x @ y" using assms(4) by (metis append_take_drop_id)
  define d where "d = drop base x"
  have dy: "drop base (tv_bytes v f) = d @ y" using assms(5) by (simp add: y d_def)
  let ?n = "base + (length d - length (open_line d))"
  have le: "?n \<le> length x" using open_line_drop(2) [of d] assms(5) by (simp add: d_def)
  have "drop (length d - length (open_line d)) (d @ y) = open_line d @ y"
    using open_line_drop [of d] by simp
  then have rest: "drop ?n (tv_bytes v f) = open_line d @ y" by (simp add: dy [symmetric] add.commute)
  have keep: "tail_reopen start v (tl_current t) = Some (read_to p f base x)"
    using assms(1,3) le by (simp add: tail_reopen_def steady_def read_to_def Let_def d_def y)
  have ok: "lines_valid (open_line d @ y)" using assms(6) by (simp add: dy lines_valid_open)
  have len: "?n + (length (open_line d @ y) - length (open_line (open_line d @ y))) = base + (length (d @ y) - length (open_line (d @ y)))"
    using open_line_drop(2) [of d] open_line_drop(2) [of "open_line d @ y"] by (simp add: open_line_grow)
  have "tail_poll start None v t =
      (whole_lines (open_line d @ y), False, False, t\<lparr>tl_current := Some (read_to p f base (tv_bytes v f))\<rparr>)"
    unfolding tail_poll_def keep using assms(2) rest
    by (cases t) (simp add: read_to_def Let_def d_def [symmetric] read_lines_spec [OF ok] dy len [simplified])
  then show ?thesis using that dy whole_lines_grow [of d y] by (simp add: d_def)
qed

lemma tail_polls_grown:
  assumes "tl_current t = Some (read_to p f base x)" "tl_caught_up t" "\<forall>v \<in> set vs. steady p f v" "grows f x vs"
    "base \<le> length x" "\<forall>v \<in> set vs. lines_valid (drop base (tv_bytes v f))"
  shows "whole_lines (drop base x) @ concat (map fst (fst (tail_polls start vs t))) =
      whole_lines (drop base (last (x # map (\<lambda>v. tv_bytes v f) vs))) \<and>
    list_all (\<lambda>(ls, caught). \<not> caught) (fst (tail_polls start vs t))"
  using assms
proof (induction vs arbitrary: t x)
  case (Cons v vs)
  have st: "steady p f v" "take (length x) (tv_bytes v f) = x" "lines_valid (drop base (tv_bytes v f))" using Cons.prems by simp_all
  obtain ls where poll: "tail_poll start None v t = (ls, False, False, t\<lparr>tl_current := Some (read_to p f base (tv_bytes v f))\<rparr>)"
    "whole_lines (drop base (tv_bytes v f)) = whole_lines (drop base x) @ ls"
    by (rule tail_poll_grown [OF Cons.prems(1,2) st(1,2) Cons.prems(5) st(3)])
  let ?t = "t\<lparr>tl_current := Some (read_to p f base (tv_bytes v f))\<rparr>"
  have "length x \<le> length (tv_bytes v f)" using st(2) by (metis nat_le_linear take_all_iff length_take min.absorb2 min_def)
  then have "whole_lines (drop base (tv_bytes v f)) @ concat (map fst (fst (tail_polls start vs ?t))) =
      whole_lines (drop base (last (tv_bytes v f # map (\<lambda>v. tv_bytes v f) vs))) \<and>
    list_all (\<lambda>(ls, caught). \<not> caught) (fst (tail_polls start vs ?t))"
    by (intro Cons.IH) (use Cons.prems in auto)
  then show ?case using poll by (auto simp: split: prod.split)
qed simp

lemma tail_feeds:
  fixes vs start f
  defines "base \<equiv> (case start of Start_end \<Rightarrow> length (tv_bytes (hd vs) f) | Start_beginning \<Rightarrow> 0)"
  assumes "vs \<noteq> []" "\<forall>v \<in> set vs. steady p f v" "grows f (tv_bytes (hd vs) f) vs"
    "\<forall>v \<in> set vs. lines_valid (drop base (tv_bytes v f))"
  shows "concat (map fst (fst (tail_polls start vs tailer_new))) = whole_lines (drop base (tv_bytes (last vs) f)) \<and>
    hd (fst (tail_polls start vs tailer_new)) = (whole_lines (drop base (tv_bytes (hd vs) f)), True) \<and>
    list_all (\<lambda>(ls, caught). \<not> caught) (tl (fst (tail_polls start vs tailer_new)))"
proof -
  obtain v ws where vs: "vs = v # ws" using assms(2) by (cases vs) auto
  have base: "base = (case start of Start_end \<Rightarrow> length (tv_bytes v f) | Start_beginning \<Rightarrow> 0)" by (cases start) (simp_all add: base_def vs)
  then have le: "base \<le> length (tv_bytes v f)" by (cases start) auto
  have st: "steady p f v" "lines_valid (drop base (tv_bytes v f))" "grows f (tv_bytes v f) ws" using assms by (simp_all add: vs)
  have reopen: "tail_reopen start v None = Some \<lparr>tf_path = p, tf_id = f, tf_offset = base, tf_pos = base\<rparr>"
    using st(1) by (cases start) (simp_all add: tail_reopen_def steady_def base Let_def)
  let ?t = "\<lparr>tl_current = Some (read_to p f base (tv_bytes v f)), tl_caught_up = True\<rparr>"
  have first: "tail_poll start None v tailer_new = (whole_lines (drop base (tv_bytes v f)), True, False, ?t)"
    by (simp add: tail_poll_def tailer_new_def reopen read_lines_spec [OF st(2)] read_to_def Let_def)
  have "whole_lines (drop base (tv_bytes v f)) @ concat (map fst (fst (tail_polls start ws ?t))) =
      whole_lines (drop base (last (tv_bytes v f # map (\<lambda>v. tv_bytes v f) ws))) \<and>
    list_all (\<lambda>(ls, caught). \<not> caught) (fst (tail_polls start ws ?t))"
    by (rule tail_polls_grown) (use st assms le in \<open>auto simp: vs\<close>)
  moreover have "last (tv_bytes v f # map (\<lambda>v. tv_bytes v f) ws) = tv_bytes (last vs) f"
    by (simp add: vs last_map)
  ultimately show ?thesis
    by (cases "tail_polls start ws ?t"; cases "ws = []") (simp_all add: vs first)
qed

text \<open>C12: of a log that stays in its place and grows by whole characters, every line that gets its line break is
  fed exactly once, in order and complete, however the writes fall between the polls: from the first
  byte on, or from where the file ended when the thread found it. The adapter is told once that
  history is read, right after the lines that were there.\<close>

theorem tail_feeds_every_line_once:
  fixes vs start f
  defines "base \<equiv> (case start of Start_end \<Rightarrow> length (tv_bytes (hd vs) f) | Start_beginning \<Rightarrow> 0)"
  assumes "vs \<noteq> []" "\<forall>v \<in> set vs. steady p f v" "grows f (tv_bytes (hd vs) f) vs"
    "\<forall>v \<in> set vs. lines_valid (drop base (tv_bytes v f))"
  shows "concat (map fst (fst (tail_polls start vs tailer_new))) = whole_lines (drop base (tv_bytes (last vs) f)) \<and>
    hd (fst (tail_polls start vs tailer_new)) = (whole_lines (drop base (tv_bytes (hd vs) f)), True) \<and>
    list_all (\<lambda>(ls, caught). \<not> caught) (tl (fst (tail_polls start vs tailer_new)))"
  using assms(2-5) unfolding base_def by (rule tail_feeds)

text \<open>A file at \<open>''l''\<close>, its content the argument.\<close>

definition one_file :: "nat list \<Rightarrow> tail_view" where
  "one_file bs = \<lparr>tv_resolved = Some ''l'', tv_open = (\<lambda>p. if p = ''l'' then Some 0 else None),
     tv_len = (\<lambda>p. if p = ''l'' then Some (length bs) else None), tv_bytes = (\<lambda>_. bs)\<rparr>"

text \<open>\<open>a\<close>, a line break and a part of the next line, which the second poll completes.\<close>

lemma tail_feeds_every_line_once_witness:
  "map fst (fst (tail_polls Start_beginning [one_file [97, 10, 98], one_file [97, 10, 98, 99, 10]] tailer_new)) \<noteq> [] \<and>
   concat (map fst (fst (tail_polls Start_beginning [one_file [97, 10, 98], one_file [97, 10, 98, 99, 10]] tailer_new))) = [''a'', ''bc'']"
proof -
  let ?vs = "[one_file [97, 10, 98], one_file [97, 10, 98, 99, 10]]"
  have "whole_lines [97, 10, 98, 99, 10] = [''a'', ''bc'']" by code_simp
  moreover have "concat (map fst (fst (tail_polls Start_beginning ?vs tailer_new))) = whole_lines (drop 0 (tv_bytes (last ?vs) 0))"
    by (rule tail_feeds_every_line_once [of ?vs "''l''" 0 Start_beginning, THEN conjunct1, simplified tail_start.case])
      (simp_all add: steady_def one_file_def lines_valid_def)
  ultimately have "concat (map fst (fst (tail_polls Start_beginning ?vs tailer_new))) = [''a'', ''bc'']" by (simp add: one_file_def)
  then show ?thesis by auto
qed

text \<open>
  The condition on the characters is needed. When a poll sees the first byte of a character and not the
  second, \<open>read_line\<close> fails and has taken the bytes: the start of the line is gone, what comes after
  it is fed as a line of its own or, when it starts with the second byte, never.
\<close>

lemma torn_character_loses_line:
  "concat (map fst (fst (tail_polls Start_beginning [one_file [97, 195], one_file [97, 195, 169, 10]] tailer_new))) = []"
  "whole_lines [97, 195, 169, 10] \<noteq> []"
  by code_simp+


end
