(* ===== verification/Log_Adapters.thy ===== *)
theory Log_Adapters
  imports Game_Session Log_Tail
begin

text \<open>
  The adapters that follow a game's log (\<open>telemetry/poe_log.rs\<close>, \<open>roblox_log.rs\<close>,
  \<open>hearthstone_log.rs\<close>): what they make of each line. The time of a call is an argument, and so is the
  reading of an RFC 3339 stamp, which a crate does. What an adapter sends is the list of its events.
\<close>

section \<open>Path of Exile\<close>

definition poe_game_id :: string where "poe_game_id = ''path-of-exile''"

record poe_run =
  pr_zones_entered :: nat
  pr_last_zone :: string
  pr_character :: string
  pr_level :: nat
  pr_deaths :: nat
  pr_started_ms :: int

definition poe_run_new :: "int \<Rightarrow> poe_run" where
  "poe_run_new started =
     \<lparr>pr_zones_entered = 0, pr_last_zone = [], pr_character = [], pr_level = 0, pr_deaths = 0, pr_started_ms = started\<rparr>"

definition has_activity :: "poe_run \<Rightarrow> bool" where
  "has_activity r \<longleftrightarrow> pr_zones_entered r > 0 \<or> pr_level r > 0 \<or> pr_deaths r > 0"

text \<open>\<open>trim_end_matches\<close> with a character, the white space then taken off, and the number.\<close>

definition poe_level :: "string \<Rightarrow> nat option" where
  "poe_level rest = parse_u u32_max (trim_text (trim_end_matches ''.'' rest))"

definition poe_line :: "string \<Rightarrow> poe_run \<Rightarrow> poe_run" where
  "poe_line line r =
     (case split_second ''] : '' line of
        None \<Rightarrow> r
      | Some msg \<Rightarrow>
          (case Option.bind (strip_prefix ''You have entered '' msg) (strip_suffix ''.'') of
             Some zone \<Rightarrow> r\<lparr>pr_zones_entered := wrap_u u32_max (pr_zones_entered r + 1), pr_last_zone := zone\<rparr>
           | None \<Rightarrow>
               (case split_once '' is now level '' msg of
                  Some (who, rest) \<Rightarrow>
                    (case poe_level rest of
                       Some level \<Rightarrow> r\<lparr>pr_character := who, pr_level := max (pr_level r) level\<rparr>
                     | None \<Rightarrow> r)
                | None \<Rightarrow>
                    if ends_with msg ''has been slain.'' \<or> contains msg ''has been slain''
                    then r\<lparr>pr_deaths := wrap_u u32_max (pr_deaths r + 1)\<rparr> else r)))"

definition no_performance :: performance where
  "no_performance = \<lparr>pf_kills = None, pf_deaths = None, pf_assists = None, pf_mvps = None, pf_score = None, pf_damage = None,
     pf_healing = None, pf_goals = None, pf_saves = None, pf_shots = None, pf_cs = None\<rparr>"

definition poe_summarize :: "int \<Rightarrow> poe_run \<Rightarrow> match_result" where
  "poe_summarize now r =
     (let duration_sec = as_u32 (max (wrap_i64 (now - pr_started_ms r)) 0 div 1000)
      in \<lparr>mr_game_id = poe_game_id, mr_mode = ''run'', mr_map = pr_last_zone r, mr_result = Incomplete,
          mr_streak_eligible = False, mr_own_score = 0, mr_opp_score = 0,
          mr_performance = (if pr_deaths r > 0 then Some (no_performance\<lparr>pf_deaths := Some (pr_deaths r)\<rparr>) else None),
          mr_build = (if pr_character r \<noteq> []
             then Some \<lparr>bi_character = Some (if pr_level r > 0 then pr_character r @ '', level '' @ show_nat (pr_level r) else pr_character r),
               bi_deck_code = None, bi_items = []\<rparr> else None),
          mr_run = Some \<lparr>ri_stage_reached = (if pr_last_zone r \<noteq> [] then Some (pr_last_zone r) else None),
             ri_difficulty = None, ri_duration_sec = Some duration_sec\<rparr>,
          mr_source = Sq_live, mr_ts = now\<rparr>)"

record poe_adapter =
  pa_run :: poe_run
  pa_running :: bool
  pa_tx :: bool

definition poe_new :: poe_adapter where
  "poe_new = \<lparr>pa_run = poe_run_new 0, pa_running = False, pa_tx = False\<rparr>"

definition poe_start :: "int \<Rightarrow> poe_adapter \<Rightarrow> poe_adapter" where
  "poe_start now a = (if pa_running a then a else \<lparr>pa_run = poe_run_new now, pa_running = True, pa_tx = True\<rparr>)"

definition poe_feed :: "string \<Rightarrow> poe_adapter \<Rightarrow> poe_adapter" where
  "poe_feed line a = a\<lparr>pa_run := poe_line line (pa_run a)\<rparr>"

definition poe_reset :: "int \<Rightarrow> poe_adapter \<Rightarrow> telemetry_event list \<times> poe_adapter" where
  "poe_reset now a =
     (if pa_tx a \<and> has_activity (pa_run a) then [Match_ended (poe_summarize now (pa_run a))] else [],
      \<lparr>pa_run = poe_run_new 0, pa_running = False, pa_tx = False\<rparr>)"

section \<open>Roblox\<close>

definition roblox_game_id :: string where "roblox_game_id = ''roblox''"

definition apostrophe :: char where "apostrophe = CHR 0x27"

definition join_marker :: string where "join_marker = ''! Joining game '' @ [apostrophe]"
definition place_marker :: string where "place_marker = '' place ''"

definition leave_markers :: "string list" where
  "leave_markers = [''Disconnected from server for reason'', ''[DFLog::NetworkClient] Client:Disconnect'']"

datatype roblox_mark = Joined string int | Left_experience int

record roblox_state =
  rb_in_experience :: "(string \<times> int) option"
  rb_replaying :: bool

definition line_ts :: "(string \<Rightarrow> int option) \<Rightarrow> string \<Rightarrow> int option" where
  "line_ts stamp line = stamp (takeWhile (\<lambda>c. c \<noteq> CHR '','') line)"

definition roblox_mark_of :: "(string \<Rightarrow> int option) \<Rightarrow> int \<Rightarrow> string \<Rightarrow> roblox_mark option" where
  "roblox_mark_of stamp fallback_ts line =
     (let ts = (case line_ts stamp line of None \<Rightarrow> fallback_ts | Some t \<Rightarrow> t)
      in case split_second join_marker line of
           Some rest \<Rightarrow>
             (case split_second place_marker rest of
                None \<Rightarrow> None
              | Some after \<Rightarrow>
                  let place_id = takeWhile ascii_digit after
                  in if place_id = [] then None else Some (Joined place_id ts))
         | None \<Rightarrow> if list_ex (contains line) leave_markers then Some (Left_experience ts) else None)"

definition roblox_line :: "(string \<Rightarrow> int option) \<Rightarrow> int \<Rightarrow> string \<Rightarrow> roblox_state \<Rightarrow> telemetry_event list \<times> roblox_state" where
  "roblox_line stamp now line s =
     (case roblox_mark_of stamp now line of
        Some (Joined place_id ts) \<Rightarrow>
          (if \<not> rb_replaying s then [Activity_started roblox_game_id place_id ts] else [],
           s\<lparr>rb_in_experience := Some (place_id, ts)\<rparr>)
      | Some (Left_experience ts) \<Rightarrow>
          (if rb_in_experience s \<noteq> None \<and> \<not> rb_replaying s then [Activity_ended roblox_game_id ts] else [],
           s\<lparr>rb_in_experience := None\<rparr>)
      | None \<Rightarrow> ([], s))"

definition roblox_caught_up :: "roblox_state \<Rightarrow> telemetry_event list \<times> roblox_state" where
  "roblox_caught_up s =
     (case rb_in_experience s of
        Some (place_id, ts) \<Rightarrow> [Activity_started roblox_game_id place_id ts]
      | None \<Rightarrow> [],
      s\<lparr>rb_replaying := False\<rparr>)"

definition roblox_started :: roblox_state where
  "roblox_started = \<lparr>rb_in_experience = None, rb_replaying = True\<rparr>"

text \<open>What the thread makes of one poll of the log: the lines, each at its time, then the end of history.\<close>

fun roblox_lines :: "(string \<Rightarrow> int option) \<Rightarrow> (int \<times> string) list \<Rightarrow> roblox_state \<Rightarrow> telemetry_event list \<times> roblox_state" where
  "roblox_lines stamp [] s = ([], s)"
| "roblox_lines stamp ((now, line) # ls) s =
     (case roblox_line stamp now line s of
        (ev, s1) \<Rightarrow> (case roblox_lines stamp ls s1 of (evs, s2) \<Rightarrow> (ev @ evs, s2)))"

definition roblox_poll :: "(string \<Rightarrow> int option) \<Rightarrow> (int \<times> string) list \<times> bool \<Rightarrow> roblox_state \<Rightarrow> telemetry_event list \<times> roblox_state" where
  "roblox_poll stamp poll s =
     (case poll of (ls, caught) \<Rightarrow>
        (case roblox_lines stamp ls s of
           (evs, s1) \<Rightarrow> if caught then (case roblox_caught_up s1 of (ev, s2) \<Rightarrow> (evs @ ev, s2)) else (evs, s1)))"

text \<open>The files of the log folder, with the time each changed last, if it can be read; \<open>None\<close> when there is no folder.\<close>

definition is_player_log :: "string \<Rightarrow> bool" where
  "is_player_log name \<longleftrightarrow> contains name ''_Player_'' \<and> \<not> contains name ''CrashHandler'' \<and> ends_with name ''.log''"

definition newest_player_log :: "(string \<times> nat option) list option \<Rightarrow> string option" where
  "newest_player_log logs =
     Option.bind logs (\<lambda>entries. map_option snd
       (fold (\<lambda>(name, modified) newest.
          if \<not> is_player_log name then newest
          else case modified of
            None \<Rightarrow> newest
          | Some t \<Rightarrow> (case newest of None \<Rightarrow> Some (t, name) | Some (t0, n0) \<Rightarrow> if t > t0 then Some (t, name) else Some (t0, n0)))
        entries None))"

section \<open>Hearthstone\<close>

definition hs_game_id :: string where "hs_game_id = ''hearthstone''"

record hs_game =
  hs_started :: bool
  hs_friendly_player_id :: "nat option"
  hs_names :: "(nat \<times> string) list"
  hs_result_emitted :: bool

definition hs_game_new :: hs_game where
  "hs_game_new = \<lparr>hs_started = False, hs_friendly_player_id = None, hs_names = [], hs_result_emitted = False\<rparr>"

definition bracket_field :: "string \<Rightarrow> string \<Rightarrow> string option" where
  "bracket_field line key = map_option (takeWhile (\<lambda>c. c \<noteq> CHR '' '' \<and> c \<noteq> CHR '']'')) (split_second key line)"

definition u8_max :: nat where "u8_max = 255"

definition hs_player_line :: "string \<Rightarrow> hs_game \<Rightarrow> hs_game" where
  "hs_player_line rest g =
     (case split_once '', PlayerName='' rest of
        None \<Rightarrow> g
      | Some (pid, name_part) \<Rightarrow>
          (case parse_u u8_max (trim_text pid) of
             None \<Rightarrow> g
           | Some n \<Rightarrow>
               let name = trim_text name_part
               in if name \<noteq> [] \<and> name \<noteq> ''UNKNOWN HUMAN PLAYER'' then g\<lparr>hs_names := AList.update n name (hs_names g)\<rparr> else g))"

definition hs_hand_line :: "string \<Rightarrow> hs_game \<Rightarrow> hs_game" where
  "hs_hand_line line g =
     (case bracket_field line ''cardId='' of
        Some v \<Rightarrow>
          (if v = [] then g
           else case Option.bind (bracket_field line ''player='') (parse_u u8_max) of
                  Some player \<Rightarrow> g\<lparr>hs_friendly_player_id := Some player\<rparr>
                | None \<Rightarrow> g)
      | None \<Rightarrow> g)"

definition hs_outcome :: "string \<Rightarrow> hs_game \<Rightarrow> outcome option" where
  "hs_outcome line g =
     (let entity = trim_text (case split_second ''Entity='' line of None \<Rightarrow> [] | Some r \<Rightarrow> split_first '' tag='' r);
          v = (case split_whitespace (case split_second ''value='' line of None \<Rightarrow> [] | Some r \<Rightarrow> r) of [] \<Rightarrow> [] | w # _ \<Rightarrow> w);
          friendly_name = Option.bind (hs_friendly_player_id g) (map_of (hs_names g))
      in if v = ''TIED'' then Some Draw
         else if v = ''WON'' then
           (case friendly_name of Some name \<Rightarrow> Some (if name = entity then Win else Loss) | None \<Rightarrow> Some Incomplete)
         else None)"

definition hs_result :: "int \<Rightarrow> outcome \<Rightarrow> match_result" where
  "hs_result now r =
     \<lparr>mr_game_id = hs_game_id, mr_mode = ''match'', mr_map = [], mr_result = r, mr_streak_eligible = True, mr_own_score = 0,
      mr_opp_score = 0, mr_performance = None, mr_build = None, mr_run = None, mr_source = Sq_live, mr_ts = now\<rparr>"

definition hs_line :: "int \<Rightarrow> string \<Rightarrow> hs_game \<Rightarrow> telemetry_event list \<times> hs_game" where
  "hs_line now line g =
     (if \<not> contains line ''GameState.'' then ([], g)
      else if contains line ''CREATE_GAME'' then ([Match_started ''match'' []], hs_game_new\<lparr>hs_started := True\<rparr>)
      else if \<not> hs_started g then ([], g)
      else
        case split_second ''PlayerID='' line of
          Some rest \<Rightarrow> ([], hs_player_line rest g)
        | None \<Rightarrow>
            if hs_friendly_player_id g = None \<and> (contains line ''FULL_ENTITY'' \<or> contains line ''SHOW_ENTITY'') \<and> contains line ''zone=HAND''
            then ([], hs_hand_line line g)
            else if contains line ''tag=PLAYSTATE'' \<and> \<not> hs_result_emitted g then
              (case hs_outcome line g of
                 Some r \<Rightarrow> ([Match_ended (hs_result now r)], g\<lparr>hs_result_emitted := True, hs_started := False\<rparr>)
               | None \<Rightarrow> ([], g))
            else ([], g))"

fun hs_lines :: "(int \<times> string) list \<Rightarrow> hs_game \<Rightarrow> telemetry_event list \<times> hs_game" where
  "hs_lines [] g = ([], g)"
| "hs_lines ((now, line) # ls) g =
     (case hs_line now line g of (ev, g1) \<Rightarrow> (case hs_lines ls g1 of (evs, g2) \<Rightarrow> (ev @ evs, g2)))"

end
