(* ===== verification/Log_Adapter_Props.thy ===== *)
theory Log_Adapter_Props
  imports Log_Adapters Game_Tracking
begin

text \<open>
  The adapters that read a log, joined to the game sessions of the client: a Roblox session is open
  exactly while the log says so, and a Hearthstone match has one result.
\<close>

section \<open>Roblox\<close>

text \<open>What the log says by itself: the experience of the last mark.\<close>

fun experience :: "(string \<Rightarrow> int option) \<Rightarrow> (int \<times> string) list \<Rightarrow> (string \<times> int) option \<Rightarrow> (string \<times> int) option" where
  "experience stamp [] e = e"
| "experience stamp ((now, line) # ls) e =
     experience stamp ls
       (case roblox_mark_of stamp now line of
          Some (Joined place_id ts) \<Rightarrow> Some (place_id, ts)
        | Some (Left_experience _) \<Rightarrow> None
        | None \<Rightarrow> e)"

text \<open>The events of the polls, each applied to the sessions before the next poll.\<close>

definition apply_events :: "(string list \<Rightarrow> string list) \<Rightarrow> telemetry_event list \<Rightarrow> game_state \<Rightarrow> game_state" where
  "apply_events ord evs m = fold (\<lambda>e m. snd (snd (handle_telemetry ord e m))) evs m"

fun roblox_run :: "(string \<Rightarrow> int option) \<Rightarrow> (string list \<Rightarrow> string list) \<Rightarrow> ((int \<times> string) list \<times> bool) list \<Rightarrow>
    roblox_state \<times> game_state \<Rightarrow> roblox_state \<times> game_state" where
  "roblox_run stamp ord [] (s, m) = (s, m)"
| "roblox_run stamp ord (p # ps) (s, m) =
     (case roblox_poll stamp p s of (evs, s1) \<Rightarrow> roblox_run stamp ord ps (s1, apply_events ord evs m))"

lemma apply_events_append: "apply_events ord (xs @ ys) m = apply_events ord ys (apply_events ord xs m)"
  by (simp add: apply_events_def)

lemma apply_events_simps [simp]:
  "apply_events ord [] m = m" "apply_events ord (e # es) m = apply_events ord es (snd (snd (handle_telemetry ord e m)))"
  by (simp_all add: apply_events_def)

text \<open>The session of Roblox is open with the place of the experience, or the process is parked.\<close>

definition session_matches :: "(string \<times> int) option \<Rightarrow> game_state \<Rightarrow> bool" where
  "session_matches e m \<longleftrightarrow>
     (case e of
        None \<Rightarrow> map_of (gm_sessions m) roblox_game_id = None \<and> map_of (gm_pending m) roblox_game_id \<noteq> None
      | Some (place_id, ts) \<Rightarrow>
          map_of (gm_pending m) roblox_game_id = None \<and>
          (case map_of (gm_sessions m) roblox_game_id of None \<Rightarrow> False | Some g \<Rightarrow> gs_activity_id g = Some place_id))"

text \<open>Keys of both maps are distinct, and a session of Roblox is of the game Roblox.\<close>

definition maps_ok :: "game_state \<Rightarrow> bool" where
  "maps_ok m \<longleftrightarrow> distinct (map fst (gm_sessions m)) \<and> distinct (map fst (gm_pending m))"

lemma joined_matches:
  assumes "maps_ok m" "session_matches e m"
  shows "maps_ok (snd (snd (handle_telemetry ord (Activity_started roblox_game_id place ts) m))) \<and>
    session_matches (Some (place, t)) (snd (snd (handle_telemetry ord (Activity_started roblox_game_id place ts) m)))"
  using assms
  by (cases e) (auto simp: session_matches_def maps_ok_def Let_def update_conv' delete_conv' distinct_update distinct_delete
      simp del: map_of_eq_Some_iff split: option.splits)

lemma left_matches:
  assumes "maps_ok m" "session_matches (Some p) m"
  shows "maps_ok (snd (snd (handle_telemetry ord (Activity_ended roblox_game_id ts) m))) \<and>
    session_matches None (snd (snd (handle_telemetry ord (Activity_ended roblox_game_id ts) m)))"
proof -
  obtain g where g: "map_of (gm_sessions m) roblox_game_id = Some g" using assms(2) by (auto simp: session_matches_def split: option.splits prod.splits)
  obtain uis sm m1 where c: "close_session ord roblox_game_id ts (ag_foreground_ms (gs_game g)) m = (uis, sm, m1)"
    by (cases "close_session ord roblox_game_id ts (ag_foreground_ms (gs_game g)) m") auto
  then have m1: "gm_sessions m1 = AList.delete roblox_game_id (gm_sessions m)" "gm_pending m1 = gm_pending m"
    using close_session_state(1,4) [of ord roblox_game_id ts "ag_foreground_ms (gs_game g)" m] by simp_all
  show ?thesis using assms(1)
    by (simp add: g c session_matches_def maps_ok_def m1 update_conv' delete_conv' distinct_update distinct_delete)
qed

text \<open>Live lines: after each one the session is what the log says.\<close>

lemma live_lines_match:
  assumes "maps_ok m" "session_matches (rb_in_experience s) m" "\<not> rb_replaying s"
  shows "maps_ok (apply_events ord (fst (roblox_lines stamp ls s)) m) \<and>
    session_matches (experience stamp ls (rb_in_experience s)) (apply_events ord (fst (roblox_lines stamp ls s)) m) \<and>
    rb_in_experience (snd (roblox_lines stamp ls s)) = experience stamp ls (rb_in_experience s) \<and>
    \<not> rb_replaying (snd (roblox_lines stamp ls s))"
  using assms
proof (induction ls arbitrary: s m)
  case (Cons l ls)
  obtain now line where l: "l = (now, line)" by (cases l)
  obtain ev s1 where step: "roblox_line stamp now line s = (ev, s1)" by fastforce
  let ?m = "apply_events ord ev m"
  have one: "maps_ok ?m \<and> session_matches (rb_in_experience s1) ?m \<and> \<not> rb_replaying s1 \<and>
      rb_in_experience s1 = (case roblox_mark_of stamp now line of Some (Joined place_id ts) \<Rightarrow> Some (place_id, ts)
        | Some (Left_experience _) \<Rightarrow> None | None \<Rightarrow> rb_in_experience s)"
  proof (cases "roblox_mark_of stamp now line")
    case None
    then show ?thesis using step Cons.prems by (auto simp: roblox_line_def)
  next
    case (Some mark)
    show ?thesis
    proof (cases mark)
      case (Joined place ts)
      then have "ev = [Activity_started roblox_game_id place ts]" "s1 = s\<lparr>rb_in_experience := Some (place, ts)\<rparr>"
        using step Some Cons.prems(3) by (auto simp: roblox_line_def)
      then show ?thesis using joined_matches [OF Cons.prems(1,2), of ord place ts ts] Some Joined Cons.prems(3)
        by (simp del: handle_telemetry.simps)
    next
      case (Left_experience ts)
      then have s1: "s1 = s\<lparr>rb_in_experience := None\<rparr>"
        and ev: "ev = (if rb_in_experience s \<noteq> None then [Activity_ended roblox_game_id ts] else [])"
        using step Some Cons.prems(3) by (auto simp: roblox_line_def)
      show ?thesis
      proof (cases "rb_in_experience s")
        case None
        then show ?thesis using Cons.prems Some Left_experience s1 ev by simp
      next
        case (Some p)
        then show ?thesis using left_matches [OF Cons.prems(1), of p ord ts] Cons.prems \<open>roblox_mark_of stamp now line = Some mark\<close>
            Left_experience s1 ev by (simp del: handle_telemetry.simps)
      qed
    qed
  qed
  obtain evs s2 where rest: "roblox_lines stamp ls s1 = (evs, s2)" by fastforce
  have on: "experience stamp (l # ls) (rb_in_experience s) = experience stamp ls (rb_in_experience s1)"
    using one by (simp add: l)
  have IH: "maps_ok (apply_events ord evs ?m) \<and> session_matches (experience stamp ls (rb_in_experience s1)) (apply_events ord evs ?m) \<and>
      rb_in_experience s2 = experience stamp ls (rb_in_experience s1) \<and> \<not> rb_replaying s2"
    using Cons.IH [OF conjunct1 [OF one] conjunct1 [OF conjunct2 [OF one]] conjunct1 [OF conjunct2 [OF conjunct2 [OF one]]]] rest by simp
  then show ?case unfolding on by (simp add: l step rest apply_events_append)
qed simp

lemma history_lines:
  assumes "rb_replaying s"
  shows "fst (roblox_lines stamp ls s) = [] \<and> snd (roblox_lines stamp ls s) = s\<lparr>rb_in_experience := experience stamp ls (rb_in_experience s)\<rparr>"
  using assms
proof (induction ls arbitrary: s)
  case (Cons l ls)
  obtain now line where l: "l = (now, line)" by (cases l)
  obtain ev s1 where step: "roblox_line stamp now line s = (ev, s1)" by fastforce
  have "ev = []" "s1 = s\<lparr>rb_in_experience := (case roblox_mark_of stamp now line of Some (Joined place_id ts) \<Rightarrow> Some (place_id, ts)
        | Some (Left_experience _) \<Rightarrow> None | None \<Rightarrow> rb_in_experience s)\<rparr>"
    using step Cons.prems by (auto simp: roblox_line_def split: option.splits roblox_mark.splits)
  moreover obtain evs s2 where rest: "roblox_lines stamp ls s1 = (evs, s2)" by fastforce
  ultimately show ?case using Cons.IH [of s1] Cons.prems by (simp add: l step)
qed simp

lemma live_polls_match:
  assumes "maps_ok m" "session_matches (rb_in_experience s) m" "\<not> rb_replaying s"
  shows "session_matches (experience stamp (concat live) (rb_in_experience s))
    (snd (roblox_run stamp ord (map (\<lambda>ls. (ls, False)) live) (s, m)))"
  using assms
proof (induction live arbitrary: s m)
  case (Cons ls live)
  have exp: "experience stamp (xs @ ys) e = experience stamp ys (experience stamp xs e)" for xs ys e
    by (induction xs arbitrary: e) auto
  obtain evs s1 where poll: "roblox_lines stamp ls s = (evs, s1)" by fastforce
  from live_lines_match [OF Cons.prems, of ord stamp ls] poll
  have "maps_ok (apply_events ord evs m)" "session_matches (rb_in_experience s1) (apply_events ord evs m)" "\<not> rb_replaying s1"
    "rb_in_experience s1 = experience stamp ls (rb_in_experience s)" by simp_all
  then show ?case using Cons.IH [of "apply_events ord evs m" s1] by (simp add: roblox_poll_def poll exp)
qed simp

lemma roblox_run_matches:
  assumes "maps_ok m" "map_of (gm_sessions m) roblox_game_id = None" "map_of (gm_pending m) roblox_game_id \<noteq> None"
  shows "session_matches (experience stamp (history @ concat live) None)
    (snd (roblox_run stamp ord ((history, True) # map (\<lambda>ls. (ls, False)) live) (roblox_started, m)))"
proof -
  let ?e = "experience stamp history None"
  have exp: "experience stamp (xs @ ys) e = experience stamp ys (experience stamp xs e)" for xs ys e
    by (induction xs arbitrary: e) auto
  have hist: "fst (roblox_lines stamp history roblox_started) = []"
    "snd (roblox_lines stamp history roblox_started) = roblox_started\<lparr>rb_in_experience := ?e\<rparr>"
    using history_lines [of roblox_started stamp history] by (simp_all add: roblox_started_def)
  obtain ev s1 where caught: "roblox_caught_up (roblox_started\<lparr>rb_in_experience := ?e\<rparr>) = (ev, s1)" by fastforce
  then have s1: "rb_in_experience s1 = ?e" "\<not> rb_replaying s1"
    and ev: "ev = (case ?e of Some (place, ts) \<Rightarrow> [Activity_started roblox_game_id place ts] | None \<Rightarrow> [])"
    by (auto simp: roblox_caught_up_def)
  have none: "session_matches None m" using assms by (simp add: session_matches_def)
  have "maps_ok (apply_events ord ev m) \<and> session_matches ?e (apply_events ord ev m)"
  proof (cases ?e)
    case None
    then show ?thesis using assms(1) none ev by simp
  next
    case (Some p)
    then show ?thesis using joined_matches [OF assms(1) none, of ord "fst p" "snd p" "snd p"] ev
      by (cases p) (simp del: handle_telemetry.simps)
  qed
  then have "session_matches (experience stamp (concat live) (rb_in_experience s1))
      (snd (roblox_run stamp ord (map (\<lambda>ls. (ls, False)) live) (s1, apply_events ord ev m)))"
    by (intro live_polls_match) (simp_all add: s1)
  moreover have "roblox_poll stamp (history, True) roblox_started = (ev, s1)"
    using hist caught by (cases "roblox_lines stamp history roblox_started") (simp add: roblox_poll_def)
  ultimately show ?thesis by (simp add: exp s1)
qed

text \<open>The last join or leave of a log decides, without its time.\<close>

definition place_of_log :: "string list \<Rightarrow> string option" where
  "place_of_log ls =
     fold (\<lambda>line e. case roblox_mark_of (\<lambda>_. None) 0 line of
         Some (Joined place_id _) \<Rightarrow> Some place_id | Some (Left_experience _) \<Rightarrow> None | None \<Rightarrow> e) ls None"

lemma mark_without_time:
  "(case roblox_mark_of stamp now line of Some (Joined place_id _) \<Rightarrow> Some place_id | Some (Left_experience _) \<Rightarrow> None | None \<Rightarrow> e) =
   (case roblox_mark_of (\<lambda>_. None) 0 line of Some (Joined place_id _) \<Rightarrow> Some place_id | Some (Left_experience _) \<Rightarrow> None | None \<Rightarrow> e)"
  by (simp add: roblox_mark_of_def Let_def split: option.split)

lemma experience_place: "map_option fst (experience stamp ls None) = place_of_log (map snd ls)"
proof -
  have "map_option fst (experience stamp ls e) =
      fold (\<lambda>line e. case roblox_mark_of (\<lambda>_. None) 0 line of
         Some (Joined place_id _) \<Rightarrow> Some place_id | Some (Left_experience _) \<Rightarrow> None | None \<Rightarrow> e) (map snd ls) (map_option fst e)" for e
  proof (induction ls arbitrary: e)
    case (Cons l ls)
    obtain now line where l: "l = (now, line)" by (cases l)
    have "map_option fst (case roblox_mark_of stamp now line of Some (Joined place_id ts) \<Rightarrow> Some (place_id, ts)
        | Some (Left_experience _) \<Rightarrow> None | None \<Rightarrow> e) =
      (case roblox_mark_of stamp now line of Some (Joined place_id _) \<Rightarrow> Some place_id | Some (Left_experience _) \<Rightarrow> None
        | None \<Rightarrow> map_option fst e)" by (simp split: option.split roblox_mark.split)
    then show ?case by (simp add: l Cons.IH mark_without_time [where stamp = stamp and now = now and line = line])
  qed simp
  from this [of None] show ?thesis by (simp add: place_of_log_def)
qed


text \<open>The log of a player who is in the place 7.\<close>

definition seven_log :: "nat list" where
  "seven_log = map of_char (''! Joining game '' @ [apostrophe] @ ''x place 7 '') @ [10]"

definition roblox_player :: active_game where
  "roblox_player = \<lparr>ag_game_id = roblox_game_id, ag_game_name = ''Roblox'', ag_short_name = ''Roblox'', ag_color = [], ag_exe = [],
     ag_exe_path = [], ag_pid = 3, ag_igdb_id = None, ag_started_at = 0, ag_started_at_ms = 0, ag_foreground_ms = 0\<rparr>"

lemma seven_log_place: "place_of_log (whole_lines seven_log) = Some ''7''"
  by code_simp

lemma seven_log_polls: "fst (tail_polls Start_beginning [one_file seven_log] tailer_new) = [(whole_lines seven_log, True)]"
  by code_simp

lemma seven_log_valid: "lines_valid seven_log"
  by code_simp


section \<open>Hearthstone\<close>

text \<open>A trace where every result is of a match that began and had none yet.\<close>

fun one_result_each :: "bool \<Rightarrow> telemetry_event list \<Rightarrow> bool" where
  "one_result_each playing [] \<longleftrightarrow> True"
| "one_result_each playing (Match_started mode game_map # evs) \<longleftrightarrow> one_result_each True evs"
| "one_result_each playing (Match_ended r # evs) \<longleftrightarrow> playing \<and> mr_game_id r = hs_game_id \<and> one_result_each False evs"
| "one_result_each playing (_ # evs) \<longleftrightarrow> one_result_each playing evs"

lemma hs_line_cases:
  "hs_line now line g = ([Match_started ''match'' []], hs_game_new\<lparr>hs_started := True\<rparr>)
   \<or> (\<exists>g'. hs_line now line g = ([], g') \<and> hs_started g' = hs_started g)
   \<or> (\<exists>r g'. hs_line now line g = ([Match_ended (hs_result now r)], g') \<and> hs_started g \<and> \<not> hs_started g')"
proof -
  have "hs_started (hs_player_line rest g) = hs_started g" for rest
    by (simp add: hs_player_line_def Let_def split: option.split prod.split)
  moreover have "hs_started (hs_hand_line line g) = hs_started g" by (simp add: hs_hand_line_def split: option.split)
  ultimately show ?thesis by (auto simp: hs_line_def split: option.split)
qed

text \<open>A Hearthstone match has at most one result, and only a match that began has one: in the events of any
  log, whatever its lines, every result stands after a start with no other result between them.\<close>

theorem hearthstone_match_has_one_result: "one_result_each False (fst (hs_lines ls hs_game_new))"
proof -
  have "one_result_each playing (fst (hs_lines ls g))" if "hs_started g \<longrightarrow> playing" for playing g
    using that
  proof (induction ls arbitrary: playing g)
    case (Cons l ls)
    obtain now line where l: "l = (now, line)" by (cases l)
    obtain ev g1 where step: "hs_line now line g = (ev, g1)" by fastforce
    obtain evs g2 where rest: "hs_lines ls g1 = (evs, g2)" by fastforce
    have all: "fst (hs_lines (l # ls) g) = ev @ evs" by (simp add: l step rest)
    have IH: "hs_started g1 \<longrightarrow> p \<Longrightarrow> one_result_each p evs" for p using Cons.IH [of g1 p] rest by simp
    from hs_line_cases [of now line g] step consider "ev = [Match_started ''match'' []]" | "ev = []" "hs_started g1 = hs_started g"
      | r where "ev = [Match_ended (hs_result now r)]" "hs_started g" "\<not> hs_started g1" by auto
    then show ?case
    proof cases
      case 1
      then show ?thesis using IH [of True] by (simp only: all) simp
    next
      case 2
      then show ?thesis using IH [of playing] Cons.prems by (simp only: all) simp
    next
      case (3 r)
      then show ?thesis using IH [of False] Cons.prems by (simp only: all) (simp add: hs_result_def)
    qed
  qed simp
  then show ?thesis by (simp add: hs_game_new_def)
qed

section \<open>Path of Exile\<close>

text \<open>What a line says, apart from what was said before.\<close>

datatype poe_say = Zone string | Level string nat | Death | Nothing

definition poe_says :: "string \<Rightarrow> poe_say" where
  "poe_says line =
     (case split_second ''] : '' line of
        None \<Rightarrow> Nothing
      | Some msg \<Rightarrow>
          (case Option.bind (strip_prefix ''You have entered '' msg) (strip_suffix ''.'') of
             Some zone \<Rightarrow> Zone zone
           | None \<Rightarrow>
               (case split_once '' is now level '' msg of
                  Some (who, rest) \<Rightarrow> (case poe_level rest of Some level \<Rightarrow> Level who level | None \<Rightarrow> Nothing)
                | None \<Rightarrow> if contains msg ''has been slain'' then Death else Nothing)))"

definition zones_of :: "string list \<Rightarrow> string list" where
  "zones_of ls = List.map_filter (\<lambda>l. case poe_says l of Zone z \<Rightarrow> Some z | _ \<Rightarrow> None) ls"

definition levels_of :: "string list \<Rightarrow> (string \<times> nat) list" where
  "levels_of ls = List.map_filter (\<lambda>l. case poe_says l of Level who n \<Rightarrow> Some (who, n) | _ \<Rightarrow> None) ls"

definition deaths_of :: "string list \<Rightarrow> nat" where
  "deaths_of ls = length (filter (\<lambda>l. poe_says l = Death) ls)"


lemma contains_part: "contains (d @ p @ q) p"
proof -
  have front: "starts_with (p @ q) p" for p q :: "'a list" by (induction p) auto
  show ?thesis
  proof (induction d)
    case Nil
    then show ?case using front [of p q] by (cases "p @ q") auto
  qed simp
qed

lemma ends_with_split: "ends_with s suf \<Longrightarrow> \<exists>d. s = d @ suf"
  by (metis append_take_drop_id ends_with_def)

lemma slain_line: "ends_with msg ''has been slain.'' \<Longrightarrow> contains msg ''has been slain''"
proof -
  assume "ends_with msg ''has been slain.''"
  then obtain d where "msg = d @ ''has been slain.''" using ends_with_split by blast
  then show ?thesis using contains_part [of d "''has been slain''" "''.''"] by simp
qed

lemma poe_line_says:
  "poe_line line r =
     (case poe_says line of
        Zone z \<Rightarrow> r\<lparr>pr_zones_entered := wrap_u u32_max (pr_zones_entered r + 1), pr_last_zone := z\<rparr>
      | Level who n \<Rightarrow> r\<lparr>pr_character := who, pr_level := max (pr_level r) n\<rparr>
      | Death \<Rightarrow> r\<lparr>pr_deaths := wrap_u u32_max (pr_deaths r + 1)\<rparr>
      | Nothing \<Rightarrow> r)"
  using slain_line by (auto simp: poe_line_def poe_says_def split: option.split)

lemma poe_fold:
  assumes "pr_zones_entered r + length ls \<le> u32_max" "pr_deaths r + length ls \<le> u32_max"
  shows "fold poe_line ls r =
    r\<lparr>pr_zones_entered := pr_zones_entered r + length (zones_of ls), pr_last_zone := last (pr_last_zone r # zones_of ls),
      pr_character := last (pr_character r # map fst (levels_of ls)), pr_level := foldl max (pr_level r) (map snd (levels_of ls)),
      pr_deaths := pr_deaths r + deaths_of ls\<rparr>"
  using assms
proof (induction ls arbitrary: r)
  case Nil
  then show ?case by (simp add: zones_of_def levels_of_def deaths_of_def map_filter_simps)
next
  case (Cons l ls)
  show ?case
    by (cases "poe_says l"; cases r)
      (use Cons.IH [of "poe_line l r"] Cons.prems in
        \<open>auto simp: poe_line_says wrap_u_id zones_of_def levels_of_def deaths_of_def map_filter_simps\<close>)
qed

text \<open>What is reported of a run of Path of Exile is what its log said since the adapter was started, if the
  log said anything: the deaths are counted, the map is the last zone entered, the character is the
  last that rose a level, with the highest level seen. A second end of the game reports nothing, and
  no run counts for a streak.\<close>

theorem poe_run_is_summed_up:
  fixes ls t0 t1 t2
  assumes "length ls \<le> u32_max"
  defines "a \<equiv> fold poe_feed ls (poe_start t0 poe_new)"
  defines "highest \<equiv> foldl max 0 (map snd (levels_of ls))"
  shows "fst (poe_reset t2 (snd (poe_reset t1 a))) = [] \<and>
    (if zones_of ls = [] \<and> highest = 0 \<and> deaths_of ls = 0 then fst (poe_reset t1 a) = []
     else \<exists>r. fst (poe_reset t1 a) = [Match_ended r] \<and> mr_game_id r = poe_game_id \<and> mr_result r = Incomplete \<and>
       \<not> mr_streak_eligible r \<and> mr_map r = last ([] # zones_of ls) \<and>
       map_option pf_deaths (mr_performance r) = (if deaths_of ls = 0 then None else Some (Some (deaths_of ls))) \<and>
       (let who = last ([] # map fst (levels_of ls)) in
          map_option bi_character (mr_build r) =
            (if who = [] then None else Some (Some (if highest = 0 then who else who @ '', level '' @ show_nat highest)))))"
proof -
  have feed: "fold poe_feed ls b = b\<lparr>pa_run := fold poe_line ls (pa_run b)\<rparr>" for b
    by (induction ls arbitrary: b) (simp_all add: poe_feed_def)
  have run: "pa_run a = (poe_run_new t0)\<lparr>pr_zones_entered := length (zones_of ls), pr_last_zone := last ([] # zones_of ls),
      pr_character := last ([] # map fst (levels_of ls)), pr_level := highest, pr_deaths := deaths_of ls\<rparr>" "pa_tx a"
    using poe_fold [of "poe_run_new t0" ls] assms(1)
    by (simp_all add: a_def feed poe_start_def poe_new_def poe_run_new_def highest_def)
  have again: "fst (poe_reset t2 (snd (poe_reset t1 a))) = []" by (simp add: poe_reset_def)
  show ?thesis
  proof (cases "zones_of ls = [] \<and> highest = 0 \<and> deaths_of ls = 0")
    case True
    then show ?thesis using again run by (simp add: poe_reset_def has_activity_def)
  next
    case False
    then have "fst (poe_reset t1 a) = [Match_ended (poe_summarize t1 (pa_run a))]"
      using run by (auto simp: poe_reset_def has_activity_def)
    then show ?thesis using False again
      by (simp only: if_False) (auto simp: poe_summarize_def run Let_def no_performance_def)
  qed
qed

lemma poe_run_is_summed_up_witness:
  "\<exists>r. fst (poe_reset 9000 (fold poe_feed [''1 ] : You have entered The Coast.'', ''2 ] : Ann has been slain.''] (poe_start 0 poe_new))) =
      [Match_ended r] \<and> mr_map r = ''The Coast''"
proof -
  let ?ls = "[''1 ] : You have entered The Coast.'', ''2 ] : Ann has been slain.'']"
  have says: "zones_of ?ls = [''The Coast'']" "deaths_of ?ls = 1" by code_simp+
  have "length ?ls \<le> u32_max" by (simp add: u32_max_def)
  from poe_run_is_summed_up [OF this, of 0 9000 0] show ?thesis by (auto simp: says)
qed


end
