(* ===== verification/Telemetry_Json.thy ===== *)
theory Telemetry_Json
  imports Prelude Utf8_Text "HOL-Library.AList" "HOL-Library.Monad_Syntax"
begin

text \<open>
  JSON values as the adapters of \<open>telemetry/\<close> read them. \<open>serde_json\<close> turns a text into a value: that
  reader is an argument of every model that uses it. An object is the list of its members in the order of
  the text. What is modelled here is what \<open>#[derive(Deserialize)]\<close> makes of a value: a struct from an object
  whose unknown members are passed over, a known member twice being an error, or from an array by position;
  a field with \<open>#[serde(default)]\<close> may be missing; an \<open>Option\<close> may be missing in an object.
\<close>

datatype json =
    Json_null | Json_bool bool | Json_int int | Json_float | Json_str string
  | Json_arr "json list" | Json_obj "(string \<times> json) list"

section \<open>Scalars\<close>

fun de_string :: "json \<Rightarrow> string option" where
  "de_string (Json_str s) = Some s"
| "de_string _ = None"

fun de_bool :: "json \<Rightarrow> bool option" where
  "de_bool (Json_bool b) = Some b"
| "de_bool _ = None"

fun de_int :: "int \<Rightarrow> int \<Rightarrow> json \<Rightarrow> int option" where
  "de_int lo hi (Json_int n) = (if lo \<le> n \<and> n \<le> hi then Some n else None)"
| "de_int lo hi _ = None"

definition de_i64 :: "json \<Rightarrow> int option" where "de_i64 = de_int (- (2 ^ 63)) (2 ^ 63 - 1)"
definition de_i32 :: "json \<Rightarrow> int option" where "de_i32 = de_int (- (2 ^ 31)) (2 ^ 31 - 1)"
definition de_u32 :: "json \<Rightarrow> nat option" where "de_u32 j = map_option nat (de_int 0 (2 ^ 32 - 1) j)"
definition de_u8 :: "json \<Rightarrow> nat option" where "de_u8 j = map_option nat (de_int 0 255 j)"

section \<open>Lists, options and structs\<close>

definition de_list :: "(json \<Rightarrow> 'a option) \<Rightarrow> json \<Rightarrow> 'a list option" where
  "de_list d j = (case j of Json_arr xs \<Rightarrow> those (map d xs) | _ \<Rightarrow> None)"

definition de_option :: "(json \<Rightarrow> 'a option) \<Rightarrow> json \<Rightarrow> 'a option option" where
  "de_option d j = (if j = Json_null then Some None else map_option Some (d j))"

text \<open>The values of the named fields, each with whether it has a default.\<close>

definition struct_fields :: "(string \<times> bool) list \<Rightarrow> json \<Rightarrow> json option list option" where
  "struct_fields fs j =
     (case j of
        Json_obj ms \<Rightarrow>
          if list_all (\<lambda>(k, _). length (filter (\<lambda>m. fst m = k) ms) \<le> 1) fs then Some (map (\<lambda>(k, _). map_of ms k) fs) else None
      | Json_arr xs \<Rightarrow>
          if length xs \<le> length fs \<and> list_all snd (drop (length xs) fs)
          then Some (map Some xs @ replicate (length fs - length xs) None) else None
      | _ \<Rightarrow> None)"

definition de_field :: "'a \<Rightarrow> (json \<Rightarrow> 'a option) \<Rightarrow> json option \<Rightarrow> 'a option" where
  "de_field d f v = (case v of None \<Rightarrow> Some d | Some j \<Rightarrow> f j)"

lemma struct_fields_length: "struct_fields fs j = Some vs \<Longrightarrow> length vs = length fs"
  by (auto simp: struct_fields_def split: json.splits if_splits)

section \<open>Untyped values\<close>

text \<open>\<open>serde_json::Value\<close> holds an object as a map: of a member that is there twice, the last one stays.\<close>

definition last_of :: "(string \<times> 'a) list \<Rightarrow> (string \<times> 'a) list" where
  "last_of ms = fold (\<lambda>(k, v). AList.update k v) ms []"

fun json_value :: "json \<Rightarrow> json" where
  "json_value (Json_arr xs) = Json_arr (map json_value xs)"
| "json_value (Json_obj ms) = Json_obj (last_of (map (\<lambda>(k, v). (k, json_value v)) ms))"
| "json_value j = j"

definition json_get :: "string \<Rightarrow> json \<Rightarrow> json option" where
  "json_get k j = (case j of Json_obj ms \<Rightarrow> map_of ms k | _ \<Rightarrow> None)"

fun as_u64 :: "json \<Rightarrow> nat option" where
  "as_u64 (Json_int n) = (if 0 \<le> n \<and> n < 2 ^ 64 then Some (nat n) else None)"
| "as_u64 _ = None"

fun as_members :: "json \<Rightarrow> (string \<times> json) list option" where
  "as_members (Json_obj ms) = Some ms"
| "as_members _ = None"

lemma last_of_value: "map_of (last_of ms) k = map_of (rev ms) k"
proof (induction ms rule: rev_induct)
  case (snoc m ms)
  then show ?case by (cases m) (simp add: last_of_def update_conv')
qed (simp add: last_of_def)

lemma last_of_distinct: "distinct (map fst (last_of ms))"
proof (induction ms rule: rev_induct)
  case (snoc m ms)
  then show ?case by (cases m) (simp add: last_of_def distinct_update)
qed (simp add: last_of_def)

text \<open>A value read once and read again is the same, so a struct taken from a value never meets a member twice.\<close>

lemma value_of_struct:
  "struct_fields fs (json_value (Json_obj ms)) = Some (map (\<lambda>(k, _). map_option json_value (map_of (rev ms) k)) fs)"
proof -
  let ?m = "map (\<lambda>(k, v). (k, json_value v)) ms"
  have one: "length (filter (\<lambda>m. fst m = k) xs) \<le> 1" if "distinct (map fst xs)" for k and xs :: "(string \<times> json) list"
    using that
  proof (induction xs)
    case (Cons x xs)
    then show ?case by (cases "fst x = k") (auto simp: filter_empty_conv image_iff)
  qed simp
  have "map_of (last_of ?m) k = map_option json_value (map_of (rev ms) k)" for k
    by (simp add: last_of_value rev_map map_of_map)
  with one [OF last_of_distinct] show ?thesis by (auto simp: struct_fields_def list_all_iff)
qed

end
