(* ===== verification/Push_Adapters.thy ===== *)
theory Push_Adapters
  imports Telemetry_Json Log_Adapters Library Machine
begin

text \<open>
  The adapters that games post to: Counter-Strike 2 (\<open>telemetry/cs2_gsi.rs\<close>) and Dota 2
  (\<open>telemetry/dota2_gsi.rs\<close>), the loopback listener that offers them each request
  (\<open>telemetry/listener.rs\<close>), the token of the install (\<open>telemetry/mod.rs\<close>) and the configuration files the
  adapters put beside the games (\<open>telemetry/steam.rs\<close>). The reader of JSON texts, the time of a call and what
  the disk shows are arguments.
\<close>

definition no_build :: build_info where
  "no_build = \<lparr>bi_character = None, bi_deck_code = None, bi_items = []\<rparr>"

text \<open>\<open>n.max(0) as u32\<close>.\<close>

definition stat :: "int \<Rightarrow> nat option" where "stat n = Some (nat n)"

text \<open>Both payloads carry the token of the install and the app id of the game.\<close>

definition de_provider :: "json \<Rightarrow> int option" where
  "de_provider j = do { fs \<leftarrow> struct_fields [(''appid'', True)] j; de_field 0 de_i64 (fs ! 0) }"

definition de_auth :: "json \<Rightarrow> string option" where
  "de_auth j = do { fs \<leftarrow> struct_fields [(''token'', True)] j; de_field [] de_string (fs ! 0) }"

section \<open>Counter-Strike 2\<close>

definition cs2_game_id :: string where "cs2_game_id = ''counter-strike-2''"
definition cs2_appid :: int where "cs2_appid = 730"

definition is_streak_mode :: "string \<Rightarrow> bool" where
  "is_streak_mode mode \<longleftrightarrow>
     to_ascii_lowercase mode \<in> set [''competitive'', ''premier'', ''scrimcomp2v2'', ''wingman'']"

record cs2_state =
  cs_active :: bool
  cs_last_ct :: nat
  cs_last_t :: nat
  cs_mode :: string
  cs_map :: string

definition cs2_new :: cs2_state where
  "cs2_new = \<lparr>cs_active = False, cs_last_ct = 0, cs_last_t = 0, cs_mode = [], cs_map = []\<rparr>"

record cs2_map =
  cm_mode :: string
  cm_name :: string
  cm_phase :: string
  cm_ct :: nat
  cm_t :: nat

record cs2_stats =
  ct_kills :: int
  ct_assists :: int
  ct_deaths :: int
  ct_mvps :: int
  ct_score :: int

record cs2_player =
  cq_team :: string
  cq_stats :: "cs2_stats option"

record cs2_payload =
  cp_provider :: "int option"
  cp_map :: "cs2_map option"
  cp_player :: "cs2_player option"
  cp_auth :: "string option"

definition de_cs2_team :: "json \<Rightarrow> nat option" where
  "de_cs2_team j = do { fs \<leftarrow> struct_fields [(''score'', True)] j; de_field 0 de_u32 (fs ! 0) }"

definition de_cs2_map :: "json \<Rightarrow> cs2_map option" where
  "de_cs2_map j = do {
     fs \<leftarrow> struct_fields [(''mode'', True), (''name'', True), (''phase'', True), (''team_ct'', True), (''team_t'', True)] j;
     mode \<leftarrow> de_field [] de_string (fs ! 0);
     name \<leftarrow> de_field [] de_string (fs ! 1);
     phase \<leftarrow> de_field [] de_string (fs ! 2);
     ct \<leftarrow> de_field 0 de_cs2_team (fs ! 3);
     t \<leftarrow> de_field 0 de_cs2_team (fs ! 4);
     Some \<lparr>cm_mode = mode, cm_name = name, cm_phase = phase, cm_ct = ct, cm_t = t\<rparr> }"

definition de_cs2_stats :: "json \<Rightarrow> cs2_stats option" where
  "de_cs2_stats j = do {
     fs \<leftarrow> struct_fields [(''kills'', True), (''assists'', True), (''deaths'', True), (''mvps'', True), (''score'', True)] j;
     kills \<leftarrow> de_field 0 de_i32 (fs ! 0);
     assists \<leftarrow> de_field 0 de_i32 (fs ! 1);
     deaths \<leftarrow> de_field 0 de_i32 (fs ! 2);
     mvps \<leftarrow> de_field 0 de_i32 (fs ! 3);
     score \<leftarrow> de_field 0 de_i32 (fs ! 4);
     Some \<lparr>ct_kills = kills, ct_assists = assists, ct_deaths = deaths, ct_mvps = mvps, ct_score = score\<rparr> }"

definition de_cs2_player :: "json \<Rightarrow> cs2_player option" where
  "de_cs2_player j = do {
     fs \<leftarrow> struct_fields [(''team'', True), (''match_stats'', False)] j;
     team \<leftarrow> de_field [] de_string (fs ! 0);
     stats \<leftarrow> de_field None (de_option de_cs2_stats) (fs ! 1);
     Some \<lparr>cq_team = team, cq_stats = stats\<rparr> }"

definition de_cs2_payload :: "json \<Rightarrow> cs2_payload option" where
  "de_cs2_payload j = do {
     fs \<leftarrow> struct_fields [(''provider'', False), (''map'', False), (''player'', False), (''auth'', False)] j;
     provider \<leftarrow> de_field None (de_option de_provider) (fs ! 0);
     mp \<leftarrow> de_field None (de_option de_cs2_map) (fs ! 1);
     player \<leftarrow> de_field None (de_option de_cs2_player) (fs ! 2);
     auth \<leftarrow> de_field None (de_option de_auth) (fs ! 3);
     Some \<lparr>cp_provider = provider, cp_map = mp, cp_player = player, cp_auth = auth\<rparr> }"

definition cs2_split_scores :: "string \<Rightarrow> nat \<Rightarrow> nat \<Rightarrow> nat \<times> nat" where
  "cs2_split_scores team ct t =
     (if team = ''CT'' then (ct, t) else if team = ''T'' then (t, ct) else (max ct t, min ct t))"

definition cs2_outcome :: "string \<Rightarrow> nat \<Rightarrow> nat \<Rightarrow> outcome" where
  "cs2_outcome team ct t =
     (if team = ''CT'' \<or> team = ''T''
      then let (own, opp) = (if team = ''CT'' then (ct, t) else (t, ct))
           in if own > opp then Win else if own < opp then Loss else Draw
      else Incomplete)"

definition cs2_performance :: "cs2_stats \<Rightarrow> performance" where
  "cs2_performance ms =
     no_performance\<lparr>pf_kills := stat (ct_kills ms), pf_deaths := stat (ct_deaths ms), pf_assists := stat (ct_assists ms),
       pf_mvps := stat (ct_mvps ms), pf_score := stat (ct_score ms)\<rparr>"

definition cs2_abandoned :: "int \<Rightarrow> string \<Rightarrow> string \<Rightarrow> match_result" where
  "cs2_abandoned now mode game_map =
     \<lparr>mr_game_id = cs2_game_id, mr_mode = mode, mr_map = game_map, mr_result = Incomplete, mr_streak_eligible = True,
      mr_own_score = 0, mr_opp_score = 0, mr_performance = None, mr_build = None, mr_run = None, mr_source = Sq_live,
      mr_ts = now\<rparr>"

definition cs2_player_team :: "cs2_payload \<Rightarrow> string" where
  "cs2_player_team p = (case cp_player p of None \<Rightarrow> [] | Some q \<Rightarrow> cq_team q)"

definition cs2_over :: "int \<Rightarrow> cs2_map \<Rightarrow> cs2_payload \<Rightarrow> match_result" where
  "cs2_over now mp p =
     (let (own, opp) = cs2_split_scores (cs2_player_team p) (cm_ct mp) (cm_t mp)
      in \<lparr>mr_game_id = cs2_game_id, mr_mode = cm_mode mp, mr_map = cm_name mp,
          mr_result = cs2_outcome (cs2_player_team p) (cm_ct mp) (cm_t mp), mr_streak_eligible = True,
          mr_own_score = own, mr_opp_score = opp,
          mr_performance = map_option cs2_performance (Option.bind (cp_player p) cq_stats), mr_build = None, mr_run = None,
          mr_source = Sq_live, mr_ts = now\<rparr>)"

definition cs2_started :: "cs2_map \<Rightarrow> cs2_state \<Rightarrow> telemetry_event list \<times> cs2_state" where
  "cs2_started mp st =
     (if cm_phase mp \<in> {''warmup'', ''live''} \<and> \<not> cs_active st
      then ([Match_started (cm_mode mp) (cm_name mp)],
            st\<lparr>cs_active := True, cs_last_ct := 0, cs_last_t := 0, cs_mode := cm_mode mp, cs_map := cm_name mp\<rparr>)
      else ([], st))"

definition cs2_scored :: "string \<Rightarrow> cs2_map \<Rightarrow> cs2_state \<Rightarrow> telemetry_event list \<times> cs2_state" where
  "cs2_scored team mp st =
     (if cs_active st \<and> (cm_ct mp \<noteq> cs_last_ct st \<or> cm_t mp \<noteq> cs_last_t st)
      then ([case cs2_split_scores team (cm_ct mp) (cm_t mp) of (own, opp) \<Rightarrow> Score_changed own opp],
            st\<lparr>cs_last_ct := cm_ct mp, cs_last_t := cm_t mp\<rparr>)
      else ([], st))"

definition cs2_ended :: "int \<Rightarrow> cs2_map \<Rightarrow> cs2_payload \<Rightarrow> cs2_state \<Rightarrow> telemetry_event list \<times> cs2_state" where
  "cs2_ended now mp p st =
     (if cm_phase mp = ''gameover'' \<and> cs_active st then ([Match_ended (cs2_over now mp p)], st\<lparr>cs_active := False\<rparr>)
      else ([], st))"

definition cs2_digest :: "int \<Rightarrow> cs2_payload \<Rightarrow> cs2_state \<Rightarrow> telemetry_event list \<times> cs2_state" where
  "cs2_digest now p st =
     (case cp_map p of
        None \<Rightarrow> if cs_active st then ([Match_ended (cs2_abandoned now (cs_mode st) (cs_map st))], cs2_new) else ([], st)
      | Some mp \<Rightarrow>
          if \<not> is_streak_mode (cm_mode mp) then ([], cs2_new)
          else case cs2_started mp st of (a, st1) \<Rightarrow>
            case cs2_scored (cs2_player_team p) mp st1 of (b, st2) \<Rightarrow>
              case cs2_ended now mp p st2 of (c, st3) \<Rightarrow> (a @ b @ c, st3))"

text \<open>The payload that is the game's own: it parses, it carries the token and the app id.\<close>

definition cs2_own :: "(string \<Rightarrow> json option) \<Rightarrow> string \<Rightarrow> string \<Rightarrow> cs2_payload option" where
  "cs2_own json_of body token =
     (case Option.bind (json_of body) de_cs2_payload of
        None \<Rightarrow> None
      | Some p \<Rightarrow>
          if cp_auth p = Some token \<and> token \<noteq> [] \<and> cp_provider p = Some cs2_appid then Some p else None)"

definition cs2_parse :: "(string \<Rightarrow> json option) \<Rightarrow> int \<Rightarrow> string \<Rightarrow> string \<Rightarrow> cs2_state \<Rightarrow> telemetry_event list \<times> cs2_state" where
  "cs2_parse json_of now body token st =
     (case cs2_own json_of body token of None \<Rightarrow> ([], st) | Some p \<Rightarrow> cs2_digest now p st)"


section \<open>Dota 2\<close>

definition dota_game_id :: string where "dota_game_id = ''dota-2''"
definition dota_appid :: int where "dota_appid = 570"
definition dota_launch_option :: string where "dota_launch_option = ''-gamestateintegration''"

definition dota_active_states :: "string list" where
  "dota_active_states =
     [''DOTA_GAMERULES_STATE_HERO_SELECTION'', ''DOTA_GAMERULES_STATE_STRATEGY_TIME'',
      ''DOTA_GAMERULES_STATE_TEAM_SHOWCASE'', ''DOTA_GAMERULES_STATE_PRE_GAME'',
      ''DOTA_GAMERULES_STATE_GAME_IN_PROGRESS'']"

record dota_state =
  ds_active :: bool
  ds_last_own :: nat
  ds_last_opp :: nat
  ds_map :: string

definition dota_new :: dota_state where
  "dota_new = \<lparr>ds_active = False, ds_last_own = 0, ds_last_opp = 0, ds_map = []\<rparr>"

record dota_map =
  dm_name :: string
  dm_game_state :: string
  dm_win_team :: string
  dm_custom :: string
  dm_radiant :: nat
  dm_dire :: nat

record dota_player =
  dq_team :: string
  dq_kills :: int
  dq_deaths :: int
  dq_assists :: int
  dq_last_hits :: int

record dota_payload =
  dp_provider :: "int option"
  dp_map :: "dota_map option"
  dp_player :: "dota_player option"
  dp_hero :: "string option"
  dp_auth :: "string option"

definition de_dota_map :: "json \<Rightarrow> dota_map option" where
  "de_dota_map j = do {
     fs \<leftarrow> struct_fields [(''name'', True), (''game_state'', True), (''win_team'', True), (''customgamename'', True),
       (''radiant_score'', True), (''dire_score'', True)] j;
     name \<leftarrow> de_field [] de_string (fs ! 0);
     game_state \<leftarrow> de_field [] de_string (fs ! 1);
     win_team \<leftarrow> de_field [] de_string (fs ! 2);
     custom \<leftarrow> de_field [] de_string (fs ! 3);
     radiant \<leftarrow> de_field 0 de_u32 (fs ! 4);
     dire \<leftarrow> de_field 0 de_u32 (fs ! 5);
     Some \<lparr>dm_name = name, dm_game_state = game_state, dm_win_team = win_team, dm_custom = custom,
       dm_radiant = radiant, dm_dire = dire\<rparr> }"

definition de_dota_player :: "json \<Rightarrow> dota_player option" where
  "de_dota_player j = do {
     fs \<leftarrow> struct_fields [(''team_name'', True), (''kills'', True), (''deaths'', True), (''assists'', True), (''last_hits'', True)] j;
     team \<leftarrow> de_field [] de_string (fs ! 0);
     kills \<leftarrow> de_field 0 de_i32 (fs ! 1);
     deaths \<leftarrow> de_field 0 de_i32 (fs ! 2);
     assists \<leftarrow> de_field 0 de_i32 (fs ! 3);
     last_hits \<leftarrow> de_field 0 de_i32 (fs ! 4);
     Some \<lparr>dq_team = team, dq_kills = kills, dq_deaths = deaths, dq_assists = assists, dq_last_hits = last_hits\<rparr> }"

definition de_dota_hero :: "json \<Rightarrow> string option" where
  "de_dota_hero j = do { fs \<leftarrow> struct_fields [(''name'', True)] j; de_field [] de_string (fs ! 0) }"

definition de_dota_payload :: "json \<Rightarrow> dota_payload option" where
  "de_dota_payload j = do {
     fs \<leftarrow> struct_fields [(''provider'', False), (''map'', False), (''player'', False), (''hero'', False), (''auth'', False)] j;
     provider \<leftarrow> de_field None (de_option de_provider) (fs ! 0);
     mp \<leftarrow> de_field None (de_option de_dota_map) (fs ! 1);
     player \<leftarrow> de_field None (de_option de_dota_player) (fs ! 2);
     hero \<leftarrow> de_field None (de_option de_dota_hero) (fs ! 3);
     auth \<leftarrow> de_field None (de_option de_auth) (fs ! 4);
     Some \<lparr>dp_provider = provider, dp_map = mp, dp_player = player, dp_hero = hero, dp_auth = auth\<rparr> }"

definition dota_split_scores :: "string \<Rightarrow> nat \<Rightarrow> nat \<Rightarrow> nat \<times> nat" where
  "dota_split_scores team radiant dire =
     (if team = ''radiant'' then (radiant, dire) else if team = ''dire'' then (dire, radiant)
      else (max radiant dire, min radiant dire))"

definition dota_outcome :: "string \<Rightarrow> string \<Rightarrow> outcome" where
  "dota_outcome team win_team =
     (if win_team = [] \<or> team \<notin> {''radiant'', ''dire''} then Incomplete
      else if eq_ignore_case win_team team then Win else Loss)"

definition display_hero_name :: "string \<Rightarrow> string" where
  "display_hero_name internal =
     replace_all (CHR ''_'') '' '' (case strip_prefix ''npc_dota_hero_'' internal of Some s \<Rightarrow> s | None \<Rightarrow> internal)"

definition dota_performance :: "dota_player \<Rightarrow> performance" where
  "dota_performance q =
     no_performance\<lparr>pf_kills := stat (dq_kills q), pf_deaths := stat (dq_deaths q), pf_assists := stat (dq_assists q),
       pf_cs := stat (dq_last_hits q)\<rparr>"

definition dota_build :: "dota_payload \<Rightarrow> build_info option" where
  "dota_build p =
     (case dp_hero p of
        None \<Rightarrow> None
      | Some name \<Rightarrow> if name = [] then None else Some (no_build\<lparr>bi_character := Some (display_hero_name name)\<rparr>))"

definition dota_result :: "int \<Rightarrow> string \<Rightarrow> outcome \<Rightarrow> nat \<Rightarrow> nat \<Rightarrow> performance option \<Rightarrow> build_info option \<Rightarrow> match_result" where
  "dota_result now game_map r own opp perf build =
     \<lparr>mr_game_id = dota_game_id, mr_mode = ''match'', mr_map = game_map, mr_result = r, mr_streak_eligible = True,
      mr_own_score = own, mr_opp_score = opp, mr_performance = perf, mr_build = build, mr_run = None, mr_source = Sq_live,
      mr_ts = now\<rparr>"

definition dota_player_team :: "dota_payload \<Rightarrow> string" where
  "dota_player_team p = (case dp_player p of None \<Rightarrow> [] | Some q \<Rightarrow> dq_team q)"

definition dota_over :: "int \<Rightarrow> dota_map \<Rightarrow> dota_payload \<Rightarrow> match_result" where
  "dota_over now mp p =
     (case dota_split_scores (dota_player_team p) (dm_radiant mp) (dm_dire mp) of (own, opp) \<Rightarrow>
        dota_result now (dm_name mp) (dota_outcome (dota_player_team p) (dm_win_team mp)) own opp
          (map_option dota_performance (dp_player p)) (dota_build p))"

definition dota_started :: "dota_map \<Rightarrow> dota_state \<Rightarrow> telemetry_event list \<times> dota_state" where
  "dota_started mp st =
     (if dm_game_state mp \<in> set dota_active_states \<and> \<not> ds_active st
      then ([Match_started ''match'' (dm_name mp)],
            st\<lparr>ds_active := True, ds_last_own := 0, ds_last_opp := 0, ds_map := dm_name mp\<rparr>)
      else ([], st))"

definition dota_scored :: "nat \<times> nat \<Rightarrow> dota_state \<Rightarrow> telemetry_event list \<times> dota_state" where
  "dota_scored sc st =
     (case sc of (own, opp) \<Rightarrow>
        if ds_active st \<and> (own \<noteq> ds_last_own st \<or> opp \<noteq> ds_last_opp st)
        then ([Score_changed own opp], st\<lparr>ds_last_own := own, ds_last_opp := opp\<rparr>) else ([], st))"

definition dota_ended :: "int \<Rightarrow> dota_map \<Rightarrow> dota_payload \<Rightarrow> dota_state \<Rightarrow> telemetry_event list \<times> dota_state" where
  "dota_ended now mp p st =
     (if dm_game_state mp = ''DOTA_GAMERULES_STATE_POST_GAME'' \<and> ds_active st
      then ([Match_ended (dota_over now mp p)], st\<lparr>ds_active := False\<rparr>) else ([], st))"

definition dota_digest :: "int \<Rightarrow> dota_payload \<Rightarrow> dota_state \<Rightarrow> telemetry_event list \<times> dota_state" where
  "dota_digest now p st =
     (case dp_map p of
        None \<Rightarrow>
          if ds_active st then ([Match_ended (dota_result now (ds_map st) Incomplete 0 0 None None)], dota_new) else ([], st)
      | Some mp \<Rightarrow>
          if dm_custom mp \<noteq> [] then ([], dota_new)
          else case dota_started mp st of (a, st1) \<Rightarrow>
            case dota_scored (dota_split_scores (dota_player_team p) (dm_radiant mp) (dm_dire mp)) st1 of (b, st2) \<Rightarrow>
              case dota_ended now mp p st2 of (c, st3) \<Rightarrow> (a @ b @ c, st3))"

definition dota_own :: "(string \<Rightarrow> json option) \<Rightarrow> string \<Rightarrow> string \<Rightarrow> dota_payload option" where
  "dota_own json_of body token =
     (case Option.bind (json_of body) de_dota_payload of
        None \<Rightarrow> None
      | Some p \<Rightarrow>
          if dp_auth p = Some token \<and> token \<noteq> [] \<and> dp_provider p = Some dota_appid then Some p else None)"

definition dota_parse :: "(string \<Rightarrow> json option) \<Rightarrow> int \<Rightarrow> string \<Rightarrow> string \<Rightarrow> dota_state \<Rightarrow> telemetry_event list \<times> dota_state" where
  "dota_parse json_of now body token st =
     (case dota_own json_of body token of None \<Rightarrow> ([], st) | Some p \<Rightarrow> dota_digest now p st)"

text \<open>The hint of \<open>start\<close>, on Windows, when no user of Steam has set the launch option.\<close>

definition dota_start :: "bool \<Rightarrow> telemetry_event list" where
  "dota_start launch_option_set =
     (if launch_option_set then []
      else [Setup_required dota_game_id
              (''Add '' @ dota_launch_option @ '' to Dota 2'' @ [CHR 0x27] @ ''s Steam launch options to track wins'')])"

section \<open>The listener\<close>

definition max_body_bytes :: nat where "max_body_bytes = 262144"

record push_state =
  ps_cs2 :: cs2_state
  ps_dota :: dota_state

definition push_new :: push_state where "push_new = \<lparr>ps_cs2 = cs2_new, ps_dota = dota_new\<rparr>"

text \<open>
  The adapters in the order of the registry. Only these two parse a payload; the others give no event, so the
  loop passes them over. The loop stops at the first adapter that gives one.
\<close>

definition offer_all :: "(string \<Rightarrow> json option) \<Rightarrow> int \<Rightarrow> string \<Rightarrow> string \<Rightarrow> push_state \<Rightarrow> telemetry_event list \<times> push_state" where
  "offer_all json_of now body token s =
     (case cs2_parse json_of now body token (ps_cs2 s) of (evs, c) \<Rightarrow>
        if evs \<noteq> [] then (evs, s\<lparr>ps_cs2 := c\<rparr>)
        else case dota_parse json_of now body token (ps_dota s) of (evs', d) \<Rightarrow> (evs', s\<lparr>ps_cs2 := c, ps_dota := d\<rparr>))"

text \<open>
  One request: its declared length, the bytes that can be read from it, the answer, what is sent. Bytes that are no
  UTF-8 text leave the text empty.
\<close>

definition request_text :: "nat list \<Rightarrow> string" where
  "request_text bytes = (case utf8_text (take (max_body_bytes + 1) bytes) of None \<Rightarrow> [] | Some t \<Rightarrow> t)"

definition listen_request :: "(string \<Rightarrow> json option) \<Rightarrow> int \<Rightarrow> string \<Rightarrow> nat option \<Rightarrow> nat list \<Rightarrow> push_state \<Rightarrow>
    nat \<times> telemetry_event list \<times> push_state" where
  "listen_request json_of now token declared bytes s =
     (if (case declared of None \<Rightarrow> 0 | Some n \<Rightarrow> n) > max_body_bytes then (413, [], s)
      else let body = request_text bytes
           in if body = [] \<or> length body > max_body_bytes then (200, [], s)
              else (200, offer_all json_of now body token s))"

text \<open>The loop: a send that fails, which is when nobody receives, ends it.\<close>

fun listen_loop :: "(string \<Rightarrow> json option) \<Rightarrow> string \<Rightarrow> (int \<times> nat option \<times> nat list \<times> bool) list \<Rightarrow> push_state \<Rightarrow>
    telemetry_event list \<times> push_state" where
  "listen_loop json_of token [] s = ([], s)"
| "listen_loop json_of token ((now, declared, bytes, received) # rs) s =
     (case listen_request json_of now token declared bytes s of (_, evs, s1) \<Rightarrow>
        if evs \<noteq> [] \<and> \<not> received then ([], s1)
        else case listen_loop json_of token rs s1 of (evs', s2) \<Rightarrow> (evs @ evs', s2))"


section \<open>The token of the install\<close>

text \<open>The generated token is an argument: random letters and digits.\<close>

definition load_or_create_token :: "string write_outcome \<Rightarrow> string \<Rightarrow> string option \<Rightarrow> (string \<rightharpoonup> string) \<Rightarrow> string \<times> (string \<rightharpoonup> string)" where
  "load_or_create_token w fresh path d =
     (case path of
        None \<Rightarrow> (fresh, d)
      | Some p \<Rightarrow>
          let existing = (case d p of None \<Rightarrow> [] | Some t \<Rightarrow> trim_text t)
          in if existing \<noteq> [] then (existing, d) else (fresh, write_file w p fresh d))"

section \<open>Configuration files\<close>

datatype telemetry_error = Unsupported | Game_not_found string | Io_error

definition win_join :: "string \<Rightarrow> string \<Rightarrow> string" where "win_join = path_join backslash"

text \<open>The folders of Steam: the root of the registry and what its list of libraries names.\<close>

definition library_folders :: "string option \<Rightarrow> (string \<rightharpoonup> string) \<Rightarrow> telemetry_error + string list" where
  "library_folders steam_root d =
     (case steam_root of
        None \<Rightarrow> Inl (Game_not_found ''Steam not found in registry'')
      | Some root \<Rightarrow>
          Inr (root # (case d (win_join (win_join root ''steamapps'') ''libraryfolders.vdf'') of
                         None \<Rightarrow> [] | Some contents \<Rightarrow> parse_library_paths contents)))"

definition app_subdir :: "string \<Rightarrow> string list \<Rightarrow> string \<Rightarrow> string" where
  "app_subdir app_dir suffix lib =
     foldl win_join (win_join (win_join (win_join lib ''steamapps'') ''common'') app_dir) suffix"

definition find_app_subdir :: "string option \<Rightarrow> (string \<Rightarrow> bool) \<Rightarrow> (string \<rightharpoonup> string) \<Rightarrow> string \<Rightarrow> string list \<Rightarrow> string \<Rightarrow>
    telemetry_error + string" where
  "find_app_subdir steam_root is_dir d app_dir suffix not_found =
     (case library_folders steam_root d of
        Inl e \<Rightarrow> Inl e
      | Inr libs \<Rightarrow>
          (case List.find is_dir (map (app_subdir app_dir suffix) libs) of
             None \<Rightarrow> Inl (Game_not_found not_found)
           | Some dir \<Rightarrow> Inr dir))"

definition any_localconfig_contains :: "string option \<Rightarrow> (string \<rightharpoonup> string list) \<Rightarrow> (string \<rightharpoonup> string) \<Rightarrow> string \<Rightarrow> bool" where
  "any_localconfig_contains steam_root list_dir d needle =
     (case steam_root of
        None \<Rightarrow> False
      | Some root \<Rightarrow>
          (case list_dir (win_join root ''userdata'') of
             None \<Rightarrow> False
           | Some users \<Rightarrow>
               list_ex (\<lambda>user. case d (win_join (win_join user ''config'') ''localconfig.vdf'') of
                                None \<Rightarrow> False | Some contents \<Rightarrow> contains contents needle) users))"

definition quoted :: "string \<Rightarrow> string" where "quoted s = [quote] @ s @ [quote]"

definition cfg_lines :: "string list \<Rightarrow> string" where
  "cfg_lines ls = concat (map (\<lambda>l. l @ [newline]) ls)"

definition cfg_head :: "string \<Rightarrow> nat \<Rightarrow> string list" where
  "cfg_head token port =
     [quoted ''Mello Game State Integration v1'', ''{'',
      ''    '' @ quoted ''uri'' @ ''     '' @ quoted (''http://127.0.0.1:'' @ show_nat port),
      ''    '' @ quoted ''timeout'' @ '' '' @ quoted ''5.0'',
      ''    '' @ quoted ''auth'', ''    {'',
      ''        '' @ quoted ''token'' @ '' '' @ quoted token, ''    }'',
      ''    '' @ quoted ''data'', ''    {'']"

definition cs2_render_cfg :: "string \<Rightarrow> nat \<Rightarrow> string" where
  "cs2_render_cfg token port =
     cfg_lines (cfg_head token port @
       [''        '' @ quoted ''provider'' @ ''           '' @ quoted ''1'',
        ''        '' @ quoted ''map'' @ ''                '' @ quoted ''1'',
        ''        '' @ quoted ''round'' @ ''              '' @ quoted ''1'',
        ''        '' @ quoted ''player_id'' @ ''          '' @ quoted ''1'',
        ''        '' @ quoted ''player_state'' @ ''       '' @ quoted ''1'',
        ''        '' @ quoted ''player_match_stats'' @ '' '' @ quoted ''1'',
        ''    }'', ''}''])"

definition dota_render_cfg :: "string \<Rightarrow> nat \<Rightarrow> string" where
  "dota_render_cfg token port =
     cfg_lines (cfg_head token port @
       [''        '' @ quoted ''provider'' @ '' '' @ quoted ''1'',
        ''        '' @ quoted ''map'' @ ''      '' @ quoted ''1'',
        ''        '' @ quoted ''player'' @ ''   '' @ quoted ''1'',
        ''        '' @ quoted ''hero'' @ ''     '' @ quoted ''1'',
        ''    }'', ''}''])"

definition cfg_file_name :: string where "cfg_file_name = ''gamestate_integration_mello.cfg''"

text \<open>A file is written only when its text is another one. The flag of the result says that it was written.\<close>

definition install_text :: "string write_outcome \<Rightarrow> string \<Rightarrow> string \<Rightarrow> (string \<rightharpoonup> string) \<Rightarrow>
    (telemetry_error + bool) \<times> (string \<rightharpoonup> string)" where
  "install_text w path desired d =
     (if (case d path of None \<Rightarrow> [] | Some current \<Rightarrow> current) = desired then (Inr False, d)
      else ((if w = Written then Inr True else Inl Io_error), write_file w path desired d))"

definition cs2_install :: "string option \<Rightarrow> (string \<Rightarrow> bool) \<Rightarrow> string write_outcome \<Rightarrow> string \<Rightarrow> nat \<Rightarrow> (string \<rightharpoonup> string) \<Rightarrow>
    (telemetry_error + bool) \<times> (string \<rightharpoonup> string)" where
  "cs2_install steam_root is_dir w token port d =
     (case find_app_subdir steam_root is_dir d ''Counter-Strike Global Offensive'' [''game'', ''csgo'', ''cfg'']
             ''CS2 install (app 730) not found in any Steam library'' of
        Inl e \<Rightarrow> (Inl e, d)
      | Inr dir \<Rightarrow> install_text w (win_join dir cfg_file_name) (cs2_render_cfg token port) d)"

text \<open>Dota 2 wants its file in a folder that \<open>create_dir_all\<close> makes; whether that works is an argument.\<close>

definition dota_install :: "string option \<Rightarrow> (string \<Rightarrow> bool) \<Rightarrow> bool \<Rightarrow> string write_outcome \<Rightarrow> string \<Rightarrow> nat \<Rightarrow> (string \<rightharpoonup> string) \<Rightarrow>
    (telemetry_error + bool) \<times> (string \<rightharpoonup> string)" where
  "dota_install steam_root is_dir made w token port d =
     (case find_app_subdir steam_root is_dir d ''dota 2 beta'' [''game'', ''dota'', ''cfg'']
             ''Dota 2 install (app 570) not found in any Steam library'' of
        Inl e \<Rightarrow> (Inl e, d)
      | Inr dir \<Rightarrow>
          if \<not> made then (Inl Io_error, d)
          else install_text w (win_join (win_join dir ''gamestate_integration'') cfg_file_name) (dota_render_cfg token port) d)"

text \<open>Rocket League has one text for its file, and a file that names the exporter already is left alone.\<close>

definition stats_ini :: string where
  "stats_ini = cfg_lines [''[TAGame.MatchStatsExporter_TA]'', ''Port=49123'', ''PacketSendRate=10'']"

definition rl_install :: "string option \<Rightarrow> (string \<Rightarrow> bool) \<Rightarrow> string write_outcome \<Rightarrow> (string \<rightharpoonup> string) \<Rightarrow>
    (telemetry_error + bool) \<times> (string \<rightharpoonup> string)" where
  "rl_install steam_root is_dir w d =
     (case find_app_subdir steam_root is_dir d ''rocketleague'' [''TAGame'', ''Config'']
             ''Rocket League install not found in any Steam library'' of
        Inl e \<Rightarrow> (Inl e, d)
      | Inr dir \<Rightarrow>
          let path = win_join dir ''DefaultStatsAPI.ini'';
              current = (case d path of None \<Rightarrow> [] | Some c \<Rightarrow> c)
          in if contains current ''MatchStatsExporter_TA'' then (Inr False, d)
             else ((if w = Written then Inr True else Inl Io_error), write_file w path stats_ini d))"

end
