(* ===== verification/Poll_Adapters.thy ===== *)
theory Poll_Adapters
  imports Push_Adapters
begin

text \<open>
  The adapters that ask a running game: Rocket League's stream of events (\<open>telemetry/rocket_league.rs\<close>), and the
  local servers of League of Legends (\<open>lol_live.rs\<close>), StarCraft II (\<open>sc2_client.rs\<close>) and Legends of Runeterra
  (\<open>lor_local.rs\<close>); Minecraft's statistics before and after a session (\<open>minecraft_stats.rs\<close>). What a
  socket or a server gave at a poll, the reader of JSON texts and the time are arguments.
\<close>

text \<open>The result every adapter here starts from.\<close>

definition live_result :: "string \<Rightarrow> string \<Rightarrow> string \<Rightarrow> int \<Rightarrow> match_result" where
  "live_result game_id mode game_map now =
     \<lparr>mr_game_id = game_id, mr_mode = mode, mr_map = game_map, mr_result = Incomplete, mr_streak_eligible = False,
      mr_own_score = 0, mr_opp_score = 0, mr_performance = None, mr_build = None, mr_run = None, mr_source = Sq_live,
      mr_ts = now\<rparr>"

text \<open>An active adapter runs once: \<open>start\<close> while it runs does nothing. Whether the thread starts is an argument.\<close>

definition adapter_start :: "'s \<Rightarrow> bool \<Rightarrow> bool \<times> 's \<Rightarrow> bool \<times> 's" where
  "adapter_start new spawned rs = (case rs of (running, st) \<Rightarrow> if running then (running, st) else (spawned, new))"

definition adapter_reset :: "'s \<Rightarrow> bool \<times> 's \<Rightarrow> bool \<times> 's" where
  "adapter_reset new rs = (False, new)"

section \<open>Rocket League\<close>

definition rl_game_id :: string where "rl_game_id = ''rocket-league''"

record rl_tick =
  rt_name :: string
  rt_score :: int
  rt_goals :: int
  rt_shots :: int
  rt_assists :: int
  rt_saves :: int

record rl_state =
  rl_active :: bool
  rl_online :: bool
  rl_own_team :: "nat option"
  rl_own_name :: string
  rl_arena :: string
  rl_scores :: "nat \<times> nat"
  rl_own_stats :: "rl_tick option"

definition rl_new :: rl_state where
  "rl_new = \<lparr>rl_active = False, rl_online = False, rl_own_team = None, rl_own_name = [], rl_arena = [],
     rl_scores = (0, 0), rl_own_stats = None\<rparr>"

record rl_game =
  rg_teams :: "(nat \<times> int) list"
  rg_arena :: string
  rg_replay :: bool
  rg_target :: "(string \<times> nat) option"

definition rl_game_new :: rl_game where
  "rl_game_new = \<lparr>rg_teams = [], rg_arena = [], rg_replay = False, rg_target = None\<rparr>"

definition de_rl_tick :: "json \<Rightarrow> rl_tick option" where
  "de_rl_tick j = do {
     fs \<leftarrow> struct_fields [(''Name'', True), (''Score'', True), (''Goals'', True), (''Shots'', True), (''Assists'', True), (''Saves'', True)] j;
     name \<leftarrow> de_field [] de_string (fs ! 0);
     score \<leftarrow> de_field 0 de_i32 (fs ! 1);
     goals \<leftarrow> de_field 0 de_i32 (fs ! 2);
     shots \<leftarrow> de_field 0 de_i32 (fs ! 3);
     assists \<leftarrow> de_field 0 de_i32 (fs ! 4);
     saves \<leftarrow> de_field 0 de_i32 (fs ! 5);
     Some \<lparr>rt_name = name, rt_score = score, rt_goals = goals, rt_shots = shots, rt_assists = assists, rt_saves = saves\<rparr> }"

definition de_rl_team :: "json \<Rightarrow> (nat \<times> int) option" where
  "de_rl_team j = do {
     fs \<leftarrow> struct_fields [(''TeamNum'', True), (''Score'', True)] j;
     team \<leftarrow> de_field 0 de_u8 (fs ! 0);
     score \<leftarrow> de_field 0 de_i32 (fs ! 1);
     Some (team, score) }"

definition de_rl_target :: "json \<Rightarrow> (string \<times> nat) option" where
  "de_rl_target j = do {
     fs \<leftarrow> struct_fields [(''Name'', True), (''TeamNum'', True)] j;
     name \<leftarrow> de_field [] de_string (fs ! 0);
     team \<leftarrow> de_field 0 de_u8 (fs ! 1);
     Some (name, team) }"

definition de_rl_game :: "json \<Rightarrow> rl_game option" where
  "de_rl_game j = do {
     fs \<leftarrow> struct_fields [(''Teams'', True), (''Arena'', True), (''bReplay'', True), (''Target'', True)] j;
     teams \<leftarrow> de_field [] (de_list de_rl_team) (fs ! 0);
     arena \<leftarrow> de_field [] de_string (fs ! 1);
     replay \<leftarrow> de_field False de_bool (fs ! 2);
     target \<leftarrow> de_field None (de_option de_rl_target) (fs ! 3);
     Some \<lparr>rg_teams = teams, rg_arena = arena, rg_replay = replay, rg_target = target\<rparr> }"

definition de_rl_update :: "json \<Rightarrow> (rl_tick list \<times> rl_game) option" where
  "de_rl_update j = do {
     fs \<leftarrow> struct_fields [(''Players'', True), (''Game'', True)] j;
     players \<leftarrow> de_field [] (de_list de_rl_tick) (fs ! 0);
     game \<leftarrow> de_field rl_game_new de_rl_game (fs ! 1);
     Some (players, game) }"

definition de_rl_ended :: "json \<Rightarrow> int option" where
  "de_rl_ended j = do { fs \<leftarrow> struct_fields [(''WinnerTeamNum'', True)] j; de_field 0 de_i64 (fs ! 0) }"

definition de_envelope :: "json \<Rightarrow> (string \<times> json) option" where
  "de_envelope j = do {
     fs \<leftarrow> struct_fields [(''Event'', True), (''Data'', True)] j;
     event \<leftarrow> de_field [] de_string (fs ! 0);
     value \<leftarrow> de_field Json_null (\<lambda>v. Some (json_value v)) (fs ! 1);
     Some (event, value) }"

definition rl_match_guid :: "json \<Rightarrow> string" where
  "rl_match_guid value = (case Option.bind (json_get ''MatchGuid'' value) de_string of None \<Rightarrow> [] | Some g \<Rightarrow> g)"

definition oriented_scores :: "rl_state \<Rightarrow> nat \<times> nat" where
  "oriented_scores st =
     (case rl_scores st of (blue, orange) \<Rightarrow>
        if rl_own_team st = Some 0 then (blue, orange) else if rl_own_team st = Some 1 then (orange, blue)
        else (max blue orange, min blue orange))"

definition finalize_incomplete :: "int \<Rightarrow> rl_state \<Rightarrow> telemetry_event list \<times> rl_state" where
  "finalize_incomplete now st =
     (if \<not> rl_active st then ([], st)
      else ([Match_ended ((live_result rl_game_id ''match'' (rl_arena st) now)\<lparr>mr_streak_eligible := rl_online st\<rparr>)], rl_new))"

text \<open>The goals of both teams in one tick: a team number above one has no slot.\<close>

definition tick_scores :: "(nat \<times> int) list \<Rightarrow> nat \<times> nat" where
  "tick_scores teams =
     fold (\<lambda>(t, g) (b, or). if t = 0 then (nat g, or) else if t = 1 then (b, nat g) else (b, or)) teams (0, 0)"

text \<open>A tick of a match in its parts: tracking begins, the arena, the local player, the goals.\<close>

definition rl_begin :: "json \<Rightarrow> rl_game \<Rightarrow> rl_state \<Rightarrow> telemetry_event list \<times> rl_state" where
  "rl_begin value game st =
     (let first_tick = \<not> rl_active st;
          st1 = (if first_tick then st\<lparr>rl_active := True, rl_online := rl_online st \<or> rl_match_guid value \<noteq> []\<rparr> else st);
          st2 = (if rg_arena game = [] then st1 else st1\<lparr>rl_arena := rg_arena game\<rparr>)
      in (if first_tick then [Match_started ''match'' (rl_arena st2)] else [], st2))"

definition rl_local :: "rl_tick list \<Rightarrow> rl_game \<Rightarrow> rl_state \<Rightarrow> rl_state" where
  "rl_local players game st =
     (let st1 = (if rg_replay game then st
                 else case rg_target game of
                        Some (name, team) \<Rightarrow> if name = [] then st else st\<lparr>rl_own_team := Some team, rl_own_name := name\<rparr>
                      | None \<Rightarrow> st)
      in case List.find (\<lambda>p. rt_name p = rl_own_name st1) players of
           Some me \<Rightarrow> st1\<lparr>rl_own_stats := Some me\<rparr> | None \<Rightarrow> st1)"

definition rl_goals :: "rl_game \<Rightarrow> rl_state \<Rightarrow> telemetry_event list \<times> rl_state" where
  "rl_goals game st =
     (let scores = tick_scores (rg_teams game)
      in if scores \<noteq> rl_scores st
         then let st1 = st\<lparr>rl_scores := scores\<rparr> in ([case oriented_scores st1 of (own, opp) \<Rightarrow> Score_changed own opp], st1)
         else ([], st))"

definition rl_update :: "json \<Rightarrow> rl_tick list \<Rightarrow> rl_game \<Rightarrow> rl_state \<Rightarrow> telemetry_event list \<times> rl_state" where
  "rl_update value players game st =
     (case rl_begin value game st of (a, st1) \<Rightarrow>
        case rl_goals game (rl_local players game st1) of (b, st2) \<Rightarrow> (a @ b, st2))"

definition rl_performance :: "rl_tick \<Rightarrow> performance" where
  "rl_performance p =
     no_performance\<lparr>pf_goals := stat (rt_goals p), pf_assists := stat (rt_assists p), pf_saves := stat (rt_saves p),
       pf_shots := stat (rt_shots p), pf_score := stat (rt_score p)\<rparr>"

definition rl_outcome :: "nat option \<Rightarrow> int \<Rightarrow> outcome" where
  "rl_outcome own_team winner =
     (case own_team of None \<Rightarrow> Incomplete | Some own \<Rightarrow> if 0 \<le> winner \<and> winner \<le> 255 \<and> nat winner = own then Win else Loss)"

definition rl_over :: "int \<Rightarrow> int \<Rightarrow> rl_state \<Rightarrow> match_result" where
  "rl_over now winner st =
     (case oriented_scores st of (own, opp) \<Rightarrow>
        (live_result rl_game_id ''match'' (rl_arena st) now)
          \<lparr>mr_result := rl_outcome (rl_own_team st) winner, mr_streak_eligible := rl_online st, mr_own_score := own,
           mr_opp_score := opp, mr_performance := map_option rl_performance (rl_own_stats st)\<rparr>)"

definition rl_digest :: "int \<Rightarrow> string \<times> json \<Rightarrow> rl_state \<Rightarrow> telemetry_event list \<times> rl_state" where
  "rl_digest now env st =
     (case env of (event, value) \<Rightarrow>
        if event = ''MatchCreated'' then ([], rl_new\<lparr>rl_online := rl_match_guid value \<noteq> []\<rparr>)
        else if event = ''UpdateState'' then
          (case de_rl_update value of None \<Rightarrow> ([], st) | Some (players, game) \<Rightarrow> rl_update value players game st)
        else if event = ''MatchEnded'' then
          if \<not> rl_active st then ([], st)
          else let st1 = st\<lparr>rl_active := False\<rparr>
               in (case de_rl_ended value of None \<Rightarrow> ([], st1) | Some winner \<Rightarrow> ([Match_ended (rl_over now winner st1)], st1))
        else if event = ''MatchDestroyed'' then finalize_incomplete now st
        else ([], st))"

text \<open>One connection: the values the stream gives until the framing is lost, then the end of the connection.\<close>

fun rl_stream :: "(int \<times> json option) list \<Rightarrow> int \<Rightarrow> rl_state \<Rightarrow> telemetry_event list \<times> rl_state" where
  "rl_stream [] closed st = finalize_incomplete closed st"
| "rl_stream ((now, j) # js) closed st =
     (case Option.bind j de_envelope of
        None \<Rightarrow> finalize_incomplete closed st
      | Some env \<Rightarrow>
          case rl_digest now env st of (a, st1) \<Rightarrow> case rl_stream js closed st1 of (b, st2) \<Rightarrow> (a @ b, st2))"

text \<open>The connections one after the other.\<close>

fun rl_streams :: "((int \<times> json option) list \<times> int) list \<Rightarrow> rl_state \<Rightarrow> telemetry_event list \<times> rl_state" where
  "rl_streams [] st = ([], st)"
| "rl_streams ((js, closed) # cs) st =
     (case rl_stream js closed st of (a, st1) \<Rightarrow> case rl_streams cs st1 of (b, st2) \<Rightarrow> (a @ b, st2))"


section \<open>League of Legends\<close>

definition lol_game_id :: string where "lol_game_id = ''league-of-legends''"
definition non_streak_modes :: "string list" where "non_streak_modes = [''PRACTICETOOL'', ''TUTORIAL'']"

record lol_state =
  ll_active :: bool
  ll_ended :: bool

definition lol_new :: lol_state where "lol_new = \<lparr>ll_active = False, ll_ended = False\<rparr>"

record lol_scores =
  ls_kills :: int
  ls_deaths :: int
  ls_assists :: int
  ls_creep :: int

definition lol_scores_new :: lol_scores where
  "lol_scores_new = \<lparr>ls_kills = 0, ls_deaths = 0, ls_assists = 0, ls_creep = 0\<rparr>"

record lol_player =
  lp_riot_id :: string
  lp_summoner :: string
  lp_champion :: string
  lp_team :: string
  lp_scores :: lol_scores

record lol_data =
  ld_riot_id :: string
  ld_summoner :: string
  ld_players :: "lol_player list"
  ld_events :: "(string \<times> string) list"
  ld_mode :: string
  ld_map :: string

definition de_pair :: "string \<Rightarrow> string \<Rightarrow> json \<Rightarrow> (string \<times> string) option" where
  "de_pair k l j = do {
     fs \<leftarrow> struct_fields [(k, True), (l, True)] j;
     a \<leftarrow> de_field [] de_string (fs ! 0);
     b \<leftarrow> de_field [] de_string (fs ! 1);
     Some (a, b) }"

definition de_lol_scores :: "json \<Rightarrow> lol_scores option" where
  "de_lol_scores j = do {
     fs \<leftarrow> struct_fields [(''kills'', True), (''deaths'', True), (''assists'', True), (''creepScore'', True)] j;
     kills \<leftarrow> de_field 0 de_i32 (fs ! 0);
     deaths \<leftarrow> de_field 0 de_i32 (fs ! 1);
     assists \<leftarrow> de_field 0 de_i32 (fs ! 2);
     creep \<leftarrow> de_field 0 de_i32 (fs ! 3);
     Some \<lparr>ls_kills = kills, ls_deaths = deaths, ls_assists = assists, ls_creep = creep\<rparr> }"

definition de_lol_player :: "json \<Rightarrow> lol_player option" where
  "de_lol_player j = do {
     fs \<leftarrow> struct_fields [(''riotId'', True), (''summonerName'', True), (''championName'', True), (''team'', True), (''scores'', True)] j;
     riot_id \<leftarrow> de_field [] de_string (fs ! 0);
     summoner \<leftarrow> de_field [] de_string (fs ! 1);
     champion \<leftarrow> de_field [] de_string (fs ! 2);
     team \<leftarrow> de_field [] de_string (fs ! 3);
     scores \<leftarrow> de_field lol_scores_new de_lol_scores (fs ! 4);
     Some \<lparr>lp_riot_id = riot_id, lp_summoner = summoner, lp_champion = champion, lp_team = team, lp_scores = scores\<rparr> }"

definition de_lol_events :: "json \<Rightarrow> (string \<times> string) list option" where
  "de_lol_events j = do {
     fs \<leftarrow> struct_fields [(''Events'', True)] j;
     de_field [] (de_list (de_pair ''EventName'' ''Result'')) (fs ! 0) }"

definition de_lol_data :: "json \<Rightarrow> lol_data option" where
  "de_lol_data j = do {
     fs \<leftarrow> struct_fields [(''activePlayer'', True), (''allPlayers'', True), (''events'', True), (''gameData'', True)] j;
     (riot_id, summoner) \<leftarrow> de_field ([], []) (de_pair ''riotId'' ''summonerName'') (fs ! 0);
     players \<leftarrow> de_field [] (de_list de_lol_player) (fs ! 1);
     events \<leftarrow> de_field [] de_lol_events (fs ! 2);
     (mode, game_map) \<leftarrow> de_field ([], []) (de_pair ''gameMode'' ''mapName'') (fs ! 3);
     Some \<lparr>ld_riot_id = riot_id, ld_summoner = summoner, ld_players = players, ld_events = events, ld_mode = mode,
       ld_map = game_map\<rparr> }"

definition game_end_result :: "lol_data \<Rightarrow> string option" where
  "game_end_result p = map_option snd (List.find (\<lambda>(name, _). name = ''GameEnd'') (ld_events p))"

definition active_player_entry :: "lol_data \<Rightarrow> lol_player option" where
  "active_player_entry p =
     (let name = (if ld_riot_id p \<noteq> [] then ld_riot_id p else ld_summoner p)
      in if name = [] then None else List.find (\<lambda>q. lp_riot_id q = name \<or> lp_summoner q = name) (ld_players p))"

definition kill_sum :: "string \<Rightarrow> lol_player list \<Rightarrow> nat" where
  "kill_sum team qs =
     fold (\<lambda>q n. if lp_team q = team then wrap_u u32_max (n + nat (ls_kills (lp_scores q))) else n) qs 0"

definition team_kills :: "string \<Rightarrow> lol_data \<Rightarrow> nat \<times> nat" where
  "team_kills own_team p =
     (let order = kill_sum ''ORDER'' (ld_players p); chaos = kill_sum ''CHAOS'' (ld_players p)
      in if own_team = ''ORDER'' then (order, chaos) else if own_team = ''CHAOS'' then (chaos, order)
         else (max order chaos, min order chaos))"

definition lol_outcome :: "string \<Rightarrow> outcome" where
  "lol_outcome result = (if result = ''Win'' then Win else if result = ''Lose'' then Loss else Incomplete)"

definition lol_performance :: "lol_player \<Rightarrow> performance" where
  "lol_performance q =
     no_performance\<lparr>pf_kills := stat (ls_kills (lp_scores q)), pf_deaths := stat (ls_deaths (lp_scores q)),
       pf_assists := stat (ls_assists (lp_scores q)), pf_cs := stat (ls_creep (lp_scores q))\<rparr>"

definition lol_over :: "int \<Rightarrow> string \<Rightarrow> lol_data \<Rightarrow> match_result" where
  "lol_over now result p =
     (let me = active_player_entry p
      in case team_kills (case me of None \<Rightarrow> [] | Some q \<Rightarrow> lp_team q) p of (own, opp) \<Rightarrow>
        (live_result lol_game_id (ld_mode p) (ld_map p) now)
          \<lparr>mr_result := lol_outcome result, mr_streak_eligible := ld_mode p \<notin> set non_streak_modes, mr_own_score := own,
           mr_opp_score := opp, mr_performance := map_option lol_performance me,
           mr_build := (case me of None \<Rightarrow> None
                        | Some q \<Rightarrow> if lp_champion q = [] then None else Some (no_build\<lparr>bi_character := Some (lp_champion q)\<rparr>))\<rparr>)"

definition lol_digest :: "int \<Rightarrow> lol_data option \<Rightarrow> lol_state \<Rightarrow> telemetry_event list \<times> lol_state" where
  "lol_digest now parsed st =
     (case parsed of
        None \<Rightarrow> ([], st)
      | Some p \<Rightarrow>
          if ld_mode p = [] then ([], st)
          else (case game_end_result p of
                  None \<Rightarrow>
                    if \<not> ll_active st then ([Match_started (ld_mode p) (ld_map p)], st\<lparr>ll_active := True, ll_ended := False\<rparr>)
                    else ([], st)
                | Some result \<Rightarrow>
                    if ll_active st \<and> \<not> ll_ended st
                    then ([Match_ended (lol_over now result p)], st\<lparr>ll_active := False, ll_ended := True\<rparr>)
                    else ([], st)))"

section \<open>StarCraft II\<close>

definition sc2_game_id :: string where "sc2_game_id = ''starcraft-2''"

record sc2_state =
  sc_in_game :: bool
  sc_replay :: bool
  sc_mode :: string

definition sc2_new :: sc2_state where "sc2_new = \<lparr>sc_in_game = False, sc_replay = False, sc_mode = []\<rparr>"

record sc2_player =
  sp_kind :: string
  sp_race :: string
  sp_result :: string

record sc2_game =
  sg_replay :: bool
  sg_players :: "sc2_player list"

definition de_sc2_ui :: "json \<Rightarrow> string list option" where
  "de_sc2_ui j = do {
     fs \<leftarrow> struct_fields [(''activeScreens'', True)] j;
     de_field [] (de_list de_string) (fs ! 0) }"

definition de_sc2_player :: "json \<Rightarrow> sc2_player option" where
  "de_sc2_player j = do {
     fs \<leftarrow> struct_fields [(''type'', True), (''race'', True), (''result'', True)] j;
     kind \<leftarrow> de_field [] de_string (fs ! 0);
     race \<leftarrow> de_field [] de_string (fs ! 1);
     result \<leftarrow> de_field [] de_string (fs ! 2);
     Some \<lparr>sp_kind = kind, sp_race = race, sp_result = result\<rparr> }"

definition de_sc2_game :: "json \<Rightarrow> sc2_game option" where
  "de_sc2_game j = do {
     fs \<leftarrow> struct_fields [(''isReplay'', True), (''players'', True)] j;
     replay \<leftarrow> de_field False de_bool (fs ! 0);
     players \<leftarrow> de_field [] (de_list de_sc2_player) (fs ! 1);
     Some \<lparr>sg_replay = replay, sg_players = players\<rparr> }"

definition sc2_users :: "sc2_player list \<Rightarrow> sc2_player list" where
  "sc2_users ps = filter (\<lambda>p. sp_kind p = ''user'') ps"

definition sc2_derive_mode :: "sc2_player list \<Rightarrow> string" where
  "sc2_derive_mode ps =
     (if length (sc2_users ps) \<le> 1 then ''vs AI''
      else let half = length ps div 2 in show_nat half @ ''v'' @ show_nat (length ps - half))"

definition race_name :: "string \<Rightarrow> string" where
  "race_name raw =
     (if raw = ''Terr'' then ''Terran'' else if raw = ''Prot'' then ''Protoss'' else if raw = ''Zerg'' then ''Zerg''
      else if raw = ''random'' then ''Random'' else raw)"

definition sc2_outcome :: "string \<Rightarrow> outcome" where
  "sc2_outcome r = (if r = ''Victory'' then Win else if r = ''Defeat'' then Loss else if r = ''Tie'' then Draw else Incomplete)"

definition sc2_conclude :: "int \<Rightarrow> string \<Rightarrow> sc2_player list \<Rightarrow> match_result" where
  "sc2_conclude now mode ps =
     (case sc2_users ps of
        [me] \<Rightarrow>
          (live_result sc2_game_id mode [] now)
            \<lparr>mr_result := sc2_outcome (sp_result me),
             mr_build := (if sp_race me = [] then None else Some (no_build\<lparr>bi_character := Some (race_name (sp_race me))\<rparr>))\<rparr>
      | _ \<Rightarrow> live_result sc2_game_id mode [] now)"

definition sc2_digest :: "int \<Rightarrow> (string list \<times> sc2_game) option \<Rightarrow> sc2_state \<Rightarrow> telemetry_event list \<times> sc2_state" where
  "sc2_digest now parsed st =
     (case parsed of
        None \<Rightarrow> ([], st)
      | Some (screens, game) \<Rightarrow>
          if screens = [] \<and> \<not> sc_in_game st then
            if sg_players game = [] then ([], st)
            else let st1 = st\<lparr>sc_in_game := True, sc_replay := sg_replay game, sc_mode := sc2_derive_mode (sg_players game)\<rparr>
                 in (if sc_replay st1 then [] else [Match_started (sc_mode st1) []], st1)
          else if screens \<noteq> [] \<and> sc_in_game st then
            (if sc_replay st then [] else [Match_ended (sc2_conclude now (sc_mode st) (sg_players game))],
             st\<lparr>sc_mode := [], sc_in_game := False, sc_replay := False\<rparr>)
          else ([], st))"

text \<open>What the two servers answered: both texts must be there and parse.\<close>

definition sc2_answers :: "(string \<Rightarrow> json option) \<Rightarrow> string option \<Rightarrow> string option \<Rightarrow> (string list \<times> sc2_game) option" where
  "sc2_answers json_of ui game = do {
     u \<leftarrow> ui; g \<leftarrow> game;
     uj \<leftarrow> json_of u; screens \<leftarrow> de_sc2_ui uj;
     gj \<leftarrow> json_of g; info \<leftarrow> de_sc2_game gj;
     Some (screens, info) }"

definition lol_answer :: "(string \<Rightarrow> json option) \<Rightarrow> string option \<Rightarrow> lol_data option" where
  "lol_answer json_of body = do { b \<leftarrow> body; j \<leftarrow> json_of b; de_lol_data j }"


section \<open>Legends of Runeterra\<close>

definition lor_game_id :: string where "lor_game_id = ''legends-of-runeterra''"

record lor_state =
  lr_baseline :: "int option"
  lr_last_emitted :: "int option"
  lr_deck_code :: string
  lr_started :: bool

definition lor_new :: lor_state where
  "lor_new = \<lparr>lr_baseline = None, lr_last_emitted = None, lr_deck_code = [], lr_started = False\<rparr>"

definition de_lor_result :: "json \<Rightarrow> (int \<times> bool) option" where
  "de_lor_result j = do {
     fs \<leftarrow> struct_fields [(''GameID'', True), (''LocalPlayerWon'', True)] j;
     game \<leftarrow> de_field 0 de_i64 (fs ! 0);
     won \<leftarrow> de_field False de_bool (fs ! 1);
     Some (game, won) }"

definition de_lor_deck :: "json \<Rightarrow> string option" where
  "de_lor_deck j = do { fs \<leftarrow> struct_fields [(''DeckCode'', True)] j; de_field [] de_string (fs ! 0) }"

definition lor_deck :: "string option \<Rightarrow> lor_state \<Rightarrow> telemetry_event list \<times> lor_state" where
  "lor_deck deck st =
     (case deck of
        None \<Rightarrow> ([], st)
      | Some code \<Rightarrow>
          if code = [] then ([], st)
          else let st1 = st\<lparr>lr_deck_code := code\<rparr>
               in if lr_started st1 then ([], st1) else ([Match_started ''match'' []], st1\<lparr>lr_started := True\<rparr>))"

definition lor_over :: "int \<Rightarrow> bool \<Rightarrow> string \<Rightarrow> match_result" where
  "lor_over now won deck =
     (live_result lor_game_id ''match'' [] now)
       \<lparr>mr_result := if won then Win else Loss, mr_streak_eligible := True,
        mr_build := if deck = [] then None else Some (no_build\<lparr>bi_deck_code := Some deck\<rparr>)\<rparr>"

definition lor_result :: "int \<Rightarrow> (int \<times> bool) option \<Rightarrow> lor_state \<Rightarrow> telemetry_event list \<times> lor_state" where
  "lor_result now result st =
     (case result of
        None \<Rightarrow> ([], st)
      | Some (game, won) \<Rightarrow>
          (case lr_baseline st of
             None \<Rightarrow> ([], st\<lparr>lr_baseline := Some game, lr_last_emitted := Some game\<rparr>)
           | Some baseline \<Rightarrow>
               if game > baseline \<and> lr_last_emitted st \<noteq> Some game
               then ([Match_ended (lor_over now won (lr_deck_code st))],
                     st\<lparr>lr_last_emitted := Some game, lr_started := False, lr_deck_code := []\<rparr>)
               else ([], st)))"

definition lor_digest :: "int \<Rightarrow> (int \<times> bool) option \<Rightarrow> string option \<Rightarrow> lor_state \<Rightarrow> telemetry_event list \<times> lor_state" where
  "lor_digest now result deck st =
     (case lor_deck deck st of (a, st1) \<Rightarrow> case lor_result now result st1 of (b, st2) \<Rightarrow> (a @ b, st2))"

definition lor_answers :: "(string \<Rightarrow> json option) \<Rightarrow> string option \<Rightarrow> string option \<Rightarrow> (int \<times> bool) option \<times> string option" where
  "lor_answers json_of result deck =
     (do { b \<leftarrow> result; j \<leftarrow> json_of b; de_lor_result j }, do { b \<leftarrow> deck; j \<leftarrow> json_of b; de_lor_deck j })"

section \<open>Minecraft\<close>

definition mc_game_id :: string where "mc_game_id = ''minecraft''"

record world_stats =
  ws_ticks :: nat
  ws_deaths :: nat
  ws_kills :: nat
  ws_mined :: nat
  ws_placed :: nat

definition ws_new :: world_stats where
  "ws_new = \<lparr>ws_ticks = 0, ws_deaths = 0, ws_kills = 0, ws_mined = 0, ws_placed = 0\<rparr>"

definition ws_delta :: "world_stats \<Rightarrow> world_stats \<Rightarrow> world_stats" where
  "ws_delta now base =
     \<lparr>ws_ticks = ws_ticks now - ws_ticks base, ws_deaths = ws_deaths now - ws_deaths base,
      ws_kills = ws_kills now - ws_kills base, ws_mined = ws_mined now - ws_mined base,
      ws_placed = ws_placed now - ws_placed base\<rparr>"

definition ws_custom :: "string \<Rightarrow> json \<Rightarrow> nat" where
  "ws_custom key stats =
     (case Option.bind (Option.bind (json_get ''minecraft:custom'' stats) (json_get key)) as_u64 of None \<Rightarrow> 0 | Some n \<Rightarrow> n)"

definition ws_category :: "string \<Rightarrow> json \<Rightarrow> nat" where
  "ws_category key stats =
     (case Option.bind (json_get key stats) as_members of
        None \<Rightarrow> 0
      | Some ms \<Rightarrow> fold (\<lambda>n a. wrap_u u64_max (a + n)) (List.map_filter (\<lambda>(_, v). as_u64 v) ms) 0)"

definition parse_stats :: "(string \<Rightarrow> json option) \<Rightarrow> string \<Rightarrow> world_stats option" where
  "parse_stats json_of contents = do {
     v \<leftarrow> json_of contents;
     stats \<leftarrow> json_get ''stats'' (json_value v);
     Some \<lparr>ws_ticks = ws_custom ''minecraft:play_time'' stats, ws_deaths = ws_custom ''minecraft:deaths'' stats,
       ws_kills = ws_custom ''minecraft:mob_kills'' stats, ws_mined = ws_category ''minecraft:mined'' stats,
       ws_placed = ws_category ''minecraft:used'' stats\<rparr> }"

text \<open>
  What the saves folder shows: each world with the files of its statistics, a file with its text where it can be read.
  A path below the saves folder is the world and the file. The extension of a path is what follows the last dot that is
  not the first character.
\<close>

type_synonym saves = "(string \<times> (string \<times> string option) list option) list"

definition has_json_extension :: "string \<Rightarrow> bool" where
  "has_json_extension name \<longleftrightarrow> ends_with name ''.json'' \<and> length name > 5"

definition snapshot_all :: "(string \<Rightarrow> json option) \<Rightarrow> saves option \<Rightarrow> ((string \<times> string) \<times> world_stats) list" where
  "snapshot_all json_of saves =
     (case saves of
        None \<Rightarrow> []
      | Some worlds \<Rightarrow>
          fold (\<lambda>(path, stats). AList.update path stats)
            [((world, name), stats).
               (world, Some files) \<leftarrow> worlds, (name, Some contents) \<leftarrow> files, has_json_extension name,
               Some stats \<leftarrow> [parse_stats json_of contents]] [])"

definition mc_summarize :: "int \<Rightarrow> string \<Rightarrow> world_stats \<Rightarrow> match_result" where
  "mc_summarize now world d =
     (live_result mc_game_id ''world'' world now)
       \<lparr>mr_performance := if ws_kills d > 0 \<or> ws_deaths d > 0
          then Some (no_performance\<lparr>pf_kills := Some (min (ws_kills d) u32_max), pf_deaths := Some (min (ws_deaths d) u32_max)\<rparr>)
          else None,
        mr_run := Some \<lparr>ri_stage_reached =
            Some (show_nat (ws_mined d) @ '' blocks mined, '' @ show_nat (ws_placed d) @ '' placed''),
          ri_difficulty = None, ri_duration_sec = Some (min (ws_ticks d div 20) u32_max)\<rparr>\<rparr>"

text \<open>The file with the most play time since the start: the first one of the most, in the order of the hash map.\<close>

definition mc_delta :: "((string \<times> string) \<times> world_stats) list \<Rightarrow> ((string \<times> string) \<times> world_stats) list \<Rightarrow> string \<times> string \<Rightarrow>
    world_stats" where
  "mc_delta now base path = ws_delta (the (map_of now path)) (case map_of base path of None \<Rightarrow> ws_new | Some b \<Rightarrow> b)"

definition mc_take :: "(string \<times> string \<Rightarrow> world_stats) \<Rightarrow> string \<times> string \<Rightarrow> ((string \<times> string) \<times> world_stats) option \<Rightarrow>
    ((string \<times> string) \<times> world_stats) option" where
  "mc_take delta path best =
     (if delta path = ws_new then best
      else case best of
             None \<Rightarrow> Some (path, delta path)
           | Some (p, b) \<Rightarrow> if ws_ticks (delta path) > ws_ticks b then Some (path, delta path) else Some (p, b))"

definition mc_best :: "(string \<times> string) list \<Rightarrow> ((string \<times> string) \<times> world_stats) list \<Rightarrow>
    ((string \<times> string) \<times> world_stats) list \<Rightarrow> ((string \<times> string) \<times> world_stats) option" where
  "mc_best paths now base = fold (mc_take (mc_delta now base)) paths None"

record mc_state =
  mc_running :: bool
  mc_baseline :: "((string \<times> string) \<times> world_stats) list"
  mc_tx :: bool

definition mc_new :: mc_state where "mc_new = \<lparr>mc_running = False, mc_baseline = [], mc_tx = False\<rparr>"

definition mc_start :: "(string \<Rightarrow> json option) \<Rightarrow> saves option \<Rightarrow> mc_state \<Rightarrow> mc_state" where
  "mc_start json_of saves st =
     (if mc_running st then st
      else st\<lparr>mc_running := True, mc_tx := True, mc_baseline := snapshot_all json_of saves\<rparr>)"

definition mc_reset :: "(string \<Rightarrow> json option) \<Rightarrow> ((string \<times> string) list \<Rightarrow> (string \<times> string) list) \<Rightarrow> int \<Rightarrow> saves option \<Rightarrow>
    mc_state \<Rightarrow> telemetry_event list \<times> mc_state" where
  "mc_reset json_of ord now saves st =
     (if \<not> mc_running st then ([], st)
      else let st1 = st\<lparr>mc_running := False, mc_baseline := [], mc_tx := False\<rparr>
           in if \<not> mc_tx st then ([], st1)
              else let snap = snapshot_all json_of saves
                   in (case mc_best (hash_keys ord snap) snap (mc_baseline st) of
                         None \<Rightarrow> []
                       | Some ((world, _), d) \<Rightarrow> [Match_ended (mc_summarize now world d)], st1))"

end
