(* ===== verification/Adapter_Props.thy ===== *)
theory Adapter_Props
  imports Poll_Adapters Game_Ledger
begin

text \<open>
  What the adapters of the games promise together. \<open>match_machine\<close> is the contract of an adapter that follows
  matches: no result and no score without a start before it, and one result for one start. \<open>match_reports\<close> adds that
  the results are a function of the inputs alone. The adapters are instances, and the results reach the session of the
  game (\<open>Game_Ledger\<close>).
\<close>

fun drive :: "('i \<Rightarrow> 's \<Rightarrow> 'e list \<times> 's) \<Rightarrow> 'i list \<Rightarrow> 's \<Rightarrow> 'e list \<times> 's" where
  "drive step [] s = ([], s)"
| "drive step (i # is) s = (case step i s of (a, s1) \<Rightarrow> case drive step is s1 of (b, s2) \<Rightarrow> (a @ b, s2))"

lemma drive_append:
  "drive step (is @ js) s = (case drive step is s of (a, s1) \<Rightarrow> case drive step js s1 of (b, s2) \<Rightarrow> (a @ b, s2))"
  by (induction "is" arbitrary: s) (simp_all split: prod.split)

fun result_of :: "telemetry_event \<Rightarrow> match_result list" where
  "result_of (Match_ended r) = [r]"
| "result_of _ = []"

definition results_of :: "telemetry_event list \<Rightarrow> match_result list" where
  "results_of evs = concat (map result_of evs)"

lemma results_of_simps [simp]:
  "results_of [] = []" "results_of (e # es) = result_of e @ results_of es" "results_of (es @ fs) = results_of es @ results_of fs"
  by (simp_all add: results_of_def)

section \<open>A result follows a start\<close>

text \<open>The flag says whether a match is open before the events.\<close>

fun paired :: "bool \<Rightarrow> telemetry_event list \<Rightarrow> bool" where
  "paired b [] \<longleftrightarrow> True"
| "paired b (Match_started mode game_map # es) \<longleftrightarrow> paired True es"
| "paired b (Score_changed own opp # es) \<longleftrightarrow> b \<and> paired b es"
| "paired b (Match_ended r # es) \<longleftrightarrow> b \<and> paired False es"
| "paired b (_ # es) \<longleftrightarrow> paired b es"

fun open_after :: "bool \<Rightarrow> telemetry_event list \<Rightarrow> bool" where
  "open_after b [] \<longleftrightarrow> b"
| "open_after b (Match_started mode game_map # es) \<longleftrightarrow> open_after True es"
| "open_after b (Match_ended r # es) \<longleftrightarrow> open_after False es"
| "open_after b (_ # es) \<longleftrightarrow> open_after b es"

lemma paired_mono: "paired b es \<Longrightarrow> (b \<Longrightarrow> b') \<Longrightarrow> paired b' es"
  by (induction b es arbitrary: b' rule: paired.induct) auto

lemma open_after_mono: "open_after b es \<Longrightarrow> (b \<Longrightarrow> b') \<Longrightarrow> open_after b' es"
  by (induction b es arbitrary: b' rule: open_after.induct) auto

lemma paired_append: "paired b (es @ fs) \<longleftrightarrow> paired b es \<and> paired (open_after b es) fs"
  by (induction b es rule: paired.induct) auto

lemma open_after_append: "open_after b (es @ fs) = open_after (open_after b es) fs"
  by (induction b es rule: open_after.induct) auto

text \<open>What pairing means for the numbers: there are never more results than starts.\<close>

fun starts_of :: "telemetry_event list \<Rightarrow> nat" where
  "starts_of [] = 0"
| "starts_of (Match_started mode game_map # es) = starts_of es + 1"
| "starts_of (_ # es) = starts_of es"

lemma paired_counts: "paired b es \<Longrightarrow> length (results_of es) \<le> starts_of es + of_bool b"
proof (induction b es rule: paired.induct)
  case (2 b mode game_map es)
  then show ?case by (cases b) auto
qed auto

locale match_machine =
  fixes step :: "'i \<Rightarrow> 's \<Rightarrow> telemetry_event list \<times> 's" and ok :: "'s \<Rightarrow> bool" and active :: "'s \<Rightarrow> bool"
  assumes ok_step: "ok s \<Longrightarrow> ok (snd (step i s))"
    and paired_step: "ok s \<Longrightarrow> paired (active s) (fst (step i s))"
    and open_step: "ok s \<Longrightarrow> active (snd (step i s)) \<Longrightarrow> open_after (active s) (fst (step i s))"
begin

lemma run_ok: "ok s \<Longrightarrow> ok (snd (drive step is s))"
proof (induction "is" arbitrary: s)
  case (Cons i "is")
  then show ?case using ok_step [of s i] by (fastforce split: prod.split)
qed simp

lemma run_paired:
  "ok s \<Longrightarrow> paired (active s) (fst (drive step is s)) \<and>
     (active (snd (drive step is s)) \<longrightarrow> open_after (active s) (fst (drive step is s)))"
proof (induction "is" arbitrary: s)
  case (Cons i "is")
  obtain a s1 where a: "step i s = (a, s1)" by (cases "step i s")
  obtain b s2 where b: "drive step is s1 = (b, s2)" by (cases "drive step is s1")
  have s1: "ok s1" "paired (active s) a" "active s1 \<Longrightarrow> open_after (active s) a"
    using ok_step [OF Cons.prems, of i] paired_step [OF Cons.prems, of i] open_step [OF Cons.prems, of i] by (simp_all add: a)
  have b2: "paired (active s1) b" "active s2 \<Longrightarrow> open_after (active s1) b" using Cons.IH [OF s1(1)] by (simp_all add: b)
  show ?case
    using s1 paired_mono [OF b2(1), of "open_after (active s) a"] open_after_mono [OF b2(2), of "open_after (active s) a"]
    by (auto simp: a b paired_append open_after_append)
qed simp

lemma run_counts: "ok s \<Longrightarrow> \<not> active s \<Longrightarrow> length (results_of (fst (drive step is s))) \<le> starts_of (fst (drive step is s))"
  using paired_counts [of False "fst (drive step is s)"] run_paired [of s "is"] by simp

end


section \<open>The adapters are machines\<close>

definition cs2_step :: "int \<times> cs2_payload \<Rightarrow> cs2_state \<Rightarrow> telemetry_event list \<times> cs2_state" where
  "cs2_step i st = cs2_digest (fst i) (snd i) st"

definition dota_step :: "int \<times> dota_payload \<Rightarrow> dota_state \<Rightarrow> telemetry_event list \<times> dota_state" where
  "dota_step i st = dota_digest (fst i) (snd i) st"

definition lol_step :: "int \<times> lol_data option \<Rightarrow> lol_state \<Rightarrow> telemetry_event list \<times> lol_state" where
  "lol_step i st = lol_digest (fst i) (snd i) st"

definition sc2_step :: "int \<times> (string list \<times> sc2_game) option \<Rightarrow> sc2_state \<Rightarrow> telemetry_event list \<times> sc2_state" where
  "sc2_step i st = sc2_digest (fst i) (snd i) st"

text \<open>Rocket League's stream, taken apart: an envelope, or the end of a connection.\<close>

definition rl_step :: "int \<times> (string \<times> json) option \<Rightarrow> rl_state \<Rightarrow> telemetry_event list \<times> rl_state" where
  "rl_step i st = (case snd i of None \<Rightarrow> finalize_incomplete (fst i) st | Some env \<Rightarrow> rl_digest (fst i) env st)"

lemmas cs2_parts = cs2_started_def cs2_scored_def cs2_ended_def cs2_new_def
lemmas dota_parts = dota_started_def dota_scored_def dota_ended_def dota_new_def
lemmas rl_parts = rl_begin_def rl_goals_def rl_new_def finalize_incomplete_def Let_def

lemma rl_local_frame [simp]: "rl_active (rl_local players game st) = rl_active st"
  by (simp add: rl_local_def Let_def split: option.split prod.split)

interpretation cs2_machine: match_machine cs2_step "\<lambda>_. True" cs_active
  by unfold_locales (auto simp: cs2_step_def cs2_digest_def cs2_parts split: option.splits if_splits prod.splits)

lemma post_game_not_active [simp]: "''DOTA_GAMERULES_STATE_POST_GAME'' \<notin> set dota_active_states"
  by (simp add: dota_active_states_def)

interpretation dota_machine: match_machine dota_step "\<lambda>_. True" ds_active
  by unfold_locales (auto simp: dota_step_def dota_digest_def dota_parts split: option.splits if_splits prod.splits)

interpretation lol_machine: match_machine lol_step "\<lambda>st. \<not> (ll_active st \<and> ll_ended st)" ll_active
  by unfold_locales (auto simp: lol_step_def lol_digest_def split: option.splits if_splits)

interpretation sc2_machine: match_machine sc2_step "\<lambda>_. True" "\<lambda>st. sc_in_game st \<and> \<not> sc_replay st"
  by unfold_locales (auto simp: sc2_step_def sc2_digest_def Let_def split: option.splits if_splits prod.splits)

lemma rl_update_machine:
  "paired (rl_active st) (fst (rl_update doc players game st))"
  "open_after (rl_active st) (fst (rl_update doc players game st))"
  by (auto simp: rl_update_def rl_parts split: prod.splits if_splits)

lemma finalize_machine:
  "paired (rl_active st) (fst (finalize_incomplete now st))" "\<not> rl_active (snd (finalize_incomplete now st))"
  by (simp_all add: finalize_incomplete_def rl_new_def)

lemma rl_digest_machine:
  "paired (rl_active st) (fst (rl_digest now env st)) \<and>
   (rl_active (snd (rl_digest now env st)) \<longrightarrow> open_after (rl_active st) (fst (rl_digest now env st)))"
proof (cases env)
  case (Pair event doc)
  consider "event = ''MatchCreated''" | "event = ''UpdateState''" | "event = ''MatchEnded''" | "event = ''MatchDestroyed''"
    | "event \<notin> {''MatchCreated'', ''UpdateState'', ''MatchEnded'', ''MatchDestroyed''}" by blast
  then show ?thesis
  proof cases
    case 2
    then show ?thesis using rl_update_machine [where st = st and doc = doc]
      by (simp add: Pair rl_digest_def split_beta split: option.split)
  next
    case 4
    then show ?thesis using finalize_machine [where st = st and now = now] by (simp add: Pair rl_digest_def)
  qed (simp_all add: Pair rl_digest_def rl_new_def Let_def split: option.split)
qed

interpretation rl_machine: match_machine rl_step "\<lambda>_. True" rl_active
proof unfold_locales
  fix s :: rl_state and i
  show "paired (rl_active s) (fst (rl_step i s))"
    using finalize_machine rl_digest_machine by (auto simp: rl_step_def split: option.split)
  show "open_after (rl_active s) (fst (rl_step i s))" if "rl_active (snd (rl_step i s))"
    using that finalize_machine(2) [of "fst i" s] rl_digest_machine [of s] by (auto simp: rl_step_def split: option.splits)
qed simp

text \<open>The stream of Rocket League is a run of that machine.\<close>

fun rl_inputs :: "(int \<times> json option) list \<Rightarrow> int \<Rightarrow> (int \<times> (string \<times> json) option) list" where
  "rl_inputs [] closed = [(closed, None)]"
| "rl_inputs ((now, j) # js) closed =
     (case Option.bind j de_envelope of None \<Rightarrow> [(closed, None)] | Some env \<Rightarrow> (now, Some env) # rl_inputs js closed)"

lemma rl_stream_drive: "rl_stream js closed st = drive rl_step (rl_inputs js closed) st"
  by (induction js closed arbitrary: st rule: rl_inputs.induct) (auto simp: rl_step_def split: option.split prod.split)

lemma rl_streams_drive: "rl_streams cs st = drive rl_step (concat (map (\<lambda>(js, closed). rl_inputs js closed) cs)) st"
  by (induction cs st rule: rl_streams.induct) (simp_all add: rl_stream_drive drive_append split: prod.split)


section \<open>The results are a function of the inputs\<close>

text \<open>
  The match that is open after some inputs, told by the inputs alone: what the first one captured that opens a match
  after the last one that closes. The results: what each closing input decides about the match that is open before it.
\<close>

definition open_match :: "('i \<Rightarrow> bool) \<Rightarrow> ('i \<Rightarrow> bool) \<Rightarrow> ('i \<Rightarrow> 'x) \<Rightarrow> 'i list \<Rightarrow> 'x option" where
  "open_match opens closes capture is =
     map_option capture (List.find opens (rev (takeWhile (\<lambda>i. \<not> closes i) (rev is))))"

definition decided :: "('i \<Rightarrow> bool) \<Rightarrow> ('i \<Rightarrow> bool) \<Rightarrow> ('i \<Rightarrow> 'x) \<Rightarrow> ('i \<Rightarrow> 'x \<Rightarrow> match_result list) \<Rightarrow> 'i list \<Rightarrow> match_result list" where
  "decided opens closes capture verdict is =
     concat (map (\<lambda>n. case open_match opens closes capture (take n is) of
                         None \<Rightarrow> [] | Some x \<Rightarrow> if closes (is ! n) then verdict (is ! n) x else []) [0..<length is])"

lemma find_append: "List.find P (xs @ ys) = (case List.find P xs of None \<Rightarrow> List.find P ys | Some x \<Rightarrow> Some x)"
  by (induction xs) auto

lemma open_match_snoc:
  "open_match opens closes capture (is @ [i]) =
     (if closes i then None
      else case open_match opens closes capture is of
             Some x \<Rightarrow> Some x | None \<Rightarrow> if opens i then Some (capture i) else None)"
  by (auto simp: open_match_def find_append split: option.split)

lemma decided_snoc:
  "decided opens closes capture verdict (is @ [i]) =
     decided opens closes capture verdict is @
       (case open_match opens closes capture is of None \<Rightarrow> [] | Some x \<Rightarrow> if closes i then verdict i x else [])"
proof -
  let ?f = "\<lambda>js n. case open_match opens closes capture (take n js) of
    None \<Rightarrow> [] | Some x \<Rightarrow> if closes (js ! n) then verdict (js ! n) x else []"
  have "map (?f (is @ [i])) [0..<length is] = map (?f is) [0..<length is]"
    by (auto simp: nth_append split: option.split)
  then show ?thesis by (simp add: decided_def del: map_eq_conv split: option.split)
qed

locale match_reports = match_machine step ok active
  for step :: "'i \<Rightarrow> 's \<Rightarrow> telemetry_event list \<times> 's" and ok :: "'s \<Rightarrow> bool" and active :: "'s \<Rightarrow> bool" +
  fixes opens closes :: "'i \<Rightarrow> bool" and capture :: "'i \<Rightarrow> 'x" and info :: "'s \<Rightarrow> 'x"
    and verdict :: "'i \<Rightarrow> 'x \<Rightarrow> match_result list"
  assumes active_step: "ok s \<Longrightarrow> active (snd (step i s)) \<longleftrightarrow> \<not> closes i \<and> (active s \<or> opens i)"
    and info_step: "ok s \<Longrightarrow> active (snd (step i s)) \<Longrightarrow> info (snd (step i s)) = (if active s then info s else capture i)"
    and results_step: "ok s \<Longrightarrow> results_of (fst (step i s)) = (if active s \<and> closes i then verdict i (info s) else [])"
begin

lemma run_open:
  assumes "ok s" "\<not> active s"
  shows "(if active (snd (drive step is s)) then Some (info (snd (drive step is s))) else None) = open_match opens closes capture is"
proof (induction "is" rule: rev_induct)
  case Nil
  then show ?case using assms by (simp add: open_match_def)
next
  case (snoc i "is")
  obtain a t where a: "drive step is s = (a, t)" by (cases "drive step is s")
  have t: "ok t" using run_ok [OF assms(1), of "is"] by (simp add: a)
  have "open_match opens closes capture is = (if active t then Some (info t) else None)" using snoc [symmetric] by (simp add: a del: if_split)
  with active_step [OF t, of i] info_step [OF t, of i] show ?case
    by (auto simp: open_match_snoc drive_append a split: prod.split if_splits)
qed

lemma run_results:
  assumes "ok s" "\<not> active s"
  shows "results_of (fst (drive step is s)) = decided opens closes capture verdict is"
proof (induction "is" rule: rev_induct)
  case Nil
  then show ?case by (simp add: decided_def)
next
  case (snoc i "is")
  obtain a t where a: "drive step is s = (a, t)" by (cases "drive step is s")
  have t: "ok t" using run_ok [OF assms(1), of "is"] by (simp add: a)
  have "open_match opens closes capture is = (if active t then Some (info t) else None)"
    using run_open [OF assms, of "is", symmetric] by (simp add: a del: if_split)
  with snoc results_step [OF t, of i] show ?case by (auto simp: decided_snoc drive_append a split: prod.split if_splits)
qed

end


text \<open>Counter-Strike 2: a warm-up or live snapshot of a ranked mode opens; menus, another mode and the end close.\<close>

definition cs2_opens :: "int \<times> cs2_payload \<Rightarrow> bool" where
  "cs2_opens i \<longleftrightarrow>
     (case cp_map (snd i) of None \<Rightarrow> False | Some mp \<Rightarrow> is_streak_mode (cm_mode mp) \<and> cm_phase mp \<in> {''warmup'', ''live''})"

definition cs2_closes :: "int \<times> cs2_payload \<Rightarrow> bool" where
  "cs2_closes i \<longleftrightarrow>
     (case cp_map (snd i) of None \<Rightarrow> True | Some mp \<Rightarrow> is_streak_mode (cm_mode mp) \<longrightarrow> cm_phase mp = ''gameover'')"

definition cs2_capture :: "int \<times> cs2_payload \<Rightarrow> string \<times> string" where
  "cs2_capture i = (case cp_map (snd i) of None \<Rightarrow> ([], []) | Some mp \<Rightarrow> (cm_mode mp, cm_name mp))"

definition cs2_verdict :: "int \<times> cs2_payload \<Rightarrow> string \<times> string \<Rightarrow> match_result list" where
  "cs2_verdict i x =
     (case cp_map (snd i) of
        None \<Rightarrow> [cs2_abandoned (fst i) (fst x) (snd x)]
      | Some mp \<Rightarrow> if is_streak_mode (cm_mode mp) then [cs2_over (fst i) mp (snd i)] else [])"

interpretation cs2_reports: match_reports cs2_step "\<lambda>_. True" cs_active cs2_opens cs2_closes cs2_capture
  "\<lambda>st. (cs_mode st, cs_map st)" cs2_verdict
  by unfold_locales (auto simp: cs2_step_def cs2_digest_def cs2_parts cs2_opens_def cs2_closes_def cs2_capture_def cs2_verdict_def
      split: option.splits if_splits prod.splits)

text \<open>Dota 2: an active state opens; menus, a custom game and the post-game close.\<close>

definition dota_opens :: "int \<times> dota_payload \<Rightarrow> bool" where
  "dota_opens i \<longleftrightarrow>
     (case dp_map (snd i) of None \<Rightarrow> False | Some mp \<Rightarrow> dm_custom mp = [] \<and> dm_game_state mp \<in> set dota_active_states)"

definition dota_closes :: "int \<times> dota_payload \<Rightarrow> bool" where
  "dota_closes i \<longleftrightarrow>
     (case dp_map (snd i) of
        None \<Rightarrow> True | Some mp \<Rightarrow> dm_custom mp = [] \<longrightarrow> dm_game_state mp = ''DOTA_GAMERULES_STATE_POST_GAME'')"

definition dota_capture :: "int \<times> dota_payload \<Rightarrow> string" where
  "dota_capture i = (case dp_map (snd i) of None \<Rightarrow> [] | Some mp \<Rightarrow> dm_name mp)"

definition dota_verdict :: "int \<times> dota_payload \<Rightarrow> string \<Rightarrow> match_result list" where
  "dota_verdict i x =
     (case dp_map (snd i) of
        None \<Rightarrow> [dota_result (fst i) x Incomplete 0 0 None None]
      | Some mp \<Rightarrow> if dm_custom mp = [] then [dota_over (fst i) mp (snd i)] else [])"

interpretation dota_reports: match_reports dota_step "\<lambda>_. True" ds_active dota_opens dota_closes dota_capture ds_map dota_verdict
  by unfold_locales (auto simp: dota_step_def dota_digest_def dota_parts dota_opens_def dota_closes_def dota_capture_def
      dota_verdict_def split: option.splits if_splits prod.splits)

text \<open>League of Legends: a snapshot without \<open>GameEnd\<close> opens, one with it closes.\<close>

definition lol_snapshot :: "int \<times> lol_data option \<Rightarrow> lol_data option" where
  "lol_snapshot i = (case snd i of None \<Rightarrow> None | Some p \<Rightarrow> if ld_mode p = [] then None else Some p)"

definition lol_opens :: "int \<times> lol_data option \<Rightarrow> bool" where
  "lol_opens i \<longleftrightarrow> (case lol_snapshot i of None \<Rightarrow> False | Some p \<Rightarrow> game_end_result p = None)"

definition lol_closes :: "int \<times> lol_data option \<Rightarrow> bool" where
  "lol_closes i \<longleftrightarrow> (case lol_snapshot i of None \<Rightarrow> False | Some p \<Rightarrow> game_end_result p \<noteq> None)"

definition lol_verdict :: "int \<times> lol_data option \<Rightarrow> unit \<Rightarrow> match_result list" where
  "lol_verdict i x =
     (case lol_snapshot i of
        None \<Rightarrow> [] | Some p \<Rightarrow> (case game_end_result p of None \<Rightarrow> [] | Some r \<Rightarrow> [lol_over (fst i) r p]))"

interpretation lol_reports: match_reports lol_step "\<lambda>st. \<not> (ll_active st \<and> ll_ended st)" ll_active lol_opens lol_closes
  "\<lambda>_. ()" "\<lambda>_. ()" lol_verdict
  by unfold_locales (auto simp: lol_step_def lol_digest_def lol_opens_def lol_closes_def lol_snapshot_def lol_verdict_def
      split: option.splits if_splits)


section \<open>From the listener to the sessions\<close>

text \<open>A payload is one game's at most: both read the app id from the same member.\<close>

lemma provider_shared:
  assumes "de_cs2_payload j = Some p" "de_dota_payload j = Some q"
  shows "cp_provider p = dp_provider q"
proof -
  obtain fs where fs: "struct_fields [(''provider'', False), (''map'', False), (''player'', False), (''auth'', False)] j = Some fs"
      "de_field None (de_option de_provider) (fs ! 0) = Some (cp_provider p)"
    using assms(1) by (auto simp: de_cs2_payload_def bind_eq_Some_conv)
  obtain gs where gs: "struct_fields [(''provider'', False), (''map'', False), (''player'', False), (''hero'', False), (''auth'', False)] j = Some gs"
      "de_field None (de_option de_provider) (gs ! 0) = Some (dp_provider q)"
    using assms(2) by (auto simp: de_dota_payload_def bind_eq_Some_conv)
  have "fs ! 0 = gs ! 0" using fs(1) gs(1)
    by (cases j) (auto simp: struct_fields_def nth_append nth_Cons split: if_splits nat.split list.splits)
  with fs(2) gs(2) show ?thesis by simp
qed

lemma own_one: "cs2_own json_of body token = Some p \<Longrightarrow> dota_own json_of body token = None"
  by (auto simp: cs2_own_def dota_own_def cs2_appid_def dota_appid_def bind_eq_Some_conv dest: provider_shared
      split: option.splits if_splits)

lemma offer_all_own:
  "offer_all json_of now body token s =
     (case cs2_own json_of body token of
        Some p \<Rightarrow> (case cs2_step (now, p) (ps_cs2 s) of (evs, c) \<Rightarrow> (evs, s\<lparr>ps_cs2 := c\<rparr>))
      | None \<Rightarrow>
          (case dota_own json_of body token of
             Some q \<Rightarrow> (case dota_step (now, q) (ps_dota s) of (evs, d) \<Rightarrow> (evs, s\<lparr>ps_dota := d\<rparr>))
           | None \<Rightarrow> ([], s)))"
  by (auto simp: offer_all_def cs2_parse_def dota_parse_def own_one cs2_step_def dota_step_def split: option.split prod.split)

text \<open>The text of a request that is offered to the adapters, and the payloads that are a game's own.\<close>

type_synonym request = "int \<times> nat option \<times> nat list \<times> bool"

definition admitted :: "nat option \<Rightarrow> nat list \<Rightarrow> string option" where
  "admitted declared bytes =
     (if (case declared of None \<Rightarrow> 0 | Some n \<Rightarrow> n) \<le> max_body_bytes \<and> request_text bytes \<noteq> [] \<and>
         length (request_text bytes) \<le> max_body_bytes
      then Some (request_text bytes) else None)"

definition own_payloads :: "(string \<Rightarrow> 'p option) \<Rightarrow> request list \<Rightarrow> (int \<times> 'p) list" where
  "own_payloads own rs =
     List.map_filter (\<lambda>(now, declared, bytes, _). map_option (Pair now) (Option.bind (admitted declared bytes) own)) rs"

definition received :: "request list \<Rightarrow> bool" where
  "received rs \<longleftrightarrow> (\<forall>(_, _, _, r) \<in> set rs. r)"

abbreviation cs2_payloads :: "(string \<Rightarrow> json option) \<Rightarrow> string \<Rightarrow> request list \<Rightarrow> (int \<times> cs2_payload) list" where
  "cs2_payloads json_of token \<equiv> own_payloads (\<lambda>body. cs2_own json_of body token)"

abbreviation dota_payloads :: "(string \<Rightarrow> json option) \<Rightarrow> string \<Rightarrow> request list \<Rightarrow> (int \<times> dota_payload) list" where
  "dota_payloads json_of token \<equiv> own_payloads (\<lambda>body. dota_own json_of body token)"

lemma own_payloads_simps [simp]:
  "own_payloads own [] = []"
  "own_payloads own ((now, declared, bytes, r) # rs) =
     (case Option.bind (admitted declared bytes) own of None \<Rightarrow> own_payloads own rs | Some p \<Rightarrow> (now, p) # own_payloads own rs)"
  by (simp_all add: own_payloads_def map_filter_simps split: option.split)

lemma listen_request_own:
  "snd (listen_request json_of now token declared bytes s) =
     (case admitted declared bytes of None \<Rightarrow> ([], s) | Some body \<Rightarrow> offer_all json_of now body token s)"
  by (auto simp: listen_request_def admitted_def Let_def split: option.split)

definition own_results :: "string \<Rightarrow> telemetry_event list \<Rightarrow> match_result list" where
  "own_results gid evs = filter (\<lambda>r. mr_game_id r = gid) (results_of evs)"

lemma own_results_simps [simp]: "own_results gid [] = []" "own_results gid (es @ fs) = own_results gid es @ own_results gid fs"
  by (simp_all add: own_results_def)

lemma matches_own: "matches_of gid (map Told evs) = own_results gid evs"
proof (induction evs)
  case (Cons e evs)
  then show ?case by (cases e) (simp_all add: matches_of_def own_results_def)
qed (simp add: matches_of_def)

fun match_event :: "telemetry_event \<Rightarrow> bool" where
  "match_event (Match_started mode game_map) \<longleftrightarrow> True"
| "match_event (Score_changed own opp) \<longleftrightarrow> True"
| "match_event (Match_ended r) \<longleftrightarrow> True"
| "match_event _ \<longleftrightarrow> False"

lemma match_event_ends: "match_event e \<Longrightarrow> \<not> ends gid (Told e)"
  by (cases e) simp_all

lemma cs2_step_events:
  "\<forall>e \<in> set (fst (cs2_step i st)). match_event e" "\<forall>r \<in> set (results_of (fst (cs2_step i st))). mr_game_id r = cs2_game_id"
  by (auto simp: cs2_step_def cs2_digest_def cs2_parts cs2_over_def cs2_abandoned_def split: option.splits if_splits prod.splits)

lemma dota_step_events:
  "\<forall>e \<in> set (fst (dota_step i st)). match_event e" "\<forall>r \<in> set (results_of (fst (dota_step i st))). mr_game_id r = dota_game_id"
  by (auto simp: dota_step_def dota_digest_def dota_parts dota_over_def dota_result_def split: option.splits if_splits prod.splits)

lemma gsi_ids [simp]: "cs2_game_id \<noteq> dota_game_id" "dota_game_id \<noteq> cs2_game_id"
  by (simp_all add: cs2_game_id_def dota_game_id_def)

lemma own_results_all: "\<forall>r \<in> set (results_of evs). mr_game_id r = gid \<Longrightarrow> own_results gid evs = results_of evs"
  by (simp add: own_results_def)

lemma own_results_none: "\<forall>r \<in> set (results_of evs). mr_game_id r = gid' \<Longrightarrow> gid \<noteq> gid' \<Longrightarrow> own_results gid evs = []"
  by (auto simp: own_results_def filter_empty_conv)

lemma listen_loop_splits:
  assumes "received rs" "listen_loop json_of token rs s = (evs, s')"
  shows "own_results cs2_game_id evs = results_of (fst (drive cs2_step (cs2_payloads json_of token rs) (ps_cs2 s))) \<and>
    own_results dota_game_id evs = results_of (fst (drive dota_step (dota_payloads json_of token rs) (ps_dota s))) \<and>
    (\<forall>e \<in> set evs. match_event e)"
  using assms
proof (induction rs arbitrary: s evs)
  case (Cons r rs)
  obtain now declared bytes ok where r: "r = (now, declared, bytes, ok)" by (cases r)
  have ok: ok "received rs" using Cons.prems(1) by (auto simp: received_def r)
  obtain n a s1 where a: "listen_request json_of now token declared bytes s = (n, a, s1)"
    by (cases "listen_request json_of now token declared bytes s")
  obtain b where b: "listen_loop json_of token rs s1 = (b, s')" "evs = a @ b"
    using Cons.prems(2) ok(1) by (auto simp: r a split: prod.splits)
  note IH = Cons.IH [OF ok(2) b(1)]
  show ?case
  proof (cases "admitted declared bytes")
    case None
    then show ?thesis using IH a listen_request_own [of json_of now token declared bytes s] by (simp add: r b)
  next
    case (Some body)
    have as1: "offer_all json_of now body token s = (a, s1)"
      using a listen_request_own [of json_of now token declared bytes s] by (simp add: Some)
    consider (cs2) p where "cs2_own json_of body token = Some p"
      | (dota) q where "cs2_own json_of body token = None" "dota_own json_of body token = Some q"
      | (foreign) "cs2_own json_of body token = None" "dota_own json_of body token = None"
      by (cases "cs2_own json_of body token"; cases "dota_own json_of body token") auto
    then show ?thesis
    proof cases
      case cs2
      then have st: "cs2_step (now, p) (ps_cs2 s) = (a, ps_cs2 s1)" "ps_dota s1 = ps_dota s"
        using as1 by (auto simp: offer_all_own split: prod.splits)
      note ev = cs2_step_events [of "(now, p)" "ps_cs2 s", unfolded st(1) fst_conv]
      show ?thesis using IH ev(1) own_results_all [OF ev(2)] own_results_none [OF ev(2), of dota_game_id]
        by (auto simp: r b Some cs2 own_one [OF cs2] st split: prod.splits)
    next
      case dota
      then have st: "dota_step (now, q) (ps_dota s) = (a, ps_dota s1)" "ps_cs2 s1 = ps_cs2 s"
        using as1 by (auto simp: offer_all_own split: prod.splits)
      note ev = dota_step_events [of "(now, q)" "ps_dota s", unfolded st(1) fst_conv]
      show ?thesis using IH ev(1) own_results_all [OF ev(2)] own_results_none [OF ev(2), of cs2_game_id]
        by (auto simp: r b Some dota st split: prod.splits)
    next
      case foreign
      then show ?thesis using IH as1 by (simp add: r b Some foreign offer_all_own)
    qed
  qed
qed (simp add: received_def)


lemma session_gains:
  assumes "keyed m" "visits_all ord" "session gid m = Some s" "\<forall>e \<in> set evs. match_event e"
  shows "\<exists>s'. session gid (after ord (map Told evs) m) = Some s' \<and> gs_matches s' = gs_matches s @ own_results gid evs"
  using session_after [OF assms(1-3), of "map Told evs"] assms(4) by (auto simp: matches_own match_event_ends)


definition post_of :: "string \<Rightarrow> request" where
  "post_of body = (7, None, map of_char body, True)"

definition sample_json :: "string \<Rightarrow> json option" where
  "sample_json body =
     (let gsi = \<lambda>appid m. Some (Json_obj [(''provider'', Json_obj [(''appid'', Json_int appid)]),
            (''auth'', Json_obj [(''token'', Json_str ''k'')]), (''player'', Json_obj [(''team'', Json_str ''CT'')]), (''map'', m)])
      in if body = ''live'' then gsi 730 (Json_obj [(''mode'', Json_str ''premier''), (''name'', Json_str ''nuke''), (''phase'', Json_str ''live'')])
         else if body = ''over'' then gsi 730 (Json_obj [(''mode'', Json_str ''premier''), (''name'', Json_str ''nuke''),
             (''phase'', Json_str ''gameover''), (''team_ct'', Json_obj [(''score'', Json_int 13)]), (''team_t'', Json_obj [(''score'', Json_int 9)])])
         else if body = ''menu'' then gsi 570 Json_null else None)"

definition sample_sessions :: game_state where
  "sample_sessions =
     (let g = \<lambda>gid. \<lparr>ag_game_id = gid, ag_game_name = gid, ag_short_name = gid, ag_color = [], ag_exe = gid, ag_exe_path = gid,
            ag_pid = 4, ag_igdb_id = None, ag_started_at = 0, ag_started_at_ms = 0, ag_foreground_ms = 0\<rparr>;
          s = \<lambda>gid. \<lparr>gs_game = g gid, gs_matches = [], gs_activity_id = None, gs_activity_name = None, gs_foreground_base = 0\<rparr>
      in game_state_new\<lparr>gm_sessions := [(cs2_game_id, s cs2_game_id), (dota_game_id, s dota_game_id)]\<rparr>)"

definition sample_posts :: "request list" where
  "sample_posts = map post_of [''live'', ''noise'', ''menu'', ''over'', ''over'']"

lemma sample_keyed: "keyed sample_sessions"
  by (auto simp: keyed_def sample_sessions_def session_def game_state_new_def Let_def split: if_splits)

lemmas payload_defs = de_cs2_payload_def de_cs2_map_def de_cs2_team_def de_cs2_player_def de_dota_payload_def de_dota_map_def de_dota_player_def
  de_provider_def de_auth_def de_option_def de_field_def struct_fields_def de_i64_def de_u32_def

lemma utf8_ascii: "\<forall>b \<in> set bs. b < 128 \<Longrightarrow> utf8_valid bs"
  by (induction bs) auto

lemma admitted_short:
  assumes "s \<noteq> []" "length s \<le> 9" "\<forall>c \<in> set s. (of_char c :: nat) < 128"
  shows "admitted None (map of_char s) = Some s"
proof -
  have "utf8_text (map of_char s :: nat list) = Some s" using assms(3) by (simp add: utf8_text_def utf8_ascii comp_def)
  with assms(1,2) show ?thesis by (simp add: admitted_def request_text_def max_body_bytes_def)
qed

lemma own_payloads_post:
  "body \<noteq> [] \<Longrightarrow> length body \<le> 9 \<Longrightarrow> \<forall>c \<in> set body. (of_char c :: nat) < 128 \<Longrightarrow>
   own_payloads own (post_of body # rs) = (case own body of None \<Rightarrow> own_payloads own rs | Some p \<Rightarrow> (7, p) # own_payloads own rs)"
  by (simp add: post_of_def admitted_short)

definition sample_snapshot :: "string \<Rightarrow> nat \<Rightarrow> nat \<Rightarrow> cs2_payload" where
  "sample_snapshot phase ct t =
     \<lparr>cp_provider = Some 730, cp_map = Some \<lparr>cm_mode = ''premier'', cm_name = ''nuke'', cm_phase = phase, cm_ct = ct, cm_t = t\<rparr>,
      cp_player = Some \<lparr>cq_team = ''CT'', cq_stats = None\<rparr>, cp_auth = Some ''k''\<rparr>"

lemma sample_own:
  "cs2_own sample_json ''live'' ''k'' = Some (sample_snapshot ''live'' 0 0)"
  "cs2_own sample_json ''over'' ''k'' = Some (sample_snapshot ''gameover'' 13 9)"
  "cs2_own sample_json ''noise'' ''k'' = None" "cs2_own sample_json ''menu'' ''k'' = None"
  "dota_own sample_json ''live'' ''k'' = None" "dota_own sample_json ''over'' ''k'' = None" "dota_own sample_json ''noise'' ''k'' = None"
  "dota_own sample_json ''menu'' ''k'' = Some \<lparr>dp_provider = Some 570, dp_map = None,
     dp_player = Some \<lparr>dq_team = [], dq_kills = 0, dq_deaths = 0, dq_assists = 0, dq_last_hits = 0\<rparr>, dp_hero = None, dp_auth = Some ''k''\<rparr>"
  by (simp_all add: cs2_own_def dota_own_def sample_json_def sample_snapshot_def Let_def payload_defs cs2_appid_def dota_appid_def)

lemma sample_cs2_payloads:
  "cs2_payloads sample_json ''k'' sample_posts =
     [(7, sample_snapshot ''live'' 0 0), (7, sample_snapshot ''gameover'' 13 9), (7, sample_snapshot ''gameover'' 13 9)]"
  by (simp add: sample_posts_def own_payloads_post sample_own)

lemma sample_dota_payloads:
  "dota_payloads sample_json ''k'' sample_posts = [(7, \<lparr>dp_provider = Some 570, dp_map = None,
     dp_player = Some \<lparr>dq_team = [], dq_kills = 0, dq_deaths = 0, dq_assists = 0, dq_last_hits = 0\<rparr>, dp_hero = None, dp_auth = Some ''k''\<rparr>)]"
  by (simp add: sample_posts_def own_payloads_post sample_own)

lemma sample_cs2:
  "map (\<lambda>r. (mr_result r, mr_own_score r, mr_opp_score r))
     (decided cs2_opens cs2_closes cs2_capture cs2_verdict (cs2_payloads sample_json ''k'' sample_posts)) = [(Win, 13, 9)]"
  by (simp add: sample_cs2_payloads sample_snapshot_def decided_def open_match_def cs2_opens_def cs2_closes_def cs2_capture_def cs2_verdict_def cs2_over_def
      cs2_player_team_def cs2_split_scores_def cs2_outcome_def is_streak_mode_def to_ascii_lowercase_def ascii_lower_char_def upt_rec)

lemma sample_dota: "decided dota_opens dota_closes dota_capture dota_verdict (dota_payloads sample_json ''k'' sample_posts) = []"
  by (simp add: sample_dota_payloads decided_def open_match_def dota_opens_def upt_rec)



section \<open>One result for one start\<close>


section \<open>What a result says\<close>

text \<open>The outcome and the score of a result agree.\<close>

definition score_agrees :: "match_result \<Rightarrow> bool" where
  "score_agrees r \<longleftrightarrow>
     (case mr_result r of
        Win \<Rightarrow> mr_own_score r > mr_opp_score r
      | Loss \<Rightarrow> mr_own_score r < mr_opp_score r
      | Draw \<Rightarrow> mr_own_score r = mr_opp_score r
      | Incomplete \<Rightarrow> mr_own_score r \<ge> mr_opp_score r)"

lemma cs2_over_agrees: "score_agrees (cs2_over now mp p)"
  by (simp add: score_agrees_def cs2_over_def cs2_split_scores_def cs2_outcome_def)

lemma cs2_abandoned_agrees: "score_agrees (cs2_abandoned now mode game_map)"
  by (simp add: score_agrees_def cs2_abandoned_def)

lemma drive_all:
  assumes "\<And>i s. \<forall>e \<in> set (fst (step i s)). P e"
  shows "\<forall>e \<in> set (fst (drive step is s)). P e"
proof (induction "is" arbitrary: s)
  case (Cons i "is")
  obtain a s1 where a: "step i s = (a, s1)" by (cases "step i s")
  with Cons [of s1] assms [of i s] show ?case by (auto split: prod.split)
qed simp

lemma cs2_results_agree: "r \<in> set (results_of (fst (drive cs2_step is st))) \<Longrightarrow> score_agrees r"
proof -
  have "\<forall>e \<in> set (fst (cs2_step i s)). \<forall>r \<in> set (result_of e). score_agrees r" for i s
    by (auto simp: cs2_step_def cs2_digest_def cs2_parts cs2_over_agrees cs2_abandoned_agrees split: option.splits if_splits prod.splits)
  from drive_all [of cs2_step "\<lambda>e. \<forall>r \<in> set (result_of e). score_agrees r", OF this, of "is" st]
  show "r \<in> set (results_of (fst (drive cs2_step is st))) \<Longrightarrow> score_agrees r" by (auto simp: results_of_def)
qed

text \<open>
  A finding: the comment on \<open>win_team\<close> names three values, and the one that says that nobody won is not the empty text.
  A known side then loses.
\<close>

lemma dota_nobody_wins:
  "dota_outcome ''radiant'' ''none'' = Loss" "dota_outcome ''dire'' ''none'' = Loss" "dota_outcome ''radiant'' [] = Incomplete"
  by (simp_all add: dota_outcome_def eq_ignore_case_def to_ascii_lowercase_def ascii_lower_char_def)

text \<open>
  Another: the file of Rocket League is written over when it does not name the exporter, whoever wrote it, and left alone when
  it names it, whatever else it holds.
\<close>

lemma rl_install_overwrites:
  assumes "find_app_subdir root is_dir d ''rocketleague'' [''TAGame'', ''Config''] ''Rocket League install not found in any Steam library'' = Inr dir"
    "d (win_join dir ''DefaultStatsAPI.ini'') = Some mine" "\<not> contains mine ''MatchStatsExporter_TA''"
  shows "rl_install root is_dir Written d = (Inr True, d(win_join dir ''DefaultStatsAPI.ini'' \<mapsto> stats_ini))"
  using assms by (simp add: rl_install_def Let_def)

section \<open>Minecraft\<close>

definition most_played :: "(string \<times> string \<Rightarrow> world_stats) \<Rightarrow> (string \<times> string) list \<Rightarrow> ((string \<times> string) \<times> world_stats) option \<Rightarrow> bool" where
  "most_played delta paths best \<longleftrightarrow>
     (case best of
        None \<Rightarrow> \<forall>p \<in> set paths. delta p = ws_new
      | Some (q, b) \<Rightarrow> q \<in> set paths \<and> b = delta q \<and> b \<noteq> ws_new \<and>
          (\<forall>p \<in> set paths. delta p = ws_new \<or> ws_ticks (delta p) \<le> ws_ticks b))"

lemma mc_take_most: "most_played delta paths best \<Longrightarrow> most_played delta (paths @ [p]) (mc_take delta p best)"
proof (cases best)
  case (Some q)
  obtain r b where q: "q = (r, b)" by (cases q)
  assume m: "most_played delta paths best"
  show ?thesis
  proof (cases "delta p \<noteq> ws_new \<and> ws_ticks b < ws_ticks (delta p)")
    case True
    have "delta x = ws_new \<or> ws_ticks (delta x) \<le> ws_ticks (delta p)" if "x \<in> set paths" for x
      using m that True unfolding most_played_def Some q by (auto dest!: bspec)
    with True show ?thesis by (simp add: most_played_def mc_take_def Some q)
  next
    case False
    with m show ?thesis by (auto simp: most_played_def mc_take_def Some q)
  qed
qed (auto simp: most_played_def mc_take_def)

lemma mc_best_most: "most_played (mc_delta now base) paths (mc_best paths now base)"
proof (induction paths rule: rev_induct)
  case (snoc p paths)
  then show ?case using mc_take_most by (simp add: mc_best_def)
qed (simp add: mc_best_def most_played_def)

text \<open>Starting twice is starting once, and only a running adapter reports.\<close>

lemma mc_start_idem: "mc_start json_of later (mc_start json_of saves st) = mc_start json_of saves st"
  by (simp add: mc_start_def)

text \<open>A Minecraft session, from the start of the game to its end, reports the world file whose counters grew the most in play
  time between the two looks at the saves folder, with exactly the growth: one result, never a win or a loss and never part of a
  streak, and none at all when no counter grew. A later start in between changes nothing, and after the end nothing more is
  reported.
\<close>

theorem minecraft_reports_most_played:
  assumes "visits_all ord" "\<not> mc_running st"
    "base = snapshot_all json_of before" "snap = snapshot_all json_of afterwards"
    "mc_reset json_of ord now afterwards (mc_start json_of between (mc_start json_of before st)) = (evs, st')"
  shows
    "(evs = [] \<and> (\<forall>p \<in> dom (map_of snap). mc_delta snap base p = ws_new)) \<or>
     (\<exists>world name. map_of snap (world, name) \<noteq> None \<and> mc_delta snap base (world, name) \<noteq> ws_new \<and>
        (\<forall>p \<in> dom (map_of snap). ws_ticks (mc_delta snap base p) \<le> ws_ticks (mc_delta snap base (world, name))) \<and>
        evs = [Match_ended (mc_summarize now world (mc_delta snap base (world, name)))])"
    "\<forall>e \<in> set evs. \<forall>r \<in> set (result_of e). mr_result r = Incomplete \<and> \<not> mr_streak_eligible r"
    "mc_reset json_of ord' later saves st' = ([], st')"
proof -
  have keys: "set (hash_keys ord snap) = dom (map_of snap)"
    using hash_keys_set [OF assms(1), of snap] by (simp add: dom_map_of_conv_image_fst)
  have st': "evs = (case mc_best (hash_keys ord snap) snap base of
      None \<Rightarrow> [] | Some ((world, _), d) \<Rightarrow> [Match_ended (mc_summarize now world d)])" "\<not> mc_running st'"
    using assms(2,5) by (auto simp: mc_start_def mc_reset_def Let_def assms(3,4))
  show "(evs = [] \<and> (\<forall>p \<in> dom (map_of snap). mc_delta snap base p = ws_new)) \<or>
     (\<exists>world name. map_of snap (world, name) \<noteq> None \<and> mc_delta snap base (world, name) \<noteq> ws_new \<and>
        (\<forall>p \<in> dom (map_of snap). ws_ticks (mc_delta snap base p) \<le> ws_ticks (mc_delta snap base (world, name))) \<and>
        evs = [Match_ended (mc_summarize now world (mc_delta snap base (world, name)))])"
  proof (cases "mc_best (hash_keys ord snap) snap base")
    case None
    with mc_best_most [of snap base "hash_keys ord snap"] keys show ?thesis by (simp add: st' most_played_def)
  next
    case (Some q)
    obtain world name b where q: "q = ((world, name), b)" by (metis prod.exhaust)
    have "most_played (mc_delta snap base) (hash_keys ord snap) (Some ((world, name), b))"
      using mc_best_most [of snap base "hash_keys ord snap"] by (simp add: Some q)
    then have "(world, name) \<in> dom (map_of snap)" "b = mc_delta snap base (world, name)" "b \<noteq> ws_new"
        "\<forall>p \<in> dom (map_of snap). mc_delta snap base p = ws_new \<or> ws_ticks (mc_delta snap base p) \<le> ws_ticks b"
      by (auto simp: most_played_def keys)
    moreover have "ws_ticks ws_new = 0" by (simp add: ws_new_def)
    ultimately have "map_of snap (world, name) \<noteq> None \<and> mc_delta snap base (world, name) \<noteq> ws_new \<and>
        (\<forall>p \<in> dom (map_of snap). ws_ticks (mc_delta snap base p) \<le> ws_ticks (mc_delta snap base (world, name))) \<and>
        evs = [Match_ended (mc_summarize now world (mc_delta snap base (world, name)))]"
      by (metis (no_types, lifting) Some domIff old.prod.case option.simps(5) q st'(1) zero_le)
    then show ?thesis by blast
  qed
  show "\<forall>e \<in> set evs. \<forall>r \<in> set (result_of e). mr_result r = Incomplete \<and> \<not> mr_streak_eligible r"
    by (auto simp: st' mc_summarize_def live_result_def split: option.splits)
  show "mc_reset json_of ord' later saves st' = ([], st')" using st'(2) by (simp add: mc_reset_def)
qed

definition world_json :: "string \<Rightarrow> json option" where
  "world_json body =
     (if body = ''young'' \<or> body = ''old''
      then Some (Json_obj [(''stats'', Json_obj
             [(''minecraft:custom'', Json_obj [(''minecraft:play_time'', Json_int (if body = ''young'' then 100 else 400))]),
              (''minecraft:mined'', Json_obj [(''dirt'', Json_int 3), (''stone'', Json_int 4)])])])
      else None)"

definition saves_then :: "saves option" where
  "saves_then = Some [(''home'', Some [(''u.json'', Some ''young'')]), (''empty'', None)]"

definition saves_now :: "saves option" where
  "saves_now = Some [(''home'', Some [(''u.json'', Some ''old''), (''notes.txt'', Some ''old'')]), (''away'', Some [(''u.json'', Some ''young'')])]"

lemma world_samples:
  "snapshot_all world_json saves_then =
     [((''home'', ''u.json''), \<lparr>ws_ticks = 100, ws_deaths = 0, ws_kills = 0, ws_mined = 7, ws_placed = 0\<rparr>)]"
  "snapshot_all world_json saves_now =
     [((''home'', ''u.json''), \<lparr>ws_ticks = 400, ws_deaths = 0, ws_kills = 0, ws_mined = 7, ws_placed = 0\<rparr>),
      ((''away'', ''u.json''), \<lparr>ws_ticks = 100, ws_deaths = 0, ws_kills = 0, ws_mined = 7, ws_placed = 0\<rparr>)]"
  by (simp_all add: snapshot_all_def saves_then_def saves_now_def has_json_extension_def ends_with_def parse_stats_def world_json_def
      last_of_def json_get_def ws_custom_def ws_category_def map_filter_simps wrap_u_def u64_max_def)

theorem minecraft_reports_most_played_witness:
  "\<exists>world name. fst (mc_reset world_json rev 9 saves_now (mc_start world_json None (mc_start world_json saves_then mc_new))) =
       [Match_ended (mc_summarize 9 world (mc_delta (snapshot_all world_json saves_now) (snapshot_all world_json saves_then) (world, name)))] \<and>
     ws_ticks (mc_delta (snapshot_all world_json saves_now) (snapshot_all world_json saves_then) (world, name)) \<ge> 300"
proof -
  obtain evs st' where r: "mc_reset world_json rev 9 saves_now (mc_start world_json None (mc_start world_json saves_then mc_new)) = (evs, st')"
    by (cases "mc_reset world_json rev 9 saves_now (mc_start world_json None (mc_start world_json saves_then mc_new))")
  have new: "\<not> mc_running mc_new" by (simp add: mc_new_def)
  have d: "(''home'', ''u.json'') \<in> dom (map_of (snapshot_all world_json saves_now))"
      "ws_ticks (mc_delta (snapshot_all world_json saves_now) (snapshot_all world_json saves_then) (''home'', ''u.json'')) = 300"
    by (simp_all add: world_samples mc_delta_def ws_delta_def)
  have z: "ws_ticks ws_new = 0" by (simp add: ws_new_def)
  from minecraft_reports_most_played(1) [OF visits_all_id(2) new refl refl r] d z show ?thesis
    by (simp add: r) (metis d(1) zero_neq_numeral)
qed

end
