(* ===== verification/Voice_Speaking.thy ===== *)
theory Voice_Speaking
  imports Prelude
begin

text \<open>
  The speaking state of a call (\<open>voice/speaking.rs\<close>): the limiter that sends at most one change per interval and
  the in-band messages it rates, with the limiter of the presence RPC as the client uses it (\<open>client/mod.rs\<close>). The gate of
  the feed reloads (\<open>feed_reload.rs\<close>) keeps the same promise, which the locale \<open>rate_gate\<close> states. Whether the
  control channel takes a message is an argument of each send.
\<close>

section \<open>The limiter\<close>

record change_limiter =
  cl_interval :: duration
  cl_last_sent_at :: "instant option"
  cl_last_sent :: "bool option"
  cl_pending :: "bool option"
  cl_latest :: "bool option"

definition limiter_new :: "duration \<Rightarrow> change_limiter" where
  "limiter_new interval =
     \<lparr>cl_interval = interval, cl_last_sent_at = None, cl_last_sent = None, cl_pending = None, cl_latest = None\<rparr>"

definition limiter_poll :: "instant \<Rightarrow> change_limiter \<Rightarrow> bool option \<times> change_limiter" where
  "limiter_poll now l =
     (case cl_pending l of
        None \<Rightarrow> (None, l)
      | Some state \<Rightarrow>
          if cl_last_sent l = Some state then (None, l\<lparr>cl_pending := None\<rparr>)
          else if (case cl_last_sent_at l of None \<Rightarrow> False | Some t \<Rightarrow> duration_since now t < cl_interval l) then (None, l)
          else (Some state, l\<lparr>cl_pending := None, cl_last_sent := Some state, cl_last_sent_at := Some now\<rparr>))"

definition limiter_on_change :: "bool \<Rightarrow> instant \<Rightarrow> change_limiter \<Rightarrow> bool option \<times> change_limiter" where
  "limiter_on_change state now l = limiter_poll now (l\<lparr>cl_latest := Some state, cl_pending := Some state\<rparr>)"

definition limiter_send_failed :: "bool \<Rightarrow> change_limiter \<Rightarrow> change_limiter" where
  "limiter_send_failed state l =
     (let l1 = (if cl_last_sent l = Some state then l\<lparr>cl_last_sent := None, cl_last_sent_at := None\<rparr> else l)
      in if cl_pending l1 = None then l1\<lparr>cl_pending := Some state\<rparr> else l1)"

definition limiter_has_pending :: "change_limiter \<Rightarrow> bool" where
  "limiter_has_pending l \<longleftrightarrow> cl_pending l \<noteq> None"

definition limiter_restart :: "change_limiter \<Rightarrow> change_limiter" where
  "limiter_restart l =
     l\<lparr>cl_last_sent := None, cl_last_sent_at := None, cl_pending := if cl_latest l = Some True then Some True else None\<rparr>"

section \<open>The in-band messages\<close>

definition inband_min_change_interval :: duration where "inband_min_change_interval = millis 100"
definition presence_min_change_interval :: duration where "presence_min_change_interval = secs 1"

text \<open>A target is the connection it sends on, here a number.\<close>

record inband =
  ib_target :: "nat option"
  ib_limiter :: change_limiter

definition inband_new :: inband where
  "inband_new = \<lparr>ib_target = None, ib_limiter = limiter_new inband_min_change_interval\<rparr>"

type_synonym message = "nat \<times> instant \<times> bool"

definition inband_send :: "instant \<Rightarrow> bool \<Rightarrow> bool \<Rightarrow> inband \<Rightarrow> message list \<times> inband" where
  "inband_send now took on s =
     (case ib_target s of
        Some t \<Rightarrow> if took then ([(t, now, on)], s) else ([], s\<lparr>ib_limiter := limiter_send_failed on (ib_limiter s)\<rparr>)
      | None \<Rightarrow> ([], s\<lparr>ib_limiter := limiter_send_failed on (ib_limiter s)\<rparr>))"

definition inband_decided :: "instant \<Rightarrow> bool \<Rightarrow> bool option \<times> change_limiter \<Rightarrow> inband \<Rightarrow> message list \<times> inband" where
  "inband_decided now took r s =
     (case r of (d, l) \<Rightarrow>
        (case d of None \<Rightarrow> ([], s\<lparr>ib_limiter := l\<rparr>) | Some on \<Rightarrow> inband_send now took on (s\<lparr>ib_limiter := l\<rparr>)))"

definition on_vad :: "bool \<Rightarrow> instant \<Rightarrow> bool \<Rightarrow> inband \<Rightarrow> message list \<times> inband" where
  "on_vad speaking now took s = inband_decided now took (limiter_on_change speaking now (ib_limiter s)) s"

definition inband_poll :: "instant \<Rightarrow> bool \<Rightarrow> inband \<Rightarrow> message list \<times> inband" where
  "inband_poll now took s =
     (if limiter_has_pending (ib_limiter s) then inband_decided now took (limiter_poll now (ib_limiter s)) s else ([], s))"

definition inband_attach :: "nat \<Rightarrow> instant \<Rightarrow> bool \<Rightarrow> inband \<Rightarrow> message list \<times> inband" where
  "inband_attach t now took s =
     inband_poll now took (s\<lparr>ib_target := Some t, ib_limiter := limiter_restart (ib_limiter s)\<rparr>)"

definition inband_detach :: "inband \<Rightarrow> inband" where
  "inband_detach s = s\<lparr>ib_target := None\<rparr>"

datatype inband_op = Vad bool | Ib_poll | Ib_attach nat | Ib_detach

fun inband_step :: "inband_op \<times> instant \<times> bool \<Rightarrow> inband \<Rightarrow> message list \<times> inband" where
  "inband_step (Vad speaking, now, took) s = on_vad speaking now took s"
| "inband_step (Ib_poll, now, took) s = inband_poll now took s"
| "inband_step (Ib_attach t, now, took) s = inband_attach t now took s"
| "inband_step (Ib_detach, now, took) s = ([], inband_detach s)"

fun inband_run :: "(inband_op \<times> instant \<times> bool) list \<Rightarrow> inband \<Rightarrow> message list \<times> inband" where
  "inband_run [] s = ([], s)"
| "inband_run (o' # os) s = (case inband_step o' s of (a, s1) \<Rightarrow> case inband_run os s1 of (b, s2) \<Rightarrow> (a @ b, s2))"

lemma inband_run_append:
  "inband_run (xs @ ys) s = (case inband_run xs s of (a, s1) \<Rightarrow> case inband_run ys s1 of (b, s2) \<Rightarrow> (a @ b, s2))"
  by (induction xs arbitrary: s) (simp_all split: prod.split)

section \<open>The ring of a receiver\<close>

text \<open>What a receiver shows: the last message it got, and no speaking before the first. When it got it.\<close>

definition ring :: "nat \<Rightarrow> message list \<Rightarrow> bool" where
  "ring t ms = (case rev (filter (\<lambda>m. fst m = t) ms) of [] \<Rightarrow> False | m # _ \<Rightarrow> snd (snd m))"

definition got_at :: "nat \<Rightarrow> message list \<Rightarrow> instant option" where
  "got_at t ms = (case rev (filter (\<lambda>m. fst m = t) ms) of [] \<Rightarrow> None | m # _ \<Rightarrow> Some (fst (snd m)))"

lemma ring_simps [simp]:
  "ring t [] = False" "ring t (ms @ [(t', n, on)]) = (if t' = t then on else ring t ms)"
  "got_at t [] = None" "got_at t (ms @ [(t', n, on)]) = (if t' = t then Some n else got_at t ms)"
  by (simp_all add: ring_def got_at_def)

text \<open>
  Every state after some operations, the messages so far and the clock: what the limiter holds back is the latest state, what it
  believes sent is what the receiver shows, and a message it may send at once is an interval after the last one.
\<close>

definition inband_ok :: "message list \<Rightarrow> instant \<Rightarrow> inband \<Rightarrow> bool" where
  "inband_ok ms clock s \<longleftrightarrow>
     (let l = ib_limiter s in
      cl_interval l = inband_min_change_interval \<and>
      (\<forall>x. cl_pending l = Some x \<longrightarrow> cl_latest l = Some x) \<and>
      (\<forall>a. cl_last_sent_at l = Some a \<longrightarrow> a \<le> clock) \<and>
      (\<forall>t. ib_target s = Some t \<longrightarrow>
         (cl_pending l = None \<longrightarrow> ring t ms = (cl_latest l = Some True)) \<and>
         (\<forall>x. cl_last_sent l = Some x \<longrightarrow> ring t ms = x) \<and>
         (\<forall>d. got_at t ms = Some d \<longrightarrow>
            (\<forall>a. cl_last_sent_at l = Some a \<longrightarrow> a = d) \<and>
            (cl_last_sent_at l = None \<longrightarrow> d + inband_min_change_interval \<le> clock))))"

lemma inband_ok_new: "inband_ok [] clock inband_new"
  by (simp add: inband_ok_def inband_new_def limiter_new_def)

text \<open>A message goes out an interval after the one before it to the same receiver.\<close>

definition spaced_after :: "message list \<Rightarrow> message list \<Rightarrow> bool" where
  "spaced_after ms new \<longleftrightarrow> (\<forall>t n on d. new = [(t, n, on)] \<longrightarrow> got_at t ms = Some d \<longrightarrow> d + inband_min_change_interval \<le> n)"

lemma interval_over: "\<not> now - d < inband_min_change_interval \<Longrightarrow> d + inband_min_change_interval \<le> now"
  by (auto simp: inband_min_change_interval_def millis_def)

lemma inband_okD:
  assumes "inband_ok ms clock s"
  shows "cl_interval (ib_limiter s) = inband_min_change_interval"
    "cl_pending (ib_limiter s) = Some x \<Longrightarrow> cl_latest (ib_limiter s) = Some x"
    "ib_target s = Some t \<Longrightarrow> cl_pending (ib_limiter s) = None \<Longrightarrow> ring t ms = (cl_latest (ib_limiter s) = Some True)"
    "ib_target s = Some t \<Longrightarrow> cl_last_sent (ib_limiter s) = Some x \<Longrightarrow> ring t ms = x"
    "ib_target s = Some t \<Longrightarrow> got_at t ms = Some d \<Longrightarrow> cl_last_sent_at (ib_limiter s) = Some a \<Longrightarrow> a = d"
    "ib_target s = Some t \<Longrightarrow> got_at t ms = Some d \<Longrightarrow> cl_last_sent_at (ib_limiter s) = None \<Longrightarrow>
       d + inband_min_change_interval \<le> clock"
    "cl_last_sent_at (ib_limiter s) = Some a \<Longrightarrow> a \<le> clock"
  using assms unfolding inband_ok_def Let_def by blast+

lemma inband_okI:
  assumes "cl_interval (ib_limiter s) = inband_min_change_interval"
    "\<And>x. cl_pending (ib_limiter s) = Some x \<Longrightarrow> cl_latest (ib_limiter s) = Some x"
    "\<And>t. ib_target s = Some t \<Longrightarrow> cl_pending (ib_limiter s) = None \<Longrightarrow> ring t ms = (cl_latest (ib_limiter s) = Some True)"
    "\<And>t x. ib_target s = Some t \<Longrightarrow> cl_last_sent (ib_limiter s) = Some x \<Longrightarrow> ring t ms = x"
    "\<And>t d a. ib_target s = Some t \<Longrightarrow> got_at t ms = Some d \<Longrightarrow> cl_last_sent_at (ib_limiter s) = Some a \<Longrightarrow> a = d"
    "\<And>t d. ib_target s = Some t \<Longrightarrow> got_at t ms = Some d \<Longrightarrow> cl_last_sent_at (ib_limiter s) = None \<Longrightarrow>
       d + inband_min_change_interval \<le> clock"
    "\<And>a. cl_last_sent_at (ib_limiter s) = Some a \<Longrightarrow> a \<le> clock"
  shows "inband_ok ms clock s"
  unfolding inband_ok_def Let_def using assms by blast

lemma inband_ok_mono: "inband_ok ms clock s \<Longrightarrow> clock \<le> now \<Longrightarrow> inband_ok ms now s"
  by (rule inband_okI) (blast dest: inband_okD intro: order_trans)+

lemma decided_ok:
  assumes ok: "inband_ok ms clock (s\<lparr>ib_limiter := l0\<rparr>)" and le: "clock \<le> now" and p: "limiter_poll now l0 = (d, l)"
    and r: "inband_decided now took (d, l) s = (new, s')"
  shows "inband_ok (ms @ new) now s' \<and> spaced_after ms new \<and> length new \<le> 1 \<and> ib_target s' = ib_target s \<and>
    (\<forall>m \<in> set new. ib_target s' = Some (fst m)) \<and> cl_latest (ib_limiter s') = cl_latest l0"
proof -
  note D = inband_okD [OF ok, simplified]
  show ?thesis
  proof (cases d)
    case None
    then have new: "new = []" "s' = s\<lparr>ib_limiter := l\<rparr>" using r by (simp_all add: inband_decided_def)
    have "l = l0 \<or> (\<exists>x. cl_pending l0 = Some x \<and> cl_last_sent l0 = Some x \<and> l = l0\<lparr>cl_pending := None\<rparr>)"
      using p None by (auto simp: limiter_poll_def split: option.splits if_splits)
    then show ?thesis
    proof (elim disjE exE conjE)
      assume "l = l0"
      with inband_ok_mono [OF ok le] show ?thesis by (simp add: new spaced_after_def)
    next
      fix x assume x: "cl_pending l0 = Some x" "cl_last_sent l0 = Some x" "l = l0\<lparr>cl_pending := None\<rparr>"
      have s': "ib_target s' = ib_target s" "ib_limiter s' = l0\<lparr>cl_pending := None\<rparr>" by (simp_all add: new x(3))
      have "inband_ok ms now s'"
      proof (rule inband_okI, goal_cases)
        case (3 t)
        then have "ring t ms = x" using D(4) x(2) by (simp add: s')
        then show ?case using D(2) [OF x(1)] by (simp add: s')
      next
        case (4 t y)
        then show ?case using D(4) [of t y] by (simp add: s')
      next
        case (5 t d a)
        then show ?case using D(5) [of t d a] by (simp add: s')
      next
        case (6 t d)
        then show ?case using D(6) [of t d] le by (simp add: s')
      next
        case (7 a)
        then show ?case using D(7) [of a] le by (simp add: s')
      qed (simp_all add: s' D(1))
      then show ?thesis by (simp add: new x spaced_after_def)
    qed
  next
    case (Some on)
    then have on: "cl_pending l0 = Some on" "cl_last_sent l0 \<noteq> Some on"
        "l = l0\<lparr>cl_pending := None, cl_last_sent := Some on, cl_last_sent_at := Some now\<rparr>"
        "\<And>a. cl_last_sent_at l0 = Some a \<Longrightarrow> \<not> now - a < inband_min_change_interval"
      using p D(1) by (auto simp: limiter_poll_def split: option.splits if_splits)
    have gap: "dd + inband_min_change_interval \<le> now" if "ib_target s = Some t" "got_at t ms = Some dd" for t dd
      using D(5,6) [OF that] on(4) le by (cases "cl_last_sent_at l0") (auto dest: interval_over)
    show ?thesis
    proof (cases "took \<and> ib_target s \<noteq> None")
      case True
      then obtain t where t: "ib_target s = Some t" by auto
      with True r have new: "new = [(t, now, on)]" "s' = s\<lparr>ib_limiter := l\<rparr>" by (simp_all add: Some inband_decided_def inband_send_def)
      have "inband_ok (ms @ new) now s'"
        by (rule inband_okI) (use D(1) D(2) [OF on(1)] t in \<open>auto simp: new on(3)\<close>)
      with gap [OF t] t show ?thesis by (simp add: new on(3) spaced_after_def)
    next
      case False
      with r have new: "new = []" "s' = s\<lparr>ib_limiter := l\<lparr>cl_pending := Some on, cl_last_sent := None, cl_last_sent_at := None\<rparr>\<rparr>"
        by (auto simp: Some inband_decided_def inband_send_def limiter_send_failed_def on(3) split: option.splits)
      have "inband_ok ms now s'"
        by (rule inband_okI) (use D(1) D(2) [OF on(1)] gap in \<open>auto simp: new on(3)\<close>)
      then show ?thesis by (simp add: new on(3) spaced_after_def)
    qed
  qed
qed

text \<open>An attachment to a receiver that got nothing yet is the start of a new exchange with it.\<close>

fun fresh_attach :: "message list \<Rightarrow> inband_op \<Rightarrow> bool" where
  "fresh_attach ms (Ib_attach t) \<longleftrightarrow> (\<forall>m \<in> set ms. fst m \<noteq> t)"
| "fresh_attach ms _ \<longleftrightarrow> True"

lemma not_got: "\<forall>m \<in> set ms. fst m \<noteq> t \<Longrightarrow> ring t ms = False \<and> got_at t ms = None"
proof -
  assume "\<forall>m \<in> set ms. fst m \<noteq> t"
  then have "filter (\<lambda>m. fst m = t) ms = []" by (simp add: filter_empty_conv)
  then show ?thesis by (simp add: ring_def got_at_def)
qed

lemma step_ok:
  assumes "inband_ok ms clock s" "clock \<le> now" "fresh_attach ms o'" "inband_step (o', now, took) s = (new, s')"
  shows "inband_ok (ms @ new) now s'" "spaced_after ms new" "length new \<le> 1" "\<forall>m \<in> set new. ib_target s' = Some (fst m)"
    "\<forall>t. ib_target s' = Some t \<longrightarrow> o' = Ib_attach t \<or> ib_target s = Some t"
    "cl_latest (ib_limiter s') = (case o' of Vad x \<Rightarrow> Some x | _ \<Rightarrow> cl_latest (ib_limiter s))"
proof -
  have "inband_ok (ms @ new) now s' \<and> spaced_after ms new \<and> length new \<le> 1 \<and> (\<forall>m \<in> set new. ib_target s' = Some (fst m)) \<and>
    (\<forall>t. ib_target s' = Some t \<longrightarrow> o' = Ib_attach t \<or> ib_target s = Some t) \<and>
    cl_latest (ib_limiter s') = (case o' of Vad x \<Rightarrow> Some x | _ \<Rightarrow> cl_latest (ib_limiter s))"
  proof (cases o')
    case (Vad x)
    let ?l = "(ib_limiter s)\<lparr>cl_latest := Some x, cl_pending := Some x\<rparr>"
    obtain d l where p: "limiter_poll now ?l = (d, l)" by (cases "limiter_poll now ?l")
    have ok: "inband_ok ms clock (s\<lparr>ib_limiter := ?l\<rparr>)"
    proof (rule inband_okI, goal_cases)
      case (4 t y)
      then show ?case using inband_okD(4) [OF assms(1), of t y] by simp
    next
      case (5 t d a)
      then show ?case using inband_okD(5) [OF assms(1), of t d a] by simp
    next
      case (6 t d)
      then show ?case using inband_okD(6) [OF assms(1), of t d] by simp
    next
      case (7 a)
      then show ?case using inband_okD(7) [OF assms(1), of a] by simp
    qed (simp_all add: inband_okD(1) [OF assms(1)])
    have "inband_decided now took (d, l) s = (new, s')" using assms(4) by (simp add: Vad on_vad_def limiter_on_change_def p)
    from decided_ok [OF ok assms(2) p this] show ?thesis by (auto simp: Vad)
  next
    case Ib_poll
    show ?thesis
    proof (cases "limiter_has_pending (ib_limiter s)")
      case True
      obtain d l where p: "limiter_poll now (ib_limiter s) = (d, l)" by (cases "limiter_poll now (ib_limiter s)")
      have "inband_decided now took (d, l) s = (new, s')" using assms(4) True by (simp add: Ib_poll inband_poll_def p)
      from decided_ok [OF _ assms(2) p this, of ms] assms(1) show ?thesis by (auto simp: Ib_poll)
    next
      case False
      with assms(4) have "new = []" "s' = s" by (simp_all add: Ib_poll inband_poll_def)
      moreover have "inband_ok ms now s" using assms(1,2) by (rule inband_ok_mono)
      ultimately show ?thesis by (simp add: spaced_after_def Ib_poll)
    qed
  next
    case (Ib_attach t)
    let ?s = "s\<lparr>ib_target := Some t, ib_limiter := limiter_restart (ib_limiter s)\<rparr>"
    have ok: "inband_ok ms clock ?s"
      by (rule inband_okI) (use inband_okD(1) [OF assms(1)] not_got [of ms t] assms(3) in \<open>auto simp: limiter_restart_def Ib_attach split: if_splits\<close>)
    show ?thesis
    proof (cases "limiter_has_pending (ib_limiter ?s)")
      case True
      obtain d l where p: "limiter_poll now (ib_limiter ?s) = (d, l)" by (cases "limiter_poll now (ib_limiter ?s)")
      have "inband_decided now took (d, l) ?s = (new, s')" using assms(4) True p by (simp add: Ib_attach inband_attach_def inband_poll_def)
      from decided_ok [OF _ assms(2) p this, of ms] ok show ?thesis by (auto simp: Ib_attach limiter_restart_def)
    next
      case False
      with assms(4) have "new = []" "s' = ?s" by (simp_all add: Ib_attach inband_attach_def inband_poll_def)
      moreover have "inband_ok ms now ?s" using ok assms(2) by (rule inband_ok_mono)
      ultimately show ?thesis by (simp add: spaced_after_def Ib_attach limiter_restart_def)
    qed
  next
    case Ib_detach
    with assms(4) have "new = []" "s' = inband_detach s" by simp_all
    moreover have "inband_ok ms now (inband_detach s)"
      by (rule inband_okI) (use assms(2) in \<open>auto simp: inband_detach_def intro: inband_okD(1,2) [OF assms(1)]
        order_trans [OF inband_okD(7) [OF assms(1)]]\<close>)
    ultimately show ?thesis by (simp add: spaced_after_def Ib_detach inband_detach_def)
  qed
  then show "inband_ok (ms @ new) now s'" "spaced_after ms new" "length new \<le> 1" "\<forall>m \<in> set new. ib_target s' = Some (fst m)"
    "\<forall>t. ib_target s' = Some t \<longrightarrow> o' = Ib_attach t \<or> ib_target s = Some t"
    "cl_latest (ib_limiter s') = (case o' of Vad x \<Rightarrow> Some x | _ \<Rightarrow> cl_latest (ib_limiter s))" by auto
qed

text \<open>The operations of a life: times that do not go back, and each attachment to a new connection.\<close>

fun attached :: "inband_op \<Rightarrow> nat list" where
  "attached (Ib_attach t) = [t]"
| "attached _ = []"

definition calm_ops :: "instant \<Rightarrow> (inband_op \<times> instant \<times> bool) list \<Rightarrow> bool" where
  "calm_ops clock os \<longleftrightarrow> sorted (clock # map (fst \<circ> snd) os) \<and> distinct (concat (map (attached \<circ> fst) os))"

text \<open>Each message of a run against those before it.\<close>

definition all_spaced :: "message list \<Rightarrow> bool" where
  "all_spaced ms \<longleftrightarrow> (\<forall>i < length ms. \<forall>d. got_at (fst (ms ! i)) (take i ms) = Some d \<longrightarrow> d + inband_min_change_interval \<le> fst (snd (ms ! i)))"

lemma all_spaced_snoc: "all_spaced ms \<Longrightarrow> spaced_after ms [m] \<Longrightarrow> all_spaced (ms @ [m])"
  by (cases m) (auto simp: all_spaced_def spaced_after_def nth_append less_Suc_eq)

definition latest_vad :: "(inband_op \<times> instant \<times> bool) list \<Rightarrow> bool option \<Rightarrow> bool option" where
  "latest_vad os x0 = fold (\<lambda>o' x. case fst o' of Vad x' \<Rightarrow> Some x' | _ \<Rightarrow> x) os x0"

lemma inband_run_ok:
  assumes "inband_ok ms clock s" "calm_ops clock os" "\<forall>m \<in> set ms. fst m \<in> seen" "\<forall>t. ib_target s = Some t \<longrightarrow> t \<in> seen"
    "seen \<inter> set (concat (map (attached \<circ> fst) os)) = {}" "all_spaced ms" "inband_run os s = (new, s')"
  shows "inband_ok (ms @ new) (last (clock # map (fst \<circ> snd) os)) s' \<and> all_spaced (ms @ new) \<and>
    cl_latest (ib_limiter s') = latest_vad os (cl_latest (ib_limiter s))"
  using assms
proof (induction os arbitrary: ms clock s seen new)
  case Nil
  then show ?case by (simp add: latest_vad_def)
next
  case (Cons o1 os)
  obtain o' now took where o1: "o1 = (o', now, took)" by (cases o1)
  obtain a s1 where a: "inband_step (o', now, took) s = (a, s1)" by (cases "inband_step (o', now, took) s")
  obtain b where b: "inband_run os s1 = (b, s')" "new = a @ b" using Cons.prems(7) by (auto simp: o1 a split: prod.splits)
  have calm: "clock \<le> now" "calm_ops now os" using Cons.prems(2) by (auto simp: calm_ops_def o1)
  have fresh: "fresh_attach ms o'" using Cons.prems(3,5) by (cases o') (auto simp: o1)
  note st = step_ok [OF Cons.prems(1) calm(1) fresh a]
  let ?seen = "seen \<union> set (attached o')"
  have target: "ib_target s1 = Some t \<Longrightarrow> t \<in> ?seen" for t using st(5) Cons.prems(4) by auto
  have "all_spaced (ms @ a)"
  proof (cases a)
    case (Cons m l)
    with st(3) have "a = [m]" by simp
    with st(2) \<open>all_spaced ms\<close> show ?thesis by (simp add: all_spaced_snoc)
  qed (use Cons.prems(6) in simp)
  moreover have "\<forall>m \<in> set (ms @ a). fst m \<in> ?seen" using Cons.prems(3) st(4) target by fastforce
  moreover have "?seen \<inter> set (concat (map (attached \<circ> fst) os)) = {}"
    using Cons.prems(2,5) by (auto simp: calm_ops_def o1)
  ultimately have "inband_ok ((ms @ a) @ b) (last (now # map (fst \<circ> snd) os)) s' \<and> all_spaced ((ms @ a) @ b) \<and>
      cl_latest (ib_limiter s') = latest_vad os (cl_latest (ib_limiter s1))"
    using Cons.IH [OF st(1) calm(2) _ _ _ _ b(1), of ?seen] target by blast
  then show ?case using st(6) by (cases o') (simp_all add: b(2) o1 latest_vad_def comp_def)
qed


lemma poll_clears:
  assumes "inband_ok ms clock s" "ib_target s \<noteq> None" "clock + inband_min_change_interval \<le> now" "inband_poll now True s = (new, s')"
  shows "cl_pending (ib_limiter s') = None"
proof (cases "cl_pending (ib_limiter s)")
  case None
  with assms(4) show ?thesis by (simp add: inband_poll_def limiter_has_pending_def)
next
  case (Some x)
  have "\<not> now - a < inband_min_change_interval" if "cl_last_sent_at (ib_limiter s) = Some a" for a
    using inband_okD(7) [OF assms(1) that] assms(3) by simp
  with assms Some show ?thesis
    by (auto simp: inband_poll_def limiter_has_pending_def inband_decided_def limiter_poll_def inband_send_def inband_okD(1) [OF assms(1)]
        split: option.splits if_splits)
qed



lemmas speaking_defs = inband_new_def limiter_new_def on_vad_def inband_attach_def inband_poll_def inband_decided_def
  limiter_on_change_def limiter_poll_def inband_send_def limiter_send_failed_def limiter_restart_def limiter_has_pending_def Let_def
  inband_min_change_interval_def millis_def

lemma sample_talk:
  "inband_run [(Vad True, 5, False), (Ib_attach 1, 10, True), (Vad False, 20, True), (Ib_poll, 30, True)] inband_new =
     ([(1, 10, True)], \<lparr>ib_target = Some 1, ib_limiter = \<lparr>cl_interval = 100000000, cl_last_sent_at = Some 10,
        cl_last_sent = Some True, cl_pending = Some False, cl_latest = Some False\<rparr>\<rparr>)"
proof -
  let ?lim = "\<lambda>at sent pending latest. \<lparr>cl_interval = 100000000, cl_last_sent_at = at, cl_last_sent = sent, cl_pending = pending, cl_latest = latest\<rparr>"
  have "inband_step (Vad True, 5, False) inband_new = ([], \<lparr>ib_target = None, ib_limiter = ?lim None None (Some True) (Some True)\<rparr>)"
    by (simp add: speaking_defs)
  moreover have "inband_step (Ib_attach 1, 10, True) \<lparr>ib_target = None, ib_limiter = ?lim None None (Some True) (Some True)\<rparr> =
      ([(1, 10, True)], \<lparr>ib_target = Some 1, ib_limiter = ?lim (Some 10) (Some True) None (Some True)\<rparr>)" by (simp add: speaking_defs)
  moreover have "inband_step (Vad False, 20, True) \<lparr>ib_target = Some 1, ib_limiter = ?lim (Some 10) (Some True) None (Some True)\<rparr> =
      ([], \<lparr>ib_target = Some 1, ib_limiter = ?lim (Some 10) (Some True) (Some False) (Some False)\<rparr>)" by (simp add: speaking_defs)
  moreover have "inband_step (Ib_poll, 30, True) \<lparr>ib_target = Some 1, ib_limiter = ?lim (Some 10) (Some True) (Some False) (Some False)\<rparr> =
      ([], \<lparr>ib_target = Some 1, ib_limiter = ?lim (Some 10) (Some True) (Some False) (Some False)\<rparr>)" by (simp add: speaking_defs)
  ultimately show ?thesis by (simp del: inband_step.simps)
qed



section \<open>Gates with a window\<close>

text \<open>
  What the limiter and the gate of the feed reloads share: a step may fire, only when the window since the last fire is over, and
  it remembers when. Then any two fires of a run are a window apart.
\<close>

locale rate_gate =
  fixes step :: "'i \<Rightarrow> instant \<Rightarrow> 's \<Rightarrow> bool \<times> 's" and last_fire :: "'s \<Rightarrow> instant option" and window :: duration and ok :: "'s \<Rightarrow> bool"
  assumes window_pos: "0 < window"
    and ok_step: "ok s \<Longrightarrow> ok (snd (step i now s))"
    and fires: "ok s \<Longrightarrow> fst (step i now s) \<Longrightarrow>
      last_fire (snd (step i now s)) = Some now \<and> (\<forall>t. last_fire s = Some t \<longrightarrow> window \<le> duration_since now t)"
    and holds: "ok s \<Longrightarrow> \<not> fst (step i now s) \<Longrightarrow> last_fire (snd (step i now s)) = last_fire s"
begin

fun gate_fires :: "('i \<times> instant) list \<Rightarrow> 's \<Rightarrow> instant list" where
  "gate_fires [] s = []"
| "gate_fires ((i, now) # is) s = (case step i now s of (f, s1) \<Rightarrow> (if f then [now] else []) @ gate_fires is s1)"

lemma fires_spaced:
  "ok s \<Longrightarrow> sorted_wrt (\<lambda>a b. a + window \<le> b) (gate_fires is s) \<and>
     (\<forall>t \<in> set (gate_fires is s). \<forall>l. last_fire s = Some l \<longrightarrow> l + window \<le> t)"
proof (induction "is" arbitrary: s)
  case (Cons x "is")
  obtain i now where x: "x = (i, now)" by (cases x)
  obtain f s1 where f: "step i now s = (f, s1)" by (cases "step i now s")
  have s1: "ok s1" using ok_step [OF Cons.prems, of i now] by (simp add: f)
  show ?case
  proof (cases f)
    case True
    have l: "last_fire s1 = Some now" "\<And>t. last_fire s = Some t \<Longrightarrow> t + window \<le> now"
      using fires [OF Cons.prems, of i now] window_pos by (auto simp: f True)
    with Cons.IH [OF s1] show ?thesis by (fastforce simp: x f True)
  next
    case False
    with holds [OF Cons.prems, of i now] Cons.IH [OF s1] show ?thesis by (simp add: x f)
  qed
qed simp

end

text \<open>The limiter without failed sends and new receivers.\<close>

definition limiter_gate :: "bool option \<Rightarrow> instant \<Rightarrow> change_limiter \<Rightarrow> bool \<times> change_limiter" where
  "limiter_gate x now l =
     (case (case x of Some state \<Rightarrow> limiter_on_change state now l | None \<Rightarrow> limiter_poll now l) of (d, l') \<Rightarrow> (d \<noteq> None, l'))"

interpretation presence_gate: rate_gate limiter_gate cl_last_sent_at presence_min_change_interval
  "\<lambda>l. cl_interval l = presence_min_change_interval"
  by unfold_locales (auto simp: limiter_gate_def limiter_on_change_def limiter_poll_def presence_min_change_interval_def secs_def not_less
      split: option.splits if_splits prod.splits)

section \<open>The presence RPC of the client\<close>

text \<open>
  The command \<open>VoiceSpeaking\<close>: in an SFU call the limiter decides what goes out, else the state goes out at once. The limiter is
  polled while it holds a change. The results are the states the RPC is sent with.
\<close>

definition voice_speaking_command :: "bool \<Rightarrow> bool \<Rightarrow> instant \<Rightarrow> change_limiter \<Rightarrow> bool list \<times> change_limiter" where
  "voice_speaking_command in_sfu speaking now l =
     (if in_sfu then (case limiter_on_change speaking now l of (d, l') \<Rightarrow> (case d of None \<Rightarrow> [] | Some s \<Rightarrow> [s], l')) else ([speaking], l))"

definition presence_tick :: "instant \<Rightarrow> change_limiter \<Rightarrow> bool list \<times> change_limiter" where
  "presence_tick now l =
     (if limiter_has_pending l then (case limiter_poll now l of (d, l') \<Rightarrow> (case d of None \<Rightarrow> [] | Some s \<Rightarrow> [s], l')) else ([], l))"

text \<open>
  A finding: the limiter outlives the call and is not told of the states sent outside one. After a call in which speaking went out,
  and the end of speaking after it, the first speaking of the next call is taken for one that was sent and does not go out.
\<close>

lemma speaking_lost_in_second_call:
  "let l0 = limiter_new presence_min_change_interval;
       (in_call, l1) = voice_speaking_command True True 0 l0;
       (after_call, l2) = voice_speaking_command False False (secs 60) l1;
       (next_call, l3) = voice_speaking_command True True (secs 120) l2
   in in_call = [True] \<and> after_call = [False] \<and> next_call = [] \<and> fst (presence_tick (secs 180) l3) = []"
  by (simp add: voice_speaking_command_def presence_tick_def limiter_new_def limiter_on_change_def limiter_poll_def limiter_has_pending_def)

section \<open>Feed reloads\<close>

definition feed_reload_window :: duration where "feed_reload_window = secs 5"

record feed_gate =
  fg_last_reload :: "instant option"
  fg_pending :: bool

definition feed_gate_new :: feed_gate where "feed_gate_new = \<lparr>fg_last_reload = None, fg_pending = False\<rparr>"

definition window_open :: "instant \<Rightarrow> feed_gate \<Rightarrow> bool" where
  "window_open now g \<longleftrightarrow> (case fg_last_reload g of None \<Rightarrow> True | Some t \<Rightarrow> feed_reload_window \<le> duration_since now t)"

definition feed_changed :: "string \<Rightarrow> string option \<Rightarrow> instant \<Rightarrow> feed_gate \<Rightarrow> bool \<times> feed_gate" where
  "feed_changed crew_id active_crew now g =
     (if active_crew \<noteq> Some crew_id then (False, g)
      else if window_open now g then (True, g\<lparr>fg_last_reload := Some now, fg_pending := False\<rparr>)
      else (False, g\<lparr>fg_pending := True\<rparr>))"

definition feed_due :: "instant \<Rightarrow> feed_gate \<Rightarrow> bool \<times> feed_gate" where
  "feed_due now g =
     (if fg_pending g \<and> window_open now g then (True, g\<lparr>fg_last_reload := Some now, fg_pending := False\<rparr>) else (False, g))"

definition feed_clear :: "feed_gate \<Rightarrow> feed_gate" where "feed_clear g = g\<lparr>fg_pending := False\<rparr>"

definition feed_has_pending :: "feed_gate \<Rightarrow> bool" where "feed_has_pending g = fg_pending g"

datatype feed_op = Feed_changed string "string option" | Feed_due | Feed_clear

fun feed_step :: "feed_op \<Rightarrow> instant \<Rightarrow> feed_gate \<Rightarrow> bool \<times> feed_gate" where
  "feed_step (Feed_changed crew active) now g = feed_changed crew active now g"
| "feed_step Feed_due now g = feed_due now g"
| "feed_step Feed_clear now g = (False, feed_clear g)"

interpretation feed: rate_gate feed_step fg_last_reload feed_reload_window "\<lambda>_. True"
proof unfold_locales
  fix s :: feed_gate and i now
  show "fg_last_reload (snd (feed_step i now s)) = Some now \<and> (\<forall>t. fg_last_reload s = Some t \<longrightarrow> feed_reload_window \<le> now - t)"
    if "fst (feed_step i now s)"
    using that by (cases i) (auto simp: feed_changed_def feed_due_def window_open_def split: if_splits option.splits)
  show "fg_last_reload (snd (feed_step i now s)) = fg_last_reload s" if "\<not> fst (feed_step i now s)"
    using that by (cases i) (auto simp: feed_changed_def feed_due_def feed_clear_def split: if_splits)
qed (simp_all add: feed_reload_window_def secs_def)

text \<open>A change of the active crew is not lost: it reloads now, or the timer does when the window ends.\<close>

lemma feed_change_not_lost:
  assumes "feed_changed crew (Some crew) now g = (f, g')"
  shows "f \<or> (fg_pending g' \<and> (feed_reload_window \<le> later - the (fg_last_reload g') \<longrightarrow> fst (feed_due later g')))"
  using assms by (auto simp: feed_changed_def feed_due_def window_open_def split: if_splits option.splits)

section \<open>The choice of a region\<close>

text \<open>The median with an even count is the higher of the two in the middle; the ranking is by milliseconds, stable.\<close>

definition median :: "duration list \<Rightarrow> duration option" where
  "median samples = (if samples = [] then None else Some (sort samples ! (length samples div 2)))"

record region_rtt =
  rr_region :: string
  rr_rtt_ms :: nat

definition from_samples :: "(string \<times> duration list) list \<Rightarrow> region_rtt list" where
  "from_samples samples =
     sort_key rr_rtt_ms (List.map_filter (\<lambda>(region, rtts).
       map_option (\<lambda>m. \<lparr>rr_region = region, rr_rtt_ms = min (m div 1000000) u32_max\<rparr>) (median rtts)) samples)"

definition preferred :: "region_rtt list \<Rightarrow> string option" where
  "preferred entries = (case entries of [] \<Rightarrow> None | e # _ \<Rightarrow> Some (rr_region e))"

definition probes_per_region :: nat where "probes_per_region = 3"

text \<open>One measurement of a region: the time of a request that got a 2xx answer, \<open>None\<close> for another.\<close>

definition probe_region :: "duration option list \<Rightarrow> duration list" where
  "probe_region replies = List.map_filter id (take probes_per_region replies)"

definition measure_regions :: "(string \<times> duration option list) list \<Rightarrow> region_rtt list" where
  "measure_regions regions = from_samples (map (\<lambda>(region, replies). (region, probe_region replies)) regions)"

lemma preferred_fastest:
  assumes "preferred (from_samples samples) = Some region"
  shows "\<exists>rtts m. (region, rtts) \<in> set samples \<and> median rtts = Some m \<and>
    (\<forall>(other, rtts') \<in> set samples. \<forall>m'. median rtts' = Some m' \<longrightarrow> min (m div 1000000) u32_max \<le> min (m' div 1000000) u32_max)"
proof -
  obtain e es where e: "from_samples samples = e # es" "rr_region e = region"
    using assms by (auto simp: preferred_def split: list.splits)
  then have s: "sorted (map rr_rtt_ms (e # es))" by (metis from_samples_def sorted_sort_key)
  have mem: "x \<in> set (e # es) \<longleftrightarrow> (\<exists>r rtts m. (r, rtts) \<in> set samples \<and> median rtts = Some m \<and>
      x = \<lparr>rr_region = r, rr_rtt_ms = min (m div 1000000) u32_max\<rparr>)" for x
    unfolding e(1) [symmetric] by (force simp: from_samples_def List.map_filter_def)
  obtain rtts m where m: "(region, rtts) \<in> set samples" "median rtts = Some m" "rr_rtt_ms e = min (m div 1000000) u32_max"
    using mem [of e] e(2) by auto
  have "rr_rtt_ms e \<le> min (m' div 1000000) u32_max" if "(other, rtts') \<in> set samples" "median rtts' = Some m'" for other rtts' m'
  proof -
    have "\<lparr>rr_region = other, rr_rtt_ms = min (m' div 1000000) u32_max\<rparr> \<in> set (e # es)" using mem that by blast
    with s show ?thesis by fastforce
  qed
  with m show ?thesis by (intro exI [of _ rtts] exI [of _ m]) auto
qed

end
