(* ===== verification/Voice_Manager.thy ===== *)
theory Voice_Manager
  imports Voice_Speaking
begin

text \<open>
  The voice session (\<open>voice/mod.rs\<close>, \<open>voice/send_sink.rs\<close>, \<open>voice/frame.rs\<close>): the calls that start and end it, the link
  stall, the tick, and the sink on the capture thread. The state of the manager stands beside what libmello holds of it
  (\<open>native_voice\<close>): capture, the packet sink, the connections that feed the decoder. A connection is a number. What
  libmello, a connection or the clock answers is an argument; what is sent to the client or to libmello is the list of the outputs.
\<close>

section \<open>Frames\<close>

definition header_len :: nat where "header_len = 8"
definition get_packet_header_len :: nat where "get_packet_header_len = 4"

definition le32 :: "nat \<Rightarrow> nat list" where
  "le32 n = [n mod 256, n div 256 mod 256, n div 65536 mod 256, n div 16777216 mod 256]"

text \<open>The frame that is written into a buffer of a given size, and the one made of a queued packet.\<close>

definition frame_write :: "nat \<Rightarrow> nat \<Rightarrow> nat list \<Rightarrow> nat \<Rightarrow> nat list option" where
  "frame_write sequence timestamp opus room =
     (if header_len + length opus \<le> room then Some (le32 sequence @ le32 timestamp @ opus) else None)"

definition from_get_packet :: "nat list \<Rightarrow> nat \<Rightarrow> nat list option" where
  "from_get_packet packet timestamp =
     (if length packet \<le> get_packet_header_len then None
      else Some (take get_packet_header_len packet @ le32 timestamp @ drop get_packet_header_len packet))"

lemma frames_agree:
  assumes "opus \<noteq> []" "header_len + length opus \<le> room"
  shows "from_get_packet (le32 sequence @ opus) timestamp = frame_write sequence timestamp opus room"
  using assms by (simp add: from_get_packet_def frame_write_def get_packet_header_len_def le32_def)

section \<open>State\<close>

definition sfu_pong_stale_ms :: int where "sfu_pong_stale_ms = 8000"
definition sfu_signaling_grace_ms :: nat where "sfu_signaling_grace_ms = 5000"
definition sfu_pong_grace_ms :: int where "sfu_pong_grace_ms = 15000"
definition sfu_stall_check_ticks :: nat where "sfu_stall_check_ticks = 6"
definition sfu_stall_pong_age_ms :: int where "sfu_stall_pong_age_ms = 700"
definition sfu_stall_rebuild_ms :: int where "sfu_stall_rebuild_ms = 5000"
definition underrun_window :: duration where "underrun_window = secs 5"
definition debug_stats_tick_divisor :: nat where "debug_stats_tick_divisor = 10"
definition default_channel_bitrate_kbps :: nat where "default_channel_bitrate_kbps = 64"
definition max_opus_frame :: nat where "max_opus_frame = 4000"

datatype voice_mode = Voice_disconnected | Voice_sfu

record packet_sink =
  sk_target :: nat
  sk_loopback :: bool
  sk_sent :: nat
  sk_skipped :: nat

record voice_manager =
  vm_ctx :: bool
  vm_muted :: bool
  vm_deafened :: bool
  vm_push_to_talk :: bool
  vm_active :: bool
  vm_loopback :: bool
  vm_debug :: bool
  vm_capture_log :: bool
  vm_underruns :: "(instant \<times> int) list"
  vm_prev_underrun :: int
  vm_tick_counter :: nat
  vm_mode :: voice_mode
  vm_connection :: "nat option"
  vm_sink :: "packet_sink option"
  vm_crew :: string
  vm_unhealthy :: nat
  vm_connected_at :: "instant option"
  vm_stalled :: bool
  vm_stall_peak :: int
  vm_prev_rtp :: int
  vm_rtp_stalls :: nat
  vm_inband :: inband
  vm_bitrate :: nat

text \<open>What libmello holds: whether it captures, the connection its packet sink sends on, the connections with a direct sink.\<close>

record native_voice =
  nv_capturing :: bool
  nv_sink :: "nat option"
  nv_direct :: "nat list"
  nv_push_to_talk :: bool
  nv_muted :: bool
  nv_deafened :: bool
  nv_max_bitrate :: nat

type_synonym voice = "voice_manager \<times> native_voice"

definition vm_new :: "bool \<Rightarrow> bool \<Rightarrow> voice_manager" where
  "vm_new ctx loopback =
     \<lparr>vm_ctx = ctx, vm_muted = False, vm_deafened = False, vm_push_to_talk = False, vm_active = False, vm_loopback = loopback,
      vm_debug = False, vm_capture_log = False, vm_underruns = [], vm_prev_underrun = 0, vm_tick_counter = 0,
      vm_mode = Voice_disconnected, vm_connection = None, vm_sink = None, vm_crew = [], vm_unhealthy = 0,
      vm_connected_at = None, vm_stalled = False, vm_stall_peak = 0, vm_prev_rtp = 0, vm_rtp_stalls = 0,
      vm_inband = inband_new, vm_bitrate = default_channel_bitrate_kbps\<rparr>"

datatype voice_out =
    Link_stalled string bool | Sfu_dropped string string | Voice_activity string bool | Membership_changed string
  | Mic_level | Audio_stats int | Leave_task nat
  | Speaking message | Feed_rtp string "nat list" | Remove_peer string | Send_audio nat "nat list" nat | Feed_loopback "nat list"

section \<open>The packet sink\<close>

definition detach_sink :: "voice \<Rightarrow> voice" where
  "detach_sink v = (case v of (m, n) \<Rightarrow>
     (case vm_sink m of None \<Rightarrow> (m, n) | Some _ \<Rightarrow> (m\<lparr>vm_sink := None\<rparr>, n\<lparr>nv_sink := None\<rparr>)))"

text \<open>A new sink replaces one that is set; \<open>sink_ok\<close> is whether libmello takes it.\<close>

definition attach_sink :: "nat \<Rightarrow> bool \<Rightarrow> voice \<Rightarrow> voice" where
  "attach_sink conn sink_ok v =
     (case detach_sink v of (m, n) \<Rightarrow>
        if \<not> sink_ok then (m, n)
        else (m\<lparr>vm_sink := Some \<lparr>sk_target = conn, sk_loopback = vm_loopback m, sk_sent = 0, sk_skipped = 0\<rparr>\<rparr>, n\<lparr>nv_sink := Some conn\<rparr>))"

text \<open>A frame on the capture thread: sent or skipped, and a copy for the mic test. The counters are 64 bits wide.\<close>

definition sink_deliver :: "nat list \<Rightarrow> nat \<Rightarrow> nat \<Rightarrow> bool \<Rightarrow> packet_sink \<Rightarrow> voice_out list \<times> packet_sink" where
  "sink_deliver payload timestamp sequence took k =
     ((if took then [Send_audio (sk_target k) payload timestamp] else []) @
      (if sk_loopback k then
         (case frame_write sequence timestamp payload (header_len + max_opus_frame) of
            None \<Rightarrow> [] | Some f \<Rightarrow> [Feed_loopback f]) else []),
      if took then k\<lparr>sk_sent := wrap_u u64_max (sk_sent k + 1)\<rparr> else k\<lparr>sk_skipped := wrap_u u64_max (sk_skipped k + 1)\<rparr>)"

text \<open>libmello calls the sink it holds, with a frame that is not empty.\<close>

definition sfu_packet_sink :: "nat list \<Rightarrow> nat \<Rightarrow> nat \<Rightarrow> bool \<Rightarrow> voice \<Rightarrow> voice_out list \<times> voice" where
  "sfu_packet_sink payload timestamp sequence took v =
     (case v of (m, n) \<Rightarrow>
        if nv_sink n = None \<or> payload = [] then ([], v)
        else case vm_sink m of
               None \<Rightarrow> ([], v)
             | Some k \<Rightarrow> (case sink_deliver payload timestamp sequence took k of (outs, k') \<Rightarrow> (outs, m\<lparr>vm_sink := Some k'\<rparr>, n)))"

section \<open>A session starts and ends\<close>

definition stop_capture :: "voice \<Rightarrow> voice" where
  "stop_capture v = (case v of (m, n) \<Rightarrow> if vm_ctx m then (m, n\<lparr>nv_capturing := False\<rparr>) else (m, n))"

definition apply_push_to_talk :: "voice \<Rightarrow> voice" where
  "apply_push_to_talk v = (case v of (m, n) \<Rightarrow> if vm_ctx m then (m, n\<lparr>nv_push_to_talk := vm_push_to_talk m\<rparr>) else (m, n))"

definition drop_connection :: "voice \<Rightarrow> voice" where
  "drop_connection v =
     (case v of (m, n) \<Rightarrow>
        (case vm_connection m of
           None \<Rightarrow> (m, n)
         | Some c \<Rightarrow> (m\<lparr>vm_connection := None\<rparr>, n\<lparr>nv_direct := removeAll c (nv_direct n)\<rparr>)))"

definition session_started :: "string \<Rightarrow> nat \<Rightarrow> instant \<Rightarrow> voice_manager \<Rightarrow> voice_manager" where
  "session_started crew_id conn now m =
     m\<lparr>vm_connection := Some conn, vm_crew := crew_id, vm_active := True, vm_mode := Voice_sfu, vm_connected_at := Some now,
       vm_stalled := False, vm_stall_peak := 0, vm_prev_rtp := 0, vm_rtp_stalls := 0\<rparr>"

definition join_voice_sfu :: "string \<Rightarrow> nat \<Rightarrow> instant \<Rightarrow> bool \<Rightarrow> bool \<Rightarrow> bool \<Rightarrow> voice \<Rightarrow> voice_out list \<times> voice" where
  "join_voice_sfu crew_id conn now capture_ok sink_ok took v =
     (if \<not> vm_ctx (fst v) then ([], v)
      else if \<not> capture_ok then ([], v)
      else case attach_sink conn sink_ok (fst v, (snd v)\<lparr>nv_capturing := True, nv_direct := nv_direct (snd v) @ [conn]\<rparr>) of
        (m, n) \<Rightarrow>
          (case inband_attach conn now took (vm_inband m) of (ms, ib) \<Rightarrow>
             (map Speaking ms, apply_push_to_talk (session_started crew_id conn now (m\<lparr>vm_inband := ib\<rparr>), n))))"

definition leave_voice :: "voice \<Rightarrow> voice" where
  "leave_voice v =
     (if \<not> vm_active (fst v) then v
      else case (case vm_mode (fst v) of
                   Voice_sfu \<Rightarrow>
                     (case drop_connection (case detach_sink (stop_capture v) of (m, n) \<Rightarrow> (m\<lparr>vm_inband := inband_detach (vm_inband m)\<rparr>, n)) of
                        (m, n) \<Rightarrow> (m\<lparr>vm_crew := [], vm_connected_at := None, vm_stalled := False, vm_stall_peak := 0, vm_rtp_stalls := 0\<rparr>, n))
                 | Voice_disconnected \<Rightarrow> stop_capture v) of
             (m, n) \<Rightarrow> (m\<lparr>vm_active := False, vm_mode := Voice_disconnected\<rparr>, n))"

definition mark_disconnected :: "string \<Rightarrow> voice \<Rightarrow> voice_out list \<times> voice" where
  "mark_disconnected reason v =
     (if vm_mode (fst v) \<noteq> Voice_sfu then ([], v)
      else case detach_sink (if vm_active (fst v) then stop_capture v else v) of (m, n) \<Rightarrow>
        (case drop_connection (m\<lparr>vm_inband := inband_detach (vm_inband m)\<rparr>, n) of (m1, n1) \<Rightarrow>
           ((case vm_connection m of None \<Rightarrow> [] | Some c \<Rightarrow> [Leave_task c]) @ [Sfu_dropped (vm_crew (fst v)) reason],
            m1\<lparr>vm_active := False, vm_mode := Voice_disconnected, vm_unhealthy := 0, vm_connected_at := None, vm_stalled := False,
               vm_stall_peak := 0, vm_rtp_stalls := 0, vm_crew := []\<rparr>, n1)))"


section \<open>The link stall\<close>

definition link_is_stalled :: "int \<Rightarrow> int \<Rightarrow> bool" where
  "link_is_stalled pong_age since_connect =
     (if pong_age < 0 then since_connect > sfu_stall_pong_age_ms else pong_age > sfu_stall_pong_age_ms)"

definition elapsed_ms :: "instant \<Rightarrow> instant \<Rightarrow> int" where
  "elapsed_ms now t = int (duration_since now t div 1000000)"

definition check_link_stall :: "instant \<Rightarrow> int \<Rightarrow> voice \<Rightarrow> voice_out list \<times> voice" where
  "check_link_stall now pong_age v =
     (case v of (m, n) \<Rightarrow>
        if vm_connection m = None then ([], v)
        else
          let since = (case vm_connected_at m of None \<Rightarrow> 0 | Some t \<Rightarrow> elapsed_ms now t);
              stalled = link_is_stalled pong_age since;
              m1 = (if stalled then m\<lparr>vm_stall_peak := max (vm_stall_peak m) (if pong_age < 0 then since else pong_age)\<rparr> else m)
          in if stalled = vm_stalled m1 then ([], m1, n)
             else if stalled then ([Link_stalled (vm_crew m1) True], m1\<lparr>vm_stalled := True\<rparr>, n)
             else let m2 = m1\<lparr>vm_stalled := False, vm_stall_peak := 0\<rparr>
                  in if vm_stall_peak m1 \<ge> sfu_stall_rebuild_ms then mark_disconnected ''link_stalled'' (m2, n)
                     else ([Link_stalled (vm_crew m2) False], m2, n))"

section \<open>Settings\<close>

definition vm_speaking :: "bool \<Rightarrow> instant \<Rightarrow> bool \<Rightarrow> voice \<Rightarrow> voice_out list \<times> voice" where
  "vm_speaking speaking now took v =
     (case v of (m, n) \<Rightarrow> case on_vad speaking now took (vm_inband m) of (ms, ib) \<Rightarrow> (map Speaking ms, m\<lparr>vm_inband := ib\<rparr>, n))"

text \<open>The callback of the VAD: the message first, then the local event.\<close>

definition vad_callback :: "string \<Rightarrow> bool \<Rightarrow> instant \<Rightarrow> bool \<Rightarrow> voice \<Rightarrow> voice_out list \<times> voice" where
  "vad_callback local_id speaking now took v =
     (case vm_speaking speaking now took v of (outs, v1) \<Rightarrow> (outs @ [Voice_activity local_id speaking], v1))"

definition set_mute :: "bool \<Rightarrow> instant \<Rightarrow> bool \<Rightarrow> voice \<Rightarrow> voice_out list \<times> voice" where
  "set_mute muted now took v =
     (case v of (m, n) \<Rightarrow>
        let v1 = (m\<lparr>vm_muted := muted\<rparr>, if vm_ctx m then n\<lparr>nv_muted := muted\<rparr> else n)
        in if muted then vm_speaking False now took v1 else ([], v1))"

definition on_push_to_talk_speaking :: "bool \<Rightarrow> instant \<Rightarrow> bool \<Rightarrow> voice \<Rightarrow> voice_out list \<times> voice" where
  "on_push_to_talk_speaking speaking now took v =
     (if vm_push_to_talk (fst v) then vm_speaking speaking now took v else ([], v))"

definition set_push_to_talk :: "bool \<Rightarrow> voice \<Rightarrow> voice" where
  "set_push_to_talk enabled v = (case v of (m, n) \<Rightarrow> apply_push_to_talk (m\<lparr>vm_push_to_talk := enabled\<rparr>, n))"

definition set_deafen :: "bool \<Rightarrow> voice \<Rightarrow> voice" where
  "set_deafen deafened v =
     (case v of (m, n) \<Rightarrow> (m\<lparr>vm_deafened := deafened\<rparr>, if vm_ctx m then n\<lparr>nv_deafened := deafened\<rparr> else n))"

definition set_channel_bitrate :: "nat \<Rightarrow> voice \<Rightarrow> voice" where
  "set_channel_bitrate kbps v =
     (case v of (m, n) \<Rightarrow>
        if kbps = vm_bitrate m then (m, n)
        else (m\<lparr>vm_bitrate := kbps\<rparr>, if vm_ctx m then n\<lparr>nv_max_bitrate := min kbps 2147483647\<rparr> else n))"

text \<open>The mic test captures by itself outside a call; in a call it only copies the frames of the call.\<close>

definition set_loopback :: "bool \<Rightarrow> bool \<Rightarrow> voice \<Rightarrow> voice" where
  "set_loopback enabled capture_ok v =
     (case v of (m, n) \<Rightarrow>
        if \<not> vm_ctx m then (m, n)
        else
          let m1 = m\<lparr>vm_loopback := enabled, vm_sink := map_option (\<lambda>k. k\<lparr>sk_loopback := enabled\<rparr>) (vm_sink m)\<rparr>
          in if enabled \<and> \<not> vm_active m1 then (m1, if capture_ok then n\<lparr>nv_capturing := True\<rparr> else n)
             else if \<not> enabled \<and> \<not> vm_active m1 then (m1, n\<lparr>nv_capturing := False\<rparr>)
             else (m1, n))"

definition needs_periodic_tick :: "voice_manager \<Rightarrow> bool" where
  "needs_periodic_tick m \<longleftrightarrow> vm_active m \<or> vm_loopback m"

section \<open>Underruns in a window\<close>

definition windowed_underrun :: "instant \<Rightarrow> int \<Rightarrow> int \<Rightarrow> voice_manager \<Rightarrow> int \<times> voice_manager" where
  "windowed_underrun now count streams m =
     (let inc = max (count - vm_prev_underrun m) 0;
          counted = (if vm_underruns m = [] \<or> streams \<le> 0 then 0 else inc);
          w = dropWhile (\<lambda>(t, _). duration_since now t > underrun_window) (vm_underruns m @ [(now, counted)])
      in (sum_list (map snd w), m\<lparr>vm_prev_underrun := count, vm_underruns := w\<rparr>))"

definition windowed_late_underruns :: "instant \<Rightarrow> nat \<Rightarrow> int \<Rightarrow> voice_manager \<Rightarrow> int \<times> voice_manager" where
  "windowed_late_underruns now late streams m = windowed_underrun now (min (int late) 2147483647) streams m"

text \<open>The stall of received packets is only counted, for the log.\<close>

definition detect_rtp_stall :: "int \<Rightarrow> int \<Rightarrow> voice_manager \<Rightarrow> voice_manager" where
  "detect_rtp_stall streams rtp_total m =
     (if \<not> vm_ctx m then m
      else (if streams > 0 \<and> rtp_total = vm_prev_rtp m then m\<lparr>vm_rtp_stalls := wrap_u u32_max (vm_rtp_stalls m + 1)\<rparr>
            else m\<lparr>vm_rtp_stalls := 0\<rparr>)\<lparr>vm_prev_rtp := rtp_total\<rparr>)"

section \<open>The tick\<close>

datatype sfu_event =
    Audio_rtp string "nat list" | Sfu_member_joined string | Sfu_member_left string string | Slot_released string
  | Sfu_disconnected string | Sfu_other

text \<open>What a tick reads.\<close>

record tick_env =
  te_now :: instant
  te_pong_age :: int
  te_connected :: bool
  te_control_open :: bool
  te_signaling_idle :: nat
  te_took :: bool
  te_streams :: int
  te_rtp_total :: int
  te_late_underruns :: nat
  te_packets :: "(nat list \<times> nat) list"
  te_events :: "sfu_event list"

text \<open>The queued packets: with the packet sink set there are none. The sequence header is stripped for the SFU.\<close>

definition send_queued :: "(nat list \<times> nat) list \<Rightarrow> voice_manager \<Rightarrow> voice_out list" where
  "send_queued packets m =
     concat (map (\<lambda>(pkt, timestamp).
       (case (if vm_active m \<and> vm_mode m = Voice_sfu then vm_connection m else None) of
          Some c \<Rightarrow> [Send_audio c (if length pkt > 4 then drop 4 pkt else pkt) timestamp] | None \<Rightarrow> []) @
       (if vm_loopback m then (case from_get_packet pkt timestamp of Some f \<Rightarrow> [Feed_loopback f] | None \<Rightarrow> []) else []))
       (takeWhile (\<lambda>(pkt, _). pkt \<noteq> []) packets))"

fun handle_sfu_events :: "sfu_event list \<Rightarrow> voice \<Rightarrow> voice_out list \<times> voice" where
  "handle_sfu_events [] v = ([], v)"
| "handle_sfu_events (Audio_rtp sender rtp # es) v = (case handle_sfu_events es v of (os, v') \<Rightarrow> (Feed_rtp sender rtp # os, v'))"
| "handle_sfu_events (Sfu_member_joined user # es) v =
     (case handle_sfu_events es v of (os, v') \<Rightarrow> (Membership_changed (vm_crew (fst v)) # os, v'))"
| "handle_sfu_events (Sfu_member_left user reason # es) v =
     (case handle_sfu_events es v of (os, v') \<Rightarrow>
        (Remove_peer user # Voice_activity user False # Membership_changed (vm_crew (fst v)) # os, v'))"
| "handle_sfu_events (Slot_released user # es) v = (case handle_sfu_events es v of (os, v') \<Rightarrow> (Remove_peer user # os, v'))"
| "handle_sfu_events (Sfu_disconnected reason # es) v = mark_disconnected reason v"
| "handle_sfu_events (Sfu_other # es) v = handle_sfu_events es v"

definition receive_and_poll :: "sfu_event list \<Rightarrow> voice \<Rightarrow> voice_out list \<times> voice" where
  "receive_and_poll es v =
     (if vm_active (fst v) \<and> vm_mode (fst v) = Voice_sfu \<and> vm_connection (fst v) \<noteq> None then handle_sfu_events es v else ([], v))"

definition pong_fresh :: "int \<Rightarrow> int \<Rightarrow> bool" where
  "pong_fresh pong_age since = (if pong_age < 0 then since < sfu_pong_grace_ms else pong_age \<le> sfu_pong_stale_ms)"

text \<open>The check of every 200th tick; the session is dead after three bad checks in a row.\<close>

definition liveness_count :: "tick_env \<Rightarrow> voice_manager \<Rightarrow> voice_manager" where
  "liveness_count e m =
     (if vm_connection m = None then m
      else
        let since = (case vm_connected_at m of None \<Rightarrow> 9223372036854775807 | Some t \<Rightarrow> elapsed_ms (te_now e) t);
            healthy = te_connected e \<and> te_control_open e \<and> pong_fresh (te_pong_age e) since
        in if vm_mode m = Voice_sfu \<and> \<not> healthy
           then if te_signaling_idle e \<le> sfu_signaling_grace_ms then m\<lparr>vm_unhealthy := 0\<rparr>
                else m\<lparr>vm_unhealthy := wrap_u u32_max (vm_unhealthy m + 1)\<rparr>
           else m\<lparr>vm_unhealthy := 0\<rparr>)"

definition liveness :: "tick_env \<Rightarrow> voice \<Rightarrow> bool \<times> voice_out list \<times> voice" where
  "liveness e v =
     (case v of (m, n) \<Rightarrow>
        let m1 = liveness_count e m
        in if vm_unhealthy m1 \<ge> 3 then (True, mark_disconnected ''liveness_timeout'' (m1, n))
           else (False, [],
             (if vm_capture_log m1 \<and> vm_mode m1 = Voice_sfu \<and> vm_connection m1 \<noteq> None
              then detect_rtp_stall (te_streams e) (te_rtp_total e) m1 else m1), n))"

text \<open>What follows the checks: statistics, packets, the waiting speaking change, the events.\<close>

definition tick_rest :: "tick_env \<Rightarrow> voice \<Rightarrow> voice_out list \<times> voice" where
  "tick_rest e v =
     (case v of (m, n) \<Rightarrow>
        case (if (vm_debug m \<or> vm_capture_log m) \<and> vm_tick_counter m mod debug_stats_tick_divisor = 0
              then (case windowed_late_underruns (te_now e) (te_late_underruns e) (te_streams e) m of
                      (u, m1) \<Rightarrow> (if vm_debug m then [Audio_stats u] else [], m1))
              else ([], m)) of (stats, m1) \<Rightarrow>
        let sent = (if vm_sink m1 = None then send_queued (te_packets e) m1 else [])
        in case (if vm_mode m1 = Voice_sfu
                 then (case inband_poll (te_now e) (te_took e) (vm_inband m1) of (ms, ib) \<Rightarrow> (map Speaking ms, m1\<lparr>vm_inband := ib\<rparr>))
                 else ([], m1)) of (spoken, m2) \<Rightarrow>
           (case receive_and_poll (te_events e) (m2, n) of (outs, v') \<Rightarrow> (stats @ sent @ spoken @ outs, v')))"

definition voice_tick :: "tick_env \<Rightarrow> voice \<Rightarrow> voice_out list \<times> voice" where
  "voice_tick e v =
     (if \<not> vm_ctx (fst v) \<or> \<not> needs_periodic_tick (fst v) then ([], v)
      else
        case v of (m0, n) \<Rightarrow>
        let m = m0\<lparr>vm_tick_counter := wrap_u u32_max (vm_tick_counter m0 + 1)\<rparr>;
            level = (if vm_loopback m \<and> vm_tick_counter m mod 5 = 0 then [Mic_level] else [])
        in case (if vm_mode m = Voice_sfu \<and> vm_tick_counter m mod sfu_stall_check_ticks = 0
                 then check_link_stall (te_now e) (te_pong_age e) (m, n) else ([], m, n)) of (stall, v1) \<Rightarrow>
           if vm_mode m = Voice_sfu \<and> vm_mode (fst v1) \<noteq> Voice_sfu then (level @ stall, v1)
           else case (if vm_tick_counter m mod 200 = 0 then liveness e v1 else (False, [], v1)) of (dead, live, v2) \<Rightarrow>
             if dead then (level @ stall @ live, v2)
             else (case tick_rest e v2 of (rest, v3) \<Rightarrow> (level @ stall @ live @ rest, v3)))"

end
