(* ===== verification/Voice_Props.thy ===== *)
theory Voice_Props
  imports Voice_Manager
begin

text \<open>
  What a voice session promises: manager and libmello agree about it in every reachable state, nothing is sent on a
  connection that is not the session's, a dead link is dropped once, and a stall ends as it should.
\<close>

section \<open>Every operation\<close>

datatype voice_op =
    Op_join string nat instant bool bool bool | Op_leave | Op_mark string | Op_tick tick_env | Op_vad string bool instant bool
  | Op_mute bool instant bool | Op_ptt_speaking bool instant bool | Op_set_ptt bool | Op_deafen bool | Op_bitrate nat
  | Op_loopback bool bool | Op_frame "nat list" nat nat bool | Op_log bool bool

fun voice_step :: "voice_op \<Rightarrow> voice \<Rightarrow> voice_out list \<times> voice" where
  "voice_step (Op_join crew conn now cap sink took) v = join_voice_sfu crew conn now cap sink took v"
| "voice_step Op_leave v = ([], leave_voice v)"
| "voice_step (Op_mark reason) v = mark_disconnected reason v"
| "voice_step (Op_tick e) v = voice_tick e v"
| "voice_step (Op_vad who on now took) v = vad_callback who on now took v"
| "voice_step (Op_mute on now took) v = set_mute on now took v"
| "voice_step (Op_ptt_speaking on now took) v = on_push_to_talk_speaking on now took v"
| "voice_step (Op_set_ptt on) v = ([], set_push_to_talk on v)"
| "voice_step (Op_deafen on) v = ([], set_deafen on v)"
| "voice_step (Op_bitrate kbps) v = ([], set_channel_bitrate kbps v)"
| "voice_step (Op_loopback on ok) v = ([], set_loopback on ok v)"
| "voice_step (Op_frame payload ts seq took) v = sfu_packet_sink payload ts seq took v"
| "voice_step (Op_log debug capture) v = ([], (fst v)\<lparr>vm_debug := debug, vm_capture_log := capture\<rparr>, snd v)"

text \<open>The client joins only when no session is open: it leaves first.\<close>

fun may :: "voice_op \<Rightarrow> voice \<Rightarrow> bool" where
  "may (Op_join crew conn now cap sink took) v \<longleftrightarrow> vm_mode (fst v) = Voice_disconnected"
| "may _ v \<longleftrightarrow> True"

section \<open>The manager and libmello agree\<close>

definition voice_ok :: "voice \<Rightarrow> bool" where
  "voice_ok v \<longleftrightarrow>
     (case v of (m, n) \<Rightarrow>
        (if vm_mode m = Voice_sfu
         then vm_ctx m \<and> vm_active m \<and> (\<exists>c. vm_connection m = Some c \<and> nv_direct n = [c] \<and> ib_target (vm_inband m) = Some c) \<and>
              nv_capturing n \<and> vm_connected_at m \<noteq> None
         else \<not> vm_active m \<and> vm_connection m = None \<and> nv_direct n = [] \<and> ib_target (vm_inband m) = None \<and> nv_sink n = None \<and>
              \<not> vm_stalled m \<and> vm_connected_at m = None \<and> vm_crew m = []) \<and>
        nv_sink n = map_option sk_target (vm_sink m) \<and>
        (nv_sink n = None \<or> nv_sink n = vm_connection m) \<and>
        (\<not> vm_stalled m \<longrightarrow> vm_stall_peak m = 0) \<and> vm_unhealthy m < 3)"

text \<open>The connection an output goes out on.\<close>

fun out_conn :: "voice_out \<Rightarrow> nat option" where
  "out_conn (Send_audio c payload ts) = Some c"
| "out_conn (Speaking m) = Some (fst m)"
| "out_conn _ = None"

definition outs_on :: "nat option \<Rightarrow> voice_out list \<Rightarrow> bool" where
  "outs_on conn outs \<longleftrightarrow> (\<forall>o' \<in> set outs. out_conn o' = None \<or> out_conn o' = conn)"

lemma outs_on_simps [simp]:
  "outs_on c []" "outs_on c (o' # os) \<longleftrightarrow> (out_conn o' = None \<or> out_conn o' = c) \<and> outs_on c os"
  "outs_on c (os @ os') \<longleftrightarrow> outs_on c os \<and> outs_on c os'"
  by (auto simp: outs_on_def)

lemma inband_targets:
  "inband_poll now took s = (ms, s') \<Longrightarrow> ib_target s' = ib_target s \<and> outs_on (ib_target s) (map Speaking ms)"
  "on_vad on now took s = (ms, s') \<Longrightarrow> ib_target s' = ib_target s \<and> outs_on (ib_target s) (map Speaking ms)"
  "inband_attach c now took s = (ms, s') \<Longrightarrow> ib_target s' = Some c \<and> outs_on (Some c) (map Speaking ms)"
  by (auto simp: inband_poll_def on_vad_def inband_attach_def inband_decided_def inband_send_def
      split: option.splits if_splits prod.splits)

lemmas session_defs = detach_sink_def attach_sink_def stop_capture_def apply_push_to_talk_def drop_connection_def session_started_def

lemma join_ok:
  assumes "voice_ok v" "vm_mode (fst v) = Voice_disconnected" "join_voice_sfu crew conn now cap sink took v = (outs, v')"
  shows "voice_ok v' \<and> outs_on (vm_connection (fst v')) outs"
proof (cases "vm_ctx (fst v) \<and> cap")
  case True
  obtain m n where v: "v = (m, n)" by (cases v)
  obtain ms ib where ib: "inband_attach conn now took (vm_inband m) = (ms, ib)" by (cases "inband_attach conn now took (vm_inband m)")
  have "v' = (session_started crew conn now (m\<lparr>vm_sink := if sink then Some \<lparr>sk_target = conn, sk_loopback = vm_loopback m, sk_sent = 0,
      sk_skipped = 0\<rparr> else None, vm_inband := ib\<rparr>), n\<lparr>nv_capturing := True, nv_direct := [conn], nv_sink := if sink then Some conn else None,
      nv_push_to_talk := vm_push_to_talk m\<rparr>)" "outs = map Speaking ms"
    using assms True by (auto simp: v join_voice_sfu_def session_defs voice_ok_def ib split: if_splits)
  then show ?thesis using inband_targets(3) [OF ib] assms(1,2) True by (auto simp: voice_ok_def v session_started_def)
qed (use assms in \<open>auto simp: join_voice_sfu_def split: if_splits\<close>)

lemma leave_ok: "voice_ok v \<Longrightarrow> voice_ok (leave_voice v)"
  by (cases v) (auto simp: voice_ok_def leave_voice_def session_defs inband_detach_def split: voice_mode.splits option.splits if_splits)

lemma mark_ok: "voice_ok v \<Longrightarrow> mark_disconnected reason v = (outs, v') \<Longrightarrow> voice_ok v' \<and> outs_on c outs"
  by (cases v) (auto simp: voice_ok_def mark_disconnected_def session_defs inband_detach_def split: voice_mode.splits option.splits if_splits)

lemma mark_drops:
  assumes "voice_ok v" "vm_mode (fst v) = Voice_sfu" "vm_connection (fst v) = Some c" "mark_disconnected reason v = (outs, v')"
  shows "outs = [Leave_task c, Sfu_dropped (vm_crew (fst v)) reason]" "vm_mode (fst v') = Voice_disconnected"
    "vm_tick_counter (fst v') = vm_tick_counter (fst v)"
  using assms by (cases v; auto simp: mark_disconnected_def session_defs split: option.splits if_splits)+


text \<open>Operations that leave what the invariant reads alone.\<close>

definition same_session :: "voice \<Rightarrow> voice \<Rightarrow> bool" where
  "same_session v v' \<longleftrightarrow>
     vm_ctx (fst v') = vm_ctx (fst v) \<and> vm_mode (fst v') = vm_mode (fst v) \<and> vm_active (fst v') = vm_active (fst v) \<and> vm_connection (fst v') = vm_connection (fst v) \<and>
     ib_target (vm_inband (fst v')) = ib_target (vm_inband (fst v)) \<and> vm_connected_at (fst v') = vm_connected_at (fst v) \<and>
     vm_stalled (fst v') = vm_stalled (fst v) \<and> vm_stall_peak (fst v') = vm_stall_peak (fst v) \<and> vm_crew (fst v') = vm_crew (fst v) \<and>
     map_option sk_target (vm_sink (fst v')) = map_option sk_target (vm_sink (fst v)) \<and> vm_unhealthy (fst v') = vm_unhealthy (fst v) \<and>
     nv_direct (snd v') = nv_direct (snd v) \<and> nv_sink (snd v') = nv_sink (snd v) \<and> (vm_active (fst v) \<longrightarrow> nv_capturing (snd v') = nv_capturing (snd v))"

lemma same_session_ok: "voice_ok v \<Longrightarrow> same_session v v' \<Longrightarrow> voice_ok v'"
  by (cases v; cases v') (auto simp: voice_ok_def same_session_def split: if_splits)

lemma same_session_refl [simp]: "same_session v v" by (simp add: same_session_def)
lemma same_session_trans: "same_session a b \<Longrightarrow> same_session b c \<Longrightarrow> same_session a c" by (simp add: same_session_def)

lemma inband_idle_target: "voice_ok v \<Longrightarrow> ib_target (vm_inband (fst v)) = vm_connection (fst v)"
  by (cases v) (auto simp: voice_ok_def split: if_splits)

lemma speaking_same:
  assumes "voice_ok v" "vm_speaking on now took v = (outs, v')"
  shows "same_session v v' \<and> outs_on (vm_connection (fst v)) outs"
proof -
  obtain m n where v: "v = (m, n)" by (cases v)
  obtain ms ib where ib: "on_vad on now took (vm_inband m) = (ms, ib)" by (cases "on_vad on now took (vm_inband m)")
  show ?thesis using inband_targets(2) [OF ib] inband_idle_target [OF assms(1)] assms(2)
    by (auto simp: v ib vm_speaking_def same_session_def)
qed

lemma settings_same:
  assumes "voice_ok v"
  shows "vad_callback who on now took v = (outs, v') \<Longrightarrow> same_session v v' \<and> outs_on (vm_connection (fst v)) outs"
    "on_push_to_talk_speaking on now took v = (outs, v') \<Longrightarrow> same_session v v' \<and> outs_on (vm_connection (fst v)) outs"
    "same_session v (set_push_to_talk on v)" "same_session v (set_deafen on v)" "same_session v (set_channel_bitrate kbps v)"
    "same_session v (set_loopback on ok v)"
proof -
  show "vad_callback who on now took v = (outs, v') \<Longrightarrow> same_session v v' \<and> outs_on (vm_connection (fst v)) outs"
    using speaking_same [OF assms, of on now took] by (cases "vm_speaking on now took v") (auto simp: vad_callback_def)
  show "on_push_to_talk_speaking on now took v = (outs, v') \<Longrightarrow> same_session v v' \<and> outs_on (vm_connection (fst v)) outs"
    using speaking_same [OF assms] by (auto simp: on_push_to_talk_speaking_def split: if_splits)
  show "same_session v (set_push_to_talk on v)" "same_session v (set_deafen on v)" "same_session v (set_channel_bitrate kbps v)"
    "same_session v (set_loopback on ok v)"
    by (cases v; auto simp: set_push_to_talk_def set_deafen_def set_channel_bitrate_def set_loopback_def apply_push_to_talk_def
        same_session_def Let_def option.map_comp comp_def)+
qed

lemma mute_same:
  assumes "voice_ok v" "set_mute on now took v = (outs, v')"
  shows "same_session v v' \<and> outs_on (vm_connection (fst v)) outs"
proof -
  obtain m n where v: "v = (m, n)" by (cases v)
  let ?v = "(m\<lparr>vm_muted := on\<rparr>, if vm_ctx m then n\<lparr>nv_muted := on\<rparr> else n)"
  have same: "same_session v ?v" by (simp add: v same_session_def)
  show ?thesis
  proof (cases on)
    case True
    with assms(2) have "vm_speaking False now took ?v = (outs, v')" unfolding v set_mute_def by simp
    from speaking_same [OF same_session_ok [OF assms(1) same] this] same_session_trans [OF same] show ?thesis by (auto simp: v)
  next
    case False
    with assms(2) same show ?thesis by (auto simp: v set_mute_def)
  qed
qed

lemma frame_same:
  assumes "voice_ok v" "sfu_packet_sink payload ts seq took v = (outs, v')"
  shows "same_session v v' \<and> outs_on (vm_connection (fst v)) outs"
proof -
  obtain m n where v: "v = (m, n)" by (cases v)
  show ?thesis
  proof (cases "vm_sink m")
    case None
    with assms(2) show ?thesis by (auto simp: v sfu_packet_sink_def split: if_splits)
  next
    case (Some k)
    with assms have "vm_connection m = Some (sk_target k)" by (auto simp: v voice_ok_def)
    with Some assms(2) show ?thesis
      by (auto simp: v sfu_packet_sink_def sink_deliver_def same_session_def split: if_splits option.splits)
  qed
qed


section \<open>The tick keeps it\<close>

lemma stall_cases:
  assumes "check_link_stall now age (m, n) = (outs, v')"
  obtains "outs = []" "v' = (m, n)"
  | p where "vm_stalled m" "outs = []" "v' = (m\<lparr>vm_stall_peak := p\<rparr>, n)"
  | p where "outs = [Link_stalled (vm_crew m) True]" "v' = (m\<lparr>vm_stall_peak := p, vm_stalled := True\<rparr>, n)"
  | "outs = [Link_stalled (vm_crew m) False]" "v' = (m\<lparr>vm_stalled := False, vm_stall_peak := 0\<rparr>, n)"
  | "mark_disconnected ''link_stalled'' (m\<lparr>vm_stalled := False, vm_stall_peak := 0\<rparr>, n) = (outs, v')"
proof -
  define since where "since = (case vm_connected_at m of None \<Rightarrow> 0 | Some t \<Rightarrow> elapsed_ms now t)"
  define p where "p = max (vm_stall_peak m) (if age < 0 then since else age)"
  note d = assms [unfolded check_link_stall_def prod.case, folded since_def, unfolded Let_def, folded p_def]
  consider "vm_connection m = None" | "vm_connection m \<noteq> None" "link_is_stalled age since" "vm_stalled m"
    | "vm_connection m \<noteq> None" "link_is_stalled age since" "\<not> vm_stalled m" | "vm_connection m \<noteq> None" "\<not> link_is_stalled age since" "vm_stalled m"
    | "vm_connection m \<noteq> None" "\<not> link_is_stalled age since" "\<not> vm_stalled m" by blast
  then show ?thesis
  proof cases
    case 1
    with d show ?thesis by (simp add: that(1))
  next
    case 2
    with d show ?thesis by (intro that(2) [of p]) auto
  next
    case 3
    with d show ?thesis by (intro that(3) [of p]) auto
  next
    case 4
    with d have "(if vm_stall_peak m \<ge> sfu_stall_rebuild_ms
        then mark_disconnected ''link_stalled'' (m\<lparr>vm_stalled := False, vm_stall_peak := 0\<rparr>, n)
        else ([Link_stalled (vm_crew m) False], m\<lparr>vm_stalled := False, vm_stall_peak := 0\<rparr>, n)) = (outs, v')" by (simp cong: if_cong)
    then show ?thesis by (auto simp: that(4,5) split: if_splits)
  next
    case 5
    with d show ?thesis by (simp add: that(1))
  qed
qed

lemma stall_ok:
  assumes "voice_ok v" "check_link_stall now age v = (outs, v')"
  shows "voice_ok v' \<and> outs_on c outs \<and> vm_tick_counter (fst v') = vm_tick_counter (fst v) \<and>
    (vm_mode (fst v') = vm_mode (fst v) \<and> vm_connection (fst v') = vm_connection (fst v) \<or> vm_mode (fst v') = Voice_disconnected)"
proof (cases "vm_mode (fst v) = Voice_sfu")
  case True
  obtain m n where v: "v = (m, n)" by (cases v)
  obtain conn where conn: "vm_connection m = Some conn" using assms(1) True by (auto simp: v voice_ok_def)
  have ok: "voice_ok (m\<lparr>vm_stalled := s, vm_stall_peak := p\<rparr>, n)" if "\<not> s \<longrightarrow> p = 0" for s p
    using assms(1) that True by (auto simp: v voice_ok_def)
  from assms(2) [unfolded v] show ?thesis
  proof (cases rule: stall_cases)
    case 1
    with assms(1) show ?thesis by (simp add: v)
  next
    case (2 p)
    then show ?thesis using assms(1) True by (auto simp: v voice_ok_def)
  next
    case (3 p)
    then show ?thesis using assms(1) True by (auto simp: v voice_ok_def)
  next
    case 4
    then show ?thesis using ok [of False 0] by (simp add: v)
  next
    case 5
    then show ?thesis using mark_ok [OF ok 5] mark_drops(2,3) [OF ok _ _ 5] True conn by (simp add: v)
  qed
next
  case False
  then have "vm_connection (fst v) = None" using assms(1) by (cases v) (simp add: voice_ok_def)
  with assms show ?thesis by (cases v) (auto simp: check_link_stall_def)
qed

lemma events_ok:
  "voice_ok v \<Longrightarrow> handle_sfu_events es v = (outs, v') \<Longrightarrow> voice_ok v' \<and> outs_on c outs"
proof (induction es v arbitrary: outs v' rule: handle_sfu_events.induct)
  case (6 reason es v)
  then show ?case using mark_ok by simp
qed (auto split: prod.splits)

lemma underrun_same: "windowed_late_underruns now late streams m = (u, m') \<Longrightarrow> same_session (m, n) (m', n)"
  by (auto simp: windowed_late_underruns_def windowed_underrun_def Let_def same_session_def)

lemma outs_on_concat: "(\<And>os. os \<in> set oss \<Longrightarrow> outs_on c os) \<Longrightarrow> outs_on c (concat oss)"
  by (auto simp: outs_on_def)

lemma queued_on: "outs_on (vm_connection m) (send_queued packets m)"
  unfolding send_queued_def by (rule outs_on_concat) (clarsimp split: option.split)

lemma rest_ok:
  assumes "voice_ok v" "tick_rest e v = (outs, v')"
  shows "voice_ok v' \<and> outs_on (vm_connection (fst v)) outs"
proof -
  obtain m n where v: "v = (m, n)" by (cases v)
  obtain stats m1 where st: "(if (vm_debug m \<or> vm_capture_log m) \<and> vm_tick_counter m mod debug_stats_tick_divisor = 0
      then (case windowed_late_underruns (te_now e) (te_late_underruns e) (te_streams e) m of
              (u, m1) \<Rightarrow> (if vm_debug m then [Audio_stats u] else [], m1)) else ([], m)) = (stats, m1)"
    by (cases rule: prod.exhaust)
  obtain spoken m2 where sp: "(if vm_mode m1 = Voice_sfu
      then (case inband_poll (te_now e) (te_took e) (vm_inband m1) of (ms, ib) \<Rightarrow> (map Speaking ms, m1\<lparr>vm_inband := ib\<rparr>)) else ([], m1)) = (spoken, m2)"
    by (cases rule: prod.exhaust)
  obtain polled v3 where po: "receive_and_poll (te_events e) (m2, n) = (polled, v3)" by (cases "receive_and_poll (te_events e) (m2, n)")
  have res: "outs = stats @ (if vm_sink m1 = None then send_queued (te_packets e) m1 else []) @ spoken @ polled" "v' = v3"
    using assms(2) unfolding v tick_rest_def by (simp_all add: st sp po)
  have s1: "same_session (m, n) (m1, n)" "outs_on c stats" for c
    using st underrun_same [of "te_now e" "te_late_underruns e" "te_streams e" m _ m1 n] by (auto split: if_splits prod.splits)
  then have ok1: "voice_ok (m1, n)" using assms(1) same_session_ok v by blast
  have s2: "same_session (m1, n) (m2, n)" "outs_on (vm_connection m1) spoken"
    using sp inband_targets(1) [of "te_now e" "te_took e" "vm_inband m1"] inband_idle_target [OF ok1]
    by (auto simp: same_session_def split: if_splits prod.splits)
  then have "voice_ok (m2, n)" using ok1 same_session_ok by blast
  then have "voice_ok v3 \<and> outs_on c polled" for c using po events_ok by (auto simp: receive_and_poll_def split: if_splits)
  moreover have "vm_connection m1 = vm_connection m" using s1 by (simp add: same_session_def)
  ultimately show ?thesis using s1(2) s2(2) queued_on [of m1] by (auto simp: res v)
qed

lemma liveness_count_shape: "\<exists>u. liveness_count e m = m\<lparr>vm_unhealthy := u\<rparr>"
proof -
  have self: "m = m\<lparr>vm_unhealthy := vm_unhealthy m\<rparr>" by simp
  show ?thesis unfolding liveness_count_def Let_def by (split if_split)+ (use self in blast)
qed

lemma count_needs_sfu: "vm_unhealthy (liveness_count e m) \<ge> 3 \<Longrightarrow> vm_unhealthy m < 3 \<Longrightarrow> vm_mode m = Voice_sfu"
  by (rule ccontr) (simp add: liveness_count_def Let_def split: if_splits)

lemma mark_ignores_count:
  "vm_mode m = Voice_sfu \<Longrightarrow> mark_disconnected r (m\<lparr>vm_unhealthy := u\<rparr>, n) = mark_disconnected r (m, n)"
  by (simp add: mark_disconnected_def session_defs split: option.split)

lemma liveness_ok:
  assumes "voice_ok v" "liveness e v = (dead, outs, v')"
  shows "voice_ok v' \<and> outs_on c outs \<and> (\<not> dead \<longrightarrow> vm_connection (fst v') = vm_connection (fst v))"
proof -
  obtain m n where v: "v = (m, n)" by (cases v)
  obtain u where u: "liveness_count e m = m\<lparr>vm_unhealthy := u\<rparr>" using liveness_count_shape by blast
  show ?thesis
  proof (cases "u \<ge> 3")
    case True
    with assms(2) have "mark_disconnected ''liveness_timeout'' (m\<lparr>vm_unhealthy := u\<rparr>, n) = (outs, v')" "dead"
      by (simp_all add: v liveness_def u)
    moreover have "vm_mode m = Voice_sfu" using count_needs_sfu [of e m] True u assms(1) by (simp add: v voice_ok_def)
    ultimately have "mark_disconnected ''liveness_timeout'' v = (outs, v')" "dead" by (simp_all add: mark_ignores_count v)
    then show ?thesis using mark_ok [OF assms(1)] by simp
  next
    case False
    have same: "same_session (m', n) (detect_rtp_stall s t m', n)" for m' s t by (simp add: detect_rtp_stall_def same_session_def)
    have "outs = []" "\<not> dead" "same_session (m\<lparr>vm_unhealthy := u\<rparr>, n) v'"
      using assms(2) False same unfolding v liveness_def prod.case u Let_def
      by (auto split: if_splits)
    moreover have "voice_ok (m\<lparr>vm_unhealthy := u\<rparr>, n)" using assms(1) False by (auto simp: voice_ok_def v)
    ultimately show ?thesis using same_session_ok by (auto simp: same_session_def v)
  qed
qed


lemma tick_ok:
  assumes "voice_ok v" "voice_tick e v = (outs, v')"
  shows "voice_ok v' \<and> outs_on (vm_connection (fst v)) outs"
proof (cases "vm_ctx (fst v) \<and> needs_periodic_tick (fst v)")
  case True
  obtain m0 n where v: "v = (m0, n)" by (cases v)
  define m where "m = m0\<lparr>vm_tick_counter := wrap_u u32_max (vm_tick_counter m0 + 1)\<rparr>"
  define level where "level = (if vm_loopback m \<and> vm_tick_counter m mod 5 = 0 then [Mic_level] else [])"
  have ok: "voice_ok (m, n)" "vm_connection m = vm_connection m0" 
    using assms(1) by (auto simp: v m_def intro: same_session_ok [of "(m0, n)"] simp: same_session_def)
  have lv: "outs_on c level" for c by (simp add: level_def)
  obtain stall v1 where st: "(if vm_mode m = Voice_sfu \<and> vm_tick_counter m mod sfu_stall_check_ticks = 0
      then check_link_stall (te_now e) (te_pong_age e) (m, n) else ([], m, n)) = (stall, v1)" by (cases rule: prod.exhaust)
  have s1: "voice_ok v1" "outs_on c stall" "\<not> (vm_mode m = Voice_sfu \<and> vm_mode (fst v1) \<noteq> Voice_sfu) \<Longrightarrow> vm_connection (fst v1) = vm_connection m" for c
    using st ok(1) stall_ok [OF ok(1)] by (fastforce split: if_splits)+
  obtain dead live v2 where li: "(if vm_tick_counter m mod 200 = 0 then liveness e v1 else (False, [], v1)) = (dead, live, v2)"
    by (cases rule: prod_cases3)
  have s2: "voice_ok v2" "outs_on c live" "\<not> dead \<Longrightarrow> vm_connection (fst v2) = vm_connection (fst v1)" for c
    using li s1(1) liveness_ok [OF s1(1)] by (auto split: if_splits)
  obtain rest v3 where re: "tick_rest e v2 = (rest, v3)" by (cases "tick_rest e v2")
  note s3 = rest_ok [OF s2(1) re]
  have res: "(outs, v') = (if vm_mode m = Voice_sfu \<and> vm_mode (fst v1) \<noteq> Voice_sfu then (level @ stall, v1)
      else if dead then (level @ stall @ live, v2) else (level @ stall @ live @ rest, v3))"
    using assms(2) True unfolding v voice_tick_def Let_def prod.case m_def [symmetric] level_def [symmetric] st li re by (simp split: if_splits)
  show ?thesis
    using res s1 s2 s3 lv by (auto simp: v ok(2) split: if_splits)
qed (use assms in \<open>auto simp: voice_tick_def\<close>)

lemma step_keeps:
  assumes "voice_ok v" "may o' v" "voice_step o' v = (outs, v')"
  shows "voice_ok v' \<and> (case o' of Op_join crew conn now cap sink took \<Rightarrow> outs_on (vm_connection (fst v')) outs | _ \<Rightarrow> outs_on (vm_connection (fst v)) outs)"
proof (cases o')
  case (Op_join crew conn now cap sink took)
  with assms show ?thesis using join_ok [OF assms(1)] by simp
next
  case Op_leave
  with assms show ?thesis using leave_ok [OF assms(1)] by simp
next
  case (Op_log debug capture)
  have "same_session v ((fst v)\<lparr>vm_debug := debug, vm_capture_log := capture\<rparr>, snd v)" by (simp add: same_session_def)
  with assms Op_log same_session_ok [OF assms(1)] show ?thesis by auto
next
  case (Op_mark reason)
  with assms show ?thesis using mark_ok [OF assms(1)] by simp
next
  case (Op_tick e)
  with assms show ?thesis using tick_ok [OF assms(1)] by simp
next
  case (Op_mute on now took)
  with assms show ?thesis using mute_same [OF assms(1)] same_session_ok [OF assms(1)] by simp
next
  case (Op_frame payload ts seq took)
  with assms show ?thesis using frame_same [OF assms(1)] same_session_ok [OF assms(1)] by simp
qed (use assms settings_same(1,2) [OF assms(1)] settings_same(3-6) [OF assms(1), THEN same_session_ok [OF assms(1)]]
    same_session_ok [OF assms(1)] in auto)

inductive voice_reach :: "voice \<Rightarrow> bool" where
  start: "nv_sink n = None \<Longrightarrow> nv_direct n = [] \<Longrightarrow> voice_reach (vm_new ctx loopback, n)"
| step: "voice_reach v \<Longrightarrow> may o' v \<Longrightarrow> voice_step o' v = (outs, v') \<Longrightarrow> voice_reach v'"

lemma reach_ok: "voice_reach v \<Longrightarrow> voice_ok v"
proof (induction rule: voice_reach.induct)
  case (start n ctx loopback)
  then show ?case by (simp add: voice_ok_def vm_new_def inband_new_def)
next
  case (step v o' outs v')
  then show ?case using step_keeps by blast
qed

text \<open>C6: After any operations of the voice manager, a session that is open has its one connection as the only one that feeds the decoder,
  as the target of the speaking messages and, when the sink is set, as the target of the captured frames, and it captures; without a
  session none of these is left and no stall is open. Audio and speaking messages go out on the session's connection only, never on
  one that was left or dropped.
\<close>

theorem voice_session_owns_its_connection:
  assumes "voice_reach v" "may o' v" "voice_step o' v = (outs, v')"
  shows "voice_ok v' \<and> (\<forall>out c. out \<in> set outs \<and> out_conn out = Some c \<longrightarrow>
       vm_connection (fst v) = Some c \<or> vm_mode (fst v) = Voice_disconnected \<and> vm_connection (fst v') = Some c)"
  using step_keeps [OF reach_ok [OF assms(1)] assms(2,3)] assms(2) by (cases o') (auto simp: outs_on_def)

text \<open>The same at a join, with speaking before it.\<close>

definition voice_env0 :: native_voice where
  "voice_env0 = \<lparr>nv_capturing = False, nv_sink = None, nv_direct = [], nv_push_to_talk = False, nv_muted = False, nv_deafened = False, nv_max_bitrate = 64\<rparr>"

lemma voice_session_owns_its_connection_witness:
  "voice_ok (snd (voice_step (Op_join ''crew'' 7 0 True True True) (vm_new True False, voice_env0))) \<and>
   vm_connection (fst (snd (voice_step (Op_join ''crew'' 7 0 True True True) (vm_new True False, voice_env0)))) = Some 7"
proof
  have reach: "voice_reach (vm_new True False, voice_env0)" by (rule voice_reach.start) (simp_all add: voice_env0_def)
  show "voice_ok (snd (voice_step (Op_join ''crew'' 7 0 True True True) (vm_new True False, voice_env0)))"
    by (rule voice_session_owns_its_connection [OF reach _ prod.collapse [symmetric], THEN conjunct1]) (simp add: vm_new_def)
  show "vm_connection (fst (snd (voice_step (Op_join ''crew'' 7 0 True True True) (vm_new True False, voice_env0)))) = Some 7"
    by (simp add: join_voice_sfu_def session_defs vm_new_def inband_attach_def inband_poll_def limiter_has_pending_def limiter_restart_def
        inband_new_def limiter_new_def)
qed


section \<open>A dead link is dropped, once\<close>

fun is_drop :: "voice_out \<Rightarrow> bool" where
  "is_drop (Sfu_dropped crew reason) = True"
| "is_drop _ = False"

definition drops :: "voice_out list \<Rightarrow> nat" where "drops outs = length (filter is_drop outs)"

lemma drops_simps [simp]: "drops [] = 0" "drops (o' # os) = (if is_drop o' then 1 else 0) + drops os" "drops (os @ os') = drops os + drops os'"
  by (simp_all add: drops_def)

lemma drops_concat: "(\<And>os. os \<in> set oss \<Longrightarrow> drops os = 0) \<Longrightarrow> drops (concat oss) = 0"
  by (induction oss) simp_all

lemma drops_none [simp]: "drops (map Speaking ms) = 0" "drops (send_queued packets m) = 0"
proof -
  show "drops (map Speaking ms) = 0" by (induction ms) simp_all
  show "drops (send_queued packets m) = 0" unfolding send_queued_def by (rule drops_concat) (clarsimp split: option.split)
qed

text \<open>A stage of the tick reports a drop exactly when it ends the session; a session it leaves open keeps its counts.\<close>

definition stage :: "voice \<Rightarrow> voice_out list \<Rightarrow> voice \<Rightarrow> bool" where
  "stage v outs v' \<longleftrightarrow>
     drops outs = (if vm_mode (fst v) = Voice_sfu \<and> vm_mode (fst v') \<noteq> Voice_sfu then 1 else 0) \<and>
     (vm_mode (fst v') = Voice_sfu \<longrightarrow> vm_mode (fst v) = Voice_sfu \<and> vm_tick_counter (fst v') = vm_tick_counter (fst v) \<and>
        vm_unhealthy (fst v') = vm_unhealthy (fst v))"

lemma stage_trans: "stage v os v1 \<Longrightarrow> stage v1 os' v' \<Longrightarrow> stage v (os @ os') v'"
  by (cases "vm_mode (fst v)"; cases "vm_mode (fst v1)"; cases "vm_mode (fst v')") (simp_all add: stage_def)

lemma stage_same: "same_session v v' \<Longrightarrow> vm_tick_counter (fst v') = vm_tick_counter (fst v) \<Longrightarrow> drops outs = 0 \<Longrightarrow> stage v outs v'"
  by (auto simp: stage_def same_session_def)

lemma stage_mark:
  assumes "voice_ok v" "mark_disconnected reason v = (outs, v')"
  shows "stage v outs v'"
proof (cases "vm_mode (fst v) = Voice_sfu")
  case True
  with assms(1) obtain c where "vm_connection (fst v) = Some c" by (cases v) (auto simp: voice_ok_def)
  from mark_drops [OF assms(1) True this assms(2)] True show ?thesis by (simp add: stage_def)
next
  case False
  with assms(2) show ?thesis by (simp add: mark_disconnected_def stage_def)
qed

lemma stage_stall:
  assumes "voice_ok v" "check_link_stall now age v = (outs, v')"
  shows "stage v outs v'"
proof -
  obtain m n where v: "v = (m, n)" by (cases v)
  from assms(2) [unfolded v] show ?thesis
  proof (cases rule: stall_cases)
    case 5
    have "voice_ok (m\<lparr>vm_stalled := False, vm_stall_peak := 0\<rparr>, n)" using assms(1) by (auto simp: v voice_ok_def split: if_splits)
    from stage_mark [OF this 5] show ?thesis by (simp add: v stage_def)
  qed (simp_all add: v stage_def)
qed

lemma stage_events: "voice_ok v \<Longrightarrow> handle_sfu_events es v = (outs, v') \<Longrightarrow> stage v outs v'"
proof (induction es v arbitrary: outs v' rule: handle_sfu_events.induct)
  case (6 reason es v)
  then show ?case using stage_mark by simp
qed (auto simp: stage_def split: prod.splits)


lemma stage_rest:
  assumes "voice_ok v" "tick_rest e v = (outs, v')"
  shows "stage v outs v'"
proof -
  obtain m n where v: "v = (m, n)" by (cases v)
  obtain stats m1 where st: "(if (vm_debug m \<or> vm_capture_log m) \<and> vm_tick_counter m mod debug_stats_tick_divisor = 0
      then (case windowed_late_underruns (te_now e) (te_late_underruns e) (te_streams e) m of
              (u, m1) \<Rightarrow> (if vm_debug m then [Audio_stats u] else [], m1)) else ([], m)) = (stats, m1)"
    by (cases rule: prod.exhaust)
  obtain spoken m2 where sp: "(if vm_mode m1 = Voice_sfu
      then (case inband_poll (te_now e) (te_took e) (vm_inband m1) of (ms, ib) \<Rightarrow> (map Speaking ms, m1\<lparr>vm_inband := ib\<rparr>)) else ([], m1)) = (spoken, m2)"
    by (cases rule: prod.exhaust)
  obtain polled v3 where po: "receive_and_poll (te_events e) (m2, n) = (polled, v3)" by (cases "receive_and_poll (te_events e) (m2, n)")
  have res: "outs = stats @ (if vm_sink m1 = None then send_queued (te_packets e) m1 else []) @ spoken @ polled" "v' = v3"
    using assms(2) unfolding v tick_rest_def by (simp_all add: st sp po)
  have same: "same_session (m, n) (m1, n)" "same_session (m1, n) (m2, n)" if "voice_ok (m, n)"
  proof -
    show s: "same_session (m, n) (m1, n)"
      using st underrun_same [of "te_now e" "te_late_underruns e" "te_streams e" m _ m1 n] by (auto split: if_splits prod.splits)
    show "same_session (m1, n) (m2, n)"
      using sp inband_targets(1) [of "te_now e" "te_took e" "vm_inband m1"] by (auto simp: same_session_def split: if_splits prod.splits)
  qed
  have counter: "vm_tick_counter m1 = vm_tick_counter m" "vm_tick_counter m2 = vm_tick_counter m1" "drops stats = 0" "drops spoken = 0"
    using st sp by (auto simp: windowed_late_underruns_def windowed_underrun_def Let_def split: if_splits prod.splits)
  note s = same [OF assms(1) [unfolded v]]
  have s1: "stage (m, n) stats (m1, n)" by (rule stage_same [OF s(1)]) (simp_all add: counter)
  have s2: "stage (m1, n) (if vm_sink m1 = None then send_queued (te_packets e) m1 else []) (m1, n)" by (rule stage_same) simp_all
  have s3: "stage (m1, n) spoken (m2, n)" by (rule stage_same [OF s(2)]) (simp_all add: counter)
  have ok2: "voice_ok (m2, n)" using same_session_ok [OF assms(1) [unfolded v] same_session_trans [OF s]] .
  have s4: "stage (m2, n) polled v3"
    using po stage_events [OF ok2] by (auto simp: receive_and_poll_def stage_def split: if_splits)
  show ?thesis unfolding res v by (intro stage_trans [OF s1] stage_trans [OF s2] stage_trans [OF s3] s4)
qed

text \<open>What the liveness check counts as bad: the connection or its channel is down, or the pongs are late, beyond the grace of signaling.\<close>

definition link_dead :: "tick_env \<Rightarrow> bool" where
  "link_dead e \<longleftrightarrow>
     (\<not> te_connected e \<or> \<not> te_control_open e \<or> te_pong_age e > sfu_pong_stale_ms) \<and> te_signaling_idle e > sfu_signaling_grace_ms"

lemma dead_counts:
  assumes "link_dead e" "vm_mode m = Voice_sfu" "vm_connection m \<noteq> None" "vm_unhealthy m < 3"
  shows "liveness_count e m = m\<lparr>vm_unhealthy := vm_unhealthy m + 1\<rparr>"
proof -
  have "\<not> (te_connected e \<and> te_control_open e \<and> pong_fresh (te_pong_age e) since)" for since
    using assms(1) by (auto simp: link_dead_def pong_fresh_def sfu_pong_stale_ms_def)
  then show ?thesis using assms by (auto simp: liveness_count_def Let_def link_dead_def wrap_u_def u32_max_def)
qed

lemma liveness_stage:
  assumes "voice_ok v" "liveness e v = (dead, outs, v')"
  shows "drops outs = (if vm_mode (fst v) = Voice_sfu \<and> vm_mode (fst v') \<noteq> Voice_sfu then 1 else 0)"
    "vm_mode (fst v') = Voice_sfu \<Longrightarrow> vm_mode (fst v) = Voice_sfu \<and> vm_tick_counter (fst v') = vm_tick_counter (fst v)"
    "vm_mode (fst v') = Voice_sfu \<Longrightarrow> link_dead e \<Longrightarrow> vm_unhealthy (fst v') = vm_unhealthy (fst v) + 1"
    "dead \<Longrightarrow> vm_mode (fst v') \<noteq> Voice_sfu"
proof -
  obtain m n where v: "v = (m, n)" by (cases v)
  obtain u where u: "liveness_count e m = m\<lparr>vm_unhealthy := u\<rparr>" using liveness_count_shape by blast
  have rtp: "vm_mode (detect_rtp_stall s t m') = vm_mode m'" "vm_tick_counter (detect_rtp_stall s t m') = vm_tick_counter m'"
    "vm_unhealthy (detect_rtp_stall s t m') = vm_unhealthy m'" for s t m' by (simp_all add: detect_rtp_stall_def)
  have "(drops outs = (if vm_mode m = Voice_sfu \<and> vm_mode (fst v') \<noteq> Voice_sfu then 1 else 0)) \<and>
      (vm_mode (fst v') = Voice_sfu \<longrightarrow> vm_mode m = Voice_sfu \<and> vm_tick_counter (fst v') = vm_tick_counter m \<and> vm_unhealthy (fst v') = u) \<and>
      (dead \<longrightarrow> vm_mode (fst v') \<noteq> Voice_sfu)"
  proof (cases "u \<ge> 3")
    case True
    then have mode: "vm_mode m = Voice_sfu" using count_needs_sfu [of e m] u assms(1) by (simp add: v voice_ok_def)
    then obtain c where c: "vm_connection m = Some c" using assms(1) by (auto simp: v voice_ok_def)
    have "mark_disconnected ''liveness_timeout'' (m, n) = (outs, v')"
      using assms(2) True by (simp add: v liveness_def u mark_ignores_count [OF mode])
    from mark_drops [OF assms(1) [unfolded v] _ _ this, of c] mode c show ?thesis by simp
  next
    case False
    then show ?thesis using assms(2) unfolding v liveness_def prod.case u Let_def by (auto simp: rtp split: if_splits)
  qed
  note all = this
  show "drops outs = (if vm_mode (fst v) = Voice_sfu \<and> vm_mode (fst v') \<noteq> Voice_sfu then 1 else 0)" using all by (simp add: v)
  show "vm_mode (fst v') = Voice_sfu \<Longrightarrow> vm_mode (fst v) = Voice_sfu \<and> vm_tick_counter (fst v') = vm_tick_counter (fst v)" using all by (simp add: v)
  show "dead \<Longrightarrow> vm_mode (fst v') \<noteq> Voice_sfu" using all by simp
  show "vm_unhealthy (fst v') = vm_unhealthy (fst v) + 1" if sfu: "vm_mode (fst v') = Voice_sfu" "link_dead e"
  proof -
    have "vm_mode m = Voice_sfu" using all sfu by simp
    moreover from this have "vm_connection m \<noteq> None" "vm_unhealthy m < 3" using assms(1) by (auto simp: v voice_ok_def)
    ultimately have "u = vm_unhealthy m + 1" using arg_cong [OF u, of vm_unhealthy] dead_counts [OF sfu(2), of m] by simp
    with all sfu show ?thesis by (simp add: v)
  qed
qed


lemma tick_stage:
  assumes "voice_ok v" "voice_tick e v = (outs, v')"
  shows "drops outs = (if vm_mode (fst v) = Voice_sfu \<and> vm_mode (fst v') \<noteq> Voice_sfu then 1 else 0)"
    "vm_mode (fst v') = Voice_sfu \<Longrightarrow> vm_mode (fst v) = Voice_sfu"
    "vm_mode (fst v') = Voice_sfu \<Longrightarrow> vm_tick_counter (fst v) < u32_max \<Longrightarrow> vm_tick_counter (fst v') = vm_tick_counter (fst v) + 1"
    "vm_mode (fst v') = Voice_sfu \<Longrightarrow> vm_tick_counter (fst v) < u32_max \<Longrightarrow> link_dead e \<Longrightarrow>
       vm_unhealthy (fst v') = vm_unhealthy (fst v) + (if (vm_tick_counter (fst v) + 1) mod 200 = 0 then 1 else 0)"
proof -
  have "drops outs = (if vm_mode (fst v) = Voice_sfu \<and> vm_mode (fst v') \<noteq> Voice_sfu then 1 else 0) \<and>
    (vm_mode (fst v') = Voice_sfu \<longrightarrow> vm_mode (fst v) = Voice_sfu \<and>
       (vm_tick_counter (fst v) < u32_max \<longrightarrow> vm_tick_counter (fst v') = vm_tick_counter (fst v) + 1 \<and>
       (link_dead e \<longrightarrow> vm_unhealthy (fst v') = vm_unhealthy (fst v) + (if (vm_tick_counter (fst v) + 1) mod 200 = 0 then 1 else 0))))"
  proof (cases "vm_ctx (fst v) \<and> needs_periodic_tick (fst v)")
    case True
    obtain m0 n where v: "v = (m0, n)" by (cases v)
    define m where "m = m0\<lparr>vm_tick_counter := wrap_u u32_max (vm_tick_counter m0 + 1)\<rparr>"
    define level where "level = (if vm_loopback m \<and> vm_tick_counter m mod 5 = 0 then [Mic_level] else [])"
    have ok: "voice_ok (m, n)" using assms(1) by (auto simp: v m_def intro: same_session_ok [of "(m0, n)"] simp: same_session_def)
    have m: "vm_mode m = vm_mode m0" "vm_unhealthy m = vm_unhealthy m0" "vm_tick_counter m0 < u32_max \<Longrightarrow> vm_tick_counter m = vm_tick_counter m0 + 1"
      by (simp_all add: m_def wrap_u_def)
    have lv: "drops level = 0" by (simp add: level_def)
    obtain stall v1 where st: "(if vm_mode m = Voice_sfu \<and> vm_tick_counter m mod sfu_stall_check_ticks = 0
        then check_link_stall (te_now e) (te_pong_age e) (m, n) else ([], m, n)) = (stall, v1)" by (cases rule: prod.exhaust)
    have s1: "voice_ok v1" "stage (m, n) stall v1"
      using st ok stall_ok [OF ok] stage_stall [OF ok] by (auto simp: stage_def split: if_splits)
    obtain dead live v2 where li: "(if vm_tick_counter m mod 200 = 0 then liveness e v1 else (False, [], v1)) = (dead, live, v2)"
      by (cases rule: prod_cases3)
    have ok2: "voice_ok v2" using li s1(1) liveness_ok [OF s1(1)] by (auto split: if_splits)
    have s2: "drops live = (if vm_mode (fst v1) = Voice_sfu \<and> vm_mode (fst v2) \<noteq> Voice_sfu then 1 else 0)"
      "vm_mode (fst v2) = Voice_sfu \<Longrightarrow> vm_mode (fst v1) = Voice_sfu \<and> vm_tick_counter (fst v2) = vm_tick_counter (fst v1)"
      "vm_mode (fst v2) = Voice_sfu \<Longrightarrow> link_dead e \<Longrightarrow>
         vm_unhealthy (fst v2) = vm_unhealthy (fst v1) + (if vm_tick_counter m mod 200 = 0 then 1 else 0)"
      "dead \<Longrightarrow> vm_mode (fst v2) \<noteq> Voice_sfu"
      using li liveness_stage [OF s1(1)] by (auto split: if_splits)
    obtain rest v3 where re: "tick_rest e v2 = (rest, v3)" by (cases "tick_rest e v2")
    note s3 = stage_rest [OF ok2 re]
    have res: "(outs, v') = (if vm_mode m = Voice_sfu \<and> vm_mode (fst v1) \<noteq> Voice_sfu then (level @ stall, v1)
        else if dead then (level @ stall @ live, v2) else (level @ stall @ live @ rest, v3))"
      using assms(2) True unfolding v voice_tick_def Let_def prod.case m_def [symmetric] level_def [symmetric] st li re by (simp split: if_splits)
    consider "vm_mode m = Voice_sfu" "vm_mode (fst v1) \<noteq> Voice_sfu" | "vm_mode m = Voice_sfu \<longrightarrow> vm_mode (fst v1) = Voice_sfu" "dead"
      | "vm_mode m = Voice_sfu \<longrightarrow> vm_mode (fst v1) = Voice_sfu" "\<not> dead" by blast
    then show ?thesis
    proof cases
      case 1
      with res s1(2) lv m(1) show ?thesis by (simp add: stage_def v)
    next
      case 2
      with res have "outs = level @ stall @ live" "v' = v2" by auto
      with 2 s1(2) s2(1,2,4) lv m(1) show ?thesis by (auto simp: stage_def v split: if_splits)
    next
      case 3
      with res have o': "outs = level @ stall @ live @ rest" "v' = v3" by auto
      show ?thesis
      proof (cases "vm_mode (fst v3) = Voice_sfu")
        case True
        then have "vm_mode (fst v2) = Voice_sfu" "vm_tick_counter (fst v3) = vm_tick_counter (fst v2)"
          "vm_unhealthy (fst v3) = vm_unhealthy (fst v2)" "drops rest = 0" using s3 by (simp_all add: stage_def)
        with s2 s1(2) m lv True show ?thesis by (simp add: stage_def v o')
      next
        case False
        with s1(2) s2(1,2) s3 3(1) lv m(1) show ?thesis by (auto simp: stage_def v o' split: if_splits)
      qed
    qed
  next
    case False
    have "vm_mode (fst v) \<noteq> Voice_sfu"
      using False assms(1) by (cases v) (auto simp: voice_ok_def needs_periodic_tick_def)
    with False assms(2) show ?thesis by (auto simp: voice_tick_def)
  qed
  then show "drops outs = (if vm_mode (fst v) = Voice_sfu \<and> vm_mode (fst v') \<noteq> Voice_sfu then 1 else 0)"
    "vm_mode (fst v') = Voice_sfu \<Longrightarrow> vm_mode (fst v) = Voice_sfu"
    "vm_mode (fst v') = Voice_sfu \<Longrightarrow> vm_tick_counter (fst v) < u32_max \<Longrightarrow> vm_tick_counter (fst v') = vm_tick_counter (fst v) + 1"
    "vm_mode (fst v') = Voice_sfu \<Longrightarrow> vm_tick_counter (fst v) < u32_max \<Longrightarrow> link_dead e \<Longrightarrow>
       vm_unhealthy (fst v') = vm_unhealthy (fst v) + (if (vm_tick_counter (fst v) + 1) mod 200 = 0 then 1 else 0)" by blast+
qed

fun voice_ticks :: "tick_env list \<Rightarrow> voice \<Rightarrow> voice_out list \<times> voice" where
  "voice_ticks [] v = ([], v)"
| "voice_ticks (e # es) v = (case voice_tick e v of (a, v1) \<Rightarrow> case voice_ticks es v1 of (b, v2) \<Rightarrow> (a @ b, v2))"

lemma ticks_drops:
  "voice_ok v \<Longrightarrow> voice_ticks es v = (outs, v') \<Longrightarrow>
     voice_ok v' \<and> drops outs = (if vm_mode (fst v) = Voice_sfu \<and> vm_mode (fst v') \<noteq> Voice_sfu then 1 else 0) \<and>
     (vm_mode (fst v') = Voice_sfu \<longrightarrow> vm_mode (fst v) = Voice_sfu)"
proof (induction es arbitrary: v outs)
  case (Cons e es)
  obtain a v1 where a: "voice_tick e v = (a, v1)" by (cases "voice_tick e v")
  obtain b where b: "voice_ticks es v1 = (b, v')" "outs = a @ b" using Cons.prems(2) by (auto simp: a split: prod.splits)
  have ok: "voice_ok v1" using tick_ok [OF Cons.prems(1) a] by simp
  from Cons.IH [OF ok b(1)] tick_stage(1,2) [OF Cons.prems(1) a] show ?case
    by (cases "vm_mode (fst v)"; cases "vm_mode (fst v1)"; cases "vm_mode (fst v')") (simp_all add: b(2))
qed simp

lemma ticks_count:
  "voice_ok v \<Longrightarrow> voice_ticks es v = (outs, v') \<Longrightarrow> vm_mode (fst v') = Voice_sfu \<Longrightarrow> list_all link_dead es \<Longrightarrow>
     vm_tick_counter (fst v) + length es \<le> u32_max \<Longrightarrow>
     vm_unhealthy (fst v) + (vm_tick_counter (fst v) + length es) div 200 = vm_unhealthy (fst v') + vm_tick_counter (fst v) div 200"
proof (induction es arbitrary: v outs)
  case (Cons e es)
  obtain a v1 where a: "voice_tick e v = (a, v1)" by (cases "voice_tick e v")
  obtain b where b: "voice_ticks es v1 = (b, v')" using Cons.prems(2) by (auto simp: a split: prod.splits)
  have ok: "voice_ok v1" using tick_ok [OF Cons.prems(1) a] by simp
  have sfu: "vm_mode (fst v1) = Voice_sfu" using ticks_drops [OF ok b] Cons.prems(3) by simp
  have lt: "vm_tick_counter (fst v) < u32_max" using Cons.prems(5) by simp
  note c = tick_stage(3,4) [OF Cons.prems(1) a sfu lt]
  have "link_dead e" using Cons.prems(4) by simp
  note u = c(2) [OF this]
  have "vm_unhealthy (fst v1) + (vm_tick_counter (fst v1) + length es) div 200 = vm_unhealthy (fst v') + vm_tick_counter (fst v1) div 200"
    by (rule Cons.IH [OF ok b]) (use Cons.prems(3,4,5) c(1) in auto)
  moreover have "(k + 1) div 200 = k div 200 + (if (k + 1) mod 200 = 0 then 1 else 0)" for k :: nat by (simp add: div_Suc)
  ultimately show ?case using c(1) u by simp
qed simp

text \<open>C17: A session whose link stays dead is dropped within 600 ticks of the voice tick, whatever else the ticks read, and reported to
  the client exactly once: the three bad checks in a row, each on a 200th tick, or a stall or a close before them.
\<close>

theorem dead_link_is_dropped_once:
  assumes "voice_reach v" "vm_mode (fst v) = Voice_sfu" "vm_tick_counter (fst v) + length es \<le> u32_max"
    "length es \<ge> 600" "list_all link_dead es" "voice_ticks es v = (outs, v')"
  shows "vm_mode (fst v') = Voice_disconnected \<and> drops outs = 1 \<and> nv_direct (snd v') = [] \<and> nv_sink (snd v') = None"
proof -
  note ok = reach_ok [OF assms(1)]
  note d = ticks_drops [OF ok assms(6)]
  have "vm_mode (fst v') \<noteq> Voice_sfu"
  proof
    assume sfu: "vm_mode (fst v') = Voice_sfu"
    have "vm_unhealthy (fst v) + (vm_tick_counter (fst v) + length es) div 200 = vm_unhealthy (fst v') + vm_tick_counter (fst v) div 200"
      by (rule ticks_count [OF ok assms(6) sfu assms(5,3)])
    moreover have "(vm_tick_counter (fst v) + length es) div 200 \<ge> vm_tick_counter (fst v) div 200 + 3"
    proof -
      have "(vm_tick_counter (fst v) + 600) div 200 \<le> (vm_tick_counter (fst v) + length es) div 200"
        by (rule div_le_mono) (use assms(4) in simp)
      then show ?thesis by simp
    qed
    moreover have "vm_unhealthy (fst v') < 3" using d by (cases v') (simp add: voice_ok_def)
    ultimately show False by simp
  qed
  with d assms(2) show ?thesis
    by (cases v'; cases "vm_mode (fst v')") (simp_all add: voice_ok_def)
qed

text \<open>The same for a call whose connection closes right after it starts.\<close>

definition call0 :: voice where
  "call0 = snd (voice_step (Op_join ''crew'' 7 0 True True True) (vm_new True False, voice_env0))"

lemma call0_facts:
  "voice_reach call0" "vm_mode (fst call0) = Voice_sfu" "vm_tick_counter (fst call0) = 0" "vm_connection (fst call0) = Some 7"
  "vm_connected_at (fst call0) = Some 0" "\<not> vm_stalled (fst call0)" "vm_crew (fst call0) = ''crew''"
proof -
  have start: "voice_reach (vm_new True False, voice_env0)" by (rule voice_reach.start) (simp_all add: voice_env0_def)
  show "voice_reach call0"
    unfolding call0_def by (rule voice_reach.step [OF start _ prod.collapse [symmetric]]) (simp add: vm_new_def)
qed (simp_all add: call0_def join_voice_sfu_def session_defs vm_new_def inband_attach_def inband_poll_def limiter_has_pending_def
        limiter_restart_def inband_new_def limiter_new_def)

definition down :: "nat \<Rightarrow> tick_env" where
  "down k = \<lparr>te_now = millis (20 * k), te_pong_age = 5, te_connected = False, te_control_open = True, te_signaling_idle = 9000, te_took = False,
     te_streams = 0, te_rtp_total = 0, te_late_underruns = 0, te_packets = [], te_events = []\<rparr>"

lemma dead_link_is_dropped_once_witness:
  "drops (fst (voice_ticks (map down [1..<601]) call0)) = 1 \<and> vm_mode (fst call0) = Voice_sfu"
proof -
  have "list_all link_dead (map down [1..<601])" by (simp add: list.pred_map list_all_iff link_dead_def down_def sfu_signaling_grace_ms_def)
  then have "drops (fst (voice_ticks (map down [1..<601]) call0)) = 1"
    using dead_link_is_dropped_once [OF call0_facts(1,2) _ _ _ prod.collapse [symmetric], of "map down [1..<601]"]
    by (simp add: call0_facts u32_max_def)
  with call0_facts(2) show ?thesis by simp
qed


section \<open>A stall\<close>

text \<open>How long the link is silent at a check: the age of the last pong or, before the first, the time since the session started.\<close>

definition silence :: "instant \<Rightarrow> instant \<times> int \<Rightarrow> int" where
  "silence t c = (if snd c < 0 then elapsed_ms (fst c) t else snd c)"

fun stall_checks :: "(instant \<times> int) list \<Rightarrow> voice \<Rightarrow> voice_out list \<times> voice" where
  "stall_checks [] v = ([], v)"
| "stall_checks (c # cs) v =
     (case check_link_stall (fst c) (snd c) v of (a, v1) \<Rightarrow> case stall_checks cs v1 of (b, v2) \<Rightarrow> (a @ b, v2))"

lemma stalled_by_silence: "link_is_stalled age (elapsed_ms now t) \<longleftrightarrow> silence t (now, age) > sfu_stall_pong_age_ms"
  by (simp add: link_is_stalled_def silence_def)

lemma stall_goes_on:
  assumes "vm_connection m = Some c" "vm_connected_at m = Some t" "vm_stalled m" "silence t k > sfu_stall_pong_age_ms"
  shows "check_link_stall (fst k) (snd k) (m, n) = ([], m\<lparr>vm_stall_peak := max (vm_stall_peak m) (silence t k)\<rparr>, n)"
  using assms stalled_by_silence [of "snd k" "fst k" t] by (simp add: check_link_stall_def Let_def silence_def)

lemma stall_begins:
  assumes "vm_connection m = Some c" "vm_connected_at m = Some t" "\<not> vm_stalled m" "silence t k > sfu_stall_pong_age_ms"
  shows "check_link_stall (fst k) (snd k) (m, n) =
    ([Link_stalled (vm_crew m) True], m\<lparr>vm_stall_peak := max (vm_stall_peak m) (silence t k), vm_stalled := True\<rparr>, n)"
  using assms stalled_by_silence [of "snd k" "fst k" t] by (simp add: check_link_stall_def Let_def silence_def)

lemma stall_over:
  assumes "vm_connection m = Some c" "vm_connected_at m = Some t" "vm_stalled m" "\<not> silence t k > sfu_stall_pong_age_ms"
  shows "check_link_stall (fst k) (snd k) (m, n) =
    (if vm_stall_peak m \<ge> sfu_stall_rebuild_ms then mark_disconnected ''link_stalled'' (m\<lparr>vm_stalled := False, vm_stall_peak := 0\<rparr>, n)
     else ([Link_stalled (vm_crew m) False], m\<lparr>vm_stalled := False, vm_stall_peak := 0\<rparr>, n))"
  using assms stalled_by_silence [of "snd k" "fst k" t] by (simp add: check_link_stall_def Let_def silence_def)

lemma stall_lasts:
  assumes "vm_connection m = Some c" "vm_connected_at m = Some t" "vm_stalled m"
    "\<forall>k \<in> set ks. silence t k > sfu_stall_pong_age_ms" "\<not> silence t g > sfu_stall_pong_age_ms"
  shows "stall_checks (ks @ [g]) (m, n) =
    (if (\<exists>k \<in> set ks. silence t k \<ge> sfu_stall_rebuild_ms) \<or> vm_stall_peak m \<ge> sfu_stall_rebuild_ms
     then mark_disconnected ''link_stalled'' (m\<lparr>vm_stalled := False, vm_stall_peak := 0\<rparr>, n)
     else ([Link_stalled (vm_crew m) False], m\<lparr>vm_stalled := False, vm_stall_peak := 0\<rparr>, n))"
  using assms
proof (induction ks arbitrary: m)
  case Nil
  then show ?case by (simp add: stall_over split: prod.splits)
next
  case (Cons k ks)
  have "check_link_stall (fst k) (snd k) (m, n) = ([], m\<lparr>vm_stall_peak := max (vm_stall_peak m) (silence t k)\<rparr>, n)"
    by (rule stall_goes_on) (use Cons.prems in auto)
  moreover have "stall_checks (ks @ [g]) (m\<lparr>vm_stall_peak := max (vm_stall_peak m) (silence t k)\<rparr>, n) =
      (if (\<exists>k \<in> set ks. silence t k \<ge> sfu_stall_rebuild_ms) \<or> max (vm_stall_peak m) (silence t k) \<ge> sfu_stall_rebuild_ms
       then mark_disconnected ''link_stalled'' (m\<lparr>vm_stalled := False, vm_stall_peak := 0\<rparr>, n)
       else ([Link_stalled (vm_crew m) False], m\<lparr>vm_stalled := False, vm_stall_peak := 0\<rparr>, n))"
    using Cons.IH [of "m\<lparr>vm_stall_peak := max (vm_stall_peak m) (silence t k)\<rparr>"] Cons.prems by simp
  moreover have "(\<exists>k' \<in> set (k # ks). silence t k' \<ge> sfu_stall_rebuild_ms) \<or> vm_stall_peak m \<ge> sfu_stall_rebuild_ms \<longleftrightarrow>
      (\<exists>k \<in> set ks. silence t k \<ge> sfu_stall_rebuild_ms) \<or> max (vm_stall_peak m) (silence t k) \<ge> sfu_stall_rebuild_ms" by auto
  ultimately show ?case by (simp split: prod.split)
qed

text \<open>C20: A stall of the link is shown to the client once when the silence passes 700 ms, however many checks it lasts. The check at which
  the pongs are back ends it: the client is told that the link is good again or, when any check found 5 seconds of silence, the session
  is left and dropped as \<open>link_stalled\<close>, so that the client builds it anew.
\<close>

theorem stall_is_shown_once_and_ends:
  assumes "voice_reach v" "vm_connection (fst v) = Some c" "vm_connected_at (fst v) = Some t" "\<not> vm_stalled (fst v)"
    "ks \<noteq> []" "\<forall>k \<in> set ks. silence t k > sfu_stall_pong_age_ms" "silence t g \<le> sfu_stall_pong_age_ms"
    "stall_checks (ks @ [g]) v = (outs, v')"
  shows "outs = Link_stalled (vm_crew (fst v)) True #
      (if \<exists>k \<in> set ks. silence t k \<ge> sfu_stall_rebuild_ms then [Leave_task c, Sfu_dropped (vm_crew (fst v)) ''link_stalled'']
       else [Link_stalled (vm_crew (fst v)) False]) \<and>
    vm_mode (fst v') = (if \<exists>k \<in> set ks. silence t k \<ge> sfu_stall_rebuild_ms then Voice_disconnected else Voice_sfu)"
proof -
  obtain m n where v: "v = (m, n)" by (cases v)
  have ok: "voice_ok (m, n)" using reach_ok [OF assms(1)] by (simp add: v)
  then have mode: "vm_mode m = Voice_sfu" and peak: "vm_stall_peak m = 0" using assms(2,4) by (auto simp: v voice_ok_def split: if_splits)
  obtain k ks' where ks: "ks = k # ks'" using assms(5) by (cases ks) auto
  let ?m1 = "m\<lparr>vm_stall_peak := max (vm_stall_peak m) (silence t k), vm_stalled := True\<rparr>"
  let ?m2 = "?m1\<lparr>vm_stalled := False, vm_stall_peak := 0\<rparr>"
  let ?long = "\<exists>k \<in> set ks. silence t k \<ge> sfu_stall_rebuild_ms"
  have begin1: "check_link_stall (fst k) (snd k) (m, n) = ([Link_stalled (vm_crew m) True], ?m1, n)"
    by (rule stall_begins) (use assms(2,3,4,6) in \<open>auto simp: v ks\<close>)
  have same: "?m2 = m" using assms(4) peak by (simp add: v)
  have "stall_checks (ks' @ [g]) (?m1, n) =
      (if (\<exists>k \<in> set ks'. silence t k \<ge> sfu_stall_rebuild_ms) \<or> vm_stall_peak ?m1 \<ge> sfu_stall_rebuild_ms
       then mark_disconnected ''link_stalled'' (?m2, n) else ([Link_stalled (vm_crew ?m1) False], ?m2, n))"
    by (rule stall_lasts) (use assms(2,3,6,7) in \<open>auto simp: v ks\<close>)
  moreover have "(\<exists>k \<in> set ks'. silence t k \<ge> sfu_stall_rebuild_ms) \<or> vm_stall_peak ?m1 \<ge> sfu_stall_rebuild_ms \<longleftrightarrow> ?long"
    by (auto simp: ks peak sfu_stall_rebuild_ms_def)
  ultimately have rest: "stall_checks (ks' @ [g]) (?m1, n) =
      (if ?long then mark_disconnected ''link_stalled'' (m, n) else ([Link_stalled (vm_crew m) False], m, n))" unfolding same by simp
  obtain b where b: "stall_checks (ks' @ [g]) (?m1, n) = (b, v')" "outs = Link_stalled (vm_crew m) True # b"
    using assms(8) begin1 by (auto simp: v ks split: prod.splits)
  have "b = (if ?long then [Leave_task c, Sfu_dropped (vm_crew m) ''link_stalled''] else [Link_stalled (vm_crew m) False]) \<and>
      vm_mode (fst v') = (if ?long then Voice_disconnected else Voice_sfu)"
  proof (cases ?long)
    case True
    with rest b have "mark_disconnected ''link_stalled'' (m, n) = (b, v')" by simp
    from mark_drops [OF ok _ _ this, of c] True mode assms(2) show ?thesis by (simp add: v)
  next
    case False
    with rest b mode show ?thesis by auto
  qed
  then show ?thesis by (simp add: v b(2))
qed

text \<open>Three checks of six seconds of silence, then a pong.\<close>

lemma stall_is_shown_once_and_ends_witness:
  "fst (stall_checks ([(secs 2, 1000), (secs 4, 3000), (secs 7, 6000)] @ [(secs 8, 20)]) call0) =
     [Link_stalled ''crew'' True, Leave_task 7, Sfu_dropped ''crew'' ''link_stalled'']"
  using stall_is_shown_once_and_ends [OF call0_facts(1,4-6) _ _ _ prod.collapse [symmetric],
      of "[(secs 2, 1000), (secs 4, 3000), (secs 7, 6000)]" "(secs 8, 20)"]
  by (simp add: silence_def sfu_stall_pong_age_ms_def sfu_stall_rebuild_ms_def call0_facts)

section \<open>Findings\<close>

text \<open>
  A finding: leaving a call keeps the count of bad checks, so two bad checks of a call that was left drop the next one at its first.
\<close>

lemma leave_keeps_bad_checks:
  "voice_ok v \<Longrightarrow> vm_unhealthy (fst (leave_voice v)) = vm_unhealthy (fst v)"
  by (cases v) (auto simp: leave_voice_def session_defs inband_detach_def split: voice_mode.splits option.splits)

lemma next_call_drops_at_first_bad_check:
  assumes "voice_ok v" "vm_mode (fst v) = Voice_sfu" "vm_unhealthy (fst v) = 2" "link_dead e" "liveness e v = (dead, outs, v')"
  shows "dead \<and> drops outs = 1"
proof -
  obtain m n where v: "v = (m, n)" by (cases v)
  have conn: "vm_connection m \<noteq> None" using assms(1,2) by (auto simp: v voice_ok_def)
  have "liveness_count e m = m\<lparr>vm_unhealthy := 3\<rparr>"
    using dead_counts [OF assms(4), of m] assms(2,3) conn by (simp add: v)
  then have "dead" using assms(5) by (simp add: v liveness_def)
  with liveness_stage(1,4) [OF assms(1,5)] assms(2) show ?thesis by simp
qed

text \<open>
  Another: leaving a call, or losing it, stops capture while the mic test is on, which then shows nothing.
\<close>

lemma leave_silences_mic_test:
  assumes "voice_ok v" "vm_mode (fst v) = Voice_sfu" "vm_loopback (fst v)"
  shows "vm_loopback (fst (leave_voice v)) \<and> \<not> nv_capturing (snd (leave_voice v))"
  using assms by (cases v) (auto simp: voice_ok_def leave_voice_def session_defs inband_detach_def split: option.splits)

end
