(* ===== verification/Voice_Client.thy ===== *)
theory Voice_Client
  imports Voice_Props Reconnect
begin

text \<open>
  The client around the voice manager (\<open>client/voice.rs\<close>, \<open>client/sfu_voice_join.rs\<close>, the voice parts of \<open>client/crew.rs\<close>,
  \<open>client/auth.rs\<close>, \<open>client/connection.rs\<close>): the join that runs off the command loop, the schedule that rejoins a dropped
  call, and the commands that leave one. The answers of the backend and the SFU and the clock are arguments; the requests, the events
  and the log line of an attempt are the outputs.
\<close>

section \<open>State\<close>

text \<open>The answer of \<open>voice_join\<close>; its snapshot is the list of the members.\<close>

record join_answer =
  jr_channel :: string
  jr_members :: "string list"
  jr_endpoint :: "string option"
  jr_token :: "string option"
  jr_bitrate :: "nat option"

record voice_grant =
  vg_crew :: string
  vg_local :: string
  vg_answer :: join_answer
  vg_issued :: instant

record sfu_join =
  sj_crew :: string
  sj_channel :: string
  sj_local :: string
  sj_reconnect :: bool

datatype join_step = Step_connect | Step_session nat

record voice_client =
  vc_voice :: voice
  vc_reconnect :: "(instant \<times> string \<times> nat) option"
  vc_dropped_at :: "instant option"
  vc_channel :: "string option"
  vc_grant :: "voice_grant option"
  vc_join :: "(sfu_join \<times> join_step) option"
  vc_replay :: bool

datatype client_out =
    Vo voice_out | Connect sfu_join string string | Join_session sfu_join nat
  | Ask_join string string "string option" | Tell_leave string | Conn_leave nat
  | Voice_joined string string "string list" | Voice_state bool voice_mode
  | Attempt nat string | Gave_up nat | Clip_buffer bool | Sync_replay bool

definition client_voice_new :: "voice \<Rightarrow> voice_client" where
  "client_voice_new v =
     \<lparr>vc_voice = v, vc_reconnect = None, vc_dropped_at = None, vc_channel = None, vc_grant = None, vc_join = None, vc_replay = False\<rparr>"

abbreviation vc_mode :: "voice_client \<Rightarrow> voice_mode" where "vc_mode c \<equiv> vm_mode (fst (vc_voice c))"

section \<open>A join off the loop\<close>

text \<open>A new step cancels the one that runs. The connect waits for the SFU, the session step for its data channels.\<close>

definition joins_connect :: "sfu_join \<Rightarrow> string \<Rightarrow> string \<Rightarrow> voice_client \<Rightarrow> client_out list \<times> voice_client" where
  "joins_connect j endpoint token c = ([Connect j endpoint token], c\<lparr>vc_join := Some (j, Step_connect)\<rparr>)"

definition joins_session :: "sfu_join \<Rightarrow> nat \<Rightarrow> voice_client \<Rightarrow> client_out list \<times> voice_client" where
  "joins_session j conn c = ([Join_session j conn], c\<lparr>vc_join := Some (j, Step_session conn)\<rparr>)"

definition joins_cancel :: "voice_client \<Rightarrow> voice_client" where "joins_cancel c = c\<lparr>vc_join := None\<rparr>"

definition sfu_leave_if_connected :: "voice_client \<Rightarrow> client_out list \<times> voice_client" where
  "sfu_leave_if_connected c =
     ((case vm_connection (fst (vc_voice c)) of None \<Rightarrow> [] | Some conn \<Rightarrow> [Conn_leave conn]), joins_cancel c)"

definition vc_leave_voice :: "voice_client \<Rightarrow> voice_client" where
  "vc_leave_voice c = c\<lparr>vc_voice := leave_voice (vc_voice c)\<rparr>"

definition start_voice_media :: "string \<Rightarrow> string option \<Rightarrow> join_answer \<Rightarrow> bool \<Rightarrow> voice_client \<Rightarrow> client_out list \<times> voice_client" where
  "start_voice_media crew_id local_id resp reconnect c =
     (case sfu_leave_if_connected c of (a, c1) \<Rightarrow>
        let c2 = vc_leave_voice c1;
            c3 = c2\<lparr>vc_voice := set_channel_bitrate (case jr_bitrate resp of Some k \<Rightarrow> k | None \<Rightarrow> default_channel_bitrate_kbps) (vc_voice c2)\<rparr>
        in case local_id of
             None \<Rightarrow> (a, c3)
           | Some local \<Rightarrow>
               (case joins_connect \<lparr>sj_crew = crew_id, sj_channel = jr_channel resp, sj_local = local, sj_reconnect = reconnect\<rparr>
                       (case jr_endpoint resp of Some e \<Rightarrow> e | None \<Rightarrow> []) (case jr_token resp of Some t \<Rightarrow> t | None \<Rightarrow> []) c3 of
                  (b, c4) \<Rightarrow> (a @ b, c4)))"

definition store_voice_join_grant :: "string \<Rightarrow> string option \<Rightarrow> join_answer \<Rightarrow> instant \<Rightarrow> voice_client \<Rightarrow> voice_client" where
  "store_voice_join_grant crew_id local_id resp now c =
     c\<lparr>vc_grant := map_option (\<lambda>local. \<lparr>vg_crew = crew_id, vg_local = local, vg_answer = resp, vg_issued = now\<rparr>) local_id\<rparr>"

text \<open>What a command or a tick reads: the backend, and the clock at each place that reads it.\<close>

record client_env =
  ce_tick :: tick_env
  ce_dropped :: instant
  ce_check :: instant
  ce_ask :: instant
  ce_issued :: instant
  ce_after :: instant
  ce_crew :: "string option"
  ce_user :: "string option"
  ce_region :: "string option"
  ce_answer :: "join_answer option"

definition join_voice_channel :: "string \<Rightarrow> bool \<Rightarrow> client_env \<Rightarrow> voice_client \<Rightarrow> client_out list \<times> voice_client" where
  "join_voice_channel channel_id reconnect e c =
     (case ce_crew e of
        None \<Rightarrow> ([], c)
      | Some crew_id \<Rightarrow>
          (case ce_answer e of
             None \<Rightarrow> ([Ask_join crew_id channel_id (ce_region e)], c)
           | Some resp \<Rightarrow>
               let c1 = c\<lparr>vc_channel := Some (jr_channel resp), vc_reconnect := (if reconnect then vc_reconnect c else None)\<rparr>
               in case start_voice_media crew_id (ce_user e) resp reconnect
                         (store_voice_join_grant crew_id (ce_user e) resp (ce_issued e) c1) of
                    (a, c2) \<Rightarrow> ([Ask_join crew_id channel_id (ce_region e), Voice_joined crew_id (jr_channel resp) (jr_members resp)] @ a, c2)))"

definition usable_grant :: "string \<Rightarrow> instant \<Rightarrow> voice_client \<Rightarrow> voice_grant option" where
  "usable_grant channel_id now c =
     (case vc_grant c of
        None \<Rightarrow> None
      | Some g \<Rightarrow> if jr_channel (vg_answer g) = channel_id \<and> grant_is_fresh (vg_issued g) now then Some g else None)"

definition reconnect_voice :: "string \<Rightarrow> client_env \<Rightarrow> voice_client \<Rightarrow> client_out list \<times> voice_client" where
  "reconnect_voice channel_id e c =
     (case usable_grant channel_id (ce_ask e) c of
        Some g \<Rightarrow> start_voice_media (vg_crew g) (Some (vg_local g)) (vg_answer g) True c
      | None \<Rightarrow> join_voice_channel channel_id True e c)"

text \<open>The steps of a join that end. The loop takes the outcome first.\<close>

datatype join_result = Connected nat bool | Ready nat | Join_failed

definition on_voice_media_started :: "voice_client \<Rightarrow> client_out list \<times> voice_client" where
  "on_voice_media_started c =
     ([Voice_state True (vc_mode c), Clip_buffer True, Sync_replay True],
      c\<lparr>vc_reconnect := (if vc_mode c \<noteq> Voice_disconnected then None else vc_reconnect c), vc_replay := True\<rparr>)"

definition on_sfu_voice_join_step ::
  "sfu_join \<Rightarrow> join_result \<Rightarrow> instant \<Rightarrow> bool \<Rightarrow> bool \<Rightarrow> bool \<Rightarrow> voice_client \<Rightarrow> client_out list \<times> voice_client" where
  "on_sfu_voice_join_step j r now capture_ok sink_ok took c =
     (case r of
        Connected conn peer_ok \<Rightarrow>
          if peer_ok then joins_session j conn c
          else if sj_reconnect j then ([], c) else on_voice_media_started c
      | Ready conn \<Rightarrow>
          (case join_voice_sfu (sj_crew j) conn now capture_ok sink_ok took (vc_voice c) of (a, v) \<Rightarrow>
             (case on_voice_media_started (c\<lparr>vc_voice := v\<rparr>) of (b, c1) \<Rightarrow> (map Vo a @ b, c1)))
      | Join_failed \<Rightarrow> if sj_reconnect j then ([], c) else on_voice_media_started c)"

definition join_finished :: "join_result \<Rightarrow> instant \<Rightarrow> bool \<Rightarrow> bool \<Rightarrow> bool \<Rightarrow> voice_client \<Rightarrow> client_out list \<times> voice_client" where
  "join_finished r now capture_ok sink_ok took c =
     (case vc_join c of
        None \<Rightarrow> ([], c)
      | Some (j, _) \<Rightarrow> on_sfu_voice_join_step j r now capture_ok sink_ok took (c\<lparr>vc_join := None\<rparr>))"

section \<open>The voice tick of the client\<close>

definition needs_voice_tick :: "bool \<Rightarrow> voice_client \<Rightarrow> bool" where
  "needs_voice_tick clip_was_playing c \<longleftrightarrow>
     needs_periodic_tick (fst (vc_voice c)) \<or> clip_was_playing \<or> vc_reconnect c \<noteq> None \<or>
     (vc_channel c \<noteq> None \<and> vc_mode c = Voice_disconnected)"

text \<open>A drop is noted, and an attempt that is due is made or, 30 s after the drop, the call is given up.\<close>

definition schedule_reconnect :: "client_env \<Rightarrow> voice_client \<Rightarrow> voice_client" where
  "schedule_reconnect e c =
     (if vc_join c = None \<and> vc_mode c = Voice_disconnected \<and> vc_reconnect c = None
      then (case vc_channel c of
              None \<Rightarrow> c
            | Some channel \<Rightarrow>
                c\<lparr>vc_dropped_at := Some (ce_dropped e), vc_reconnect := Some (ce_dropped e + sfu_reconnect_delay 0, channel, 0)\<rparr>)
      else c)"

definition give_up_voice :: "nat \<Rightarrow> voice_client \<Rightarrow> client_out list \<times> voice_client" where
  "give_up_voice attempt c =
     ([Gave_up attempt, Voice_state False Voice_disconnected], c\<lparr>vc_reconnect := None, vc_channel := None, vc_grant := None\<rparr>)"

definition attempt_reconnect :: "string \<Rightarrow> nat \<Rightarrow> client_env \<Rightarrow> voice_client \<Rightarrow> client_out list \<times> voice_client" where
  "attempt_reconnect channel attempt e c =
     (case reconnect_voice channel e c of (a, c1) \<Rightarrow>
        (Attempt (wrap_u u32_max (attempt + 1)) channel # a,
         if vc_mode c1 = Voice_disconnected
         then c1\<lparr>vc_reconnect :=
           Some (ce_after e + sfu_reconnect_delay (wrap_u u32_max (attempt + 1)), channel, wrap_u u32_max (attempt + 1))\<rparr>
         else c1))"

definition run_reconnect :: "bool \<Rightarrow> client_env \<Rightarrow> voice_client \<Rightarrow> client_out list \<times> voice_client" where
  "run_reconnect join_pending e c =
     (case vc_reconnect c of
        None \<Rightarrow> ([], c)
      | Some (due, channel, attempt) \<Rightarrow>
          if join_pending \<or> ce_check e < due then ([], c)
          else
            let dropped_at = (case vc_dropped_at c of Some d \<Rightarrow> d | None \<Rightarrow> ce_check e);
                c1 = c\<lparr>vc_dropped_at := Some dropped_at\<rparr>
            in if duration_since (ce_check e) dropped_at \<ge> sfu_reconnect_give_up_after then give_up_voice attempt c1
               else attempt_reconnect channel attempt e c1)"

definition client_voice_tick :: "client_env \<Rightarrow> voice_client \<Rightarrow> client_out list \<times> voice_client" where
  "client_voice_tick e c =
     (case voice_tick (ce_tick e) (vc_voice c) of (a, v) \<Rightarrow>
        let c1 = c\<lparr>vc_voice := v\<rparr>
        in case run_reconnect (vc_join c1 \<noteq> None) e (schedule_reconnect e c1) of (b, c2) \<Rightarrow> (map Vo a @ b, c2))"

section \<open>The commands\<close>

definition handle_join_voice :: "string \<Rightarrow> client_env \<Rightarrow> voice_client \<Rightarrow> client_out list \<times> voice_client" where
  "handle_join_voice channel_id e c = join_voice_channel channel_id False e c"

definition tell_leave :: "string option \<Rightarrow> client_out list" where
  "tell_leave crew = (case crew of None \<Rightarrow> [] | Some crew_id \<Rightarrow> [Tell_leave crew_id])"

definition handle_leave_voice :: "string option \<Rightarrow> voice_client \<Rightarrow> client_out list \<times> voice_client" where
  "handle_leave_voice crew c =
     (case sfu_leave_if_connected (c\<lparr>vc_replay := False\<rparr>) of (a, c1) \<Rightarrow>
        ([Sync_replay False, Clip_buffer False] @ a @ tell_leave crew @ [Voice_state False Voice_disconnected],
         vc_leave_voice (c1\<lparr>vc_channel := None, vc_reconnect := None, vc_grant := None\<rparr>)))"

text \<open>The voice parts of the selection of a crew, of leaving one and of the logout.\<close>

definition select_crew_voice :: "voice_client \<Rightarrow> client_out list \<times> voice_client" where
  "select_crew_voice c =
     (case sfu_leave_if_connected c of (a, c1) \<Rightarrow> (a @ [Voice_state False Voice_disconnected], vc_leave_voice c1))"

definition leave_crew_voice :: "string option \<Rightarrow> voice_client \<Rightarrow> client_out list \<times> voice_client" where
  "leave_crew_voice crew c =
     (case sfu_leave_if_connected c of (a, c1) \<Rightarrow> (a @ tell_leave crew @ [Voice_state False Voice_disconnected], vc_leave_voice c1))"

definition logout_voice :: "string option \<Rightarrow> voice_client \<Rightarrow> client_out list \<times> voice_client" where
  "logout_voice crew c =
     (case sfu_leave_if_connected c of (a, c1) \<Rightarrow>
        (a @ tell_leave crew @ [Voice_state False Voice_disconnected],
         (vc_leave_voice c1)\<lparr>vc_channel := None, vc_reconnect := None, vc_grant := None\<rparr>))"

text \<open>After a sleep a call is marked dropped; after a new realtime socket its membership is asserted again.\<close>

definition wake_voice :: "voice_client \<Rightarrow> client_out list \<times> voice_client" where
  "wake_voice c =
     (if vm_active (fst (vc_voice c))
      then (case mark_disconnected ''sleep_wake'' (vc_voice c) of (a, v) \<Rightarrow> (map Vo a, c\<lparr>vc_voice := v\<rparr>))
      else ([], c))"

definition reassert_voice_after_reconnect :: "client_env \<Rightarrow> voice_client \<Rightarrow> client_out list \<times> voice_client" where
  "reassert_voice_after_reconnect e c =
     (case vc_channel c of
        None \<Rightarrow> ([], c)
      | Some channel_id \<Rightarrow>
          if \<not> vm_active (fst (vc_voice c)) \<and> \<not> (vc_mode c = Voice_disconnected \<and> vc_join c = None) then ([], c)
          else (case ce_crew e of
                  None \<Rightarrow> ([], c)
                | Some crew_id \<Rightarrow>
                    (case ce_answer e of
                       None \<Rightarrow> ([Ask_join crew_id channel_id (ce_region e)], c)
                     | Some resp \<Rightarrow>
                         ([Ask_join crew_id channel_id (ce_region e), Voice_joined crew_id (jr_channel resp) (jr_members resp)],
                          (store_voice_join_grant crew_id (ce_user e) resp (ce_issued e) c)\<lparr>vc_channel := Some (jr_channel resp)\<rparr>))))"

datatype client_op =
    Cl_tick client_env | Cl_join string client_env | Cl_join_step join_result instant bool bool bool | Cl_leave "string option"
  | Cl_select_crew | Cl_leave_crew "string option" | Cl_logout "string option" | Cl_wake | Cl_reassert client_env | Cl_voice voice_op

fun client_step :: "client_op \<Rightarrow> voice_client \<Rightarrow> client_out list \<times> voice_client" where
  "client_step (Cl_tick e) c = client_voice_tick e c"
| "client_step (Cl_join channel e) c = handle_join_voice channel e c"
| "client_step (Cl_join_step r now cap sink took) c = join_finished r now cap sink took c"
| "client_step (Cl_leave crew) c = handle_leave_voice crew c"
| "client_step Cl_select_crew c = select_crew_voice c"
| "client_step (Cl_leave_crew crew) c = leave_crew_voice crew c"
| "client_step (Cl_logout crew) c = logout_voice crew c"
| "client_step Cl_wake c = wake_voice c"
| "client_step (Cl_reassert e) c = reassert_voice_after_reconnect e c"
| "client_step (Cl_voice o') c = (case voice_step o' (vc_voice c) of (a, v) \<Rightarrow> (map Vo a, c\<lparr>vc_voice := v\<rparr>))"

end
