(* ===== verification/Voice_Client_Props.thy ===== *)
theory Voice_Client_Props
  imports Voice_Client
begin

text \<open>
  What the client promises of a call: it opens a session only when none is open, a dropped call is rejoined by at most 16 attempts at
  the times of the schedule, and one that does not come back is given up once.
\<close>

section \<open>The operations that can come\<close>

text \<open>An outcome fits the step that runs; the voice manager is joined, left and ticked by the client only.\<close>

fun client_may :: "client_op \<Rightarrow> voice_client \<Rightarrow> bool" where
  "client_may (Cl_join_step (Ready conn) now cap sink took) c \<longleftrightarrow> (\<exists>j. vc_join c = Some (j, Step_session conn))"
| "client_may (Cl_join_step (Connected conn ok) now cap sink took) c \<longleftrightarrow> (\<exists>j. vc_join c = Some (j, Step_connect))"
| "client_may (Cl_tick e) c \<longleftrightarrow> ce_check e \<le> ce_after e"
| "client_may (Cl_voice (Op_join crew conn now cap sink took)) c \<longleftrightarrow> False"
| "client_may _ c \<longleftrightarrow> True"

text \<open>When attempt \<open>k\<close> is due, counted from the drop.\<close>

definition attempt_due :: "nat \<Rightarrow> duration" where "attempt_due k = (\<Sum>i\<le>k. sfu_reconnect_delay i)"

lemma attempt_due_Suc: "attempt_due (Suc k) = attempt_due k + sfu_reconnect_delay (Suc k)"
  by (simp add: attempt_due_def)

lemma attempt_due_form: "attempt_due (Suc k) = millis 1500 + k * secs 2"
proof (induction k)
  case 0
  show ?case by (simp add: attempt_due_def sfu_reconnect_delay_def sfu_reconnect_first_delay_def millis_def secs_def)
next
  case (Suc k)
  then show ?case by (simp add: attempt_due_Suc [of "Suc k"] sfu_reconnect_delay_def sfu_reconnect_max_gap_def)
qed

lemma attempt_due_late: "attempt_due k < sfu_reconnect_give_up_after \<Longrightarrow> k \<le> 15"
proof (cases k)
  case (Suc j)
  assume "attempt_due k < sfu_reconnect_give_up_after"
  then have "1500000000 + j * 2000000000 < (30000000000::nat)"
    by (simp add: Suc attempt_due_form sfu_reconnect_give_up_after_def millis_def secs_def)
  then show ?thesis by (simp add: Suc)
qed simp

definition client_ok :: "voice_client \<Rightarrow> bool" where
  "client_ok c \<longleftrightarrow>
     voice_reach (vc_voice c) \<and>
     (vc_join c \<noteq> None \<or> vc_reconnect c \<noteq> None \<longrightarrow> vc_mode c = Voice_disconnected) \<and>
     (\<forall>j s. vc_join c = Some (j, s) \<longrightarrow> sj_reconnect j \<or> vc_reconnect c = None) \<and>
     (\<forall>due channel k. vc_reconnect c = Some (due, channel, k) \<longrightarrow>
        k \<le> 16 \<and> (\<exists>d. vc_dropped_at c = Some d \<and> d + attempt_due k \<le> due))"

lemma not_sfu: "m \<noteq> Voice_sfu \<longleftrightarrow> m = Voice_disconnected" "m \<noteq> Voice_disconnected \<longleftrightarrow> m = Voice_sfu"
  by (cases m; simp)+

lemma leave_mode [simp]: "voice_ok v \<Longrightarrow> vm_mode (fst (leave_voice v)) = Voice_disconnected"
  by (cases v) (auto simp: not_sfu voice_ok_def leave_voice_def split: prod.split if_splits)

lemma leave_reach: "voice_reach v \<Longrightarrow> voice_reach (leave_voice v)"
  using voice_reach.step [of v Op_leave "[]" "leave_voice v"] by simp

lemma leave_keeps_mode: "voice_reach v \<Longrightarrow> vm_mode (fst (leave_voice v)) = Voice_disconnected"
  using reach_ok by simp

lemma bitrate_reach: "voice_reach v \<Longrightarrow> voice_reach (set_channel_bitrate k v)"
  using voice_reach.step [of v "Op_bitrate k" "[]" "set_channel_bitrate k v"] by simp

lemma bitrate_mode [simp]: "vm_mode (fst (set_channel_bitrate k v)) = vm_mode (fst v)"
  by (cases v) (simp add: set_channel_bitrate_def)

text \<open>What the start of the media does, as one step.\<close>

lemma media_starts:
  assumes "voice_reach (vc_voice c)" "start_voice_media crew local resp reconnect c = (outs, c')"
  shows "voice_reach (vc_voice c') \<and> vc_mode c' = Voice_disconnected \<and> vc_reconnect c' = vc_reconnect c \<and>
    vc_dropped_at c' = vc_dropped_at c \<and> vc_channel c' = vc_channel c \<and> vc_grant c' = vc_grant c \<and>
    (\<forall>j s. vc_join c' = Some (j, s) \<longrightarrow> sj_reconnect j = reconnect)"
  using assms(2) leave_reach [OF assms(1)] leave_keeps_mode [OF assms(1)]
  by (auto simp: start_voice_media_def sfu_leave_if_connected_def joins_cancel_def vc_leave_voice_def joins_connect_def Let_def bitrate_reach
      split: option.splits)

lemma tick_reach:
  assumes "voice_reach v" "voice_tick e v = (outs, v')"
  shows "voice_reach v'" "vm_mode (fst v) = Voice_disconnected \<Longrightarrow> vm_mode (fst v') = Voice_disconnected"
proof -
  show "voice_reach v'" using voice_reach.step [OF assms(1), of "Op_tick e"] assms(2) by simp
  show "vm_mode (fst v) = Voice_disconnected \<Longrightarrow> vm_mode (fst v') = Voice_disconnected"
    using tick_stage(2) [OF reach_ok [OF assms(1)] assms(2)] by (cases "vm_mode (fst v')") auto
qed


lemma voice_step_keeps_mode:
  assumes "voice_reach v" "voice_step o' v = (outs, v')" "\<nexists>crew conn now cap sink took. o' = Op_join crew conn now cap sink took"
  shows "voice_reach v'" "vm_mode (fst v) = Voice_disconnected \<Longrightarrow> vm_mode (fst v') = Voice_disconnected"
proof -
  have may: "may o' v" using assms(3) by (cases o') auto
  show "voice_reach v'" using voice_reach.step [OF assms(1) may assms(2)] .
  show "vm_mode (fst v') = Voice_disconnected" if off: "vm_mode (fst v) = Voice_disconnected"
  proof (cases o')
    case (Op_tick e)
    with tick_reach(2) [OF assms(1)] assms(2) off show ?thesis by simp
  next
    case (Op_join crew conn now cap sink took)
    with assms(3) show ?thesis by blast
  next
    case Op_leave
    with assms(2) leave_keeps_mode [OF assms(1)] show ?thesis by auto
  next
    case (Op_mark reason)
    with assms(2) off show ?thesis by (auto simp: mark_disconnected_def)
  next
    case (Op_vad who on now took)
    with assms(2) off settings_same(1) [OF reach_ok [OF assms(1)]] show ?thesis by (simp add: same_session_def)
  next
    case (Op_mute on now took)
    with assms(2) off mute_same [OF reach_ok [OF assms(1)]] show ?thesis by (simp add: same_session_def)
  next
    case (Op_ptt_speaking on now took)
    with assms(2) off settings_same(2) [OF reach_ok [OF assms(1)]] show ?thesis by (simp add: same_session_def)
  next
    case (Op_frame payload ts seq took)
    with assms(2) off frame_same [OF reach_ok [OF assms(1)]] show ?thesis by (simp add: same_session_def)
  qed (use assms(2) off settings_same(3-6) [OF reach_ok [OF assms(1)]] in \<open>auto simp: same_session_def\<close>)
qed

lemma join_reach:
  assumes "voice_reach v" "vm_mode (fst v) = Voice_disconnected" "join_voice_sfu crew conn now cap sink took v = (outs, v')"
  shows "voice_reach v'"
  using voice_reach.step [OF assms(1), of "Op_join crew conn now cap sink took"] assms(2,3) by simp

text \<open>A join that the client starts, with or without the backend.\<close>

lemma joins_channel:
  assumes "client_ok c" "join_voice_channel channel reconnect e c = (outs, c')"
  shows "client_ok c' \<and> vc_dropped_at c' = vc_dropped_at c \<and>
    (reconnect \<longrightarrow> vc_reconnect c' = vc_reconnect c) \<and> (vc_mode c = Voice_disconnected \<longrightarrow> vc_mode c' = Voice_disconnected)"
proof (cases "ce_crew e")
  case None
  with assms show ?thesis by (simp add: join_voice_channel_def)
next
  case crew: (Some crew)
  show ?thesis
  proof (cases "ce_answer e")
    case None
    with crew assms show ?thesis by (auto simp: join_voice_channel_def)
  next
    case (Some resp)
    let ?c = "store_voice_join_grant crew (ce_user e) resp (ce_issued e)
      (c\<lparr>vc_channel := Some (jr_channel resp), vc_reconnect := (if reconnect then vc_reconnect c else None)\<rparr>)"
    obtain a c2 where a: "start_voice_media crew (ce_user e) resp reconnect ?c = (a, c2)"
      by (cases "start_voice_media crew (ce_user e) resp reconnect ?c")
    have c': "c' = c2" using assms(2) by (simp add: join_voice_channel_def crew Some a)
    have "voice_reach (vc_voice ?c)" using assms(1) by (simp add: client_ok_def store_voice_join_grant_def)
    note m = media_starts [OF this a]
    then show ?thesis using assms(1) unfolding c' by (auto simp: client_ok_def store_voice_join_grant_def)
  qed
qed

lemma reconnects:
  assumes "client_ok c" "vc_reconnect c \<noteq> None" "reconnect_voice channel e c = (outs, c')"
  shows "client_ok c' \<and> vc_dropped_at c' = vc_dropped_at c \<and> vc_reconnect c' = vc_reconnect c \<and> vc_mode c' = Voice_disconnected \<and>
    (\<forall>j s. vc_join c' = Some (j, s) \<longrightarrow> sj_reconnect j)"
proof (cases "usable_grant channel (ce_ask e) c")
  case None
  from assms(1,2) have off: "vc_mode c = Voice_disconnected" "voice_reach (vc_voice c)" by (simp_all add: client_ok_def)
  from None assms(3) have "join_voice_channel channel True e c = (outs, c')" by (simp add: reconnect_voice_def)
  from joins_channel [OF assms(1) this] off assms(2) show ?thesis by (auto simp: client_ok_def)
next
  case (Some g)
  with assms(3) have "start_voice_media (vg_crew g) (Some (vg_local g)) (vg_answer g) True c = (outs, c')"
    by (simp add: reconnect_voice_def)
  from media_starts [OF _ this] assms(1) show ?thesis by (auto simp: client_ok_def)
qed


section \<open>The tick\<close>

lemma schedule_ok: "client_ok c \<Longrightarrow> client_ok (schedule_reconnect e c)"
  by (auto simp: client_ok_def schedule_reconnect_def attempt_due_def split: option.splits)

lemma run_cases:
  assumes "client_ok c" "run_reconnect pending e c = (outs, c')"
  obtains (idle) "outs = []" "c' = c" "\<forall>due ch k. vc_reconnect c = Some (due, ch, k) \<longrightarrow> pending \<or> ce_check e < due"
  | (over) due ch k d where "vc_reconnect c = Some (due, ch, k)" "vc_dropped_at c = Some d" "\<not> pending" "due \<le> ce_check e"
      "d + sfu_reconnect_give_up_after \<le> ce_check e" "outs = [Gave_up k, Voice_state False Voice_disconnected]"
      "c' = c\<lparr>vc_reconnect := None, vc_channel := None, vc_grant := None\<rparr>"
  | (again) due ch k d a c1 where "vc_reconnect c = Some (due, ch, k)" "vc_dropped_at c = Some d" "\<not> pending" "due \<le> ce_check e"
      "ce_check e < d + sfu_reconnect_give_up_after" "k \<le> 15" "d + attempt_due k \<le> ce_check e"
      "outs = Attempt (k + 1) ch # a" "reconnect_voice ch e c = (a, c1)"
      "c' = c1\<lparr>vc_reconnect := Some (ce_after e + sfu_reconnect_delay (k + 1), ch, k + 1)\<rparr>"
proof (cases "vc_reconnect c")
  case None
  with assms(2) idle show thesis by (simp add: run_reconnect_def)
next
  case (Some r)
  obtain due ch k where r: "vc_reconnect c = Some (due, ch, k)" using Some by (cases r) auto
  obtain d where d: "vc_dropped_at c = Some d" "d + attempt_due k \<le> due" "k \<le> 16" using assms(1) r by (auto simp: client_ok_def)
  have self: "c\<lparr>vc_dropped_at := Some d\<rparr> = c" using d(1) by simp
  show thesis
  proof (cases "pending \<or> ce_check e < due")
    case True
    with assms(2) r have "outs = []" "c' = c" by (auto simp: run_reconnect_def)
    with True r show thesis by (intro idle) auto
  next
    case ready: False
    show thesis
    proof (cases "duration_since (ce_check e) d \<ge> sfu_reconnect_give_up_after")
      case True
      then have "d + sfu_reconnect_give_up_after \<le> ce_check e" by (simp add: sfu_reconnect_give_up_after_def secs_def)
      moreover have "outs = [Gave_up k, Voice_state False Voice_disconnected]" "c' = c\<lparr>vc_reconnect := None, vc_channel := None, vc_grant := None\<rparr>"
        using assms(2) ready True by (simp_all add: run_reconnect_def r d(1) self give_up_voice_def)
      ultimately show thesis using over [OF r d(1)] ready by simp
    next
      case False
      obtain a c1 where a: "reconnect_voice ch e c = (a, c1)" by (cases "reconnect_voice ch e c")
      have off: "vc_mode c1 = Voice_disconnected" using reconnects [OF assms(1) _ a] r by simp
      have w: "wrap_u u32_max (k + 1) = k + 1" using d(3) by (simp add: wrap_u_def u32_max_def)
      have less: "ce_check e < d + sfu_reconnect_give_up_after" "d + attempt_due k \<le> ce_check e" using False ready d(2) by auto
      then have "k \<le> 15" by (intro attempt_due_late) simp
      moreover have "outs = Attempt (k + 1) ch # a" "c' = c1\<lparr>vc_reconnect := Some (ce_after e + sfu_reconnect_delay (k + 1), ch, k + 1)\<rparr>"
        using assms(2) ready False off by (simp_all add: run_reconnect_def r d(1) self attempt_reconnect_def a w [simplified])
      ultimately show thesis using again [OF r d(1) _ _ less(1) _ less(2) _ a] ready by simp
    qed
  qed
qed

lemma reconnect_run_ok:
  assumes "client_ok c" "ce_check e \<le> ce_after e" "run_reconnect pending e c = (outs, c')"
  shows "client_ok c'"
  using assms(1,3)
proof (cases rule: run_cases)
  case idle
  with assms(1) show ?thesis by simp
next
  case (over due ch k d)
  with assms(1) show ?thesis by (auto simp: client_ok_def)
next
  case (again due ch k d a c1)
  have "d + attempt_due (k + 1) \<le> ce_after e + sfu_reconnect_delay (k + 1)"
    using again(7) assms(2) by (simp add: attempt_due_Suc)
  moreover note m = reconnects [OF assms(1) _ again(9)]
  ultimately show ?thesis using again(1,2,6) by (auto simp: client_ok_def again(10))
qed

lemma client_tick_split:
  assumes "client_ok c" "client_voice_tick e c = (outs, c')"
  obtains a v b where "voice_tick (ce_tick e) (vc_voice c) = (a, v)"
    "run_reconnect (vc_join c \<noteq> None) e (schedule_reconnect e (c\<lparr>vc_voice := v\<rparr>)) = (b, c')" "outs = map Vo a @ b"
    "client_ok (c\<lparr>vc_voice := v\<rparr>)"
proof -
  obtain a v where a: "voice_tick (ce_tick e) (vc_voice c) = (a, v)" by (cases "voice_tick (ce_tick e) (vc_voice c)")
  have "voice_reach (vc_voice c)" using assms(1) by (simp add: client_ok_def)
  note t = tick_reach [OF this a]
  then have "client_ok (c\<lparr>vc_voice := v\<rparr>)" using assms(1) by (auto simp: client_ok_def)
  with that [OF a] assms(2) show thesis by (auto simp: client_voice_tick_def a split: prod.splits)
qed

lemma client_tick_ok:
  assumes "client_ok c" "ce_check e \<le> ce_after e" "client_voice_tick e c = (outs, c')"
  shows "client_ok c'"
  by (rule client_tick_split [OF assms(1,3)]) (blast intro: reconnect_run_ok [OF schedule_ok assms(2)])

section \<open>Every operation\<close>

lemma media_started_ok:
  assumes "client_ok c" "vc_join c = None" "on_voice_media_started c = (outs, c')"
  shows "client_ok c'"
  using assms by (cases "vc_mode c = Voice_disconnected") (auto simp: client_ok_def on_voice_media_started_def)

lemma finished_ok:
  assumes "client_ok c" "client_may (Cl_join_step r now cap sink took) c" "join_finished r now cap sink took c = (outs, c')"
  shows "client_ok c'"
proof (cases "vc_join c")
  case None
  with assms show ?thesis by (simp add: join_finished_def)
next
  case (Some p)
  obtain j s where p: "vc_join c = Some (j, s)" using Some by (cases p) auto
  let ?c = "c\<lparr>vc_join := None\<rparr>"
  have ok: "client_ok ?c" and off: "vc_mode c = Voice_disconnected" using assms(1) p by (auto simp: client_ok_def)
  note d = assms(3) [unfolded join_finished_def p option.case prod.case on_sfu_voice_join_step_def]
  show ?thesis
  proof (cases r)
    case (Connected conn peer_ok)
    show ?thesis
    proof (cases peer_ok)
      case True
      with d Connected have "c' = ?c\<lparr>vc_join := Some (j, Step_session conn)\<rparr>" by (simp add: joins_session_def)
      then show ?thesis using assms(1) p off by (auto simp: client_ok_def)
    next
      case False
      with d Connected ok media_started_ok [OF ok] show ?thesis by (auto split: if_splits)
    qed
  next
    case (Ready conn)
    obtain a v where a: "join_voice_sfu (sj_crew j) conn now cap sink took (vc_voice c) = (a, v)"
      by (cases "join_voice_sfu (sj_crew j) conn now cap sink took (vc_voice c)")
    have "voice_reach v" using join_reach [OF _ off a] assms(1) by (simp add: client_ok_def)
    moreover have "vc_voice c' = v" "vc_join c' = None" "vc_dropped_at c' = vc_dropped_at c"
      "vc_reconnect c' = (if vm_mode (fst v) \<noteq> Voice_disconnected then None else vc_reconnect c)"
      using d Ready by (auto simp: a on_voice_media_started_def)
    ultimately show ?thesis using assms(1) by (cases "vm_mode (fst v) = Voice_disconnected") (simp_all add: client_ok_def)
  next
    case Join_failed
    with d ok media_started_ok [OF ok] show ?thesis by (auto split: if_splits)
  qed
qed

lemma left_ok:
  assumes "client_ok c"
  shows "handle_leave_voice crew c = (outs, c') \<Longrightarrow> client_ok c'" "select_crew_voice c = (outs, c') \<Longrightarrow> client_ok c'"
    "leave_crew_voice crew c = (outs, c') \<Longrightarrow> client_ok c'" "logout_voice crew c = (outs, c') \<Longrightarrow> client_ok c'"
  using assms leave_reach [of "vc_voice c"] leave_keeps_mode [of "vc_voice c"]
  by (auto simp: client_ok_def handle_leave_voice_def select_crew_voice_def leave_crew_voice_def logout_voice_def sfu_leave_if_connected_def
      joins_cancel_def vc_leave_voice_def)

lemma client_step_ok:
  assumes "client_ok c" "client_may o' c" "client_step o' c = (outs, c')"
  shows "client_ok c'"
proof (cases o')
  case (Cl_tick e)
  with assms client_tick_ok [OF assms(1)] show ?thesis by simp
next
  case (Cl_join channel e)
  with assms joins_channel [OF assms(1)] show ?thesis by (simp add: handle_join_voice_def)
next
  case (Cl_join_step r now cap sink took)
  with assms finished_ok [OF assms(1)] show ?thesis by simp
next
  case Cl_wake
  show ?thesis
  proof (cases "vm_active (fst (vc_voice c))")
    case True
    obtain a v where a: "mark_disconnected ''sleep_wake'' (vc_voice c) = (a, v)" by (cases "mark_disconnected ''sleep_wake'' (vc_voice c)")
    have "voice_reach (vc_voice c)" using assms(1) by (simp add: client_ok_def)
    from voice_step_keeps_mode [OF this, of "Op_mark ''sleep_wake''" a v] a
    have "voice_reach v" "vc_mode c = Voice_disconnected \<Longrightarrow> vm_mode (fst v) = Voice_disconnected" by simp_all
    moreover have "c' = c\<lparr>vc_voice := v\<rparr>" using assms(3) True by (simp add: Cl_wake wake_voice_def a)
    ultimately show ?thesis using assms(1) by (auto simp: client_ok_def)
  next
    case False
    with assms show ?thesis by (simp add: Cl_wake wake_voice_def)
  qed
next
  case (Cl_reassert e)
  with assms show ?thesis
    by (auto simp: reassert_voice_after_reconnect_def store_voice_join_grant_def client_ok_def split: option.splits if_splits)
next
  case (Cl_voice o1)
  obtain a v where a: "voice_step o1 (vc_voice c) = (a, v)" by (cases "voice_step o1 (vc_voice c)")
  have "\<nexists>crew conn now cap sink took. o1 = Op_join crew conn now cap sink took" using assms(2) by (auto simp: Cl_voice)
  note k = voice_step_keeps_mode [OF _ a this]
  have "c' = c\<lparr>vc_voice := v\<rparr>" using assms(3) by (simp add: Cl_voice a)
  then show ?thesis using assms(1) k by (auto simp: client_ok_def)
qed (use assms left_ok [OF assms(1)] in auto)

inductive client_reach :: "voice_client \<Rightarrow> bool" where
  start: "nv_sink n = None \<Longrightarrow> nv_direct n = [] \<Longrightarrow> client_reach (client_voice_new (vm_new ctx loopback, n))"
| step: "client_reach c \<Longrightarrow> client_may o' c \<Longrightarrow> client_step o' c = (outs, c') \<Longrightarrow> client_reach c'"

lemma client_reach_ok: "client_reach c \<Longrightarrow> client_ok c"
proof (induction rule: client_reach.induct)
  case (start n ctx loopback)
  then show ?case by (auto simp: client_ok_def client_voice_new_def intro: voice_reach.start) (simp add: vm_new_def)?
next
  case (step c o' outs c')
  then show ?case using client_step_ok by blast
qed


section \<open>The attempts\<close>

fun is_attempt :: "client_out \<Rightarrow> bool" where
  "is_attempt (Attempt n channel) = True"
| "is_attempt _ = False"

definition attempts :: "client_out list \<Rightarrow> nat" where "attempts outs = length (filter is_attempt outs)"

lemma attempts_simps [simp]:
  "attempts [] = 0" "attempts (x # xs) = (if is_attempt x then 1 else 0) + attempts xs" "attempts (xs @ ys) = attempts xs + attempts ys"
  by (simp_all add: attempts_def)

lemma no_attempts [simp]: "attempts (map Vo a) = 0" "attempts (tell_leave crew) = 0"
proof -
  show "attempts (map Vo a) = 0" by (induction a) simp_all
  show "attempts (tell_leave crew) = 0" by (cases crew) (simp_all add: tell_leave_def)
qed

lemma attempt_in: "Attempt n ch \<in> set outs \<Longrightarrow> attempts outs \<noteq> 0"
  by (simp add: attempts_def filter_empty_conv) (meson is_attempt.simps(1))

lemma media_no_attempt: "start_voice_media crew local resp reconnect c = (outs, c') \<Longrightarrow> attempts outs = 0"
  by (auto simp: start_voice_media_def sfu_leave_if_connected_def joins_connect_def Let_def split: option.splits)

lemma join_no_attempt: "join_voice_channel channel reconnect e c = (outs, c') \<Longrightarrow> attempts outs = 0"
  by (auto simp: join_voice_channel_def Let_def split: option.splits prod.splits dest: media_no_attempt)

lemma reconnect_no_attempt: "reconnect_voice channel e c = (outs, c') \<Longrightarrow> attempts outs = 0"
  by (auto simp: reconnect_voice_def split: option.splits dest: media_no_attempt join_no_attempt)

lemma finished_no_attempt: "join_finished r now cap sink took c = (outs, c') \<Longrightarrow> attempts outs = 0"
  by (auto simp: join_finished_def on_sfu_voice_join_step_def joins_session_def on_voice_media_started_def
      split: option.splits join_result.splits prod.splits if_splits)

lemma others_no_attempt:
  assumes "client_step o' c = (outs, c')" "\<nexists>e. o' = Cl_tick e"
  shows "attempts outs = 0"
  using assms
  by (cases o') (auto simp: handle_join_voice_def handle_leave_voice_def select_crew_voice_def leave_crew_voice_def logout_voice_def
      sfu_leave_if_connected_def wake_voice_def reassert_voice_after_reconnect_def
      split: option.splits prod.splits if_splits dest: join_no_attempt finished_no_attempt)

text \<open>C11: The client of a call is never joining the SFU while a session is open, so the voice manager starts a session only when it has
  none. And an attempt to rejoin a dropped call is one of at most 16: attempt \<open>n\<close> is made by a voice tick with no join under way, not
  before its time in the schedule (500 ms after the drop, then 1 s, then every 2 s) and before 30 s have passed.
\<close>

theorem rejoin_attempts_follow_schedule:
  assumes "client_reach c" "client_may o' c" "client_step o' c = (outs, c')"
  shows "voice_reach (vc_voice c') \<and> (vc_join c' \<noteq> None \<longrightarrow> vc_mode c' = Voice_disconnected) \<and>
    (\<forall>n channel. Attempt n channel \<in> set outs \<longrightarrow>
       (\<exists>e d. o' = Cl_tick e \<and> vc_join c = None \<and> vc_dropped_at c' = Some d \<and> 1 \<le> n \<and> n \<le> 16 \<and>
         d + attempt_due (n - 1) \<le> ce_check e \<and> ce_check e < d + sfu_reconnect_give_up_after \<and> attempts outs = 1))"
proof (intro conjI allI impI)
  note ok = client_reach_ok [OF assms(1)]
  note ok' = client_step_ok [OF ok assms(2,3)]
  then show "voice_reach (vc_voice c')" "vc_join c' \<noteq> None \<Longrightarrow> vc_mode c' = Voice_disconnected" by (simp_all add: client_ok_def)
  show "\<exists>e d. o' = Cl_tick e \<and> vc_join c = None \<and> vc_dropped_at c' = Some d \<and> 1 \<le> n \<and> n \<le> 16 \<and>
      d + attempt_due (n - 1) \<le> ce_check e \<and> ce_check e < d + sfu_reconnect_give_up_after \<and> attempts outs = 1"
    if n: "Attempt n channel \<in> set outs" for n channel
  proof -
    obtain e where e: "o' = Cl_tick e" using others_no_attempt [OF assms(3)] attempt_in [OF n] by auto
    then have "client_voice_tick e c = (outs, c')" using assms(3) by simp
    then show ?thesis
    proof (rule client_tick_split [OF ok])
      fix a v b
      assume b: "run_reconnect (vc_join c \<noteq> None) e (schedule_reconnect e (c\<lparr>vc_voice := v\<rparr>)) = (b, c')"
        "outs = map Vo a @ b" "client_ok (c\<lparr>vc_voice := v\<rparr>)"
      note sok = schedule_ok [OF b(3)]
      have nb: "Attempt n channel \<in> set b" using n b(2) by auto
      from sok b(1) show ?thesis
      proof (cases rule: run_cases)
        case (again due ch k d a' c1)
        have "n = k + 1" using nb again(8) attempt_in [of n channel a'] reconnect_no_attempt [OF again(9)] by auto
        moreover have "vc_dropped_at c' = Some d" using reconnects [OF sok _ again(9)] again(1,2,10) by simp
        moreover have "vc_join c = None" using again(3) by blast
        ultimately show ?thesis
          using again(5,6,7) e b(2) reconnect_no_attempt [OF again(9)] by (intro exI [of _ e] exI [of _ d]) (simp add: again(8))
      qed (use nb in auto)
    qed
  qed
qed

text \<open>A call whose SFU cannot be reached, 700 ms after it was dropped.\<close>

definition quiet :: tick_env where
  "quiet = \<lparr>te_now = 0, te_pong_age = 0, te_connected = False, te_control_open = False, te_signaling_idle = 0, te_took = False,
     te_streams = 0, te_rtp_total = 0, te_late_underruns = 0, te_packets = [], te_events = []\<rparr>"

definition answer0 :: join_answer where
  "answer0 = \<lparr>jr_channel = ''ch'', jr_members = [''me''], jr_endpoint = Some ''wss'', jr_token = Some ''t'', jr_bitrate = None\<rparr>"

definition env_at :: "instant \<Rightarrow> client_env" where
  "env_at t = \<lparr>ce_tick = quiet, ce_dropped = t, ce_check = t, ce_ask = t, ce_issued = t, ce_after = t, ce_crew = Some ''crew'',
     ce_user = Some ''me'', ce_region = None, ce_answer = Some answer0\<rparr>"

definition dropped_call :: voice_client where
  "dropped_call = \<lparr>vc_voice = (vm_new True False, voice_env0), vc_reconnect = Some (millis 500, ''ch'', 0), vc_dropped_at = Some 0,
     vc_channel = Some ''ch'', vc_grant = Some \<lparr>vg_crew = ''crew'', vg_local = ''me'', vg_answer = answer0, vg_issued = 0\<rparr>, vc_join = None,
     vc_replay = True\<rparr>"

lemma quiet_voice:
  "voice_tick e (vm_new True False, n) = ([], vm_new True False, n)" "leave_voice (vm_new True False, n) = (vm_new True False, n)"
  "set_channel_bitrate 64 (vm_new True False, n) = (vm_new True False, n)" "vm_connection (vm_new True False) = None"
  "vm_mode (vm_new True False) = Voice_disconnected"
  by (simp_all add: voice_tick_def vm_new_def needs_periodic_tick_def leave_voice_def set_channel_bitrate_def default_channel_bitrate_kbps_def)

lemma dropped_call_reach: "client_reach dropped_call"
proof -
  let ?c0 = "client_voice_new (vm_new True False, voice_env0)"
  have r0: "client_reach ?c0" by (rule client_reach.start) (simp_all add: voice_env0_def)
  obtain a1 c1 where c1: "client_step (Cl_join ''ch'' (env_at 0)) ?c0 = (a1, c1)" by (cases "client_step (Cl_join ''ch'' (env_at 0)) ?c0")
  have r1: "client_reach c1" by (rule client_reach.step [OF r0 _ c1]) simp
  have d1: "c1 = dropped_call\<lparr>vc_reconnect := None, vc_dropped_at := None,
      vc_join := Some (\<lparr>sj_crew = ''crew'', sj_channel = ''ch'', sj_local = ''me'', sj_reconnect = False\<rparr>, Step_connect), vc_replay := False\<rparr>"
    using c1 by (auto simp: handle_join_voice_def join_voice_channel_def env_at_def answer0_def start_voice_media_def sfu_leave_if_connected_def
        client_voice_new_def store_voice_join_grant_def joins_cancel_def vc_leave_voice_def joins_connect_def quiet_voice dropped_call_def
        default_channel_bitrate_kbps_def)
  obtain a2 c2 where c2: "client_step (Cl_join_step Join_failed 0 False False False) c1 = (a2, c2)"
    by (cases "client_step (Cl_join_step Join_failed 0 False False False) c1")
  have r2: "client_reach c2" by (rule client_reach.step [OF r1 _ c2]) simp
  have d2: "c2 = dropped_call\<lparr>vc_reconnect := None, vc_dropped_at := None\<rparr>"
    using c2 by (auto simp: d1 join_finished_def on_sfu_voice_join_step_def on_voice_media_started_def dropped_call_def quiet_voice)
  obtain a3 c3 where c3: "client_step (Cl_tick (env_at 0)) c2 = (a3, c3)" by (cases "client_step (Cl_tick (env_at 0)) c2")
  have r3: "client_reach c3" by (rule client_reach.step [OF r2 _ c3]) (simp add: env_at_def)
  have "c3 = dropped_call"
    using c3 by (auto simp: d2 client_voice_tick_def env_at_def dropped_call_def quiet_voice schedule_reconnect_def run_reconnect_def
        sfu_reconnect_delay_def sfu_reconnect_first_delay_def millis_def)
  with r3 show ?thesis by simp
qed

lemma rejoin_attempts_follow_schedule_witness:
  "attempts (fst (client_step (Cl_tick (env_at (millis 700))) dropped_call)) = 1"
proof -
  let ?r = "client_step (Cl_tick (env_at (millis 700))) dropped_call"
  have may: "client_may (Cl_tick (env_at (millis 700))) dropped_call" by (simp add: env_at_def)
  have "Attempt 1 ''ch'' \<in> set (fst ?r)"
    by (simp add: client_voice_tick_def env_at_def dropped_call_def quiet_voice schedule_reconnect_def run_reconnect_def millis_def
        sfu_reconnect_give_up_after_def secs_def attempt_reconnect_def wrap_u_def u32_max_def split: prod.split)
  with rejoin_attempts_follow_schedule [OF dropped_call_reach may prod.collapse [symmetric]] show ?thesis by blast
qed


section \<open>A call that does not come back\<close>

definition call_ends :: "client_out list \<Rightarrow> nat" where
  "call_ends outs = length (filter (\<lambda>x. x = Voice_state False Voice_disconnected) outs)"

lemma call_ends_simps [simp]:
  "call_ends [] = 0" "call_ends (x # xs) = (if x = Voice_state False Voice_disconnected then 1 else 0) + call_ends xs"
  "call_ends (xs @ ys) = call_ends xs + call_ends ys"
  by (simp_all add: call_ends_def)

lemma no_call_ends [simp]: "call_ends (map Vo a) = 0"
  by (induction a) simp_all

lemma media_no_end: "start_voice_media crew local resp reconnect c = (outs, c') \<Longrightarrow> call_ends outs = 0"
  by (auto simp: start_voice_media_def sfu_leave_if_connected_def joins_connect_def Let_def split: option.splits)

lemma reconnect_no_end: "reconnect_voice channel e c = (outs, c') \<Longrightarrow> call_ends outs = 0"
  by (auto simp: reconnect_voice_def join_voice_channel_def Let_def split: option.splits prod.splits dest: media_no_end)

text \<open>The operations while neither the backend nor the SFU can be reached and the user does nothing; the state after giving up.\<close>

fun failing :: "client_op \<Rightarrow> bool" where
  "failing (Cl_tick e) \<longleftrightarrow> ce_answer e = None"
| "failing (Cl_join_step r now cap sink took) \<longleftrightarrow> r = Join_failed"
| "failing _ \<longleftrightarrow> False"

definition call_over :: "voice_client \<Rightarrow> bool" where
  "call_over c \<longleftrightarrow> vc_reconnect c = None \<and> vc_channel c = None \<and> vc_grant c = None \<and> vc_join c = None \<and> vc_mode c = Voice_disconnected"

definition after_op :: "client_op \<Rightarrow> instant \<Rightarrow> bool" where
  "after_op o' t \<longleftrightarrow> (case o' of Cl_tick e \<Rightarrow> ce_after e + sfu_reconnect_max_gap \<le> t | _ \<Rightarrow> True)"

lemma delay_le: "sfu_reconnect_delay k \<le> sfu_reconnect_max_gap"
  by (simp add: sfu_reconnect_delay_def sfu_reconnect_first_delay_def sfu_reconnect_max_gap_def millis_def secs_def)

lemma tick_while_dropped:
  assumes "client_ok c" "vc_reconnect c = Some (due, ch, k)" "vc_dropped_at c = Some d" "client_voice_tick e c = (outs, c')"
  shows "if vc_join c = None \<and> due \<le> ce_check e \<and> d + sfu_reconnect_give_up_after \<le> ce_check e
    then call_over c' \<and> call_ends outs = 1 \<and> attempts outs = 0
    else call_ends outs = 0 \<and> vc_dropped_at c' = Some d \<and>
      (\<exists>due'. vc_reconnect c' = Some (due', ch, k + attempts outs) \<and> (due' = due \<or> due' \<le> ce_after e + sfu_reconnect_max_gap))"
  using assms(1,4)
proof (rule client_tick_split)
  fix a v b
  assume b: "run_reconnect (vc_join c \<noteq> None) e (schedule_reconnect e (c\<lparr>vc_voice := v\<rparr>)) = (b, c')" "outs = map Vo a @ b" "client_ok (c\<lparr>vc_voice := v\<rparr>)"
  let ?c = "c\<lparr>vc_voice := v\<rparr>"
  have sch: "schedule_reconnect e ?c = ?c" using assms(2) by (simp add: schedule_reconnect_def)
  have off: "vm_mode (fst v) = Voice_disconnected" using b(3) assms(2) by (simp add: client_ok_def)
  from b(3) b(1) [unfolded sch] show ?thesis
  proof (cases rule: run_cases)
    case idle
    then have "\<not> (vc_join c = None \<and> due \<le> ce_check e)" using assms(2) by auto
    then show ?thesis using idle assms(2,3) b(2) by (auto simp: tell_leave_def)
  next
    case (over due' ch' k' d')
    then show ?thesis using assms(2,3) off b(2) by (auto simp: call_over_def)
  next
    case (again due' ch' k' d' a' c1)
    have eq: "due' = due" "ch' = ch" "k' = k" "d' = d" using again(1,2) assms(2,3) by simp_all
    have "\<not> (d + sfu_reconnect_give_up_after \<le> ce_check e)" using again(5) eq by simp
    moreover have "vc_dropped_at c' = Some d" using reconnects [OF b(3) _ again(9)] assms(2) again(2,10) eq by simp
    moreover have "ce_after e + sfu_reconnect_delay (k + 1) \<le> ce_after e + sfu_reconnect_max_gap" using delay_le by simp
    ultimately show ?thesis
      using reconnect_no_attempt [OF again(9)] reconnect_no_end [OF again(9)] by (auto simp: b(2) again(8,10) eq)
  qed
qed

lemma failed_join_while_dropped:
  assumes "client_ok c" "vc_reconnect c \<noteq> None" "join_finished Join_failed now cap sink took c = (outs, c')"
  shows "outs = [] \<and> c' = c\<lparr>vc_join := None\<rparr>"
  using assms by (auto simp: join_finished_def on_sfu_voice_join_step_def client_ok_def split: option.splits prod.splits)

lemma over_stays:
  assumes "client_ok c" "call_over c" "failing o'" "client_step o' c = (outs, c')"
  shows "call_over c' \<and> call_ends outs = 0 \<and> attempts outs = 0"
proof (cases o')
  case (Cl_tick e)
  with assms(4) have "client_voice_tick e c = (outs, c')" by simp
  with assms(1) show ?thesis
  proof (rule client_tick_split)
    fix a v b
    assume b: "voice_tick (ce_tick e) (vc_voice c) = (a, v)"
      "run_reconnect (vc_join c \<noteq> None) e (schedule_reconnect e (c\<lparr>vc_voice := v\<rparr>)) = (b, c')" "outs = map Vo a @ b"
    have "vm_mode (fst v) = Voice_disconnected" using tick_reach(2) [OF _ b(1)] assms(1,2) by (simp add: client_ok_def call_over_def)
    moreover have "schedule_reconnect e (c\<lparr>vc_voice := v\<rparr>) = c\<lparr>vc_voice := v\<rparr>"
      using assms(2) by (simp add: schedule_reconnect_def call_over_def)
    ultimately show ?thesis using b(2,3) assms(2) by (auto simp: run_reconnect_def call_over_def)
  qed
next
  case (Cl_join_step r now cap sink took)
  with assms(2,4) show ?thesis by (simp add: join_finished_def call_over_def)
qed (use assms(3) in auto)

fun client_run :: "client_op list \<Rightarrow> voice_client \<Rightarrow> client_out list \<times> voice_client" where
  "client_run [] c = ([], c)"
| "client_run (o' # os) c = (case client_step o' c of (a, c1) \<Rightarrow> case client_run os c1 of (b, c2) \<Rightarrow> (a @ b, c2))"

lemma failing_may: "failing o' \<Longrightarrow> (\<forall>e. o' = Cl_tick e \<longrightarrow> ce_check e \<le> ce_after e) \<Longrightarrow> client_may o' c"
  by (cases o') auto

definition clocked :: "client_op \<Rightarrow> bool" where
  "clocked o' \<longleftrightarrow> (\<forall>e. o' = Cl_tick e \<longrightarrow> ce_check e \<le> ce_after e)"

lemma failing_run:
  assumes "client_ok c" "list_all failing os" "list_all clocked os" "client_run os c = (outs, c')"
    "call_over c \<and> n = 1 \<or>
     (\<exists>due. vc_reconnect c = Some (due, ch, k) \<and> due \<le> t) \<and> vc_dropped_at c = Some d \<and> n = 0"
    "\<forall>o' \<in> set os. after_op o' t"
  shows "client_ok c' \<and>
    (call_over c' \<and> n + call_ends outs = 1 \<and> (n = 1 \<longrightarrow> attempts outs = 0) \<and> (n = 0 \<longrightarrow> k + attempts outs \<le> 16) \<or>
     (\<exists>due. vc_reconnect c' = Some (due, ch, k + attempts outs) \<and> due \<le> t) \<and> vc_dropped_at c' = Some d \<and> n + call_ends outs = 0)"
  using assms
proof (induction os arbitrary: c n k outs)
  case Nil
  then have "k \<le> 16" if "n = 0" using that by (auto simp: client_ok_def)
  with Nil show ?case by auto
next
  case (Cons o1 os)
  obtain a c1 where a: "client_step o1 c = (a, c1)" by (cases "client_step o1 c")
  obtain b where b: "client_run os c1 = (b, c')" "outs = a @ b" using Cons.prems(4) by (auto simp: a split: prod.splits)
  have f: "failing o1" "clocked o1" "list_all failing os" "list_all clocked os" "after_op o1 t" "\<forall>o' \<in> set os. after_op o' t"
    using Cons.prems(2,3,6) by simp_all
  have ok: "client_ok c1" using client_step_ok [OF Cons.prems(1) failing_may [OF f(1)] a] f(2) by (simp add: clocked_def)
  from Cons.prems(5) show ?case
  proof
    assume over: "call_over c \<and> n = 1"
    with over_stays [OF Cons.prems(1) _ f(1) a] have "call_over c1 \<and> n = 1" "call_ends a = 0" "attempts a = 0" by auto
    with Cons.IH [OF ok f(3,4) b(1), of 1 k] f(6) over show ?thesis by (simp add: b(2))
  next
    assume "(\<exists>due. vc_reconnect c = Some (due, ch, k) \<and> due \<le> t) \<and> vc_dropped_at c = Some d \<and> n = 0"
    then obtain due where g: "vc_reconnect c = Some (due, ch, k)" "due \<le> t" "vc_dropped_at c = Some d" "n = 0" by blast
    have "call_over c1 \<and> call_ends a = 1 \<and> attempts a = 0 \<or>
      call_ends a = 0 \<and> (\<exists>due. vc_reconnect c1 = Some (due, ch, k + attempts a) \<and> due \<le> t) \<and> vc_dropped_at c1 = Some d"
    proof (cases o1)
      case (Cl_tick e)
      then have "client_voice_tick e c = (a, c1)" "ce_after e + sfu_reconnect_max_gap \<le> t" using a f(5) by (simp_all add: after_op_def)
      with tick_while_dropped [OF Cons.prems(1) g(1,3)] g(2) show ?thesis by (fastforce split: if_splits)
    next
      case (Cl_join_step r now cap sink took)
      then have "join_finished Join_failed now cap sink took c = (a, c1)" using a f(1) by simp
      from failed_join_while_dropped [OF Cons.prems(1) _ this] g have "a = []" "c1 = c\<lparr>vc_join := None\<rparr>" by simp_all
      with g show ?thesis by simp
    qed (use f(1) in auto)
    then show ?thesis
    proof (elim disjE conjE)
      assume o': "call_over c1" "call_ends a = 1" "attempts a = 0"
      have "k \<le> 16" using Cons.prems(1) g(1) by (simp add: client_ok_def)
      with Cons.IH [OF ok f(3,4) b(1), of 1 k] f(6) o' g(4) show ?thesis by (simp add: b(2))
    next
      assume "call_ends a = 0" "\<exists>due. vc_reconnect c1 = Some (due, ch, k + attempts a) \<and> due \<le> t" "vc_dropped_at c1 = Some d"
      with Cons.IH [OF ok f(3,4) b(1), of 0 "k + attempts a"] f(6) g(4) show ?thesis by (simp add: b(2) add.assoc)
    qed
  qed
qed

text \<open>C7: While neither the backend nor the SFU can be reached and the user does nothing, a dropped call is given up: the first tick 30 s
  after the drop that finds the next attempt due and none under way, if none before it did, ends the call. The client hears so once;
  the channel, the token and the schedule are forgotten, and at most 16 attempts were made in all.
\<close>

theorem lost_call_is_given_up_once:
  assumes "client_reach c" "vc_reconnect c = Some (due, channel, k)" "vc_dropped_at c = Some d"
    "list_all failing os" "list_all clocked os" "client_run os c = (outs, c1)" "vc_join c1 = None"
    "failing (Cl_tick e)" "d + sfu_reconnect_give_up_after \<le> ce_check e" "due \<le> ce_check e"
    "\<forall>o' \<in> set os. after_op o' (ce_check e)" "client_step (Cl_tick e) c1 = (outs', c2)"
  shows "call_over c2 \<and> call_ends (outs @ outs') = 1 \<and> k + attempts (outs @ outs') \<le> 16"
proof -
  note r = failing_run [OF client_reach_ok [OF assms(1)] assms(4,5,6), of 0 channel k "ce_check e" d]
  have "client_ok c1 \<and> (call_over c1 \<and> call_ends outs = 1 \<and> k + attempts outs \<le> 16 \<or>
      (\<exists>due. vc_reconnect c1 = Some (due, channel, k + attempts outs) \<and> due \<le> ce_check e) \<and> vc_dropped_at c1 = Some d \<and> call_ends outs = 0)"
    using r assms(2,3,10,11) by simp
  then show ?thesis
  proof (elim conjE disjE exE)
    assume o': "client_ok c1" "call_over c1" "call_ends outs = 1" "k + attempts outs \<le> 16"
    with over_stays [OF o'(1,2) assms(8,12)] show ?thesis by simp
  next
    fix due'
    assume g: "client_ok c1" "vc_dropped_at c1 = Some d" "call_ends outs = 0"
      "vc_reconnect c1 = Some (due', channel, k + attempts outs)" "due' \<le> ce_check e"
    have "k + attempts outs \<le> 16" using g(1,4) by (simp add: client_ok_def)
    moreover have "client_voice_tick e c1 = (outs', c2)" using assms(12) by simp
    note tick_while_dropped [OF g(1,4,2) this]
    ultimately show ?thesis using g(3,5) assms(7,9) by simp
  qed
qed

text \<open>One attempt that the SFU refuses, and then a tick 31 s after the drop.\<close>

definition cut_off :: "instant \<Rightarrow> client_env" where "cut_off t = (env_at t)\<lparr>ce_answer := None\<rparr>"

definition refused :: "client_op list" where
  "refused = [Cl_tick (cut_off (millis 700)), Cl_join_step Join_failed (secs 1) False False False]"

lemma lost_call_is_given_up_once_witness:
  "call_over (snd (client_step (Cl_tick (cut_off (secs 31))) (snd (client_run refused dropped_call))))"
proof (rule lost_call_is_given_up_once [OF dropped_call_reach _ _ _ _ prod.collapse [symmetric] _ _ _ _ _ prod.collapse [symmetric], THEN conjunct1])
  show "vc_reconnect dropped_call = Some (millis 500, ''ch'', 0)" "vc_dropped_at dropped_call = Some 0" by (simp_all add: dropped_call_def)
  show "list_all failing refused" "list_all clocked refused" by (simp_all add: refused_def cut_off_def env_at_def clocked_def)
  show "failing (Cl_tick (cut_off (secs 31)))" by (simp add: cut_off_def)
  show "0 + sfu_reconnect_give_up_after \<le> ce_check (cut_off (secs 31))" "millis 500 \<le> ce_check (cut_off (secs 31))"
    by (simp_all add: cut_off_def env_at_def sfu_reconnect_give_up_after_def secs_def millis_def)
  show "\<forall>o' \<in> set refused. after_op o' (ce_check (cut_off (secs 31)))"
    by (simp add: refused_def after_op_def cut_off_def env_at_def sfu_reconnect_max_gap_def secs_def millis_def)
  show "vc_join (snd (client_run refused dropped_call)) = None"
    by (auto simp: refused_def join_finished_def on_sfu_voice_join_step_def on_voice_media_started_def split: prod.split option.split)
qed

section \<open>Finding\<close>

text \<open>
  A finding: the selection of another crew, and leaving the crew, end the session and tell the client so, but keep the channel, the
  schedule and the token. The next tick takes it for a drop, and the attempt half a second later joins the old call again.
\<close>

lemma crew_switch_keeps_the_call:
  assumes "select_crew_voice c = (outs, c')" "vc_channel c = Some channel"
  shows "Voice_state False Voice_disconnected \<in> set outs \<and> vc_channel c' = Some channel \<and> vc_grant c' = vc_grant c \<and>
    vc_reconnect c' = vc_reconnect c"
  using assms by (auto simp: select_crew_voice_def sfu_leave_if_connected_def joins_cancel_def vc_leave_voice_def)

lemma crew_switch_rejoins_the_old_call:
  assumes "client_reach c" "vc_mode c = Voice_sfu" "vc_channel c = Some channel" "vc_grant c = Some g"
    "jr_channel (vg_answer g) = channel" "select_crew_voice c = (outs, c1)" "client_voice_tick e1 c1 = (outs1, c2)"
    "ce_check e1 < ce_dropped e1 + sfu_reconnect_delay 0"
    "client_voice_tick e2 c2 = (outs2, c3)" "ce_dropped e1 + sfu_reconnect_delay 0 \<le> ce_check e2"
    "ce_check e2 < ce_dropped e1 + sfu_reconnect_give_up_after" "grant_is_fresh (vg_issued g) (ce_ask e2)"
  shows "\<exists>endpoint token. Connect \<lparr>sj_crew = vg_crew g, sj_channel = channel, sj_local = vg_local g, sj_reconnect = True\<rparr> endpoint token \<in> set outs2"
proof -
  have ok: "client_ok c" using assms(1) by (rule client_reach_ok)
  have none: "vc_reconnect c = None" "vc_join c = None"
    using ok assms(2) by (cases "vc_reconnect c"; cases "vc_join c"; simp add: client_ok_def)+
  have ok1: "client_ok c1" using left_ok(2) [OF ok assms(6)] .
  have c1: "vc_channel c1 = Some channel" "vc_grant c1 = Some g" "vc_join c1 = None" "vc_reconnect c1 = None" "vc_mode c1 = Voice_disconnected"
    using assms(3,4,6) none leave_keeps_mode [of "vc_voice c"] ok
    by (auto simp: select_crew_voice_def sfu_leave_if_connected_def joins_cancel_def vc_leave_voice_def client_ok_def)
  have mode: "vm_mode (fst v) = Voice_disconnected" if "client_ok c0" "vc_mode c0 = Voice_disconnected" "voice_tick te (vc_voice c0) = (a, v)" for c0 te a v
    using tick_reach(2) [OF _ that(3)] that(1,2) by (simp add: client_ok_def)
  have c2: "vc_channel c2 = Some channel" "vc_grant c2 = Some g" "vc_join c2 = None"
    "vc_reconnect c2 = Some (ce_dropped e1 + sfu_reconnect_delay 0, channel, 0)" "vc_dropped_at c2 = Some (ce_dropped e1)"
    "vc_mode c2 = Voice_disconnected"
    using assms(7,8) c1 mode [OF ok1 c1(5)]
    by (auto simp: client_voice_tick_def schedule_reconnect_def run_reconnect_def split: prod.splits)
  obtain a v where a: "voice_tick (ce_tick e2) (vc_voice c2) = (a, v)" by (cases "voice_tick (ce_tick e2) (vc_voice c2)")
  let ?c = "c2\<lparr>vc_voice := v, vc_dropped_at := Some (ce_dropped e1)\<rparr>"
  have "\<not> sfu_reconnect_give_up_after \<le> ce_check e2 - ce_dropped e1" "\<not> ce_check e2 < ce_dropped e1 + sfu_reconnect_delay 0"
    using assms(10,11) by auto
  then have "(outs2, c3) = (case attempt_reconnect channel 0 e2 ?c of (b, c') \<Rightarrow> (map Vo a @ b, c'))"
    using assms(9) by (simp add: client_voice_tick_def a schedule_reconnect_def c2 run_reconnect_def)
  moreover have "usable_grant channel (ce_ask e2) ?c = Some g" using assms(5,12) c2(2) by (simp add: usable_grant_def)
  ultimately obtain b c' where b: "start_voice_media (vg_crew g) (Some (vg_local g)) (vg_answer g) True ?c = (b, c')" "set b \<subseteq> set outs2"
    by (cases "start_voice_media (vg_crew g) (Some (vg_local g)) (vg_answer g) True ?c")
      (auto simp: attempt_reconnect_def reconnect_voice_def)
  have "\<exists>endpoint token. Connect \<lparr>sj_crew = vg_crew g, sj_channel = channel, sj_local = vg_local g, sj_reconnect = True\<rparr> endpoint token \<in> set b"
    using b(1) assms(5) by (auto simp: start_voice_media_def joins_connect_def sfu_leave_if_connected_def Let_def)
  with b(2) show ?thesis by blast
qed

end
