(* ===== verification/Spec2Isabelle.thy ===== *)
theory Spec2Isabelle
  imports Session_Ends Upload_Queue Upload_Pace Upload_Worker Upload_Worker_Props Range_Reader
    Quality_Controller Stream_Session Viewer_Congestion Teardown Reconnect Loop_Watchdog
    Stream_Control Stream_Host Stream_Host_Video Stream_Host_Props Stream_Host_View
    Game_Sensing Game_Session Game_Tracking Game_Window Game_Ledger Game_Restart
    Catalogue Catalogue_Head Library Library_Props Library_Report Library_Consent
    Game_Resolve Game_Resolve_Props Log_Tail Log_Adapters Log_Adapter_Props
    Telemetry_Json Push_Adapters Poll_Adapters Adapter_Props
    Voice_Speaking Voice_Manager Voice_Props Voice_Client Voice_Client_Props
begin

text \<open>
  Verification of the core of the mello desktop client (src/mello-core/src, Rust).

  The client is one process. A command loop takes the commands of the user interface, a 20 ms tick
  drives voice and streams, and a few threads beside it do what may block: the clip upload, the
  range reader of clip playback, the teardown of native objects and the watchdog of the loop. The
  backend (Nakama), the media server (SFU), the native media library (libmello) and the user
  interface are not part of the model: what they answer is a parameter of the definitions that
  call them, with the assumptions a theorem needs written in its statement.

  How the source is translated. A struct is a record and an enum a datatype, with the names of the
  source and a prefix per struct. A method is a function that takes the struct last and returns the
  new one with its result. A \<open>Result\<close> is a sum (\<open>Inl\<close> the error), an \<open>Option\<close> an option. An
  unsigned integer is a natural number with the wrap of its width written out (\<open>wrap_u\<close>,
  \<open>sat_sub\<close>), an \<open>i64\<close> an integer with \<open>wrap_i64\<close>; the release build has no overflow checks.
  \<open>f64\<close> values are rationals rounded as IEEE 754 does (Rust_Float). \<open>Instant\<close> and \<open>Duration\<close>
  are nanoseconds, the time of a call is an argument of the function. Log lines are left out,
  except where a report is what the code is for. A thread is a step relation or a function of one
  turn, so that a run is a list of steps in any order.

  The theories, from the library to the components:

  Prelude: lists, slices, saturated and wrapped arithmetic, decimal numbers, durations.
  Machine: locales for a state machine with an invariant, for a machine with outputs, and for a
  bounded queue; their lemmas about runs are proved once and used through interpretations.
  Rust_Float: rounding of \<open>f64\<close> and the conversions to integers, with the error bounds.

  Session_Ends (pending_session_ends.rs): the queue of session reports not yet sent. Bounded and
  ordered after any calls; a flush sends a prefix; a report that is always refused leaves.
  Upload_Queue (clip_upload/queue.rs): the queue of clips to upload; what a push saved is read back.
  Upload_Pace (clip_upload/pace.rs, stream/upload_budget.rs): the governor of the upload beside a
  stream, the token bucket and the paced reader. The reader's wait runs on fuel, since a stream
  may pause the upload for as long as it lives; \<open>paced_read_pause\<close> gives the fuel that is enough.
  Upload_Worker, Upload_Worker_Props (clip_upload/worker.rs, http.rs): the steps of one clip over
  the RPC and HTTP services (record \<open>services\<close>), and the loop of the thread. A step makes the
  calls its state asks for and no other, a clip is done after one step per part and four more, a
  bucket that refuses cannot make the worker loop, the loop keeps the queue in order.
  Range_Reader (clip_play/range_reader.rs, clip_play/mod.rs): the cache file, its coverage, the
  reads of the player and the steps of the fetch thread, in any interleaving.
  Quality_Controller (stream/controller.rs): the ladder of rungs, the encode size, the bitrate and
  the rung switches, over every sequence of inputs and ticks; the rung message to the viewers.
  Stream_Session (stream/config.rs, pause.rs, members.rs, viewer_format.rs, pacer.rs): presets,
  capture targets, the pause card, the member list against a map of roles.
  Viewer_Congestion (stream/congestion.rs): the receive target of a viewer.
  Stream_Control (stream/cursor.rs, client/stream_ffi.rs): the pointer messages, and what the
  viewer's callback makes of each control message.
  Stream_Host (stream/manager.rs, stream/host.rs): the run loop of a host, which composes the
  quality controller, the pause controller and the upload governor. What it does to the encoder,
  the pacer, the sink and the user interface is a log, \<open>mg_out\<close>; what they answer is an argument
  of the event, and a run is any list of events (\<open>host_step\<close>). Stream_Host_Frame holds which handlers
  leave the video path alone. Stream_Host_Video: a delta frame is only sent right after the frame
  the encoder made before it, but for the drain of a backlog that ends in a keyframe; the lemma
  \<open>keyframe_from_backlog_skips_a_frame\<close> shows that this exception is real. Stream_Host_Props: the
  keyframe requests keep their cooldowns, and encoder and pacer follow the controller.
  Stream_Host_View: a late joiner sees the stream as it is, through Stream_Control.
  Teardown (stream/teardown.rs): workers and watchdogs of teardowns as an inductive step relation
  over one shared count, with the invariant that the count is exact; the guard object.
  Reconnect (client/reconnect.rs, client/stream_link.rs, client/voice.rs): the reconnect supervisor,
  the stream link with its rebuild schedule, refined to a monitor of three flags; the rejoin schedule of voice.
  Loop_Watchdog (client/loop_watchdog.rs): the steps of the loop and the budget of a voice tick.
  Game_Sensing (game_sensing.rs, session_store.rs): the scan loop of the game sensor, in the parts of
  its body; a hash map is an association list and the order of a visit an argument.
  Game_Session (game_state.rs, telemetry/mod.rs): the open game sessions of the client.
  Game_Tracking: after any scans the sessions are the tracked games. Game_Window: a game opens only
  with a window up and ends without one. Game_Ledger: the summary of a session, and the games whose
  adapter opens the session. Game_Restart: a restart of the client while games run, and three places
  where a session is lost or shown wrong.

  Utf8_Text: the text functions of the standard library that the parsers use; a text is its UTF-8
  bytes, so the functions that depend on a character outside ASCII stay arguments.
  Catalogue, Catalogue_Head (catalogue.rs, scripts/build_catalogue.py): the index of Steam ids is
  what the build script encodes and is refused when it is cut; the binary search, the lookup of an
  executable against its table, and what an accepted head is.
  Library, Library_Props (library.rs): the VDF parser, the manifests of the launchers, the local
  Steam data and the index of install folders. A file that can be read is an argument. A text that
  is printed is read back, and the keys that are dropped are nowhere in what was parsed.
  Library_Report, Library_Consent (library_report.rs, client/game_services.rs, client/mod.rs): what a report
  of installed games holds, and that the document on the server follows the consent of the user over any
  scans, settings, logins and failed calls; the lemma \<open>no_clear_after_restart\<close> shows where it does not.
  Game_Resolve, Game_Resolve_Props (game_sensing.rs, unresolved.rs): how the sensor names the game of a
  process, over the catalogue and the library; the cache of the engine files changes no answer where
  the file system ignores the case of a name, a provisional id is its words, the tally stays small.
  Log_Tail (telemetry/log_tail.rs): the thread that follows a log; a line is fed once and whole, however
  the writes fall, as long as the file does not end inside a character (\<open>torn_character_loses_line\<close>).
  Log_Adapters, Log_Adapter_Props (telemetry/poe_log.rs, roblox_log.rs, hearthstone_log.rs): what three
  adapters make of their lines; a Roblox session is open as the log says, a Hearthstone match has
  one result, a Path of Exile run is what its log said.

  Telemetry_Json: a JSON value and what the derived decoders of serde make of one; the reader of a JSON
  text is an argument, and an integer has any size.
  Push_Adapters, Poll_Adapters, Adapter_Props (telemetry/listener.rs, cs2_gsi.rs, dota2_gsi.rs, steam.rs,
  rocket_league.rs, lol_live.rs, sc2_client.rs, lor_local.rs, minecraft_stats.rs): the adapters that a game
  posts to and those that ask a running game. The locales \<open>match_machine\<close> (a result only after a start) and
  \<open>match_reports\<close> (the results are those that the payloads decide) are interpreted on each of them; through
  Game_Ledger the open sessions gain exactly these results.

  Voice_Speaking (voice/speaking.rs, feed_reload.rs, transport/sfu_region.rs): the limiter of the speaking
  state and its messages: a remote ring never sticks. The locale \<open>rate_gate\<close> says what the presence limiter and the gate
  of the feed share. The choice of a region is the fastest one by median.
  Voice_Manager, Voice_Props (voice/mod.rs, send_sink.rs, frame.rs): the voice session, with libmello's side of it
  (\<open>native_voice\<close>) as a second state: manager and libmello agree after any operations, a dead link is dropped once, a stall
  is shown once and ends as it should.
  Voice_Client, Voice_Client_Props (client/voice.rs, client/sfu_voice_join.rs, the voice parts of client/crew.rs, auth.rs,
  connection.rs, tick_gating.rs): the join off the loop and the schedule of the rejoins, over the voice manager. A
  session starts only when none is open, a dropped call is rejoined by at most 16 attempts and given up once;
  \<open>crew_switch_rejoins_the_old_call\<close> shows that the selection of another crew does not end a call.

  How the parts meet. The lines of Log_Tail are read by the adapters of Log_Adapters, whose events are
  those of Game_Session, as are the events of Push_Adapters and Poll_Adapters. Voice_Client steps Voice_Manager, which sends through
  Voice_Speaking. The library that a scan finds (Library) is what a report is built from (Library_Report).
  The events of the sensor (Game_Sensing) are what the sessions of Game_Session are
  made of, and what the sensor saves is what its next run recovers. The upload worker (Upload_Worker) reads its queue from Upload_Queue and its
  rate from Upload_Pace; the rate is set by the governor from the load that the quality controller
  computes (\<open>stream_load\<close> is made of the rung, the encoder overload and the estimates of
  Quality_Controller). The rung messages of Quality_Controller, the pause messages and the member
  events of Stream_Session are what the viewers of one stream see; the viewers' receive target is
  the REMB input of the controller. Teardown ends the native objects of the streams that the link
  of Reconnect rebuilds.

  Bounds. The queue of reports holds 200 entries and a report has five attempts; the upload queue
  holds 50 clips. Where a number is a field of 32 or 64 bits and the theorem needs that no wrap
  happens, the statement says so with the bound.

  Of the stream manager the counters that are only logged or reported are left out, and with them
  the lines that read them. The queues of the host hold 32 and 128 packets, a drain takes at most 32.

  Not modelled: network and file I/O beyond the outcome of a call, JSON text (a codec with the law
  that it reads back what it wrote), FFI to the media library, the threads of the encoder and the
  decoder, the signalling of the SFU (transport/sfu_connection.rs), the encoders and decoders of a stream, chat, log texts, the user interface (src/client, src/hud), the backend (Go) and the native
  library (C++). The order in which the operating system runs threads is free in the models of
  threads; a mutex makes the section it protects one step.
\<close>

end
